(* ===== verification/Boltz_Prelude.thy ===== *)
theory Boltz_Prelude
  imports Main "HOL-Library.Word" "HOL-Library.Multiset" "HOL-Library.List_Lexorder"
    "HOL-Library.Product_Lexorder"
begin

text \<open>
  Shared vocabulary of the development: the type names of the machine integers and byte strings
  of the Rust code, the result type that carries its errors and its panics, its sequencing, and
  the generic lemmas on lists, sums and words that the component theories use.

  A Rust function of type \<open>Result<T, E>\<close> is a function into \<open>('e, 't) result\<close>: \<open>Ok\<close> and \<open>Err\<close>
  are the two variants of the Rust enum, and \<open>Panic\<close> is the abort of the process that an
  \<open>unwrap\<close>, an \<open>expect\<close> or an out-of-range index causes. The \<open>?\<close> operator is \<open>r_bind\<close>.
\<close>

named_theorems result_simps \<open>rewriting the sequencing of fallible code\<close>
named_theorems u64_simps \<open>reading 64-bit arithmetic as arithmetic on the naturals\<close>

type_synonym byte = "8 word"
type_synonym bytes = "byte list"
type_synonym u32 = "32 word"
type_synonym u64 = "64 word"

datatype ('e, 'a) result = Ok 'a | Err 'e | Panic

fun r_bind :: "('e, 'a) result \<Rightarrow> ('a \<Rightarrow> ('e, 'b) result) \<Rightarrow> ('e, 'b) result" where
  "r_bind (Ok x) f = f x"
| "r_bind (Err e) f = Err e"
| "r_bind Panic f = Panic"

fun r_map :: "('a \<Rightarrow> 'b) \<Rightarrow> ('e, 'a) result \<Rightarrow> ('e, 'b) result" where
  "r_map f (Ok x) = Ok (f x)"
| "r_map f (Err e) = Err e"
| "r_map f Panic = Panic"

fun r_map_err :: "('e \<Rightarrow> 'f) \<Rightarrow> ('e, 'a) result \<Rightarrow> ('f, 'a) result" where
  "r_map_err f (Ok x) = Ok x"
| "r_map_err f (Err e) = Err (f e)"
| "r_map_err f Panic = Panic"

text \<open>\<open>Option::ok_or\<close>, \<open>Option::expect\<close> and \<open>Result::is_ok\<close>.\<close>

fun ok_or :: "'e \<Rightarrow> 'a option \<Rightarrow> ('e, 'a) result" where
  "ok_or e (Some x) = Ok x"
| "ok_or e None = Err e"

fun expect :: "'a option \<Rightarrow> ('e, 'a) result" where
  "expect (Some x) = Ok x"
| "expect None = Panic"

fun is_ok :: "('e, 'a) result \<Rightarrow> bool" where
  "is_ok (Ok _) = True"
| "is_ok _ = False"

text \<open>A \<open>for\<close> loop whose body may return early and which pushes one value per iteration.\<close>

fun r_mapM :: "('a \<Rightarrow> ('e, 'b) result) \<Rightarrow> 'a list \<Rightarrow> ('e, 'b list) result" where
  "r_mapM f [] = Ok []"
| "r_mapM f (x # xs) = r_bind (f x) (\<lambda>y. r_bind (r_mapM f xs) (\<lambda>ys. Ok (y # ys)))"

text \<open>A \<open>for\<close> loop whose body may return early and which updates a state.\<close>

fun r_fold :: "('a \<Rightarrow> 's \<Rightarrow> ('e, 's) result) \<Rightarrow> 'a list \<Rightarrow> 's \<Rightarrow> ('e, 's) result" where
  "r_fold f [] s = Ok s"
| "r_fold f (x # xs) s = r_bind (f x s) (r_fold f xs)"

subsection \<open>Sequencing\<close>

lemma r_bind_Ok_iff [simp, result_simps]:
  "r_bind m f = Ok y \<longleftrightarrow> (\<exists>x. m = Ok x \<and> f x = Ok y)"
  by (cases m) auto

lemma r_bind_Err_iff [result_simps]:
  "r_bind m f = Err e \<longleftrightarrow> m = Err e \<or> (\<exists>x. m = Ok x \<and> f x = Err e)"
  by (cases m) auto

lemma r_bind_Panic_iff [result_simps]:
  "r_bind m f = Panic \<longleftrightarrow> m = Panic \<or> (\<exists>x. m = Ok x \<and> f x = Panic)"
  by (cases m) auto

lemma r_map_Ok_iff [simp, result_simps]: "r_map f m = Ok y \<longleftrightarrow> (\<exists>x. m = Ok x \<and> y = f x)"
  by (cases m) auto

lemma r_map_err_Ok_iff [simp, result_simps]: "r_map_err f m = Ok y \<longleftrightarrow> m = Ok y"
  by (cases m) auto

lemma r_map_err_Err_iff [result_simps]:
  "r_map_err f m = Err e \<longleftrightarrow> (\<exists>e'. m = Err e' \<and> e = f e')"
  by (cases m) auto

lemma ok_or_Ok_iff [simp, result_simps]: "ok_or e x = Ok y \<longleftrightarrow> x = Some y"
  by (cases x) auto

lemma ok_or_not_Panic [simp]: "ok_or e x \<noteq> Panic"
  by (cases x) auto

lemma ok_or_Err_iff [result_simps]: "ok_or e x = Err e' \<longleftrightarrow> x = None \<and> e' = e"
  by (cases x) auto

lemma expect_Ok_iff [simp, result_simps]: "expect x = Ok y \<longleftrightarrow> x = Some y"
  by (cases x) auto

lemma r_mapM_Ok_iff:
  "r_mapM f xs = Ok ys \<longleftrightarrow> list_all2 (\<lambda>x y. f x = Ok y) xs ys"
proof (induction xs arbitrary: ys)
  case Nil
  then show ?case by (cases ys) auto
next
  case (Cons x xs)
  then show ?case by (cases ys) auto
qed

lemma r_mapM_length: "r_mapM f xs = Ok ys \<Longrightarrow> length ys = length xs"
  by (auto simp: r_mapM_Ok_iff dest: list_all2_lengthD)

lemma r_mapM_all_Ok: "(\<And>x. x \<in> set xs \<Longrightarrow> f x = Ok (g x)) \<Longrightarrow> r_mapM f xs = Ok (map g xs)"
  by (induction xs) auto

lemma r_mapM_mem: "r_mapM f xs = Ok ys \<Longrightarrow> y \<in> set ys \<Longrightarrow> \<exists>x \<in> set xs. f x = Ok y"
  by (induction xs arbitrary: ys) auto

lemma r_mapM_all_mem: "r_mapM f xs = Ok ys \<Longrightarrow> x \<in> set xs \<Longrightarrow> \<exists>y \<in> set ys. f x = Ok y"
  by (induction xs arbitrary: ys) auto

lemma r_mapM_image:
  assumes "r_mapM f xs = Ok ys" and "\<And>x y. f x = Ok y \<Longrightarrow> g y = h x"
  shows "g ` set ys = h ` set xs"
proof -
  have "map g ys = map h xs"
    using assms by (auto simp: r_mapM_Ok_iff list_all2_conv_all_nth intro!: nth_equalityI)
  then show ?thesis by (metis list.set_map)
qed

lemma r_fold_invariant:
  assumes "r_fold f xs s = Ok s'" and "P s"
    and "\<And>x s s'. x \<in> set xs \<Longrightarrow> P s \<Longrightarrow> f x s = Ok s' \<Longrightarrow> P s'"
  shows "P s'"
  using assms
proof (induction xs arbitrary: s)
  case Nil
  then show ?case by simp
next
  case (Cons x xs)
  from Cons.prems(1) obtain t where t: "f x s = Ok t" and rest: "r_fold f xs t = Ok s'" by auto
  have "P t" using Cons.prems(2) t by (auto intro: Cons.prems(3))
  with rest show ?case by (rule Cons.IH) (auto intro: Cons.prems(3))
qed

text \<open>The same with the elements already visited as part of the invariant.\<close>

lemma r_fold_prefix_invariant:
  assumes "r_fold f xs s = Ok s'" and "P ps s"
    and "\<And>ps x s s'. P ps s \<Longrightarrow> f x s = Ok s' \<Longrightarrow> P (ps @ [x]) s'"
  shows "P (ps @ xs) s'"
  using assms
proof (induction xs arbitrary: ps s)
  case Nil
  then show ?case by simp
next
  case (Cons x xs)
  from Cons.prems(1) obtain t where t: "f x s = Ok t" and rest: "r_fold f xs t = Ok s'" by auto
  have "P (ps @ [x]) t" using Cons.prems(2) t by (rule Cons.prems(3))
  from Cons.IH [OF rest this Cons.prems(3)] show ?case by simp
qed

text \<open>A loop each of whose iterations adds a set of elements to what is observed of the state.\<close>

lemma r_fold_union:
  assumes "r_fold f xs s = Ok s'"
    and "\<And>x s s'. f x s = Ok s' \<Longrightarrow> obs s' = obs s \<union> c x"
  shows "obs s' = obs s \<union> (\<Union>x\<in>set xs. c x)"
  using assms(1)
proof (induction xs arbitrary: s)
  case Nil
  then show ?case by simp
next
  case (Cons x xs)
  then obtain t where "f x s = Ok t" and "r_fold f xs t = Ok s'" by auto
  with Cons.IH assms(2) show ?case by auto
qed

lemma r_fold_total: "(\<And>x s. \<exists>s'. f x s = Ok s') \<Longrightarrow> \<exists>s'. r_fold f xs s = Ok s'"
proof (induction xs arbitrary: s)
  case (Cons x xs)
  then obtain t where "f x s = Ok t" by blast
  with Cons show ?case by simp
qed simp

lemma fold_union:
  assumes "\<And>x s. x \<in> set xs \<Longrightarrow> obs (f x s) = obs s \<union> c x"
  shows "obs (fold f xs s) = obs s \<union> (\<Union>x\<in>set xs. c x)"
  using assms by (induction xs arbitrary: s) auto

subsection \<open>Chunks\<close>

text \<open>\<open>slice::chunks\<close>; the source never asks for chunks of size zero, which would panic.\<close>

function chunks :: "nat \<Rightarrow> 'a list \<Rightarrow> 'a list list" where
  "chunks n xs = (if n = 0 \<or> xs = [] then [] else take n xs # chunks n (drop n xs))"
  by auto
termination by (relation "measure (length \<circ> snd)") auto

declare chunks.simps [simp del]

lemma concat_chunks: "0 < n \<Longrightarrow> concat (chunks n xs) = xs"
proof (induction n xs rule: chunks.induct)
  case (1 n xs)
  then show ?case by (subst chunks.simps) simp
qed

lemma set_chunks: "0 < n \<Longrightarrow> (\<Union>c \<in> set (chunks n xs). set c) = set xs"
  using concat_chunks [of n xs] by (metis set_concat)

text \<open>\<open>(start..end).step_by(step)\<close>.\<close>

function step_range :: "nat \<Rightarrow> nat \<Rightarrow> nat \<Rightarrow> nat list" where
  "step_range start e step =
     (if step = 0 \<or> e \<le> start then [] else start # step_range (start + step) e step)"
  by auto
termination by (relation "measure (\<lambda>(start, e, step). e - start)") auto

declare step_range.simps [simp del]

lemma step_range_mem: "x \<in> set (step_range s e g) \<Longrightarrow> s \<le> x \<and> x < e"
proof (induction s e g rule: step_range.induct)
  case (1 s e g)
  then show ?case by (subst (asm) (2) step_range.simps) (force split: if_splits)
qed

subsection \<open>Unsigned 64-bit arithmetic\<close>

text \<open>Values of words are read as naturals throughout.\<close>

declare of_nat_unat [simp del]

text \<open>\<open>u64::checked_sub\<close>; and the largest value, to which a cast from \<open>f64\<close> saturates.\<close>

definition checked_sub :: "u64 \<Rightarrow> u64 \<Rightarrow> u64 option" where
  "checked_sub a b = (if b \<le> a then Some (a - b) else None)"

definition u64_max :: nat where
  "u64_max = 18446744073709551615"

lemma unat_u64_bound [u64_simps]: "unat (a :: u64) \<le> u64_max"
  using unsigned_less [of a, where 'a = nat] by (simp add: u64_max_def)

lemma checked_sub_Some_iff:
  "checked_sub a b = Some c \<longleftrightarrow> unat b \<le> unat a \<and> unat c = unat a - unat b"
  by (auto simp: checked_sub_def word_le_nat_alt unat_sub word_unat_eq_iff)

lemma checked_sub_None_iff: "checked_sub a b = None \<longleftrightarrow> unat a < unat b"
  by (auto simp: checked_sub_def word_le_nat_alt)

lemma unat_of_nat_u32: "n < 2 ^ 32 \<Longrightarrow> unat (word_of_nat n :: u32) = n"
  by (simp add: unat_of_nat)

lemma unat_add_u32: "unat a + unat b < 2 ^ 32 \<Longrightarrow> unat (a + b :: u32) = unat a + unat b"
  by (simp add: unat_word_ariths)

lemma unat_add_u64 [u64_simps]:
  "unat a + unat b \<le> u64_max \<Longrightarrow> unat (a + b :: u64) = unat a + unat b"
  by (simp add: unat_word_ariths u64_max_def)

lemma unat_sum_list_u64:
  "sum_list (map unat xs) \<le> u64_max \<Longrightarrow> unat (sum_list xs :: u64) = sum_list (map unat xs)"
proof (induction xs)
  case Nil
  then show ?case by simp
next
  case (Cons x xs)
  then have "unat (sum_list xs) = sum_list (map unat xs)" by simp
  with Cons.prems show ?case by (simp add: unat_add_u64)
qed

subsection \<open>Lists\<close>

text \<open>\<open>Iterator::find_map\<close>.\<close>

fun find_map :: "('a \<Rightarrow> 'b option) \<Rightarrow> 'a list \<Rightarrow> 'b option" where
  "find_map f [] = None"
| "find_map f (x # xs) = (case f x of Some y \<Rightarrow> Some y | None \<Rightarrow> find_map f xs)"

lemma find_map_SomeD: "find_map f xs = Some y \<Longrightarrow> \<exists>x \<in> set xs. f x = Some y"
  by (induction xs) (auto split: option.splits)

lemma find_map_None_iff: "find_map f xs = None \<longleftrightarrow> (\<forall>x \<in> set xs. f x = None)"
  by (induction xs) (auto split: option.splits)

text \<open>\<open>Iterator::max\<close> over an iterator that may be empty.\<close>

fun iter_max :: "'a::linorder list \<Rightarrow> 'a option" where
  "iter_max [] = None"
| "iter_max (x # xs) = Some (fold max xs x)"

lemma fold_max_ge: "a \<le> fold max xs (a::'a::linorder)"
  by (induction xs arbitrary: a) (auto intro: order.trans [OF max.cobounded2])

lemma fold_max_upper: "x \<in> set xs \<Longrightarrow> x \<le> fold max xs (a::'a::linorder)"
proof (induction xs arbitrary: a)
  case Nil
  then show ?case by simp
next
  case (Cons y ys)
  have "y \<le> fold max ys (max y a)"
    by (rule order.trans [OF max.cobounded1 fold_max_ge])
  with Cons show ?case by auto
qed

lemma fold_max_mem: "fold max xs (a::'a::linorder) \<in> insert a (set xs)"
proof (induction xs arbitrary: a)
  case Nil
  then show ?case by simp
next
  case (Cons y ys)
  from Cons.IH [of "max y a"] show ?case by (auto simp: max_def split: if_splits)
qed

lemma iter_max_SomeD:
  "iter_max xs = Some m \<Longrightarrow> m \<in> set xs \<and> (\<forall>x \<in> set xs. x \<le> m)"
  using fold_max_mem fold_max_ge fold_max_upper by (cases xs) fastforce+

lemma iter_max_None_iff [simp]: "iter_max xs = None \<longleftrightarrow> xs = []"
  by (cases xs) auto

lemma sum_list_perm:
  fixes f :: "'a \<Rightarrow> 'b::comm_monoid_add"
  shows "mset xs = mset ys \<Longrightarrow> sum_list (map f xs) = sum_list (map f ys)"
  by (metis mset_map sum_mset_sum_list)

lemma map_eq_imp_nth:
  "map f xs = map g ys \<Longrightarrow> i < length xs \<Longrightarrow> f (xs ! i) = g (ys ! i)"
  by (metis length_map nth_map)

end
