(* ===== verification/Swap_Types.thy ===== *)
theory Swap_Types
  imports Boltz_Prelude
begin

text \<open>
  Pairs (\<open>src/boltzr/src/utils/pair.rs\<close>), swap states (\<open>src/boltzr/src/swap/status.rs\<close>) and swap
  kinds (\<open>src/boltzr/src/db/models/mod.rs\<close>), and the swap records of the database with the symbols
  and outpoints read from them (\<open>swap.rs\<close>, \<open>reverse_swap.rs\<close> and \<open>chain_swap.rs\<close> in
  \<open>src/boltzr/src/db/models\<close>). Signed 32-bit columns are 32-bit words.
\<close>

type_synonym i32 = "32 word"
type_synonym i64 = "64 word"

subsection \<open>Pairs\<close>

datatype order_side = Buy | Sell

fun order_side_i32 :: "order_side \<Rightarrow> i32" where
  "order_side_i32 Buy = 0"
| "order_side_i32 Sell = 1"

record pair =
  pair_base :: string
  pair_quote :: string

text \<open>\<open>str::split\<close>: there is always at least one part.\<close>

fun split_on :: "'a \<Rightarrow> 'a list \<Rightarrow> 'a list list" where
  "split_on c [] = [[]]"
| "split_on c (x # xs) =
     (if x = c then [] # split_on c xs
      else (case split_on c xs of [] \<Rightarrow> [[x]] | p # ps \<Rightarrow> (x # p) # ps))"

datatype pair_error = InvalidPair string

definition split_pair :: "string \<Rightarrow> (pair_error, pair) result" where
  "split_pair p =
     (case split_on CHR ''/'' p of
        [base, quote] \<Rightarrow> Ok \<lparr>pair_base = base, pair_quote = quote\<rparr>
      | _ \<Rightarrow> Err (InvalidPair p))"

definition concat_pair :: "string \<Rightarrow> string \<Rightarrow> string" where
  "concat_pair base quote = base @ ''/'' @ quote"

lemma split_on_not_Nil [simp]: "split_on c xs \<noteq> []"
  by (cases xs) (auto split: list.splits)

lemma split_on_cases:
  obtains p ps where "split_on c xs = p # ps"
  by (meson list.exhaust split_on_not_Nil)

lemma split_on_single: "split_on c xs = [ys] \<longleftrightarrow> ys = xs \<and> c \<notin> set xs"
proof (induction xs arbitrary: ys)
  case Nil
  then show ?case by auto
next
  case (Cons x xs)
  obtain p ps where "split_on c xs = p # ps" by (rule split_on_cases)
  with Cons.IH [of p] Cons.IH [of xs] show ?case by auto
qed

lemma split_on_two:
  "split_on c xs = [ys, zs] \<longleftrightarrow> xs = ys @ c # zs \<and> c \<notin> set ys \<and> c \<notin> set zs"
proof (induction xs arbitrary: ys)
  case Nil
  then show ?case by auto
next
  case (Cons x xs)
  show ?case
  proof (cases "x = c")
    case True
    then show ?thesis by (cases ys) (auto simp: split_on_single)
  next
    case False
    obtain p ps where p: "split_on c xs = p # ps" by (rule split_on_cases)
    have "split_on c (x # xs) = [ys, zs] \<longleftrightarrow> (\<exists>ys'. ys = x # ys' \<and> split_on c xs = [ys', zs])"
      using False p by auto
    also have "\<dots> \<longleftrightarrow> (\<exists>ys'. ys = x # ys' \<and> xs = ys' @ c # zs \<and> c \<notin> set ys' \<and> c \<notin> set zs)"
      by (simp only: Cons.IH)
    also have "\<dots> \<longleftrightarrow> x # xs = ys @ c # zs \<and> c \<notin> set ys \<and> c \<notin> set zs"
      using False by (cases ys) auto
    finally show ?thesis .
  qed
qed

text \<open>
  Pair ids and pairs correspond one to one. \<open>split_pair\<close> accepts a string exactly when it
  holds one slash, and then returns the parts before and after it; so it inverts \<open>concat_pair\<close> on
  symbols without a slash, and every accepted string is the concatenation of its parts.
\<close>

theorem split_pair_iff:
  "(split_pair s = Ok \<lparr>pair_base = b, pair_quote = q\<rparr>)
     = (s = concat_pair b q \<and> CHR ''/'' \<notin> set b \<and> CHR ''/'' \<notin> set q)"
proof -
  have "split_pair s = Ok \<lparr>pair_base = b, pair_quote = q\<rparr> \<longleftrightarrow> split_on CHR ''/'' s = [b, q]"
    by (auto simp: split_pair_def split: list.splits)
  then show ?thesis by (simp add: split_on_two concat_pair_def)
qed

subsection \<open>States\<close>

datatype swap_update =
    SwapCreated | SwapExpired | TransactionMempool | TransactionConfirmed
  | TransactionClaimPending | TransactionClaimed | TransactionLockupFailed
  | TransactionZeroconfRejected | TransactionDirect | TransactionRefunded
  | TransactionServerMempool | TransactionServerConfirmed
  | InvoiceSet | InvoicePending | InvoicePaid | InvoiceFailedToPay | Unknown

fun swap_update_display :: "swap_update \<Rightarrow> string" where
  "swap_update_display SwapCreated = ''swap.created''"
| "swap_update_display SwapExpired = ''swap.expired''"
| "swap_update_display TransactionMempool = ''transaction.mempool''"
| "swap_update_display TransactionConfirmed = ''transaction.confirmed''"
| "swap_update_display TransactionClaimPending = ''transaction.claim.pending''"
| "swap_update_display TransactionClaimed = ''transaction.claimed''"
| "swap_update_display TransactionLockupFailed = ''transaction.lockupFailed''"
| "swap_update_display TransactionZeroconfRejected = ''transaction.zeroconf.rejected''"
| "swap_update_display TransactionDirect = ''transaction.direct''"
| "swap_update_display TransactionRefunded = ''transaction.refunded''"
| "swap_update_display TransactionServerMempool = ''transaction.server.mempool''"
| "swap_update_display TransactionServerConfirmed = ''transaction.server.confirmed''"
| "swap_update_display InvoiceSet = ''invoice.set''"
| "swap_update_display InvoicePending = ''invoice.pending''"
| "swap_update_display InvoicePaid = ''invoice.paid''"
| "swap_update_display InvoiceFailedToPay = ''invoice.failedToPay''"
| "swap_update_display Unknown = ''Unknown''"

text \<open>The variants in the order of the enum, which the derived \<open>EnumString\<close> tries in turn.\<close>

definition swap_updates :: "swap_update list" where
  "swap_updates = [SwapCreated, SwapExpired, TransactionMempool, TransactionConfirmed,
     TransactionClaimPending, TransactionClaimed, TransactionLockupFailed,
     TransactionZeroconfRejected, TransactionDirect, TransactionRefunded,
     TransactionServerMempool, TransactionServerConfirmed,
     InvoiceSet, InvoicePending, InvoicePaid, InvoiceFailedToPay, Unknown]"

definition swap_update_try_from :: "string \<Rightarrow> swap_update option" where
  "swap_update_try_from s = List.find (\<lambda>u. swap_update_display u = s) swap_updates"

definition swap_update_parse :: "string \<Rightarrow> swap_update" where
  "swap_update_parse s = (case swap_update_try_from s of Some u \<Rightarrow> u | None \<Rightarrow> Unknown)"

definition serialize_swap_updates :: "swap_update list \<Rightarrow> string list" where
  "serialize_swap_updates status = map swap_update_display status"

lemma in_swap_updates [simp]: "u \<in> set swap_updates"
  by (cases u) (simp_all add: swap_updates_def)

lemma swap_update_display_distinct: "distinct (map swap_update_display swap_updates)"
  by (simp add: swap_updates_def)

lemma swap_update_display_inj [simp]: "swap_update_display u = swap_update_display v \<longleftrightarrow> u = v"
  using swap_update_display_distinct by (auto simp: distinct_map dest: inj_onD)

lemma swap_update_try_from_iff [simp]: "swap_update_try_from s = Some u \<longleftrightarrow> s = swap_update_display u"
proof
  assume "s = swap_update_display u"
  moreover have "List.find (\<lambda>v. v = u) us = Some u" if "u \<in> set us" for us
    using that by (induction us) auto
  ultimately show "swap_update_try_from s = Some u" by (simp add: swap_update_try_from_def)
qed (auto simp: swap_update_try_from_def find_Some_iff)

text \<open>
  States survive the database. Parsing the printed form of a state gives the state back, for
  every state; a known state is only ever read from its own printed form, and all other strings
  are read as \<open>Unknown\<close>.
\<close>

theorem swap_update_roundtrip:
  "map swap_update_parse (serialize_swap_updates us) = us
   \<and> (swap_update_parse s = u)
     = (s = swap_update_display u \<or> (u = Unknown \<and> s \<notin> range swap_update_display))"
proof -
  have rt: "swap_update_parse (swap_update_display u) = u" for u
  proof -
    have "swap_update_try_from (swap_update_display u) = Some u" by simp
    then show ?thesis by (simp only: swap_update_parse_def option.case)
  qed
  moreover have "swap_update_parse s = Unknown" if "s \<notin> range swap_update_display"
  proof -
    have "swap_update_try_from s = None" using that by (cases "swap_update_try_from s") auto
    then show ?thesis by (simp add: swap_update_parse_def)
  qed
  ultimately have "(swap_update_parse s = u)
      = (s = swap_update_display u \<or> (u = Unknown \<and> s \<notin> range swap_update_display))"
    by (metis rangeE rangeI)
  with rt show ?thesis by (simp add: serialize_swap_updates_def map_idI)
qed

subsection \<open>Kinds and versions\<close>

datatype swap_type = Submarine | Reverse | Chain

datatype model_error =
    InvalidSwapType u64 | InvalidSwapTypeName string | InvalidSwapVersion i32
  | ModelPair pair_error | InvalidNumberOfData | InvalidData | HexError

fun swap_type_display :: "swap_type \<Rightarrow> string" where
  "swap_type_display Submarine = ''Submarine''"
| "swap_type_display Reverse = ''Reverse''"
| "swap_type_display Chain = ''Chain''"

definition swap_type_try_from :: "u64 \<Rightarrow> (model_error, swap_type) result" where
  "swap_type_try_from v =
     (if v = 0 then Ok Submarine else if v = 1 then Ok Reverse else if v = 2 then Ok Chain
      else Err (InvalidSwapType v))"

fun swap_type_u64 :: "swap_type \<Rightarrow> u64" where
  "swap_type_u64 Submarine = 0"
| "swap_type_u64 Reverse = 1"
| "swap_type_u64 Chain = 2"

fun swap_type_serialize :: "swap_type \<Rightarrow> string" where
  "swap_type_serialize Submarine = ''submarine''"
| "swap_type_serialize Reverse = ''reverse''"
| "swap_type_serialize Chain = ''chain''"

definition swap_type_deserialize :: "string \<Rightarrow> (model_error, swap_type) result" where
  "swap_type_deserialize v =
     (if v = ''submarine'' then Ok Submarine else if v = ''reverse'' then Ok Reverse
      else if v = ''chain'' then Ok Chain else Err (InvalidSwapTypeName v))"

datatype swap_version = VersionLegacy | VersionTaproot

definition swap_version_try_from :: "i32 \<Rightarrow> (model_error, swap_version) result" where
  "swap_version_try_from v =
     (if v = 0 then Ok VersionLegacy else if v = 1 then Ok VersionTaproot
      else Err (InvalidSwapVersion v))"

text \<open>
  The two encodings of a swap kind are exact: a number or a name decodes to a kind exactly
  when it is the encoding of that kind, and is refused with itself otherwise.
\<close>

theorem swap_type_encodings:
  "(swap_type_try_from n = Ok t) = (n = swap_type_u64 t)
   \<and> (swap_type_try_from n = Err e) = (e = InvalidSwapType n \<and> n \<notin> range swap_type_u64)
   \<and> (swap_type_deserialize s = Ok t) = (s = swap_type_serialize t)
   \<and> (swap_type_deserialize s = Err e)
     = (e = InvalidSwapTypeName s \<and> s \<notin> range swap_type_serialize)"
proof (intro conjI)
  show num: "(swap_type_try_from n = Ok t) = (n = swap_type_u64 t)" for t
    by (cases t) (auto simp: swap_type_try_from_def)
  show name: "(swap_type_deserialize s = Ok t) = (s = swap_type_serialize t)" for t
    by (cases t) (auto simp: swap_type_deserialize_def)
  have "swap_type_try_from n = Err (InvalidSwapType n) \<or> (\<exists>t. swap_type_try_from n = Ok t)"
    by (simp add: swap_type_try_from_def)
  then show "(swap_type_try_from n = Err e) = (e = InvalidSwapType n \<and> n \<notin> range swap_type_u64)"
    using num by (metis rangeE rangeI result.distinct(1) result.inject(2))
  have "swap_type_deserialize s = Err (InvalidSwapTypeName s) \<or> (\<exists>t. swap_type_deserialize s = Ok t)"
    by (simp add: swap_type_deserialize_def)
  then show "(swap_type_deserialize s = Err e)
      = (e = InvalidSwapTypeName s \<and> s \<notin> range swap_type_serialize)"
    using name by (metis rangeE rangeI result.distinct(1) result.inject(2))
qed

subsection \<open>Swap records\<close>

text \<open>The columns the modelled code reads.\<close>

record swap =
  sw_id :: string
  sw_version :: i32
  sw_referral :: "string option"
  sw_pair :: string
  sw_order_side :: i32
  sw_status :: string
  sw_failure_reason :: "string option"
  sw_preimage :: "string option"
  sw_preimage_hash :: string
  sw_invoice :: "string option"
  sw_key_index :: "i32 option"
  sw_refund_public_key :: "string option"
  sw_timeout_block_height :: i32
  sw_redeem_script :: "string option"
  sw_lockup_address :: string
  sw_lockup_transaction_id :: "string option"
  sw_lockup_transaction_vout :: "i32 option"
  sw_created_at :: int
  sw_onchain_amount :: "i64 option"
  sw_refund_address :: "string option"

record reverse_swap =
  rs_id :: string
  rs_version :: i32
  rs_pair :: string
  rs_order_side :: i32
  rs_status :: string
  rs_invoice :: string
  rs_preimage_hash :: string
  rs_transaction_id :: "string option"
  rs_transaction_vout :: "i32 option"
  rs_claim_public_key :: "string option"
  rs_claim_address :: "string option"
  rs_key_index :: "i32 option"
  rs_lockup_address :: string
  rs_timeout_block_height :: i32
  rs_redeem_script :: "string option"
  rs_created_at :: int
  rs_onchain_amount :: i64

record chain_swap =
  cs_id :: string
  cs_pair :: string
  cs_order_side :: i32
  cs_status :: string
  cs_preimage :: "string option"
  cs_preimage_hash :: string
  cs_created_at :: int

record chain_swap_data =
  cd_swap_id :: string
  cd_symbol :: string
  cd_key_index :: "i32 option"
  cd_their_public_key :: "string option"
  cd_claim_address :: "string option"
  cd_swap_tree :: "string option"
  cd_timeout_block_height :: i32
  cd_lockup_address :: string
  cd_transaction_id :: "string option"
  cd_transaction_vout :: "i32 option"
  cd_amount :: "i64 option"

record chain_swap_info =
  ci_swap :: chain_swap
  ci_sending :: chain_swap_data
  ci_receiving :: chain_swap_data

text \<open>\<open>if self.orderSide == OrderSide::Buy as i32\<close>, with the symbols of the two branches.\<close>

definition pair_side ::
  "(string \<Rightarrow> (pair_error, pair) result) \<Rightarrow> i32 \<Rightarrow> (pair \<Rightarrow> string) \<Rightarrow> (pair \<Rightarrow> string) \<Rightarrow> string
    \<Rightarrow> (pair_error, string) result" where
  "pair_side split side on_buy on_sell p =
     r_bind (split p) (\<lambda>pr. Ok (if side = order_side_i32 Buy then on_buy pr else on_sell pr))"

definition sw_chain_symbol :: "swap \<Rightarrow> (pair_error, string) result" where
  "sw_chain_symbol s = pair_side split_pair (sw_order_side s) pair_quote pair_base (sw_pair s)"

definition sw_lightning_symbol :: "swap \<Rightarrow> (pair_error, string) result" where
  "sw_lightning_symbol s = pair_side split_pair (sw_order_side s) pair_base pair_quote (sw_pair s)"

definition sw_claim_symbol :: "swap \<Rightarrow> (pair_error, string) result" where
  "sw_claim_symbol s = sw_chain_symbol s"

definition sw_refund_symbol :: "swap \<Rightarrow> (pair_error, string) result" where
  "sw_refund_symbol s = sw_lightning_symbol s"

definition sw_status_of :: "swap \<Rightarrow> swap_update" where
  "sw_status_of s = swap_update_parse (sw_status s)"

definition rs_chain_symbol :: "reverse_swap \<Rightarrow> (pair_error, string) result" where
  "rs_chain_symbol s = pair_side split_pair (rs_order_side s) pair_base pair_quote (rs_pair s)"

definition rs_lightning_symbol :: "reverse_swap \<Rightarrow> (pair_error, string) result" where
  "rs_lightning_symbol s = pair_side split_pair (rs_order_side s) pair_quote pair_base (rs_pair s)"

definition rs_claim_symbol :: "reverse_swap \<Rightarrow> (pair_error, string) result" where
  "rs_claim_symbol s = rs_lightning_symbol s"

definition rs_refund_symbol :: "reverse_swap \<Rightarrow> (pair_error, string) result" where
  "rs_refund_symbol s = rs_chain_symbol s"

definition rs_status_of :: "reverse_swap \<Rightarrow> swap_update" where
  "rs_status_of s = swap_update_parse (rs_status s)"

definition find_side :: "chain_swap_data list \<Rightarrow> string \<Rightarrow> chain_swap_data option" where
  "find_side data symbol = List.find (\<lambda>entry. cd_symbol entry = symbol) data"

definition chain_swap_info_new ::
  "chain_swap \<Rightarrow> chain_swap_data list \<Rightarrow> (model_error, chain_swap_info) result" where
  "chain_swap_info_new s data =
     (if length data \<noteq> 2 then Err InvalidNumberOfData
      else r_bind (r_map_err ModelPair (split_pair (cs_pair s))) (\<lambda>pr.
        let buy = (cs_order_side s = order_side_i32 Buy);
            sending_data = find_side data (if buy then pair_base pr else pair_quote pr);
            receiving_data = find_side data (if buy then pair_quote pr else pair_base pr)
        in case (sending_data, receiving_data) of
             (Some sending, Some receiving) \<Rightarrow>
               Ok \<lparr>ci_swap = s, ci_sending = sending, ci_receiving = receiving\<rparr>
           | _ \<Rightarrow> Err InvalidData))"

definition ci_claim_symbol :: "chain_swap_info \<Rightarrow> (pair_error, string) result" where
  "ci_claim_symbol c = Ok (cd_symbol (ci_receiving c))"

definition ci_refund_symbol :: "chain_swap_info \<Rightarrow> (pair_error, string) result" where
  "ci_refund_symbol c = Ok (cd_symbol (ci_sending c))"

definition ci_status_of :: "chain_swap_info \<Rightarrow> swap_update" where
  "ci_status_of c = swap_update_parse (cs_status (ci_swap c))"

text \<open>
  The outpoint we send to, from the hexadecimal transaction id with its bytes reversed; \<open>vout as u32\<close>
  keeps the bits.
\<close>

record swap_outpoint =
  op_hash :: bytes
  op_vout :: u32

definition outpoint_of ::
  "(string \<Rightarrow> bytes option) \<Rightarrow> string option \<Rightarrow> i32 option \<Rightarrow> (model_error, swap_outpoint option) result"
where
  "outpoint_of hex_decode tx_id vout_column =
     (case (tx_id, vout_column) of
        (Some i, Some v) \<Rightarrow>
          r_bind (ok_or HexError (hex_decode i)) (\<lambda>hash.
            Ok (Some \<lparr>op_hash = rev hash, op_vout = v\<rparr>))
      | _ \<Rightarrow> Ok None)"

definition rs_sending_outpoint ::
  "(string \<Rightarrow> bytes option) \<Rightarrow> reverse_swap \<Rightarrow> (model_error, swap_outpoint option) result" where
  "rs_sending_outpoint hex_decode s =
     outpoint_of hex_decode (rs_transaction_id s) (rs_transaction_vout s)"

definition sw_sending_outpoint :: "swap \<Rightarrow> (model_error, swap_outpoint option) result" where
  "sw_sending_outpoint s = Ok None"

definition ci_sending_outpoint ::
  "(string \<Rightarrow> bytes option) \<Rightarrow> chain_swap_info \<Rightarrow> (model_error, swap_outpoint option) result" where
  "ci_sending_outpoint hex_decode c =
     outpoint_of hex_decode (cd_transaction_id (ci_sending c)) (cd_transaction_vout (ci_sending c))"

subsection \<open>The contract of a swap\<close>

text \<open>
  The trait \<open>SomeSwap\<close> as an interface: for an order side the service sends one symbol of the pair
  and receives the other; it claims what it receives and refunds what it sends.
\<close>

definition receiving_symbol :: "i32 \<Rightarrow> pair \<Rightarrow> string" where
  "receiving_symbol side pr = (if side = order_side_i32 Buy then pair_quote pr else pair_base pr)"

definition sending_symbol :: "i32 \<Rightarrow> pair \<Rightarrow> string" where
  "sending_symbol side pr = (if side = order_side_i32 Buy then pair_base pr else pair_quote pr)"

locale some_swap =
  fixes wf :: "'s \<Rightarrow> bool"
    and pair_of :: "'s \<Rightarrow> string"
    and side_of :: "'s \<Rightarrow> i32"
    and claim_symbol :: "'s \<Rightarrow> (pair_error, string) result"
    and refund_symbol :: "'s \<Rightarrow> (pair_error, string) result"
  assumes claim_law:
    "wf s \<Longrightarrow> split_pair (pair_of s) = Ok pr \<Longrightarrow> claim_symbol s = Ok (receiving_symbol (side_of s) pr)"
    and refund_law:
    "wf s \<Longrightarrow> split_pair (pair_of s) = Ok pr \<Longrightarrow> refund_symbol s = Ok (sending_symbol (side_of s) pr)"
begin

text \<open>Claiming and refunding never touch the same side, and together they give the pair back.\<close>

lemma claim_refund_pair:
  assumes "wf s" and "split_pair (pair_of s) = Ok pr" and "claim_symbol s = Ok c"
    and "refund_symbol s = Ok r"
  shows "pair_of s = (if side_of s = order_side_i32 Buy then concat_pair r c else concat_pair c r)"
proof -
  have "pair_of s = concat_pair (pair_base pr) (pair_quote pr)"
    using assms(2) by (cases pr) (auto simp: split_pair_def split_on_two concat_pair_def split: list.splits)
  with claim_law [OF assms(1,2)] refund_law [OF assms(1,2)] assms(3,4) show ?thesis
    by (auto simp: receiving_symbol_def sending_symbol_def)
qed

end

text \<open>A chain swap as \<open>ChainSwapInfo::new\<close> makes it; its fields are private.\<close>

definition chain_swap_wf :: "chain_swap_info \<Rightarrow> bool" where
  "chain_swap_wf c \<longleftrightarrow> (\<exists>data. chain_swap_info_new (ci_swap c) data = Ok c)"

lemma find_side_symbol: "find_side data symbol = Some d \<Longrightarrow> cd_symbol d = symbol \<and> d \<in> set data"
  by (auto simp: find_side_def find_Some_iff)

lemma chain_swap_info_new_Ok:
  assumes "chain_swap_info_new s data = Ok c" and "split_pair (cs_pair s) = Ok pr"
  shows "ci_swap c = s" "cd_symbol (ci_sending c) = sending_symbol (cs_order_side s) pr"
    "cd_symbol (ci_receiving c) = receiving_symbol (cs_order_side s) pr"
    "ci_sending c \<in> set data" "ci_receiving c \<in> set data"
  using assms
  by (auto simp: chain_swap_info_new_def Let_def sending_symbol_def receiving_symbol_def
      dest: find_side_symbol split: if_splits option.splits)

interpretation submarine: some_swap "\<lambda>_. True" sw_pair sw_order_side sw_claim_symbol sw_refund_symbol
  by unfold_locales
    (auto simp: sw_claim_symbol_def sw_refund_symbol_def sw_chain_symbol_def sw_lightning_symbol_def
      pair_side_def receiving_symbol_def sending_symbol_def)

interpretation reverse: some_swap "\<lambda>_. True" rs_pair rs_order_side rs_claim_symbol rs_refund_symbol
  by unfold_locales
    (auto simp: rs_claim_symbol_def rs_refund_symbol_def rs_chain_symbol_def rs_lightning_symbol_def
      pair_side_def receiving_symbol_def sending_symbol_def)

interpretation chain: some_swap chain_swap_wf "cs_pair \<circ> ci_swap" "cs_order_side \<circ> ci_swap"
    ci_claim_symbol ci_refund_symbol
proof
  fix c pr
  assume "chain_swap_wf c" and pr: "split_pair ((cs_pair \<circ> ci_swap) c) = Ok pr"
  then obtain data where "chain_swap_info_new (ci_swap c) data = Ok c"
    by (auto simp: chain_swap_wf_def)
  from chain_swap_info_new_Ok [OF this] pr
  show "ci_claim_symbol c = Ok (receiving_symbol ((cs_order_side \<circ> ci_swap) c) pr)"
    and "ci_refund_symbol c = Ok (sending_symbol ((cs_order_side \<circ> ci_swap) c) pr)"
    by (simp_all add: ci_claim_symbol_def ci_refund_symbol_def)
qed

text \<open>
  All three kinds of swap agree on the sides of a pair. For a swap with the given pair and
  order side, submarine, reverse and chain swaps claim the symbol the service receives and refund
  the symbol it sends, which are the two symbols of the pair.
\<close>

theorem swap_symbols_agree:
  assumes "split_pair p = Ok pr"
    and "sw_pair s = p" "sw_order_side s = side"
    and "rs_pair r = p" "rs_order_side r = side"
    and "chain_swap_info_new cs data = Ok c" "cs_pair cs = p" "cs_order_side cs = side"
  shows "sw_claim_symbol s = Ok (receiving_symbol side pr)
    \<and> rs_claim_symbol r = Ok (receiving_symbol side pr)
    \<and> ci_claim_symbol c = Ok (receiving_symbol side pr)
    \<and> sw_refund_symbol s = Ok (sending_symbol side pr)
    \<and> rs_refund_symbol r = Ok (sending_symbol side pr)
    \<and> ci_refund_symbol c = Ok (sending_symbol side pr)
    \<and> mset [receiving_symbol side pr, sending_symbol side pr] = mset [pair_base pr, pair_quote pr]"
proof -
  have c: "chain_swap_wf c" "ci_swap c = cs"
    using assms(1,6,7) chain_swap_info_new_Ok(1) [OF assms(6), of pr] by (auto simp: chain_swap_wf_def)
  have "mset [receiving_symbol side pr, sending_symbol side pr] = mset [pair_base pr, pair_quote pr]"
    by (simp add: receiving_symbol_def sending_symbol_def)
  then show ?thesis
    using submarine.claim_law [of s pr] submarine.refund_law [of s pr] reverse.claim_law [of r pr]
      reverse.refund_law [of r pr] chain.claim_law [OF c(1), of pr] chain.refund_law [OF c(1), of pr]
      c(2) assms by simp
qed

subsection \<open>Witnesses\<close>

definition example_swap :: swap where
  "example_swap = \<lparr>sw_id = ''s'', sw_version = 1, sw_referral = None, sw_pair = ''L-BTC/BTC'', sw_order_side = 0,
     sw_status = ''swap.created'', sw_failure_reason = None, sw_preimage = None,
     sw_preimage_hash = [], sw_invoice = None, sw_key_index = None, sw_refund_public_key = None,
     sw_timeout_block_height = 0, sw_redeem_script = None, sw_lockup_address = [],
     sw_lockup_transaction_id = None, sw_lockup_transaction_vout = None, sw_created_at = 0,
     sw_onchain_amount = None, sw_refund_address = None\<rparr>"

definition example_reverse_swap :: reverse_swap where
  "example_reverse_swap = \<lparr>rs_id = ''r'', rs_version = 1, rs_pair = ''L-BTC/BTC'',
     rs_order_side = 0, rs_status = ''swap.created'', rs_invoice = [], rs_preimage_hash = [],
     rs_transaction_id = None, rs_transaction_vout = None, rs_claim_public_key = None,
     rs_claim_address = None,
     rs_key_index = None, rs_lockup_address = [], rs_timeout_block_height = 0,
     rs_redeem_script = None, rs_created_at = 0, rs_onchain_amount = 0\<rparr>"

definition example_chain_swap :: chain_swap where
  "example_chain_swap = \<lparr>cs_id = ''c'', cs_pair = ''L-BTC/BTC'', cs_order_side = 0,
     cs_status = ''swap.created'', cs_preimage = None, cs_preimage_hash = [], cs_created_at = 0\<rparr>"

definition example_chain_data :: "string \<Rightarrow> chain_swap_data" where
  "example_chain_data symbol = \<lparr>cd_swap_id = ''c'', cd_symbol = symbol, cd_key_index = None,
     cd_their_public_key = None, cd_claim_address = None, cd_swap_tree = None, cd_timeout_block_height = 0,
     cd_lockup_address = [], cd_transaction_id = None, cd_transaction_vout = None, cd_amount = None\<rparr>"

lemma example_pair:
  "split_pair ''L-BTC/BTC'' = Ok \<lparr>pair_base = ''L-BTC'', pair_quote = ''BTC''\<rparr>"
  by (simp add: split_pair_def)

lemma example_chain_info:
  "chain_swap_info_new example_chain_swap [example_chain_data ''BTC'', example_chain_data ''L-BTC'']
     = Ok \<lparr>ci_swap = example_chain_swap, ci_sending = example_chain_data ''L-BTC'',
           ci_receiving = example_chain_data ''BTC''\<rparr>"
  by (simp add: chain_swap_info_new_def example_chain_swap_def example_pair find_side_def
      example_chain_data_def)

theorem swap_symbols_agree_witness:
  "sw_claim_symbol example_swap = Ok ''BTC'' \<and> rs_claim_symbol example_reverse_swap = Ok ''BTC''
   \<and> sw_refund_symbol example_swap = Ok ''L-BTC''"
  using swap_symbols_agree [OF example_pair, of example_swap 0 example_reverse_swap,
      OF _ _ _ _ example_chain_info]
  by (simp add: example_swap_def example_reverse_swap_def example_chain_swap_def
      receiving_symbol_def sending_symbol_def)

end
