(* ===== verification/F64.thy ===== *)
theory F64
  imports Boltz_Prelude "HOL-Library.Log_Nat"
begin

text \<open>
  The double-precision arithmetic of the language: the finite values of \<open>f64\<close> are rationals,
  an operation computes the exact rational result and rounds it to the nearest value with a
  53-bit significand and an exponent of at least \<open>-1074\<close>, ties to even. \<open>ceil\<close> is exact, and a
  cast to \<open>u64\<close> truncates and saturates, as the Rust reference defines the \<open>as\<close> operator.
  The two zeros of the format are one value here; no operation below tells them apart.
\<close>

datatype f64 = Finite rat | Infinite bool | NaN

text \<open>The exponent of the leading bit of a positive rational.\<close>

definition ilog2 :: "rat \<Rightarrow> int" where
  "ilog2 x =
     (let k = int (floorlog 2 (nat (fst (quotient_of x))))
            - int (floorlog 2 (nat (snd (quotient_of x))))
      in if x < 2 powi k then k - 1 else k)"

definition round_even :: "rat \<Rightarrow> int" where
  "round_even y =
     (let n = \<lfloor>y\<rfloor>; d = y - of_int n
      in if d < 1 / 2 then n else if 1 / 2 < d then n + 1 else if even n then n else n + 1)"

definition ulp :: "rat \<Rightarrow> rat" where
  "ulp x = 2 powi (max (ilog2 \<bar>x\<bar> - 52) (-1074))"

definition min_normal :: rat where
  "min_normal = 2 powi (-1022)"

definition fl :: "rat \<Rightarrow> rat" where
  "fl x = (if x = 0 then 0 else of_int (round_even (x / ulp x)) * ulp x)"

definition f64_round :: "rat \<Rightarrow> f64" where
  "f64_round x =
     (let y = fl x in if 2 ^ 1024 \<le> y then Infinite False
      else if y \<le> - (2 ^ 1024) then Infinite True else Finite y)"

definition f64_of_u64 :: "u64 \<Rightarrow> f64" where
  "f64_of_u64 n = f64_round (of_nat (unat n))"

fun f64_mul :: "f64 \<Rightarrow> f64 \<Rightarrow> f64" where
  "f64_mul (Finite a) (Finite b) = f64_round (a * b)"
| "f64_mul (Finite a) (Infinite s) = (if a = 0 then NaN else Infinite (s \<noteq> (a < 0)))"
| "f64_mul (Infinite s) (Finite b) = (if b = 0 then NaN else Infinite (s \<noteq> (b < 0)))"
| "f64_mul (Infinite s) (Infinite t) = Infinite (s \<noteq> t)"
| "f64_mul NaN _ = NaN"
| "f64_mul _ NaN = NaN"

fun f64_div :: "f64 \<Rightarrow> f64 \<Rightarrow> f64" where
  "f64_div (Finite a) (Finite b) =
     (if b = 0 then (if a = 0 then NaN else Infinite (a < 0)) else f64_round (a / b))"
| "f64_div (Finite a) (Infinite s) = Finite 0"
| "f64_div (Infinite s) (Finite b) = Infinite (s \<noteq> (b < 0))"
| "f64_div (Infinite s) (Infinite t) = NaN"
| "f64_div NaN _ = NaN"
| "f64_div _ NaN = NaN"

fun f64_ceil :: "f64 \<Rightarrow> f64" where
  "f64_ceil (Finite a) = Finite (of_int \<lceil>a\<rceil>)"
| "f64_ceil x = x"

fun f64_to_u64 :: "f64 \<Rightarrow> u64" where
  "f64_to_u64 (Finite a) = of_nat (min (nat \<lfloor>a\<rfloor>) u64_max)"
| "f64_to_u64 (Infinite s) = (if s then 0 else of_nat u64_max)"
| "f64_to_u64 NaN = 0"

fun f64_is_finite :: "f64 \<Rightarrow> bool" where
  "f64_is_finite (Finite _) = True"
| "f64_is_finite _ = False"

fun f64_lt_zero :: "f64 \<Rightarrow> bool" where
  "f64_lt_zero (Finite a) = (a < 0)"
| "f64_lt_zero (Infinite s) = s"
| "f64_lt_zero NaN = False"

subsection \<open>The leading bit\<close>

lemma floorlog_rat_bounds:
  assumes "0 < (p::int)"
  shows "(2::rat) powi (int (floorlog 2 (nat p)) - 1) \<le> of_int p"
    and "(of_int p::rat) < 2 powi int (floorlog 2 (nat p))"
proof -
  let ?a = "floorlog 2 (nat p)"
  have a: "0 < ?a" using assms floorlog_eq_zero_iff [of 2 "nat p"] by auto
  have p0: "0 < nat p" using assms by simp
  note lo = conjunct1 [OF floorlog_bounds [OF p0, of 2]]
  note hi = conjunct2 [OF floorlog_bounds [OF p0, of 2]]
  have p: "(of_int p::rat) = of_nat (nat p)" using assms by simp
  from lo have "(of_nat (2 ^ (?a - 1))::rat) \<le> of_nat (nat p)"
    by (simp only: of_nat_le_iff)
  then have "(2::rat) ^ (?a - 1) \<le> of_int p" unfolding p by simp
  moreover have "int ?a - 1 = int (?a - 1)" using a by linarith
  ultimately show "(2::rat) powi (int ?a - 1) \<le> of_int p"
    by (simp only: power_int_of_nat)
  from hi have "(of_nat (nat p)::rat) < of_nat (2 ^ ?a)"
    by (simp only: of_nat_less_iff)
  then show "(of_int p::rat) < 2 powi int ?a" unfolding p by simp
qed

lemma ilog2_bounds:
  assumes "0 < x"
  shows "2 powi ilog2 x \<le> x" and "x < 2 powi (ilog2 x + 1)"
proof -
  obtain p q where pq: "quotient_of x = (p, q)" by (cases "quotient_of x")
  then have q: "0 < q" by (rule quotient_of_denom_pos)
  have x: "x = of_int p / of_int q" using pq by (rule quotient_of_div)
  with assms q have p: "0 < p" by (simp add: zero_less_divide_iff)
  define a where "a = int (floorlog 2 (nat p))"
  define b where "b = int (floorlog 2 (nat q))"
  note P = floorlog_rat_bounds [OF p, folded a_def]
  note Q = floorlog_rat_bounds [OF q, folded b_def]
  have "(2::rat) powi (a - b - 1) * of_int q \<le> 2 powi (a - b - 1) * 2 powi b"
    using Q(2) by (intro mult_left_mono) auto
  also have "\<dots> = 2 powi (a - 1)" by (simp add: power_int_add [symmetric])
  also note P(1)
  finally have lo: "2 powi (a - b - 1) \<le> x" using q by (simp add: x le_divide_eq)
  note P(2)
  also have "2 powi a = 2 powi (a - b + 1) * (2::rat) powi (b - 1)"
    by (simp add: power_int_add [symmetric])
  also have "\<dots> \<le> 2 powi (a - b + 1) * of_int q"
    using Q(1) by (intro mult_left_mono) auto
  finally have hi: "x < 2 powi (a - b + 1)" using q by (simp add: x divide_less_eq)
  show "2 powi ilog2 x \<le> x" "x < 2 powi (ilog2 x + 1)"
    using lo hi pq by (auto simp: ilog2_def Let_def a_def b_def)
qed

lemma powi_less_exp: "(2::rat) powi m < 2 powi n \<Longrightarrow> m < n"
  by (rule ccontr) (auto simp: not_less dest: power_int_increasing [of n m "2::rat"])

subsection \<open>Rounding\<close>

lemma min_normal_pos: "0 < min_normal"
  unfolding min_normal_def by (rule zero_less_power_int) simp

lemma min_normal_le_1: "min_normal \<le> 1"
  unfolding min_normal_def by (simp only: power_int_minus) simp

lemma round_even_error: "\<bar>of_int (round_even y) - y\<bar> \<le> 1 / 2"
proof -
  have "of_int \<lfloor>y\<rfloor> \<le> y" "y < of_int \<lfloor>y\<rfloor> + 1" by linarith+
  then show ?thesis by (auto simp: round_even_def Let_def abs_le_iff)
qed

lemma round_even_of_int [simp]: "round_even (of_int n) = n"
  by (simp add: round_even_def)

lemma round_even_nonneg: "0 \<le> y \<Longrightarrow> 0 \<le> round_even y"
  by (auto simp: round_even_def Let_def)

lemma ulp_pos [simp]: "0 < ulp x"
  by (simp add: ulp_def)

lemma ulp_nonneg [simp]: "0 \<le> ulp x"
  by (rule less_imp_le) simp

lemma ulp_not_zero [simp]: "ulp x \<noteq> 0"
  using ulp_pos [of x] by (rule less_imp_neq [THEN not_sym])

lemma fl_zero [simp]: "fl 0 = 0"
  by (simp add: fl_def)

lemma fl_nonneg: "0 \<le> x \<Longrightarrow> 0 \<le> fl x"
  by (auto simp: fl_def intro!: mult_nonneg_nonneg round_even_nonneg divide_nonneg_pos)

lemma fl_error: "\<bar>fl x - x\<bar> \<le> ulp x / 2"
proof (cases "x = 0")
  case True
  then show ?thesis by simp
next
  case False
  have "fl x - x = (of_int (round_even (x / ulp x)) - x / ulp x) * ulp x"
    using False by (simp add: fl_def left_diff_distrib)
  then have "\<bar>fl x - x\<bar> = \<bar>of_int (round_even (x / ulp x)) - x / ulp x\<bar> * ulp x"
    by (simp add: abs_mult)
  also have "\<dots> \<le> 1 / 2 * ulp x"
    using round_even_error by (intro mult_right_mono) auto
  finally show ?thesis by simp
qed

text \<open>Above the subnormal range the relative error of a rounding is at most \<open>2 ^ -53\<close>.\<close>

lemma ulp_normal:
  assumes "min_normal \<le> x"
  shows "ulp x \<le> x / 2 ^ 52"
proof -
  have x: "0 < x" using min_normal_pos assms by (rule order.strict_trans2)
  have "(2::rat) powi (-1022) < 2 powi (ilog2 x + 1)"
    using assms ilog2_bounds(2) [OF x] unfolding min_normal_def by (rule order.strict_trans1)
  then have "-1022 < ilog2 x + 1" by (rule powi_less_exp)
  then have "ulp x = 2 powi (ilog2 x - 52)" using x by (simp add: ulp_def)
  also have "\<dots> = 2 powi ilog2 x / 2 ^ 52"
    by (simp add: power_int_diff power_int_numeral)
  also have "\<dots> \<le> x / 2 ^ 52" using ilog2_bounds(1) [OF x] by (simp add: divide_right_mono)
  finally show ?thesis .
qed

lemma fl_relative:
  assumes "min_normal \<le> x"
  shows "x * (1 - 1 / 2 ^ 53) \<le> fl x" and "fl x \<le> x * (1 + 1 / 2 ^ 53)"
proof -
  have "ulp x / 2 \<le> x / 2 ^ 53" using ulp_normal [OF assms] by simp
  with fl_error [of x] have "\<bar>fl x - x\<bar> \<le> x / 2 ^ 53" by (rule order.trans)
  then have "fl x - x \<le> x / 2 ^ 53" "x - fl x \<le> x / 2 ^ 53" by linarith+
  then show "x * (1 - 1 / 2 ^ 53) \<le> fl x" "fl x \<le> x * (1 + 1 / 2 ^ 53)"
    by (simp_all add: algebra_simps)
qed

text \<open>Naturals below \<open>2 ^ 53\<close> are represented exactly.\<close>

lemma fl_of_nat_exact:
  assumes "n < 2 ^ 53"
  shows "fl (of_nat n) = of_nat n"
proof (cases "n = 0")
  case False
  let ?e = "ilog2 (of_nat n) - 52"
  have "(2::rat) powi ilog2 (of_nat n) \<le> of_nat n" using False by (simp add: ilog2_bounds)
  also have "\<dots> < of_nat (2 ^ 53)" using assms by (simp only: of_nat_less_iff)
  also have "\<dots> = (2::rat) powi 53" by (simp add: power_int_numeral)
  finally have "ilog2 (of_nat n) < 53" by (rule powi_less_exp)
  then have "max ?e (-1074) = - int (nat (- max ?e (-1074)))" by auto
  then obtain k where u: "ulp (of_nat n) = 1 / 2 ^ k"
    by (metis (no_types) ulp_def abs_of_nat power_int_minus_divide power_int_of_nat)
  have "of_nat n / ulp (of_nat n) = (of_int (int n * 2 ^ k) :: rat)" by (simp add: u)
  then have "round_even (of_nat n / ulp (of_nat n)) = int n * 2 ^ k"
    by (metis round_even_of_int)
  then show ?thesis using False by (simp add: fl_def u)
qed simp

subsection \<open>The operations on the values the program uses\<close>

lemma fl_subnormal:
  assumes "0 \<le> x" and "x < min_normal"
  shows "fl x \<le> 2"
proof (cases "x = 0")
  case False
  note min_normal_le_1
  with assms(2) have x: "x \<le> 1" by linarith
  from False assms(1) have "2 powi ilog2 x \<le> x" by (intro ilog2_bounds) simp
  with x have "(2::rat) powi ilog2 x < 2 powi 1" by simp
  then have "ilog2 x < 1" by (rule powi_less_exp)
  then have "ulp x \<le> 2 powi 0"
    unfolding ulp_def using assms(1) by (intro power_int_increasing) auto
  then have "ulp x \<le> 1" by simp
  with fl_error [of x] x show ?thesis by linarith
qed simp

lemma fl_not_huge:
  assumes "0 \<le> x" and "x \<le> 2 ^ 1000"
  shows "fl x < 2 ^ 1024" and "- (2 ^ 1024) < fl x"
proof -
  show "- (2 ^ 1024) < fl x"
    using fl_nonneg [OF assms(1)] by (rule order.strict_trans2 [rotated]) simp
  show "fl x < 2 ^ 1024"
  proof (cases "min_normal \<le> x")
    case True
    have "fl x \<le> x * (1 + 1 / 2 ^ 53)" using True by (rule fl_relative(2))
    also have "\<dots> \<le> 2 ^ 1000 * 2" using assms by (intro mult_mono) auto
    also have "\<dots> < 2 ^ 1024" by simp
    finally show ?thesis .
  next
    case False
    with assms(1) have "fl x \<le> 2" by (intro fl_subnormal) auto
    also have "(2::rat) < 2 ^ 1024" by simp
    finally show ?thesis .
  qed
qed

lemma f64_round_Finite:
  "0 \<le> x \<Longrightarrow> x \<le> 2 ^ 1000 \<Longrightarrow> f64_round x = Finite (fl x)"
  using fl_not_huge [of x] by (simp add: f64_round_def Let_def not_le [symmetric] del: power_numeral)

lemma f64_round_of_nat:
  assumes "n < 2 ^ 53"
  shows "f64_round (of_nat n) = Finite (of_nat n)"
proof -
  from assms have "(of_nat n::rat) < of_nat (2 ^ 53)" by (simp only: of_nat_less_iff)
  also have "\<dots> \<le> 2 ^ 1000" by simp
  finally show ?thesis by (subst f64_round_Finite) (auto simp: fl_of_nat_exact [OF assms])
qed

lemma f64_round_numeral: "(numeral n :: nat) < 2 ^ 53 \<Longrightarrow> f64_round (numeral n) = Finite (numeral n)"
  using f64_round_of_nat [of "numeral n"] by simp

lemma f64_of_u64_exact: "unat n < 2 ^ 53 \<Longrightarrow> f64_of_u64 n = Finite (of_nat (unat n))"
  unfolding f64_of_u64_def by (rule f64_round_of_nat)

text \<open>Rounding up and casting loses nothing below the largest \<open>u64\<close>.\<close>

lemma ceil_to_u64:
  assumes "0 \<le> y" and "y \<le> of_nat u64_max"
  shows "unat (f64_to_u64 (f64_ceil (Finite y))) = nat \<lceil>y\<rceil>"
proof -
  have "\<lceil>y\<rceil> \<le> int u64_max" using assms(2) by (simp add: ceiling_le_iff)
  then have le: "nat \<lceil>y\<rceil> \<le> u64_max" by simp
  then have "nat \<lceil>y\<rceil> < 2 ^ 64" by (simp add: u64_max_def)
  with le show ?thesis by (simp add: unat_of_nat)
qed

lemma ceil_to_u64_ge:
  assumes "0 \<le> y" and "y \<le> of_nat u64_max"
  shows "y \<le> of_nat (unat (f64_to_u64 (f64_ceil (Finite y))))"
  using assms(1) unfolding ceil_to_u64 [OF assms] by (simp add: le_of_int_ceiling)

end
