(* ===== verification/Target_Fee.thy ===== *)
theory Target_Fee
  imports F64
begin

text \<open>
  Fee selection, \<open>src/boltz-core/src/target_fee.rs\<close>. \<open>target_fee\<close> is generic in the transaction
  type and in the closure that builds a transaction for a fee; both are arguments here, as they
  are in the source. The locale \<open>fee_builder\<close> is the contract between \<open>target_fee\<close> and its
  clients: the Bitcoin, the Elements and the asset-rescue constructors interpret it.
\<close>

datatype fee_target = Absolute u64 | Relative f64

datatype fee_error = InvalidFeeRate

text \<open>
  \<open>tx.vsize() + tx.input_len()\<close> is an addition of two \<open>usize\<close> values on a 64-bit target.
\<close>

fun target_fee ::
  "('tx \<Rightarrow> u64) \<Rightarrow> ('tx \<Rightarrow> u64) \<Rightarrow> (fee_error \<Rightarrow> 'e) \<Rightarrow> fee_target
    \<Rightarrow> (u64 \<Rightarrow> bool \<Rightarrow> ('e, 'tx) result) \<Rightarrow> ('e, 'tx \<times> u64) result" where
  "target_fee vsize input_len from_fee_error (Absolute fee) construct_tx =
     r_bind (construct_tx fee False) (\<lambda>tx. Ok (tx, fee))"
| "target_fee vsize input_len from_fee_error (Relative fee_rate) construct_tx =
     (if \<not> f64_is_finite fee_rate \<or> f64_lt_zero fee_rate
      then Err (from_fee_error InvalidFeeRate)
      else r_bind (construct_tx 1 True) (\<lambda>tx.
        let fee = f64_to_u64 (f64_ceil (f64_mul (f64_of_u64 (vsize tx + input_len tx)) fee_rate))
        in r_bind (construct_tx fee False) (\<lambda>tx. Ok (tx, fee))))"

subsection \<open>What every caller of \<open>target_fee\<close> may rely on\<close>

text \<open>The transaction handed out is the one built for the returned fee, never the estimate.\<close>

lemma target_fee_built:
  "target_fee vsize input_len conv ft build = Ok (tx, fee) \<Longrightarrow> build fee False = Ok tx"
  by (cases ft) (auto simp: Let_def split: if_splits)

lemma target_fee_absolute_fee:
  "target_fee vsize input_len conv (Absolute f) build = Ok (tx, fee) \<Longrightarrow> fee = f"
  by auto

lemma target_fee_errors:
  assumes "target_fee vsize input_len conv ft build = Err e"
  shows "e = conv InvalidFeeRate \<or> (\<exists>f b. build f b = Err e)"
  using assms by (cases ft) (auto simp: r_bind_Err_iff Let_def split: if_splits)

lemma target_fee_relative_estimate:
  assumes "target_fee vsize input_len conv (Relative r) build = Ok (tx, fee)"
  obtains est where "build 1 True = Ok est"
    and "fee = f64_to_u64 (f64_ceil (f64_mul (f64_of_u64 (vsize est + input_len est)) r))"
  using assms by (auto simp: Let_def split: if_splits)

locale fee_builder =
  fixes build :: "'c \<Rightarrow> u64 \<Rightarrow> bool \<Rightarrow> ('e, 'tx) result"
    and tx_fee :: "'c \<Rightarrow> 'tx \<Rightarrow> int"
    and supported :: "'c \<Rightarrow> bool"
  assumes build_pays:
    "supported c \<Longrightarrow> build c fee b = Ok tx \<Longrightarrow> tx_fee c tx = int (unat fee)"
begin

text \<open>The fee the caller is told is the fee the transaction pays.\<close>

lemma target_fee_pays:
  assumes "supported c" and "target_fee vsize input_len conv ft (build c) = Ok (tx, fee)"
  shows "tx_fee c tx = int (unat fee)"
  using build_pays [OF assms(1) target_fee_built [OF assms(2)]] .

lemma target_fee_absolute_pays:
  assumes "supported c"
    and "target_fee vsize input_len conv (Absolute f) (build c) = Ok (tx, fee)"
  shows "tx_fee c tx = int (unat f)"
  using target_fee_pays [OF assms] target_fee_absolute_fee [OF assms(2)] by simp

end

subsection \<open>The arithmetic of a relative fee\<close>

text \<open>
  The extra virtual byte per input absorbs the rounding of the product: the fee is at least the
  exact product of rate and estimated size.
\<close>

lemma spare_vbyte_covers_rounding:
  fixes v i :: nat
  assumes "1 \<le> i" and "v + i < 2 ^ 53"
  shows "(of_nat v :: rat) \<le> of_nat (v + i) * (1 - 1 / 2 ^ 53)"
proof -
  have "(of_nat (v + i)::rat) < of_nat (2 ^ 53)" using assms(2) by (simp only: of_nat_less_iff)
  then have "(of_nat (v + i)::rat) / 2 ^ 53 \<le> 1" by simp
  moreover have "(1::rat) \<le> of_nat i" using assms(1) by simp
  ultimately show ?thesis by (simp add: right_diff_distrib)
qed

lemma relative_fee_value:
  fixes n :: u64
  assumes n: "unat n < 2 ^ 53" and r: "0 \<le> r" and small: "of_nat (unat n) * r \<le> 2 ^ 63"
  shows "f64_to_u64 (f64_ceil (f64_mul (f64_of_u64 n) (Finite r)))
      = f64_to_u64 (f64_ceil (Finite (fl (of_nat (unat n) * r))))"
proof -
  have "of_nat (unat n) * r \<le> 2 ^ 1000" using small by (rule order.trans) simp
  with r have "f64_round (of_nat (unat n) * r) = Finite (fl (of_nat (unat n) * r))"
    by (intro f64_round_Finite mult_nonneg_nonneg) simp_all
  then show ?thesis by (simp only: f64_of_u64_exact [OF n] f64_mul.simps)
qed

lemma fl_below_u64_max:
  assumes "0 \<le> x" and "x \<le> 2 ^ 63"
  shows "fl x \<le> of_nat u64_max"
proof (cases "min_normal \<le> x")
  case True
  have "fl x \<le> x * (1 + 1 / 2 ^ 53)" using True by (rule fl_relative(2))
  also have "\<dots> \<le> 2 ^ 63 * (1 + 1 / 2 ^ 53)" using assms by (intro mult_right_mono) auto
  also have "\<dots> \<le> of_nat u64_max" by (simp add: u64_max_def)
  finally show ?thesis .
next
  case False
  have "fl x \<le> 2" using assms(1) False by (intro fl_subnormal) auto
  then show ?thesis by (simp add: u64_max_def)
qed

lemma relative_fee_ge:
  fixes v i :: u64
  assumes i: "1 \<le> unat i" and n: "unat v + unat i < 2 ^ 53"
    and r: "min_normal \<le> r" and small: "of_nat (unat v + unat i) * r \<le> 2 ^ 63"
  shows "of_nat (unat v) * r
    \<le> of_nat (unat (f64_to_u64 (f64_ceil (f64_mul (f64_of_u64 (v + i)) (Finite r)))))"
proof -
  let ?x = "of_nat (unat v + unat i) * r"
  have sum: "unat (v + i) = unat v + unat i"
    using n by (intro unat_add_u64) (simp add: u64_max_def)
  have r0: "0 \<le> r" using min_normal_pos r by linarith
  have "(1::rat) \<le> of_nat (unat v + unat i)" using i by simp
  then have "1 * r \<le> ?x" using r0 by (rule mult_right_mono)
  then have x: "min_normal \<le> ?x" using r by linarith
  have x0: "0 \<le> ?x" using r0 by simp
  have "of_nat (unat v) * r \<le> of_nat (unat v + unat i) * (1 - 1 / 2 ^ 53) * r"
    using spare_vbyte_covers_rounding [OF i n] r0 by (intro mult_right_mono) auto
  also have "\<dots> = ?x * (1 - 1 / 2 ^ 53)" by (simp add: mult.commute mult.left_commute)
  also have "\<dots> \<le> fl ?x" using x by (rule fl_relative(1))
  also have "\<dots> \<le> of_nat (unat (f64_to_u64 (f64_ceil (Finite (fl ?x)))))"
    using fl_nonneg [OF x0] fl_below_u64_max [OF x0 small] by (rule ceil_to_u64_ge)
  also have "f64_to_u64 (f64_ceil (Finite (fl ?x)))
      = f64_to_u64 (f64_ceil (f64_mul (f64_of_u64 (v + i)) (Finite r)))"
    using relative_fee_value [of "v + i" r] n r0 small unfolding sum by simp
  finally show ?thesis .
qed

text \<open>
  C4: A relative fee target never underpays the requested rate. If the transaction that is built
  to measure the size has at least one input, fewer than \<open>2^53\<close> virtual bytes, and the product
  of size and rate is below \<open>2^63\<close> satoshis, then the fee that \<open>target_fee\<close> returns is at least
  rate times the measured virtual size, although the product is computed in double precision.
\<close>

theorem target_fee_relative_covers_rate:
  assumes "target_fee vsize input_len conv (Relative (Finite r)) build = Ok (tx, fee)"
    and "build 1 True = Ok est"
    and "1 \<le> unat (input_len est)" and "unat (vsize est) + unat (input_len est) < 2 ^ 53"
    and "min_normal \<le> r"
    and "of_nat (unat (vsize est) + unat (input_len est)) * r \<le> 2 ^ 63"
  shows "of_nat (unat (vsize est)) * r \<le> of_nat (unat fee)"
proof -
  from assms(1) obtain est' where "build 1 True = Ok est'"
    and fee: "fee = f64_to_u64 (f64_ceil
      (f64_mul (f64_of_u64 (vsize est' + input_len est')) (Finite r)))"
    by (rule target_fee_relative_estimate)
  with assms(2) have "est' = est" by simp
  with relative_fee_ge [OF assms(3-6)] fee show ?thesis by simp
qed

text \<open>A transaction of 250 virtual bytes with two inputs at 10 satoshis per virtual byte.\<close>

lemma example_relative_fee:
  "f64_to_u64 (f64_ceil (f64_mul (f64_of_u64 252) (Finite 10))) = 2520"
proof -
  have "f64_of_u64 252 = Finite 252" using f64_of_u64_exact [of 252] by simp
  moreover have "f64_round 2520 = Finite 2520" using f64_round_of_nat [of 2520] by simp
  ultimately show ?thesis by (simp add: u64_max_def)
qed

lemma example_target_fee:
  "target_fee (\<lambda>_. 250) (\<lambda>_. 2) id (Relative (Finite 10)) (\<lambda>fee b. Ok fee) = Ok (2520, 2520)"
  by (simp add: example_relative_fee)

theorem target_fee_relative_covers_rate_witness:
  "target_fee (\<lambda>_. 250) (\<lambda>_. 2) id (Relative (Finite 10)) (\<lambda>fee b. Ok fee) = Ok (2520, 2520)
   \<and> of_nat (unat (250 :: u64)) * 10 \<le> (of_nat (unat (2520 :: u64)) :: rat)"
  using target_fee_relative_covers_rate [OF example_target_fee refl] example_target_fee
    min_normal_le_1 by simp

end
