(* ===== verification/Chain_Types.thy ===== *)
theory Chain_Types
  imports Boltz_Prelude
begin

text \<open>
  The data the chain modules share: scripts, the descriptors of \<open>src/boltz-core/src/utils.rs\<close>,
  the constants of \<open>src/boltz-core/src/consts.rs\<close>, and the scan for a preimage of
  \<open>src/boltz-core/src/preimage_detector.rs\<close>.

  A script is the list of its instructions, the view that \<open>Script::instructions\<close> of the Bitcoin
  and the Elements library gives of the byte string. How instructions are laid out as bytes, the
  encoding of script numbers, the hash functions and the curve operations belong to those
  libraries: they are fields of the record \<open>script_lib\<close>, which the definitions take as argument.
\<close>

datatype opcode =
    OP_HASH160 | OP_EQUAL | OP_EQUALVERIFY | OP_IF | OP_ELSE | OP_ENDIF | OP_CLTV | OP_DROP
  | OP_CHECKSIG | OP_CHECKSIGVERIFY | OP_SIZE | OP_RETURN
  | OP_INSPECTOUTPUTSCRIPTPUBKEY | OP_INSPECTOUTPUTASSET | OP_INSPECTOUTPUTVALUE

text \<open>
  \<open>Push\<close> is a data push; \<open>PushNum\<close> is one of the opcodes that push a small number
  (\<open>OP_1NEGATE\<close>, \<open>OP_1\<close> to \<open>OP_16\<close>), which \<open>instructions()\<close> reports as opcodes;
  \<open>OP_0\<close> is reported as the push of the empty string.
\<close>

datatype instr = Op opcode | Push bytes | PushNum int

type_synonym script = "instr list"

text \<open>
  What the script layer uses of the libraries: the minimal encoding of a script number
  (\<open>write_scriptint\<close>), the instruction \<open>Builder::push_int\<close> emits, the parser of an x-only public
  key, the digests, and the bytes of a script.
\<close>

record script_lib =
  write_scriptint :: "int \<Rightarrow> bytes"
  builder_push_int :: "int \<Rightarrow> instr"
  xonly_from_slice :: "bytes \<Rightarrow> bytes option"
  hash160 :: "bytes \<Rightarrow> bytes"
  sha256 :: "bytes \<Rightarrow> bytes"
  script_bytes :: "script \<Rightarrow> bytes"

text \<open>\<open>OutputType<U, S>\<close>, \<open>InputType\<close>, \<open>Destination<A>\<close> and \<open>Outputs<A>\<close> of utils.rs.\<close>

datatype ('u, 's) output_type = Taproot 'u | SegwitV0 's | Compatibility 's | Legacy 's

datatype input_type = Claim bytes | Refund u32

record 'a outputs =
  change :: 'a
  outs :: "('a \<times> u64) list"

datatype 'a destination = Single 'a | Multiple "'a outputs"

definition ECDSA_BYTES_TO_GRIND :: nat where
  "ECDSA_BYTES_TO_GRIND = 2"

definition PREIMAGE_DUMMY :: bytes where
  "PREIMAGE_DUMMY = []"

definition STUB_SCHNORR_SIGNATURE_LENGTH :: nat where
  "STUB_SCHNORR_SIGNATURE_LENGTH = 64"

text \<open>
  The truth value of a stack element under the script rules: false for zero in any length, the
  negative zero included.
\<close>

fun cast_bool :: "bytes \<Rightarrow> bool" where
  "cast_bool [] = False"
| "cast_bool [b] = (b \<noteq> 0 \<and> b \<noteq> 128)"
| "cast_bool (b # bs) = (b \<noteq> 0 \<or> cast_bool bs)"

subsection \<open>Scanning an input for the preimage\<close>

text \<open>\<open>script_sig_pushed_bytes\<close> keeps the data pushes of the script signature.\<close>

fun pushed_bytes :: "instr \<Rightarrow> bytes option" where
  "pushed_bytes (Push b) = Some b"
| "pushed_bytes _ = None"

definition script_sig_pushed_bytes :: "script \<Rightarrow> bytes list" where
  "script_sig_pushed_bytes s = List.map_filter pushed_bytes s"

definition PREIMAGE_SIZE :: nat where
  "PREIMAGE_SIZE = 32"

definition match_preimage :: "script_lib \<Rightarrow> bytes \<Rightarrow> bytes \<Rightarrow> bytes option" where
  "match_preimage lib candidate preimage_hash =
     (if length candidate \<noteq> PREIMAGE_SIZE then None
      else if sha256 lib candidate \<noteq> preimage_hash then None
      else Some candidate)"

text \<open>The input is given by its witness stack and its script signature.\<close>

definition detect_preimage :: "script_lib \<Rightarrow> bytes list \<times> script \<Rightarrow> bytes \<Rightarrow> bytes option" where
  "detect_preimage lib input preimage_hash =
     (case input of (witness, script_sig) \<Rightarrow>
        find_map (\<lambda>candidate. match_preimage lib candidate preimage_hash)
          (witness @ script_sig_pushed_bytes script_sig))"

lemma match_preimage_Some_iff:
  "match_preimage lib c h = Some p \<longleftrightarrow> p = c \<and> length c = 32 \<and> sha256 lib c = h"
  by (auto simp: match_preimage_def PREIMAGE_SIZE_def)

lemma set_script_sig_pushed_bytes: "set (script_sig_pushed_bytes s) = {b. Push b \<in> set s}"
proof -
  have "pushed_bytes i = Some b \<longleftrightarrow> i = Push b" for i b by (cases i) auto
  then show ?thesis by (auto simp: script_sig_pushed_bytes_def map_filter_def image_iff) force
qed

lemma detect_preimage_sound:
  assumes "detect_preimage lib (w, s) h = Some p"
  shows "length p = 32 \<and> sha256 lib p = h \<and> (p \<in> set w \<or> Push p \<in> set s)"
  using find_map_SomeD [OF assms [unfolded detect_preimage_def prod.case]]
  by (auto simp: match_preimage_Some_iff set_script_sig_pushed_bytes)

lemma detect_preimage_complete:
  assumes "length p = 32" and "sha256 lib p = h" and "p \<in> set w \<or> Push p \<in> set s"
  shows "detect_preimage lib (w, s) h \<noteq> None"
  using assms
  by (auto simp: detect_preimage_def find_map_None_iff match_preimage_def PREIMAGE_SIZE_def
      set_script_sig_pushed_bytes)

lemma find_map_guard:
  "find_map (\<lambda>x. if P x then Some x else None) xs = List.find P xs"
  by (induction xs) auto

lemma detect_preimage_find:
  "detect_preimage lib (w, s) h
     = List.find (\<lambda>c. length c = 32 \<and> sha256 lib c = h) (w @ script_sig_pushed_bytes s)"
proof -
  have "(\<lambda>c. match_preimage lib c h)
      = (\<lambda>c. if length c = 32 \<and> sha256 lib c = h then Some c else None)"
    by (auto simp: match_preimage_def PREIMAGE_SIZE_def)
  then show ?thesis by (simp add: detect_preimage_def find_map_guard)
qed

text \<open>
  The preimage scan is sound and complete. It returns the first 32-byte item, over the
  witness stack and then the data pushes of the script signature, whose SHA-256 digest is the
  expected one; and it returns something exactly when the input reveals such an item.
\<close>

theorem detect_preimage_correct:
  "detect_preimage lib (w, s) h
     = List.find (\<lambda>c. length c = 32 \<and> sha256 lib c = h) (w @ script_sig_pushed_bytes s)
   \<and> (detect_preimage lib (w, s) h \<noteq> None)
     = (\<exists>c. (c \<in> set w \<or> Push c \<in> set s) \<and> length c = 32 \<and> sha256 lib c = h)"
proof (intro conjI detect_preimage_find)
  show "(detect_preimage lib (w, s) h \<noteq> None)
      = (\<exists>c. (c \<in> set w \<or> Push c \<in> set s) \<and> length c = 32 \<and> sha256 lib c = h)"
    using detect_preimage_sound [of lib w s h] detect_preimage_complete [of _ lib h w s] by blast
qed

end
