(* ===== verification/Swap_Scripts.thy ===== *)
theory Swap_Scripts
  imports Chain_Types
begin

text \<open>
  The script builders of \<open>src/boltz-core/src/bitcoin/scripts\<close> and
  \<open>src/boltz-core/src/elements/scripts\<close>: the segwit-v0 scripts, the Taproot trees, the covenant
  leaf of Liquid, and the extraction of the public keys from a tree. Definitions of the Elements
  modules carry the prefix \<open>el_\<close>. A \<open>LockTime\<close> is its consensus encoding, a \<open>u32\<close>; a public key is
  its serialisation.
\<close>

definition lock_time_int :: "u32 \<Rightarrow> int" where
  "lock_time_int lock_time = uint lock_time"

subsection \<open>Bitcoin: segwit-v0 scripts\<close>

text \<open>\<open>push_int\<close> pushes the minimal encoding as data, also for small numbers.\<close>

definition push_int :: "script_lib \<Rightarrow> int \<Rightarrow> script" where
  "push_int lib data = [Push (write_scriptint lib data)]"

definition swap_script :: "script_lib \<Rightarrow> bytes \<Rightarrow> bytes \<Rightarrow> bytes \<Rightarrow> u32 \<Rightarrow> script" where
  "swap_script lib preimage_hash claim_pubkey refund_pubkey lock_time =
     [Op OP_HASH160, Push preimage_hash, Op OP_EQUAL,
      Op OP_IF, Push claim_pubkey, Op OP_ELSE]
     @ push_int lib (lock_time_int lock_time) @
     [Op OP_CLTV, Op OP_DROP, Push refund_pubkey, Op OP_ENDIF, Op OP_CHECKSIG]"

definition reverse_script :: "script_lib \<Rightarrow> bytes \<Rightarrow> bytes \<Rightarrow> bytes \<Rightarrow> u32 \<Rightarrow> script" where
  "reverse_script lib preimage_hash claim_pubkey refund_pubkey lock_time =
     [Op OP_SIZE] @ push_int lib 32 @
     [Op OP_EQUAL,
      Op OP_IF, Op OP_HASH160, Push preimage_hash, Op OP_EQUALVERIFY, Push claim_pubkey,
      Op OP_ELSE, Op OP_DROP]
     @ push_int lib (lock_time_int lock_time) @
     [Op OP_CLTV, Op OP_DROP, Push refund_pubkey, Op OP_ENDIF, Op OP_CHECKSIG]"

subsection \<open>Bitcoin: Taproot trees\<close>

record tapleaf =
  leaf_version :: byte
  leaf_output :: script

record tree =
  claim_leaf :: tapleaf
  refund_leaf :: tapleaf

definition TAPROOT_LEAF_TAPSCRIPT :: byte where
  "TAPROOT_LEAF_TAPSCRIPT = 192"

definition mk_refund_leaf :: "script_lib \<Rightarrow> bytes \<Rightarrow> u32 \<Rightarrow> tapleaf" where
  "mk_refund_leaf lib refund_pubkey lock_time =
     \<lparr>leaf_version = TAPROOT_LEAF_TAPSCRIPT,
      leaf_output = [Push refund_pubkey, Op OP_CHECKSIGVERIFY,
        builder_push_int lib (lock_time_int lock_time), Op OP_CLTV]\<rparr>"

definition swap_tree :: "script_lib \<Rightarrow> bytes \<Rightarrow> bytes \<Rightarrow> bytes \<Rightarrow> u32 \<Rightarrow> tree" where
  "swap_tree lib preimage_hash claim_pubkey refund_pubkey lock_time =
     \<lparr>claim_leaf = \<lparr>leaf_version = TAPROOT_LEAF_TAPSCRIPT,
        leaf_output = [Op OP_HASH160, Push preimage_hash, Op OP_EQUALVERIFY,
          Push claim_pubkey, Op OP_CHECKSIG]\<rparr>,
      refund_leaf = mk_refund_leaf lib refund_pubkey lock_time\<rparr>"

definition reverse_tree :: "script_lib \<Rightarrow> bytes \<Rightarrow> bytes \<Rightarrow> bytes \<Rightarrow> u32 \<Rightarrow> tree" where
  "reverse_tree lib preimage_hash claim_pubkey refund_pubkey lock_time =
     \<lparr>claim_leaf = \<lparr>leaf_version = TAPROOT_LEAF_TAPSCRIPT,
        leaf_output = [Op OP_SIZE, builder_push_int lib 32, Op OP_EQUALVERIFY,
          Op OP_HASH160, Push preimage_hash, Op OP_EQUALVERIFY,
          Push claim_pubkey, Op OP_CHECKSIG]\<rparr>,
      refund_leaf = mk_refund_leaf lib refund_pubkey lock_time\<rparr>"

subsection \<open>Public keys of a tree\<close>

datatype tree_error = ClaimMissingPubkey | RefundMissingPubkey | TreeTaproot | TreeBuilder | TreePubkey

text \<open>The loop of \<open>get_pubkey\<close>: the first 32-byte data push decides.\<close>

fun get_pubkey :: "script_lib \<Rightarrow> script \<Rightarrow> (tree_error, bytes option) result" where
  "get_pubkey lib [] = Ok None"
| "get_pubkey lib (Push b # rest) =
     (if length b \<noteq> 32 then get_pubkey lib rest
      else r_map Some (ok_or TreePubkey (xonly_from_slice lib b)))"
| "get_pubkey lib (i # rest) = get_pubkey lib rest"

definition tree_claim_pubkey :: "script_lib \<Rightarrow> tree \<Rightarrow> (tree_error, bytes) result" where
  "tree_claim_pubkey lib t =
     r_bind (get_pubkey lib (leaf_output (claim_leaf t))) (ok_or ClaimMissingPubkey)"

definition tree_refund_pubkey :: "script_lib \<Rightarrow> tree \<Rightarrow> (tree_error, bytes) result" where
  "tree_refund_pubkey lib t =
     r_bind (get_pubkey lib (leaf_output (refund_leaf t))) (ok_or RefundMissingPubkey)"

subsection \<open>Elements: segwit-v0 scripts\<close>

definition el_swap_script :: "script_lib \<Rightarrow> bytes \<Rightarrow> bytes \<Rightarrow> bytes \<Rightarrow> u32 \<Rightarrow> script" where
  "el_swap_script lib preimage_hash claim_pubkey refund_pubkey lock_time =
     [Op OP_HASH160, Push preimage_hash, Op OP_EQUAL,
      Op OP_IF, Push claim_pubkey,
      Op OP_ELSE, builder_push_int lib (lock_time_int lock_time), Op OP_CLTV, Op OP_DROP,
      Push refund_pubkey, Op OP_ENDIF, Op OP_CHECKSIG]"

definition el_reverse_script :: "script_lib \<Rightarrow> bytes \<Rightarrow> bytes \<Rightarrow> bytes \<Rightarrow> u32 \<Rightarrow> script" where
  "el_reverse_script lib preimage_hash claim_pubkey refund_pubkey lock_time =
     [Op OP_SIZE, builder_push_int lib 32, Op OP_EQUAL,
      Op OP_IF, Op OP_HASH160, Push preimage_hash, Op OP_EQUALVERIFY, Push claim_pubkey,
      Op OP_ELSE, Op OP_DROP, builder_push_int lib (lock_time_int lock_time), Op OP_CLTV,
      Op OP_DROP, Push refund_pubkey, Op OP_ENDIF, Op OP_CHECKSIG]"

subsection \<open>Elements: the covenant leaf\<close>

text \<open>An address is its script public key and, when confidential, its blinding key.\<close>

record el_address =
  script_pubkey :: bytes
  blinding_pubkey :: "bytes option"

record claim_covenant_params =
  cov_index :: u32
  cov_output :: el_address
  cov_asset_id :: bytes
  cov_expected_amount :: u64

definition EL_TAPROOT_LEAF_TAPSCRIPT :: byte where
  "EL_TAPROOT_LEAF_TAPSCRIPT = 196"

definition to_le_bytes :: "u64 \<Rightarrow> bytes" where
  "to_le_bytes n = map (\<lambda>i. ucast (drop_bit (8 * i) n)) [0..<8]"

text \<open>The macro \<open>slice_segwit_script\<close>; the opcodes compared with are \<open>0x00\<close> and \<open>0x51\<close>.\<close>

definition slice_segwit_script :: "bytes \<Rightarrow> bytes" where
  "slice_segwit_script script = (if 2 \<le> length script then drop 2 script else script)"

definition script_introspection_value :: "script_lib \<Rightarrow> el_address \<Rightarrow> int \<times> bytes" where
  "script_introspection_value lib output =
     (let script = script_pubkey output in
      case script of
        val # _ \<Rightarrow>
          (if val = 0 then (0, slice_segwit_script script)
           else if val = 81 then (1, slice_segwit_script script)
           else (-1, sha256 lib script))
      | [] \<Rightarrow> (-1, sha256 lib script))"

definition create_covenant_claim_leaf ::
  "script_lib \<Rightarrow> bytes \<Rightarrow> claim_covenant_params \<Rightarrow> tapleaf" where
  "create_covenant_claim_leaf lib preimage_hash params =
     (let (intro_value_version, intro_value_script) =
            script_introspection_value lib (cov_output params);
          index = builder_push_int lib (uint (cov_index params))
      in \<lparr>leaf_version = EL_TAPROOT_LEAF_TAPSCRIPT,
          leaf_output =
            [Op OP_SIZE, builder_push_int lib 32, Op OP_EQUALVERIFY,
             Op OP_HASH160, Push preimage_hash, Op OP_EQUALVERIFY,
             index, Op OP_INSPECTOUTPUTSCRIPTPUBKEY,
             builder_push_int lib intro_value_version, Op OP_EQUALVERIFY,
             Push intro_value_script, Op OP_EQUALVERIFY,
             index, Op OP_INSPECTOUTPUTASSET, PushNum 1, Op OP_EQUALVERIFY,
             Push (cov_asset_id params), Op OP_EQUALVERIFY,
             index, Op OP_INSPECTOUTPUTVALUE, Op OP_DROP,
             Push (to_le_bytes (cov_expected_amount params)), Op OP_EQUAL]\<rparr>)"

subsection \<open>Elements: Taproot trees\<close>

record el_tree =
  el_claim_leaf :: tapleaf
  el_refund_leaf :: tapleaf
  covenant_claim_leaf :: "tapleaf option"

definition el_mk_refund_leaf :: "script_lib \<Rightarrow> bytes \<Rightarrow> u32 \<Rightarrow> tapleaf" where
  "el_mk_refund_leaf lib refund_pubkey lock_time =
     \<lparr>leaf_version = EL_TAPROOT_LEAF_TAPSCRIPT,
      leaf_output = [Push refund_pubkey, Op OP_CHECKSIGVERIFY,
        builder_push_int lib (lock_time_int lock_time), Op OP_CLTV]\<rparr>"

definition el_swap_tree :: "script_lib \<Rightarrow> bytes \<Rightarrow> bytes \<Rightarrow> bytes \<Rightarrow> u32 \<Rightarrow> el_tree" where
  "el_swap_tree lib preimage_hash claim_pubkey refund_pubkey lock_time =
     \<lparr>el_claim_leaf = \<lparr>leaf_version = EL_TAPROOT_LEAF_TAPSCRIPT,
        leaf_output = [Op OP_HASH160, Push preimage_hash, Op OP_EQUALVERIFY,
          Push claim_pubkey, Op OP_CHECKSIG]\<rparr>,
      el_refund_leaf = el_mk_refund_leaf lib refund_pubkey lock_time,
      covenant_claim_leaf = None\<rparr>"

definition el_reverse_tree ::
  "script_lib \<Rightarrow> bytes \<Rightarrow> bytes \<Rightarrow> bytes \<Rightarrow> u32 \<Rightarrow> claim_covenant_params option \<Rightarrow> el_tree" where
  "el_reverse_tree lib preimage_hash claim_pubkey refund_pubkey lock_time claim_covenant_params =
     \<lparr>el_claim_leaf = \<lparr>leaf_version = EL_TAPROOT_LEAF_TAPSCRIPT,
        leaf_output = [Op OP_SIZE, builder_push_int lib 32, Op OP_EQUALVERIFY,
          Op OP_HASH160, Push preimage_hash, Op OP_EQUALVERIFY,
          Push claim_pubkey, Op OP_CHECKSIG]\<rparr>,
      el_refund_leaf = el_mk_refund_leaf lib refund_pubkey lock_time,
      covenant_claim_leaf =
        map_option (create_covenant_claim_leaf lib preimage_hash) claim_covenant_params\<rparr>"

definition el_claim_pubkey :: "script_lib \<Rightarrow> el_tree \<Rightarrow> (tree_error, bytes) result" where
  "el_claim_pubkey lib t =
     r_bind (get_pubkey lib (leaf_output (el_claim_leaf t))) (ok_or ClaimMissingPubkey)"

definition el_refund_pubkey :: "script_lib \<Rightarrow> el_tree \<Rightarrow> (tree_error, bytes) result" where
  "el_refund_pubkey lib t =
     r_bind (get_pubkey lib (leaf_output (el_refund_leaf t))) (ok_or RefundMissingPubkey)"

subsection \<open>Building the Taproot builder of a tree\<close>

text \<open>
  \<open>TaprootBuilder\<close> belongs to the libraries: a builder is the list of the leaves added to it, and
  whether a version is a leaf version and whether a leaf may be added are functions of the
  library.
\<close>

type_synonym tap_builder = "(nat \<times> script \<times> byte) list"

record taproot_lib =
  leaf_version_ok :: "byte \<Rightarrow> bool"
  may_add_leaf :: "tap_builder \<Rightarrow> nat \<Rightarrow> bool"
  tap_leaf_hash :: "script \<Rightarrow> byte \<Rightarrow> bytes"
  tap_finalize_ok :: "tap_builder \<Rightarrow> bytes \<Rightarrow> bool"
  tap_control_block :: "tap_builder \<Rightarrow> bytes \<Rightarrow> script \<times> byte \<Rightarrow> bytes option"

definition from_consensus :: "taproot_lib \<Rightarrow> byte \<Rightarrow> (tree_error, byte) result" where
  "from_consensus tlib v = (if leaf_version_ok tlib v then Ok v else Err TreeTaproot)"

definition add_leaf_with_ver ::
  "taproot_lib \<Rightarrow> nat \<Rightarrow> tapleaf \<Rightarrow> tap_builder \<Rightarrow> (tree_error, tap_builder) result" where
  "add_leaf_with_ver tlib depth leaf b =
     r_bind (from_consensus tlib (leaf_version leaf)) (\<lambda>v.
       if may_add_leaf tlib b depth then Ok (b @ [(depth, leaf_output leaf, v)])
       else Err TreeBuilder)"

definition leaf_hash :: "taproot_lib \<Rightarrow> tapleaf \<Rightarrow> (tree_error, bytes) result" where
  "leaf_hash tlib leaf =
     r_bind (from_consensus tlib (leaf_version leaf)) (\<lambda>v. Ok (tap_leaf_hash tlib (leaf_output leaf) v))"

definition build_tree :: "taproot_lib \<Rightarrow> tree \<Rightarrow> (tree_error, tap_builder) result" where
  "build_tree tlib t =
     r_bind (add_leaf_with_ver tlib 1 (claim_leaf t) [])
       (add_leaf_with_ver tlib 1 (refund_leaf t))"

definition el_build_tree :: "taproot_lib \<Rightarrow> el_tree \<Rightarrow> (tree_error, tap_builder) result" where
  "el_build_tree tlib t =
     (case covenant_claim_leaf t of
        Some covenant \<Rightarrow>
          r_bind (add_leaf_with_ver tlib 1 covenant []) (\<lambda>b.
          r_bind (add_leaf_with_ver tlib 2 (el_claim_leaf t) b)
            (add_leaf_with_ver tlib 2 (el_refund_leaf t)))
      | None \<Rightarrow>
          r_bind (add_leaf_with_ver tlib 1 (el_claim_leaf t) [])
            (add_leaf_with_ver tlib 1 (el_refund_leaf t)))"

subsection \<open>What the library promises\<close>

text \<open>
  The documented behaviour the proofs rely on: \<open>Builder::push_int\<close> pushes the same stack element
  as the minimal encoding, by a data push or by a number opcode; the encoding is injective on the
  integers of a script and short; zero is the empty string; and an integer's encoding is true
  as a script condition exactly when the integer is not zero.
\<close>

definition script_lib_ok :: "script_lib \<Rightarrow> bool" where
  "script_lib_ok lib \<longleftrightarrow>
     (\<forall>n. builder_push_int lib n = PushNum n
        \<or> builder_push_int lib n = Push (write_scriptint lib n))
     \<and> inj (write_scriptint lib)
     \<and> (\<forall>n. \<bar>n\<bar> < 2 ^ 63 \<longrightarrow> length (write_scriptint lib n) \<le> 9)
     \<and> write_scriptint lib 0 = []
     \<and> (\<forall>n. n \<noteq> 0 \<longrightarrow> cast_bool (write_scriptint lib n))"

lemma script_lib_okD:
  assumes "script_lib_ok lib"
  shows "builder_push_int lib n = PushNum n \<or> builder_push_int lib n = Push (write_scriptint lib n)"
    and "write_scriptint lib m = write_scriptint lib n \<longleftrightarrow> m = n"
    and "\<bar>n\<bar> < 2 ^ 63 \<Longrightarrow> length (write_scriptint lib n) \<le> 9"
    and "write_scriptint lib 0 = []"
    and "cast_bool (write_scriptint lib n) \<longleftrightarrow> n \<noteq> 0"
  using assms by (auto simp: script_lib_ok_def inj_eq)

lemma lock_time_int_bounds: "0 \<le> lock_time_int t" "lock_time_int t < 2 ^ 32"
  using uint_bounded [of t] by (auto simp: lock_time_int_def)

lemma lock_time_int_abs: "\<bar>lock_time_int t\<bar> < 2 ^ 63"
  using lock_time_int_bounds [of t] by simp

subsection \<open>Properties of the trees\<close>

lemma get_pubkey_skips_int:
  assumes "script_lib_ok lib" and "\<bar>n\<bar> < 2 ^ 63"
  shows "get_pubkey lib (builder_push_int lib n # rest) = get_pubkey lib rest"
  using script_lib_okD(1) [OF assms(1), of n] script_lib_okD(3) [OF assms] by auto

text \<open>
  The keys that go into a swap tree come out of it. For a 20-byte preimage hash and valid
  32-byte keys, \<open>tree_claim_pubkey\<close> and \<open>tree_refund_pubkey\<close> return exactly the keys the Bitcoin and the
  Elements builders were given, for submarine and for reverse trees, whatever the lock time.
\<close>

theorem tree_pubkeys_roundtrip:
  assumes "script_lib_ok lib" and "length h = 20" and "length ck = 32" and "length rk = 32"
    and "xonly_from_slice lib ck = Some ck" and "xonly_from_slice lib rk = Some rk"
  shows "tree_claim_pubkey lib (swap_tree lib h ck rk lt) = Ok ck
    \<and> tree_refund_pubkey lib (swap_tree lib h ck rk lt) = Ok rk
    \<and> tree_claim_pubkey lib (reverse_tree lib h ck rk lt) = Ok ck
    \<and> tree_refund_pubkey lib (reverse_tree lib h ck rk lt) = Ok rk
    \<and> el_claim_pubkey lib (el_reverse_tree lib h ck rk lt cov) = Ok ck
    \<and> el_refund_pubkey lib (el_reverse_tree lib h ck rk lt cov) = Ok rk
    \<and> el_claim_pubkey lib (el_swap_tree lib h ck rk lt) = Ok ck
    \<and> el_refund_pubkey lib (el_swap_tree lib h ck rk lt) = Ok rk"
  using assms
  by (simp add: tree_claim_pubkey_def tree_refund_pubkey_def el_claim_pubkey_def el_refund_pubkey_def
      swap_tree_def reverse_tree_def el_swap_tree_def el_reverse_tree_def mk_refund_leaf_def
      el_mk_refund_leaf_def get_pubkey_skips_int)

subsection \<open>An instance of the library\<close>

text \<open>
  The laws can hold: a sign byte followed by the little-endian digits of the magnitude is an
  encoding of the integers that satisfies them. Witnesses use it with a hash that keeps 20 bytes.
\<close>

fun le_digits :: "nat \<Rightarrow> bytes" where
  "le_digits n = (if n = 0 then [] else of_nat (n mod 256) # le_digits (n div 256))"

declare le_digits.simps [simp del]

definition sign_digits :: "int \<Rightarrow> bytes" where
  "sign_digits n =
     (if n = 0 then [] else (if n < 0 then 129 else 1) # le_digits (nat \<bar>n\<bar>))"

definition example_lib :: script_lib where
  "example_lib = \<lparr>write_scriptint = sign_digits, builder_push_int = PushNum,
     xonly_from_slice = Some, hash160 = take 20, sha256 = take 32, script_bytes = (\<lambda>s. [])\<rparr>"

lemma le_digits_inj: "le_digits m = le_digits n \<Longrightarrow> m = n"
proof (induction m arbitrary: n rule: le_digits.induct)
  case (1 m)
  show ?case
  proof (cases "m = 0 \<or> n = 0")
    case True
    with "1.prems" show ?thesis
      by (auto simp: le_digits.simps [of m] le_digits.simps [of n] split: if_splits)
  next
    case False
    with "1.prems" have eqs: "(of_nat (m mod 256) :: byte) = of_nat (n mod 256)"
      and "le_digits (m div 256) = le_digits (n div 256)"
      by (auto simp: le_digits.simps [of m] le_digits.simps [of n])
    then have "m div 256 = n div 256" using False by (intro "1.IH") auto
    moreover from eqs have "m mod 256 = n mod 256"
      by (simp add: word_unat_eq_iff unat_of_nat)
    ultimately show ?thesis by (metis div_mult_mod_eq)
  qed
qed

lemma length_le_digits: "n < 256 ^ k \<Longrightarrow> length (le_digits n) \<le> k"
proof (induction k arbitrary: n)
  case 0
  then show ?case by (simp add: le_digits.simps)
next
  case (Suc k)
  then have "n div 256 < 256 ^ k" by (simp add: less_mult_imp_div_less mult.commute)
  with Suc.IH show ?case by (subst le_digits.simps) auto
qed

lemma example_lib_ok: "script_lib_ok example_lib"
proof -
  have inj: "inj sign_digits"
    by (rule injI) (auto simp: sign_digits_def split: if_splits dest!: le_digits_inj)
  have len: "length (sign_digits n) \<le> 9" if "\<bar>n\<bar> < 2 ^ 63" for n
  proof -
    from that have "nat \<bar>n\<bar> < 256 ^ 8" by simp
    from length_le_digits [OF this] show ?thesis by (simp add: sign_digits_def)
  qed
  have true: "cast_bool (sign_digits n)" if "n \<noteq> 0" for n
    using that by (cases "le_digits (nat \<bar>n\<bar>)") (auto simp: sign_digits_def)
  show ?thesis
    using inj len true by (simp add: script_lib_ok_def example_lib_def sign_digits_def [of 0])
qed

text \<open>A witness of C9: keys of 32 bytes and a hash of 20 bytes.\<close>

theorem tree_pubkeys_roundtrip_witness:
  "tree_claim_pubkey example_lib
     (swap_tree example_lib (replicate 20 7) (replicate 32 1) (replicate 32 2) 800000)
   = Ok (replicate 32 1)"
  using tree_pubkeys_roundtrip [OF example_lib_ok, of "replicate 20 7" "replicate 32 1"
      "replicate 32 2" 800000]
  by (simp add: example_lib_def)

end
