(* ===== verification/Script_Eval.thy ===== *)
theory Script_Eval
  imports Swap_Scripts
begin

text \<open>
  What the scripts promise. This theory holds no code of the repository: it states the documented
  meaning of the opcodes the builders use (BIP-65 for \<open>OP_CLTV\<close>, BIP-341/342 for Tapscript, the
  Elements introspection opcodes for the covenant) as an evaluator, and proves for each builder of
  \<open>Swap_Scripts\<close> exactly which stacks spend its script. The hash function comes from the library
  record; whether a signature is valid for a key and whether a lock time is reached depend on the
  spending transaction and are fields of \<open>spend_env\<close>.
\<close>

record spend_env =
  valid_sig :: "bytes \<Rightarrow> bytes \<Rightarrow> bool"
  cltv_ok :: "bytes \<Rightarrow> bool"
  inspect_spk :: "bytes \<Rightarrow> (bytes \<times> bytes) option"
  inspect_asset :: "bytes \<Rightarrow> (bytes \<times> bytes) option"
  inspect_value :: "bytes \<Rightarrow> (bytes \<times> bytes) option"

definition bool_bytes :: "bool \<Rightarrow> bytes" where
  "bool_bytes b = (if b then [1] else [])"

definition push_pair :: "(bytes \<times> bytes) option \<Rightarrow> bytes list \<Rightarrow> bytes list option" where
  "push_pair r st = map_option (\<lambda>(data, prefix). prefix # data # st) r"

text \<open>One opcode on the stack, top first; \<open>None\<close> is a failed script.\<close>

fun exec_op :: "script_lib \<Rightarrow> spend_env \<Rightarrow> opcode \<Rightarrow> bytes list \<Rightarrow> bytes list option" where
  "exec_op lib env OP_HASH160 (x # st) = Some (hash160 lib x # st)"
| "exec_op lib env OP_EQUAL (x # y # st) = Some (bool_bytes (x = y) # st)"
| "exec_op lib env OP_EQUALVERIFY (x # y # st) = (if x = y then Some st else None)"
| "exec_op lib env OP_CLTV (x # st) = (if cltv_ok env x then Some (x # st) else None)"
| "exec_op lib env OP_DROP (x # st) = Some st"
| "exec_op lib env OP_CHECKSIG (k # s # st) = Some (bool_bytes (valid_sig env k s) # st)"
| "exec_op lib env OP_CHECKSIGVERIFY (k # s # st) = (if valid_sig env k s then Some st else None)"
| "exec_op lib env OP_SIZE (x # st) = Some (write_scriptint lib (int (length x)) # x # st)"
| "exec_op lib env OP_INSPECTOUTPUTSCRIPTPUBKEY (x # st) = push_pair (inspect_spk env x) st"
| "exec_op lib env OP_INSPECTOUTPUTASSET (x # st) = push_pair (inspect_asset env x) st"
| "exec_op lib env OP_INSPECTOUTPUTVALUE (x # st) = push_pair (inspect_value env x) st"
| "exec_op lib env _ _ = None"

text \<open>The interpreter keeps the stack of open conditionals beside the data stack.\<close>

fun run :: "script_lib \<Rightarrow> spend_env \<Rightarrow> script \<Rightarrow> bytes list \<Rightarrow> bool list \<Rightarrow> bytes list option" where
  "run lib env [] st cs = (if cs = [] then Some st else None)"
| "run lib env (Op OP_IF # is) st cs =
     (if list_all id cs
      then (case st of [] \<Rightarrow> None | x # st' \<Rightarrow> run lib env is st' (cast_bool x # cs))
      else run lib env is st (False # cs))"
| "run lib env (Op OP_ELSE # is) st cs =
     (case cs of [] \<Rightarrow> None | c # cs' \<Rightarrow> run lib env is st ((\<not> c) # cs'))"
| "run lib env (Op OP_ENDIF # is) st cs =
     (case cs of [] \<Rightarrow> None | c # cs' \<Rightarrow> run lib env is st cs')"
| "run lib env (Op opc # is) st cs =
     (if list_all id cs
      then (case exec_op lib env opc st of None \<Rightarrow> None | Some st' \<Rightarrow> run lib env is st' cs)
      else run lib env is st cs)"
| "run lib env (Push b # is) st cs = run lib env is (if list_all id cs then b # st else st) cs"
| "run lib env (PushNum n # is) st cs =
     run lib env is (if list_all id cs then write_scriptint lib n # st else st) cs"

text \<open>A spend succeeds when exactly one true element is left (the clean-stack rule).\<close>

definition script_spend :: "script_lib \<Rightarrow> spend_env \<Rightarrow> script \<Rightarrow> bytes list \<Rightarrow> bool" where
  "script_spend lib env s st =
     (case run lib env s st [] of Some [x] \<Rightarrow> cast_bool x | _ \<Rightarrow> False)"

definition lock_time_reached :: "script_lib \<Rightarrow> spend_env \<Rightarrow> u32 \<Rightarrow> bool" where
  "lock_time_reached lib env lock_time =
     cltv_ok env (write_scriptint lib (lock_time_int lock_time))"

subsection \<open>Evaluation lemmas\<close>

lemma cast_bool_bool_bytes [simp]: "cast_bool (bool_bytes b) = b"
  by (simp add: bool_bytes_def)

lemma run_push_int [simp]:
  "run lib env (push_int lib n @ is) st cs
     = run lib env is (if list_all id cs then write_scriptint lib n # st else st) cs"
  by (simp add: push_int_def)

lemma run_builder_push_int:
  assumes "script_lib_ok lib"
  shows "run lib env (builder_push_int lib n # is) st cs
     = run lib env is (if list_all id cs then write_scriptint lib n # st else st) cs"
  using script_lib_okD(1) [OF assms, of n] by auto

lemma stack_cases2:
  obtains "st = []" | x where "st = [x]" | x y rest where "st = x # y # rest"
  by (cases st rule: remdups_adj.cases) auto

lemma size_is_32 [simp]:
  "script_lib_ok lib \<Longrightarrow> write_scriptint lib (int (length x)) = write_scriptint lib 32 \<longleftrightarrow> length x = 32"
  by (simp add: script_lib_okD(2))

lemma size_is_32' [simp]:
  "script_lib_ok lib \<Longrightarrow> write_scriptint lib 32 = write_scriptint lib (int (length x)) \<longleftrightarrow> length x = 32"
  by (auto simp: script_lib_okD(2))

lemmas script_eval_simps =
  script_spend_def lock_time_reached_def run_builder_push_int

subsection \<open>The contract of a hash time-locked script\<close>

text \<open>
  A swap script has two branches on the top stack element: \<open>opens\<close> says which elements select the
  claim branch. The laws below are all a client of a script needs; the four segwit-v0 builders
  provide them.
\<close>

locale htlc_script =
  fixes script_of :: "script_lib \<Rightarrow> bytes \<Rightarrow> bytes \<Rightarrow> bytes \<Rightarrow> u32 \<Rightarrow> script"
    and opens :: "script_lib \<Rightarrow> bytes \<Rightarrow> bytes \<Rightarrow> bool"
  assumes spend_iff:
    "script_lib_ok lib \<Longrightarrow>
       script_spend lib env (script_of lib h ck rk lt) st \<longleftrightarrow>
         (\<exists>x sig. st = [x, sig] \<and>
            (if opens lib h x then hash160 lib x = h \<and> valid_sig env ck sig
             else lock_time_reached lib env lt \<and> valid_sig env rk sig))"
begin

lemma claim_spends:
  assumes "script_lib_ok lib" and "opens lib h x" and "hash160 lib x = h" and "valid_sig env ck sig"
  shows "script_spend lib env (script_of lib h ck rk lt) [x, sig]"
  using assms by (simp add: spend_iff)

lemma refund_spends:
  assumes "script_lib_ok lib" and "\<not> opens lib h x"
    and "lock_time_reached lib env lt" and "valid_sig env rk sig"
  shows "script_spend lib env (script_of lib h ck rk lt) [x, sig]"
  using assms by (simp add: spend_iff)

text \<open>Before the lock time, only the claim key together with a preimage spends.\<close>

lemma before_lock_time:
  assumes "script_lib_ok lib" and "\<not> lock_time_reached lib env lt"
    and "script_spend lib env (script_of lib h ck rk lt) st"
  shows "\<exists>x sig. st = [x, sig] \<and> hash160 lib x = h \<and> valid_sig env ck sig"
  using assms by (auto simp: spend_iff split: if_splits)

lemma needs_a_key:
  assumes "script_lib_ok lib" and "script_spend lib env (script_of lib h ck rk lt) st"
  shows "\<exists>x sig. st = [x, sig] \<and> (valid_sig env ck sig \<or> valid_sig env rk sig)"
  using assms by (auto simp: spend_iff split: if_splits)

end

lemma swap_script_spend_iff:
  assumes "script_lib_ok lib"
  shows "script_spend lib env (swap_script lib h ck rk lt) st \<longleftrightarrow>
    (\<exists>x sig. st = [x, sig] \<and>
       (if hash160 lib x = h then hash160 lib x = h \<and> valid_sig env ck sig
        else lock_time_reached lib env lt \<and> valid_sig env rk sig))"
  by (cases st rule: stack_cases2) (auto simp: script_eval_simps swap_script_def split: list.splits)

lemma reverse_script_spend_iff:
  assumes "script_lib_ok lib"
  shows "script_spend lib env (reverse_script lib h ck rk lt) st \<longleftrightarrow>
    (\<exists>x sig. st = [x, sig] \<and>
       (if length x = 32 then hash160 lib x = h \<and> valid_sig env ck sig
        else lock_time_reached lib env lt \<and> valid_sig env rk sig))"
  using assms
  by (cases st rule: stack_cases2) (auto simp: script_eval_simps reverse_script_def split: list.splits)

lemma el_swap_script_spend_iff:
  assumes "script_lib_ok lib"
  shows "script_spend lib env (el_swap_script lib h ck rk lt) st \<longleftrightarrow>
    (\<exists>x sig. st = [x, sig] \<and>
       (if hash160 lib x = h then hash160 lib x = h \<and> valid_sig env ck sig
        else lock_time_reached lib env lt \<and> valid_sig env rk sig))"
  using assms
  by (cases st rule: stack_cases2) (auto simp: script_eval_simps el_swap_script_def split: list.splits)

lemma el_reverse_script_spend_iff:
  assumes "script_lib_ok lib"
  shows "script_spend lib env (el_reverse_script lib h ck rk lt) st \<longleftrightarrow>
    (\<exists>x sig. st = [x, sig] \<and>
       (if length x = 32 then hash160 lib x = h \<and> valid_sig env ck sig
        else lock_time_reached lib env lt \<and> valid_sig env rk sig))"
  using assms
  by (cases st rule: stack_cases2) (auto simp: script_eval_simps el_reverse_script_def split: list.splits)

interpretation btc_swap: htlc_script swap_script "\<lambda>lib h x. hash160 lib x = h"
  by unfold_locales (rule swap_script_spend_iff)

interpretation btc_reverse: htlc_script reverse_script "\<lambda>lib h x. length x = 32"
  by unfold_locales (rule reverse_script_spend_iff)

interpretation lq_swap: htlc_script el_swap_script "\<lambda>lib h x. hash160 lib x = h"
  by unfold_locales (rule el_swap_script_spend_iff)

interpretation lq_reverse: htlc_script el_reverse_script "\<lambda>lib h x. length x = 32"
  by unfold_locales (rule el_reverse_script_spend_iff)

subsection \<open>The contract of a Taproot tree\<close>

text \<open>
  A tree separates the branches into leaves: \<open>opens\<close> says which preimages the claim leaf takes.
  The refund leaf leaves the lock time on the stack as its result, so a lock time of zero never
  refunds.
\<close>

locale htlc_leaves =
  fixes claim_script :: "script_lib \<Rightarrow> bytes \<Rightarrow> bytes \<Rightarrow> script"
    and refund_script :: "script_lib \<Rightarrow> bytes \<Rightarrow> u32 \<Rightarrow> script"
    and opens :: "bytes \<Rightarrow> bool"
  assumes claim_leaf_iff:
    "script_lib_ok lib \<Longrightarrow>
       script_spend lib env (claim_script lib h ck) st \<longleftrightarrow>
         (\<exists>x sig. st = [x, sig] \<and> opens x \<and> hash160 lib x = h \<and> valid_sig env ck sig)"
    and refund_leaf_iff:
    "script_lib_ok lib \<Longrightarrow>
       script_spend lib env (refund_script lib rk lt) st \<longleftrightarrow>
         (\<exists>sig. st = [sig] \<and> valid_sig env rk sig \<and> lock_time_reached lib env lt \<and> lt \<noteq> 0)"
begin

lemma leaf_before_lock_time:
  assumes "script_lib_ok lib" and "\<not> lock_time_reached lib env lt"
    and "s \<in> {claim_script lib h ck, refund_script lib rk lt}" and "script_spend lib env s st"
  shows "\<exists>x sig. st = [x, sig] \<and> hash160 lib x = h \<and> valid_sig env ck sig"
  using assms by (auto simp: claim_leaf_iff refund_leaf_iff)

end

lemma refund_leaf_script_iff:
  assumes "script_lib_ok lib"
  shows "script_spend lib env
      [Push rk, Op OP_CHECKSIGVERIFY, builder_push_int lib (lock_time_int lt), Op OP_CLTV] st \<longleftrightarrow>
    (\<exists>sig. st = [sig] \<and> valid_sig env rk sig \<and> lock_time_reached lib env lt \<and> lt \<noteq> 0)"
proof -
  have "lock_time_int lt \<noteq> 0 \<longleftrightarrow> lt \<noteq> 0" by (simp add: lock_time_int_def uint_0_iff)
  then show ?thesis
    using assms
    by (cases st rule: stack_cases2) (auto simp: script_eval_simps script_lib_okD(5) split: list.splits)
qed

lemma claim_leaf_script_iff:
  assumes "script_lib_ok lib"
  shows "script_spend lib env
      [Op OP_HASH160, Push h, Op OP_EQUALVERIFY, Push ck, Op OP_CHECKSIG] st \<longleftrightarrow>
    (\<exists>x sig. st = [x, sig] \<and> True \<and> hash160 lib x = h \<and> valid_sig env ck sig)"
  by (cases st rule: stack_cases2) (auto simp: script_eval_simps split: list.splits)

lemma sized_claim_leaf_script_iff:
  assumes "script_lib_ok lib"
  shows "script_spend lib env
      [Op OP_SIZE, builder_push_int lib 32, Op OP_EQUALVERIFY, Op OP_HASH160, Push h,
       Op OP_EQUALVERIFY, Push ck, Op OP_CHECKSIG] st \<longleftrightarrow>
    (\<exists>x sig. st = [x, sig] \<and> length x = 32 \<and> hash160 lib x = h \<and> valid_sig env ck sig)"
  using assms by (cases st rule: stack_cases2) (auto simp: script_eval_simps split: list.splits)

interpretation btc_swap_tree: htlc_leaves
    "\<lambda>lib h ck. leaf_output (claim_leaf (swap_tree lib h ck rk lt))"
    "\<lambda>lib rk lt. leaf_output (refund_leaf (swap_tree lib h ck rk lt))" "\<lambda>x. True"
  for rk lt h ck
  by unfold_locales
    (simp_all add: swap_tree_def mk_refund_leaf_def claim_leaf_script_iff refund_leaf_script_iff)

interpretation btc_reverse_tree: htlc_leaves
    "\<lambda>lib h ck. leaf_output (claim_leaf (reverse_tree lib h ck rk lt))"
    "\<lambda>lib rk lt. leaf_output (refund_leaf (reverse_tree lib h ck rk lt))" "\<lambda>x. length x = 32"
  for rk lt h ck
  by unfold_locales
    (simp_all add: reverse_tree_def mk_refund_leaf_def sized_claim_leaf_script_iff
      refund_leaf_script_iff)

interpretation lq_swap_tree: htlc_leaves
    "\<lambda>lib h ck. leaf_output (el_claim_leaf (el_swap_tree lib h ck rk lt))"
    "\<lambda>lib rk lt. leaf_output (el_refund_leaf (el_swap_tree lib h ck rk lt))" "\<lambda>x. True"
  for rk lt h ck
  by unfold_locales
    (simp_all add: el_swap_tree_def el_mk_refund_leaf_def claim_leaf_script_iff
      refund_leaf_script_iff)

interpretation lq_reverse_tree: htlc_leaves
    "\<lambda>lib h ck. leaf_output (el_claim_leaf (el_reverse_tree lib h ck rk lt cov))"
    "\<lambda>lib rk lt. leaf_output (el_refund_leaf (el_reverse_tree lib h ck rk lt cov))"
    "\<lambda>x. length x = 32"
  for rk lt h ck cov
  by unfold_locales
    (simp_all add: el_reverse_tree_def el_mk_refund_leaf_def sized_claim_leaf_script_iff
      refund_leaf_script_iff)

subsection \<open>What the scripts enforce\<close>

text \<open>
  C1: The submarine swap script has exactly two spends, on both chains. A stack spends it if and
  only if it has two elements, and either the top one is a preimage of the hash and the other is a
  signature of the claim key, or the top one is not a preimage, the lock time is reached and the
  other is a signature of the refund key.
\<close>

theorem swap_script_spends:
  fixes lib :: script_lib and env :: spend_env and h ck rk :: bytes and lt :: u32
    and st :: "bytes list"
  assumes "script_lib_ok lib"
  defines "spends \<equiv> \<exists>x sig. st = [x, sig] \<and>
      (if hash160 lib x = h then valid_sig env ck sig
       else lock_time_reached lib env lt \<and> valid_sig env rk sig)"
  shows "script_spend lib env (swap_script lib h ck rk lt) st = spends
    \<and> script_spend lib env (el_swap_script lib h ck rk lt) st = spends"
  by (simp add: btc_swap.spend_iff [OF assms(1)] lq_swap.spend_iff [OF assms(1)] spends_def
      cong: if_cong)

text \<open>
  The reverse swap script only lets a 32-byte preimage claim, on both chains. A two-element
  stack whose top element has 32 bytes spends it exactly with the right hash and a signature of
  the claim key; with any other length only the refund key spends, after the lock time.
\<close>

theorem reverse_script_spends:
  fixes lib :: script_lib and env :: spend_env and h ck rk :: bytes and lt :: u32
    and st :: "bytes list"
  assumes "script_lib_ok lib"
  defines "spends \<equiv> \<exists>x sig. st = [x, sig] \<and>
      (if length x = 32 then hash160 lib x = h \<and> valid_sig env ck sig
       else lock_time_reached lib env lt \<and> valid_sig env rk sig)"
  shows "script_spend lib env (reverse_script lib h ck rk lt) st = spends
    \<and> script_spend lib env (el_reverse_script lib h ck rk lt) st = spends"
  by (simp add: btc_reverse.spend_iff [OF assms(1)] lq_reverse.spend_iff [OF assms(1)] spends_def)

text \<open>
  C2: No leaf of a reverse swap tree can be spent before the lock time without the 32-byte
  preimage and the claim key, and after the lock time the refund leaf needs the refund key; the
  same holds on both chains, where the Liquid tree may also carry a covenant leaf.
\<close>

theorem reverse_tree_spends:
  fixes lib :: script_lib and env :: spend_env and h ck rk :: bytes and lt :: u32
    and st :: "bytes list"
  assumes "script_lib_ok lib"
  defines "claims \<equiv> \<exists>x sig. st = [x, sig] \<and> length x = 32 \<and> hash160 lib x = h
      \<and> valid_sig env ck sig"
    and "refunds \<equiv> \<exists>sig. st = [sig] \<and> valid_sig env rk sig \<and> lock_time_reached lib env lt
      \<and> lt \<noteq> 0"
  shows "script_spend lib env (leaf_output (claim_leaf (reverse_tree lib h ck rk lt))) st = claims
    \<and> script_spend lib env (leaf_output (refund_leaf (reverse_tree lib h ck rk lt))) st = refunds
    \<and> script_spend lib env (leaf_output (el_claim_leaf (el_reverse_tree lib h ck rk lt cov))) st
        = claims
    \<and> script_spend lib env (leaf_output (el_refund_leaf (el_reverse_tree lib h ck rk lt cov))) st
        = refunds"
  by (simp add: claims_def refunds_def btc_reverse_tree.claim_leaf_iff [OF assms(1)]
      btc_reverse_tree.refund_leaf_iff [OF assms(1)] lq_reverse_tree.claim_leaf_iff [OF assms(1)]
      lq_reverse_tree.refund_leaf_iff [OF assms(1)])


subsection \<open>Witnesses\<close>

text \<open>
  An environment in which a key signs with itself and every lock time is reached, and whose first
  output pays 1000 units of an asset to a version-1 program.
\<close>

definition example_env :: spend_env where
  "example_env = \<lparr>valid_sig = (\<lambda>k s. k = s), cltv_ok = (\<lambda>x. True),
     inspect_spk = (\<lambda>i. Some ([5, 5], sign_digits 1)),
     inspect_asset = (\<lambda>i. Some ([9], sign_digits 1)),
     inspect_value = (\<lambda>i. Some (to_le_bytes 1000, [1]))\<rparr>"

lemmas example_simps =
  example_lib_def example_env_def lock_time_reached_def

theorem swap_script_spends_witness:
  "script_spend example_lib example_env
     (swap_script example_lib (replicate 20 7) [1] [2] 800000) [replicate 32 7, [1]]
   \<and> script_spend example_lib example_env
     (el_swap_script example_lib (replicate 20 7) [1] [2] 800000) [[], [2]]"
  using swap_script_spends [OF example_lib_ok, of example_env "replicate 20 7" "[1]" "[2]" 800000]
  by (simp add: example_simps)

theorem reverse_script_spends_witness:
  "script_spend example_lib example_env
     (reverse_script example_lib (replicate 20 7) [1] [2] 800000) [replicate 32 7, [1]]
   \<and> \<not> script_spend example_lib example_env
     (el_reverse_script example_lib (replicate 20 7) [1] [2] 800000) [replicate 33 7, [1]]"
  using reverse_script_spends [OF example_lib_ok, of example_env "replicate 20 7" "[1]" "[2]" 800000]
  by (simp add: example_simps)

theorem reverse_tree_spends_witness:
  "script_spend example_lib example_env
     (leaf_output (claim_leaf (reverse_tree example_lib (replicate 20 7) [1] [2] 800000)))
     [replicate 32 7, [1]]
   \<and> script_spend example_lib example_env
     (leaf_output (refund_leaf (reverse_tree example_lib (replicate 20 7) [1] [2] 800000))) [[2]]"
  using reverse_tree_spends [OF example_lib_ok, of example_env "replicate 20 7" "[1]" "[2]" 800000]
  by (simp add: example_simps)

definition example_params :: claim_covenant_params where
  "example_params = \<lparr>cov_index = 0,
     cov_output = \<lparr>script_pubkey = [81, 2, 5, 5], blinding_pubkey = None\<rparr>,
     cov_asset_id = [9], cov_expected_amount = 1000\<rparr>"

lemma example_params_introspection:
  "script_introspection_value example_lib (cov_output example_params) = (1, [5, 5])"
  by (simp add: script_introspection_value_def example_params_def slice_segwit_script_def)


end
