(* ===== verification/Bitcoin_Tx.thy ===== *)
theory Bitcoin_Tx
  imports Target_Fee Script_Eval
begin

text \<open>
  Construction of Bitcoin claim and refund transactions, \<open>src/boltz-core/src/bitcoin/tx.rs\<close> with
  the types of \<open>src/boltz-core/src/bitcoin/mod.rs\<close>. The record \<open>bitcoin_lib\<close> holds what the code
  calls in the bitcoin library: the arithmetic of \<open>Amount\<close> (a panic is \<open>None\<close>), the conversion of
  a height to a lock time, the signature hashes, the signatures and the virtual size.
  An address is its script public key, a key pair is an opaque byte string.
\<close>

type_synonym keypair = bytes

record outpoint =
  txid :: bytes
  vout :: u32

record tx_out =
  amount :: u64
  out_script :: bytes

record uncooperative_details =
  swap_tree_of :: tree
  internal_key :: bytes

record input_detail =
  input_kind :: input_type
  output_kind :: "(uncooperative_details option, script) output_type"
  prev_outpoint :: outpoint
  prev_out :: tx_out
  keys :: keypair

record tx_in =
  previous_output :: outpoint
  script_sig :: script
  sequence :: u32
  witness :: "bytes list"

record transaction =
  tx_version :: nat
  tx_lock_time :: u32
  tx_inputs :: "tx_in list"
  tx_outputs :: "tx_out list"

text \<open>\<open>TxError\<close>; the errors passed through from the library carry no payload here.\<close>

datatype tx_error =
    FeeExceedsInputs | OutputsExceedInputs | TxInvalidFeeRate
  | TaprootFinalize nat | ControlBlock nat | TxTree tree_error
  | TxLockTime | TxTaproot | TxInputsIndex | TxPushBytes | TxSecp

fun tx_error_from_fee :: "fee_error \<Rightarrow> tx_error" where
  "tx_error_from_fee InvalidFeeRate = TxInvalidFeeRate"

record bitcoin_lib =
  slib :: script_lib
  tlib :: taproot_lib
  amount_sum :: "u64 list \<Rightarrow> u64 option"
  amount_add :: "u64 \<Rightarrow> u64 \<Rightarrow> u64 option"
  amount_sub :: "u64 \<Rightarrow> u64 \<Rightarrow> u64 option"
  lock_time_from_height :: "u32 \<Rightarrow> u32 option"
  legacy_signature_hash :: "transaction \<Rightarrow> nat \<Rightarrow> script \<Rightarrow> bytes option"
  p2wsh_signature_hash :: "transaction \<Rightarrow> nat \<Rightarrow> script \<Rightarrow> u64 \<Rightarrow> bytes option"
  taproot_script_spend_hash :: "transaction \<Rightarrow> nat \<Rightarrow> tx_out list \<Rightarrow> bytes \<Rightarrow> bytes option"
  digest_ok :: "bytes \<Rightarrow> bool"
  sign_ecdsa_grind_r :: "bytes \<Rightarrow> keypair \<Rightarrow> nat \<Rightarrow> bytes"
  sign_schnorr :: "bytes \<Rightarrow> keypair \<Rightarrow> bytes"
  push_bytes_ok :: "bytes \<Rightarrow> bool"
  tx_vsize :: "transaction \<Rightarrow> u64"

definition ENABLE_RBF_NO_LOCKTIME :: u32 where
  "ENABLE_RBF_NO_LOCKTIME = 0xFFFFFFFD"

subsection \<open>Signatures and witnesses\<close>

definition stubbed_cooperative_witness :: "bytes list" where
  "stubbed_cooperative_witness = [replicate STUB_SCHNORR_SIGNATURE_LENGTH 0]"

text \<open>The serialised ECDSA signature with its sighash type.\<close>

definition legacy_signature :: "bitcoin_lib \<Rightarrow> bytes \<Rightarrow> keypair \<Rightarrow> (tx_error, bytes) result" where
  "legacy_signature bl sighash k =
     (if digest_ok bl sighash then Ok (sign_ecdsa_grind_r bl sighash k ECDSA_BYTES_TO_GRIND)
      else Err TxSecp)"

fun preimage_push :: "input_type \<Rightarrow> bytes" where
  "preimage_push (Claim preimage) = preimage"
| "preimage_push (Refund _) = PREIMAGE_DUMMY"

text \<open>The first \<open>match\<close> of the signing loop: the script signature of input \<open>i\<close>.\<close>

definition input_script_sig ::
  "bitcoin_lib \<Rightarrow> transaction \<Rightarrow> nat \<Rightarrow> input_detail \<Rightarrow> (tx_error, script) result" where
  "input_script_sig bl tx i inp =
     (case output_kind inp of
        Legacy witness_script \<Rightarrow>
          r_bind (ok_or TxInputsIndex (legacy_signature_hash bl tx i witness_script)) (\<lambda>sighash.
          r_bind (legacy_signature bl sighash (keys inp)) (\<lambda>sig.
          if push_bytes_ok bl (script_bytes (slib bl) witness_script)
          then Ok [Push sig, Push (preimage_push (input_kind inp)),
                   Push (script_bytes (slib bl) witness_script)]
          else Err TxPushBytes))
      | Compatibility witness_script \<Rightarrow>
          (let nested = script_bytes (slib bl)
             [Push [], Push (sha256 (slib bl) (script_bytes (slib bl) witness_script))]
           in if push_bytes_ok bl nested then Ok [Push nested] else Err TxPushBytes)
      | _ \<Rightarrow> Ok [])"

text \<open>The Taproot script-path witness of an uncooperative spend.\<close>

definition taproot_witness ::
  "bitcoin_lib \<Rightarrow> transaction \<Rightarrow> tx_out list \<Rightarrow> nat \<Rightarrow> input_detail \<Rightarrow> uncooperative_details
    \<Rightarrow> (tx_error, bytes list) result" where
  "taproot_witness bl tx prevouts i inp uncooperative =
     (let leaf = (case input_kind inp of
             Claim _ \<Rightarrow> claim_leaf (swap_tree_of uncooperative)
           | Refund _ \<Rightarrow> refund_leaf (swap_tree_of uncooperative))
      in r_bind (r_map_err TxTree (leaf_hash (tlib bl) leaf)) (\<lambda>lh.
         r_bind (ok_or TxTaproot (taproot_script_spend_hash bl tx i prevouts lh)) (\<lambda>sighash.
         r_bind (if digest_ok bl sighash then Ok (sign_schnorr bl sighash (keys inp))
                 else Err TxSecp) (\<lambda>sig.
         r_bind (r_map_err TxTree (build_tree (tlib bl) (swap_tree_of uncooperative))) (\<lambda>b.
         r_bind (if tap_finalize_ok (tlib bl) b (internal_key uncooperative) then Ok ()
                 else Err (TaprootFinalize i)) (\<lambda>_.
         r_bind (r_map_err TxTree (from_consensus (tlib bl) (leaf_version leaf))) (\<lambda>v.
         r_bind (ok_or (ControlBlock i)
                  (tap_control_block (tlib bl) b (internal_key uncooperative)
                     (leaf_output leaf, v))) (\<lambda>control_block.
           Ok ([sig]
             @ (case input_kind inp of Claim preimage \<Rightarrow> [preimage] | Refund _ \<Rightarrow> [])
             @ [script_bytes (slib bl) (leaf_output leaf), control_block])))))))))"

definition segwit_witness ::
  "bitcoin_lib \<Rightarrow> transaction \<Rightarrow> nat \<Rightarrow> input_detail \<Rightarrow> script \<Rightarrow> (tx_error, bytes list) result" where
  "segwit_witness bl tx i inp witness_script =
     r_bind (ok_or TxInputsIndex
               (p2wsh_signature_hash bl tx i witness_script (amount (prev_out inp)))) (\<lambda>sighash.
     r_bind (legacy_signature bl sighash (keys inp)) (\<lambda>sig.
       Ok [sig, preimage_push (input_kind inp), script_bytes (slib bl) witness_script]))"

text \<open>The second \<open>match\<close> of the signing loop: the witness stack of input \<open>i\<close>.\<close>

definition input_witness ::
  "bitcoin_lib \<Rightarrow> transaction \<Rightarrow> tx_out list \<Rightarrow> nat \<Rightarrow> input_detail \<Rightarrow> (tx_error, bytes list) result"
where
  "input_witness bl tx prevouts i inp =
     (case output_kind inp of
        Taproot None \<Rightarrow> Ok stubbed_cooperative_witness
      | Taproot (Some uncooperative) \<Rightarrow> taproot_witness bl tx prevouts i inp uncooperative
      | SegwitV0 witness_script \<Rightarrow> segwit_witness bl tx i inp witness_script
      | Compatibility witness_script \<Rightarrow> segwit_witness bl tx i inp witness_script
      | Legacy _ \<Rightarrow> Ok [])"

text \<open>
  The body of the loop. All signature hashes are taken from \<open>tx\<close>, the clone of the transaction
  before the loop (\<open>SighashCache::new(tx.clone())\<close>).
\<close>

definition sign_input ::
  "bitcoin_lib \<Rightarrow> transaction \<Rightarrow> tx_out list \<Rightarrow> (nat \<times> input_detail) \<times> tx_in
    \<Rightarrow> (tx_error, tx_in) result" where
  "sign_input bl tx prevouts = (\<lambda>((i, inp), tx_in).
     r_bind (input_script_sig bl tx i inp) (\<lambda>ss.
     r_bind (input_witness bl tx prevouts i inp) (\<lambda>w.
       Ok (tx_in\<lparr>script_sig := ss, witness := w\<rparr>))))"

subsection \<open>Outputs and the unsigned transaction\<close>

definition bip69_output_key :: "tx_out \<Rightarrow> u64 \<times> bytes" where
  "bip69_output_key out = (amount out, out_script out)"

fun construct_outputs ::
  "bitcoin_lib \<Rightarrow> u64 \<Rightarrow> bytes destination \<Rightarrow> u64 \<Rightarrow> (tx_error, tx_out list) result" where
  "construct_outputs bl input_sum (Single address) fee =
     r_bind (ok_or FeeExceedsInputs (checked_sub input_sum fee)) (\<lambda>v.
       Ok [\<lparr>amount = v, out_script = address\<rparr>])"
| "construct_outputs bl input_sum (Multiple outputs) fee =
     r_bind (expect (amount_sum bl (map snd (outs outputs)))) (\<lambda>output_sum.
     r_bind (expect (amount_add bl output_sum fee)) (\<lambda>needed.
     if input_sum < needed then Err OutputsExceedInputs
     else
       r_bind (expect (amount_sub bl input_sum fee)) (\<lambda>rest.
       r_bind (expect (amount_sub bl rest output_sum)) (\<lambda>residual.
         Ok (sort_key bip69_output_key
           (map (\<lambda>(address, v). \<lparr>amount = v, out_script = address\<rparr>) (outs outputs)
            @ [\<lparr>amount = residual, out_script = change outputs\<rparr>]))))))"

fun refund_lock_time :: "input_type \<Rightarrow> u32 option" where
  "refund_lock_time (Refund lock_time) = Some lock_time"
| "refund_lock_time (Claim _) = None"

definition construct_lock_time :: "bitcoin_lib \<Rightarrow> input_detail list \<Rightarrow> (tx_error, u32) result" where
  "construct_lock_time bl inputs =
     (case iter_max (List.map_filter (refund_lock_time \<circ> input_kind) inputs) of
        Some lock_time \<Rightarrow> ok_or TxLockTime (lock_time_from_height bl lock_time)
      | None \<Rightarrow> Ok 0)"

definition unsigned_input :: "input_detail \<Rightarrow> tx_in" where
  "unsigned_input inp = \<lparr>previous_output = prev_outpoint inp, script_sig = [],
     sequence = ENABLE_RBF_NO_LOCKTIME, witness = []\<rparr>"

definition construct_raw ::
  "bitcoin_lib \<Rightarrow> input_detail list \<Rightarrow> bytes destination \<Rightarrow> u64 \<Rightarrow> (tx_error, transaction) result"
where
  "construct_raw bl inputs destination fee =
     r_bind (expect (amount_sum bl (map (amount \<circ> prev_out) inputs))) (\<lambda>input_sum.
     r_bind (construct_outputs bl input_sum destination fee) (\<lambda>output.
     r_bind (construct_lock_time bl inputs) (\<lambda>lock_time.
       let tx = \<lparr>tx_version = 2, tx_lock_time = lock_time,
             tx_inputs = map unsigned_input inputs, tx_outputs = output\<rparr>;
           prevouts = map prev_out inputs
       in r_bind (r_mapM (sign_input bl tx prevouts)
                    (zip (enumerate 0 inputs) (tx_inputs tx))) (\<lambda>signed.
            Ok (tx\<lparr>tx_inputs := signed\<rparr>)))))"

text \<open>
  \<open>bip69_txid_cmp\<close> compares the reversed internal bytes of the transaction id; inputs with the same
  id are ordered by the index of the output. The sort is stable.
\<close>

definition bip69_txid_key :: "bytes \<Rightarrow> bytes" where
  "bip69_txid_key a = rev a"

definition bip69_input_key :: "outpoint \<Rightarrow> bytes \<times> u32" where
  "bip69_input_key op = (bip69_txid_key (txid op), vout op)"

definition tx_input_len :: "transaction \<Rightarrow> u64" where
  "tx_input_len tx = of_nat (length (tx_inputs tx))"

definition construct_tx ::
  "bitcoin_lib \<Rightarrow> input_detail list \<Rightarrow> bytes destination \<Rightarrow> fee_target
    \<Rightarrow> (tx_error, transaction \<times> u64) result" where
  "construct_tx bl inputs destination fee =
     (let inputs = sort_key (bip69_input_key \<circ> prev_outpoint) inputs
      in target_fee (tx_vsize bl) tx_input_len tx_error_from_fee fee
           (\<lambda>fee is_fee_estimation. construct_raw bl inputs destination fee))"

subsection \<open>What the library promises\<close>

text \<open>
  Sums of amounts that fit 64 bits are exact; \<open>Amount\<close> addition and subtraction panic outside the
  range; a height below 500 000 000 is a lock time and other values are not.
\<close>

definition amount_lib_ok :: "bitcoin_lib \<Rightarrow> bool" where
  "amount_lib_ok bl \<longleftrightarrow>
     (\<forall>xs. sum_list (map unat xs) \<le> u64_max \<longrightarrow>
        (\<exists>s. amount_sum bl xs = Some s \<and> unat s = sum_list (map unat xs)))
     \<and> (\<forall>a b c. amount_add bl a b = Some c \<longleftrightarrow>
          unat a + unat b \<le> u64_max \<and> unat c = unat a + unat b)
     \<and> (\<forall>a b. amount_sub bl a b = checked_sub a b)
     \<and> (\<forall>h. lock_time_from_height bl h = (if unat h < 500000000 then Some h else None))"

definition input_total :: "input_detail list \<Rightarrow> nat" where
  "input_total inputs = sum_list (map (unat \<circ> amount \<circ> prev_out) inputs)"

definition output_total :: "tx_out list \<Rightarrow> nat" where
  "output_total outputs = sum_list (map (unat \<circ> amount) outputs)"

fun destination_total :: "'a destination \<Rightarrow> nat" where
  "destination_total (Single _) = 0"
| "destination_total (Multiple os) = sum_list (map (unat \<circ> snd) (outs os))"

lemma amount_sum_exact:
  assumes "amount_lib_ok bl" and "amount_sum bl xs = Some s"
    and "sum_list (map unat xs) \<le> u64_max"
  shows "unat s = sum_list (map unat xs)"
  using assms unfolding amount_lib_ok_def by (metis option.inject)

lemma amount_add_Some:
  "amount_lib_ok bl \<Longrightarrow> amount_add bl a b = Some c \<Longrightarrow> unat c = unat a + unat b"
  by (auto simp: amount_lib_ok_def)

lemma amount_sub_Some:
  "amount_lib_ok bl \<Longrightarrow> amount_sub bl a b = Some c \<Longrightarrow> unat b \<le> unat a \<and> unat c = unat a - unat b"
  by (simp add: amount_lib_ok_def checked_sub_Some_iff)

lemma output_total_sort [simp]: "output_total (sort_key k xs) = output_total xs"
  unfolding output_total_def by (rule sum_list_perm) simp

lemma input_total_sort [simp]: "input_total (sort_key k xs) = input_total xs"
  unfolding input_total_def by (rule sum_list_perm) simp

subsection \<open>Structure of the built transaction\<close>

lemma construct_outputs_total:
  assumes lib: "amount_lib_ok bl" and dest: "destination_total d \<le> u64_max"
    and ok: "construct_outputs bl input_sum d fee = Ok os"
  shows "output_total os + unat fee = unat input_sum"
proof (cases d)
  case (Single a)
  with ok show ?thesis by (auto simp: output_total_def checked_sub_Some_iff)
next
  case (Multiple o')
  from ok [unfolded Multiple] obtain os_sum rest residual
    where sum: "amount_sum bl (map snd (outs o')) = Some os_sum"
      and rest: "amount_sub bl input_sum fee = Some rest"
      and residual: "amount_sub bl rest os_sum = Some residual"
      and os: "os = sort_key bip69_output_key
        (map (\<lambda>(address, v). \<lparr>amount = v, out_script = address\<rparr>) (outs o')
         @ [\<lparr>amount = residual, out_script = change o'\<rparr>])"
    by (auto split: if_splits)
  have "unat os_sum = sum_list (map (unat \<circ> snd) (outs o'))"
    using amount_sum_exact [OF lib sum] dest by (simp add: Multiple comp_def)
  moreover have "unat \<circ> amount \<circ> (\<lambda>(address, v). \<lparr>amount = v, out_script = address\<rparr>) = unat \<circ> snd"
    by auto
  ultimately have "output_total os = unat os_sum + unat residual"
    unfolding os by (simp only: output_total_sort) (simp add: output_total_def)
  with amount_sub_Some [OF lib rest] amount_sub_Some [OF lib residual] show ?thesis by linarith
qed

text \<open>The transaction without script signatures and witnesses, whose digests are signed.\<close>

definition unsigned_tx :: "transaction \<Rightarrow> input_detail list \<Rightarrow> transaction" where
  "unsigned_tx tx inputs = tx\<lparr>tx_inputs := map unsigned_input inputs\<rparr>"

lemma construct_raw_Ok:
  assumes "construct_raw bl inputs d fee = Ok tx"
  obtains input_sum where
    "amount_sum bl (map (amount \<circ> prev_out) inputs) = Some input_sum"
    "construct_outputs bl input_sum d fee = Ok (tx_outputs tx)"
    "construct_lock_time bl inputs = Ok (tx_lock_time tx)"
    "length (tx_inputs tx) = length inputs"
    "\<And>i. i < length inputs \<Longrightarrow>
       sign_input bl (unsigned_tx tx inputs) (map prev_out inputs)
         ((i, inputs ! i), unsigned_input (inputs ! i)) = Ok (tx_inputs tx ! i)"
proof -
  from assms obtain input_sum os lt signed where
    sum: "amount_sum bl (map (amount \<circ> prev_out) inputs) = Some input_sum"
    and out: "construct_outputs bl input_sum d fee = Ok os"
    and lt: "construct_lock_time bl inputs = Ok lt"
    and signed: "r_mapM (sign_input bl \<lparr>tx_version = 2, tx_lock_time = lt,
          tx_inputs = map unsigned_input inputs, tx_outputs = os\<rparr> (map prev_out inputs))
        (zip (enumerate 0 inputs) (map unsigned_input inputs)) = Ok signed"
    and tx: "tx = \<lparr>tx_version = 2, tx_lock_time = lt, tx_inputs = signed, tx_outputs = os\<rparr>"
    by (auto simp: construct_raw_def Let_def)
  note all = signed [unfolded r_mapM_Ok_iff list_all2_conv_all_nth]
  have "length (tx_inputs tx) = length inputs" using all by (simp add: tx)
  moreover have "sign_input bl (unsigned_tx tx inputs) (map prev_out inputs)
        ((i, inputs ! i), unsigned_input (inputs ! i)) = Ok (tx_inputs tx ! i)"
    if "i < length inputs" for i
    using all that by (simp add: tx unsigned_tx_def nth_enumerate_eq)
  ultimately show ?thesis using sum out lt by (intro that) (auto simp: tx)
qed

lemma sign_input_Ok:
  assumes "sign_input bl utx prevouts ((i, inp), unsigned_input inp) = Ok ti"
  shows "previous_output ti = prev_outpoint inp" and "sequence ti = ENABLE_RBF_NO_LOCKTIME"
    and "input_script_sig bl utx i inp = Ok (script_sig ti)"
    and "input_witness bl utx prevouts i inp = Ok (witness ti)"
  using assms by (auto simp: sign_input_def unsigned_input_def)

lemma construct_raw_length:
  "construct_raw bl inputs d fee = Ok tx \<Longrightarrow> length (tx_inputs tx) = length inputs"
  by (erule construct_raw_Ok)

lemma construct_raw_signed:
  "construct_raw bl inputs d fee = Ok tx \<Longrightarrow> i < length inputs \<Longrightarrow>
    sign_input bl (unsigned_tx tx inputs) (map prev_out inputs)
      ((i, inputs ! i), unsigned_input (inputs ! i)) = Ok (tx_inputs tx ! i)"
  by (erule construct_raw_Ok) blast

lemmas construct_raw_input = sign_input_Ok [OF construct_raw_signed]

lemma construct_raw_previous_outputs:
  assumes "construct_raw bl inputs d fee = Ok tx"
  shows "map previous_output (tx_inputs tx) = map prev_outpoint inputs"
  using construct_raw_length [OF assms] construct_raw_input(1) [OF assms]
  by (intro nth_equalityI) auto

lemma construct_raw_sequences:
  assumes "construct_raw bl inputs d fee = Ok tx" and "ti \<in> set (tx_inputs tx)"
  shows "sequence ti \<noteq> 0xFFFFFFFF"
  using construct_raw_length [OF assms(1)] construct_raw_input(2) [OF assms(1)] assms(2)
  by (auto simp: in_set_conv_nth ENABLE_RBF_NO_LOCKTIME_def)

lemma construct_tx_raw:
  assumes "construct_tx bl inputs d ft = Ok (tx, fee)"
  shows "construct_raw bl (sort_key (bip69_input_key \<circ> prev_outpoint) inputs) d fee = Ok tx"
  using target_fee_built [OF assms [unfolded construct_tx_def Let_def]] .

subsection \<open>Value\<close>

type_synonym builder_args = "bitcoin_lib \<times> input_detail list \<times> bytes destination"

definition raw_builder :: "builder_args \<Rightarrow> u64 \<Rightarrow> bool \<Rightarrow> (tx_error, transaction) result" where
  "raw_builder = (\<lambda>(bl, inputs, d) fee _. construct_raw bl inputs d fee)"

definition raw_fee :: "builder_args \<Rightarrow> transaction \<Rightarrow> int" where
  "raw_fee = (\<lambda>(bl, inputs, d) tx. int (input_total inputs) - int (output_total (tx_outputs tx)))"

definition raw_supported :: "builder_args \<Rightarrow> bool" where
  "raw_supported = (\<lambda>(bl, inputs, d).
     amount_lib_ok bl \<and> input_total inputs \<le> u64_max \<and> destination_total d \<le> u64_max)"

lemma construct_raw_total:
  assumes "amount_lib_ok bl" and "input_total inputs \<le> u64_max"
    and "destination_total d \<le> u64_max" and "construct_raw bl inputs d fee = Ok tx"
  shows "output_total (tx_outputs tx) + unat fee = input_total inputs"
proof -
  from assms(4) obtain s where sum: "amount_sum bl (map (amount \<circ> prev_out) inputs) = Some s"
    and out: "construct_outputs bl s d fee = Ok (tx_outputs tx)"
    by (rule construct_raw_Ok) blast
  have "unat s = input_total inputs"
    using amount_sum_exact [OF assms(1) sum] assms(2) by (simp add: input_total_def comp_assoc)
  with construct_outputs_total [OF assms(1,3) out] show ?thesis by simp
qed

interpretation btc_fee: fee_builder raw_builder raw_fee raw_supported
proof
  fix c fee b tx
  assume "raw_supported c" and "raw_builder c fee b = Ok tx"
  then show "raw_fee c tx = int (unat fee)"
    using construct_raw_total by (cases c) (fastforce simp: raw_supported_def raw_builder_def raw_fee_def)
qed

text \<open>
  C5: A Bitcoin claim or refund transaction neither creates nor loses value. Whenever
  \<open>construct_tx\<close> succeeds, its outputs together with the fee it reports add up to the inputs, for
  every destination and for absolute and relative fee targets, provided the totals fit 64 bits.
\<close>

theorem construct_tx_conserves_value:
  assumes "amount_lib_ok bl" and "input_total inputs \<le> u64_max"
    and "destination_total d \<le> u64_max" and "construct_tx bl inputs d ft = Ok (tx, fee)"
  shows "output_total (tx_outputs tx) + unat fee = input_total inputs"
proof -
  let ?c = "(bl, sort_key (bip69_input_key \<circ> prev_outpoint) inputs, d)"
  have "raw_supported ?c" using assms(1-3) by (simp add: raw_supported_def)
  moreover have "target_fee (tx_vsize bl) tx_input_len tx_error_from_fee ft (raw_builder ?c)
      = Ok (tx, fee)"
    using assms(4) by (simp add: construct_tx_def raw_builder_def)
  ultimately have "raw_fee ?c tx = int (unat fee)" by (rule btc_fee.target_fee_pays)
  then show ?thesis by (simp add: raw_fee_def)
qed


subsection \<open>Order\<close>

lemma sort_key_map: "sort_key f (map g xs) = map g (sort_key (f \<circ> g) xs)"
proof -
  have ins: "insort_key f (g x) (map g ys) = map g (insort_key (f \<circ> g) x ys)" for x ys
    by (induction ys) auto
  show ?thesis by (induction xs) (simp_all add: sort_key_def ins [unfolded comp_def] comp_def)
qed

lemma construct_outputs_order:
  assumes "construct_outputs bl input_sum d fee = Ok os"
  shows "case d of
      Single address \<Rightarrow> map out_script os = [address]
    | Multiple o' \<Rightarrow> sorted (map bip69_output_key os) \<and>
        (\<exists>residual. mset (map bip69_output_key os) =
           mset (map (\<lambda>(address, v). (v, address)) (outs o')) + {#(residual, change o')#})"
proof (cases d)
  case (Single a)
  with assms show ?thesis by auto
next
  case (Multiple o')
  with assms obtain residual where os: "os = sort_key bip69_output_key
        (map (\<lambda>(address, v). \<lparr>amount = v, out_script = address\<rparr>) (outs o')
         @ [\<lparr>amount = residual, out_script = change o'\<rparr>])"
    by (auto split: if_splits)
  have "bip69_output_key \<circ> (\<lambda>(address, v). \<lparr>amount = v, out_script = address\<rparr>)
      = (\<lambda>(address, v). (v, address))"
    by (auto simp: bip69_output_key_def)
  then have "mset (map bip69_output_key os) =
      mset (map (\<lambda>(address, v). (v, address)) (outs o')) + {#(residual, change o')#}"
    unfolding os mset_map mset_sort
    by (simp add: image_mset.compositionality bip69_output_key_def)
  moreover have "sorted (map bip69_output_key os)" unfolding os by (rule sorted_sort_key)
  ultimately show ?thesis by (auto simp: Multiple)
qed

text \<open>
  A built transaction follows BIP-69 and spends what it was asked to spend. Its inputs are
  the given outpoints, each exactly once, sorted by transaction id and index; for a single
  destination there is one output, to that address; for several destinations the outputs, sorted
  by value and script, are exactly the requested ones together with one change output.
\<close>

theorem construct_tx_bip69:
  assumes "construct_tx bl inputs d ft = Ok (tx, fee)"
  shows "map previous_output (tx_inputs tx) = sort_key bip69_input_key (map prev_outpoint inputs)
    \<and> (case d of
         Single address \<Rightarrow> map out_script (tx_outputs tx) = [address]
       | Multiple os \<Rightarrow> sorted (map bip69_output_key (tx_outputs tx)) \<and>
           (\<exists>residual. mset (map bip69_output_key (tx_outputs tx)) =
              mset (map (\<lambda>(address, v). (v, address)) (outs os)) + {#(residual, change os)#}))"
proof
  note raw = construct_tx_raw [OF assms]
  show "map previous_output (tx_inputs tx) = sort_key bip69_input_key (map prev_outpoint inputs)"
    by (simp only: construct_raw_previous_outputs [OF raw] sort_key_map)
  from raw obtain s where "construct_outputs bl s d fee = Ok (tx_outputs tx)"
    by (rule construct_raw_Ok) blast
  from construct_outputs_order [OF this]
  show "case d of
         Single address \<Rightarrow> map out_script (tx_outputs tx) = [address]
       | Multiple os \<Rightarrow> sorted (map bip69_output_key (tx_outputs tx)) \<and>
           (\<exists>residual. mset (map bip69_output_key (tx_outputs tx)) =
              mset (map (\<lambda>(address, v). (v, address)) (outs os)) + {#(residual, change os)#})" .
qed

subsection \<open>Lock time\<close>

definition refund_lock_times :: "input_detail list \<Rightarrow> u32 list" where
  "refund_lock_times inputs = List.map_filter (refund_lock_time \<circ> input_kind) inputs"

lemma set_refund_lock_times:
  "lt \<in> set (refund_lock_times inputs) \<longleftrightarrow> (\<exists>inp \<in> set inputs. input_kind inp = Refund lt)"
proof -
  have "refund_lock_time k = Some lt \<longleftrightarrow> k = Refund lt" for k by (cases k) auto
  then show ?thesis by (force simp: refund_lock_times_def map_filter_def image_iff)
qed

lemma construct_lock_time_Ok:
  assumes "amount_lib_ok bl" and "construct_lock_time bl inputs = Ok lt"
  shows "unat lt < 500000000" and "inp \<in> set inputs \<Longrightarrow> input_kind inp = Refund t \<Longrightarrow> t \<le> lt"
    and "lt = 0 \<or> (\<exists>inp \<in> set inputs. input_kind inp = Refund lt)"
proof -
  let ?m = "iter_max (refund_lock_times inputs)"
  have lt: "case ?m of Some m \<Rightarrow> m = lt \<and> unat lt < 500000000 | None \<Rightarrow> lt = 0"
    using assms
    by (auto simp: construct_lock_time_def refund_lock_times_def amount_lib_ok_def
        split: option.splits if_splits)
  show "unat lt < 500000000" using lt by (auto split: option.splits)
  show "lt = 0 \<or> (\<exists>inp \<in> set inputs. input_kind inp = Refund lt)"
    using lt iter_max_SomeD [of "refund_lock_times inputs"]
    by (auto simp: set_refund_lock_times split: option.splits)
  show "t \<le> lt" if "inp \<in> set inputs" "input_kind inp = Refund t"
  proof -
    have "t \<in> set (refund_lock_times inputs)" using that by (auto simp: set_refund_lock_times)
    with lt iter_max_SomeD [of "refund_lock_times inputs"] show ?thesis
      by (auto split: option.splits)
  qed
qed

text \<open>
  A refund is final only after every lock time involved. The lock time of a built transaction
  is a block height, not below the lock time of any refund input, and it is zero or the lock time
  of one of them; and no input has the final sequence number, which would disable it.
\<close>

theorem construct_tx_lock_time:
  assumes "amount_lib_ok bl" and "construct_tx bl inputs d ft = Ok (tx, fee)"
  shows "unat (tx_lock_time tx) < 500000000
    \<and> (\<forall>inp \<in> set inputs. \<forall>t. input_kind inp = Refund t \<longrightarrow> t \<le> tx_lock_time tx)
    \<and> (tx_lock_time tx = 0 \<or> (\<exists>inp \<in> set inputs. input_kind inp = Refund (tx_lock_time tx)))
    \<and> (\<forall>ti \<in> set (tx_inputs tx). sequence ti \<noteq> 0xFFFFFFFF)"
proof -
  let ?s = "sort_key (bip69_input_key \<circ> prev_outpoint) inputs"
  note raw = construct_tx_raw [OF assms(2)]
  from raw have lt: "construct_lock_time bl ?s = Ok (tx_lock_time tx)"
    by (rule construct_raw_Ok) blast
  from construct_lock_time_Ok [OF assms(1) lt] construct_raw_sequences [OF raw]
  show ?thesis by auto
qed

subsection \<open>The built inputs satisfy their scripts\<close>

text \<open>
  The rules of the chain a spend is judged by: signature verification against a digest, and the
  number a stack element denotes. \<open>segwit_env\<close> and \<open>tapscript_env\<close> are the environments in which
  input \<open>i\<close> of the final transaction is evaluated: signatures are checked against the digest of
  that transaction, \<open>OP_CLTV\<close> against its lock time and the input's sequence number (BIP-65).
\<close>

record chain_rules =
  pubkey_of :: "keypair \<Rightarrow> bytes"
  xonly_of :: "keypair \<Rightarrow> bytes"
  verify_ecdsa :: "bytes \<Rightarrow> bytes \<Rightarrow> bytes \<Rightarrow> bool"
  verify_schnorr :: "bytes \<Rightarrow> bytes \<Rightarrow> bytes \<Rightarrow> bool"
  read_scriptint :: "bytes \<Rightarrow> int option"

definition tx_cltv_ok :: "chain_rules \<Rightarrow> transaction \<Rightarrow> nat \<Rightarrow> bytes \<Rightarrow> bool" where
  "tx_cltv_ok rules tx i x =
     (case read_scriptint rules x of None \<Rightarrow> False
      | Some n \<Rightarrow> 0 \<le> n \<and> n \<le> uint (tx_lock_time tx)
          \<and> (n < 500000000) = (uint (tx_lock_time tx) < 500000000)
          \<and> sequence (tx_inputs tx ! i) \<noteq> 0xFFFFFFFF)"

definition digest_env ::
  "(bytes \<Rightarrow> bytes \<Rightarrow> bytes \<Rightarrow> bool) \<Rightarrow> bytes option \<Rightarrow> (bytes \<Rightarrow> bool) \<Rightarrow> spend_env" where
  "digest_env verify digest cltv =
     \<lparr>valid_sig = (\<lambda>k s. case digest of Some d \<Rightarrow> verify k d s | None \<Rightarrow> False), cltv_ok = cltv,
      inspect_spk = (\<lambda>_. None), inspect_asset = (\<lambda>_. None), inspect_value = (\<lambda>_. None)\<rparr>"

definition segwit_env ::
  "bitcoin_lib \<Rightarrow> chain_rules \<Rightarrow> transaction \<Rightarrow> nat \<Rightarrow> script \<Rightarrow> u64 \<Rightarrow> spend_env" where
  "segwit_env bl rules tx i s v =
     digest_env (verify_ecdsa rules) (p2wsh_signature_hash bl tx i s v) (tx_cltv_ok rules tx i)"

definition tapscript_env ::
  "bitcoin_lib \<Rightarrow> chain_rules \<Rightarrow> transaction \<Rightarrow> nat \<Rightarrow> tx_out list \<Rightarrow> bytes \<Rightarrow> spend_env" where
  "tapscript_env bl rules tx i prevouts lh =
     digest_env (verify_schnorr rules) (taproot_script_spend_hash bl tx i prevouts lh)
       (tx_cltv_ok rules tx i)"

text \<open>Two transactions that differ at most in their script signatures and witnesses.\<close>

definition same_unsigned :: "transaction \<Rightarrow> transaction \<Rightarrow> bool" where
  "same_unsigned t u \<longleftrightarrow> tx_version t = tx_version u \<and> tx_lock_time t = tx_lock_time u
     \<and> tx_outputs t = tx_outputs u
     \<and> map (\<lambda>i. (previous_output i, sequence i)) (tx_inputs t)
       = map (\<lambda>i. (previous_output i, sequence i)) (tx_inputs u)"

text \<open>
  What the libraries document: a signature verifies under the key that made it, the digests of
  BIP-143 and BIP-341 do not cover script signatures and witnesses, and reading a script number
  inverts writing it.
\<close>

definition chain_rules_ok :: "bitcoin_lib \<Rightarrow> chain_rules \<Rightarrow> bool" where
  "chain_rules_ok bl rules \<longleftrightarrow>
     (\<forall>k d n. verify_ecdsa rules (pubkey_of rules k) d (sign_ecdsa_grind_r bl d k n))
     \<and> (\<forall>k d. verify_schnorr rules (xonly_of rules k) d (sign_schnorr bl d k))
     \<and> (\<forall>t u. same_unsigned t u \<longrightarrow> p2wsh_signature_hash bl t = p2wsh_signature_hash bl u
          \<and> taproot_script_spend_hash bl t = taproot_script_spend_hash bl u)
     \<and> (\<forall>n. 0 \<le> n \<longrightarrow> n < 2 ^ 32 \<longrightarrow>
          read_scriptint rules (write_scriptint (slib bl) n) = Some n)"

lemma chain_rules_okD:
  assumes "chain_rules_ok bl rules"
  shows "verify_ecdsa rules (pubkey_of rules k) d (sign_ecdsa_grind_r bl d k n)"
    and "verify_schnorr rules (xonly_of rules k) d (sign_schnorr bl d k)"
    and "same_unsigned t u \<Longrightarrow> p2wsh_signature_hash bl t = p2wsh_signature_hash bl u"
    and "same_unsigned t u \<Longrightarrow> taproot_script_spend_hash bl t = taproot_script_spend_hash bl u"
    and "read_scriptint rules (write_scriptint (slib bl) (lock_time_int lt)) = Some (lock_time_int lt)"
  using assms lock_time_int_bounds [of lt] by (auto simp: chain_rules_ok_def)

lemma tx_cltv_reached:
  assumes "chain_rules_ok bl rules" and "lt \<le> tx_lock_time tx"
    and "unat (tx_lock_time tx) < 500000000" and "sequence (tx_inputs tx ! i) \<noteq> 0xFFFFFFFF"
  shows "tx_cltv_ok rules tx i (write_scriptint (slib bl) (lock_time_int lt))"
proof -
  have "uint lt \<le> uint (tx_lock_time tx)" using assms(2) by (simp add: word_le_def)
  moreover have "uint (tx_lock_time tx) < 500000000"
    using assms(3) by (simp add: uint_nat)
  ultimately show ?thesis
    using assms(4) by (simp add: tx_cltv_ok_def chain_rules_okD(5) [OF assms(1), unfolded lock_time_int_def]
        lock_time_int_def)
qed

lemma construct_raw_same_unsigned:
  assumes "construct_raw bl inputs d fee = Ok tx"
  shows "same_unsigned tx (unsigned_tx tx inputs)"
proof -
  have "map (\<lambda>i. (previous_output i, sequence i)) (tx_inputs tx)
      = map (\<lambda>i. (previous_output i, sequence i)) (map unsigned_input inputs)"
    using construct_raw_length [OF assms] construct_raw_input(1,2) [OF assms]
    by (intro nth_equalityI) (auto simp: unsigned_input_def)
  then show ?thesis by (simp add: same_unsigned_def unsigned_tx_def)
qed

lemma construct_raw_cltv:
  assumes "amount_lib_ok bl" and rules: "chain_rules_ok bl rules"
    and raw: "construct_raw bl s d fee = Ok tx"
    and i: "i < length s" "input_kind (s ! i) = Refund t" and lt: "lt \<le> t"
  shows "tx_cltv_ok rules tx i (write_scriptint (slib bl) (lock_time_int lt))"
proof -
  note len = construct_raw_length [OF raw]
  from raw have clt: "construct_lock_time bl s = Ok (tx_lock_time tx)"
    by (rule construct_raw_Ok)
  have "t \<le> tx_lock_time tx"
    using i by (intro construct_lock_time_Ok(2) [OF assms(1) clt, of "s ! i"]) auto
  then show ?thesis
    using lt i len construct_lock_time_Ok(1) [OF assms(1) clt] construct_raw_sequences [OF raw]
    by (intro tx_cltv_reached [OF rules]) (auto dest: order.trans)
qed

lemma segwit_witness_Ok:
  assumes "segwit_witness bl tx i inp scr = Ok w"
  obtains d where "p2wsh_signature_hash bl tx i scr (amount (prev_out inp)) = Some d"
    and "w = [sign_ecdsa_grind_r bl d (keys inp) ECDSA_BYTES_TO_GRIND,
              preimage_push (input_kind inp), script_bytes (slib bl) scr]"
  using assms by (auto simp: segwit_witness_def legacy_signature_def split: if_splits)

lemma segwit_input_witness:
  assumes "chain_rules_ok bl rules" and raw: "construct_raw bl s d fee = Ok tx"
    and i: "i < length s" and kind: "output_kind (s ! i) \<in> {SegwitV0 scr, Compatibility scr}"
  obtains sig where
    "witness (tx_inputs tx ! i) = [sig, preimage_push (input_kind (s ! i)), script_bytes (slib bl) scr]"
    "valid_sig (segwit_env bl rules tx i scr (amount (prev_out (s ! i))))
       (pubkey_of rules (keys (s ! i))) sig"
proof -
  have "segwit_witness bl (unsigned_tx tx s) i (s ! i) scr = Ok (witness (tx_inputs tx ! i))"
    using construct_raw_input(4) [OF raw i] kind by (auto simp: input_witness_def)
  then show ?thesis
    using chain_rules_okD(3) [OF assms(1) construct_raw_same_unsigned [OF raw]]
      chain_rules_okD(1) [OF assms(1)]
    by (elim segwit_witness_Ok) (auto intro!: that simp: segwit_env_def digest_env_def)
qed

text \<open>
  The details of an input fit a script: a claim knows a preimage and holds the claim key, a
  refund waits at least for the lock time of the script and holds the refund key.
\<close>

definition input_fits ::
  "script_lib \<Rightarrow> bytes \<Rightarrow> bytes \<Rightarrow> bytes \<Rightarrow> u32 \<Rightarrow> bytes \<Rightarrow> input_type \<Rightarrow> bool" where
  "input_fits lib h ck rk lt pk kind =
     (case kind of
        Claim p \<Rightarrow> length p = 32 \<and> hash160 lib p = h \<and> pk = ck
      | Refund t \<Rightarrow> lt \<le> t \<and> pk = rk)"

context htlc_script
begin

lemma segwit_input_spends:
  assumes "script_lib_ok (slib bl)" and "amount_lib_ok bl" and "chain_rules_ok bl rules"
    and raw: "construct_raw bl s d fee = Ok tx" and i: "i < length s"
    and scr: "scr = script_of (slib bl) h ck rk lt"
    and kind: "output_kind (s ! i) \<in> {SegwitV0 scr, Compatibility scr}"
    and fits: "input_fits (slib bl) h ck rk lt (pubkey_of rules (keys (s ! i))) (input_kind (s ! i))"
    and branch: "\<And>p. length p = 32 \<Longrightarrow> hash160 (slib bl) p = h \<Longrightarrow> opens (slib bl) h p"
      "\<not> opens (slib bl) h []"
  shows "script_spend (slib bl) (segwit_env bl rules tx i scr (amount (prev_out (s ! i)))) scr
    (rev (butlast (witness (tx_inputs tx ! i))))"
proof -
  from segwit_input_witness [OF assms(3) raw i kind] obtain sig where
    w: "witness (tx_inputs tx ! i)
      = [sig, preimage_push (input_kind (s ! i)), script_bytes (slib bl) scr]"
    and sig: "valid_sig (segwit_env bl rules tx i scr (amount (prev_out (s ! i))))
       (pubkey_of rules (keys (s ! i))) sig" .
  show ?thesis
  proof (cases "input_kind (s ! i)")
    case (Claim p)
    with fits sig branch(1) [of p] show ?thesis
      unfolding w scr by (auto simp: input_fits_def intro!: claim_spends assms)
  next
    case (Refund t)
    then have "lt \<le> t" using fits by (simp add: input_fits_def)
    note cltv = construct_raw_cltv [OF assms(2,3) raw i Refund this]
    then have "lock_time_reached (slib bl)
        (segwit_env bl rules tx i scr (amount (prev_out (s ! i)))) lt"
      by (simp add: lock_time_reached_def segwit_env_def digest_env_def)
    with Refund fits sig branch show ?thesis
      unfolding w scr by (auto simp: input_fits_def PREIMAGE_DUMMY_def intro!: refund_spends assms)
  qed
qed

end

lemma taproot_witness_Ok:
  assumes "taproot_witness bl tx prevouts i inp u = Ok w"
    and "leaf = (case input_kind inp of Claim _ \<Rightarrow> claim_leaf (swap_tree_of u)
                 | Refund _ \<Rightarrow> refund_leaf (swap_tree_of u))"
  obtains lh d cb where "leaf_hash (tlib bl) leaf = Ok lh"
    and "taproot_script_spend_hash bl tx i prevouts lh = Some d"
    and "w = [sign_schnorr bl d (keys inp)]
       @ (case input_kind inp of Claim p \<Rightarrow> [p] | Refund _ \<Rightarrow> [])
       @ [script_bytes (slib bl) (leaf_output leaf), cb]"
  using assms unfolding taproot_witness_def Let_def assms(2) [symmetric]
  by (auto split: if_splits)

definition spent_leaf :: "input_type \<Rightarrow> tree \<Rightarrow> tapleaf" where
  "spent_leaf kind t = (case kind of Claim _ \<Rightarrow> claim_leaf t | Refund _ \<Rightarrow> refund_leaf t)"

lemma taproot_input_witness:
  assumes "chain_rules_ok bl rules" and raw: "construct_raw bl s d fee = Ok tx"
    and i: "i < length s" and kind: "output_kind (s ! i) = Taproot (Some u)"
  obtains lh sig cb where
    "leaf_hash (tlib bl) (spent_leaf (input_kind (s ! i)) (swap_tree_of u)) = Ok lh"
    "witness (tx_inputs tx ! i) = [sig]
       @ (case input_kind (s ! i) of Claim p \<Rightarrow> [p] | Refund _ \<Rightarrow> [])
       @ [script_bytes (slib bl) (leaf_output (spent_leaf (input_kind (s ! i)) (swap_tree_of u))), cb]"
    "valid_sig (tapscript_env bl rules tx i (map prev_out s) lh) (xonly_of rules (keys (s ! i))) sig"
proof -
  have "taproot_witness bl (unsigned_tx tx s) (map prev_out s) i (s ! i) u
      = Ok (witness (tx_inputs tx ! i))"
    using construct_raw_input(4) [OF raw i] kind by (auto simp: input_witness_def)
  from taproot_witness_Ok [OF this spent_leaf_def] obtain lh d' cb where
    lh: "leaf_hash (tlib bl) (spent_leaf (input_kind (s ! i)) (swap_tree_of u)) = Ok lh"
    and d': "taproot_script_spend_hash bl (unsigned_tx tx s) i (map prev_out s) lh = Some d'"
    and w: "witness (tx_inputs tx ! i) = [sign_schnorr bl d' (keys (s ! i))]
       @ (case input_kind (s ! i) of Claim p \<Rightarrow> [p] | Refund _ \<Rightarrow> [])
       @ [script_bytes (slib bl) (leaf_output (spent_leaf (input_kind (s ! i)) (swap_tree_of u))), cb]" .
  have "valid_sig (tapscript_env bl rules tx i (map prev_out s) lh)
      (xonly_of rules (keys (s ! i))) (sign_schnorr bl d' (keys (s ! i)))"
    using d' chain_rules_okD(4) [OF assms(1) construct_raw_same_unsigned [OF raw]]
    by (simp add: tapscript_env_def digest_env_def chain_rules_okD(2) [OF assms(1)])
  with lh w show ?thesis by (rule that)
qed

context htlc_leaves
begin

lemma taproot_input_spends:
  assumes "script_lib_ok (slib bl)" and "amount_lib_ok bl" and "chain_rules_ok bl rules"
    and raw: "construct_raw bl s d fee = Ok tx" and i: "i < length s"
    and kind: "output_kind (s ! i) = Taproot (Some u)"
    and claim: "leaf_output (claim_leaf (swap_tree_of u)) = claim_script (slib bl) h ck"
    and refund: "leaf_output (refund_leaf (swap_tree_of u)) = refund_script (slib bl) rk lt"
    and fits: "input_fits (slib bl) h ck rk lt (xonly_of rules (keys (s ! i))) (input_kind (s ! i))"
    and "lt \<noteq> 0" and branch: "\<And>p. length p = 32 \<Longrightarrow> opens p"
  shows "\<exists>lh. leaf_hash (tlib bl) (spent_leaf (input_kind (s ! i)) (swap_tree_of u)) = Ok lh
    \<and> script_spend (slib bl) (tapscript_env bl rules tx i (map prev_out s) lh)
        (leaf_output (spent_leaf (input_kind (s ! i)) (swap_tree_of u)))
        (rev (butlast (butlast (witness (tx_inputs tx ! i)))))"
proof -
  from taproot_input_witness [OF assms(3) raw i kind] obtain lh sig cb where
    lh: "leaf_hash (tlib bl) (spent_leaf (input_kind (s ! i)) (swap_tree_of u)) = Ok lh"
    and w: "witness (tx_inputs tx ! i) = [sig]
       @ (case input_kind (s ! i) of Claim p \<Rightarrow> [p] | Refund _ \<Rightarrow> [])
       @ [script_bytes (slib bl) (leaf_output (spent_leaf (input_kind (s ! i)) (swap_tree_of u))), cb]"
    and sig: "valid_sig (tapscript_env bl rules tx i (map prev_out s) lh)
       (xonly_of rules (keys (s ! i))) sig" .
  have "script_spend (slib bl) (tapscript_env bl rules tx i (map prev_out s) lh)
        (leaf_output (spent_leaf (input_kind (s ! i)) (swap_tree_of u)))
        (rev (butlast (butlast (witness (tx_inputs tx ! i)))))"
  proof (cases "input_kind (s ! i)")
    case (Claim p)
    with fits sig branch [of p] claim assms(1) show ?thesis
      unfolding w by (auto simp: input_fits_def spent_leaf_def claim_leaf_iff)
  next
    case (Refund t)
    then have "lt \<le> t" using fits by (simp add: input_fits_def)
    note cltv = construct_raw_cltv [OF assms(2,3) raw i Refund this]
    then have "lock_time_reached (slib bl)
        (tapscript_env bl rules tx i (map prev_out s) lh) lt"
      by (simp add: lock_time_reached_def tapscript_env_def digest_env_def)
    with Refund fits sig refund assms(1,10) show ?thesis
      unfolding w by (auto simp: input_fits_def spent_leaf_def refund_leaf_iff)
  qed
  with lh show ?thesis by blast
qed

end

text \<open>
  C6: The witnesses that \<open>construct_tx\<close> builds for P2WSH and nested P2WSH inputs spend their
  scripts. If an input locks its coins to the submarine or the reverse swap script and its
  details fit that script (a claim with the 32-byte preimage and the claim key, a refund with the
  refund key and a lock time not below the script's), then evaluating the script on the witness
  of the signed transaction succeeds, against the digest, the lock time and the sequence number
  of that transaction. The empty string must not be a preimage, since refunds push it.
\<close>

theorem segwit_inputs_spend:
  assumes "script_lib_ok (slib bl)" and "amount_lib_ok bl" and "chain_rules_ok bl rules"
    and "construct_tx bl inputs d ft = Ok (tx, fee)" and "i < length inputs"
    and "inp = sort_key (bip69_input_key \<circ> prev_outpoint) inputs ! i"
    and "scr \<in> {swap_script (slib bl) h ck rk lt, reverse_script (slib bl) h ck rk lt}"
    and "output_kind inp \<in> {SegwitV0 scr, Compatibility scr}"
    and "input_fits (slib bl) h ck rk lt (pubkey_of rules (keys inp)) (input_kind inp)"
    and "hash160 (slib bl) [] \<noteq> h"
  shows "script_spend (slib bl) (segwit_env bl rules tx i scr (amount (prev_out inp))) scr
    (rev (butlast (witness (tx_inputs tx ! i))))"
proof -
  have i: "i < length (sort_key (bip69_input_key \<circ> prev_outpoint) inputs)" using assms(5) by simp
  note facts = assms(1-3) construct_tx_raw [OF assms(4)] i
  from assms(7) consider "scr = swap_script (slib bl) h ck rk lt"
    | "scr = reverse_script (slib bl) h ck rk lt" by blast
  then show ?thesis
  proof cases
    case 1
    then show ?thesis
      using assms(6,8-10) by (intro btc_swap.segwit_input_spends [OF facts, folded assms(6)]) auto
  next
    case 2
    then show ?thesis
      using assms(6,8-10) by (intro btc_reverse.segwit_input_spends [OF facts, folded assms(6)]) auto
  qed
qed

text \<open>
  C7: The script-path witnesses that \<open>construct_tx\<close> builds for Taproot inputs spend the leaf they
  reveal: the claim leaf with the preimage for a claim, the refund leaf for a refund, for
  submarine and for reverse swap trees, against the digest of the signed transaction for the hash
  of exactly that leaf. The lock time of the tree must not be zero, because the refund leaf leaves
  it on the stack as its result.
\<close>

theorem taproot_inputs_spend:
  assumes "script_lib_ok (slib bl)" and "amount_lib_ok bl" and "chain_rules_ok bl rules"
    and "construct_tx bl inputs d ft = Ok (tx, fee)" and "i < length inputs"
    and "sorted_inputs = sort_key (bip69_input_key \<circ> prev_outpoint) inputs"
    and "inp = sorted_inputs ! i"
    and "t \<in> {swap_tree (slib bl) h ck rk lt, reverse_tree (slib bl) h ck rk lt}"
    and "output_kind inp = Taproot (Some \<lparr>swap_tree_of = t, internal_key = ik\<rparr>)"
    and "input_fits (slib bl) h ck rk lt (xonly_of rules (keys inp)) (input_kind inp)"
    and "lt \<noteq> 0"
  shows "\<exists>lh. leaf_hash (tlib bl) (spent_leaf (input_kind inp) t) = Ok lh
    \<and> script_spend (slib bl) (tapscript_env bl rules tx i (map prev_out sorted_inputs) lh)
        (leaf_output (spent_leaf (input_kind inp) t))
        (rev (butlast (butlast (witness (tx_inputs tx ! i)))))"
proof -
  let ?u = "\<lparr>swap_tree_of = t, internal_key = ik\<rparr>"
  have i: "i < length sorted_inputs" using assms(5,6) by simp
  have kind: "output_kind (sorted_inputs ! i) = Taproot (Some ?u)" using assms(7,9) by simp
  note facts = assms(1-3) construct_tx_raw [OF assms(4), folded assms(6)] i kind
  note swap = btc_swap_tree.taproot_input_spends [OF facts, where h = h and ck = ck and rk = rk
      and lt = lt, unfolded uncooperative_details.simps]
  note reverse = btc_reverse_tree.taproot_input_spends [OF facts, where h = h and ck = ck and rk = rk
      and lt = lt, unfolded uncooperative_details.simps]
  from assms(8) consider "t = swap_tree (slib bl) h ck rk lt"
    | "t = reverse_tree (slib bl) h ck rk lt" by blast
  then show ?thesis
  proof cases
    case 1
    then show ?thesis
      using assms(7,10,11) unfolding assms(7) by (intro swap) (simp_all add: swap_tree_def)
  next
    case 2
    then show ?thesis
      using assms(7,10,11) unfolding assms(7) by (intro reverse) (simp_all add: reverse_tree_def)
  qed
qed

subsection \<open>Witnesses\<close>

text \<open>
  A library instance: amounts are checked 64-bit arithmetic, a key signs with itself, every
  transaction has 150 virtual bytes. The example spends a refund of a reverse swap script, a
  claim of a submarine swap script and a claim of a submarine swap tree.
\<close>

fun le_value :: "bytes \<Rightarrow> nat" where
  "le_value [] = 0"
| "le_value (b # bs) = unat b + 256 * le_value bs"

fun read_sign_digits :: "bytes \<Rightarrow> int option" where
  "read_sign_digits [] = Some 0"
| "read_sign_digits (b # bs) = Some (if b = 129 then - int (le_value bs) else int (le_value bs))"

lemma le_value_digits: "le_value (le_digits n) = n"
proof (induction n rule: le_digits.induct)
  case (1 n)
  have "unat (of_nat (n mod 256) :: byte) = n mod 256" by (simp add: unat_of_nat)
  with 1 show ?case by (subst le_digits.simps) auto
qed

lemma read_sign_digits: "0 \<le> n \<Longrightarrow> read_sign_digits (sign_digits n) = Some n"
  by (auto simp: sign_digits_def le_value_digits)

definition example_rules :: chain_rules where
  "example_rules = \<lparr>pubkey_of = id, xonly_of = id, verify_ecdsa = (\<lambda>pk d sig. sig = pk),
     verify_schnorr = (\<lambda>pk d sig. sig = pk), read_scriptint = read_sign_digits\<rparr>"

definition example_bl :: bitcoin_lib where
  "example_bl = \<lparr>slib = example_lib,
     tlib = \<lparr>leaf_version_ok = (\<lambda>v. v = 192), may_add_leaf = (\<lambda>b d. True),
       tap_leaf_hash = (\<lambda>s v. [v]), tap_finalize_ok = (\<lambda>b k. True),
       tap_control_block = (\<lambda>b k l. Some [0])\<rparr>,
     amount_sum = (\<lambda>xs. if sum_list (map unat xs) \<le> u64_max then Some (sum_list xs) else None),
     amount_add = (\<lambda>a b. if unat a + unat b \<le> u64_max then Some (a + b) else None),
     amount_sub = checked_sub,
     lock_time_from_height = (\<lambda>h. if unat h < 500000000 then Some h else None),
     legacy_signature_hash = (\<lambda>tx i s. Some [1]),
     p2wsh_signature_hash = (\<lambda>tx i s v. Some [1]),
     taproot_script_spend_hash = (\<lambda>tx i ps l. Some [1]),
     digest_ok = (\<lambda>d. True), sign_ecdsa_grind_r = (\<lambda>d k n. k), sign_schnorr = (\<lambda>d k. k),
     push_bytes_ok = (\<lambda>b. True), tx_vsize = (\<lambda>tx. 150)\<rparr>"

lemma example_bl_ok:
  "script_lib_ok (slib example_bl)" "amount_lib_ok example_bl"
  "chain_rules_ok example_bl example_rules"
proof -
  show "script_lib_ok (slib example_bl)" by (simp add: example_bl_def example_lib_ok)
  have add: "a + b = c \<longleftrightarrow> unat c = unat a + unat b"
    if "unat a + unat b \<le> u64_max" for a b c :: u64
    using that by (auto simp: word_unat_eq_iff unat_add_u64)
  then show "amount_lib_ok example_bl"
    by (auto simp: amount_lib_ok_def example_bl_def unat_sum_list_u64 unat_add_u64)
  show "chain_rules_ok example_bl example_rules"
    by (simp add: chain_rules_ok_def example_bl_def example_rules_def example_lib_def
        read_sign_digits)
qed

definition example_inputs :: "input_detail list" where
  "example_inputs =
    [\<lparr>input_kind = Refund 800000,
      output_kind = SegwitV0 (reverse_script example_lib (replicate 20 7) [1] [2] 790000),
      prev_outpoint = \<lparr>txid = [9], vout = 1\<rparr>, prev_out = \<lparr>amount = 5000, out_script = []\<rparr>,
      keys = [2]\<rparr>,
     \<lparr>input_kind = Claim (replicate 32 7),
      output_kind = Compatibility (swap_script example_lib (replicate 20 7) [1] [2] 790000),
      prev_outpoint = \<lparr>txid = [9], vout = 0\<rparr>, prev_out = \<lparr>amount = 7000, out_script = []\<rparr>,
      keys = [1]\<rparr>,
     \<lparr>input_kind = Claim (replicate 32 7),
      output_kind = Taproot (Some \<lparr>
        swap_tree_of = swap_tree example_lib (replicate 20 7) [1] [2] 790000, internal_key = [3]\<rparr>),
      prev_outpoint = \<lparr>txid = [9], vout = 2\<rparr>, prev_out = \<lparr>amount = 8000, out_script = []\<rparr>,
      keys = [1]\<rparr>]"

definition example_destination :: "bytes destination" where
  "example_destination = Multiple \<lparr>change = [6], outs = [([4], 15000)]\<rparr>"

lemma example_sorted:
  "sort_key (bip69_input_key \<circ> prev_outpoint) example_inputs
     = [example_inputs ! 1, example_inputs ! 0, example_inputs ! 2]"
  by (simp add: example_inputs_def bip69_input_key_def bip69_txid_key_def)

lemma example_built:
  "\<exists>tx. construct_tx example_bl example_inputs example_destination (Absolute 1000) = Ok (tx, 1000)"
  unfolding construct_tx_def example_sorted
  by (simp add: construct_raw_def example_inputs_def example_bl_def example_destination_def
      construct_lock_time_def map_filter_simps checked_sub_def u64_max_def sign_input_def
      input_script_sig_def input_witness_def segwit_witness_def taproot_witness_def
      legacy_signature_def swap_tree_def leaf_hash_def build_tree_def add_leaf_with_ver_def
      from_consensus_def mk_refund_leaf_def TAPROOT_LEAF_TAPSCRIPT_def)

theorem construct_tx_conserves_value_witness:
  "\<exists>tx. construct_tx example_bl example_inputs example_destination (Absolute 1000) = Ok (tx, 1000)
     \<and> output_total (tx_outputs tx) + 1000 = 20000"
proof -
  from example_built obtain tx where tx:
    "construct_tx example_bl example_inputs example_destination (Absolute 1000) = Ok (tx, 1000)" ..
  have "input_total example_inputs = 20000" "destination_total example_destination = 15000"
    by (simp_all add: input_total_def example_inputs_def example_destination_def)
  with construct_tx_conserves_value [OF example_bl_ok(2) _ _ tx] tx show ?thesis
    by (auto simp: u64_max_def)
qed

theorem construct_tx_bip69_witness:
  "\<exists>tx. construct_tx example_bl example_inputs example_destination (Absolute 1000) = Ok (tx, 1000)
     \<and> map (vout \<circ> previous_output) (tx_inputs tx) = [0, 1, 2]"
proof -
  from example_built obtain tx where tx:
    "construct_tx example_bl example_inputs example_destination (Absolute 1000) = Ok (tx, 1000)" ..
  have "map previous_output (tx_inputs tx)
      = [\<lparr>txid = [9], vout = 0\<rparr>, \<lparr>txid = [9], vout = 1\<rparr>, \<lparr>txid = [9], vout = 2\<rparr>]"
    using conjunct1 [OF construct_tx_bip69 [OF tx]]
    by (simp add: example_inputs_def bip69_input_key_def bip69_txid_key_def)
  then have "map vout (map previous_output (tx_inputs tx)) = [0, 1, 2]" by simp
  with tx show ?thesis by auto
qed

theorem construct_tx_lock_time_witness:
  "\<exists>tx. construct_tx example_bl example_inputs example_destination (Absolute 1000) = Ok (tx, 1000)
     \<and> tx_lock_time tx = 800000"
proof -
  from example_built obtain tx where tx:
    "construct_tx example_bl example_inputs example_destination (Absolute 1000) = Ok (tx, 1000)" ..
  have "800000 \<le> tx_lock_time tx \<and> (tx_lock_time tx = 0 \<or> tx_lock_time tx = 800000)"
    using construct_tx_lock_time [OF example_bl_ok(2) tx] by (simp add: example_inputs_def)
  with tx show ?thesis by auto
qed

theorem segwit_inputs_spend_witness:
  "\<exists>tx. construct_tx example_bl example_inputs example_destination (Absolute 1000) = Ok (tx, 1000)
     \<and> script_spend example_lib
         (segwit_env example_bl example_rules tx 1
           (reverse_script example_lib (replicate 20 7) [1] [2] 790000) 5000)
         (reverse_script example_lib (replicate 20 7) [1] [2] 790000)
         (rev (butlast (witness (tx_inputs tx ! 1))))"
proof -
  from example_built obtain tx where tx:
    "construct_tx example_bl example_inputs example_destination (Absolute 1000) = Ok (tx, 1000)" ..
  have [simp]: "slib example_bl = example_lib" by (simp add: example_bl_def)
  show ?thesis
    using tx segwit_inputs_spend [OF example_bl_ok tx, of 1 "example_inputs ! 0"
        "reverse_script example_lib (replicate 20 7) [1] [2] 790000" "replicate 20 7" "[1]" "[2]"
        790000] example_sorted
    by (simp add: example_inputs_def input_fits_def example_rules_def) (simp add: example_lib_def)
qed

theorem taproot_inputs_spend_witness:
  "\<exists>tx. construct_tx example_bl example_inputs example_destination (Absolute 1000) = Ok (tx, 1000)
     \<and> (\<exists>env. script_spend example_lib env
         (leaf_output (claim_leaf (swap_tree example_lib (replicate 20 7) [1] [2] 790000)))
         (rev (butlast (butlast (witness (tx_inputs tx ! 2))))))"
proof -
  from example_built obtain tx where tx:
    "construct_tx example_bl example_inputs example_destination (Absolute 1000) = Ok (tx, 1000)" ..
  have [simp]: "slib example_bl = example_lib" by (simp add: example_bl_def)
  show ?thesis
    using tx taproot_inputs_spend [OF example_bl_ok tx _ refl refl, of 2
        "swap_tree example_lib (replicate 20 7) [1] [2] 790000" "replicate 20 7" "[1]" "[2]"
        790000 "[3]"] example_sorted
    by (simp add: example_inputs_def input_fits_def example_rules_def spent_leaf_def)
      (auto simp: example_lib_def)
qed

end
