(* ===== verification/Elements_Tx.thy ===== *)
theory Elements_Tx
  imports Bitcoin_Tx
begin

text \<open>
  Construction of Liquid claim and refund transactions, \<open>src/boltz-core/src/elements/tx.rs\<close> with
  the types of \<open>src/boltz-core/src/elements/mod.rs\<close>. The amounts of the inputs are summed as
  plain \<open>u64\<close> values, which wrap around in the release build; \<open>+\<close> and \<open>-\<close> on \<open>u64\<close> here do the
  same. The blinding factors are elements of a commutative ring \<open>'f\<close>, the scalar field of the
  curve; commitments, proofs, signature hashes, signatures and unblinding are fields of the record
  \<open>elements_lib\<close>. Every draw from the random number generator is an argument (\<open>el_rng\<close>), one
  value per place and iteration.
\<close>

datatype 'a confidential = CNull | CExplicit 'a | Confidential bytes

fun is_confidential :: "'a confidential \<Rightarrow> bool" where
  "is_confidential (Confidential _) = True"
| "is_confidential _ = False"

fun c_explicit :: "'a confidential \<Rightarrow> 'a option" where
  "c_explicit (CExplicit x) = Some x"
| "c_explicit _ = None"

text \<open>An output; its witness is the surjection proof and the range proof.\<close>

record el_tx_out =
  el_asset :: "bytes confidential"
  el_value :: "u64 confidential"
  el_nonce :: "bytes confidential"
  el_out_script :: bytes
  el_out_witness :: "(bytes \<times> bytes) option"

record el_uncooperative_details =
  el_swap_tree_of :: el_tree
  el_internal_key :: bytes

record el_input_detail =
  el_input_kind :: input_type
  el_output_kind :: "(el_uncooperative_details option, script) output_type"
  el_outpoint :: outpoint
  el_prev_out :: el_tx_out
  el_blinding_key :: "keypair option"
  el_keys :: keypair

record el_transaction =
  el_version :: nat
  el_lock_time :: u32
  el_inputs :: "tx_in list"
  el_outputs :: "el_tx_out list"

datatype el_tx_error =
    ElFeeExceedsInputs | ElOutputsExceedInputs | ElInvalidFeeRate | ElEmptyInputs
  | ElOutputIndexOutOfBounds nat | ElMixedAssets | ElMissingBlindingKey nat
  | ElMissingExplicitAsset nat | ElMissingExplicitValue nat | ElTaprootFinalize nat
  | ElControlBlock nat | ElTree tree_error | ElLockTime | ElSighash | ElUnblind
  | ElConfidential | ElSecp

fun el_tx_error_from_fee :: "fee_error \<Rightarrow> el_tx_error" where
  "el_tx_error_from_fee InvalidFeeRate = ElInvalidFeeRate"

subsection \<open>Unblinded inputs\<close>

record 'f tx_out_secrets =
  sec_asset :: bytes
  sec_asset_bf :: 'f
  sec_value :: u64
  sec_value_bf :: 'f

record explicit_output =
  exp_asset :: bytes
  exp_amount :: u64

datatype 'f unblinded_output = Unblinded "'f tx_out_secrets" | Explicit explicit_output

fun unblinded_amount :: "'f unblinded_output \<Rightarrow> u64" where
  "unblinded_amount (Unblinded sec) = sec_value sec"
| "unblinded_amount (Explicit out) = exp_amount out"

fun unblinded_asset :: "'f unblinded_output \<Rightarrow> bytes" where
  "unblinded_asset (Unblinded sec) = sec_asset sec"
| "unblinded_asset (Explicit out) = exp_asset out"

fun is_unblinded :: "'f unblinded_output \<Rightarrow> bool" where
  "is_unblinded (Unblinded _) = True"
| "is_unblinded (Explicit _) = False"

text \<open>The conversions to a \<open>SurjectionInput\<close> and to the triple of amount and factors.\<close>

fun surjection_input :: "'f::comm_ring_1 unblinded_output \<Rightarrow> bytes \<times> 'f" where
  "surjection_input (Unblinded sec) = (sec_asset sec, sec_asset_bf sec)"
| "surjection_input (Explicit out) = (exp_asset out, 0)"

fun blinding_triple :: "'f::comm_ring_1 unblinded_output \<Rightarrow> u64 \<times> 'f \<times> 'f" where
  "blinding_triple (Unblinded sec) = (sec_value sec, sec_asset_bf sec, sec_value_bf sec)"
| "blinding_triple (Explicit out) = (exp_amount out, 0, 0)"

record 'f elements_lib =
  el_slib :: script_lib
  el_tlib :: taproot_lib
  el_lock_time_from_height :: "u32 \<Rightarrow> u32 option"
  el_legacy_sighash :: "el_transaction \<Rightarrow> nat \<Rightarrow> script \<Rightarrow> bytes"
  el_segwitv0_sighash :: "el_transaction \<Rightarrow> nat \<Rightarrow> script \<Rightarrow> u64 confidential \<Rightarrow> bytes"
  el_taproot_sighash ::
    "el_transaction \<Rightarrow> nat \<Rightarrow> el_tx_out list \<Rightarrow> bytes \<Rightarrow> bytes \<Rightarrow> bytes option"
  el_digest_ok :: "bytes \<Rightarrow> bool"
  el_sign_ecdsa_grind_r :: "bytes \<Rightarrow> keypair \<Rightarrow> nat \<Rightarrow> bytes"
  el_sign_schnorr :: "bytes \<Rightarrow> keypair \<Rightarrow> bytes"
  el_unblind :: "el_tx_out \<Rightarrow> keypair \<Rightarrow> 'f tx_out_secrets option"
  vbf_last :: "u64 \<Rightarrow> 'f \<Rightarrow> (u64 \<times> 'f \<times> 'f) list \<Rightarrow> (u64 \<times> 'f \<times> 'f) list \<Rightarrow> 'f"
  blind_value ::
    "u64 \<Rightarrow> 'f \<Rightarrow> bytes \<Rightarrow> bytes \<Rightarrow> bytes \<Rightarrow> bytes \<times> 'f \<Rightarrow> (bytes \<times> bytes \<times> bytes) option"
  blind_asset :: "bytes \<Rightarrow> 'f \<Rightarrow> bytes \<Rightarrow> (bytes \<times> 'f) list \<Rightarrow> (bytes \<times> bytes) option"
  new_fee :: "u64 \<Rightarrow> bytes \<Rightarrow> el_tx_out"
  secret_public_key :: "bytes \<Rightarrow> bytes"
  discount_vsize :: "el_transaction \<Rightarrow> u64"

record 'f output_draw =
  draw_value_bf :: 'f
  draw_ephemeral :: bytes
  draw_surjection :: bytes

record 'f el_rng =
  draw_dummy_key :: bytes
  draw_asset_bf :: 'f
  draw_output :: "nat \<Rightarrow> 'f output_draw"

definition DUMMY_BLINDED_OUTPUT :: u64 where
  "DUMMY_BLINDED_OUTPUT = 1"

definition unblind_output ::
  "'f elements_lib \<Rightarrow> nat \<times> el_input_detail \<Rightarrow> (el_tx_error, 'f unblinded_output) result" where
  "unblind_output lib = (\<lambda>(i, inp).
     if is_confidential (el_value (el_prev_out inp))
     then (case el_blinding_key inp of
             Some blinding_key \<Rightarrow>
               r_map Unblinded (ok_or ElUnblind (el_unblind lib (el_prev_out inp) blinding_key))
           | None \<Rightarrow> Err (ElMissingBlindingKey i))
     else r_bind (ok_or (ElMissingExplicitAsset i) (c_explicit (el_asset (el_prev_out inp)))) (\<lambda>a.
          r_bind (ok_or (ElMissingExplicitValue i) (c_explicit (el_value (el_prev_out inp)))) (\<lambda>v.
            Ok (Explicit \<lparr>exp_asset = a, exp_amount = v\<rparr>))))"

definition unblind_outputs ::
  "'f elements_lib \<Rightarrow> el_input_detail list \<Rightarrow> (el_tx_error, 'f unblinded_output list) result" where
  "unblind_outputs lib inputs = r_mapM (unblind_output lib) (enumerate 0 inputs)"

subsection \<open>Outputs\<close>

text \<open>
  Blinding is skipped for the fee estimate and for outputs without a blinding key. The result is
  the flag, the two blinding factors and the output.
\<close>

definition create_output ::
  "'f::comm_ring_1 elements_lib \<Rightarrow> 'f output_draw \<Rightarrow> 'f unblinded_output list \<Rightarrow> bytes \<times> 'f \<Rightarrow> bytes
    \<Rightarrow> bytes option \<Rightarrow> u64 \<Rightarrow> bool \<Rightarrow> (u64 \<times> 'f \<times> 'f) list option
    \<Rightarrow> (el_tx_error, bool \<times> 'f \<times> 'f \<times> el_tx_out) result" where
  "create_output lib draw unblinded asset script bk v is_fee_estimation last_blinding_params =
     (case (is_fee_estimation, bk) of
        (False, Some blinding_key) \<Rightarrow>
          (let value_bf = (case last_blinding_params of
                 Some params \<Rightarrow> vbf_last lib v (snd asset) (map blinding_triple unblinded) params
               | None \<Rightarrow> draw_value_bf draw)
           in r_bind (ok_or ElConfidential
                (blind_value lib v value_bf blinding_key (draw_ephemeral draw) script asset))
                (\<lambda>(blinded_value, nonce, range_proof).
              r_bind (ok_or ElConfidential
                (blind_asset lib (fst asset) (snd asset) (draw_surjection draw)
                   (map surjection_input unblinded)))
                (\<lambda>(blinded_asset, asset_surjection_proof).
                Ok (True, snd asset, value_bf,
                  \<lparr>el_asset = Confidential blinded_asset, el_value = Confidential blinded_value,
                   el_nonce = Confidential nonce, el_out_script = script,
                   el_out_witness = Some (asset_surjection_proof, range_proof)\<rparr>))))
      | _ \<Rightarrow> Ok (False, 0, 0,
          \<lparr>el_asset = CExplicit (fst asset), el_value = CExplicit v, el_nonce = CNull,
           el_out_script = script, el_out_witness = None\<rparr>))"

definition is_blinded :: "el_address \<Rightarrow> bool" where
  "is_blinded address = (blinding_pubkey address \<noteq> None)"

type_synonym intent = "u64 \<times> bytes \<times> bytes option"

definition address_intent :: "u64 \<Rightarrow> el_address \<Rightarrow> intent" where
  "address_intent v address = (v, script_pubkey address, blinding_pubkey address)"

fun destination_blinded :: "el_address destination \<Rightarrow> bool" where
  "destination_blinded (Single address) = is_blinded address"
| "destination_blinded (Multiple os) =
     (is_blinded (change os) \<or> list_ex (\<lambda>(address, _). is_blinded address) (outs os))"

definition needs_dummy_output :: "'f unblinded_output list \<Rightarrow> el_address destination \<Rightarrow> bool" where
  "needs_dummy_output unblinded destination =
     (list_ex is_unblinded unblinded \<and> \<not> destination_blinded destination)"

definition dummy_amount :: "bool \<Rightarrow> u64" where
  "dummy_amount needs_dummy = (if needs_dummy then DUMMY_BLINDED_OUTPUT else 0)"

text \<open>The intents of the destination, for an input sum from which the dummy is already taken.\<close>

fun destination_intents ::
  "u64 \<Rightarrow> bool \<Rightarrow> el_address destination \<Rightarrow> u64 \<Rightarrow> (el_tx_error, intent list) result" where
  "destination_intents input_sum needs_dummy (Single address) fee =
     r_bind (ok_or ElFeeExceedsInputs (checked_sub input_sum fee)) (\<lambda>v. Ok [address_intent v address])"
| "destination_intents input_sum needs_dummy (Multiple os) fee =
     (let output_sum = sum_list (map snd (outs os))
      in if input_sum < output_sum + fee + dummy_amount needs_dummy then Err ElOutputsExceedInputs
         else Ok (map (\<lambda>(address, v). address_intent v address) (outs os)
                @ [address_intent (input_sum - fee - output_sum) (change os)]))"

definition intent_key :: "intent \<Rightarrow> u64 \<times> bytes" where
  "intent_key = (\<lambda>(v, script, _). (v, script))"

definition dummy_intents :: "'f elements_lib \<Rightarrow> 'f el_rng \<Rightarrow> bool \<Rightarrow> intent list" where
  "dummy_intents lib rng needs_dummy =
     (if needs_dummy
      then [(DUMMY_BLINDED_OUTPUT, script_bytes (el_slib lib) [Op OP_RETURN],
             Some (secret_public_key lib (draw_dummy_key rng)))]
      else [])"

definition output_intents ::
  "'f::comm_ring_1 elements_lib \<Rightarrow> 'f el_rng \<Rightarrow> 'f unblinded_output list \<Rightarrow> el_address destination
    \<Rightarrow> u64 \<Rightarrow> (el_tx_error, intent list) result" where
  "output_intents lib rng unblinded destination fee =
     (let needs_dummy = needs_dummy_output unblinded destination;
          input_sum = sum_list (map unblinded_amount unblinded) - dummy_amount needs_dummy
      in r_bind (destination_intents input_sum needs_dummy destination fee) (\<lambda>is.
           Ok (sort_key intent_key (dummy_intents lib rng needs_dummy @ is))))"

text \<open>An entry of the vector \<open>outputs\<close>: amount, the two blinding factors, and the output.\<close>

type_synonym 'f built = "u64 \<times> 'f \<times> 'f \<times> el_tx_out"

definition built_triple :: "'f built \<Rightarrow> u64 \<times> 'f \<times> 'f" where
  "built_triple = (\<lambda>(v, asset_bf, value_bf, _). (v, asset_bf, value_bf))"

definition built_output :: "'f built \<Rightarrow> el_tx_out" where
  "built_output = (\<lambda>(_, _, _, out). out)"

definition output_step ::
  "'f::comm_ring_1 elements_lib \<Rightarrow> 'f el_rng \<Rightarrow> 'f unblinded_output list \<Rightarrow> bytes \<Rightarrow> bool \<Rightarrow> intent
    \<Rightarrow> (nat \<times> intent) option \<times> 'f built list
    \<Rightarrow> (el_tx_error, (nat \<times> intent) option \<times> 'f built list) result" where
  "output_step lib rng unblinded asset_id is_fee_estimation = (\<lambda>(v, script, bk) (last, outputs).
     r_bind (create_output lib (draw_output rng (length outputs)) unblinded
               (asset_id, draw_asset_bf rng) script bk v is_fee_estimation None)
       (\<lambda>(blinded, asset_bf, value_bf, out).
         Ok (if blinded then Some (length outputs, v, script, bk) else last,
             outputs @ [(v, asset_bf, value_bf, out)])))"

definition except_index :: "nat \<Rightarrow> 'a list \<Rightarrow> 'a list" where
  "except_index index xs = map snd (filter (\<lambda>(i, _). i \<noteq> index) (enumerate 0 xs))"

text \<open>The last blinded output is built again, with the factor that balances the transaction.\<close>

definition rebuild_last ::
  "'f::comm_ring_1 elements_lib \<Rightarrow> 'f el_rng \<Rightarrow> 'f unblinded_output list \<Rightarrow> bytes \<Rightarrow> bool
    \<Rightarrow> (nat \<times> intent) option \<Rightarrow> 'f built list \<Rightarrow> (el_tx_error, 'f built list) result" where
  "rebuild_last lib rng unblinded asset_id is_fee_estimation last_to_blind outputs =
     (case last_to_blind of
        None \<Rightarrow> Ok outputs
      | Some (index, v, script, bk) \<Rightarrow>
          r_bind (create_output lib (draw_output rng (length outputs)) unblinded
                    (asset_id, draw_asset_bf rng) script bk v is_fee_estimation
                    (Some (map built_triple (except_index index outputs))))
            (\<lambda>(_, asset_bf, value_bf, out).
              if index < length outputs then Ok (outputs[index := (v, asset_bf, value_bf, out)])
              else Err (ElOutputIndexOutOfBounds index)))"

definition built_outputs ::
  "'f::comm_ring_1 elements_lib \<Rightarrow> 'f el_rng \<Rightarrow> 'f unblinded_output list \<Rightarrow> bytes
    \<Rightarrow> el_address destination \<Rightarrow> u64 \<Rightarrow> bool \<Rightarrow> (el_tx_error, 'f built list) result" where
  "built_outputs lib rng unblinded asset_id destination fee is_fee_estimation =
     r_bind (output_intents lib rng unblinded destination fee) (\<lambda>intents.
     r_bind (r_fold (output_step lib rng unblinded asset_id is_fee_estimation) intents (None, []))
       (\<lambda>(last_to_blind, outputs).
         rebuild_last lib rng unblinded asset_id is_fee_estimation last_to_blind
           (outputs @ [(fee, 0, 0, new_fee lib fee asset_id)])))"

definition blind_outputs ::
  "'f::comm_ring_1 elements_lib \<Rightarrow> 'f el_rng \<Rightarrow> 'f unblinded_output list \<Rightarrow> bytes
    \<Rightarrow> el_address destination \<Rightarrow> u64 \<Rightarrow> bool \<Rightarrow> (el_tx_error, el_tx_out list) result" where
  "blind_outputs lib rng unblinded asset_id destination fee is_fee_estimation =
     r_map (map built_output)
       (built_outputs lib rng unblinded asset_id destination fee is_fee_estimation)"

subsection \<open>Signing\<close>

definition el_sighash_all :: byte where
  "el_sighash_all = 1"

definition el_legacy_signature ::
  "'f elements_lib \<Rightarrow> bytes \<Rightarrow> keypair \<Rightarrow> (el_tx_error, bytes) result" where
  "el_legacy_signature lib sighash k =
     (if el_digest_ok lib sighash
      then Ok (el_sign_ecdsa_grind_r lib sighash k ECDSA_BYTES_TO_GRIND @ [el_sighash_all])
      else Err ElSecp)"

definition el_stubbed_cooperative_witness :: "bytes list" where
  "el_stubbed_cooperative_witness = [replicate STUB_SCHNORR_SIGNATURE_LENGTH 0]"

definition el_input_script_sig ::
  "'f elements_lib \<Rightarrow> el_transaction \<Rightarrow> nat \<Rightarrow> el_input_detail \<Rightarrow> (el_tx_error, script) result" where
  "el_input_script_sig lib tx i inp =
     (case el_output_kind inp of
        Legacy witness_script \<Rightarrow>
          r_bind (el_legacy_signature lib (el_legacy_sighash lib tx i witness_script) (el_keys inp))
            (\<lambda>sig. Ok [Push sig, Push (preimage_push (el_input_kind inp)),
                       Push (script_bytes (el_slib lib) witness_script)])
      | Compatibility witness_script \<Rightarrow>
          Ok [Push (script_bytes (el_slib lib)
            [Push [], Push (sha256 (el_slib lib) (script_bytes (el_slib lib) witness_script))])]
      | _ \<Rightarrow> Ok [])"

definition el_spent_leaf :: "input_type \<Rightarrow> el_tree \<Rightarrow> tapleaf" where
  "el_spent_leaf kind t = (case kind of Claim _ \<Rightarrow> el_claim_leaf t | Refund _ \<Rightarrow> el_refund_leaf t)"

definition el_taproot_witness ::
  "'f elements_lib \<Rightarrow> bytes \<Rightarrow> el_transaction \<Rightarrow> el_tx_out list \<Rightarrow> nat \<Rightarrow> el_input_detail
    \<Rightarrow> el_uncooperative_details \<Rightarrow> (el_tx_error, bytes list) result" where
  "el_taproot_witness lib genesis_hash tx prevouts i inp uncooperative =
     (let leaf = el_spent_leaf (el_input_kind inp) (el_swap_tree_of uncooperative)
      in r_bind (r_map_err ElTree (leaf_hash (el_tlib lib) leaf)) (\<lambda>lh.
         r_bind (ok_or ElSighash (el_taproot_sighash lib tx i prevouts lh genesis_hash)) (\<lambda>sighash.
         r_bind (if el_digest_ok lib sighash then Ok (el_sign_schnorr lib sighash (el_keys inp))
                 else Err ElSecp) (\<lambda>sig.
         r_bind (r_map_err ElTree (el_build_tree (el_tlib lib) (el_swap_tree_of uncooperative))) (\<lambda>b.
         r_bind (if tap_finalize_ok (el_tlib lib) b (el_internal_key uncooperative) then Ok ()
                 else Err (ElTaprootFinalize i)) (\<lambda>_.
         r_bind (r_map_err ElTree (from_consensus (el_tlib lib) (leaf_version leaf))) (\<lambda>v.
         r_bind (ok_or (ElControlBlock i)
                  (tap_control_block (el_tlib lib) b (el_internal_key uncooperative)
                     (leaf_output leaf, v))) (\<lambda>control_block.
           Ok ([sig]
             @ (case el_input_kind inp of Claim preimage \<Rightarrow> [preimage] | Refund _ \<Rightarrow> [])
             @ [script_bytes (el_slib lib) (leaf_output leaf), control_block])))))))))"

definition el_segwit_witness ::
  "'f elements_lib \<Rightarrow> el_transaction \<Rightarrow> nat \<Rightarrow> el_input_detail \<Rightarrow> script
    \<Rightarrow> (el_tx_error, bytes list) result" where
  "el_segwit_witness lib tx i inp witness_script =
     r_bind (el_legacy_signature lib
               (el_segwitv0_sighash lib tx i witness_script (el_value (el_prev_out inp)))
               (el_keys inp)) (\<lambda>sig.
       Ok [sig, preimage_push (el_input_kind inp), script_bytes (el_slib lib) witness_script])"

definition el_input_witness ::
  "'f elements_lib \<Rightarrow> bytes \<Rightarrow> el_transaction \<Rightarrow> el_tx_out list \<Rightarrow> nat \<Rightarrow> el_input_detail
    \<Rightarrow> (el_tx_error, bytes list) result" where
  "el_input_witness lib genesis_hash tx prevouts i inp =
     (case el_output_kind inp of
        Taproot None \<Rightarrow> Ok el_stubbed_cooperative_witness
      | Taproot (Some uncooperative) \<Rightarrow>
          el_taproot_witness lib genesis_hash tx prevouts i inp uncooperative
      | SegwitV0 witness_script \<Rightarrow> el_segwit_witness lib tx i inp witness_script
      | Compatibility witness_script \<Rightarrow> el_segwit_witness lib tx i inp witness_script
      | Legacy _ \<Rightarrow> Ok [])"

definition el_sign_input ::
  "'f elements_lib \<Rightarrow> bytes \<Rightarrow> el_transaction \<Rightarrow> el_tx_out list
    \<Rightarrow> (nat \<times> el_input_detail) \<times> tx_in \<Rightarrow> (el_tx_error, tx_in) result" where
  "el_sign_input lib genesis_hash tx prevouts = (\<lambda>((i, inp), tx_in).
     r_bind (el_input_script_sig lib tx i inp) (\<lambda>ss.
     r_bind (el_input_witness lib genesis_hash tx prevouts i inp) (\<lambda>w.
       Ok (tx_in\<lparr>script_sig := ss, witness := w\<rparr>))))"

definition el_construct_lock_time ::
  "'f elements_lib \<Rightarrow> el_input_detail list \<Rightarrow> (el_tx_error, u32) result" where
  "el_construct_lock_time lib inputs =
     (case iter_max (List.map_filter (refund_lock_time \<circ> el_input_kind) inputs) of
        Some lock_time \<Rightarrow> ok_or ElLockTime (el_lock_time_from_height lib lock_time)
      | None \<Rightarrow> Ok 0)"

definition el_unsigned_input :: "el_input_detail \<Rightarrow> tx_in" where
  "el_unsigned_input inp = \<lparr>previous_output = el_outpoint inp, script_sig = [],
     sequence = ENABLE_RBF_NO_LOCKTIME, witness = []\<rparr>"

definition el_construct_raw ::
  "'f::comm_ring_1 elements_lib \<Rightarrow> 'f el_rng \<Rightarrow> bytes \<Rightarrow> el_input_detail list
    \<Rightarrow> 'f unblinded_output list \<Rightarrow> bytes \<Rightarrow> el_address destination \<Rightarrow> u64 \<Rightarrow> bool
    \<Rightarrow> (el_tx_error, el_transaction) result" where
  "el_construct_raw lib rng genesis_hash inputs unblinded asset_id destination fee
      is_fee_estimation =
     r_bind (el_construct_lock_time lib inputs) (\<lambda>lock_time.
     r_bind (blind_outputs lib rng unblinded asset_id destination fee is_fee_estimation) (\<lambda>out.
       let tx = \<lparr>el_version = 2, el_lock_time = lock_time,
             el_inputs = map el_unsigned_input inputs, el_outputs = out\<rparr>;
           prevouts = map el_prev_out inputs
       in r_bind (r_mapM (el_sign_input lib genesis_hash tx prevouts)
                    (zip (enumerate 0 inputs) (el_inputs tx))) (\<lambda>signed.
            Ok (tx\<lparr>el_inputs := signed\<rparr>))))"

definition el_input_len :: "el_transaction \<Rightarrow> u64" where
  "el_input_len tx = of_nat (length (el_inputs tx))"

definition el_sort_inputs :: "el_input_detail list \<Rightarrow> el_input_detail list" where
  "el_sort_inputs inputs = sort_key (bip69_input_key \<circ> el_outpoint) inputs"

text \<open>The estimate and the final transaction draw their randomness independently.\<close>

definition el_construct_tx ::
  "'f::comm_ring_1 elements_lib \<Rightarrow> (bool \<Rightarrow> 'f el_rng) \<Rightarrow> bytes \<Rightarrow> el_input_detail list
    \<Rightarrow> el_address destination \<Rightarrow> fee_target \<Rightarrow> (el_tx_error, el_transaction \<times> u64) result" where
  "el_construct_tx lib rng genesis_hash inputs destination fee =
     (let inputs = el_sort_inputs inputs
      in r_bind (unblind_outputs lib inputs) (\<lambda>unblinded.
         r_bind (ok_or ElEmptyInputs (case unblinded of [] \<Rightarrow> None | u # _ \<Rightarrow> Some (unblinded_asset u)))
           (\<lambda>asset_id.
         if \<not> list_all (\<lambda>u. unblinded_asset u = asset_id) unblinded then Err ElMixedAssets
         else target_fee (discount_vsize lib) el_input_len el_tx_error_from_fee fee
           (\<lambda>fee is_fee_estimation.
             el_construct_raw lib (rng is_fee_estimation) genesis_hash inputs unblinded asset_id
               destination fee is_fee_estimation))))"

subsection \<open>What the outputs are\<close>

text \<open>
  The output built for an intent: it pays to the script of the intent; with a blinding key (and
  outside the fee estimate) it carries the commitment to the amount, blinded for that key, and
  without one the amount and the asset in the clear.
\<close>

definition realises ::
  "'f::comm_ring_1 elements_lib \<Rightarrow> bytes \<Rightarrow> bool \<Rightarrow> intent \<Rightarrow> 'f built \<Rightarrow> bool" where
  "realises lib asset_id est = (\<lambda>(v, script, bk) (v', asset_bf, value_bf, out).
     v' = v \<and> el_out_script out = script \<and>
     (if est \<or> bk = None
      then el_value out = CExplicit v \<and> el_asset out = CExplicit asset_id
        \<and> asset_bf = 0 \<and> value_bf = 0
      else \<exists>ephemeral c nonce proof.
        blind_value lib v value_bf (the bk) ephemeral script (asset_id, asset_bf)
          = Some (c, nonce, proof)
        \<and> el_value out = Confidential c \<and> el_nonce out = Confidential nonce))"

definition weight :: "u64 \<times> 'f::comm_ring_1 \<times> 'f \<Rightarrow> 'f" where
  "weight = (\<lambda>(v, asset_bf, value_bf). of_nat (unat v) * asset_bf + value_bf)"

text \<open>
  \<open>ValueBlindingFactor::last\<close> is documented to return the factor with which the sum of the
  weights \<open>value * asset_bf + value_bf\<close> of the outputs is that of the inputs.
\<close>

definition blinding_lib_ok :: "'f::comm_ring_1 elements_lib \<Rightarrow> bool" where
  "blinding_lib_ok lib \<longleftrightarrow>
     (\<forall>v asset_bf ins os. weight (v, asset_bf, vbf_last lib v asset_bf ins os)
        + sum_list (map weight os) = sum_list (map weight ins))"

lemma create_output_Ok:
  assumes "create_output lib draw unblinded asset script bk v est params
      = Ok (blinded, asset_bf, value_bf, out)"
  shows "blinded \<longleftrightarrow> \<not> est \<and> bk \<noteq> None"
    and "realises lib (fst asset) est (v, script, bk) (v, asset_bf, value_bf, out)"
    and "blinded \<Longrightarrow> asset_bf = snd asset"
    and "blinded \<Longrightarrow> params = Some os \<Longrightarrow>
      value_bf = vbf_last lib v (snd asset) (map blinding_triple unblinded) os"
proof -
  have *: "(blinded \<longleftrightarrow> \<not> est \<and> bk \<noteq> None)
    \<and> realises lib (fst asset) est (v, script, bk) (v, asset_bf, value_bf, out)
    \<and> (blinded \<longrightarrow> asset_bf = snd asset
        \<and> (params = Some os \<longrightarrow>
            value_bf = vbf_last lib v (snd asset) (map blinding_triple unblinded) os))"
  proof (cases "est \<or> bk = None")
    case True
    with assms show ?thesis
      by (auto simp: create_output_def realises_def split: bool.splits option.splits)
  next
    case False
    then obtain k where "\<not> est" "bk = Some k" by auto
    with assms show ?thesis
      by (cases asset) (auto simp: create_output_def realises_def Let_def, blast)
  qed
  from * show "blinded \<longleftrightarrow> \<not> est \<and> bk \<noteq> None" by (elim conjE)
  from * show "realises lib (fst asset) est (v, script, bk) (v, asset_bf, value_bf, out)"
    by (elim conjE)
  from * show "blinded \<Longrightarrow> asset_bf = snd asset" by (elim conjE) simp
  from * show "blinded \<Longrightarrow> params = Some os \<Longrightarrow>
      value_bf = vbf_last lib v (snd asset) (map blinding_triple unblinded) os" by (elim conjE) simp
qed

text \<open>The invariant of the loop over the intents: \<open>ps\<close> are the intents handled so far.\<close>

definition loop_inv ::
  "'f::comm_ring_1 elements_lib \<Rightarrow> bytes \<Rightarrow> bool \<Rightarrow> intent list
    \<Rightarrow> (nat \<times> intent) option \<times> 'f built list \<Rightarrow> bool" where
  "loop_inv lib asset_id est ps = (\<lambda>(last, outputs).
     list_all2 (realises lib asset_id est) ps outputs \<and>
     (case last of
        None \<Rightarrow> est \<or> list_all (\<lambda>(_, _, bk). bk = None) ps
      | Some (k, i) \<Rightarrow> k < length ps \<and> ps ! k = i \<and> \<not> est \<and> snd (snd i) \<noteq> None))"

lemma output_step_inv:
  assumes "loop_inv lib asset_id est ps st"
    and "output_step lib rng unblinded asset_id est x st = Ok st'"
  shows "loop_inv lib asset_id est (ps @ [x]) st'"
proof -
  obtain last outputs where st: "st = (last, outputs)" by (cases st)
  obtain v script bk where x: "x = (v, script, bk)" by (cases x)
  from assms(2) obtain blinded asset_bf value_bf out where
    c: "create_output lib (draw_output rng (length outputs)) unblinded
          (asset_id, draw_asset_bf rng) script bk v est None = Ok (blinded, asset_bf, value_bf, out)"
    and st': "st' = (if blinded then Some (length outputs, v, script, bk) else last,
             outputs @ [(v, asset_bf, value_bf, out)])"
    by (auto simp: output_step_def st x)
  from assms(1) have all: "list_all2 (realises lib asset_id est) ps outputs"
    by (simp add: loop_inv_def st)
  then have "length ps = length outputs" by (rule list_all2_lengthD)
  with all create_output_Ok(1,2) [OF c] assms(1) show ?thesis
    by (auto simp: loop_inv_def st st' x list_all2_appendI nth_append split: option.splits)
qed

lemma except_index_append:
  "except_index (length xs) (xs @ y # zs) = xs @ zs"
proof -
  have "filter (\<lambda>(i, _). i \<noteq> length xs) (enumerate 0 xs) = enumerate 0 xs"
    by (auto simp: filter_id_conv in_set_enumerate_eq)
  moreover have "filter (\<lambda>(i, _). i \<noteq> length xs) (enumerate (Suc (length xs)) zs)
      = enumerate (Suc (length xs)) zs"
    by (auto simp: filter_id_conv in_set_enumerate_eq)
  ultimately show ?thesis
    by (simp add: except_index_def enumerate_append_eq)
qed

lemma sum_list_except_index:
  fixes f :: "'a \<Rightarrow> 'f::comm_ring_1"
  assumes "k < length xs"
  shows "sum_list (map f (xs[k := y])) = f y + sum_list (map f (except_index k xs))"
proof -
  have xs: "xs = take k xs @ xs ! k # drop (Suc k) xs" using assms by (rule id_take_nth_drop)
  have len: "length (take k xs) = k" using assms by simp
  have e: "except_index k xs = take k xs @ drop (Suc k) xs"
    using except_index_append [of "take k xs" "xs ! k" "drop (Suc k) xs"] unfolding len xs [symmetric] .
  have "xs[k := y] = take k xs @ y # drop (Suc k) xs" using assms by (rule upd_conv_take_nth_drop)
  then show ?thesis by (simp add: e)
qed

lemma output_loop:
  assumes "r_fold (output_step lib rng unblinded asset_id est) intents (None, []) = Ok (lst, outputs)"
  shows "loop_inv lib asset_id est intents (lst, outputs)"
  using r_fold_prefix_invariant [where P = "loop_inv lib asset_id est" and ps = "[]", OF assms]
    output_step_inv [of lib asset_id est] by (auto simp: loop_inv_def)

definition balanced :: "'f::comm_ring_1 unblinded_output list \<Rightarrow> 'f built list \<Rightarrow> bool" where
  "balanced unblinded built \<longleftrightarrow>
     sum_list (map (weight \<circ> built_triple) built) = sum_list (map (weight \<circ> blinding_triple) unblinded)"

lemma rebuild_last_Ok:
  assumes inv: "loop_inv lib asset_id est intents (lst, outputs)"
    and ok: "rebuild_last lib rng unblinded asset_id est lst (outputs @ [f]) = Ok built"
  shows "\<exists>new. built = new @ [f] \<and> list_all2 (realises lib asset_id est) intents new"
    and "blinding_lib_ok lib \<Longrightarrow> lst \<noteq> None \<Longrightarrow> balanced unblinded built"
proof -
  have "(\<exists>new. built = new @ [f] \<and> list_all2 (realises lib asset_id est) intents new)
    \<and> (blinding_lib_ok lib \<longrightarrow> lst \<noteq> None \<longrightarrow> balanced unblinded built)"
  proof (cases lst)
    case None
    with ok inv show ?thesis by (auto simp: rebuild_last_def loop_inv_def)
  next
    case (Some l)
    then obtain k v script bk where lst: "lst = Some (k, v, script, bk)" by (cases l) auto
    from inv have k: "k < length intents" "intents ! k = (v, script, bk)" "\<not> est" "bk \<noteq> None"
      and all: "list_all2 (realises lib asset_id est) intents outputs"
      by (auto simp: loop_inv_def lst)
    from all have len: "length outputs = length intents" by (simp add: list_all2_lengthD)
    from ok obtain blinded asset_bf value_bf out where
      c: "create_output lib (draw_output rng (length (outputs @ [f]))) unblinded
            (asset_id, draw_asset_bf rng) script bk v est
            (Some (map built_triple (except_index k (outputs @ [f]))))
          = Ok (blinded, asset_bf, value_bf, out)"
      and built: "built = (outputs @ [f])[k := (v, asset_bf, value_bf, out)]"
      by (auto simp: rebuild_last_def lst split: if_splits)
    note cs = create_output_Ok [OF c]
    have "list_all2 (realises lib asset_id est) (intents[k := (v, script, bk)])
        (outputs[k := (v, asset_bf, value_bf, out)])"
      using all cs(2) by (intro list_all2_update_cong) auto
    then have "list_all2 (realises lib asset_id est) intents (outputs[k := (v, asset_bf, value_bf, out)])"
      using k(2) by (metis list_update_id)
    moreover have "built = outputs[k := (v, asset_bf, value_bf, out)] @ [f]"
      using k(1) len by (simp add: built list_update_append)
    moreover have "balanced unblinded built" if lib: "blinding_lib_ok lib"
    proof -
      have "blinded" using cs(1) k(3,4) by simp
      then have bf: "asset_bf = draw_asset_bf rng"
        "value_bf = vbf_last lib v (draw_asset_bf rng) (map blinding_triple unblinded)
           (map built_triple (except_index k (outputs @ [f])))"
        using cs(3) cs(4) [OF _ refl] by simp_all
      have "sum_list (map (weight \<circ> built_triple) built)
          = weight (v, asset_bf, value_bf)
            + sum_list (map (weight \<circ> built_triple) (except_index k (outputs @ [f])))"
        using k(1) len unfolding built
        by (subst sum_list_except_index) (simp_all add: built_triple_def)
      also have "\<dots> = sum_list (map weight (map blinding_triple unblinded))"
        using lib unfolding bf blinding_lib_ok_def map_map [symmetric] by blast
      finally show ?thesis by (simp add: balanced_def)
    qed
    ultimately show ?thesis by blast
  qed
  then show "\<exists>new. built = new @ [f] \<and> list_all2 (realises lib asset_id est) intents new"
    and "blinding_lib_ok lib \<Longrightarrow> lst \<noteq> None \<Longrightarrow> balanced unblinded built" by blast+
qed

lemma built_outputs_Ok:
  assumes "built_outputs lib rng unblinded asset_id d fee est = Ok built"
  obtains intents new where "output_intents lib rng unblinded d fee = Ok intents"
    and "built = new @ [(fee, 0, 0, new_fee lib fee asset_id)]"
    and "list_all2 (realises lib asset_id est) intents new"
    and "blinding_lib_ok lib \<Longrightarrow> \<not> est \<Longrightarrow> list_ex (\<lambda>(_, _, bk). bk \<noteq> None) intents
      \<Longrightarrow> balanced unblinded built"
proof -
  from assms obtain intents lst outputs where
    i: "output_intents lib rng unblinded d fee = Ok intents"
    and f: "r_fold (output_step lib rng unblinded asset_id est) intents (None, [])
      = Ok (lst, outputs)"
    and r: "rebuild_last lib rng unblinded asset_id est lst
      (outputs @ [(fee, 0, 0, new_fee lib fee asset_id)]) = Ok built"
    by (auto simp: built_outputs_def)
  note inv = output_loop [OF f]
  have "lst \<noteq> None" if "\<not> est" "list_ex (\<lambda>(_, _, bk). bk \<noteq> None) intents"
    using that inv by (auto simp: loop_inv_def list_all_iff list_ex_iff split: option.splits)
  with rebuild_last_Ok [OF inv r] i show ?thesis by (auto intro: that)
qed

subsection \<open>Value\<close>

lemma destination_intents_sum:
  "destination_intents s nd d fee = Ok is \<Longrightarrow> sum_list (map fst is) + fee = s"
proof (cases d)
  case (Multiple os)
  moreover have "fst \<circ> (\<lambda>(address, v). address_intent v address) = snd"
    by (auto simp: address_intent_def)
  moreover assume "destination_intents s nd d fee = Ok is"
  ultimately show ?thesis by (auto simp: Let_def address_intent_def split: if_splits)
qed (auto simp: checked_sub_def address_intent_def split: if_splits)

lemma output_intents_Ok:
  assumes "output_intents lib rng unblinded d fee = Ok is" and "nd = needs_dummy_output unblinded d"
  obtains ds where
    "destination_intents (sum_list (map unblinded_amount unblinded) - dummy_amount nd) nd d fee = Ok ds"
    and "is = sort_key intent_key (dummy_intents lib rng nd @ ds)"
  using assms by (auto simp: output_intents_def Let_def)

lemma output_intents_sum:
  assumes "output_intents lib rng unblinded d fee = Ok is"
  shows "sum_list (map fst is) + fee = sum_list (map unblinded_amount unblinded)"
proof -
  let ?nd = "needs_dummy_output unblinded d"
  from output_intents_Ok [OF assms refl] obtain ds where
    ds: "destination_intents (sum_list (map unblinded_amount unblinded) - dummy_amount ?nd) ?nd d fee
      = Ok ds"
    and srt: "is = sort_key intent_key (dummy_intents lib rng ?nd @ ds)" .
  have "sum_list (map fst is) = sum_list (map fst (dummy_intents lib rng ?nd @ ds))"
    unfolding srt by (rule sum_list_perm) simp
  moreover have "sum_list (map fst (dummy_intents lib rng ?nd)) = dummy_amount ?nd"
    by (simp add: dummy_intents_def dummy_amount_def)
  ultimately show ?thesis using destination_intents_sum [OF ds] by (simp add: algebra_simps)
qed

lemma built_outputs_sum:
  assumes "built_outputs lib rng unblinded asset_id d fee est = Ok built"
  shows "sum_list (map fst built) = sum_list (map unblinded_amount unblinded)"
proof -
  from assms obtain intents new where
    i: "output_intents lib rng unblinded d fee = Ok intents"
    and built: "built = new @ [(fee, 0, 0, new_fee lib fee asset_id)]"
    and all: "list_all2 (realises lib asset_id est) intents new"
    by (rule built_outputs_Ok) blast
  from all have "map fst new = map fst intents"
    by (induction rule: list_all2_induct) (auto simp: realises_def)
  with output_intents_sum [OF i] show ?thesis by (simp add: built)
qed

text \<open>Without wrap-around the sums are sums of naturals.\<close>

definition unblinded_total :: "'f unblinded_output list \<Rightarrow> nat" where
  "unblinded_total unblinded = sum_list (map (unat \<circ> unblinded_amount) unblinded)"

lemma destination_intents_total:
  assumes ok: "destination_intents s nd d fee = Ok is"
    and fits: "destination_total d + unat fee + 1 \<le> u64_max"
  shows "sum_list (map (unat \<circ> fst) is) + unat fee = unat s"
proof (cases d)
  case (Single a)
  with ok show ?thesis by (auto simp: checked_sub_Some_iff address_intent_def)
next
  case (Multiple os)
  let ?sum = "sum_list (map snd (outs os))"
  have sum: "unat ?sum = sum_list (map (unat \<circ> snd) (outs os))"
    using unat_sum_list_u64 [of "map snd (outs os)"] fits by (simp add: Multiple comp_def)
  have f: "unat (?sum + fee) = unat ?sum + unat fee"
    using fits sum by (intro unat_add_u64) (simp add: Multiple)
  have nd: "unat (?sum + fee + dummy_amount nd) = unat ?sum + unat fee + unat (dummy_amount nd)"
    using fits sum f
    by (subst unat_add_u64) (simp_all add: Multiple dummy_amount_def DUMMY_BLINDED_OUTPUT_def)
  from ok Multiple have le: "\<not> s < ?sum + fee + dummy_amount nd"
    and ds: "is = map (\<lambda>(address, v). address_intent v address) (outs os)
                @ [address_intent (s - fee - ?sum) (change os)]"
    by (auto simp: Let_def split: if_splits)
  from le have "unat ?sum + unat fee \<le> unat s" using nd by (simp add: word_less_nat_alt)
  then have rest: "unat (s - fee - ?sum) = unat s - unat fee - unat ?sum"
    by (simp add: unat_sub word_le_nat_alt)
  have "unat \<circ> fst \<circ> (\<lambda>(address, v). address_intent v address) = unat \<circ> snd"
    by (auto simp: address_intent_def)
  with rest sum \<open>unat ?sum + unat fee \<le> unat s\<close> show ?thesis
    by (simp add: ds address_intent_def)
qed

lemma built_outputs_total:
  assumes ok: "built_outputs lib rng unblinded asset_id d fee est = Ok built"
    and ins: "unblinded_total unblinded \<le> u64_max"
    and dest: "destination_total d + unat fee + 1 \<le> u64_max"
    and dummy: "needs_dummy_output unblinded d \<Longrightarrow> 1 \<le> unblinded_total unblinded"
  shows "sum_list (map (unat \<circ> fst) built) = unblinded_total unblinded"
proof -
  let ?nd = "needs_dummy_output unblinded d" and ?s = "sum_list (map unblinded_amount unblinded)"
  from ok obtain intents new where
    i: "output_intents lib rng unblinded d fee = Ok intents"
    and built: "built = new @ [(fee, 0, 0, new_fee lib fee asset_id)]"
    and all: "list_all2 (realises lib asset_id est) intents new"
    by (rule built_outputs_Ok) blast
  from all have "map (unat \<circ> fst) new = map (unat \<circ> fst) intents"
    by (induction rule: list_all2_induct) (auto simp: realises_def)
  then have new: "sum_list (map (unat \<circ> fst) new) = sum_list (map (unat \<circ> fst) intents)" by simp
  from output_intents_Ok [OF i refl] obtain ds where
    ds: "destination_intents (?s - dummy_amount ?nd) ?nd d fee = Ok ds"
    and srt: "intents = sort_key intent_key (dummy_intents lib rng ?nd @ ds)" .
  have "sum_list (map (unat \<circ> fst) intents)
      = sum_list (map (unat \<circ> fst) (dummy_intents lib rng ?nd @ ds))"
    unfolding srt by (rule sum_list_perm) simp
  moreover have "sum_list (map (unat \<circ> fst) (dummy_intents lib rng ?nd)) = unat (dummy_amount ?nd)"
    by (simp add: dummy_intents_def dummy_amount_def)
  moreover have s: "unat ?s = unblinded_total unblinded"
    using unat_sum_list_u64 [of "map unblinded_amount unblinded"] ins
    by (simp add: unblinded_total_def comp_def)
  moreover have "unat (?s - dummy_amount ?nd) = unat ?s - unat (dummy_amount ?nd)"
    and "unat (dummy_amount ?nd) \<le> unat ?s"
    using dummy s
    by (auto simp: dummy_amount_def DUMMY_BLINDED_OUTPUT_def unat_sub word_le_nat_alt)
  ultimately show ?thesis
    using destination_intents_total [OF ds dest] new by (simp add: built)
qed

lemma el_construct_tx_Ok:
  assumes "el_construct_tx lib rng gh inputs d ft = Ok (tx, fee)"
  obtains unblinded asset_id built where
    "unblind_outputs lib (el_sort_inputs inputs) = Ok unblinded"
    "unblinded \<noteq> []" "list_all (\<lambda>u. unblinded_asset u = asset_id) unblinded"
    "el_construct_raw lib (rng False) gh (el_sort_inputs inputs) unblinded asset_id d fee False = Ok tx"
    "built_outputs lib (rng False) unblinded asset_id d fee False = Ok built"
    "el_outputs tx = map built_output built"
proof -
  from assms obtain unblinded asset_id where
    u: "unblind_outputs lib (el_sort_inputs inputs) = Ok unblinded"
    and a: "unblinded \<noteq> []" "list_all (\<lambda>u. unblinded_asset u = asset_id) unblinded"
    and t: "target_fee (discount_vsize lib) el_input_len el_tx_error_from_fee ft
           (\<lambda>fee est. el_construct_raw lib (rng est) gh (el_sort_inputs inputs) unblinded asset_id
               d fee est) = Ok (tx, fee)"
    by (auto simp: el_construct_tx_def Let_def split: if_splits list.splits)
  note raw = target_fee_built [OF t]
  then obtain built where
    "built_outputs lib (rng False) unblinded asset_id d fee False = Ok built"
    "el_outputs tx = map built_output built"
    by (auto simp: el_construct_raw_def blind_outputs_def Let_def)
  with u a raw show ?thesis by (rule that)
qed

text \<open>When neither an input nor an output is blinded, there is nothing to balance.\<close>

lemma explicit_balanced:
  assumes "\<not> list_ex is_unblinded unblinded"
    and "list_all2 (realises lib asset_id est) intents new"
    and "est \<or> \<not> list_ex (\<lambda>(_, _, bk). bk \<noteq> None) intents"
  shows "balanced unblinded (new @ [(fee, 0, 0, out)])"
proof -
  have u: "weight (blinding_triple u) = 0" if "u \<in> set unblinded" for u
    using assms(1) that by (cases u) (auto simp: list_ex_iff weight_def)
  have n: "map (weight \<circ> built_triple) new = map (\<lambda>_. 0) new"
    using assms(2,3)
    by (induction rule: list_all2_induct) (auto simp: realises_def weight_def built_triple_def)
  have "map (weight \<circ> blinding_triple) unblinded = map (\<lambda>_. 0) unblinded" using u by simp
  then have "sum_list (map (weight \<circ> blinding_triple) unblinded) = 0" by (simp only: sum_list_0)
  moreover have "sum_list (map (weight \<circ> built_triple) new) = 0" unfolding n by (simp only: sum_list_0)
  ultimately show ?thesis by (simp add: balanced_def weight_def built_triple_def)
qed

lemma blinded_intent_exists:
  assumes "output_intents lib rng unblinded d fee = Ok is"
    and "list_ex is_unblinded unblinded \<or> destination_blinded d"
  shows "list_ex (\<lambda>(_, _, bk). bk \<noteq> None) is"
proof -
  let ?nd = "needs_dummy_output unblinded d"
  from output_intents_Ok [OF assms(1) refl] obtain ds where
    ds: "destination_intents (sum_list (map unblinded_amount unblinded) - dummy_amount ?nd) ?nd d fee
      = Ok ds"
    and srt: "is = sort_key intent_key (dummy_intents lib rng ?nd @ ds)" .
  have "list_ex (\<lambda>(_, _, bk). bk \<noteq> None) ds" if "destination_blinded d"
    using that ds
    by (cases d)
      (auto simp: list_ex_iff address_intent_def is_blinded_def Let_def split: if_splits, force)
  moreover have "list_ex (\<lambda>(_, _, bk). bk \<noteq> None) (dummy_intents lib rng ?nd)" if "?nd"
    using that by (simp add: dummy_intents_def)
  moreover have "?nd \<or> destination_blinded d" using assms(2) by (auto simp: needs_dummy_output_def)
  ultimately have "list_ex (\<lambda>(_, _, bk). bk \<noteq> None) (dummy_intents lib rng ?nd @ ds)"
    unfolding list_ex_append by blast
  then show ?thesis unfolding srt list_ex_iff set_sort .
qed


text \<open>
  No satoshi is created or lost on Liquid. If the inputs, and the requested outputs with the
  fee, fit 64 bits, and a needed dummy output can be paid for, then the amounts the outputs of a
  built transaction open to add up to the inputs as natural numbers; each output pays to the
  script of its intent, blinded for the address's key exactly when it has one; and the intents are,
  in BIP-69 order, those of the destination and the dummy output.
\<close>

theorem el_construct_tx_conserves_value:
  assumes "el_construct_tx lib rng gh inputs d ft = Ok (tx, fee)"
    and "unblind_outputs lib (el_sort_inputs inputs) = Ok unblinded"
    and "unblinded_total unblinded \<le> u64_max" and "destination_total d + unat fee + 1 \<le> u64_max"
    and "needs_dummy_output unblinded d \<longrightarrow> 1 \<le> unblinded_total unblinded"
  shows "\<exists>asset_id intents new.
     output_intents lib (rng False) unblinded d fee = Ok intents
     \<and> sorted (map intent_key intents)
     \<and> list_all2 (realises lib asset_id False) intents new
     \<and> el_outputs tx = map built_output new @ [new_fee lib fee asset_id]
     \<and> sum_list (map (unat \<circ> fst) new) + unat fee = unblinded_total unblinded"
proof -
  from el_construct_tx_Ok [OF assms(1)] assms(2) obtain asset_id built where
    b: "built_outputs lib (rng False) unblinded asset_id d fee False = Ok built"
    and o: "el_outputs tx = map built_output built" by (metis result.inject(1))
  from b obtain intents new where
    i: "output_intents lib (rng False) unblinded d fee = Ok intents"
    and new: "built = new @ [(fee, 0, 0, new_fee lib fee asset_id)]"
    and all: "list_all2 (realises lib asset_id False) intents new"
    by (rule built_outputs_Ok) blast
  have "sorted (map intent_key intents)"
    using i by (auto simp: output_intents_def Let_def sorted_sort_key)
  moreover have "sum_list (map (unat \<circ> fst) new) + unat fee = unblinded_total unblinded"
    using built_outputs_total [OF b assms(3,4)] assms(5) by (simp add: new)
  moreover have "el_outputs tx = map built_output new @ [new_fee lib fee asset_id]"
    by (simp add: o new built_output_def)
  ultimately show ?thesis using i all by blast
qed

text \<open>
  The dummy output is charged twice for several destinations. When a dummy output is needed
  and the sums fit 64 bits, the outputs are accepted only if the inputs cover them, the fee and
  two satoshis, although the dummy output itself takes one; inputs that cover them exactly are
  refused.
\<close>

theorem dummy_output_charged_twice:
  assumes "needs_dummy_output unblinded (Multiple os)"
    and "unblinded_total unblinded \<le> u64_max" and "1 \<le> unblinded_total unblinded"
    and "destination_total (Multiple os) + unat fee + 1 \<le> u64_max"
  shows "is_ok (output_intents lib rng unblinded (Multiple os) fee)
    = (destination_total (Multiple os) + unat fee + 2 \<le> unblinded_total unblinded)"
proof -
  let ?s = "sum_list (map unblinded_amount unblinded)" and ?o = "sum_list (map snd (outs os))"
  have s: "unat ?s = unblinded_total unblinded"
    using unat_sum_list_u64 [of "map unblinded_amount unblinded"] assms(2)
    by (simp add: unblinded_total_def comp_def)
  have o: "unat ?o = destination_total (Multiple os)"
    using unat_sum_list_u64 [of "map snd (outs os)"] assms(4) by (simp add: comp_def)
  have "unat (?s - 1) = unat ?s - 1" using assms(3) s by (subst unat_sub) (simp_all add: word_le_nat_alt)
  moreover have "unat (?o + fee) = unat ?o + unat fee" using assms(4) o by (intro unat_add_u64) simp
  then have "unat (?o + fee + 1) = unat ?o + unat fee + 1"
    using assms(4) o by (subst unat_add_u64) simp_all
  ultimately have "?s - 1 < ?o + fee + 1 \<longleftrightarrow> unat ?s - 1 < unat ?o + unat fee + 1"
    by (simp add: word_less_nat_alt)
  then show ?thesis
    using assms(1,3) s o
    by (auto simp: output_intents_def Let_def dummy_amount_def DUMMY_BLINDED_OUTPUT_def)
qed

subsection \<open>Witnesses\<close>

text \<open>
  A library over the integers as scalars, in which a commitment shows what it commits to. The
  example spends a confidential refund and an explicit key-path input to two transparent
  addresses, so that a dummy output is added.
\<close>

definition example_el :: "int elements_lib" where
  "example_el = \<lparr>el_slib = example_lib,
     el_tlib = \<lparr>leaf_version_ok = (\<lambda>v. v = 196), may_add_leaf = (\<lambda>b d. True),
       tap_leaf_hash = (\<lambda>s v. [v]), tap_finalize_ok = (\<lambda>b k. True),
       tap_control_block = (\<lambda>b k l. Some [0])\<rparr>,
     el_lock_time_from_height = (\<lambda>h. if unat h < 500000000 then Some h else None),
     el_legacy_sighash = (\<lambda>tx i s. [1]), el_segwitv0_sighash = (\<lambda>tx i s v. [1]),
     el_taproot_sighash = (\<lambda>tx i ps l g. Some [1]), el_digest_ok = (\<lambda>d. True),
     el_sign_ecdsa_grind_r = (\<lambda>d k n. k), el_sign_schnorr = (\<lambda>d k. k),
     el_unblind = (\<lambda>out k. Some \<lparr>sec_asset = [9], sec_asset_bf = 5, sec_value = 7000, sec_value_bf = 3\<rparr>),
     vbf_last = (\<lambda>v a ins os. sum_list (map weight ins) - sum_list (map weight os)
       - of_nat (unat v) * a),
     blind_value = (\<lambda>v bf k e s a. Some (to_le_bytes v, k, e)),
     blind_asset = (\<lambda>a bf r ins. Some (a, r)),
     new_fee = (\<lambda>fee a. \<lparr>el_asset = CExplicit a, el_value = CExplicit fee, el_nonce = CNull,
       el_out_script = [], el_out_witness = None\<rparr>),
     secret_public_key = (\<lambda>s. s), discount_vsize = (\<lambda>tx. 200)\<rparr>"

lemma example_el_fields:
  "el_slib example_el = example_lib" "el_digest_ok example_el d"
  "el_lock_time_from_height example_el h = (if unat h < 500000000 then Some h else None)"
  "blind_value example_el v bf k e s a = Some (to_le_bytes v, k, e)"
  "blind_asset example_el c cf r ins = Some (c, r)"
  by (simp_all add: example_el_def)

lemma example_el_ok: "blinding_lib_ok example_el"
  by (simp add: blinding_lib_ok_def example_el_def weight_def)

definition example_el_rng :: "bool \<Rightarrow> int el_rng" where
  "example_el_rng est = \<lparr>draw_dummy_key = [8], draw_asset_bf = 11,
     draw_output = (\<lambda>n. \<lparr>draw_value_bf = 13, draw_ephemeral = [4], draw_surjection = [4]\<rparr>)\<rparr>"

definition example_el_inputs :: "el_input_detail list" where
  "example_el_inputs =
    [\<lparr>el_input_kind = Refund 800000,
      el_output_kind = SegwitV0 (el_reverse_script example_lib (replicate 20 7) [1] [2] 790000),
      el_outpoint = \<lparr>txid = [9], vout = 1\<rparr>,
      el_prev_out = \<lparr>el_asset = Confidential [9], el_value = Confidential [1], el_nonce = CNull,
        el_out_script = [], el_out_witness = None\<rparr>,
      el_blinding_key = Some [3], el_keys = [2]\<rparr>,
     \<lparr>el_input_kind = Claim (replicate 32 7), el_output_kind = Taproot None,
      el_outpoint = \<lparr>txid = [9], vout = 0\<rparr>,
      el_prev_out = \<lparr>el_asset = CExplicit [9], el_value = CExplicit 5000, el_nonce = CNull,
        el_out_script = [], el_out_witness = None\<rparr>,
      el_blinding_key = None, el_keys = [1]\<rparr>]"

definition example_el_destination :: "el_address destination" where
  "example_el_destination = Multiple
     \<lparr>change = \<lparr>script_pubkey = [6], blinding_pubkey = None\<rparr>,
      outs = [(\<lparr>script_pubkey = [5], blinding_pubkey = None\<rparr>, 4000)]\<rparr>"

definition example_unblinded :: "int unblinded_output list" where
  "example_unblinded =
     [Explicit \<lparr>exp_asset = [9], exp_amount = 5000\<rparr>,
      Unblinded \<lparr>sec_asset = [9], sec_asset_bf = 5, sec_value = 7000, sec_value_bf = 3\<rparr>]"

lemma example_el_unblinded:
  "unblind_outputs example_el (el_sort_inputs example_el_inputs) = Ok example_unblinded"
  by (simp add: unblind_outputs_def el_sort_inputs_def example_el_inputs_def bip69_input_key_def
      bip69_txid_key_def unblind_output_def example_el_def example_unblinded_def)

lemma example_el_intents:
  "output_intents example_el (example_el_rng b) example_unblinded example_el_destination 300
     = Ok [(1, [], Some [8]), (4000, [5], None), (7699, [6], None)]"
  by (simp add: output_intents_def example_unblinded_def example_el_destination_def
      needs_dummy_output_def is_blinded_def dummy_intents_def dummy_amount_def
      DUMMY_BLINDED_OUTPUT_def address_intent_def intent_key_def example_el_def example_lib_def
      example_el_rng_def)

lemma example_el_raw:
  "\<exists>tx. el_construct_raw example_el (example_el_rng b) [] (el_sort_inputs example_el_inputs)
     example_unblinded [9] example_el_destination 300 False = Ok tx"
proof -
  have sorted: "el_sort_inputs example_el_inputs = rev example_el_inputs"
    by (simp add: el_sort_inputs_def example_el_inputs_def bip69_input_key_def bip69_txid_key_def)
  have outs: "\<exists>out. blind_outputs example_el (example_el_rng b) example_unblinded [9]
      example_el_destination 300 False = Ok out"
    by (simp add: blind_outputs_def built_outputs_def example_el_intents output_step_def
        rebuild_last_def create_output_def example_el_fields)
  then show ?thesis
    unfolding el_construct_raw_def sorted
    by (auto simp: example_el_inputs_def el_construct_lock_time_def map_filter_simps
        el_sign_input_def el_input_script_sig_def el_input_witness_def el_segwit_witness_def
        el_legacy_signature_def example_el_fields)
qed

lemma example_el_built:
  "\<exists>tx. el_construct_tx example_el example_el_rng [] example_el_inputs example_el_destination
     (Absolute 300) = Ok (tx, 300)"
  using example_el_raw [of False]
  by (auto simp: el_construct_tx_def example_el_unblinded) (simp_all add: example_unblinded_def)


theorem el_construct_tx_conserves_value_witness:
  "\<exists>tx new. el_construct_tx example_el example_el_rng [] example_el_inputs example_el_destination
       (Absolute 300) = Ok (tx, 300)
     \<and> length (el_outputs tx) = Suc (length new)
     \<and> sum_list (map (unat \<circ> fst) (new :: int built list)) + 300 = 12000"
proof -
  from example_el_built obtain tx where tx: "el_construct_tx example_el example_el_rng []
      example_el_inputs example_el_destination (Absolute 300) = Ok (tx, 300)" ..
  have "unblinded_total example_unblinded = 12000" "destination_total example_el_destination = 4000"
    by (simp_all add: unblinded_total_def example_unblinded_def example_el_destination_def)
  with el_construct_tx_conserves_value [OF tx example_el_unblinded] tx show ?thesis
    by (fastforce simp: u64_max_def)
qed

text \<open>5 satoshis for the recipient, 2 for the fee and 1 for the dummy are 8, yet 8 are refused.\<close>

theorem dummy_output_charged_twice_witness:
  "is_ok (output_intents example_el (example_el_rng False)
     [Unblinded \<lparr>sec_asset = [9], sec_asset_bf = 5, sec_value = 8, sec_value_bf = 3\<rparr>]
     (Multiple \<lparr>change = \<lparr>script_pubkey = [6], blinding_pubkey = None\<rparr>,
        outs = [(\<lparr>script_pubkey = [5], blinding_pubkey = None\<rparr>, 5)]\<rparr>) 2) = False"
  by (subst dummy_output_charged_twice)
    (simp_all add: needs_dummy_output_def is_blinded_def unblinded_total_def u64_max_def)

end
