(* ===== verification/Network.thy ===== *)
theory Network
  imports Boltz_Prelude
begin

text \<open>
  The networks, \<open>src/boltz-core/src/network.rs\<close>, and the address of either chain,
  \<open>src/boltz-core/src/address.rs\<close>. The address types of the two chains, their parsers, printers and
  script decoders belong to the libraries: they are type variables and fields of \<open>address_lib\<close>.
\<close>

datatype network = Mainnet | Testnet | Signet | Regtest

datatype network_error = NetworkInvalid string | SignetUnsupported string

datatype bitcoin_network = BitcoinMain | BitcoinSignet | BitcoinTestnet | BitcoinRegtest

datatype address_params = LIQUID | LIQUID_TESTNET | ELEMENTS

fun network_bitcoin :: "network \<Rightarrow> bitcoin_network" where
  "network_bitcoin Mainnet = BitcoinMain"
| "network_bitcoin Signet = BitcoinSignet"
| "network_bitcoin Testnet = BitcoinTestnet"
| "network_bitcoin Regtest = BitcoinRegtest"

fun liquid :: "network \<Rightarrow> (network_error, address_params) result" where
  "liquid Mainnet = Ok LIQUID"
| "liquid Testnet = Ok LIQUID_TESTNET"
| "liquid Regtest = Ok ELEMENTS"
| "liquid Signet = Err (SignetUnsupported ''liquid addresses'')"

text \<open>The hardcoded hashes are their hexadecimal strings; they are valid, so nothing panics.\<close>

fun liquid_genesis_hash :: "network \<Rightarrow> (network_error, string) result" where
  "liquid_genesis_hash Mainnet =
     Ok ''1466275836220db2944ca059a3a10ef6fd2ea684b0688d2c379296888a206003''"
| "liquid_genesis_hash Testnet =
     Ok ''a771da8e52ee6ad581ed1e9a99825e5b3b7992225534eaa2ae23244fe26ab1c1''"
| "liquid_genesis_hash Regtest =
     Ok ''00902a6b70c2ca83b5d9c815d96a0e2f4202179316970d14ea1847dae5b1ca21''"
| "liquid_genesis_hash Signet = Err (SignetUnsupported ''liquid genesis hash'')"

fun liquid_asset_id :: "network \<Rightarrow> (network_error, string) result" where
  "liquid_asset_id Mainnet =
     Ok ''6f0279e9ed041c3d710a9f57d0c02928416460c4b722ae3457a11eec381c526d''"
| "liquid_asset_id Testnet =
     Ok ''144c654344aa716d6f3abcc1ca90e5641e4e2a7f633bc09fe3baf64585819a49''"
| "liquid_asset_id Regtest =
     Ok ''5ac9f65c0efcc4775e0baec4ec03abdde22473cd3cf33c0419ca290e0751b225''"
| "liquid_asset_id Signet = Err (SignetUnsupported ''liquid asset id'')"

text \<open>\<open>str::to_lowercase\<close>, on the ASCII letters the names are made of.\<close>

definition to_lower_char :: "char \<Rightarrow> char" where
  "to_lower_char c =
     (let n = (of_char c :: nat) in if 65 \<le> n \<and> n \<le> 90 then char_of (n + 32) else c)"

definition to_lowercase :: "string \<Rightarrow> string" where
  "to_lowercase s = map to_lower_char s"

definition network_try_from :: "string \<Rightarrow> (network_error, network) result" where
  "network_try_from network =
     (let name = to_lowercase network in
      if name = ''mainnet'' then Ok Mainnet
      else if name = ''testnet'' then Ok Testnet
      else if name = ''signet'' then Ok Signet
      else if name = ''regtest'' then Ok Regtest
      else Err (NetworkInvalid network))"

fun network_display :: "network \<Rightarrow> string" where
  "network_display Mainnet = ''mainnet''"
| "network_display Testnet = ''testnet''"
| "network_display Signet = ''signet''"
| "network_display Regtest = ''regtest''"

lemma to_lowercase_display [simp]: "to_lowercase (network_display n) = network_display n"
  by (cases n) (simp_all add: to_lowercase_def to_lower_char_def of_char_def)

lemma network_try_from_Ok_iff:
  "network_try_from s = Ok n \<longleftrightarrow> to_lowercase s = network_display n"
  by (cases n) (auto simp: network_try_from_def Let_def)

text \<open>
  Network names parse back, in any letter case. Parsing a string gives a network exactly when
  its lower-case form is the printed name of that network, in particular for the printed name
  itself; every other string is refused with the string as given; and a network has a Liquid
  counterpart (address parameters, genesis hash and L-BTC asset) exactly when it is not Signet.
\<close>

theorem network_names:
  "(network_try_from s = Ok n) = (to_lowercase s = network_display n)
   \<and> network_try_from (network_display n) = Ok n
   \<and> (network_try_from s = Err e) = (e = NetworkInvalid s \<and> to_lowercase s \<notin> range network_display)
   \<and> is_ok (liquid n) = (n \<noteq> Signet) \<and> is_ok (liquid_genesis_hash n) = (n \<noteq> Signet)
   \<and> is_ok (liquid_asset_id n) = (n \<noteq> Signet)"
proof -
  have "network_try_from s = Err (NetworkInvalid s) \<or> (\<exists>n. network_try_from s = Ok n)"
    by (simp add: network_try_from_def Let_def)
  then have "(network_try_from s = Err e)
      = (e = NetworkInvalid s \<and> to_lowercase s \<notin> range network_display)"
    using network_try_from_Ok_iff [of s] by (metis rangeE rangeI result.inject(2) result.distinct(1))
  moreover have "is_ok (liquid n) = (n \<noteq> Signet) \<and> is_ok (liquid_genesis_hash n) = (n \<noteq> Signet)
      \<and> is_ok (liquid_asset_id n) = (n \<noteq> Signet)" by (cases n) simp_all
  ultimately show ?thesis by (simp add: network_try_from_Ok_iff)
qed

lemma liquid_asset_id_inj:
  "liquid_asset_id m = Ok a \<Longrightarrow> liquid_asset_id n = Ok a \<Longrightarrow> m = n"
  by (cases m; cases n) auto

subsection \<open>Addresses\<close>

datatype ('b, 'e) address = BitcoinAddress 'b | ElementsAddress 'e

datatype address_error =
  NotBitcoinAddress | NotElementsAddress | InvalidScript | AddressParse
  | AddressNetwork network_error | AddressSecp

record ('b, 'e) address_lib =
  parse_bitcoin :: "string \<Rightarrow> 'b option"
  parse_elements :: "string \<Rightarrow> 'e option"
  print_bitcoin :: "'b \<Rightarrow> string"
  print_elements :: "'e \<Rightarrow> string"
  bitcoin_from_script :: "bytes \<Rightarrow> bitcoin_network \<Rightarrow> 'b option"
  elements_from_script :: "bytes \<Rightarrow> bytes option \<Rightarrow> address_params \<Rightarrow> 'e option"
  public_key_from_slice :: "bytes \<Rightarrow> bytes option"

definition address_try_from :: "('b, 'e) address_lib \<Rightarrow> string \<Rightarrow> (address_error, ('b, 'e) address) result"
where
  "address_try_from alib s =
     (case parse_bitcoin alib s of
        Some a \<Rightarrow> Ok (BitcoinAddress a)
      | None \<Rightarrow> r_map ElementsAddress (ok_or AddressParse (parse_elements alib s)))"

fun into_bitcoin_address :: "('b, 'e) address \<Rightarrow> (address_error, 'b) result" where
  "into_bitcoin_address (BitcoinAddress a) = Ok a"
| "into_bitcoin_address (ElementsAddress _) = Err NotBitcoinAddress"

fun into_elements_address :: "('b, 'e) address \<Rightarrow> (address_error, 'e) result" where
  "into_elements_address (BitcoinAddress _) = Err NotElementsAddress"
| "into_elements_address (ElementsAddress a) = Ok a"

fun address_display :: "('b, 'e) address_lib \<Rightarrow> ('b, 'e) address \<Rightarrow> string" where
  "address_display alib (BitcoinAddress a) = print_bitcoin alib a"
| "address_display alib (ElementsAddress a) = print_elements alib a"

definition from_bitcoin_script ::
  "('b, 'e) address_lib \<Rightarrow> network \<Rightarrow> bytes \<Rightarrow> (address_error, ('b, 'e) address) result" where
  "from_bitcoin_script alib network script =
     r_map BitcoinAddress
       (ok_or InvalidScript (bitcoin_from_script alib script (network_bitcoin network)))"

definition from_elements_script ::
  "('b, 'e) address_lib \<Rightarrow> network \<Rightarrow> bytes \<Rightarrow> bytes option
    \<Rightarrow> (address_error, ('b, 'e) address) result" where
  "from_elements_script alib network script blinding_pubkey =
     r_bind (case blinding_pubkey of
               None \<Rightarrow> Ok None
             | Some k \<Rightarrow> r_map Some (ok_or AddressSecp (public_key_from_slice alib k))) (\<lambda>key.
     r_bind (r_map_err AddressNetwork (liquid network)) (\<lambda>params.
       r_map ElementsAddress
         (ok_or InvalidScript (elements_from_script alib script key params))))"

lemma from_elements_script_signet:
  assumes "from_elements_script alib network script bk = Ok a"
  shows "network \<noteq> Signet"
  using assms by (cases network) (auto simp: from_elements_script_def)

lemma from_script_chain:
  "from_bitcoin_script alib network script = Ok a \<Longrightarrow> \<exists>b. a = BitcoinAddress b"
  "from_elements_script alib network script bk = Ok a \<Longrightarrow> \<exists>e. a = ElementsAddress e"
  by (auto simp: from_bitcoin_script_def from_elements_script_def)

end
