(* ===== verification/Asset_Rescue_Tx.thy ===== *)
theory Asset_Rescue_Tx
  imports Elements_Tx Network
begin

text \<open>
  The transaction that rescues a foreign asset sent to a Taproot swap output,
  \<open>src/boltz-core/src/elements/asset_rescue.rs\<close>, and the chain-agnostic constructor,
  \<open>src/boltz-core/src/wrapper.rs\<close>. The tests on script public keys (\<open>is_v1_p2tr\<close> and so on) and
  the hexadecimal form of an asset id belong to the library and are fields of \<open>rescue_lib\<close>.
\<close>

definition ECDSA_SIGNATURE_SIZE :: nat where
  "ECDSA_SIGNATURE_SIZE = 70"

definition ECDSA_PUBLIC_KEY_SIZE :: nat where
  "ECDSA_PUBLIC_KEY_SIZE = 33"

definition SCHNORR_SIGNATURE_SIZE :: nat where
  "SCHNORR_SIGNATURE_SIZE = 64"

datatype rescue_output_type = RLegacy | RNestedSegwit | RSegwitV0 | RSegwitV1

datatype asset_rescue_error =
    AssetInputNotTaproot | AssetInputIsLbtc | LbtcInputWrongAsset | NegativeChange | ZeroChange
  | LbtcDestinationNotBlinded | UnknownOutputType | RMissingBlindingKey | RMissingExplicitAsset
  | RMissingExplicitValue | RInvalidFeeRate | RNetwork network_error | RTx el_tx_error | RUnblind

fun rescue_error_from_fee :: "fee_error \<Rightarrow> asset_rescue_error" where
  "rescue_error_from_fee InvalidFeeRate = RInvalidFeeRate"

record asset_pair =
  pair_tx_out :: el_tx_out
  pair_outpoint :: outpoint
  pair_blinding_key :: "keypair option"
  pair_destination :: el_address

record rescue_lib =
  is_v1_p2tr :: "bytes \<Rightarrow> bool"
  is_p2pkh :: "bytes \<Rightarrow> bool"
  is_p2sh :: "bytes \<Rightarrow> bool"
  is_v0_p2wpkh :: "bytes \<Rightarrow> bool"
  asset_to_hex :: "bytes \<Rightarrow> string"

definition rescue_output_type_of :: "rescue_lib \<Rightarrow> el_tx_out \<Rightarrow> (asset_rescue_error, rescue_output_type) result"
where
  "rescue_output_type_of rl out =
     (if is_p2pkh rl (el_out_script out) then Ok RLegacy
      else if is_p2sh rl (el_out_script out) then Ok RNestedSegwit
      else if is_v0_p2wpkh rl (el_out_script out) then Ok RSegwitV0
      else if is_v1_p2tr rl (el_out_script out) then Ok RSegwitV1
      else Err UnknownOutputType)"

definition rescue_unblind ::
  "'f elements_lib \<Rightarrow> asset_pair \<Rightarrow> (asset_rescue_error, 'f unblinded_output) result" where
  "rescue_unblind lib inp =
     (if is_confidential (el_value (pair_tx_out inp))
      then r_bind (ok_or RMissingBlindingKey (pair_blinding_key inp)) (\<lambda>k.
           r_map Unblinded (ok_or RUnblind (el_unblind lib (pair_tx_out inp) k)))
      else r_bind (ok_or RMissingExplicitAsset (c_explicit (el_asset (pair_tx_out inp)))) (\<lambda>a.
           r_bind (ok_or RMissingExplicitValue (c_explicit (el_value (pair_tx_out inp)))) (\<lambda>v.
             Ok (Explicit \<lparr>exp_asset = a, exp_amount = v\<rparr>))))"

text \<open>
  The outputs with the amounts and blinding factors they were built from, in the order asset,
  change, fee; \<open>rescue_blind_outputs\<close> keeps the outputs.
\<close>

definition rescue_built ::
  "'f::comm_ring_1 elements_lib \<Rightarrow> 'f el_rng \<Rightarrow> asset_pair \<times> 'f unblinded_output
    \<Rightarrow> asset_pair \<times> 'f unblinded_output \<Rightarrow> u64 \<Rightarrow> bool
    \<Rightarrow> (asset_rescue_error, 'f built list) result" where
  "rescue_built lib rng asset lbtc fee is_fee_estimation =
     r_bind (ok_or NegativeChange (checked_sub (unblinded_amount (snd lbtc)) fee)) (\<lambda>change_amount.
     if change_amount = 0 then Err ZeroChange
     else if \<not> is_blinded (pair_destination (fst lbtc)) then Err LbtcDestinationNotBlinded
     else
       let unblinded = [snd asset, snd lbtc]; asset_bf = draw_asset_bf rng
       in r_bind (r_map_err RTx
            (create_output lib (draw_output rng 0) unblinded (unblinded_asset (snd asset), asset_bf)
              (script_pubkey (pair_destination (fst asset)))
              (blinding_pubkey (pair_destination (fst asset)))
              (unblinded_amount (snd asset)) is_fee_estimation None))
            (\<lambda>(_, abf1, vbf1, out1).
          r_bind (r_map_err RTx
            (create_output lib (draw_output rng 1) unblinded (unblinded_asset (snd lbtc), asset_bf)
              (script_pubkey (pair_destination (fst lbtc)))
              (blinding_pubkey (pair_destination (fst lbtc)))
              change_amount is_fee_estimation
              (Some [(unblinded_amount (snd asset), abf1, vbf1), (fee, 0, 0)])))
            (\<lambda>(_, abf2, vbf2, out2).
            Ok [(unblinded_amount (snd asset), abf1, vbf1, out1), (change_amount, abf2, vbf2, out2),
                (fee, 0, 0, new_fee lib fee (unblinded_asset (snd lbtc)))])))"

definition rescue_blind_outputs ::
  "'f::comm_ring_1 elements_lib \<Rightarrow> 'f el_rng \<Rightarrow> asset_pair \<times> 'f unblinded_output
    \<Rightarrow> asset_pair \<times> 'f unblinded_output \<Rightarrow> u64 \<Rightarrow> bool
    \<Rightarrow> (asset_rescue_error, el_tx_out list) result" where
  "rescue_blind_outputs lib rng asset lbtc fee is_fee_estimation =
     r_map (map built_output) (rescue_built lib rng asset lbtc fee is_fee_estimation)"

fun rescue_stub_script_sig :: "script_lib \<Rightarrow> rescue_output_type \<Rightarrow> script" where
  "rescue_stub_script_sig sl RLegacy =
     [Push (replicate ECDSA_SIGNATURE_SIZE 0), Push (replicate ECDSA_PUBLIC_KEY_SIZE 0)]"
| "rescue_stub_script_sig sl RNestedSegwit = [Push (script_bytes sl [Push [], Push (replicate 20 0)])]"
| "rescue_stub_script_sig sl _ = []"

fun rescue_stub_witness :: "rescue_output_type \<Rightarrow> bytes list" where
  "rescue_stub_witness RLegacy = []"
| "rescue_stub_witness RNestedSegwit =
     [replicate ECDSA_SIGNATURE_SIZE 0, replicate ECDSA_PUBLIC_KEY_SIZE 0]"
| "rescue_stub_witness RSegwitV0 =
     [replicate ECDSA_SIGNATURE_SIZE 0, replicate ECDSA_PUBLIC_KEY_SIZE 0]"
| "rescue_stub_witness RSegwitV1 = [replicate SCHNORR_SIGNATURE_SIZE 0]"

definition rescue_construct_raw ::
  "'f::comm_ring_1 elements_lib \<Rightarrow> rescue_lib \<Rightarrow> 'f el_rng \<Rightarrow> asset_pair \<times> 'f unblinded_output
    \<Rightarrow> asset_pair \<times> 'f unblinded_output \<Rightarrow> u64 \<Rightarrow> bool
    \<Rightarrow> (asset_rescue_error, el_transaction) result" where
  "rescue_construct_raw lib rl rng asset lbtc fee is_fee_estimation =
     r_bind (rescue_output_type_of rl (pair_tx_out (fst lbtc))) (\<lambda>kind.
     r_bind (rescue_blind_outputs lib rng asset lbtc fee is_fee_estimation) (\<lambda>out.
       Ok \<lparr>el_version = 2, el_lock_time = 0,
           el_inputs =
             [\<lparr>previous_output = pair_outpoint (fst asset), script_sig = [],
               sequence = ENABLE_RBF_NO_LOCKTIME, witness = [replicate SCHNORR_SIGNATURE_SIZE 0]\<rparr>,
              \<lparr>previous_output = pair_outpoint (fst lbtc),
               script_sig = rescue_stub_script_sig (el_slib lib) kind,
               sequence = ENABLE_RBF_NO_LOCKTIME, witness = rescue_stub_witness kind\<rparr>],
           el_outputs = out\<rparr>))"

definition clear_stubs :: "el_transaction \<Rightarrow> el_transaction" where
  "clear_stubs tx = tx\<lparr>el_inputs := map (\<lambda>i. i\<lparr>script_sig := [], witness := []\<rparr>) (el_inputs tx)\<rparr>"

definition construct_asset_rescue ::
  "'f::comm_ring_1 elements_lib \<Rightarrow> rescue_lib \<Rightarrow> (bool \<Rightarrow> 'f el_rng) \<Rightarrow> network \<Rightarrow> asset_pair
    \<Rightarrow> asset_pair \<Rightarrow> fee_target \<Rightarrow> (asset_rescue_error, el_transaction \<times> u64) result" where
  "construct_asset_rescue lib rl rng network asset_pair lbtc_pair fee =
     (if \<not> is_v1_p2tr rl (el_out_script (pair_tx_out asset_pair)) then Err AssetInputNotTaproot
      else
        r_bind (rescue_unblind lib asset_pair) (\<lambda>asset_unblinded.
        r_bind (rescue_unblind lib lbtc_pair) (\<lambda>lbtc_unblinded.
        r_bind (r_map_err RNetwork (liquid_asset_id network)) (\<lambda>lbtc_id.
        if asset_to_hex rl (unblinded_asset asset_unblinded) = lbtc_id then Err AssetInputIsLbtc
        else if asset_to_hex rl (unblinded_asset lbtc_unblinded) \<noteq> lbtc_id
        then Err LbtcInputWrongAsset
        else
          r_bind (target_fee (discount_vsize lib) el_input_len rescue_error_from_fee fee
            (\<lambda>fee is_fee_estimation.
              rescue_construct_raw lib rl (rng is_fee_estimation) (asset_pair, asset_unblinded)
                (lbtc_pair, lbtc_unblinded) fee is_fee_estimation)) (\<lambda>(tx, fee).
            Ok (clear_stubs tx, fee))))))"

subsection \<open>The rescue transaction\<close>

lemma rescue_built_Ok:
  assumes "rescue_built lib rng asset lbtc fee False = Ok built"
  obtains abf1 vbf1 out1 change_amount abf2 vbf2 out2 where
    "built = [(unblinded_amount (snd asset), abf1, vbf1, out1), (change_amount, abf2, vbf2, out2),
       (fee, 0, 0, new_fee lib fee (unblinded_asset (snd lbtc)))]"
    "unat change_amount + unat fee = unat (unblinded_amount (snd lbtc))" "change_amount \<noteq> 0"
    "blinding_pubkey (pair_destination (fst lbtc)) \<noteq> None"
    "realises lib (unblinded_asset (snd asset)) False
       (address_intent (unblinded_amount (snd asset)) (pair_destination (fst asset)))
       (unblinded_amount (snd asset), abf1, vbf1, out1)"
    "realises lib (unblinded_asset (snd lbtc)) False
       (address_intent change_amount (pair_destination (fst lbtc))) (change_amount, abf2, vbf2, out2)"
    "blinding_lib_ok lib \<Longrightarrow> balanced [snd asset, snd lbtc] built"
proof -
  from assms obtain change_amount b1 abf1 vbf1 out1 b2 abf2 vbf2 out2 where
    c: "checked_sub (unblinded_amount (snd lbtc)) fee = Some change_amount" "change_amount \<noteq> 0"
      "blinding_pubkey (pair_destination (fst lbtc)) \<noteq> None"
    and o1: "create_output lib (draw_output rng 0) [snd asset, snd lbtc]
        (unblinded_asset (snd asset), draw_asset_bf rng)
        (script_pubkey (pair_destination (fst asset)))
        (blinding_pubkey (pair_destination (fst asset)))
        (unblinded_amount (snd asset)) False None = Ok (b1, abf1, vbf1, out1)"
    and o2: "create_output lib (draw_output rng 1) [snd asset, snd lbtc]
        (unblinded_asset (snd lbtc), draw_asset_bf rng)
        (script_pubkey (pair_destination (fst lbtc)))
        (blinding_pubkey (pair_destination (fst lbtc))) change_amount False
        (Some [(unblinded_amount (snd asset), abf1, vbf1), (fee, 0, 0)]) = Ok (b2, abf2, vbf2, out2)"
    and built: "built = [(unblinded_amount (snd asset), abf1, vbf1, out1),
        (change_amount, abf2, vbf2, out2), (fee, 0, 0, new_fee lib fee (unblinded_asset (snd lbtc)))]"
    by (auto simp: rescue_built_def Let_def is_blinded_def split: if_splits)
  note r1 = create_output_Ok(2) [OF o1] and cs = create_output_Ok [OF o2]
  have "balanced [snd asset, snd lbtc] built" if "blinding_lib_ok lib"
  proof -
    have "b2" using cs(1) c(3) by simp
    then have bf: "abf2 = draw_asset_bf rng" "vbf2 = vbf_last lib change_amount (draw_asset_bf rng)
        (map blinding_triple [snd asset, snd lbtc])
        [(unblinded_amount (snd asset), abf1, vbf1), (fee, 0, 0)]"
      using cs(3) cs(4) [OF _ refl] by simp_all
    have "weight (change_amount, abf2, vbf2)
        + sum_list (map weight [(unblinded_amount (snd asset), abf1, vbf1), (fee, 0, 0)])
        = sum_list (map weight (map blinding_triple [snd asset, snd lbtc]))"
      using that unfolding bf blinding_lib_ok_def by blast
    then show ?thesis by (simp add: balanced_def built built_triple_def algebra_simps)
  qed
  with c r1 cs(2) built show ?thesis
    by (intro that) (auto simp: checked_sub_Some_iff address_intent_def)
qed

lemma construct_asset_rescue_Ok:
  assumes "construct_asset_rescue lib rl rng network ap lp ft = Ok (tx, fee)"
  obtains a l raw where "rescue_unblind lib ap = Ok a" "rescue_unblind lib lp = Ok l"
    "liquid_asset_id network = Ok (asset_to_hex rl (unblinded_asset l))"
    "asset_to_hex rl (unblinded_asset a) \<noteq> asset_to_hex rl (unblinded_asset l)"
    "rescue_construct_raw lib rl (rng False) (ap, a) (lp, l) fee False = Ok raw"
    "tx = clear_stubs raw"
proof -
  from assms obtain a l raw where "rescue_unblind lib ap = Ok a" "rescue_unblind lib lp = Ok l"
    "liquid_asset_id network = Ok (asset_to_hex rl (unblinded_asset l))"
    "asset_to_hex rl (unblinded_asset a) \<noteq> asset_to_hex rl (unblinded_asset l)"
    "tx = clear_stubs raw"
    and t: "target_fee (discount_vsize lib) el_input_len rescue_error_from_fee ft
            (\<lambda>fee est. rescue_construct_raw lib rl (rng est) (ap, a) (lp, l) fee est)
          = Ok (raw, fee)"
    unfolding construct_asset_rescue_def by (auto split: if_splits)
  with target_fee_built [OF t] show ?thesis by (intro that) auto
qed

text \<open>
  C9: A rescue transaction sweeps the asset in full and takes the fee from the L-BTC input only.
  Whenever it is built, the asset input is not L-BTC and the fee input is; its first output opens
  to the whole amount of the rescued asset for the asset's destination, its second one to the
  L-BTC amount less the fee, which is not zero and blinded for the L-BTC destination, its third
  one is the fee; the commitments balance; and the inputs carry no stubs any more.
\<close>

theorem asset_rescue_sweeps:
  assumes "blinding_lib_ok lib" and "construct_asset_rescue lib rl rng network ap lp ft = Ok (tx, fee)"
  shows "\<exists>a l change_amount b1 b2.
     rescue_unblind lib ap = Ok a \<and> rescue_unblind lib lp = Ok l
     \<and> liquid_asset_id network = Ok (asset_to_hex rl (unblinded_asset l))
     \<and> asset_to_hex rl (unblinded_asset a) \<noteq> asset_to_hex rl (unblinded_asset l)
     \<and> unat change_amount + unat fee = unat (unblinded_amount l) \<and> change_amount \<noteq> 0
     \<and> realises lib (unblinded_asset a) False
         (address_intent (unblinded_amount a) (pair_destination ap)) b1
     \<and> realises lib (unblinded_asset l) False (address_intent change_amount (pair_destination lp)) b2
     \<and> is_blinded (pair_destination lp)
     \<and> balanced [a, l] [b1, b2, (fee, 0, 0, new_fee lib fee (unblinded_asset l))]
     \<and> el_outputs tx = [built_output b1, built_output b2, new_fee lib fee (unblinded_asset l)]
     \<and> map (\<lambda>i. (previous_output i, script_sig i, witness i)) (el_inputs tx)
         = [(pair_outpoint ap, [], []), (pair_outpoint lp, [], [])]"
proof -
  from construct_asset_rescue_Ok [OF assms(2)] obtain a l raw where
    u: "rescue_unblind lib ap = Ok a" "rescue_unblind lib lp = Ok l"
      "liquid_asset_id network = Ok (asset_to_hex rl (unblinded_asset l))"
      "asset_to_hex rl (unblinded_asset a) \<noteq> asset_to_hex rl (unblinded_asset l)"
    and raw: "rescue_construct_raw lib rl (rng False) (ap, a) (lp, l) fee False = Ok raw"
    and tx: "tx = clear_stubs raw" .
  from raw obtain built where
    b: "rescue_built lib (rng False) (ap, a) (lp, l) fee False = Ok built"
    and out: "el_outputs tx = map built_output built"
    and ins: "map (\<lambda>i. (previous_output i, script_sig i, witness i)) (el_inputs tx)
         = [(pair_outpoint ap, [], []), (pair_outpoint lp, [], [])]"
    by (auto simp: rescue_construct_raw_def rescue_blind_outputs_def tx clear_stubs_def)
  from rescue_built_Ok [OF b, unfolded fst_conv snd_conv]
  obtain abf1 vbf1 out1 change_amount abf2 vbf2 out2 where
    built: "built = [(unblinded_amount a, abf1, vbf1, out1), (change_amount, abf2, vbf2, out2),
       (fee, 0, 0, new_fee lib fee (unblinded_asset l))]"
    and c: "unat change_amount + unat fee = unat (unblinded_amount l)" "change_amount \<noteq> 0"
      "blinding_pubkey (pair_destination lp) \<noteq> None"
    and r1: "realises lib (unblinded_asset a) False
       (address_intent (unblinded_amount a) (pair_destination ap)) (unblinded_amount a, abf1, vbf1, out1)"
    and r2: "realises lib (unblinded_asset l) False
       (address_intent change_amount (pair_destination lp)) (change_amount, abf2, vbf2, out2)"
    and bal: "blinding_lib_ok lib \<Longrightarrow> balanced [a, l] built" by blast
  have "is_blinded (pair_destination lp)" using c(3) by (simp add: is_blinded_def)
  moreover note bal [OF assms(1), unfolded built]
  moreover have "el_outputs tx = [built_output (unblinded_amount a, abf1, vbf1, out1),
      built_output (change_amount, abf2, vbf2, out2), new_fee lib fee (unblinded_asset l)]"
    by (simp add: out built built_output_def)
  ultimately show ?thesis using u c(1,2) r1 r2 ins by (intro exI conjI)
qed

subsection \<open>The fee output\<close>

text \<open>
  On Liquid the fee is an output of its own. Both constructors satisfy the contract of
  \<open>fee_builder\<close> with the fee read off that output, if \<open>TxOut::new_fee\<close> puts it there in the clear.
\<close>

definition stated_fee :: "el_transaction \<Rightarrow> int" where
  "stated_fee tx =
     (case c_explicit (el_value (last (el_outputs tx))) of Some v \<Rightarrow> int (unat v) | None \<Rightarrow> -1)"

definition new_fee_explicit :: "'f elements_lib \<Rightarrow> bool" where
  "new_fee_explicit lib \<longleftrightarrow> (\<forall>fee a. el_value (new_fee lib fee a) = CExplicit fee)"

lemma el_construct_raw_fee:
  assumes "new_fee_explicit lib"
    and "el_construct_raw lib rng gh inputs unblinded asset_id d fee est = Ok tx"
  shows "stated_fee tx = int (unat fee)"
proof -
  from assms(2) obtain built where
    b: "built_outputs lib rng unblinded asset_id d fee est = Ok built"
    and out: "el_outputs tx = map built_output built"
    by (auto simp: el_construct_raw_def blind_outputs_def Let_def)
  from b obtain new where "built = new @ [(fee, 0, 0, new_fee lib fee asset_id)]"
    by (rule built_outputs_Ok) blast
  then show ?thesis
    using assms(1) by (simp add: stated_fee_def out built_output_def new_fee_explicit_def)
qed

lemma rescue_construct_raw_fee:
  assumes "new_fee_explicit lib"
    and "rescue_construct_raw lib rl rng asset lbtc fee est = Ok tx"
  shows "stated_fee tx = int (unat fee)"
proof -
  from assms(2) obtain b1 b2 where
    "el_outputs tx = [b1, b2, new_fee lib fee (unblinded_asset (snd lbtc))]"
    by (auto simp: rescue_construct_raw_def rescue_blind_outputs_def rescue_built_def Let_def
        built_output_def split: if_splits)
  then show ?thesis using assms(1) by (simp add: stated_fee_def new_fee_explicit_def)
qed

interpretation el_fee: fee_builder
    "\<lambda>c fee est. el_construct_raw lib (rng est) gh inputs unblinded asset_id (c :: el_address destination)
       fee est"
    "\<lambda>c. stated_fee" "\<lambda>c. new_fee_explicit (lib :: 'f::comm_ring_1 elements_lib)"
  for lib rng gh inputs unblinded asset_id
  by unfold_locales (rule el_construct_raw_fee)

interpretation rescue_fee: fee_builder
    "\<lambda>c fee est. rescue_construct_raw lib rl (rng est) (fst c) (snd c) fee est"
    "\<lambda>c. stated_fee" "\<lambda>c. new_fee_explicit (lib :: 'f::comm_ring_1 elements_lib)"
  for lib rl rng
  by unfold_locales (rule rescue_construct_raw_fee)

text \<open>
  The fee reported is the fee stated in the transaction, for ordinary Liquid transactions
  and for rescues, with an absolute and with a relative fee target.
\<close>

theorem liquid_fee_is_stated:
  assumes "new_fee_explicit lib"
  shows "(el_construct_tx lib rng gh inputs d ft = Ok (tx, fee) \<longrightarrow> stated_fee tx = int (unat fee))
    \<and> (construct_asset_rescue lib rl rng network ap lp ft = Ok (tx, fee)
        \<longrightarrow> stated_fee tx = int (unat fee))"
proof (intro conjI impI)
  assume "el_construct_tx lib rng gh inputs d ft = Ok (tx, fee)"
  then obtain unblinded asset_id where
    "target_fee (discount_vsize lib) el_input_len el_tx_error_from_fee ft
       (\<lambda>fee est. el_construct_raw lib (rng est) gh (el_sort_inputs inputs) unblinded asset_id
          d fee est) = Ok (tx, fee)"
    by (auto simp: el_construct_tx_def Let_def split: if_splits list.splits)
  with assms show "stated_fee tx = int (unat fee)" by (rule el_fee.target_fee_pays)
next
  assume "construct_asset_rescue lib rl rng network ap lp ft = Ok (tx, fee)"
  then obtain a l raw where tx: "tx = clear_stubs raw" and
    "target_fee (discount_vsize lib) el_input_len rescue_error_from_fee ft
       (\<lambda>fee est. rescue_construct_raw lib rl (rng est) (fst ((ap, a), (lp, l)))
          (snd ((ap, a), (lp, l))) fee est) = Ok (raw, fee)"
    unfolding construct_asset_rescue_def by (auto split: if_splits)
  with assms have "stated_fee raw = int (unat fee)" by (intro rescue_fee.target_fee_pays)
  then show "stated_fee tx = int (unat fee)" by (simp add: tx clear_stubs_def stated_fee_def)
qed

subsection \<open>The chain-agnostic constructor\<close>

datatype wrapper_error = WNotBitcoin | WNotElements | WBitcoin tx_error | WElements el_tx_error

datatype wrapper_input = BitcoinInput input_detail | ElementsInput el_input_detail

fun into_bitcoin_input :: "wrapper_input \<Rightarrow> (wrapper_error, input_detail) result" where
  "into_bitcoin_input (BitcoinInput i) = Ok i"
| "into_bitcoin_input (ElementsInput _) = Err WNotBitcoin"

fun into_elements_input :: "wrapper_input \<Rightarrow> (wrapper_error, el_input_detail) result" where
  "into_elements_input (BitcoinInput _) = Err WNotElements"
| "into_elements_input (ElementsInput i) = Ok i"

record bitcoin_params =
  bp_inputs :: "input_detail list"
  bp_destination :: "bytes destination"
  bp_fee :: fee_target

record elements_params =
  ep_genesis_hash :: bytes
  ep_inputs :: "el_input_detail list"
  ep_destination :: "el_address destination"
  ep_fee :: fee_target

datatype params = BitcoinParams bitcoin_params | ElementsParams elements_params

datatype wrapper_tx = BitcoinTx transaction | ElementsTx el_transaction

record wrapper_lib =
  btc_txid :: "transaction \<Rightarrow> string"
  lq_txid :: "el_transaction \<Rightarrow> string"
  btc_serialize :: "transaction \<Rightarrow> bytes"
  lq_serialize :: "el_transaction \<Rightarrow> bytes"

fun wrapper_txid :: "wrapper_lib \<Rightarrow> wrapper_tx \<Rightarrow> string" where
  "wrapper_txid wl (BitcoinTx tx) = btc_txid wl tx"
| "wrapper_txid wl (ElementsTx tx) = lq_txid wl tx"

fun wrapper_serialize :: "wrapper_lib \<Rightarrow> wrapper_tx \<Rightarrow> bytes" where
  "wrapper_serialize wl (BitcoinTx tx) = btc_serialize wl tx"
| "wrapper_serialize wl (ElementsTx tx) = lq_serialize wl tx"

fun wrapper_construct_tx ::
  "bitcoin_lib \<Rightarrow> 'f::comm_ring_1 elements_lib \<Rightarrow> (bool \<Rightarrow> 'f el_rng) \<Rightarrow> params
    \<Rightarrow> (wrapper_error, wrapper_tx \<times> u64) result" where
  "wrapper_construct_tx bl el rng (BitcoinParams p) =
     r_bind (r_map_err WBitcoin (construct_tx bl (bp_inputs p) (bp_destination p) (bp_fee p)))
       (\<lambda>(tx, fee). Ok (BitcoinTx tx, fee))"
| "wrapper_construct_tx bl el rng (ElementsParams p) =
     r_bind (r_map_err WElements
       (el_construct_tx el rng (ep_genesis_hash p) (ep_inputs p) (ep_destination p) (ep_fee p)))
       (\<lambda>(tx, fee). Ok (ElementsTx tx, fee))"

subsection \<open>Witnesses\<close>

definition example_rescue_lib :: rescue_lib where
  "example_rescue_lib = \<lparr>is_v1_p2tr = (\<lambda>s. take 1 s = [81]), is_p2pkh = (\<lambda>s. False),
     is_p2sh = (\<lambda>s. False), is_v0_p2wpkh = (\<lambda>s. take 1 s = [0]),
     asset_to_hex = (\<lambda>a. if a = [9]
       then ''5ac9f65c0efcc4775e0baec4ec03abdde22473cd3cf33c0419ca290e0751b225'' else ''00'')\<rparr>"

definition example_asset_pair :: asset_pair where
  "example_asset_pair = \<lparr>pair_tx_out = \<lparr>el_asset = CExplicit [4], el_value = CExplicit 77,
       el_nonce = CNull, el_out_script = [81], el_out_witness = None\<rparr>,
     pair_outpoint = \<lparr>txid = [1], vout = 0\<rparr>, pair_blinding_key = None,
     pair_destination = \<lparr>script_pubkey = [5], blinding_pubkey = None\<rparr>\<rparr>"

definition example_lbtc_pair :: asset_pair where
  "example_lbtc_pair = \<lparr>pair_tx_out = \<lparr>el_asset = Confidential [9], el_value = Confidential [1],
       el_nonce = CNull, el_out_script = [0], el_out_witness = None\<rparr>,
     pair_outpoint = \<lparr>txid = [2], vout = 1\<rparr>, pair_blinding_key = Some [3],
     pair_destination = \<lparr>script_pubkey = [6], blinding_pubkey = Some [8]\<rparr>\<rparr>"

definition example_lbtc_unblinded :: "int unblinded_output" where
  "example_lbtc_unblinded =
     Unblinded \<lparr>sec_asset = [9], sec_asset_bf = 5, sec_value = 7000, sec_value_bf = 3\<rparr>"

lemma example_rescue_unblind:
  "rescue_unblind example_el example_asset_pair = Ok (Explicit \<lparr>exp_asset = [4], exp_amount = 77\<rparr>)"
  "rescue_unblind example_el example_lbtc_pair = Ok example_lbtc_unblinded"
  by (simp_all add: rescue_unblind_def example_asset_pair_def example_lbtc_pair_def
      example_lbtc_unblinded_def) (simp add: example_el_def)

lemma example_rescue_raw:
  "\<exists>tx. rescue_construct_raw example_el example_rescue_lib (example_el_rng False)
     (example_asset_pair, Explicit \<lparr>exp_asset = [4], exp_amount = 77\<rparr>)
     (example_lbtc_pair, example_lbtc_unblinded) 300 False = Ok tx"
  by (simp add: rescue_construct_raw_def rescue_output_type_of_def rescue_blind_outputs_def
      rescue_built_def checked_sub_def create_output_def is_blinded_def example_el_fields
      example_rescue_lib_def example_asset_pair_def example_lbtc_pair_def
      example_lbtc_unblinded_def Let_def)

lemma example_rescue_built:
  "\<exists>tx. construct_asset_rescue example_el example_rescue_lib example_el_rng Regtest
     example_asset_pair example_lbtc_pair (Absolute 300) = Ok (tx, 300)"
proof -
  from example_rescue_raw obtain raw where
    raw: "rescue_construct_raw example_el example_rescue_lib (example_el_rng False)
     (example_asset_pair, Explicit \<lparr>exp_asset = [4], exp_amount = 77\<rparr>)
     (example_lbtc_pair, example_lbtc_unblinded) 300 False = Ok raw" ..
  have "is_v1_p2tr example_rescue_lib (el_out_script (pair_tx_out example_asset_pair))"
    "asset_to_hex example_rescue_lib [4] \<noteq> asset_to_hex example_rescue_lib [9]"
    "unblinded_asset example_lbtc_unblinded = [9]"
    "liquid_asset_id Regtest = Ok (asset_to_hex example_rescue_lib [9])"
    by (simp_all add: example_rescue_lib_def example_asset_pair_def example_lbtc_unblinded_def)
  with raw show ?thesis
    unfolding construct_asset_rescue_def example_rescue_unblind
    by (simp del: liquid_asset_id.simps)
qed

theorem asset_rescue_sweeps_witness:
  "\<exists>tx. construct_asset_rescue example_el example_rescue_lib example_el_rng Regtest
       example_asset_pair example_lbtc_pair (Absolute 300) = Ok (tx, 300)
     \<and> length (el_outputs tx) = 3"
proof -
  from example_rescue_built obtain tx where tx: "construct_asset_rescue example_el
      example_rescue_lib example_el_rng Regtest example_asset_pair example_lbtc_pair
      (Absolute 300) = Ok (tx, 300)" ..
  from asset_rescue_sweeps [OF example_el_ok tx] have "length (el_outputs tx) = 3" by auto
  with tx show ?thesis by blast
qed

theorem liquid_fee_is_stated_witness:
  "\<exists>tx. el_construct_tx example_el example_el_rng [] example_el_inputs example_el_destination
       (Absolute 300) = Ok (tx, 300) \<and> stated_fee tx = 300"
proof -
  from example_el_built obtain tx where tx: "el_construct_tx example_el example_el_rng []
      example_el_inputs example_el_destination (Absolute 300) = Ok (tx, 300)" ..
  have "new_fee_explicit example_el" by (simp add: new_fee_explicit_def example_el_def)
  from conjunct1 [OF liquid_fee_is_stated [OF this]] tx have "stated_fee tx = int (unat (300 :: u64))"
    by blast
  with tx show ?thesis by auto
qed

end
