(* ===== verification/Musig.thy ===== *)
theory Musig
  imports Boltz_Prelude
begin

text \<open>
  MuSig2 cooperative signing, \<open>src/boltz-core/src/musig.rs\<close>. The builder is a state machine whose
  phase and signedness are phantom type parameters in the source; here they are the fields
  \<open>mb_state\<close> and \<open>mb_signed\<close>, and \<open>permitted\<close> says which call the types allow in which state.
  The cryptography (key aggregation, nonces, sessions) is the record \<open>musig_lib\<close>; \<open>'c\<close> stands for
  the key aggregation cache and \<open>'s\<close> for a session. Every \<open>expect\<close> of the source is a \<open>Panic\<close>.
\<close>

datatype musig_error =
    OurKeyNotInList | KeyNotFound | OurNonceNotGenerated | IncorrectNonceCount
  | NonceNotFoundForKey bytes | OurNonceWrongIndex | InvalidPartialSignature
  | MissingPartialSignature | MuSecp | MuParse | MuInvalidTweak | MuOutOfRange | MuSlice

datatype phase = NoMessage | MissingNonce | NonceGenerated | NoncesAggregated | SessionInitialized

datatype signedness = Unsigned | Signed

record ('c, 's) musig_builder =
  mb_key :: bytes
  mb_msg :: "bytes option"
  mb_nonce :: "(bytes \<times> bytes) option"
  mb_aggcache :: 'c
  mb_pub_keys :: "bytes list"
  mb_pub_nonces :: "bytes list option"
  mb_aggnonce :: "bytes option"
  mb_session :: "'s option"
  mb_partial_sigs :: "bytes option list"
  mb_state :: phase
  mb_signed :: signedness

record ('c, 's) musig_lib =
  mu_public_key :: "bytes \<Rightarrow> bytes"
  mu_key_agg :: "bytes list \<Rightarrow> 'c"
  mu_agg_pk :: "'c \<Rightarrow> bytes"
  mu_xonly_tweak_add :: "'c \<Rightarrow> bytes \<Rightarrow> 'c option"
  mu_nonce_gen :: "'c \<Rightarrow> bytes \<Rightarrow> bytes \<Rightarrow> bytes \<Rightarrow> bytes \<times> bytes"
  mu_secnonce_len :: nat
  mu_pub_nonce_parse :: "bytes \<Rightarrow> bytes option"
  mu_agg_nonce :: "bytes list \<Rightarrow> bytes"
  mu_session_new :: "'c \<Rightarrow> bytes \<Rightarrow> bytes \<Rightarrow> 's"
  mu_partial_sign :: "'s \<Rightarrow> bytes \<Rightarrow> bytes \<Rightarrow> 'c \<Rightarrow> bytes"
  mu_partial_verify :: "'s \<Rightarrow> 'c \<Rightarrow> bytes \<Rightarrow> bytes \<Rightarrow> bytes \<Rightarrow> bool"
  mu_partial_sig_agg :: "'s \<Rightarrow> bytes list \<Rightarrow> bytes"

subsection \<open>Participants\<close>

definition agg_pk :: "('c, 's) musig_lib \<Rightarrow> ('c, 's) musig_builder \<Rightarrow> bytes" where
  "agg_pk lib b = mu_agg_pk lib (mb_aggcache b)"

definition num_participants :: "('c, 's) musig_builder \<Rightarrow> nat" where
  "num_participants b = length (mb_pub_keys b)"

text \<open>\<open>Iterator::position\<close>.\<close>

fun position :: "('a \<Rightarrow> bool) \<Rightarrow> 'a list \<Rightarrow> nat option" where
  "position p [] = None"
| "position p (x # xs) = (if p x then Some 0 else map_option Suc (position p xs))"

definition key_index :: "('c, 's) musig_builder \<Rightarrow> bytes \<Rightarrow> (musig_error, nat) result" where
  "key_index b public_key = ok_or KeyNotFound (position (\<lambda>k. k = public_key) (mb_pub_keys b))"

definition our_index :: "('c, 's) musig_lib \<Rightarrow> ('c, 's) musig_builder \<Rightarrow> (musig_error, nat) result"
where
  "our_index lib b = key_index b (mu_public_key lib (mb_key b))"

text \<open>\<open>our_index().expect(...)\<close>.\<close>

definition our_index_expect :: "('c, 's) musig_lib \<Rightarrow> ('c, 's) musig_builder \<Rightarrow> (musig_error, nat) result"
where
  "our_index_expect lib b = (case our_index lib b of Ok i \<Rightarrow> Ok i | _ \<Rightarrow> Panic)"

subsection \<open>Setup\<close>

definition musig_setup ::
  "('c, 's) musig_lib \<Rightarrow> bytes \<Rightarrow> bytes list \<Rightarrow> (musig_error, ('c, 's) musig_builder) result" where
  "musig_setup lib key pub_keys =
     (if mu_public_key lib key \<notin> set pub_keys then Err OurKeyNotInList
      else Ok \<lparr>mb_key = key, mb_msg = None, mb_nonce = None, mb_aggcache = mu_key_agg lib pub_keys,
        mb_pub_keys = pub_keys, mb_pub_nonces = None, mb_aggnonce = None, mb_session = None,
        mb_partial_sigs = replicate (length pub_keys) None,
        mb_state = NoMessage, mb_signed = Unsigned\<rparr>)"

definition xonly_tweak_add ::
  "('c, 's) musig_lib \<Rightarrow> bytes \<Rightarrow> ('c, 's) musig_builder
    \<Rightarrow> (musig_error, ('c, 's) musig_builder) result" where
  "xonly_tweak_add lib tweak b =
     r_map (\<lambda>c. b\<lparr>mb_aggcache := c\<rparr>)
       (ok_or MuInvalidTweak (mu_xonly_tweak_add lib (mb_aggcache b) tweak))"

definition set_message :: "bytes \<Rightarrow> ('c, 's) musig_builder \<Rightarrow> ('c, 's) musig_builder" where
  "set_message msg b = b\<lparr>mb_msg := Some msg, mb_state := MissingNonce, mb_signed := Unsigned\<rparr>"

subsection \<open>Nonces\<close>

definition generate_nonce ::
  "('c, 's) musig_lib \<Rightarrow> bytes \<Rightarrow> ('c, 's) musig_builder
    \<Rightarrow> (musig_error, ('c, 's) musig_builder) result" where
  "generate_nonce lib session_secrand b =
     r_bind (expect (mb_msg b)) (\<lambda>msg.
       Ok (b\<lparr>mb_nonce := Some (mu_nonce_gen lib (mb_aggcache b) session_secrand
               (mu_public_key lib (mb_key b)) msg),
             mb_state := NonceGenerated, mb_signed := Unsigned\<rparr>))"

text \<open>The conversions of byte slices: a wrong length is a \<open>Slice\<close> error.\<close>

definition convert_pub_nonce :: "('c, 's) musig_lib \<Rightarrow> bytes \<Rightarrow> (musig_error, bytes) result" where
  "convert_pub_nonce lib pub_nonce =
     (if length pub_nonce \<noteq> 66 then Err MuSlice
      else ok_or MuParse (mu_pub_nonce_parse lib pub_nonce))"

definition dangerous_set_nonce ::
  "('c, 's) musig_lib \<Rightarrow> bytes \<Rightarrow> bytes \<Rightarrow> ('c, 's) musig_builder
    \<Rightarrow> (musig_error, ('c, 's) musig_builder) result" where
  "dangerous_set_nonce lib sec_nonce pub_nonce b =
     (if length sec_nonce \<noteq> mu_secnonce_len lib then Err MuSlice
      else r_bind (convert_pub_nonce lib pub_nonce) (\<lambda>pn.
        Ok (b\<lparr>mb_nonce := Some (sec_nonce, pn), mb_state := NonceGenerated,
              mb_signed := Unsigned\<rparr>)))"

definition pub_nonce :: "('c, 's) musig_builder \<Rightarrow> (musig_error, bytes) result" where
  "pub_nonce b = expect (map_option snd (mb_nonce b))"

definition dangerous_secnonce :: "('c, 's) musig_builder \<Rightarrow> (musig_error, bytes) result" where
  "dangerous_secnonce b = r_map fst (expect (mb_nonce b))"

definition aggregate_nonces_ordered ::
  "('c, 's) musig_lib \<Rightarrow> bytes list \<Rightarrow> ('c, 's) musig_builder
    \<Rightarrow> (musig_error, ('c, 's) musig_builder) result" where
  "aggregate_nonces_ordered lib nonces b =
     (if length nonces \<noteq> num_participants b then Err IncorrectNonceCount
      else r_bind (case mb_nonce b of
          Some (_, our_nonce) \<Rightarrow>
            r_bind (our_index_expect lib b) (\<lambda>i.
              if i < length nonces \<and> nonces ! i = our_nonce then Ok () else Err OurNonceWrongIndex)
        | None \<Rightarrow> Err OurNonceNotGenerated) (\<lambda>_.
        Ok (b\<lparr>mb_aggnonce := Some (mu_agg_nonce lib nonces), mb_pub_nonces := Some nonces,
              mb_state := NoncesAggregated, mb_signed := Unsigned\<rparr>)))"

definition ordered_nonce :: "(bytes \<times> bytes) list \<Rightarrow> bytes \<Rightarrow> (musig_error, bytes) result" where
  "ordered_nonce nonces key =
     (case List.find (\<lambda>(pk, _). pk = key) nonces of
        Some (_, nonce) \<Rightarrow> Ok nonce
      | None \<Rightarrow> Err (NonceNotFoundForKey key))"

definition aggregate_nonces ::
  "('c, 's) musig_lib \<Rightarrow> (bytes \<times> bytes) list \<Rightarrow> ('c, 's) musig_builder
    \<Rightarrow> (musig_error, ('c, 's) musig_builder) result" where
  "aggregate_nonces lib nonces b =
     r_bind (if list_ex (\<lambda>(pk, _). pk = mu_public_key lib (mb_key b)) nonces then Ok nonces
             else (case mb_nonce b of
                 Some (_, our_nonce) \<Rightarrow> Ok (nonces @ [(mu_public_key lib (mb_key b), our_nonce)])
               | None \<Rightarrow> Err OurNonceNotGenerated)) (\<lambda>nonces.
     if length nonces \<noteq> num_participants b then Err IncorrectNonceCount
     else r_bind (r_mapM (ordered_nonce nonces) (mb_pub_keys b)) (\<lambda>ordered.
       aggregate_nonces_ordered lib ordered b))"

subsection \<open>Session and signatures\<close>

definition initialize_session ::
  "('c, 's) musig_lib \<Rightarrow> ('c, 's) musig_builder \<Rightarrow> (musig_error, ('c, 's) musig_builder) result" where
  "initialize_session lib b =
     r_bind (expect (mb_aggnonce b)) (\<lambda>aggnonce.
     r_bind (expect (mb_msg b)) (\<lambda>msg.
       Ok (b\<lparr>mb_session := Some (mu_session_new lib (mb_aggcache b) aggnonce msg),
             mb_state := SessionInitialized, mb_signed := Unsigned\<rparr>)))"

definition partial_verify ::
  "('c, 's) musig_lib \<Rightarrow> bytes \<Rightarrow> bytes \<Rightarrow> ('c, 's) musig_builder \<Rightarrow> (musig_error, bool) result" where
  "partial_verify lib public_key sig b =
     r_bind (key_index b public_key) (\<lambda>index.
     r_bind (expect (mb_pub_nonces b)) (\<lambda>pub_nonces.
     r_bind (expect (if index < length pub_nonces then Some (pub_nonces ! index) else None)) (\<lambda>nonce.
     r_bind (expect (mb_session b)) (\<lambda>session.
       Ok (mu_partial_verify lib session (mb_aggcache b) sig nonce public_key)))))"

text \<open>\<open>*partial_sigs.get_mut(index).expect(...) = Some(sig)\<close>.\<close>

definition set_partial_sig ::
  "nat \<Rightarrow> bytes \<Rightarrow> ('c, 's) musig_builder \<Rightarrow> (musig_error, ('c, 's) musig_builder) result" where
  "set_partial_sig index sig b =
     (if index < length (mb_partial_sigs b)
      then Ok (b\<lparr>mb_partial_sigs := (mb_partial_sigs b)[index := Some sig]\<rparr>) else Panic)"

definition partial_add ::
  "('c, 's) musig_lib \<Rightarrow> bytes \<Rightarrow> bytes \<Rightarrow> ('c, 's) musig_builder
    \<Rightarrow> (musig_error, ('c, 's) musig_builder) result" where
  "partial_add lib public_key sig b =
     r_bind (partial_verify lib public_key sig b) (\<lambda>valid.
     if \<not> valid then Err InvalidPartialSignature
     else r_bind (key_index b public_key) (\<lambda>index. set_partial_sig index sig b))"

definition partial_sign ::
  "('c, 's) musig_lib \<Rightarrow> ('c, 's) musig_builder \<Rightarrow> (musig_error, ('c, 's) musig_builder) result" where
  "partial_sign lib b =
     r_bind (expect (mb_session b)) (\<lambda>session.
     r_bind (expect (mb_nonce b)) (\<lambda>(secret_nonce, _).
       let partial_sig = mu_partial_sign lib session secret_nonce (mb_key b) (mb_aggcache b)
       in r_bind (our_index_expect lib b) (\<lambda>our_index.
          r_bind (set_partial_sig our_index partial_sig b) (\<lambda>b.
            Ok (b\<lparr>mb_nonce := None, mb_state := SessionInitialized, mb_signed := Signed\<rparr>)))))"

definition our_partial_signature ::
  "('c, 's) musig_lib \<Rightarrow> ('c, 's) musig_builder \<Rightarrow> (musig_error, bytes) result" where
  "our_partial_signature lib b =
     r_bind (our_index_expect lib b) (\<lambda>i.
     r_bind (expect (if i < length (mb_partial_sigs b) then Some (mb_partial_sigs b ! i) else None))
       expect)"

definition partial_aggregate ::
  "('c, 's) musig_lib \<Rightarrow> ('c, 's) musig_builder \<Rightarrow> (musig_error, bytes) result" where
  "partial_aggregate lib b =
     (let partial_sigs = r_mapM (ok_or MissingPartialSignature) (mb_partial_sigs b)
      in r_bind (expect (mb_session b)) (\<lambda>session.
         r_bind partial_sigs (\<lambda>sigs. Ok (mu_partial_sig_agg lib session sigs))))"

subsection \<open>The calls the types permit\<close>

datatype musig_call =
    TweakAdd bytes | Message bytes | GenerateNonce bytes | SetNonce bytes bytes
  | AggregateNonces "(bytes \<times> bytes) list" | AggregateNoncesOrdered "bytes list"
  | InitializeSession | PartialAdd bytes bytes | PartialSign

fun permitted :: "musig_call \<Rightarrow> ('c, 's) musig_builder \<Rightarrow> bool" where
  "permitted (TweakAdd _) b = (mb_state b = NoMessage)"
| "permitted (Message _) b = (mb_state b = NoMessage)"
| "permitted (GenerateNonce _) b = (mb_state b = MissingNonce)"
| "permitted (SetNonce _ _) b = (mb_state b = MissingNonce)"
| "permitted (AggregateNonces _) b = (mb_state b = NonceGenerated)"
| "permitted (AggregateNoncesOrdered _) b = (mb_state b = NonceGenerated)"
| "permitted InitializeSession b = (mb_state b = NoncesAggregated)"
| "permitted (PartialAdd _ _) b = (mb_state b = SessionInitialized)"
| "permitted PartialSign b = (mb_state b = SessionInitialized \<and> mb_signed b = Unsigned)"

fun run_call ::
  "('c, 's) musig_lib \<Rightarrow> musig_call \<Rightarrow> ('c, 's) musig_builder
    \<Rightarrow> (musig_error, ('c, 's) musig_builder) result" where
  "run_call lib (TweakAdd t) b = xonly_tweak_add lib t b"
| "run_call lib (Message m) b = Ok (set_message m b)"
| "run_call lib (GenerateNonce r) b = generate_nonce lib r b"
| "run_call lib (SetNonce s p) b = dangerous_set_nonce lib s p b"
| "run_call lib (AggregateNonces ns) b = aggregate_nonces lib ns b"
| "run_call lib (AggregateNoncesOrdered ns) b = aggregate_nonces_ordered lib ns b"
| "run_call lib InitializeSession b = initialize_session lib b"
| "run_call lib (PartialAdd pk sig) b = partial_add lib pk sig b"
| "run_call lib PartialSign b = partial_sign lib b"

text \<open>A session: a successful setup followed by permitted calls, with the calls made so far.\<close>

inductive musig_run ::
  "('c, 's) musig_lib \<Rightarrow> musig_call list \<Rightarrow> ('c, 's) musig_builder \<Rightarrow> bool"
  for lib :: "('c, 's) musig_lib" where
  start: "musig_setup lib key pub_keys = Ok b \<Longrightarrow> musig_run lib [] b"
| step: "musig_run lib cs b \<Longrightarrow> permitted c b \<Longrightarrow> run_call lib c b = Ok b'
    \<Longrightarrow> musig_run lib (cs @ [c]) b'"

inductive_cases musig_runE: "musig_run lib cs b"

subsection \<open>The builder invariant\<close>

text \<open>
  What the phase and the signedness promise, and what the messages of the \<open>expect\<close> calls claim:
  our key is a participant, there is one slot per participant, and the optional fields are set in
  the phases that need them. The last part says that a stored signature was verified for its
  participant or is our own.
\<close>

definition slot_ok :: "('c, 's) musig_lib \<Rightarrow> ('c, 's) musig_builder \<Rightarrow> nat \<Rightarrow> bool" where
  "slot_ok lib b i \<longleftrightarrow>
     (case mb_partial_sigs b ! i of None \<Rightarrow> True
      | Some sig \<Rightarrow>
          (\<exists>session nonces. mb_session b = Some session \<and> mb_pub_nonces b = Some nonces
             \<and> mu_partial_verify lib session (mb_aggcache b) sig (nonces ! i) (mb_pub_keys b ! i))
          \<or> (mb_signed b = Signed \<and> mb_pub_keys b ! i = mu_public_key lib (mb_key b)))"

definition our_slot :: "('c, 's) musig_lib \<Rightarrow> ('c, 's) musig_builder \<Rightarrow> nat option" where
  "our_slot lib b = position (\<lambda>k. k = mu_public_key lib (mb_key b)) (mb_pub_keys b)"

definition musig_inv :: "('c, 's) musig_lib \<Rightarrow> ('c, 's) musig_builder \<Rightarrow> bool" where
  "musig_inv lib b \<longleftrightarrow>
     mu_public_key lib (mb_key b) \<in> set (mb_pub_keys b)
     \<and> length (mb_partial_sigs b) = length (mb_pub_keys b)
     \<and> (mb_state b \<noteq> NoMessage \<longrightarrow> mb_msg b \<noteq> None)
     \<and> (mb_state b \<notin> {NoMessage, MissingNonce} \<and> mb_signed b = Unsigned \<longrightarrow> mb_nonce b \<noteq> None)
     \<and> (mb_state b \<in> {NoncesAggregated, SessionInitialized} \<longrightarrow>
          (\<exists>ns. mb_pub_nonces b = Some ns \<and> length ns = length (mb_pub_keys b)
             \<and> mb_aggnonce b = Some (mu_agg_nonce lib ns)))
     \<and> (mb_state b = SessionInitialized \<longrightarrow> mb_session b \<noteq> None
          \<and> (\<forall>i < length (mb_pub_keys b). slot_ok lib b i))
     \<and> (mb_state b \<noteq> SessionInitialized \<longrightarrow> mb_signed b = Unsigned
          \<and> mb_partial_sigs b = replicate (length (mb_pub_keys b)) None)
     \<and> (mb_signed b = Signed \<longrightarrow> mb_nonce b = None
          \<and> (\<forall>i. our_slot lib b = Some i \<longrightarrow> mb_partial_sigs b ! i \<noteq> None))"

lemma position_Some:
  "position p xs = Some i \<Longrightarrow> i < length xs \<and> p (xs ! i) \<and> (\<forall>j < i. \<not> p (xs ! j))"
proof (induction xs arbitrary: i)
  case Nil
  then show ?case by simp
next
  case (Cons x xs)
  then show ?case by (cases i) (auto simp: less_Suc_eq_0_disj split: if_splits)
qed

lemma position_exists: "x \<in> set xs \<Longrightarrow> p x \<Longrightarrow> \<exists>i. position p xs = Some i"
  by (induction xs) auto

lemma key_index_Ok:
  "key_index b pk = Ok i \<Longrightarrow> i < length (mb_pub_keys b) \<and> mb_pub_keys b ! i = pk"
  by (auto simp: key_index_def dest: position_Some)

lemma our_index_expect_Ok:
  assumes "musig_inv lib b"
  obtains i where "our_index_expect lib b = Ok i" "our_slot lib b = Some i"
    "i < length (mb_pub_keys b)" "mb_pub_keys b ! i = mu_public_key lib (mb_key b)"
proof -
  from assms have "mu_public_key lib (mb_key b) \<in> set (mb_pub_keys b)" by (simp add: musig_inv_def)
  then obtain i where "position (\<lambda>k. k = mu_public_key lib (mb_key b)) (mb_pub_keys b) = Some i"
    using position_exists [of _ _ "\<lambda>k. k = mu_public_key lib (mb_key b)"] by blast
  then show ?thesis
    by (intro that) (auto simp: our_index_expect_def our_index_def key_index_def our_slot_def
        dest: position_Some)
qed

lemma musig_setup_inv: "musig_setup lib key pub_keys = Ok b \<Longrightarrow> musig_inv lib b"
  by (auto simp: musig_setup_def musig_inv_def slot_ok_def split: if_splits)

lemma xonly_tweak_add_inv:
  "musig_inv lib b \<Longrightarrow> mb_state b = NoMessage \<Longrightarrow> xonly_tweak_add lib t b = Ok b' \<Longrightarrow> musig_inv lib b'"
  by (auto simp: xonly_tweak_add_def musig_inv_def)

lemma set_message_inv:
  "musig_inv lib b \<Longrightarrow> mb_state b = NoMessage \<Longrightarrow> musig_inv lib (set_message m b)"
  by (auto simp: set_message_def musig_inv_def)

lemma generate_nonce_inv:
  "musig_inv lib b \<Longrightarrow> mb_state b = MissingNonce \<Longrightarrow> generate_nonce lib r b = Ok b' \<Longrightarrow> musig_inv lib b'"
  by (auto simp: generate_nonce_def musig_inv_def)

lemma dangerous_set_nonce_inv:
  "musig_inv lib b \<Longrightarrow> mb_state b = MissingNonce \<Longrightarrow> dangerous_set_nonce lib sn pn b = Ok b'
    \<Longrightarrow> musig_inv lib b'"
  by (auto simp: dangerous_set_nonce_def musig_inv_def split: if_splits)

lemma aggregate_nonces_ordered_Ok:
  "aggregate_nonces_ordered lib ns b = Ok b' \<Longrightarrow>
     b' = b\<lparr>mb_aggnonce := Some (mu_agg_nonce lib ns), mb_pub_nonces := Some ns,
       mb_state := NoncesAggregated, mb_signed := Unsigned\<rparr> \<and> length ns = length (mb_pub_keys b)"
  by (auto simp: aggregate_nonces_ordered_def num_participants_def split: if_splits)

lemma aggregate_nonces_Ok:
  "aggregate_nonces lib ns b = Ok b' \<Longrightarrow> \<exists>os. aggregate_nonces_ordered lib os b = Ok b'"
  by (auto simp: aggregate_nonces_def split: if_splits)

lemma aggregate_nonces_ordered_inv:
  "musig_inv lib b \<Longrightarrow> mb_state b = NonceGenerated \<Longrightarrow> aggregate_nonces_ordered lib ns b = Ok b'
    \<Longrightarrow> musig_inv lib b'"
  by (drule aggregate_nonces_ordered_Ok) (auto simp: musig_inv_def)

lemma initialize_session_inv:
  "musig_inv lib b \<Longrightarrow> mb_state b = NoncesAggregated \<Longrightarrow> initialize_session lib b = Ok b'
    \<Longrightarrow> musig_inv lib b'"
  by (auto simp: initialize_session_def musig_inv_def slot_ok_def)

lemma slot_ok_update:
  assumes "slot_ok lib b j" and "j \<noteq> i"
  shows "slot_ok lib (b\<lparr>mb_partial_sigs := (mb_partial_sigs b)[i := Some sig]\<rparr>) j"
  using assms by (simp add: slot_ok_def split: option.splits)

lemma our_slot_update [simp]:
  "our_slot lib (b\<lparr>mb_partial_sigs := x\<rparr>) = our_slot lib b"
  by (simp add: our_slot_def)

lemma partial_add_Ok:
  assumes "partial_add lib pk sig b = Ok b'"
  obtains i ns session where "i < length (mb_pub_keys b)" "mb_pub_keys b ! i = pk"
    "mb_pub_nonces b = Some ns" "mb_session b = Some session"
    "mu_partial_verify lib session (mb_aggcache b) sig (ns ! i) pk"
    "b' = b\<lparr>mb_partial_sigs := (mb_partial_sigs b)[i := Some sig]\<rparr>" "i < length (mb_partial_sigs b)"
  using assms
  by (auto simp: partial_add_def partial_verify_def set_partial_sig_def split: if_splits
      dest: key_index_Ok)

lemma partial_add_inv:
  assumes inv: "musig_inv lib b" and st: "mb_state b = SessionInitialized"
    and ok: "partial_add lib pk sig b = Ok b'"
  shows "musig_inv lib b'"
proof -
  from ok obtain i ns session where i: "i < length (mb_pub_keys b)" "mb_pub_keys b ! i = pk"
    and n: "mb_pub_nonces b = Some ns" "mb_session b = Some session"
    and v: "mu_partial_verify lib session (mb_aggcache b) sig (ns ! i) pk"
    and b': "b' = b\<lparr>mb_partial_sigs := (mb_partial_sigs b)[i := Some sig]\<rparr>"
    and l: "i < length (mb_partial_sigs b)"
    by (rule partial_add_Ok)
  have "slot_ok lib b' i" using i n v l by (simp add: slot_ok_def b')
  moreover have "slot_ok lib b' j" if "j < length (mb_pub_keys b)" "j \<noteq> i" for j
    using inv st that by (auto simp: b' musig_inv_def intro: slot_ok_update)
  ultimately have "\<forall>j < length (mb_pub_keys b'). slot_ok lib b' j" by (auto simp: b')
  moreover have "(mb_partial_sigs b)[i := Some sig] ! k \<noteq> None" if "mb_partial_sigs b ! k \<noteq> None" for k
    using that l by (cases "k = i") auto
  ultimately show ?thesis using inv st by (simp add: b' musig_inv_def)
qed

lemma partial_sign_Ok:
  assumes inv: "musig_inv lib b" and "mb_state b = SessionInitialized" "mb_signed b = Unsigned"
  obtains i session sn pn where "our_slot lib b = Some i" "i < length (mb_pub_keys b)"
    "mb_pub_keys b ! i = mu_public_key lib (mb_key b)"
    "mb_session b = Some session" "mb_nonce b = Some (sn, pn)"
    "partial_sign lib b = Ok (b\<lparr>mb_partial_sigs := (mb_partial_sigs b)
       [i := Some (mu_partial_sign lib session sn (mb_key b) (mb_aggcache b))],
       mb_nonce := None, mb_state := SessionInitialized, mb_signed := Signed\<rparr>)"
proof -
  from assms obtain session sn pn where s: "mb_session b = Some session" "mb_nonce b = Some (sn, pn)"
    and len: "length (mb_partial_sigs b) = length (mb_pub_keys b)"
    by (auto simp: musig_inv_def)
  from inv show ?thesis
  proof (rule our_index_expect_Ok)
    fix i assume "our_index_expect lib b = Ok i" "our_slot lib b = Some i"
      "i < length (mb_pub_keys b)" "mb_pub_keys b ! i = mu_public_key lib (mb_key b)"
    then show ?thesis
      using s len by (intro that) (auto simp: partial_sign_def set_partial_sig_def)
  qed
qed

lemma partial_sign_inv:
  assumes inv: "musig_inv lib b" and st: "mb_state b = SessionInitialized" "mb_signed b = Unsigned"
    and ok: "partial_sign lib b = Ok b'"
  shows "musig_inv lib b'"
proof -
  from partial_sign_Ok [OF inv st] ok obtain i sig where i: "our_slot lib b = Some i"
      "i < length (mb_pub_keys b)" "mb_pub_keys b ! i = mu_public_key lib (mb_key b)"
    and b': "b' = b\<lparr>mb_partial_sigs := (mb_partial_sigs b)[i := Some sig],
       mb_nonce := None, mb_state := SessionInitialized, mb_signed := Signed\<rparr>"
    by (metis result.inject(1))
  have "slot_ok lib b' j" if "j < length (mb_pub_keys b)" for j
  proof (cases "j = i")
    case True
    with i inv show ?thesis by (auto simp: slot_ok_def b' musig_inv_def)
  next
    case False
    with that inv st have "slot_ok lib b j" by (auto simp: musig_inv_def)
    with False st show ?thesis by (auto simp: slot_ok_def b' split: option.splits)
  qed
  with inv st i show ?thesis by (auto simp: b' musig_inv_def our_slot_def)
qed

lemmas musig_inv_intros =
  xonly_tweak_add_inv set_message_inv generate_nonce_inv dangerous_set_nonce_inv
  aggregate_nonces_ordered_inv initialize_session_inv partial_add_inv partial_sign_inv

lemma run_call_inv:
  assumes "musig_inv lib b" "permitted c b" "run_call lib c b = Ok b'"
  shows "musig_inv lib b'"
  using assms by (cases c) (auto intro: musig_inv_intros dest!: aggregate_nonces_Ok)

lemma musig_run_inv: "musig_run lib cs b \<Longrightarrow> musig_inv lib b"
  by (induction rule: musig_run.induct) (auto intro: musig_setup_inv run_call_inv)

subsection \<open>No panics\<close>

lemma partial_verify_no_panic:
  assumes "musig_inv lib b" "mb_state b = SessionInitialized"
  shows "partial_verify lib pk sig b \<noteq> Panic"
  using assms
  by (auto simp: partial_verify_def musig_inv_def r_bind_Panic_iff key_index_def
      dest!: position_Some split: if_splits)

lemma partial_add_no_panic:
  assumes "musig_inv lib b" "mb_state b = SessionInitialized"
  shows "partial_add lib pk sig b \<noteq> Panic"
proof -
  have "set_partial_sig i sig b \<noteq> Panic" if "key_index b pk = Ok i" for i
    using key_index_Ok [OF that] assms(1) by (auto simp: set_partial_sig_def musig_inv_def)
  moreover have "key_index b pk \<noteq> Panic" by (simp add: key_index_def)
  ultimately show ?thesis
    using partial_verify_no_panic [OF assms] by (auto simp: partial_add_def r_bind_Panic_iff)
qed

lemma r_mapM_no_panic: "(\<And>x. x \<in> set xs \<Longrightarrow> f x \<noteq> Panic) \<Longrightarrow> r_mapM f xs \<noteq> Panic"
  by (induction xs) (auto simp: r_bind_Panic_iff)

lemma aggregate_nonces_ordered_no_panic:
  assumes "musig_inv lib b"
  shows "aggregate_nonces_ordered lib ns b \<noteq> Panic"
  by (rule our_index_expect_Ok [OF assms])
    (auto simp: aggregate_nonces_ordered_def r_bind_Panic_iff split: option.splits)

lemma ordered_nonce_no_panic: "ordered_nonce ns k \<noteq> Panic"
  by (simp add: ordered_nonce_def split: option.splits prod.splits)

lemma aggregate_nonces_no_panic:
  assumes "musig_inv lib b"
  shows "aggregate_nonces lib ns b \<noteq> Panic"
proof -
  have "r_mapM (ordered_nonce ns') (mb_pub_keys b) \<noteq> Panic" for ns'
    by (rule r_mapM_no_panic) (rule ordered_nonce_no_panic)
  then have "r_bind (r_mapM (ordered_nonce ns') (mb_pub_keys b))
      (\<lambda>ordered. aggregate_nonces_ordered lib ordered b) \<noteq> Panic" for ns'
    using aggregate_nonces_ordered_no_panic [OF assms] by (simp add: r_bind_Panic_iff)
  then show ?thesis
    by (simp add: aggregate_nonces_def r_bind_Panic_iff split: option.splits prod.splits)
qed

lemma run_call_no_panic:
  assumes "musig_inv lib b" "permitted c b"
  shows "run_call lib c b \<noteq> Panic"
proof (cases c)
  case PartialSign
  with assms(2) have "mb_state b = SessionInitialized" "mb_signed b = Unsigned" by simp_all
  from partial_sign_Ok [OF assms(1) this] show ?thesis by (metis PartialSign result.distinct(3) run_call.simps(9))
next
  case (TweakAdd t)
  then show ?thesis by (cases "mu_xonly_tweak_add lib (mb_aggcache b) t") (simp_all add: xonly_tweak_add_def)
next
  case (SetNonce sn pn)
  then show ?thesis
    by (simp add: dangerous_set_nonce_def convert_pub_nonce_def r_bind_Panic_iff)
qed (use assms in \<open>auto simp: generate_nonce_def initialize_session_def musig_inv_def
    aggregate_nonces_no_panic aggregate_nonces_ordered_no_panic partial_add_no_panic\<close>)

lemma is_ok_bind_Ok: "is_ok (r_bind m (\<lambda>x. Ok (f x))) \<longleftrightarrow> is_ok m"
  by (cases m) auto

lemma all_some_is_ok: "is_ok (r_mapM (ok_or e) xs) \<longleftrightarrow> (\<forall>x \<in> set xs. x \<noteq> None)"
proof (induction xs)
  case (Cons x xs)
  then show ?case by (cases x) (simp_all add: is_ok_bind_Ok)
qed simp

subsection \<open>Which participants have contributed\<close>

lemma distinct_position:
  "distinct xs \<longleftrightarrow> (\<forall>i < length xs. position (\<lambda>k. k = xs ! i) xs = Some i)"
proof
  assume d: "distinct xs"
  show "\<forall>i < length xs. position (\<lambda>k. k = xs ! i) xs = Some i"
  proof (intro allI impI)
    fix i assume i: "i < length xs"
    then obtain j where j: "position (\<lambda>k. k = xs ! i) xs = Some j"
      using position_exists [of "xs ! i" xs "\<lambda>k. k = xs ! i"] by auto
    then have "j < length xs" "xs ! j = xs ! i" using position_Some by blast+
    with d i j show "position (\<lambda>k. k = xs ! i) xs = Some i" by (simp add: nth_eq_iff_index_eq)
  qed
next
  assume a: "\<forall>i < length xs. position (\<lambda>k. k = xs ! i) xs = Some i"
  show "distinct xs" unfolding distinct_conv_nth
  proof (intro allI impI)
    fix i j assume "i < length xs" "j < length xs" "i \<noteq> j"
    with a show "xs ! i \<noteq> xs ! j" by (metis option.inject)
  qed
qed

text \<open>
  A slot is filled exactly when it is the first one of its key and its participant's signature was
  added, or it is ours and we have signed.
\<close>

definition contributed ::
  "('c, 's) musig_lib \<Rightarrow> musig_call list \<Rightarrow> ('c, 's) musig_builder \<Rightarrow> bytes \<Rightarrow> bool" where
  "contributed lib cs b pk \<longleftrightarrow>
     (\<exists>sig. PartialAdd pk sig \<in> set cs) \<or> (pk = mu_public_key lib (mb_key b) \<and> mb_signed b = Signed)"

definition slots_match :: "('c, 's) musig_lib \<Rightarrow> musig_call list \<Rightarrow> ('c, 's) musig_builder \<Rightarrow> bool" where
  "slots_match lib cs b \<longleftrightarrow>
     (\<forall>i < length (mb_pub_keys b). mb_partial_sigs b ! i \<noteq> None \<longleftrightarrow>
        position (\<lambda>k. k = mb_pub_keys b ! i) (mb_pub_keys b) = Some i
        \<and> contributed lib cs b (mb_pub_keys b ! i))"

lemma contributed_snoc:
  "contributed lib (cs @ [c]) b pk \<longleftrightarrow> contributed lib cs b pk \<or> (\<exists>sig. c = PartialAdd pk sig)"
  by (auto simp: contributed_def)

lemma partial_add_index:
  assumes "partial_add lib pk sig b = Ok b'"
  obtains i where "position (\<lambda>k. k = pk) (mb_pub_keys b) = Some i"
    "b' = b\<lparr>mb_partial_sigs := (mb_partial_sigs b)[i := Some sig]\<rparr>"
  using assms by (auto simp: partial_add_def set_partial_sig_def key_index_def split: if_splits)

lemma slots_match_fill:
  assumes match: "slots_match lib cs b" and i: "position (\<lambda>k. k = pk) (mb_pub_keys b) = Some i"
    and len: "length (mb_partial_sigs b) = length (mb_pub_keys b)"
    and b': "mb_pub_keys b' = mb_pub_keys b" "mb_partial_sigs b' = (mb_partial_sigs b)[i := Some sig]"
    and con: "\<And>k. contributed lib cs' b' k \<longleftrightarrow> contributed lib cs b k \<or> k = pk"
  shows "slots_match lib cs' b'"
  unfolding slots_match_def con b'
proof (intro allI impI)
  fix j assume j: "j < length (mb_pub_keys b)"
  show "((mb_partial_sigs b)[i := Some sig] ! j \<noteq> None) \<longleftrightarrow>
      position (\<lambda>k. k = mb_pub_keys b ! j) (mb_pub_keys b) = Some j
      \<and> (contributed lib cs b (mb_pub_keys b ! j) \<or> mb_pub_keys b ! j = pk)"
  proof (cases "j = i")
    case True
    with i position_Some [OF i] len j show ?thesis by auto
  next
    case False
    then have "position (\<lambda>k. k = pk) (mb_pub_keys b) \<noteq> Some j" using i by simp
    with match j False show ?thesis by (auto simp: slots_match_def)
  qed
qed

lemma musig_inv_length: "musig_inv lib b \<Longrightarrow> length (mb_partial_sigs b) = length (mb_pub_keys b)"
  by (simp add: musig_inv_def)

lemma partial_add_slots:
  assumes "musig_inv lib b" "slots_match lib cs b" "partial_add lib pk sig b = Ok b'"
  shows "slots_match lib (cs @ [PartialAdd pk sig]) b'"
proof -
  from assms(3) obtain i where i: "position (\<lambda>k. k = pk) (mb_pub_keys b) = Some i"
    and b': "b' = b\<lparr>mb_partial_sigs := (mb_partial_sigs b)[i := Some sig]\<rparr>"
    by (rule partial_add_index)
  have "contributed lib (cs @ [PartialAdd pk sig]) b' k \<longleftrightarrow> contributed lib cs b k \<or> k = pk" for k
    unfolding contributed_def b' by auto
  then show ?thesis
    by (rule slots_match_fill [OF assms(2) i musig_inv_length [OF assms(1)], rotated 2]) (simp_all add: b')
qed

lemma partial_sign_slots:
  assumes "musig_inv lib b" "mb_state b = SessionInitialized" "mb_signed b = Unsigned"
    and "slots_match lib cs b" and ok: "partial_sign lib b = Ok b'"
  shows "slots_match lib (cs @ [PartialSign]) b'"
proof -
  from assms(1-3) obtain i session sn pn where i: "our_slot lib b = Some i"
    and ok': "partial_sign lib b = Ok (b\<lparr>mb_partial_sigs := (mb_partial_sigs b)
       [i := Some (mu_partial_sign lib session sn (mb_key b) (mb_aggcache b))],
       mb_nonce := None, mb_state := SessionInitialized, mb_signed := Signed\<rparr>)"
    by (rule partial_sign_Ok)
  define sig where "sig = mu_partial_sign lib session sn (mb_key b) (mb_aggcache b)"
  from ok ok' have b': "b' = b\<lparr>mb_partial_sigs := (mb_partial_sigs b)[i := Some sig],
       mb_nonce := None, mb_state := SessionInitialized, mb_signed := Signed\<rparr>"
    by (simp add: sig_def)
  have "contributed lib (cs @ [PartialSign]) b' k
      \<longleftrightarrow> contributed lib cs b k \<or> k = mu_public_key lib (mb_key b)" for k
    unfolding contributed_def b' using assms(3) by auto
  then show ?thesis
    by (rule slots_match_fill [OF assms(4) i [unfolded our_slot_def] musig_inv_length [OF assms(1)],
          rotated 2]) (simp_all add: b')
qed

text \<open>Before the session, a call changes neither keys nor slots.\<close>

definition same_slots :: "('c, 's) musig_builder \<Rightarrow> ('c, 's) musig_builder \<Rightarrow> bool" where
  "same_slots b b' \<longleftrightarrow> mb_pub_keys b' = mb_pub_keys b \<and> mb_partial_sigs b' = mb_partial_sigs b
     \<and> mb_key b' = mb_key b \<and> (mb_signed b = Unsigned \<longrightarrow> mb_signed b' = Unsigned)"

lemma early_ops_same_slots:
  "xonly_tweak_add lib t b = Ok b' \<Longrightarrow> same_slots b b'"
  "same_slots b (set_message m b)"
  "generate_nonce lib r b = Ok b' \<Longrightarrow> same_slots b b'"
  "dangerous_set_nonce lib sn pn b = Ok b' \<Longrightarrow> same_slots b b'"
  "aggregate_nonces_ordered lib ns b = Ok b' \<Longrightarrow> same_slots b b'"
  "initialize_session lib b = Ok b' \<Longrightarrow> same_slots b b'"
  subgoal by (auto simp: xonly_tweak_add_def same_slots_def)
  subgoal by (simp add: set_message_def same_slots_def)
  subgoal by (auto simp: generate_nonce_def same_slots_def)
  subgoal by (auto simp: dangerous_set_nonce_def same_slots_def split: if_splits)
  subgoal by (drule aggregate_nonces_ordered_Ok) (simp add: same_slots_def)
  subgoal by (auto simp: initialize_session_def same_slots_def)
  done

lemma early_call:
  assumes "permitted c b" "mb_state b \<noteq> SessionInitialized" "musig_inv lib b" "run_call lib c b = Ok b'"
  shows "same_slots b b'" "mb_signed b = Unsigned" "mb_signed b' = Unsigned"
proof -
  show same: "same_slots b b'"
    using assms(1,2,4) by (cases c) (auto intro: early_ops_same_slots dest: aggregate_nonces_Ok)
  show "mb_signed b = Unsigned" using assms(2,3) by (simp add: musig_inv_def)
  with same show "mb_signed b' = Unsigned" by (simp add: same_slots_def)
qed

lemma run_call_slots:
  assumes "musig_inv lib b" "permitted c b" "run_call lib c b = Ok b'" "slots_match lib cs b"
  shows "slots_match lib (cs @ [c]) b'"
proof (cases "mb_state b = SessionInitialized")
  case True
  with assms show ?thesis by (cases c) (auto intro: partial_add_slots partial_sign_slots)
next
  case False
  note early = early_call [OF assms(2) False assms(1,3)]
  have "PartialAdd pk sig \<noteq> c" for pk sig using assms(2) False by auto
  with early have "contributed lib (cs @ [c]) b' k \<longleftrightarrow> contributed lib cs b k" for k
    by (auto simp: contributed_def)
  with early(1) assms(4) show ?thesis by (simp add: slots_match_def same_slots_def)
qed

lemma musig_run_slots: "musig_run lib cs b \<Longrightarrow> slots_match lib cs b"
proof (induction rule: musig_run.induct)
  case (start key pub_keys b)
  then show ?case
    by (auto simp: musig_setup_def slots_match_def contributed_def split: if_splits)
next
  case (step cs b c b')
  then show ?case using run_call_slots [OF musig_run_inv [OF step(1)]] by blast
qed

lemma partial_add_signed: "partial_add lib pk sig b = Ok b' \<Longrightarrow> mb_signed b' = mb_signed b"
  by (erule partial_add_index) simp

lemma partial_sign_signed: "partial_sign lib b = Ok b' \<Longrightarrow> mb_signed b' = Signed"
  by (auto simp: partial_sign_def)

lemma run_call_signed:
  assumes "musig_inv lib b" "permitted c b" "run_call lib c b = Ok b'"
  shows "mb_signed b' = (if c = PartialSign then Signed else mb_signed b)"
    and "c = PartialSign \<Longrightarrow> mb_signed b = Unsigned"
proof -
  show "mb_signed b' = (if c = PartialSign then Signed else mb_signed b)"
  proof (cases "mb_state b = SessionInitialized")
    case True
    with assms(2,3) show ?thesis
      by (cases c) (simp_all add: partial_add_signed partial_sign_signed)
  next
    case False
    with assms(2) early_call [OF assms(2) False assms(1,3)] show ?thesis by auto
  qed
  show "c = PartialSign \<Longrightarrow> mb_signed b = Unsigned" using assms(2) by simp
qed

lemma musig_run_sign_count:
  "musig_run lib cs b \<Longrightarrow> count_list cs PartialSign = (if mb_signed b = Signed then 1 else 0)"
proof (induction rule: musig_run.induct)
  case (start key pub_keys b)
  then show ?case by (auto simp: musig_setup_def split: if_splits)
next
  case (step cs b c b')
  with run_call_signed [OF musig_run_inv [OF step(1)] step(2,3)] show ?case
    by (auto simp: count_list_append)
qed

subsection \<open>What a session guarantees\<close>

text \<open>
  The type states make every \<open>expect\<close> of the builder unreachable. Along any sequence of calls
  that the phases permit, after any setup, no permitted call panics, and neither do the accessors
  in the states that offer them.
\<close>

theorem musig_never_panics:
  assumes "musig_run lib cs b"
  shows "(permitted c b \<longrightarrow> run_call lib c b \<noteq> Panic)
    \<and> (mb_state b = NonceGenerated \<longrightarrow> pub_nonce b \<noteq> Panic \<and> dangerous_secnonce b \<noteq> Panic)
    \<and> (mb_state b = SessionInitialized \<longrightarrow> partial_verify lib pk sig b \<noteq> Panic)
    \<and> (mb_signed b = Signed \<longrightarrow>
         (\<exists>sig. our_partial_signature lib b = Ok sig) \<and> partial_aggregate lib b \<noteq> Panic)"
proof -
  note inv = musig_run_inv [OF assms]
  have "pub_nonce b \<noteq> Panic \<and> dangerous_secnonce b \<noteq> Panic" if "mb_state b = NonceGenerated"
    using inv that by (auto simp: musig_inv_def pub_nonce_def dangerous_secnonce_def)
  moreover have "(\<exists>sig. our_partial_signature lib b = Ok sig) \<and> partial_aggregate lib b \<noteq> Panic"
    if "mb_signed b = Signed"
  proof
    have st: "mb_state b = SessionInitialized" using inv that by (auto simp: musig_inv_def)
    from inv show "\<exists>sig. our_partial_signature lib b = Ok sig"
      by (rule our_index_expect_Ok)
        (use inv that in \<open>auto simp: our_partial_signature_def musig_inv_def\<close>)
    have "r_mapM (ok_or MissingPartialSignature) (mb_partial_sigs b) \<noteq> Panic"
      by (rule r_mapM_no_panic) simp
    with inv st show "partial_aggregate lib b \<noteq> Panic"
      by (auto simp: partial_aggregate_def musig_inv_def r_bind_Panic_iff)
  qed
  ultimately show ?thesis
    using run_call_no_panic [OF inv] partial_verify_no_panic [OF inv] by blast
qed

text \<open>
  C10: A secret nonce signs at most once. In every session the number of partial signatures made
  is one if the builder is in the signed state and zero otherwise, and once it has signed the
  builder holds no nonce any more.
\<close>

theorem musig_nonce_single_use:
  assumes "musig_run lib cs b"
  shows "count_list cs PartialSign = (if mb_signed b = Signed then 1 else 0)
    \<and> (mb_signed b = Signed \<longrightarrow> mb_nonce b = None \<and> \<not> permitted PartialSign b)"
  using musig_run_sign_count [OF assms] musig_run_inv [OF assms] by (auto simp: musig_inv_def)

text \<open>The signatures that are combined.\<close>

definition verified_or_ours ::
  "('c, 's) musig_lib \<Rightarrow> ('c, 's) musig_builder \<Rightarrow> 's \<Rightarrow> bytes list \<Rightarrow> bytes list \<Rightarrow> bool" where
  "verified_or_ours lib b session nonces sigs \<longleftrightarrow>
     length sigs = num_participants b
     \<and> (\<forall>i < length sigs.
          mu_partial_verify lib session (mb_aggcache b) (sigs ! i) (nonces ! i) (mb_pub_keys b ! i)
          \<or> mb_pub_keys b ! i = mu_public_key lib (mb_key b))"

lemma aggregate_verified:
  assumes inv: "musig_inv lib b" and st: "mb_state b = SessionInitialized"
    and s: "mb_session b = Some session" "mb_pub_nonces b = Some nonces"
    and ok: "partial_aggregate lib b = Ok sig"
  shows "\<exists>sigs. sig = mu_partial_sig_agg lib session sigs \<and> verified_or_ours lib b session nonces sigs"
proof -
  from ok obtain sigs where sigs: "r_mapM (ok_or MissingPartialSignature) (mb_partial_sigs b) = Ok sigs"
    and sig: "sig = mu_partial_sig_agg lib session sigs"
    by (auto simp: partial_aggregate_def s)
  from inv have len: "length (mb_partial_sigs b) = length (mb_pub_keys b)" by (simp add: musig_inv_def)
  from sigs have some: "list_all2 (\<lambda>x y. x = Some y) (mb_partial_sigs b) sigs"
    by (simp add: r_mapM_Ok_iff)
  have "mu_partial_verify lib session (mb_aggcache b) (sigs ! i) (nonces ! i) (mb_pub_keys b ! i)
      \<or> mb_pub_keys b ! i = mu_public_key lib (mb_key b)" if "i < length sigs" for i
  proof -
    from some that have "mb_partial_sigs b ! i = Some (sigs ! i)" "i < length (mb_pub_keys b)"
      using len by (auto simp: list_all2_conv_all_nth)
    moreover from inv st this(2) have "slot_ok lib b i" by (simp add: musig_inv_def)
    ultimately show ?thesis by (auto simp: slot_ok_def s)
  qed
  moreover have "length sigs = num_participants b"
    using some len by (simp add: num_participants_def list_all2_lengthD)
  ultimately have "verified_or_ours lib b session nonces sigs" by (simp add: verified_or_ours_def)
  with sig show ?thesis by blast
qed

lemma aggregate_is_ok:
  assumes run: "musig_run lib cs b" and signed: "mb_signed b = Signed"
  shows "is_ok (partial_aggregate lib b) =
      (distinct (mb_pub_keys b) \<and>
       (\<forall>pk \<in> set (mb_pub_keys b) - {mu_public_key lib (mb_key b)}. \<exists>sig. PartialAdd pk sig \<in> set cs))"
proof -
  note inv = musig_run_inv [OF run] and slots = musig_run_slots [OF run]
  from inv signed obtain session where s: "mb_session b = Some session"
    and len: "length (mb_partial_sigs b) = length (mb_pub_keys b)"
    by (auto simp: musig_inv_def)
  let ?keys = "mb_pub_keys b" and ?us = "mu_public_key lib (mb_key b)"
  have "is_ok (partial_aggregate lib b) \<longleftrightarrow> (\<forall>x \<in> set (mb_partial_sigs b). x \<noteq> None)"
    using all_some_is_ok [of MissingPartialSignature "mb_partial_sigs b"]
    by (simp add: partial_aggregate_def s is_ok_bind_Ok)
  also have "\<dots> \<longleftrightarrow> (\<forall>i < length ?keys. position (\<lambda>k. k = ?keys ! i) ?keys = Some i
      \<and> contributed lib cs b (?keys ! i))"
    using slots by (simp add: slots_match_def all_set_conv_all_nth len)
  also have "\<dots> \<longleftrightarrow> distinct ?keys \<and> (\<forall>pk \<in> set ?keys. contributed lib cs b pk)"
    unfolding distinct_position all_set_conv_all_nth by blast
  also have "\<dots> \<longleftrightarrow> distinct ?keys \<and> (\<forall>pk \<in> set ?keys - {?us}. \<exists>sig. PartialAdd pk sig \<in> set cs)"
    using signed by (auto simp: contributed_def)
  finally show ?thesis .
qed

text \<open>
  Aggregation succeeds exactly when it can. In a signed session, \<open>partial_aggregate\<close> returns
  a signature if and only if no participant is listed twice and the partial signature of every
  other participant was added; and then it combines one signature per participant, each of which
  was verified against that participant's key and nonce or is our own.
\<close>

theorem musig_aggregate_complete:
  assumes "musig_run lib cs b" and "mb_signed b = Signed"
  shows "is_ok (partial_aggregate lib b) =
      (distinct (mb_pub_keys b) \<and>
       (\<forall>pk \<in> set (mb_pub_keys b) - {mu_public_key lib (mb_key b)}. \<exists>sig. PartialAdd pk sig \<in> set cs))
    \<and> (\<forall>sig. partial_aggregate lib b = Ok sig \<longrightarrow>
        (\<exists>session nonces sigs. mb_session b = Some session \<and> mb_pub_nonces b = Some nonces
           \<and> sig = mu_partial_sig_agg lib session sigs
           \<and> verified_or_ours lib b session nonces sigs))"
proof -
  note inv = musig_run_inv [OF assms(1)]
  from inv assms(2) obtain session nonces where "mb_state b = SessionInitialized"
    "mb_session b = Some session" "mb_pub_nonces b = Some nonces"
    by (auto simp: musig_inv_def)
  with aggregate_is_ok [OF assms] aggregate_verified [OF inv] show ?thesis by blast
qed

lemma ordered_nonce_map_of:
  "ordered_nonce ns k = (case map_of ns k of Some n \<Rightarrow> Ok n | None \<Rightarrow> Err (NonceNotFoundForKey k))"
  by (induction ns) (auto simp: ordered_nonce_def)

lemma ordered_nonce_perm:
  assumes "distinct (map fst ns)" and "mset ns = mset ms"
  shows "ordered_nonce ns = ordered_nonce ms"
proof
  fix k
  have "mset (map fst ns) = mset (map fst ms)" using assms(2) by simp
  then have "distinct (map fst ms)" using assms(1) mset_eq_imp_distinct_iff by blast
  moreover have "set ns = set ms" using assms(2) by (metis set_mset_mset)
  ultimately have "map_of ns = map_of ms" using assms(1) by (simp add: map_of_inject_set)
  then show "ordered_nonce ns k = ordered_nonce ms k" by (simp add: ordered_nonce_map_of)
qed

text \<open>
  The order in which co-signers report their nonces does not matter. Two lists with the same
  nonces in different order, one per key, lead to the same result of \<open>aggregate_nonces\<close>, errors
  included.
\<close>

theorem musig_nonce_order:
  assumes "distinct (map fst ns)" and "mset ns = mset ms"
  shows "aggregate_nonces lib ns b = aggregate_nonces lib ms b"
proof -
  let ?pk = "mu_public_key lib (mb_key b)"
  have len: "length ns = length ms" using assms(2) by (metis size_mset)
  have ex: "list_ex (\<lambda>(pk, _). pk = ?pk) ns = list_ex (\<lambda>(pk, _). pk = ?pk) ms"
    unfolding list_ex_iff using assms(2) by (metis set_mset_mset)
  have app: "ordered_nonce (ns @ [(?pk, n)]) = ordered_nonce (ms @ [(?pk, n)])"
    if "\<not> list_ex (\<lambda>(pk, _). pk = ?pk) ns" for n
    using that assms by (intro ordered_nonce_perm) (auto simp: list_ex_iff)
  show ?thesis
    unfolding aggregate_nonces_def ex [symmetric]
    using ordered_nonce_perm [OF assms] app len by (simp split: option.splits prod.splits)
qed

subsection \<open>Witnesses\<close>

text \<open>A session of two participants; a key is its own public key and signs with itself.\<close>

fun exec_calls ::
  "('c, 's) musig_lib \<Rightarrow> musig_call list \<Rightarrow> ('c, 's) musig_builder \<Rightarrow> ('c, 's) musig_builder option"
where
  "exec_calls lib [] b = Some b"
| "exec_calls lib (c # cs) b =
     (if permitted c b
      then (case run_call lib c b of Ok b' \<Rightarrow> exec_calls lib cs b' | _ \<Rightarrow> None) else None)"

lemma exec_calls_run:
  "musig_run lib ds b \<Longrightarrow> exec_calls lib cs b = Some b' \<Longrightarrow> musig_run lib (ds @ cs) b'"
proof (induction cs arbitrary: ds b)
  case Nil
  then show ?case by simp
next
  case (Cons c cs)
  from Cons.prems(2) obtain b1 where c: "permitted c b" "run_call lib c b = Ok b1"
    and rest: "exec_calls lib cs b1 = Some b'"
    by (auto split: if_splits result.splits)
  from Cons.IH [OF musig_run.step [OF Cons.prems(1) c] rest] show ?case by simp
qed

definition example_musig :: "(unit, unit) musig_lib" where
  "example_musig = \<lparr>mu_public_key = id, mu_key_agg = (\<lambda>_. ()), mu_agg_pk = (\<lambda>_. []),
     mu_xonly_tweak_add = (\<lambda>c t. Some ()), mu_nonce_gen = (\<lambda>c r pk m. (r, pk)),
     mu_secnonce_len = 132, mu_pub_nonce_parse = Some, mu_agg_nonce = concat,
     mu_session_new = (\<lambda>c n m. ()), mu_partial_sign = (\<lambda>s n k c. k),
     mu_partial_verify = (\<lambda>s c sig n pk. sig = pk), mu_partial_sig_agg = (\<lambda>s. concat)\<rparr>"

definition example_calls :: "musig_call list" where
  "example_calls = [TweakAdd [5], Message [7], GenerateNonce [9], AggregateNonces [([2], [2])],
     InitializeSession, PartialSign, PartialAdd [2] [2]]"

definition example_session :: "(unit, unit) musig_builder" where
  "example_session = \<lparr>mb_key = [1], mb_msg = Some [7], mb_nonce = None, mb_aggcache = (),
     mb_pub_keys = [[1], [2]], mb_pub_nonces = Some [[1], [2]], mb_aggnonce = Some [1, 2],
     mb_session = Some (), mb_partial_sigs = [Some [1], Some [2]],
     mb_state = SessionInitialized, mb_signed = Signed\<rparr>"

lemma example_exec:
  "case musig_setup example_musig [1] [[1], [2]] of
     Ok b \<Rightarrow> exec_calls example_musig example_calls b = Some example_session | _ \<Rightarrow> False"
  by code_simp

lemma example_run: "musig_run example_musig example_calls example_session"
proof -
  from example_exec obtain b where b: "musig_setup example_musig [1] [[1], [2]] = Ok b"
    and "exec_calls example_musig example_calls b = Some example_session"
    by (auto split: result.splits)
  from exec_calls_run [OF musig_run.start [OF b] this(2)] show ?thesis by simp
qed

theorem musig_never_panics_witness:
  "run_call example_musig (PartialAdd [1] [1]) example_session \<noteq> Panic
   \<and> partial_aggregate example_musig example_session \<noteq> Panic"
  using musig_never_panics [OF example_run, of "PartialAdd [1] [1]"]
  by (simp add: example_session_def)

theorem musig_nonce_single_use_witness:
  "count_list example_calls PartialSign = 1 \<and> mb_nonce example_session = None"
  using musig_nonce_single_use [OF example_run] by (simp add: example_session_def)

theorem musig_aggregate_complete_witness:
  "is_ok (partial_aggregate example_musig example_session)"
proof -
  have "mb_signed example_session = Signed" by (simp add: example_session_def)
  from conjunct1 [OF musig_aggregate_complete [OF example_run this]] show ?thesis
    by (simp add: example_session_def example_musig_def example_calls_def)
qed

theorem musig_nonce_order_witness:
  "aggregate_nonces example_musig [([1], [4]), ([2], [3])] example_session
     = aggregate_nonces example_musig [([2], [3]), ([1], [4])] example_session"
  by (rule musig_nonce_order) simp_all

end
