(* ===== verification/Swap_Details.thy ===== *)
theory Swap_Details
  imports Swap_Types Asset_Rescue_Tx Musig
begin

text \<open>
  The inputs with which the service claims and refunds: \<open>claim_details\<close> and \<open>refund_details\<close> of
  \<open>src/boltzr/src/db/models/swap.rs\<close>, \<open>reverse_swap.rs\<close> and \<open>chain_swap.rs\<close>. The wallet and the
  chain client are trait objects the functions take as arguments; here they are the record
  \<open>wallet\<close> and the function from a transaction id to the hexadecimal transaction. Decoding and
  parsing of the libraries is the record \<open>details_lib\<close>, and the cryptography of the aggregated
  key is the \<open>musig_lib\<close> of the signing sessions. A key pair is identified with its secret key,
  an extended private key with the secret key it holds.
\<close>

record wallet =
  w_decode_address :: "string \<Rightarrow> bytes option"
  w_derive_keys :: "u64 \<Rightarrow> keypair option"
  w_derive_blinding_key :: "bytes \<Rightarrow> bytes option"

record details_lib =
  dl_hex_decode :: "string \<Rightarrow> bytes option"
  dl_txid_parse :: "string \<Rightarrow> bytes option"
  dl_secret_key :: "bytes \<Rightarrow> keypair option"
  dl_pub_key :: "bytes \<Rightarrow> bytes option"
  dl_xonly :: "bytes \<Rightarrow> bytes option"
  dl_script_from_bytes :: "bytes \<Rightarrow> script"
  dl_parse_tree :: "string \<Rightarrow> tree option"
  dl_el_script_from_bytes :: "bytes \<Rightarrow> script"
  dl_el_parse_tree :: "string \<Rightarrow> el_tree option"
  dl_el_deserialize :: "bytes \<Rightarrow> el_transaction option"

datatype details_error =
    Missing string | DHex | DTxid | DPreimage | DSecretKey | DPublicKey | DXOnly | DTree | DTx
  | DWallet | DClient | DOutputNotFound | DRedeemScript
  | DPair pair_error | DModel model_error | DMusig musig_error
  | SubmarineNotRefundable | ReverseNotClaimable

definition ELEMENTS_SYMBOL :: string where
  "ELEMENTS_SYMBOL = ''L-BTC''"

text \<open>\<open>Option::context\<close>.\<close>

definition context_of :: "string \<Rightarrow> 'a option \<Rightarrow> (details_error, 'a) result" where
  "context_of what = ok_or (Missing what)"

subsection \<open>Shared pieces\<close>

text \<open>
  The macro \<open>aggregate_musig_key\<close>: our key first, theirs second. Their public key is an expression
  with a \<open>?\<close> that is evaluated at its place in the macro.
\<close>

definition aggregate_musig_key ::
  "('c, 's) musig_lib \<Rightarrow> details_lib \<Rightarrow> keypair \<Rightarrow> (details_error, string) result
    \<Rightarrow> (details_error, bytes) result" where
  "aggregate_musig_key mu dl ks their_key =
     r_bind (ok_or DSecretKey (dl_secret_key dl ks)) (\<lambda>key.
     r_bind (ok_or DPublicKey (dl_pub_key dl (mu_public_key mu ks))) (\<lambda>ours.
     r_bind their_key (\<lambda>hex_key.
     r_bind (ok_or DHex (dl_hex_decode dl hex_key)) (\<lambda>raw.
     r_bind (ok_or DPublicKey (dl_pub_key dl raw)) (\<lambda>theirs.
     r_bind (r_map_err DMusig (musig_setup mu key [ours, theirs])) (\<lambda>b.
       Ok (agg_pk mu b)))))))"

text \<open>\<open>hex::decode(preimage)?.as_slice().try_into()?\<close> into 32 bytes.\<close>

definition claim_input_type :: "details_lib \<Rightarrow> string option \<Rightarrow> (details_error, input_type) result" where
  "claim_input_type dl preimage =
     r_bind (context_of ''preimage not found'' preimage) (\<lambda>p.
     r_bind (ok_or DHex (dl_hex_decode dl p)) (\<lambda>raw.
       if length raw = 32 then Ok (Claim raw) else Err DPreimage))"

definition taproot_details ::
  "('c, 's) musig_lib \<Rightarrow> details_lib \<Rightarrow> keypair \<Rightarrow> string option \<Rightarrow> (details_error, string) result
    \<Rightarrow> (details_error, uncooperative_details) result" where
  "taproot_details mu dl ks redeem_script their_key =
     r_bind (context_of ''swap tree not found'' redeem_script) (\<lambda>json.
     r_bind (ok_or DTree (dl_parse_tree dl json)) (\<lambda>t.
     r_bind (aggregate_musig_key mu dl ks their_key) (\<lambda>agg.
     r_bind (ok_or DXOnly (dl_xonly dl agg)) (\<lambda>k.
       Ok \<lparr>swap_tree_of = t, internal_key = k\<rparr>))))"

definition el_taproot_details ::
  "('c, 's) musig_lib \<Rightarrow> details_lib \<Rightarrow> keypair \<Rightarrow> string option \<Rightarrow> (details_error, string) result
    \<Rightarrow> (details_error, el_uncooperative_details) result" where
  "el_taproot_details mu dl ks redeem_script their_key =
     r_bind (context_of ''swap tree not found'' redeem_script) (\<lambda>json.
     r_bind (ok_or DTree (dl_el_parse_tree dl json)) (\<lambda>t.
     r_bind (aggregate_musig_key mu dl ks their_key) (\<lambda>agg.
     r_bind (ok_or DXOnly (dl_xonly dl agg)) (\<lambda>k.
       Ok \<lparr>el_swap_tree_of = t, el_internal_key = k\<rparr>))))"

text \<open>The match on the version; \<open>legacy\<close> is the constructor the swap kind uses for old scripts.\<close>

definition bitcoin_output_kind ::
  "('c, 's) musig_lib \<Rightarrow> details_lib
    \<Rightarrow> (script \<Rightarrow> (uncooperative_details option, script) output_type)
    \<Rightarrow> i32 \<Rightarrow> keypair \<Rightarrow> string option \<Rightarrow> (details_error, string) result
    \<Rightarrow> (details_error, (uncooperative_details option, script) output_type) result" where
  "bitcoin_output_kind mu dl legacy v ks redeem_script their_key =
     r_bind (r_map_err DModel (swap_version_try_from v)) (\<lambda>version.
     case version of
       VersionLegacy \<Rightarrow>
         r_bind (context_of ''redeem script not found'' redeem_script) (\<lambda>s.
         r_bind (ok_or DHex (dl_hex_decode dl s)) (\<lambda>raw. Ok (legacy (dl_script_from_bytes dl raw))))
     | VersionTaproot \<Rightarrow>
         r_map (\<lambda>u. Taproot (Some u)) (taproot_details mu dl ks redeem_script their_key))"

definition elements_output_kind ::
  "('c, 's) musig_lib \<Rightarrow> details_lib \<Rightarrow> i32 \<Rightarrow> keypair \<Rightarrow> string option
    \<Rightarrow> (details_error, string) result
    \<Rightarrow> (details_error, (el_uncooperative_details option, script) output_type) result" where
  "elements_output_kind mu dl v ks redeem_script their_key =
     r_bind (r_map_err DModel (swap_version_try_from v)) (\<lambda>version.
     case version of
       VersionLegacy \<Rightarrow>
         r_bind (context_of ''redeem script not found'' redeem_script) (\<lambda>s.
         r_bind (ok_or DRedeemScript (dl_hex_decode dl s)) (\<lambda>raw.
           Ok (SegwitV0 (dl_el_script_from_bytes dl raw))))
     | VersionTaproot \<Rightarrow>
         r_map (\<lambda>u. Taproot (Some u)) (el_taproot_details mu dl ks redeem_script their_key))"

text \<open>The Bitcoin input of a lockup; \<open>value\<close> is evaluated after the address.\<close>

definition bitcoin_detail ::
  "details_lib \<Rightarrow> wallet \<Rightarrow> keypair \<Rightarrow> (uncooperative_details option, script) output_type \<Rightarrow> input_type
    \<Rightarrow> string option \<Rightarrow> i32 option \<Rightarrow> string \<Rightarrow> (details_error, u64) result
    \<Rightarrow> (details_error, wrapper_input) result" where
  "bitcoin_detail dl w ks output_type input_type tx_id tx_vout address value =
     r_bind (context_of ''lockup transaction id not found'' tx_id) (\<lambda>i.
     r_bind (ok_or DTxid (dl_txid_parse dl i)) (\<lambda>txid.
     r_bind (context_of ''lockup transaction vout not found'' tx_vout) (\<lambda>v.
     r_bind (ok_or DWallet (w_decode_address w address)) (\<lambda>script_pubkey.
     r_bind value (\<lambda>a.
       Ok (BitcoinInput \<lparr>input_kind = input_type, output_kind = output_type,
         prev_outpoint = \<lparr>txid = txid, vout = v\<rparr>,
         prev_out = \<lparr>amount = a, out_script = script_pubkey\<rparr>, keys = ks\<rparr>))))))"

text \<open>
  The Elements input: the lockup transaction is fetched before the output type \<open>output_type\<close> is
  computed, and the previous output is taken from it.
\<close>

definition elements_detail ::
  "details_lib \<Rightarrow> wallet \<Rightarrow> (string \<Rightarrow> string option) \<Rightarrow> keypair
    \<Rightarrow> (details_error, (el_uncooperative_details option, script) output_type) result \<Rightarrow> input_type
    \<Rightarrow> string option \<Rightarrow> i32 option \<Rightarrow> string \<Rightarrow> (details_error, wrapper_input) result" where
  "elements_detail dl w raw_transaction ks output_type input_type tx_id tx_vout address =
     r_bind (context_of ''lockup transaction id not found'' tx_id) (\<lambda>i.
     r_bind (context_of ''lockup transaction vout not found'' tx_vout) (\<lambda>v.
     r_bind (ok_or DClient (raw_transaction i)) (\<lambda>tx_hex.
     r_bind (ok_or DHex (dl_hex_decode dl tx_hex)) (\<lambda>raw.
     r_bind (ok_or DTx (dl_el_deserialize dl raw)) (\<lambda>lockup_tx.
     r_bind output_type (\<lambda>output_type.
     r_bind (ok_or DTxid (dl_txid_parse dl i)) (\<lambda>txid.
     r_bind (ok_or DWallet (w_decode_address w address)) (\<lambda>script_pubkey.
     r_bind (ok_or DWallet (w_derive_blinding_key w script_pubkey)) (\<lambda>blinding.
     r_bind (ok_or DSecretKey (dl_secret_key dl blinding)) (\<lambda>blinding_key.
     r_bind (if unat v < length (el_outputs lockup_tx) then Ok (el_outputs lockup_tx ! unat v)
             else Err DOutputNotFound) (\<lambda>tx_out.
       Ok (ElementsInput \<lparr>el_input_kind = input_type, el_output_kind = output_type,
         el_outpoint = \<lparr>txid = txid, vout = v\<rparr>, el_prev_out = tx_out,
         el_blinding_key = Some blinding_key, el_keys = ks\<rparr>))))))))))))"

definition derive_swap_keys :: "wallet \<Rightarrow> i32 option \<Rightarrow> (details_error, keypair) result" where
  "derive_swap_keys w index =
     r_bind (context_of ''key index not found'' index) (\<lambda>k.
       ok_or DWallet (w_derive_keys w (scast k)))"

subsection \<open>The three kinds of swap\<close>

definition sw_claim_details ::
  "('c, 's) musig_lib \<Rightarrow> details_lib \<Rightarrow> wallet \<Rightarrow> (string \<Rightarrow> string option) \<Rightarrow> swap
    \<Rightarrow> (details_error, wrapper_input) result" where
  "sw_claim_details mu dl w client s =
     r_bind (derive_swap_keys w (sw_key_index s)) (\<lambda>ks.
     r_bind (claim_input_type dl (sw_preimage s)) (\<lambda>input_type.
     r_bind (r_map_err DPair (sw_chain_symbol s)) (\<lambda>symbol.
     let their_key = context_of ''refund public key not found'' (sw_refund_public_key s)
     in if symbol \<noteq> ELEMENTS_SYMBOL then
       r_bind (bitcoin_output_kind mu dl Compatibility (sw_version s) ks (sw_redeem_script s) their_key)
         (\<lambda>output_type.
           bitcoin_detail dl w ks output_type input_type (sw_lockup_transaction_id s)
             (sw_lockup_transaction_vout s) (sw_lockup_address s)
             (context_of ''onchain amount not found'' (sw_onchain_amount s)))
     else
       r_bind (ok_or DSecretKey (dl_secret_key dl ks)) (\<lambda>ks.
         elements_detail dl w client ks
           (elements_output_kind mu dl (sw_version s) ks (sw_redeem_script s) their_key)
           input_type (sw_lockup_transaction_id s) (sw_lockup_transaction_vout s)
           (sw_lockup_address s)))))"

definition sw_refund_details :: "swap \<Rightarrow> (details_error, wrapper_input) result" where
  "sw_refund_details s = Err SubmarineNotRefundable"

definition rs_claim_details :: "reverse_swap \<Rightarrow> (details_error, wrapper_input) result" where
  "rs_claim_details s = Err ReverseNotClaimable"

definition rs_refund_details ::
  "('c, 's) musig_lib \<Rightarrow> details_lib \<Rightarrow> wallet \<Rightarrow> (string \<Rightarrow> string option) \<Rightarrow> reverse_swap
    \<Rightarrow> (details_error, wrapper_input) result" where
  "rs_refund_details mu dl w client s =
     r_bind (derive_swap_keys w (rs_key_index s)) (\<lambda>ks.
     let input_type = Refund (rs_timeout_block_height s) in
     r_bind (r_map_err DPair (rs_chain_symbol s)) (\<lambda>symbol.
     let their_key = context_of ''claim public key not found'' (rs_claim_public_key s)
     in if symbol \<noteq> ELEMENTS_SYMBOL then
       r_bind (bitcoin_output_kind mu dl SegwitV0 (rs_version s) ks (rs_redeem_script s) their_key)
         (\<lambda>output_type.
           bitcoin_detail dl w ks output_type input_type (rs_transaction_id s)
             (rs_transaction_vout s) (rs_lockup_address s) (Ok (rs_onchain_amount s)))
     else
       r_bind (ok_or DSecretKey (dl_secret_key dl ks)) (\<lambda>ks.
         elements_detail dl w client ks
           (elements_output_kind mu dl (rs_version s) ks (rs_redeem_script s) their_key)
           input_type (rs_transaction_id s) (rs_transaction_vout s) (rs_lockup_address s))))"

text \<open>A chain swap aggregates the key before it looks at the symbol, and always uses Taproot.\<close>

definition create_input_detail ::
  "('c, 's) musig_lib \<Rightarrow> details_lib \<Rightarrow> wallet \<Rightarrow> (string \<Rightarrow> string option) \<Rightarrow> input_type
    \<Rightarrow> chain_swap_data \<Rightarrow> (details_error, wrapper_input) result" where
  "create_input_detail mu dl w client input_type data =
     r_bind (derive_swap_keys w (cd_key_index data)) (\<lambda>ks.
     r_bind (aggregate_musig_key mu dl ks
       (context_of ''their public key not found'' (cd_their_public_key data))) (\<lambda>agg.
     if cd_symbol data \<noteq> ELEMENTS_SYMBOL then
       r_bind (context_of ''swap tree not found'' (cd_swap_tree data)) (\<lambda>json.
       r_bind (ok_or DTree (dl_parse_tree dl json)) (\<lambda>t.
       r_bind (ok_or DXOnly (dl_xonly dl agg)) (\<lambda>k.
         bitcoin_detail dl w ks (Taproot (Some \<lparr>swap_tree_of = t, internal_key = k\<rparr>)) input_type
           (cd_transaction_id data) (cd_transaction_vout data) (cd_lockup_address data)
           (context_of ''amount not found'' (cd_amount data)))))
     else
       r_bind (ok_or DSecretKey (dl_secret_key dl ks)) (\<lambda>ks.
         elements_detail dl w client ks
           (r_bind (context_of ''swap tree not found'' (cd_swap_tree data)) (\<lambda>json.
            r_bind (ok_or DTree (dl_el_parse_tree dl json)) (\<lambda>t.
            r_bind (ok_or DXOnly (dl_xonly dl agg)) (\<lambda>k.
              Ok (Taproot (Some \<lparr>el_swap_tree_of = t, el_internal_key = k\<rparr>))))))
           input_type (cd_transaction_id data) (cd_transaction_vout data) (cd_lockup_address data))))"

definition ci_claim_details ::
  "('c, 's) musig_lib \<Rightarrow> details_lib \<Rightarrow> wallet \<Rightarrow> (string \<Rightarrow> string option) \<Rightarrow> chain_swap_info
    \<Rightarrow> (details_error, wrapper_input) result" where
  "ci_claim_details mu dl w client c =
     r_bind (claim_input_type dl (cs_preimage (ci_swap c))) (\<lambda>input_type.
       create_input_detail mu dl w client input_type (ci_receiving c))"

definition ci_refund_details ::
  "('c, 's) musig_lib \<Rightarrow> details_lib \<Rightarrow> wallet \<Rightarrow> (string \<Rightarrow> string option) \<Rightarrow> chain_swap_info
    \<Rightarrow> (details_error, wrapper_input) result" where
  "ci_refund_details mu dl w client c =
     create_input_detail mu dl w client (Refund (cd_timeout_block_height (ci_sending c))) (ci_sending c)"

subsection \<open>What the inputs refer to\<close>

text \<open>
  The columns of a swap that locate a lockup output, and what it means for an input to spend it:
  on the chain of the symbol, at the stored outpoint, with the wallet key of the stored index. On
  Bitcoin the spent script is the one of the lockup address; on Liquid the spent output is read
  from the lockup transaction, and the blinding key is the one of the lockup address.
\<close>

record lockup_columns =
  lc_symbol :: string
  lc_key_index :: "i32 option"
  lc_transaction_id :: "string option"
  lc_vout :: "i32 option"
  lc_address :: string

fun wrapper_input_kind :: "wrapper_input \<Rightarrow> input_type" where
  "wrapper_input_kind (BitcoinInput i) = input_kind i"
| "wrapper_input_kind (ElementsInput i) = el_input_kind i"

fun wrapper_outpoint :: "wrapper_input \<Rightarrow> outpoint" where
  "wrapper_outpoint (BitcoinInput i) = prev_outpoint i"
| "wrapper_outpoint (ElementsInput i) = el_outpoint i"

fun wrapper_keys :: "wrapper_input \<Rightarrow> keypair" where
  "wrapper_keys (BitcoinInput i) = keys i"
| "wrapper_keys (ElementsInput i) = el_keys i"

fun on_chain_of ::
  "details_lib \<Rightarrow> wallet \<Rightarrow> (string \<Rightarrow> string option) \<Rightarrow> lockup_columns \<Rightarrow> wrapper_input \<Rightarrow> bool" where
  "on_chain_of dl w client c (BitcoinInput i) =
     (lc_symbol c \<noteq> ELEMENTS_SYMBOL
      \<and> w_decode_address w (lc_address c) = Some (out_script (prev_out i)))"
| "on_chain_of dl w client c (ElementsInput i) =
     (lc_symbol c = ELEMENTS_SYMBOL
      \<and> (\<exists>tx. Option.bind (Option.bind (Option.bind (lc_transaction_id c) client) (dl_hex_decode dl))
               (dl_el_deserialize dl) = Some tx
          \<and> unat (vout (el_outpoint i)) < length (el_outputs tx)
          \<and> el_prev_out i = el_outputs tx ! unat (vout (el_outpoint i)))
      \<and> Option.bind (Option.bind (w_decode_address w (lc_address c)) (w_derive_blinding_key w))
           (dl_secret_key dl) = el_blinding_key i)"

definition spends_lockup ::
  "details_lib \<Rightarrow> wallet \<Rightarrow> (string \<Rightarrow> string option) \<Rightarrow> lockup_columns \<Rightarrow> wrapper_input \<Rightarrow> bool" where
  "spends_lockup dl w client c d \<longleftrightarrow>
     on_chain_of dl w client c d
     \<and> Option.bind (lc_transaction_id c) (dl_txid_parse dl) = Some (txid (wrapper_outpoint d))
     \<and> lc_vout c = Some (vout (wrapper_outpoint d))
     \<and> (\<exists>k ks. lc_key_index c = Some k \<and> w_derive_keys w (scast k) = Some ks
          \<and> (wrapper_keys d = ks \<or> dl_secret_key dl ks = Some (wrapper_keys d)))"

lemma context_of_Ok_iff [simp]: "context_of what x = Ok y \<longleftrightarrow> x = Some y"
  by (simp add: context_of_def)

lemma derive_swap_keys_Ok_iff [simp]:
  "derive_swap_keys w i = Ok ks \<longleftrightarrow> (\<exists>k. i = Some k \<and> w_derive_keys w (scast k) = Some ks)"
  by (auto simp: derive_swap_keys_def)

lemma bitcoin_detail_spends:
  assumes "bitcoin_detail dl w ks output_type kind tx_id tx_vout address value = Ok d"
    and "lc_symbol c \<noteq> ELEMENTS_SYMBOL" and "lc_transaction_id c = tx_id" and "lc_vout c = tx_vout"
    and "lc_address c = address" and "lc_key_index c = Some k" and "w_derive_keys w (scast k) = Some ks"
  shows "spends_lockup dl w client c d \<and> wrapper_input_kind d = kind"
  using assms by (auto simp: bitcoin_detail_def spends_lockup_def)

lemma elements_detail_spends:
  assumes "elements_detail dl w client ks' output_type kind tx_id tx_vout address = Ok d"
    and "lc_symbol c = ELEMENTS_SYMBOL" and "lc_transaction_id c = tx_id" and "lc_vout c = tx_vout"
    and "lc_address c = address" and "lc_key_index c = Some k" and "w_derive_keys w (scast k) = Some ks"
    and "dl_secret_key dl ks = Some ks'"
  shows "spends_lockup dl w client c d \<and> wrapper_input_kind d = kind"
  using assms by (auto simp: elements_detail_def spends_lockup_def split: if_splits)

text \<open>A transaction id is written as the hexadecimal form of its bytes in reverse order.\<close>

definition txid_displayed_reversed :: "details_lib \<Rightarrow> bool" where
  "txid_displayed_reversed dl \<longleftrightarrow>
     (\<forall>i x. dl_txid_parse dl i = Some x \<longrightarrow> dl_hex_decode dl i = Some (rev x))"

text \<open>The contract that the claim and the refund details share.\<close>

locale lockup_spender =
  fixes details :: "'s \<Rightarrow> (details_error, wrapper_input) result"
    and columns :: "'s \<Rightarrow> lockup_columns"
    and kind :: "'s \<Rightarrow> input_type \<Rightarrow> bool"
    and dl :: details_lib and w :: wallet and client :: "string \<Rightarrow> string option"
  assumes spends: "details s = Ok d \<Longrightarrow> spends_lockup dl w client (columns s) d"
    and kind_of: "details s = Ok d \<Longrightarrow> kind s (wrapper_input_kind d)"
begin

text \<open>An input exists only for a stored outpoint and key, and identifies the outpoint.\<close>

lemma outpoint_agrees:
  assumes "details s = Ok d"
    and "txid_displayed_reversed dl"
  shows "outpoint_of (dl_hex_decode dl) (lc_transaction_id (columns s)) (lc_vout (columns s))
    = Ok (Some \<lparr>op_hash = txid (wrapper_outpoint d), op_vout = vout (wrapper_outpoint d)\<rparr>)"
proof -
  have "spends_lockup dl w client (columns s) d" using assms(1) by (rule spends)
  then obtain i where i: "lc_transaction_id (columns s) = Some i"
    "dl_txid_parse dl i = Some (txid (wrapper_outpoint d))"
    "lc_vout (columns s) = Some (vout (wrapper_outpoint d))"
    unfolding spends_lockup_def by (auto simp: bind_eq_Some_conv)
  then have "dl_hex_decode dl i = Some (rev (txid (wrapper_outpoint d)))"
    using assms(2) by (simp add: txid_displayed_reversed_def)
  with i show ?thesis by (simp add: outpoint_of_def)
qed

lemma chain_of_symbol:
  assumes "details s = Ok d"
  shows "(lc_symbol (columns s) = ELEMENTS_SYMBOL) = (\<exists>i. d = ElementsInput i)"
  using spends [OF assms] by (cases d) (auto simp: spends_lockup_def)

end

text \<open>The columns of the three kinds of swap.\<close>

fun symbol_or_empty :: "(pair_error, string) result \<Rightarrow> string" where
  "symbol_or_empty (Ok s) = s"
| "symbol_or_empty _ = []"

definition sw_columns :: "swap \<Rightarrow> lockup_columns" where
  "sw_columns s = \<lparr>lc_symbol = symbol_or_empty (sw_chain_symbol s), lc_key_index = sw_key_index s,
     lc_transaction_id = sw_lockup_transaction_id s, lc_vout = sw_lockup_transaction_vout s,
     lc_address = sw_lockup_address s\<rparr>"

definition rs_columns :: "reverse_swap \<Rightarrow> lockup_columns" where
  "rs_columns s = \<lparr>lc_symbol = symbol_or_empty (rs_chain_symbol s), lc_key_index = rs_key_index s,
     lc_transaction_id = rs_transaction_id s, lc_vout = rs_transaction_vout s,
     lc_address = rs_lockup_address s\<rparr>"

definition cd_columns :: "chain_swap_data \<Rightarrow> lockup_columns" where
  "cd_columns data = \<lparr>lc_symbol = cd_symbol data, lc_key_index = cd_key_index data,
     lc_transaction_id = cd_transaction_id data, lc_vout = cd_transaction_vout data,
     lc_address = cd_lockup_address data\<rparr>"

definition claims_with :: "details_lib \<Rightarrow> string option \<Rightarrow> input_type \<Rightarrow> bool" where
  "claims_with dl preimage kind \<longleftrightarrow>
     (\<exists>p. Option.bind preimage (dl_hex_decode dl) = Some p \<and> length p = 32 \<and> kind = Claim p)"

lemma claim_input_type_Ok: "claim_input_type dl preimage = Ok kind \<Longrightarrow> claims_with dl preimage kind"
  by (auto simp: claim_input_type_def claims_with_def split: if_splits)

lemma sw_claim_details_spends:
  assumes "sw_claim_details mu dl w client s = Ok d"
  shows "spends_lockup dl w client (sw_columns s) d
    \<and> claims_with dl (sw_preimage s) (wrapper_input_kind d)"
proof -
  from assms obtain ks kind symbol where k: "derive_swap_keys w (sw_key_index s) = Ok ks"
    "claim_input_type dl (sw_preimage s) = Ok kind" "sw_chain_symbol s = Ok symbol"
    by (auto simp: sw_claim_details_def)
  have c: "lc_symbol (sw_columns s) = symbol" "lc_transaction_id (sw_columns s) = sw_lockup_transaction_id s"
    "lc_vout (sw_columns s) = sw_lockup_transaction_vout s" "lc_address (sw_columns s) = sw_lockup_address s"
    "lc_key_index (sw_columns s) = sw_key_index s"
    by (simp_all add: sw_columns_def k(3))
  from k(1) obtain i where i: "sw_key_index s = Some i" "w_derive_keys w (scast i) = Some ks" by auto
  have "spends_lockup dl w client (sw_columns s) d \<and> wrapper_input_kind d = kind"
  proof (cases "symbol = ELEMENTS_SYMBOL")
    case True
    with assms k obtain ks' where "dl_secret_key dl ks = Some ks'"
      "elements_detail dl w client ks' (elements_output_kind mu dl (sw_version s) ks' (sw_redeem_script s)
         (context_of ''refund public key not found'' (sw_refund_public_key s))) kind
         (sw_lockup_transaction_id s) (sw_lockup_transaction_vout s) (sw_lockup_address s) = Ok d"
      by (auto simp: sw_claim_details_def Let_def)
    with True i c show ?thesis by (intro elements_detail_spends) auto
  next
    case False
    with assms k obtain ot where
      "bitcoin_detail dl w ks ot kind (sw_lockup_transaction_id s) (sw_lockup_transaction_vout s)
         (sw_lockup_address s) (context_of ''onchain amount not found'' (sw_onchain_amount s)) = Ok d"
      by (auto simp: sw_claim_details_def Let_def)
    with False i c show ?thesis by (intro bitcoin_detail_spends) auto
  qed
  with claim_input_type_Ok [OF k(2)] show ?thesis by simp
qed

lemma rs_refund_details_spends:
  assumes "rs_refund_details mu dl w client s = Ok d"
  shows "spends_lockup dl w client (rs_columns s) d
    \<and> wrapper_input_kind d = Refund (rs_timeout_block_height s)"
proof -
  from assms obtain ks symbol where k: "derive_swap_keys w (rs_key_index s) = Ok ks"
    "rs_chain_symbol s = Ok symbol"
    by (auto simp: rs_refund_details_def Let_def)
  have c: "lc_symbol (rs_columns s) = symbol" "lc_transaction_id (rs_columns s) = rs_transaction_id s"
    "lc_vout (rs_columns s) = rs_transaction_vout s" "lc_address (rs_columns s) = rs_lockup_address s"
    "lc_key_index (rs_columns s) = rs_key_index s"
    by (simp_all add: rs_columns_def k(2))
  from k(1) obtain i where i: "rs_key_index s = Some i" "w_derive_keys w (scast i) = Some ks" by auto
  show ?thesis
  proof (cases "symbol = ELEMENTS_SYMBOL")
    case True
    with assms k obtain ks' where "dl_secret_key dl ks = Some ks'"
      "elements_detail dl w client ks' (elements_output_kind mu dl (rs_version s) ks' (rs_redeem_script s)
         (context_of ''claim public key not found'' (rs_claim_public_key s)))
         (Refund (rs_timeout_block_height s)) (rs_transaction_id s) (rs_transaction_vout s)
         (rs_lockup_address s) = Ok d"
      by (auto simp: rs_refund_details_def Let_def)
    with True i c show ?thesis by (intro elements_detail_spends) auto
  next
    case False
    with assms k obtain ot where
      "bitcoin_detail dl w ks ot (Refund (rs_timeout_block_height s)) (rs_transaction_id s)
         (rs_transaction_vout s) (rs_lockup_address s) (Ok (rs_onchain_amount s)) = Ok d"
      by (auto simp: rs_refund_details_def Let_def)
    with False i c show ?thesis by (intro bitcoin_detail_spends) auto
  qed
qed

lemma create_input_detail_spends:
  assumes "create_input_detail mu dl w client kind data = Ok d"
  shows "spends_lockup dl w client (cd_columns data) d \<and> wrapper_input_kind d = kind"
proof -
  have c: "lc_symbol (cd_columns data) = cd_symbol data"
    "lc_transaction_id (cd_columns data) = cd_transaction_id data"
    "lc_vout (cd_columns data) = cd_transaction_vout data"
    "lc_address (cd_columns data) = cd_lockup_address data"
    "lc_key_index (cd_columns data) = cd_key_index data"
    by (simp_all add: cd_columns_def)
  from assms obtain ks agg where k: "derive_swap_keys w (cd_key_index data) = Ok ks"
    "aggregate_musig_key mu dl ks
       (context_of ''their public key not found'' (cd_their_public_key data)) = Ok agg"
    by (auto simp: create_input_detail_def)
  from k(1) obtain i where i: "cd_key_index data = Some i" "w_derive_keys w (scast i) = Some ks" by auto
  show ?thesis
  proof (cases "cd_symbol data = ELEMENTS_SYMBOL")
    case True
    with assms k obtain ks' ot where "dl_secret_key dl ks = Some ks'"
      "elements_detail dl w client ks' ot kind
         (cd_transaction_id data) (cd_transaction_vout data) (cd_lockup_address data) = Ok d"
      by (auto simp: create_input_detail_def)
    with True i c show ?thesis by (intro elements_detail_spends) auto
  next
    case False
    with assms k obtain ot amt where
      "bitcoin_detail dl w ks ot kind (cd_transaction_id data) (cd_transaction_vout data)
         (cd_lockup_address data) amt = Ok d"
      by (auto simp: create_input_detail_def)
    with False i c show ?thesis by (intro bitcoin_detail_spends) auto
  qed
qed

interpretation submarine_claim: lockup_spender "sw_claim_details mu dl w client" sw_columns
    "\<lambda>s. claims_with dl (sw_preimage s)" dl w client
  for mu dl w client
  by unfold_locales (simp_all add: sw_claim_details_spends)

interpretation reverse_refund: lockup_spender "rs_refund_details mu dl w client" rs_columns
    "\<lambda>s kind. kind = Refund (rs_timeout_block_height s)" dl w client
  for mu dl w client
  by unfold_locales (simp_all add: rs_refund_details_spends)

interpretation chain_claim: lockup_spender "ci_claim_details mu dl w client" "\<lambda>c. cd_columns (ci_receiving c)"
    "\<lambda>c. claims_with dl (cs_preimage (ci_swap c))" dl w client
  for mu dl w client
  by unfold_locales
    (auto simp: ci_claim_details_def dest: create_input_detail_spends claim_input_type_Ok)

interpretation chain_refund: lockup_spender "ci_refund_details mu dl w client" "\<lambda>c. cd_columns (ci_sending c)"
    "\<lambda>c kind. kind = Refund (cd_timeout_block_height (ci_sending c))" dl w client
  for mu dl w client
  by unfold_locales (simp_all add: ci_refund_details_def create_input_detail_spends)

subsection \<open>Properties\<close>

text \<open>
  C11: Claims and refunds spend the lockup the swap stores. Whenever one of the four functions
  returns an input, it is a Liquid input exactly for the symbol L-BTC; it spends the stored
  outpoint with the wallet key of the stored index; on Bitcoin the spent script is that of the
  lockup address, and on Liquid the spent output is the one of the lockup transaction, with the
  blinding key of the lockup address. Claims carry the stored preimage of 32 bytes, refunds the
  stored timeout; a chain swap claims what it receives and refunds what it sends.
\<close>

theorem details_spend_lockup:
  "(sw_claim_details mu dl w client sw = Ok d \<longrightarrow>
      spends_lockup dl w client (sw_columns sw) d \<and> claims_with dl (sw_preimage sw) (wrapper_input_kind d))
   \<and> (rs_refund_details mu dl w client rs = Ok d \<longrightarrow>
      spends_lockup dl w client (rs_columns rs) d
      \<and> wrapper_input_kind d = Refund (rs_timeout_block_height rs))
   \<and> (ci_claim_details mu dl w client c = Ok d \<longrightarrow>
      spends_lockup dl w client (cd_columns (ci_receiving c)) d
      \<and> claims_with dl (cs_preimage (ci_swap c)) (wrapper_input_kind d))
   \<and> (ci_refund_details mu dl w client c = Ok d \<longrightarrow>
      spends_lockup dl w client (cd_columns (ci_sending c)) d
      \<and> wrapper_input_kind d = Refund (cd_timeout_block_height (ci_sending c)))"
  by (intro conjI impI)
    (erule submarine_claim.spends submarine_claim.kind_of reverse_refund.spends reverse_refund.kind_of
      chain_claim.spends chain_claim.kind_of chain_refund.spends chain_refund.kind_of)+

text \<open>
  Refunds spend what was sent. Under the convention that a transaction id is written with its
  bytes reversed, the input that \<open>refund_details\<close> returns for a reverse or a chain swap spends
  exactly the outpoint that \<open>sending_outpoint\<close> reports for the swap, which therefore succeeds.
\<close>

theorem refund_spends_sending_outpoint:
  assumes "txid_displayed_reversed dl"
  shows "(rs_refund_details mu dl w client rs = Ok d \<longrightarrow>
      rs_sending_outpoint (dl_hex_decode dl) rs
        = Ok (Some \<lparr>op_hash = txid (wrapper_outpoint d), op_vout = vout (wrapper_outpoint d)\<rparr>))
    \<and> (ci_refund_details mu dl w client c = Ok d \<longrightarrow>
      ci_sending_outpoint (dl_hex_decode dl) c
        = Ok (Some \<lparr>op_hash = txid (wrapper_outpoint d), op_vout = vout (wrapper_outpoint d)\<rparr>))"
  using reverse_refund.outpoint_agrees [OF _ assms, of mu w client rs d]
    chain_refund.outpoint_agrees [OF _ assms, of mu w client c d]
  by (simp add: rs_sending_outpoint_def ci_sending_outpoint_def rs_columns_def cd_columns_def)

subsection \<open>An example swap\<close>

definition example_bytes :: "string \<Rightarrow> bytes" where
  "example_bytes s = map of_char s"

definition example_dl :: details_lib where
  "example_dl = \<lparr>dl_hex_decode = (\<lambda>s. Some (example_bytes s)),
     dl_txid_parse = (\<lambda>s. Some (rev (example_bytes s))),
     dl_secret_key = Some, dl_pub_key = Some, dl_xonly = Some, dl_script_from_bytes = (\<lambda>_. []),
     dl_parse_tree = (\<lambda>_. None), dl_el_script_from_bytes = (\<lambda>_. []), dl_el_parse_tree = (\<lambda>_. None),
     dl_el_deserialize = (\<lambda>_. None)\<rparr>"

definition example_wallet :: wallet where
  "example_wallet = \<lparr>w_decode_address = (\<lambda>_. Some [0, 20]), w_derive_keys = (\<lambda>_. Some [7]),
     w_derive_blinding_key = Some\<rparr>"

definition example_refundable :: reverse_swap where
  "example_refundable = example_reverse_swap\<lparr>rs_version := 0, rs_key_index := Some 3,
     rs_transaction_id := Some ''ab'', rs_transaction_vout := Some 1, rs_redeem_script := Some [],
     rs_pair := ''BTC/BTC'', rs_timeout_block_height := 800000, rs_onchain_amount := 5000\<rparr>"

definition example_refund_input :: wrapper_input where
  "example_refund_input = BitcoinInput \<lparr>input_kind = Refund 800000, output_kind = SegwitV0 [],
     prev_outpoint = \<lparr>txid = rev (example_bytes ''ab''), vout = 1\<rparr>,
     prev_out = \<lparr>amount = 5000, out_script = [0, 20]\<rparr>, keys = [7]\<rparr>"

lemma example_refund_details:
  "rs_refund_details mu example_dl example_wallet client example_refundable = Ok example_refund_input"
  by (simp add: rs_refund_details_def derive_swap_keys_def context_of_def example_refundable_def
      example_wallet_def rs_chain_symbol_def pair_side_def split_pair_def ELEMENTS_SYMBOL_def
      bitcoin_output_kind_def swap_version_try_from_def bitcoin_detail_def example_dl_def
      example_refund_input_def)

theorem details_spend_lockup_witness:
  "rs_refund_details example_musig example_dl example_wallet (\<lambda>_. None) example_refundable = Ok example_refund_input
   \<and> spends_lockup example_dl example_wallet (\<lambda>_. None) (rs_columns example_refundable) example_refund_input"
  using details_spend_lockup [of example_musig example_dl example_wallet "\<lambda>_. None" _ example_refund_input
      example_refundable] example_refund_details
  by blast

theorem refund_spends_sending_outpoint_witness:
  "rs_refund_details example_musig example_dl example_wallet (\<lambda>_. None) example_refundable = Ok example_refund_input
   \<and> rs_sending_outpoint (dl_hex_decode example_dl) example_refundable
       = Ok (Some \<lparr>op_hash = rev (example_bytes ''ab''), op_vout = 1\<rparr>)"
proof -
  have "txid_displayed_reversed example_dl"
    by (simp add: txid_displayed_reversed_def example_dl_def)
  then have "rs_sending_outpoint (dl_hex_decode example_dl) example_refundable
      = Ok (Some \<lparr>op_hash = txid (wrapper_outpoint example_refund_input),
                  op_vout = vout (wrapper_outpoint example_refund_input)\<rparr>)"
    using refund_spends_sending_outpoint [of example_dl example_musig example_wallet "\<lambda>_. None"
        example_refundable example_refund_input] example_refund_details by blast
  with example_refund_details [of example_musig "\<lambda>_. None"] show ?thesis
    by (simp add: example_refund_input_def)
qed

end
