(* ===== verification/Swap_Filters.thy ===== *)
theory Swap_Filters
  imports Swap_Details
begin

text \<open>
  The filters with which the chain clients are started, \<open>src/boltzr/src/swap/filters.rs\<close>: for each
  symbol the outpoints whose spending and the scripts whose funding concern a pending swap. A
  repository is the function \<open>get_all\<close> from the condition of the query to the rows; a currency is
  reduced to whether it has a chain client, and its wallet.
\<close>

record currency =
  cur_chain :: bool
  cur_wallet :: "wallet option"

type_synonym currencies = "string \<rightharpoonup> currency"

type_synonym filters = "string \<rightharpoonup> (swap_outpoint set \<times> bytes set)"

datatype filter_error = FilterDb | FilterPair pair_error | FilterHex

type_synonym 'a repo = "('a \<Rightarrow> bool) \<Rightarrow> (filter_error, 'a list) result"

definition get_currency :: "currencies \<Rightarrow> string \<Rightarrow> currency option" where
  "get_currency currencies symbol =
     (case currencies symbol of
        Some currency \<Rightarrow> if cur_chain currency then Some currency else None
      | None \<Rightarrow> None)"

definition decode_script :: "wallet \<Rightarrow> string \<Rightarrow> bytes option" where
  "decode_script w address = w_decode_address w address"

definition parse_transaction_id ::
  "(string \<Rightarrow> bytes option) \<Rightarrow> string \<Rightarrow> (filter_error, bytes) result" where
  "parse_transaction_id hex_decode i = r_bind (ok_or FilterHex (hex_decode i)) (\<lambda>hash. Ok (rev hash))"

text \<open>\<open>filters.entry(symbol).or_insert((HashSet::new(), HashSet::new()))\<close> and the insertions.\<close>

definition filter_entry :: "filters \<Rightarrow> string \<Rightarrow> swap_outpoint set \<times> bytes set" where
  "filter_entry fs symbol = (case fs symbol of Some e \<Rightarrow> e | None \<Rightarrow> ({}, {}))"

definition insert_input :: "string \<Rightarrow> swap_outpoint \<Rightarrow> filters \<Rightarrow> filters" where
  "insert_input symbol op fs =
     (case filter_entry fs symbol of (inputs, outputs) \<Rightarrow> fs(symbol \<mapsto> (insert op inputs, outputs)))"

definition insert_output :: "string \<Rightarrow> bytes \<Rightarrow> filters \<Rightarrow> filters" where
  "insert_output symbol script fs =
     (case filter_entry fs symbol of (inputs, outputs) \<Rightarrow> fs(symbol \<mapsto> (inputs, insert script outputs)))"

subsection \<open>Submarine swaps\<close>

definition swap_filter_excluded :: "swap_update list" where
  "swap_filter_excluded = [SwapExpired, InvoicePending, InvoiceFailedToPay, TransactionClaimed,
     TransactionClaimPending]"

text \<open>The common part of the loops over outputs: currency, wallet and script of an address.\<close>

definition lockup_script :: "currencies \<Rightarrow> string \<Rightarrow> string \<Rightarrow> bytes option" where
  "lockup_script currencies symbol address =
     (case get_currency currencies symbol of
        Some currency \<Rightarrow>
          (case cur_wallet currency of Some w \<Rightarrow> decode_script w address | None \<Rightarrow> None)
      | None \<Rightarrow> None)"

definition swap_filter_step :: "currencies \<Rightarrow> swap \<Rightarrow> filters \<Rightarrow> (filter_error, filters) result" where
  "swap_filter_step currencies s fs =
     r_bind (r_map_err FilterPair (sw_chain_symbol s)) (\<lambda>chain_symbol.
       case lockup_script currencies chain_symbol (sw_lockup_address s) of
         Some script \<Rightarrow> Ok (insert_output chain_symbol script fs)
       | None \<Rightarrow> Ok fs)"

definition get_swap_filters ::
  "currencies \<Rightarrow> swap repo \<Rightarrow> filters \<Rightarrow> (filter_error, filters) result" where
  "get_swap_filters currencies get_all fs =
     r_bind (get_all (\<lambda>s. sw_status s \<notin> set (serialize_swap_updates swap_filter_excluded)))
       (\<lambda>pending. r_fold (swap_filter_step currencies) pending fs)"

subsection \<open>Reverse swaps\<close>

definition reverse_filter_included :: "swap_update list" where
  "reverse_filter_included = [TransactionMempool, TransactionConfirmed, TransactionRefunded]"

definition reverse_filter_step ::
  "(string \<Rightarrow> bytes option) \<Rightarrow> reverse_swap \<Rightarrow> filters \<Rightarrow> (filter_error, filters) result" where
  "reverse_filter_step hex_decode s fs =
     (case (rs_transaction_id s, rs_transaction_vout s) of
        (Some i, Some v) \<Rightarrow>
          r_bind (r_map_err FilterPair (rs_chain_symbol s)) (\<lambda>chain_symbol.
          r_bind (parse_transaction_id hex_decode i) (\<lambda>hash.
            Ok (insert_input chain_symbol \<lparr>op_hash = hash, op_vout = v\<rparr> fs)))
      | _ \<Rightarrow> Ok fs)"

definition get_reverse_filters ::
  "(string \<Rightarrow> bytes option) \<Rightarrow> reverse_swap repo \<Rightarrow> filters \<Rightarrow> (filter_error, filters) result" where
  "get_reverse_filters hex_decode get_all fs =
     r_bind (get_all (\<lambda>s. rs_status s \<in> set (serialize_swap_updates reverse_filter_included)
                        \<and> rs_transaction_id s \<noteq> None))
       (\<lambda>pending. r_fold (reverse_filter_step hex_decode) pending fs)"

subsection \<open>Chain swaps\<close>

definition chain_filter_included :: "swap_update list" where
  "chain_filter_included = [SwapCreated, TransactionMempool, TransactionServerMempool,
     TransactionServerConfirmed, TransactionZeroconfRejected, TransactionRefunded]"

definition chain_filter_step ::
  "(string \<Rightarrow> bytes option) \<Rightarrow> currencies \<Rightarrow> chain_swap_info \<Rightarrow> filters
    \<Rightarrow> (filter_error, filters) result" where
  "chain_filter_step hex_decode currencies c fs =
     (let status = ci_status_of c in
      if status \<in> {SwapCreated, TransactionMempool} then
        (let receiving = ci_receiving c in
         case lockup_script currencies (cd_symbol receiving) (cd_lockup_address receiving) of
           Some script \<Rightarrow> Ok (insert_output (cd_symbol receiving) script fs)
         | None \<Rightarrow> Ok fs)
      else if status \<in> {TransactionServerMempool, TransactionServerConfirmed, TransactionRefunded} then
        (let sending = ci_sending c in
         case (cd_transaction_id sending, cd_transaction_vout sending) of
           (Some i, Some v) \<Rightarrow>
             r_bind (parse_transaction_id hex_decode i) (\<lambda>hash.
               Ok (insert_input (cd_symbol sending) \<lparr>op_hash = hash, op_vout = v\<rparr> fs))
         | _ \<Rightarrow> Ok fs)
      else Ok fs)"

definition get_chain_filters ::
  "(string \<Rightarrow> bytes option) \<Rightarrow> currencies \<Rightarrow> chain_swap_info repo \<Rightarrow> filters
    \<Rightarrow> (filter_error, filters) result" where
  "get_chain_filters hex_decode currencies get_all fs =
     r_bind (get_all (\<lambda>c. cs_status (ci_swap c) \<in> set (serialize_swap_updates chain_filter_included)))
       (\<lambda>pending. r_fold (chain_filter_step hex_decode currencies) pending fs)"

definition get_input_output_filters ::
  "(string \<Rightarrow> bytes option) \<Rightarrow> currencies \<Rightarrow> swap repo \<Rightarrow> reverse_swap repo \<Rightarrow> chain_swap_info repo
    \<Rightarrow> (filter_error, filters) result" where
  "get_input_output_filters hex_decode currencies swaps reverse_swaps chain_swaps =
     r_bind (get_swap_filters currencies swaps Map.empty) (\<lambda>fs.
     r_bind (get_reverse_filters hex_decode reverse_swaps fs) (\<lambda>fs.
       get_chain_filters hex_decode currencies chain_swaps fs))"

subsection \<open>Specification\<close>

text \<open>
  The contents of the filters as a set of watched things, and what has to be watched: the lockup
  script of a swap that waits for the user, and the outpoint the service sent to in a swap that
  waits for its spending.
\<close>

datatype watched = WatchInput string swap_outpoint | WatchOutput string bytes

fun in_filters :: "filters \<Rightarrow> watched \<Rightarrow> bool" where
  "in_filters fs (WatchInput symbol op) = (op \<in> fst (filter_entry fs symbol))"
| "in_filters fs (WatchOutput symbol script) = (script \<in> snd (filter_entry fs symbol))"

definition watches :: "filters \<Rightarrow> watched set" where
  "watches fs = Collect (in_filters fs)"

definition swap_watch :: "currencies \<Rightarrow> swap \<Rightarrow> watched set" where
  "swap_watch currencies s = {WatchOutput symbol script | symbol script.
     sw_chain_symbol s = Ok symbol
     \<and> lockup_script currencies symbol (sw_lockup_address s) = Some script}"

definition reverse_watch :: "(string \<Rightarrow> bytes option) \<Rightarrow> reverse_swap \<Rightarrow> watched set" where
  "reverse_watch hex_decode s = {WatchInput symbol op | symbol op.
     rs_chain_symbol s = Ok symbol \<and> rs_sending_outpoint hex_decode s = Ok (Some op)}"

definition chain_watch :: "(string \<Rightarrow> bytes option) \<Rightarrow> currencies \<Rightarrow> chain_swap_info \<Rightarrow> watched set" where
  "chain_watch hex_decode currencies c =
     {WatchOutput (cd_symbol (ci_receiving c)) script | script.
        ci_status_of c \<in> {SwapCreated, TransactionMempool}
        \<and> lockup_script currencies (cd_symbol (ci_receiving c)) (cd_lockup_address (ci_receiving c))
            = Some script}
     \<union> {WatchInput (cd_symbol (ci_sending c)) op | op.
        ci_status_of c \<in> {TransactionServerMempool, TransactionServerConfirmed, TransactionRefunded}
        \<and> ci_sending_outpoint hex_decode c = Ok (Some op)}"

lemma filter_entry_update [simp]:
  "filter_entry (fs(s \<mapsto> e)) s' = (if s' = s then e else filter_entry fs s')"
  by (simp add: filter_entry_def)

lemma watches_empty [simp]: "watches Map.empty = {}"
proof -
  have "\<not> in_filters Map.empty x" for x by (cases x) (simp_all add: filter_entry_def)
  then show ?thesis by (simp add: watches_def)
qed

lemma watches_insert_input [simp]:
  "watches (insert_input s op fs) = watches fs \<union> {WatchInput s op}"
proof (rule set_eqI)
  show "x \<in> watches (insert_input s op fs) \<longleftrightarrow> x \<in> watches fs \<union> {WatchInput s op}" for x
    by (cases x) (auto simp: watches_def insert_input_def split: prod.splits)
qed

lemma watches_insert_output [simp]:
  "watches (insert_output s script fs) = watches fs \<union> {WatchOutput s script}"
proof (rule set_eqI)
  show "x \<in> watches (insert_output s script fs) \<longleftrightarrow> x \<in> watches fs \<union> {WatchOutput s script}" for x
    by (cases x) (auto simp: watches_def insert_output_def split: prod.splits)
qed

lemma swap_filter_step_watches:
  assumes "swap_filter_step currencies s fs = Ok fs'"
  shows "watches fs' = watches fs \<union> swap_watch currencies s"
proof -
  from assms obtain symbol where symbol: "sw_chain_symbol s = Ok symbol"
    by (auto simp: swap_filter_step_def)
  show ?thesis
  proof (cases "lockup_script currencies symbol (sw_lockup_address s)")
    case None
    with symbol assms have "fs' = fs" "swap_watch currencies s = {}"
      by (simp_all add: swap_filter_step_def swap_watch_def)
    then show ?thesis by simp
  next
    case (Some script)
    with symbol assms have "fs' = insert_output symbol script fs"
      "swap_watch currencies s = {WatchOutput symbol script}"
      by (simp_all add: swap_filter_step_def swap_watch_def)
    then show ?thesis by simp
  qed
qed

lemma reverse_filter_step_watches:
  assumes "reverse_filter_step hex_decode s fs = Ok fs'"
  shows "watches fs' = watches fs \<union> reverse_watch hex_decode s"
proof (cases "\<exists>i v. rs_transaction_id s = Some i \<and> rs_transaction_vout s = Some v")
  case True
  then obtain i v where cols: "rs_transaction_id s = Some i" "rs_transaction_vout s = Some v" by blast
  with assms obtain symbol hash where h: "rs_chain_symbol s = Ok symbol" "hex_decode i = Some hash"
    "fs' = insert_input symbol \<lparr>op_hash = rev hash, op_vout = v\<rparr> fs"
    by (auto simp: reverse_filter_step_def parse_transaction_id_def)
  with cols have "reverse_watch hex_decode s = {WatchInput symbol \<lparr>op_hash = rev hash, op_vout = v\<rparr>}"
    by (simp add: reverse_watch_def rs_sending_outpoint_def outpoint_of_def)
  with h(3) show ?thesis by simp
next
  case False
  then have "rs_sending_outpoint hex_decode s = Ok None" "reverse_filter_step hex_decode s fs = Ok fs"
    by (auto simp: rs_sending_outpoint_def outpoint_of_def reverse_filter_step_def split: option.splits)
  with assms show ?thesis by (simp add: reverse_watch_def)
qed

lemma chain_sending_watches:
  assumes "(case (cd_transaction_id sending, cd_transaction_vout sending) of
      (Some i, Some v) \<Rightarrow> r_bind (parse_transaction_id hex_decode i) (\<lambda>hash.
         Ok (insert_input symbol \<lparr>op_hash = hash, op_vout = v\<rparr> fs))
    | _ \<Rightarrow> Ok fs) = Ok fs'"
  shows "watches fs' = watches fs \<union> {WatchInput symbol op | op.
    outpoint_of hex_decode (cd_transaction_id sending) (cd_transaction_vout sending) = Ok (Some op)}"
proof (cases "\<exists>i v. cd_transaction_id sending = Some i \<and> cd_transaction_vout sending = Some v")
  case True
  then obtain i v where cols: "cd_transaction_id sending = Some i" "cd_transaction_vout sending = Some v"
    by blast
  with assms obtain hash where h: "hex_decode i = Some hash"
    "fs' = insert_input symbol \<lparr>op_hash = rev hash, op_vout = v\<rparr> fs"
    by (auto simp: parse_transaction_id_def)
  with cols show ?thesis by (simp add: outpoint_of_def)
next
  case False
  then have "outpoint_of hex_decode (cd_transaction_id sending) (cd_transaction_vout sending) = Ok None"
    by (auto simp: outpoint_of_def split: option.splits)
  moreover from False assms have "fs' = fs" by (auto split: option.splits)
  ultimately show ?thesis by simp
qed

lemma chain_filter_step_watches:
  assumes "chain_filter_step hex_decode currencies c fs = Ok fs'"
  shows "watches fs' = watches fs \<union> chain_watch hex_decode currencies c"
proof -
  let ?r = "ci_receiving c"
  consider "ci_status_of c \<in> {SwapCreated, TransactionMempool}"
    | "ci_status_of c \<in> {TransactionServerMempool, TransactionServerConfirmed, TransactionRefunded}"
    | "ci_status_of c \<notin> {SwapCreated, TransactionMempool, TransactionServerMempool,
         TransactionServerConfirmed, TransactionRefunded}"
    by blast
  then show ?thesis
  proof cases
    case 1
    then have not2: "ci_status_of c \<notin> {TransactionServerMempool, TransactionServerConfirmed, TransactionRefunded}"
      by auto
    show ?thesis
    proof (cases "lockup_script currencies (cd_symbol ?r) (cd_lockup_address ?r)")
      case None
      with 1 assms have "fs' = fs" by (simp add: chain_filter_step_def Let_def)
      moreover have "chain_watch hex_decode currencies c = {}"
        using None not2 by (simp add: chain_watch_def)
      ultimately show ?thesis by simp
    next
      case (Some script)
      with 1 assms have "fs' = insert_output (cd_symbol ?r) script fs"
        by (simp add: chain_filter_step_def Let_def)
      moreover have "chain_watch hex_decode currencies c = {WatchOutput (cd_symbol ?r) script}"
        using Some 1 not2 by (simp add: chain_watch_def)
      ultimately show ?thesis by simp
    qed
  next
    case 2
    then have not1: "ci_status_of c \<notin> {SwapCreated, TransactionMempool}" by auto
    with 2 have "chain_watch hex_decode currencies c = {WatchInput (cd_symbol (ci_sending c)) op | op.
        outpoint_of hex_decode (cd_transaction_id (ci_sending c)) (cd_transaction_vout (ci_sending c))
          = Ok (Some op)}"
      by (simp add: chain_watch_def ci_sending_outpoint_def)
    moreover have "(case (cd_transaction_id (ci_sending c), cd_transaction_vout (ci_sending c)) of
      (Some i, Some v) \<Rightarrow> r_bind (parse_transaction_id hex_decode i) (\<lambda>hash.
         Ok (insert_input (cd_symbol (ci_sending c)) \<lparr>op_hash = hash, op_vout = v\<rparr> fs))
      | _ \<Rightarrow> Ok fs) = Ok fs'"
      using assms 2 not1 by (simp add: chain_filter_step_def Let_def)
    ultimately show ?thesis by (simp only: chain_sending_watches)
  next
    case 3
    with assms show ?thesis by (simp add: chain_filter_step_def Let_def chain_watch_def)
  qed
qed

text \<open>A repository that returns the rows of a table that satisfy the condition.\<close>

definition table_repo :: "'a list \<Rightarrow> 'a repo" where
  "table_repo rows p = Ok (filter p rows)"

text \<open>
  The filters hold exactly what the pending swaps have to watch. For repositories over the
  rows \<open>sws\<close>, \<open>rss\<close> and \<open>css\<close>, a successful \<open>get_input_output_filters\<close> watches the lockup script of every
  submarine swap that is not in one of the final states and of every chain swap that waits for the
  user, the sending outpoint of every reverse swap with a lockup and of every chain swap with one,
  each under its own symbol, and nothing else.
\<close>

theorem filters_exact:
  assumes "get_input_output_filters hex_decode currencies (table_repo sws) (table_repo rss)
      (table_repo css) = Ok fs"
  shows "watches fs =
      (\<Union>s \<in> {s \<in> set sws. sw_status s \<notin> set (serialize_swap_updates swap_filter_excluded)}.
         swap_watch currencies s)
    \<union> (\<Union>s \<in> {s \<in> set rss. rs_status s \<in> set (serialize_swap_updates reverse_filter_included)
                \<and> rs_transaction_id s \<noteq> None}. reverse_watch hex_decode s)
    \<union> (\<Union>c \<in> {c \<in> set css. cs_status (ci_swap c) \<in> set (serialize_swap_updates chain_filter_included)}.
         chain_watch hex_decode currencies c)"
proof -
  from assms obtain fs1 fs2 where
    "r_fold (swap_filter_step currencies)
       (filter (\<lambda>s. sw_status s \<notin> set (serialize_swap_updates swap_filter_excluded)) sws) Map.empty = Ok fs1"
    "r_fold (reverse_filter_step hex_decode)
       (filter (\<lambda>s. rs_status s \<in> set (serialize_swap_updates reverse_filter_included)
          \<and> rs_transaction_id s \<noteq> None) rss) fs1 = Ok fs2"
    "r_fold (chain_filter_step hex_decode currencies)
       (filter (\<lambda>c. cs_status (ci_swap c) \<in> set (serialize_swap_updates chain_filter_included)) css) fs2 = Ok fs"
    by (auto simp: get_input_output_filters_def get_swap_filters_def get_reverse_filters_def
        get_chain_filters_def table_repo_def)
  note loops = this
  have "watches fs1 = watches Map.empty \<union> (\<Union>s \<in> set (filter (\<lambda>s. sw_status s
      \<notin> set (serialize_swap_updates swap_filter_excluded)) sws). swap_watch currencies s)"
    using loops(1) by (rule r_fold_union) (rule swap_filter_step_watches)
  moreover have "watches fs2 = watches fs1 \<union> (\<Union>s \<in> set (filter (\<lambda>s. rs_status s
      \<in> set (serialize_swap_updates reverse_filter_included) \<and> rs_transaction_id s \<noteq> None) rss).
      reverse_watch hex_decode s)"
    using loops(2) by (rule r_fold_union) (rule reverse_filter_step_watches)
  moreover have "watches fs = watches fs2 \<union> (\<Union>c \<in> set (filter (\<lambda>c. cs_status (ci_swap c)
      \<in> set (serialize_swap_updates chain_filter_included)) css). chain_watch hex_decode currencies c)"
    using loops(3) by (rule r_fold_union) (rule chain_filter_step_watches)
  ultimately show ?thesis by simp
qed

subsection \<open>An example\<close>

definition example_locked :: reverse_swap where
  "example_locked = example_refundable\<lparr>rs_status := ''transaction.mempool''\<rparr>"

lemma example_filters_ok:
  "\<exists>fs. get_input_output_filters (dl_hex_decode example_dl) Map.empty (table_repo [])
     (table_repo [example_locked]) (table_repo []) = Ok fs"
  by (simp add: get_input_output_filters_def get_swap_filters_def get_reverse_filters_def
      get_chain_filters_def table_repo_def reverse_filter_step_def example_locked_def
      example_refundable_def rs_chain_symbol_def pair_side_def split_pair_def
      parse_transaction_id_def example_dl_def)

theorem filters_exact_witness:
  "\<exists>fs. get_input_output_filters (dl_hex_decode example_dl) Map.empty (table_repo [])
     (table_repo [example_locked]) (table_repo []) = Ok fs
   \<and> watches fs = {WatchInput ''BTC'' \<lparr>op_hash = rev (example_bytes ''ab''), op_vout = 1\<rparr>}"
proof -
  from example_filters_ok obtain fs where fs: "get_input_output_filters (dl_hex_decode example_dl)
      Map.empty (table_repo []) (table_repo [example_locked]) (table_repo []) = Ok fs" ..
  have "{s \<in> set [example_locked]. rs_status s \<in> set (serialize_swap_updates reverse_filter_included)
      \<and> rs_transaction_id s \<noteq> None} = {example_locked}"
    by (auto simp: example_locked_def example_refundable_def serialize_swap_updates_def
        reverse_filter_included_def)
  moreover have "reverse_watch (dl_hex_decode example_dl) example_locked
      = {WatchInput ''BTC'' \<lparr>op_hash = rev (example_bytes ''ab''), op_vout = 1\<rparr>}"
    by (simp add: reverse_watch_def rs_sending_outpoint_def outpoint_of_def rs_chain_symbol_def
        pair_side_def split_pair_def example_locked_def example_refundable_def example_dl_def)
  ultimately show ?thesis using fs filters_exact [OF fs] by simp
qed

end
