(* ===== verification/Chain_Utils.thy ===== *)
theory Chain_Utils
  imports Swap_Types Asset_Rescue_Tx
begin

text \<open>
  Transactions and blocks as the chain clients hand them out, \<open>src/boltzr/src/chain/utils.rs\<close> and
  the chain types of \<open>src/boltzr/src/chain/types.rs\<close>. Consensus decoding, hashing and address
  encoding of the libraries are the record \<open>chain_lib\<close>; a header is opaque.
\<close>

datatype chain_type = TypeBitcoin | TypeElements

datatype chain_tx = TxBitcoin transaction | TxElements el_transaction

datatype block_header = HeaderBitcoin bytes | HeaderElements bytes

record block =
  bk_header :: block_header
  bk_transactions :: "chain_tx list"

record chain_lib =
  cl_hex_decode :: "string \<Rightarrow> bytes option"
  cl_txid_to_hex :: "bytes \<Rightarrow> string"
  cl_btc_deserialize :: "bytes \<Rightarrow> transaction option"
  cl_el_deserialize :: "bytes \<Rightarrow> el_transaction option"
  cl_btc_block :: "bytes \<Rightarrow> (bytes \<times> transaction list) option"
  cl_el_block :: "bytes \<Rightarrow> (bytes \<times> el_transaction list) option"
  cl_btc_header_hash :: "bytes \<Rightarrow> bytes"
  cl_el_header_hash :: "bytes \<Rightarrow> bytes"
  cl_btc_vsize :: "transaction \<Rightarrow> u64"
  cl_el_discount_vsize :: "el_transaction \<Rightarrow> u64"
  cl_btc_address :: "bytes \<Rightarrow> bitcoin_network \<Rightarrow> string option"
  cl_pubkey_ok :: "bytes \<Rightarrow> bool"
  cl_el_address :: "bytes \<Rightarrow> bytes option \<Rightarrow> address_params \<Rightarrow> string option"

datatype chain_error =
    UnknownSymbol string | ChHex | ChDecode | ChClient | ChInputVout u32 bytes
  | ChInputLessThanOutput | ChNoFeeOutput | ChFeeNotExplicit
  | ChAddress | ChPubkey | ChNetwork network_error | ChLiquidScript bytes

fun chain_type_from_str :: "string \<Rightarrow> (chain_error, chain_type) result" where
  "chain_type_from_str s =
     (if s = ''BTC'' then Ok TypeBitcoin else if s = ''L-BTC'' then Ok TypeElements
      else Err (UnknownSymbol s))"

fun encode_address ::
  "chain_lib \<Rightarrow> chain_type \<Rightarrow> bytes \<Rightarrow> bytes option \<Rightarrow> network \<Rightarrow> (chain_error, string) result" where
  "encode_address cl TypeBitcoin script blinding network =
     ok_or ChAddress (cl_btc_address cl script (network_bitcoin network))"
| "encode_address cl TypeElements script blinding network =
     r_bind (case blinding of
         Some b \<Rightarrow> if cl_pubkey_ok cl b then Ok (Some b) else Err ChPubkey
       | None \<Rightarrow> Ok None) (\<lambda>pubkey.
     r_bind (r_map_err ChNetwork (liquid network)) (\<lambda>params.
       ok_or (ChLiquidScript script) (cl_el_address cl script pubkey params)))"

subsection \<open>Transactions\<close>

fun chain_tx_parse :: "chain_lib \<Rightarrow> chain_type \<Rightarrow> bytes \<Rightarrow> (chain_error, chain_tx) result" where
  "chain_tx_parse cl TypeBitcoin raw = r_map TxBitcoin (ok_or ChDecode (cl_btc_deserialize cl raw))"
| "chain_tx_parse cl TypeElements raw = r_map TxElements (ok_or ChDecode (cl_el_deserialize cl raw))"

definition chain_tx_parse_hex :: "chain_lib \<Rightarrow> chain_type \<Rightarrow> string \<Rightarrow> (chain_error, chain_tx) result" where
  "chain_tx_parse_hex cl t s = r_bind (ok_or ChHex (cl_hex_decode cl s)) (chain_tx_parse cl t)"

fun chain_tx_vsize :: "chain_lib \<Rightarrow> chain_tx \<Rightarrow> u64" where
  "chain_tx_vsize cl (TxBitcoin tx) = cl_btc_vsize cl tx"
| "chain_tx_vsize cl (TxElements tx) = cl_el_discount_vsize cl tx"

text \<open>
  The future of one input in \<open>calculate_fee\<close>: fetch the previous transaction and take its output.
\<close>

definition input_amount ::
  "chain_lib \<Rightarrow> (string \<Rightarrow> string option) \<Rightarrow> tx_in \<Rightarrow> (chain_error, u64) result" where
  "input_amount cl client inp =
     (let op = previous_output inp in
      r_bind (ok_or ChClient (client (cl_txid_to_hex cl (txid op)))) (\<lambda>s.
      r_bind (ok_or ChHex (cl_hex_decode cl s)) (\<lambda>raw.
      r_bind (ok_or ChDecode (cl_btc_deserialize cl raw)) (\<lambda>prev.
        if unat (vout op) < length (tx_outputs prev) then Ok (amount (tx_outputs prev ! unat (vout op)))
        else Err (ChInputVout (vout op) (txid op))))))"

text \<open>
  Up to sixteen futures run at once; \<open>order\<close> is the order in which they complete, which the fold
  over \<open>buffer_unordered\<close> follows and in which it stops at the first error. The sums wrap.
\<close>

fun calculate_fee ::
  "chain_lib \<Rightarrow> (string \<Rightarrow> string option) \<Rightarrow> (tx_in list \<Rightarrow> tx_in list) \<Rightarrow> chain_tx
    \<Rightarrow> (chain_error, u64) result" where
  "calculate_fee cl client order (TxBitcoin tx) =
     r_bind (r_fold (\<lambda>inp acc. r_bind (input_amount cl client inp) (\<lambda>a. Ok (acc + a)))
               (order (tx_inputs tx)) 0) (\<lambda>input_sum.
       ok_or ChInputLessThanOutput (checked_sub input_sum (sum_list (map amount (tx_outputs tx)))))"
| "calculate_fee cl client order (TxElements tx) =
     r_bind (ok_or ChNoFeeOutput (List.find (\<lambda>o'. el_out_script o' = []) (el_outputs tx))) (\<lambda>fee.
       ok_or ChFeeNotExplicit (c_explicit (el_value fee)))"

definition outpoint_of_input :: "tx_in \<Rightarrow> swap_outpoint" where
  "outpoint_of_input i = \<lparr>op_hash = txid (previous_output i), op_vout = vout (previous_output i)\<rparr>"

fun input_outpoints :: "chain_tx \<Rightarrow> swap_outpoint list" where
  "input_outpoints (TxBitcoin tx) = map outpoint_of_input (tx_inputs tx)"
| "input_outpoints (TxElements tx) = map outpoint_of_input (el_inputs tx)"

fun output_script_pubkeys :: "chain_tx \<Rightarrow> bytes list" where
  "output_script_pubkeys (TxBitcoin tx) = map out_script (tx_outputs tx)"
| "output_script_pubkeys (TxElements tx) =
     map el_out_script (filter (\<lambda>o'. el_out_script o' \<noteq> []) (el_outputs tx))"

subsection \<open>Blocks\<close>

fun block_parse :: "chain_lib \<Rightarrow> chain_type \<Rightarrow> bytes \<Rightarrow> (chain_error, block) result" where
  "block_parse cl TypeBitcoin raw =
     r_bind (ok_or ChDecode (cl_btc_block cl raw)) (\<lambda>(header, txs).
       Ok \<lparr>bk_header = HeaderBitcoin header, bk_transactions = map TxBitcoin txs\<rparr>)"
| "block_parse cl TypeElements raw =
     r_bind (ok_or ChDecode (cl_el_block cl raw)) (\<lambda>(header, txs).
       Ok \<lparr>bk_header = HeaderElements header, bk_transactions = map TxElements txs\<rparr>)"

definition block_parse_hex :: "chain_lib \<Rightarrow> chain_type \<Rightarrow> string \<Rightarrow> (chain_error, block) result" where
  "block_parse_hex cl t s = r_bind (ok_or ChHex (cl_hex_decode cl s)) (block_parse cl t)"

definition block_hash :: "chain_lib \<Rightarrow> block \<Rightarrow> bytes" where
  "block_hash cl b =
     rev (case bk_header b of
            HeaderBitcoin h \<Rightarrow> cl_btc_header_hash cl h
          | HeaderElements h \<Rightarrow> cl_el_header_hash cl h)"

subsection \<open>The fee of a Bitcoin transaction\<close>

text \<open>What the node knows about the previous output of an input.\<close>

definition known_amount :: "chain_lib \<Rightarrow> (string \<Rightarrow> string option) \<Rightarrow> tx_in \<Rightarrow> u64 \<Rightarrow> bool" where
  "known_amount cl client inp a \<longleftrightarrow> input_amount cl client inp = Ok a"

lemma fold_amounts:
  assumes "\<And>i. i \<in> set inputs \<Longrightarrow> known_amount cl client i (f i)"
  shows "r_fold (\<lambda>inp acc. r_bind (input_amount cl client inp) (\<lambda>a. Ok (acc + a))) inputs acc
    = Ok (acc + sum_list (map f inputs))"
  using assms by (induction inputs arbitrary: acc) (auto simp: known_amount_def ac_simps)

lemma unat_sum_list:
  assumes "sum_list (map (unat \<circ> f) xs) \<le> u64_max"
  shows "unat (sum_list (map f xs) :: u64) = sum_list (map (unat \<circ> f) xs)"
  using assms
proof (induction xs)
  case Nil
  then show ?case by simp
next
  case (Cons x xs)
  then show ?case by (simp add: unat_add_u64)
qed

lemma calculate_fee_value:
  assumes "mset (order (tx_inputs tx)) = mset (tx_inputs tx)"
    and "\<And>i. i \<in> set (tx_inputs tx) \<Longrightarrow> known_amount cl client i (f i)"
  shows "calculate_fee cl client order (TxBitcoin tx) = ok_or ChInputLessThanOutput
      (checked_sub (sum_list (map f (tx_inputs tx))) (sum_list (map amount (tx_outputs tx))))"
proof -
  have "set (order (tx_inputs tx)) = set (tx_inputs tx)" using assms(1) by (rule mset_eq_setD)
  with assms(2) have "r_fold (\<lambda>inp acc. r_bind (input_amount cl client inp) (\<lambda>a. Ok (acc + a)))
      (order (tx_inputs tx)) 0 = Ok (0 + sum_list (map f (order (tx_inputs tx))))"
    by (intro fold_amounts) auto
  moreover have "sum_list (map f (order (tx_inputs tx))) = sum_list (map f (tx_inputs tx))"
    using assms(1) by (metis mset_map sum_mset_sum_list)
  ultimately show ?thesis by simp
qed

text \<open>
  The fee of a Bitcoin transaction is what its inputs exceed its outputs by, in whatever order
  the previous transactions arrive: if the node knows the previous output of every input and the
  totals fit 64 bits, \<open>calculate_fee\<close> returns that difference, and the error for insufficient
  inputs exactly when there is none.
\<close>

theorem calculate_fee_exact:
  assumes "mset (order (tx_inputs tx)) = mset (tx_inputs tx)"
    and "\<And>i. i \<in> set (tx_inputs tx) \<Longrightarrow> known_amount cl client i (f i)"
    and "sum_list (map (unat \<circ> f) (tx_inputs tx)) \<le> u64_max"
    and "output_total (tx_outputs tx) \<le> u64_max"
  shows "case calculate_fee cl client order (TxBitcoin tx) of
      Ok fee \<Rightarrow> output_total (tx_outputs tx) + unat fee = sum_list (map (unat \<circ> f) (tx_inputs tx))
    | Err e \<Rightarrow> e = ChInputLessThanOutput
        \<and> sum_list (map (unat \<circ> f) (tx_inputs tx)) < output_total (tx_outputs tx)
    | Panic \<Rightarrow> False"
proof -
  have fee: "calculate_fee cl client order (TxBitcoin tx) = ok_or ChInputLessThanOutput
      (checked_sub (sum_list (map f (tx_inputs tx))) (sum_list (map amount (tx_outputs tx))))"
    using assms(1,2) by (rule calculate_fee_value)
  note sums = unat_sum_list [OF assms(3)]
    unat_sum_list [of amount "tx_outputs tx", OF assms(4) [unfolded output_total_def]]
  show ?thesis
  proof (cases "checked_sub (sum_list (map f (tx_inputs tx))) (sum_list (map amount (tx_outputs tx)))")
    case None
    then have "sum_list (map (unat \<circ> f) (tx_inputs tx)) < output_total (tx_outputs tx)"
      by (simp add: checked_sub_None_iff sums output_total_def)
    with None show ?thesis unfolding fee by simp
  next
    case (Some a)
    then have "output_total (tx_outputs tx) + unat a = sum_list (map (unat \<circ> f) (tx_inputs tx))"
      by (simp add: checked_sub_Some_iff sums output_total_def)
    with Some show ?thesis unfolding fee by simp
  qed
qed

subsection \<open>An example\<close>

definition example_prev_tx :: transaction where
  "example_prev_tx = \<lparr>tx_version = 2, tx_lock_time = 0, tx_inputs = [],
     tx_outputs = [\<lparr>amount = 700, out_script = [1]\<rparr>, \<lparr>amount = 300, out_script = [2]\<rparr>]\<rparr>"

definition example_spending_tx :: transaction where
  "example_spending_tx = \<lparr>tx_version = 2, tx_lock_time = 0,
     tx_inputs = map (\<lambda>v. \<lparr>previous_output = \<lparr>txid = [9], vout = v\<rparr>, script_sig = [],
       sequence = 0, witness = []\<rparr>) [0, 1],
     tx_outputs = [\<lparr>amount = 900, out_script = [3]\<rparr>]\<rparr>"

definition example_chain_lib :: chain_lib where
  "example_chain_lib = \<lparr>cl_hex_decode = (\<lambda>_. Some []), cl_txid_to_hex = (\<lambda>_. []),
     cl_btc_deserialize = (\<lambda>_. Some example_prev_tx), cl_el_deserialize = (\<lambda>_. None),
     cl_btc_block = (\<lambda>_. None), cl_el_block = (\<lambda>_. None), cl_btc_header_hash = id,
     cl_el_header_hash = id, cl_btc_vsize = (\<lambda>_. 100), cl_el_discount_vsize = (\<lambda>_. 100),
     cl_btc_address = (\<lambda>_ _. None), cl_pubkey_ok = (\<lambda>_. True), cl_el_address = (\<lambda>_ _ _. None)\<rparr>"

theorem calculate_fee_exact_witness:
  "calculate_fee example_chain_lib (\<lambda>_. Some []) rev (TxBitcoin example_spending_tx) = Ok 100
   \<and> (900 :: nat) + 100 = 1000"
proof -
  let ?f = "\<lambda>i. if vout (previous_output i) = 0 then 700 else 300 :: u64"
  have inputs: "sum_list (map (unat \<circ> ?f) (tx_inputs example_spending_tx)) = 1000"
    and outputs: "output_total (tx_outputs example_spending_tx) = 900"
    by (simp_all add: example_spending_tx_def output_total_def)
  have "known_amount example_chain_lib (\<lambda>_. Some []) i (?f i)"
    if "i \<in> set (tx_inputs example_spending_tx)" for i
    using that by (auto simp: known_amount_def input_amount_def example_chain_lib_def
        example_prev_tx_def example_spending_tx_def)
  then have "case calculate_fee example_chain_lib (\<lambda>_. Some []) rev (TxBitcoin example_spending_tx) of
      Ok fee \<Rightarrow> 900 + unat fee = 1000 | Err e \<Rightarrow> e = ChInputLessThanOutput \<and> (1000 :: nat) < 900
    | Panic \<Rightarrow> False"
    using calculate_fee_exact [of rev example_spending_tx example_chain_lib "\<lambda>_. Some []" ?f]
    unfolding inputs outputs by (simp add: u64_max_def del: calculate_fee.simps)
  then obtain fee where "calculate_fee example_chain_lib (\<lambda>_. Some []) rev
      (TxBitcoin example_spending_tx) = Ok fee" "unat fee = 100"
    by (auto split: result.splits)
  moreover from this(2) have "fee = 100" by (simp add: word_unat_eq_iff)
  ultimately show ?thesis by simp
qed

end
