(* ===== verification/Tx_Check.thy ===== *)
theory Tx_Check
  imports Swap_Filters Chain_Utils
begin

text \<open>
  Which swaps a batch of transactions concerns, \<open>src/boltzr/src/swap/tx_check.rs\<close>. The database
  tables are arguments, with the error of a failed query; the keys of a hash map are listed
  without repetition in some order. \<open>hex_encode\<close> and \<open>hex_decode\<close> are those of the hex library.
\<close>

record script_pubkey =
  spk_swap_id :: string
  spk_symbol :: string
  spk_script :: bytes

datatype check_error = CheckDb

record check_tables =
  script_table :: "(check_error, script_pubkey list) result"
  reverse_table :: "(check_error, reverse_swap list) result"
  chain_table :: "(check_error, chain_swap_info list) result"

definition get_by_scripts ::
  "check_tables \<Rightarrow> string \<Rightarrow> bytes list \<Rightarrow> (check_error, script_pubkey list) result" where
  "get_by_scripts tables symbol scripts =
     r_bind (script_table tables) (\<lambda>rows.
       Ok (filter (\<lambda>r. spk_symbol r = symbol \<and> spk_script r \<in> set scripts) rows))"

definition TX_CHUNK_SIZE :: nat where
  "TX_CHUNK_SIZE = 512"

type_synonym relevant_swaps = "chain_tx \<rightharpoonup> string list"

text \<open>\<open>map.entry(tx.clone()).or_default().push(id)\<close>.\<close>

definition push_entry :: "'k \<Rightarrow> 'v \<Rightarrow> ('k \<rightharpoonup> 'v list) \<Rightarrow> ('k \<rightharpoonup> 'v list)" where
  "push_entry k v m = m(k \<mapsto> (case m k of Some vs \<Rightarrow> vs | None \<Rightarrow> []) @ [v])"

subsection \<open>Outputs\<close>

definition script_to_txs :: "chain_tx list \<Rightarrow> (bytes \<rightharpoonup> chain_tx list)" where
  "script_to_txs tx_chunk =
     fold (\<lambda>tx. fold (\<lambda>script. push_entry script tx) (output_script_pubkeys tx)) tx_chunk Map.empty"

definition push_pubkey :: "(bytes \<rightharpoonup> chain_tx list) \<Rightarrow> script_pubkey \<Rightarrow> relevant_swaps \<Rightarrow> relevant_swaps"
where
  "push_pubkey by_script pubkey m =
     (case by_script (spk_script pubkey) of
        Some txs \<Rightarrow> fold (\<lambda>tx. push_entry tx (spk_swap_id pubkey)) txs m
      | None \<Rightarrow> m)"

definition check_outputs_chunk ::
  "check_tables \<Rightarrow> string \<Rightarrow> chain_tx list \<Rightarrow> relevant_swaps \<Rightarrow> (check_error, relevant_swaps) result"
where
  "check_outputs_chunk tables symbol tx_chunk m =
     r_bind (get_by_scripts tables symbol (remdups (concat (map output_script_pubkeys tx_chunk))))
       (\<lambda>script_pubkeys. Ok (fold (push_pubkey (script_to_txs tx_chunk)) script_pubkeys m))"

definition check_outputs ::
  "check_tables \<Rightarrow> string \<Rightarrow> chain_tx list list \<Rightarrow> relevant_swaps \<Rightarrow> (check_error, relevant_swaps) result"
where
  "check_outputs tables symbol txs m = r_fold (check_outputs_chunk tables symbol) txs m"

subsection \<open>Inputs\<close>

text \<open>Collecting into a hash map keeps the last transaction that spends an outpoint.\<close>

definition outpoint_pairs :: "chain_tx list \<Rightarrow> (swap_outpoint \<times> chain_tx) list" where
  "outpoint_pairs tx_chunk = concat (map (\<lambda>tx. map (\<lambda>o'. (o', tx)) (input_outpoints tx)) tx_chunk)"

definition inputs_to_tx :: "chain_tx list \<Rightarrow> (swap_outpoint \<rightharpoonup> chain_tx)" where
  "inputs_to_tx tx_chunk = fold (\<lambda>(o', tx) m. m(o' \<mapsto> tx)) (outpoint_pairs tx_chunk) Map.empty"

text \<open>A swap as \<open>check_inputs\<close> uses it: the result of \<open>sending_outpoint\<close> and the id.\<close>

definition relevant_inputs_of ::
  "(string \<Rightarrow> bytes option) \<Rightarrow> string \<Rightarrow> string list \<Rightarrow> reverse_swap list \<Rightarrow> chain_swap_info list
    \<Rightarrow> ((model_error, swap_outpoint option) result \<times> string) list" where
  "relevant_inputs_of hex_decode symbol input_ids reverse_swaps chain_swaps =
     map (\<lambda>s. (rs_sending_outpoint hex_decode s, rs_id s))
       (filter (\<lambda>s. \<exists>i \<in> set input_ids. rs_transaction_id s = Some i) reverse_swaps)
     @ map (\<lambda>c. (ci_sending_outpoint hex_decode c, cs_id (ci_swap c)))
         (filter (\<lambda>c. cd_symbol (ci_sending c) = symbol)
           (filter (\<lambda>c. \<exists>d \<in> {ci_sending c, ci_receiving c}. cd_symbol d = symbol
                       \<and> (\<exists>i \<in> set input_ids. cd_transaction_id d = Some i)) chain_swaps))"

definition push_swap ::
  "(swap_outpoint \<rightharpoonup> chain_tx) \<Rightarrow> (model_error, swap_outpoint option) result \<times> string \<Rightarrow> relevant_swaps
    \<Rightarrow> relevant_swaps" where
  "push_swap by_outpoint = (\<lambda>(sending, i) m.
     case sending of
       Ok (Some op) \<Rightarrow> (case by_outpoint op of Some tx \<Rightarrow> push_entry tx i m | None \<Rightarrow> m)
     | _ \<Rightarrow> m)"

definition check_inputs_chunk ::
  "(bytes \<Rightarrow> string) \<Rightarrow> (string \<Rightarrow> bytes option) \<Rightarrow> check_tables \<Rightarrow> string \<Rightarrow> chain_tx list
    \<Rightarrow> relevant_swaps \<Rightarrow> (check_error, relevant_swaps) result" where
  "check_inputs_chunk hex_encode hex_decode tables symbol tx_chunk m =
     (let input_ids = map (\<lambda>o'. hex_encode (rev (op_hash o'))) (remdups (map fst (outpoint_pairs tx_chunk)))
      in r_bind (reverse_table tables) (\<lambda>reverse_swaps.
         r_bind (chain_table tables) (\<lambda>chain_swaps.
           Ok (fold (push_swap (inputs_to_tx tx_chunk))
                 (relevant_inputs_of hex_decode symbol input_ids reverse_swaps chain_swaps) m))))"

definition check_inputs ::
  "(bytes \<Rightarrow> string) \<Rightarrow> (string \<Rightarrow> bytes option) \<Rightarrow> check_tables \<Rightarrow> string \<Rightarrow> chain_tx list list
    \<Rightarrow> relevant_swaps \<Rightarrow> (check_error, relevant_swaps) result" where
  "check_inputs hex_encode hex_decode tables symbol txs m =
     r_fold (check_inputs_chunk hex_encode hex_decode tables symbol) txs m"

definition check_txs ::
  "(bytes \<Rightarrow> string) \<Rightarrow> (string \<Rightarrow> bytes option) \<Rightarrow> check_tables \<Rightarrow> string \<Rightarrow> chain_tx list
    \<Rightarrow> (check_error, relevant_swaps) result" where
  "check_txs hex_encode hex_decode tables symbol txs =
     (let tx_chunks = chunks TX_CHUNK_SIZE txs in
      r_bind (check_outputs tables symbol tx_chunks Map.empty) (\<lambda>m.
        check_inputs hex_encode hex_decode tables symbol tx_chunks m))"

subsection \<open>What is reported\<close>

definition reported :: "('k \<rightharpoonup> 'v list) \<Rightarrow> ('k \<times> 'v) set" where
  "reported m = {(k, v). \<exists>vs. m k = Some vs \<and> v \<in> set vs}"

lemma reported_empty [simp]: "reported Map.empty = {}"
  by (simp add: reported_def)

lemma reported_push [simp]: "reported (push_entry k v m) = reported m \<union> {(k, v)}"
  by (auto simp: reported_def push_entry_def split: option.splits if_splits)

lemma reported_fold_push: "reported (fold (\<lambda>k. push_entry k v) ks m) = reported m \<union> set ks \<times> {v}"
  using fold_union [where obs = reported and f = "\<lambda>k. push_entry k v" and c = "\<lambda>k. {(k, v)}"] by auto

lemma reported_script_to_txs:
  "reported (script_to_txs tx_chunk) = {(script, tx). tx \<in> set tx_chunk \<and> script \<in> set (output_script_pubkeys tx)}"
proof -
  have "reported (fold (\<lambda>script. push_entry script tx) scripts m) = reported m \<union> set scripts \<times> {tx}"
    for tx scripts and m :: "bytes \<rightharpoonup> chain_tx list"
    by (rule reported_fold_push)
  from fold_union [where obs = reported and c = "\<lambda>tx. set (output_script_pubkeys tx) \<times> {tx}", OF this]
  show ?thesis by (auto simp: script_to_txs_def)
qed

lemma reported_push_pubkey:
  "reported (push_pubkey (script_to_txs tx_chunk) r m) = reported m \<union>
     {tx \<in> set tx_chunk. spk_script r \<in> set (output_script_pubkeys tx)} \<times> {spk_swap_id r}"
proof -
  have "(script, tx) \<in> reported (script_to_txs tx_chunk)
      \<longleftrightarrow> tx \<in> set tx_chunk \<and> script \<in> set (output_script_pubkeys tx)" for script tx
    by (simp add: reported_script_to_txs)
  then have txs: "{tx. \<exists>txs. script_to_txs tx_chunk (spk_script r) = Some txs \<and> tx \<in> set txs}
      = {tx \<in> set tx_chunk. spk_script r \<in> set (output_script_pubkeys tx)}"
    by (auto simp: reported_def)
  show ?thesis
    by (cases "script_to_txs tx_chunk (spk_script r)")
      (use txs in \<open>auto simp: push_pubkey_def reported_fold_push\<close>)
qed

text \<open>A row of the script table is found in every transaction of the chunk that pays its script.\<close>

definition pays :: "string \<Rightarrow> chain_tx \<Rightarrow> script_pubkey \<Rightarrow> bool" where
  "pays symbol tx r \<longleftrightarrow> spk_symbol r = symbol \<and> spk_script r \<in> set (output_script_pubkeys tx)"

lemma check_outputs_chunk_reported:
  assumes "script_table tables = Ok rows" and "check_outputs_chunk tables symbol tx_chunk m = Ok m'"
  shows "reported m' = reported m \<union>
    {(tx, spk_swap_id r) | tx r. tx \<in> set tx_chunk \<and> r \<in> set rows \<and> pays symbol tx r}"
proof -
  let ?rows = "filter (\<lambda>r. spk_symbol r = symbol
      \<and> spk_script r \<in> set (remdups (concat (map output_script_pubkeys tx_chunk)))) rows"
  from assms have m': "m' = fold (push_pubkey (script_to_txs tx_chunk)) ?rows m"
    by (simp add: check_outputs_chunk_def get_by_scripts_def)
  have "reported m' = reported m \<union> (\<Union>r \<in> set ?rows.
      {tx \<in> set tx_chunk. spk_script r \<in> set (output_script_pubkeys tx)} \<times> {spk_swap_id r})"
    unfolding m' by (rule fold_union [where obs = reported]) (rule reported_push_pubkey)
  then show ?thesis by (auto simp: pays_def)
qed

text \<open>The lookup by outpoint: some transaction of the chunk that spends it, if there is one.\<close>

lemma fold_update_lookup:
  "fold (\<lambda>(k, v) m. m(k \<mapsto> v)) ps m k = (case map_of (rev ps) k of Some v \<Rightarrow> Some v | None \<Rightarrow> m k)"
  by (induction ps arbitrary: m) (auto split: option.splits)

lemma inputs_to_tx_Some:
  "inputs_to_tx tx_chunk op = Some tx \<Longrightarrow> tx \<in> set tx_chunk \<and> op \<in> set (input_outpoints tx)"
  by (auto simp: inputs_to_tx_def fold_update_lookup outpoint_pairs_def split: option.splits
      dest!: map_of_SomeD)

lemma inputs_to_tx_total:
  assumes "tx \<in> set tx_chunk" and "op \<in> set (input_outpoints tx)"
  shows "\<exists>tx'. inputs_to_tx tx_chunk op = Some tx'"
proof -
  have "op \<in> fst ` set (rev (outpoint_pairs tx_chunk))" using assms by (force simp: outpoint_pairs_def)
  then have "map_of (rev (outpoint_pairs tx_chunk)) op \<noteq> None" by (simp add: map_of_eq_None_iff)
  then show ?thesis by (auto simp: inputs_to_tx_def fold_update_lookup)
qed

lemma reported_push_swap:
  "reported (push_swap by_outpoint x m) = reported m
     \<union> {(tx, snd x) | tx op. fst x = Ok (Some op) \<and> by_outpoint op = Some tx}"
  by (cases x) (auto simp: push_swap_def split: result.splits option.splits)

text \<open>The outpoints that swaps of the tables send to, with the id of the swap.\<close>

definition sends ::
  "(string \<Rightarrow> bytes option) \<Rightarrow> string \<Rightarrow> reverse_swap list \<Rightarrow> chain_swap_info list
    \<Rightarrow> (swap_outpoint \<times> string) set" where
  "sends hex_decode symbol rss css =
     {(op, rs_id s) | op s. s \<in> set rss \<and> rs_sending_outpoint hex_decode s = Ok (Some op)}
     \<union> {(op, cs_id (ci_swap c)) | op c. c \<in> set css \<and> cd_symbol (ci_sending c) = symbol
          \<and> ci_sending_outpoint hex_decode c = Ok (Some op)}"

text \<open>Transaction ids are stored in the form the encoder prints.\<close>

definition canonical_id :: "(bytes \<Rightarrow> string) \<Rightarrow> (string \<Rightarrow> bytes option) \<Rightarrow> string option \<Rightarrow> bool" where
  "canonical_id hex_encode hex_decode i \<longleftrightarrow>
     (\<forall>s h. i = Some s \<longrightarrow> hex_decode s = Some h \<longrightarrow> s = hex_encode h)"

definition canonical_tables ::
  "(bytes \<Rightarrow> string) \<Rightarrow> (string \<Rightarrow> bytes option) \<Rightarrow> reverse_swap list \<Rightarrow> chain_swap_info list \<Rightarrow> bool"
where
  "canonical_tables hex_encode hex_decode rss css \<longleftrightarrow>
     (\<forall>s \<in> set rss. canonical_id hex_encode hex_decode (rs_transaction_id s))
     \<and> (\<forall>c \<in> set css. canonical_id hex_encode hex_decode (cd_transaction_id (ci_sending c)))"

lemma outpoint_of_canonical:
  assumes "outpoint_of hex_decode i v = Ok (Some op)" and "canonical_id hex_encode hex_decode i"
  shows "i = Some (hex_encode (rev (op_hash op)))"
  using assms by (auto simp: outpoint_of_def canonical_id_def split: option.splits)

lemma relevant_inputs_sound:
  "(Ok (Some op), i) \<in> set (relevant_inputs_of hex_decode symbol ids rss css)
    \<Longrightarrow> (op, i) \<in> sends hex_decode symbol rss css"
  by (auto simp: relevant_inputs_of_def sends_def)

lemma relevant_inputs_complete:
  assumes "canonical_tables hex_encode hex_decode rss css"
    and "(op, i) \<in> sends hex_decode symbol rss css" and "hex_encode (rev (op_hash op)) \<in> set ids"
  shows "(Ok (Some op), i) \<in> set (relevant_inputs_of hex_decode symbol ids rss css)"
proof -
  from assms(2) consider
    s where "s \<in> set rss" "rs_sending_outpoint hex_decode s = Ok (Some op)" "i = rs_id s"
  | c where "c \<in> set css" "cd_symbol (ci_sending c) = symbol"
      "ci_sending_outpoint hex_decode c = Ok (Some op)" "i = cs_id (ci_swap c)"
    by (auto simp: sends_def)
  then show ?thesis
  proof cases
    case 1
    then have "rs_transaction_id s = Some (hex_encode (rev (op_hash op)))"
      using assms(1) by (intro outpoint_of_canonical) (auto simp: rs_sending_outpoint_def canonical_tables_def)
    with 1 assms(3) show ?thesis by (force simp: relevant_inputs_of_def)
  next
    case 2
    then have "cd_transaction_id (ci_sending c) = Some (hex_encode (rev (op_hash op)))"
      using assms(1) by (intro outpoint_of_canonical) (auto simp: ci_sending_outpoint_def canonical_tables_def)
    with 2 assms(3) show ?thesis by (force simp: relevant_inputs_of_def)
  qed
qed

definition chunk_spends ::
  "(bytes \<Rightarrow> string) \<Rightarrow> (string \<Rightarrow> bytes option) \<Rightarrow> string \<Rightarrow> reverse_swap list \<Rightarrow> chain_swap_info list
    \<Rightarrow> chain_tx list \<Rightarrow> (chain_tx \<times> string) set" where
  "chunk_spends hex_encode hex_decode symbol rss css tx_chunk =
     {(tx, i). \<exists>op. (Ok (Some op), i) \<in> set (relevant_inputs_of hex_decode symbol
         (map (\<lambda>o'. hex_encode (rev (op_hash o'))) (remdups (map fst (outpoint_pairs tx_chunk)))) rss css)
       \<and> inputs_to_tx tx_chunk op = Some tx}"

lemma check_inputs_chunk_reported:
  assumes "reverse_table tables = Ok rss" and "chain_table tables = Ok css"
    and "check_inputs_chunk hex_encode hex_decode tables symbol tx_chunk m = Ok m'"
  shows "reported m' = reported m \<union> chunk_spends hex_encode hex_decode symbol rss css tx_chunk"
proof -
  let ?swaps = "relevant_inputs_of hex_decode symbol
    (map (\<lambda>o'. hex_encode (rev (op_hash o'))) (remdups (map fst (outpoint_pairs tx_chunk)))) rss css"
  from assms have m': "m' = fold (push_swap (inputs_to_tx tx_chunk)) ?swaps m"
    by (simp add: check_inputs_chunk_def Let_def)
  have "reported m' = reported m \<union> (\<Union>x \<in> set ?swaps.
      {(tx, snd x) | tx op. fst x = Ok (Some op) \<and> inputs_to_tx tx_chunk op = Some tx})"
    unfolding m' by (rule fold_union [where obs = reported]) (rule reported_push_swap)
  then show ?thesis by (force simp: chunk_spends_def)
qed

lemma chunk_spends_sound:
  "(tx, i) \<in> chunk_spends hex_encode hex_decode symbol rss css tx_chunk
    \<Longrightarrow> tx \<in> set tx_chunk \<and> (\<exists>op \<in> set (input_outpoints tx). (op, i) \<in> sends hex_decode symbol rss css)"
  by (auto simp: chunk_spends_def dest: relevant_inputs_sound inputs_to_tx_Some)

lemma chunk_spends_complete:
  assumes "canonical_tables hex_encode hex_decode rss css" and "(op, i) \<in> sends hex_decode symbol rss css"
    and "tx \<in> set tx_chunk" and "op \<in> set (input_outpoints tx)"
  shows "\<exists>tx'. op \<in> set (input_outpoints tx')
    \<and> (tx', i) \<in> chunk_spends hex_encode hex_decode symbol rss css tx_chunk"
proof -
  have "op \<in> set (map fst (outpoint_pairs tx_chunk))"
    using assms(3,4) by (force simp: outpoint_pairs_def)
  then have "(Ok (Some op), i) \<in> set (relevant_inputs_of hex_decode symbol
      (map (\<lambda>o'. hex_encode (rev (op_hash o'))) (remdups (map fst (outpoint_pairs tx_chunk)))) rss css)"
    by (intro relevant_inputs_complete [OF assms(1,2)]) auto
  moreover obtain tx' where "inputs_to_tx tx_chunk op = Some tx'"
    using inputs_to_tx_total [OF assms(3,4)] by blast
  ultimately show ?thesis by (auto simp: chunk_spends_def dest: inputs_to_tx_Some)
qed

text \<open>
  C13: A check reports the swaps a batch of transactions concerns. If the tables can be read, the
  check succeeds. Every swap it reports for a transaction of the batch either has a watched script
  among the outputs of the transaction or sent to an outpoint the transaction spends. Conversely
  every payment to a watched script is reported, and for every spent outpoint of a swap some
  transaction of the batch that spends it is reported with that swap, if the stored transaction
  ids are in the form the encoder prints.
\<close>

theorem check_txs_exact:
  assumes "script_table tables = Ok rows" and "reverse_table tables = Ok rss"
    and "chain_table tables = Ok css" and "canonical_tables hex_encode hex_decode rss css"
  shows "\<exists>m. check_txs hex_encode hex_decode tables symbol txs = Ok m
    \<and> reported m \<subseteq>
        {(tx, i). tx \<in> set txs \<and> ((\<exists>r \<in> set rows. pays symbol tx r \<and> i = spk_swap_id r)
           \<or> (\<exists>op \<in> set (input_outpoints tx). (op, i) \<in> sends hex_decode symbol rss css))}
    \<and> (\<forall>tx \<in> set txs. \<forall>r \<in> set rows. pays symbol tx r \<longrightarrow> (tx, spk_swap_id r) \<in> reported m)
    \<and> (\<forall>tx \<in> set txs. \<forall>op \<in> set (input_outpoints tx). \<forall>i. (op, i) \<in> sends hex_decode symbol rss css
         \<longrightarrow> (\<exists>tx'. op \<in> set (input_outpoints tx') \<and> (tx', i) \<in> reported m))"
proof -
  let ?cs = "chunks TX_CHUNK_SIZE txs"
  have cs: "(\<Union>c \<in> set ?cs. set c) = set txs" by (rule set_chunks) (simp add: TX_CHUNK_SIZE_def)
  obtain m1 where m1: "check_outputs tables symbol ?cs Map.empty = Ok m1"
    using r_fold_total [of "check_outputs_chunk tables symbol"] assms(1)
    by (fastforce simp: check_outputs_def check_outputs_chunk_def get_by_scripts_def)
  obtain m where m: "check_inputs hex_encode hex_decode tables symbol ?cs m1 = Ok m"
    using r_fold_total [of "check_inputs_chunk hex_encode hex_decode tables symbol"] assms(2,3)
    by (fastforce simp: check_inputs_def check_inputs_chunk_def Let_def)
  have "reported m1 = reported Map.empty \<union> (\<Union>c \<in> set ?cs.
      {(tx, spk_swap_id r) | tx r. tx \<in> set c \<and> r \<in> set rows \<and> pays symbol tx r})"
    using m1 unfolding check_outputs_def
    by (rule r_fold_union) (rule check_outputs_chunk_reported [OF assms(1)])
  moreover have "reported m = reported m1
      \<union> (\<Union>c \<in> set ?cs. chunk_spends hex_encode hex_decode symbol rss css c)"
    using m unfolding check_inputs_def
    by (rule r_fold_union) (rule check_inputs_chunk_reported [OF assms(2,3)])
  ultimately have rep: "reported m =
      (\<Union>c \<in> set ?cs. {(tx, spk_swap_id r) | tx r. tx \<in> set c \<and> r \<in> set rows \<and> pays symbol tx r})
      \<union> (\<Union>c \<in> set ?cs. chunk_spends hex_encode hex_decode symbol rss css c)"
    by simp
  have sound: "reported m \<subseteq> {(tx, i). tx \<in> set txs \<and> ((\<exists>r \<in> set rows. pays symbol tx r \<and> i = spk_swap_id r)
      \<or> (\<exists>op \<in> set (input_outpoints tx). (op, i) \<in> sends hex_decode symbol rss css))}"
    unfolding rep cs [symmetric] by (auto dest: chunk_spends_sound)
  have outputs: "\<forall>tx \<in> set txs. \<forall>r \<in> set rows. pays symbol tx r \<longrightarrow> (tx, spk_swap_id r) \<in> reported m"
    unfolding cs [symmetric] rep by blast
  have inputs: "\<exists>tx'. op \<in> set (input_outpoints tx') \<and> (tx', i) \<in> reported m"
    if "tx \<in> set txs" "op \<in> set (input_outpoints tx)" "(op, i) \<in> sends hex_decode symbol rss css" for tx op i
  proof -
    from that(1) cs obtain c where c: "c \<in> set ?cs" "tx \<in> set c" by auto
    from chunk_spends_complete [OF assms(4) that(3) c(2) that(2)] obtain tx' where
      tx': "op \<in> set (input_outpoints tx')" "(tx', i) \<in> chunk_spends hex_encode hex_decode symbol rss css c"
      by blast
    with c(1) show ?thesis unfolding rep by (intro exI [of _ tx'] conjI UnI2 UN_I)
  qed
  have "check_txs hex_encode hex_decode tables symbol txs = Ok m" using m1 m by (simp add: check_txs_def)
  then show ?thesis using sound outputs inputs by (intro exI [of _ m] conjI) (assumption, assumption, assumption, blast)
qed


definition example_tables :: check_tables where
  "example_tables = \<lparr>script_table = Ok [\<lparr>spk_swap_id = ''a'', spk_symbol = ''BTC'', spk_script = [3]\<rparr>],
     reverse_table = Ok [], chain_table = Ok []\<rparr>"

theorem check_txs_exact_witness:
  "\<exists>m. check_txs (\<lambda>_. []) (\<lambda>_. None) example_tables ''BTC'' [TxBitcoin example_spending_tx] = Ok m
     \<and> (TxBitcoin example_spending_tx, ''a'') \<in> reported m"
proof -
  let ?r = "\<lparr>spk_swap_id = ''a'', spk_symbol = ''BTC'', spk_script = [3]\<rparr>"
  have "script_table example_tables = Ok [?r]" "reverse_table example_tables = Ok []"
    "chain_table example_tables = Ok []"
    by (simp_all add: example_tables_def)
  note tables = this
  have "canonical_tables (\<lambda>_. []) (\<lambda>_. None) [] []" by (simp add: canonical_tables_def)
  from check_txs_exact [OF tables this, of "''BTC''" "[TxBitcoin example_spending_tx]"] obtain m where
    m: "check_txs (\<lambda>_. []) (\<lambda>_. None) example_tables ''BTC'' [TxBitcoin example_spending_tx] = Ok m"
    and found: "\<forall>tx \<in> set [TxBitcoin example_spending_tx]. \<forall>r \<in> set [?r]. pays ''BTC'' tx r
      \<longrightarrow> (tx, spk_swap_id r) \<in> reported m"
    by blast
  have "pays ''BTC'' (TxBitcoin example_spending_tx) ?r" by (simp add: pays_def example_spending_tx_def)
  with m found show ?thesis by simp
qed

end
