(* ===== verification/Utxo_Nursery.thy ===== *)
theory Utxo_Nursery
  imports Tx_Check
begin

text \<open>
  The UTXO nursery, \<open>src/boltzr/src/swap/utxo_nursery.rs\<close>: it checks the transactions of the chain
  clients for relevant ones, announces these to its subscribers and stores the chain tips. A chain
  client is the record \<open>nursery_client\<close>; \<open>keys_of\<close> lists the keys of a hash map. What a call sends on
  the broadcast channel is returned beside its result, since a call may fail after it has sent.
\<close>

datatype tx_status = TxConfirmed | ZeroConfSafe | NotSafe

record relevant_tx =
  rt_symbol :: string
  rt_tx :: chain_tx
  rt_status :: tx_status
  rt_swaps :: "string list"

datatype nursery_error =
    CurrencyNotFound string | NoChainClient string | NurseryClient | NurseryChain chain_error
  | NurseryCheck check_error | SwapIdsNotFound | NurseryDb

record nursery_client =
  nc_symbol :: string
  nc_type :: chain_type
  nc_zero_conf_safe :: "chain_tx \<Rightarrow> bool option"
  nc_raw_verbose :: "string \<Rightarrow> (string \<times> u64 option) option"

record nursery =
  nu_currencies :: "string \<rightharpoonup> nursery_client option"
  nu_check :: "string \<Rightarrow> chain_tx list \<Rightarrow> (check_error, relevant_swaps) result"
  nu_receivers :: nat
  nu_keys_of :: "relevant_swaps \<Rightarrow> chain_tx list"
  nu_lib :: chain_lib

text \<open>The status of one transaction; a failed 0-conf check counts as not safe.\<close>

definition status_of_tx :: "nursery_client \<Rightarrow> bool \<Rightarrow> chain_tx \<Rightarrow> tx_status" where
  "status_of_tx client confirmed tx =
     (if confirmed then TxConfirmed
      else (case nc_zero_conf_safe client tx of
              Some safe \<Rightarrow> if safe then ZeroConfSafe else NotSafe
            | None \<Rightarrow> NotSafe))"

text \<open>The loop that removes the ids of each transaction from the map and sends them.\<close>

fun announce ::
  "string \<Rightarrow> relevant_swaps \<Rightarrow> (chain_tx \<times> tx_status) list
    \<Rightarrow> relevant_tx list \<times> (nursery_error, unit) result" where
  "announce symbol m [] = ([], Ok ())"
| "announce symbol m ((tx, status) # rest) =
     (case m tx of
        None \<Rightarrow> ([], Err SwapIdsNotFound)
      | Some ids \<Rightarrow>
          (case announce symbol (m(tx := None)) rest of
             (sent, r) \<Rightarrow>
               (\<lparr>rt_symbol = symbol, rt_tx = tx, rt_status = status, rt_swaps = ids\<rparr> # sent, r)))"

definition nursery_check_tx ::
  "nursery \<Rightarrow> string \<Rightarrow> nursery_client \<Rightarrow> chain_tx list \<Rightarrow> bool
    \<Rightarrow> relevant_tx list \<times> (nursery_error, unit) result" where
  "nursery_check_tx n symbol client txs confirmed =
     (case nu_check n symbol txs of
        Err e \<Rightarrow> ([], Err (NurseryCheck e))
      | Panic \<Rightarrow> ([], Panic)
      | Ok relevant \<Rightarrow>
          if nu_receivers n = 0 then ([], Ok ())
          else (let tx_vec = nu_keys_of n relevant;
                    statuses = map (status_of_tx client confirmed) tx_vec
                in announce symbol relevant (zip tx_vec statuses)))"

definition is_confirmed :: "u64 option \<Rightarrow> bool" where
  "is_confirmed confirmations = (case confirmations of Some c \<Rightarrow> c > 0 | None \<Rightarrow> False)"

definition check_transaction ::
  "nursery \<Rightarrow> string \<Rightarrow> string \<Rightarrow> relevant_tx list \<times> (nursery_error, unit) result" where
  "check_transaction n symbol tx_id =
     (case nu_currencies n symbol of
        None \<Rightarrow> ([], Err (CurrencyNotFound symbol))
      | Some None \<Rightarrow> ([], Err (NoChainClient symbol))
      | Some (Some client) \<Rightarrow>
          (case nc_raw_verbose client tx_id of
             None \<Rightarrow> ([], Err NurseryClient)
           | Some (hex, confirmations) \<Rightarrow>
               (case chain_tx_parse_hex (nu_lib n) (nc_type client) hex of
                  Err e \<Rightarrow> ([], Err (NurseryChain e))
                | Panic \<Rightarrow> ([], Panic)
                | Ok tx \<Rightarrow> nursery_check_tx n symbol client [tx] (is_confirmed confirmations))))"

subsection \<open>The listening loop\<close>

text \<open>
  What \<open>select!\<close> yields in one iteration. A block event carries whether the database accepts the
  height. \<open>height as i32\<close> keeps the low bits.
\<close>

datatype nursery_event =
    TxEvent "chain_tx list" bool | TxLagged | BlockEvent u64 bool | BlockLagged | StreamClosed | Cancelled

record nursery_state =
  ns_sent :: "relevant_tx list"
  ns_heights :: "string \<rightharpoonup> i32"

definition nursery_check_block :: "string \<Rightarrow> u64 \<Rightarrow> bool \<Rightarrow> nursery_state \<Rightarrow> nursery_state" where
  "nursery_check_block symbol height db_ok st =
     (if db_ok then st\<lparr>ns_heights := (ns_heights st)(symbol \<mapsto> ucast height)\<rparr> else st)"

fun nursery_listen :: "nursery \<Rightarrow> nursery_client \<Rightarrow> nursery_event list \<Rightarrow> nursery_state \<Rightarrow> nursery_state" where
  "nursery_listen n client [] st = st"
| "nursery_listen n client (TxEvent txs confirmed # es) st =
     nursery_listen n client es
       (st\<lparr>ns_sent := ns_sent st @ fst (nursery_check_tx n (nc_symbol client) client txs confirmed)\<rparr>)"
| "nursery_listen n client (BlockEvent height db_ok # es) st =
     nursery_listen n client es (nursery_check_block (nc_symbol client) height db_ok st)"
| "nursery_listen n client (TxLagged # es) st = nursery_listen n client es st"
| "nursery_listen n client (BlockLagged # es) st = nursery_listen n client es st"
| "nursery_listen n client (StreamClosed # es) st = st"
| "nursery_listen n client (Cancelled # es) st = st"

subsection \<open>Properties\<close>

definition relevant_tx_of ::
  "nursery_client \<Rightarrow> string \<Rightarrow> bool \<Rightarrow> relevant_swaps \<Rightarrow> chain_tx \<Rightarrow> relevant_tx" where
  "relevant_tx_of client symbol confirmed m tx =
     \<lparr>rt_symbol = symbol, rt_tx = tx, rt_status = status_of_tx client confirmed tx, rt_swaps = the (m tx)\<rparr>"

lemma announce_all:
  assumes "distinct txs" and "set txs \<subseteq> dom m"
  shows "announce symbol m (zip txs (map (status_of_tx client confirmed) txs))
    = (map (relevant_tx_of client symbol confirmed m) txs, Ok ())"
  using assms
proof (induction txs arbitrary: m)
  case Nil
  then show ?case by simp
next
  case (Cons tx txs)
  then obtain ids where ids: "m tx = Some ids" by auto
  from Cons.prems have "announce symbol (m(tx := None)) (zip txs (map (status_of_tx client confirmed) txs))
      = (map (relevant_tx_of client symbol confirmed (m(tx := None))) txs, Ok ())"
    by (intro Cons.IH) auto
  moreover have "map (relevant_tx_of client symbol confirmed (m(tx := None))) txs
      = map (relevant_tx_of client symbol confirmed m) txs"
    using Cons.prems(1) by (auto simp: relevant_tx_of_def)
  ultimately show ?case by (simp add: ids) (simp add: relevant_tx_of_def ids)
qed

text \<open>The hash map lists each of its keys once.\<close>

definition lists_keys :: "(relevant_swaps \<Rightarrow> chain_tx list) \<Rightarrow> relevant_swaps \<Rightarrow> bool" where
  "lists_keys keys_of m \<longleftrightarrow> distinct (keys_of m) \<and> set (keys_of m) = dom m"

text \<open>
  C14: The nursery announces every relevant transaction once. If the check succeeds and someone
  listens, the call succeeds, and it sends exactly one message for each transaction the check
  found, with the symbol, the swaps of the check, and the status: confirmed transactions are
  announced as confirmed, others as safe only if the client vouches for them. Without subscribers
  and after a failed check nothing is sent.
\<close>

theorem nursery_announces_once:
  assumes "\<And>m. nu_check n symbol txs = Ok m \<Longrightarrow> lists_keys (nu_keys_of n) m"
  shows "case nu_check n symbol txs of
      Ok m \<Rightarrow>
        if nu_receivers n = 0 then nursery_check_tx n symbol client txs confirmed = ([], Ok ())
        else \<exists>tx_vec. distinct tx_vec \<and> set tx_vec = dom m
          \<and> nursery_check_tx n symbol client txs confirmed
              = (map (\<lambda>tx. \<lparr>rt_symbol = symbol, rt_tx = tx,
                   rt_status = (if confirmed then TxConfirmed
                     else if nc_zero_conf_safe client tx = Some True then ZeroConfSafe else NotSafe),
                   rt_swaps = the (m tx)\<rparr>) tx_vec, Ok ())
    | Err e \<Rightarrow> nursery_check_tx n symbol client txs confirmed = ([], Err (NurseryCheck e))
    | Panic \<Rightarrow> nursery_check_tx n symbol client txs confirmed = ([], Panic)"
proof (cases "nu_check n symbol txs")
  case (Ok m)
  have keys: "distinct (nu_keys_of n m)" "set (nu_keys_of n m) = dom m"
    using assms Ok by (auto simp: lists_keys_def)
  have "status_of_tx client confirmed tx = (if confirmed then TxConfirmed
      else if nc_zero_conf_safe client tx = Some True then ZeroConfSafe else NotSafe)" for tx
    by (simp add: status_of_tx_def split: option.splits)
  then have "relevant_tx_of client symbol confirmed m = (\<lambda>tx. \<lparr>rt_symbol = symbol, rt_tx = tx,
      rt_status = (if confirmed then TxConfirmed
        else if nc_zero_conf_safe client tx = Some True then ZeroConfSafe else NotSafe),
      rt_swaps = the (m tx)\<rparr>)"
    by (simp add: fun_eq_iff relevant_tx_of_def)
  with announce_all [of "nu_keys_of n m" m symbol client confirmed] keys Ok show ?thesis
    by (auto simp: nursery_check_tx_def Let_def)
qed (simp_all add: nursery_check_tx_def)

text \<open>An event that fails or lags leaves the loop running: the later events are still handled.\<close>

fun stops :: "nursery_event \<Rightarrow> bool" where
  "stops StreamClosed = True"
| "stops Cancelled = True"
| "stops _ = False"

lemma nursery_listen_append:
  assumes "\<forall>e \<in> set es. \<not> stops e"
  shows "nursery_listen n client (es @ es') st = nursery_listen n client es' (nursery_listen n client es st)"
  using assms by (induction n client es st rule: nursery_listen.induct) auto

definition example_nursery :: nursery where
  "example_nursery = \<lparr>nu_currencies = Map.empty,
     nu_check = (\<lambda>_ _. Ok [TxBitcoin example_spending_tx \<mapsto> [''a'']]), nu_receivers = 1,
     nu_keys_of = (\<lambda>_. [TxBitcoin example_spending_tx]), nu_lib = example_chain_lib\<rparr>"

definition example_client :: nursery_client where
  "example_client = \<lparr>nc_symbol = ''BTC'', nc_type = TypeBitcoin, nc_zero_conf_safe = (\<lambda>_. Some True),
     nc_raw_verbose = (\<lambda>_. None)\<rparr>"

theorem nursery_announces_once_witness:
  "nursery_check_tx example_nursery ''BTC'' example_client [TxBitcoin example_spending_tx] False
     = ([\<lparr>rt_symbol = ''BTC'', rt_tx = TxBitcoin example_spending_tx, rt_status = ZeroConfSafe,
          rt_swaps = [''a'']\<rparr>], Ok ())"
proof -
  let ?tx = "TxBitcoin example_spending_tx"
  have check: "nu_check example_nursery ''BTC'' [?tx] = Ok [?tx \<mapsto> [''a'']]"
    and receivers: "nu_receivers example_nursery = 1"
    and safe: "nc_zero_conf_safe example_client = (\<lambda>_. Some True)"
    by (simp_all add: example_nursery_def example_client_def)
  have "lists_keys (nu_keys_of example_nursery) m"
    if "nu_check example_nursery ''BTC'' [?tx] = Ok m" for m
    using that by (auto simp: lists_keys_def example_nursery_def split: if_splits)
  from nursery_announces_once [of example_nursery "''BTC''" "[?tx]" example_client False, OF this] obtain tx_vec where
    "distinct tx_vec" "set tx_vec = {?tx}"
    "nursery_check_tx example_nursery ''BTC'' example_client [?tx] False
       = (map (\<lambda>tx. \<lparr>rt_symbol = ''BTC'', rt_tx = tx, rt_status = ZeroConfSafe,
            rt_swaps = the ([?tx \<mapsto> [''a'']] tx)\<rparr>) tx_vec, Ok ())"
    unfolding check by (auto simp: receivers safe)
  moreover from this(1,2) have "tx_vec = [?tx]"
    by (cases tx_vec) (auto simp: subset_singleton_iff)
  ultimately show ?thesis by simp
qed

end
