(* ===== verification/Timeout_Delta.thy ===== *)
theory Timeout_Delta
  imports Swap_Types F64
begin

text \<open>
  Timeout deltas, \<open>src/boltzr/src/swap/timeout_delta.rs\<close>. The static map \<open>BLOCK_TIMES\<close> is a value
  of type \<open>block_times\<close> that \<open>new\<close> takes and returns; it cannot be poisoned, since a panic aborts
  the process. The currencies are listed in the order in which the hash map iterates.
\<close>

definition LIGHTNING_BUFFER :: u64 where
  "LIGHTNING_BUFFER = 15"

definition CROSS_CHAIN_BUFFER_FACTOR :: f64 where
  "CROSS_CHAIN_BUFFER_FACTOR = Finite (1 / 4)"

type_synonym block_times = "string \<rightharpoonup> f64"

definition BLOCK_TIMES :: block_times where
  "BLOCK_TIMES = map_of
     [(''BTC'', Finite 10), (''ARK'', Finite 10), (''LTC'', Finite (5 / 2)),
      (''RBTC'', f64_div (Finite 25) (Finite 60)), (''ETH'', f64_round (1 / 5)),
      (''ARB'', f64_round (1 / 5)), (''L-BTC'', Finite 1)]"

record pair_timeout_block_delta =
  td_chain :: u64
  td_reverse :: u64
  td_swap_minimal :: u64
  td_swap_maximal :: u64
  td_swap_taproot :: u64

record pair_config =
  pc_base :: string
  pc_quote :: string
  pc_timeout_delta :: pair_timeout_block_delta

record pair_timeout_block_deltas =
  tds_base :: pair_timeout_block_delta
  tds_quote :: pair_timeout_block_delta

datatype td_error =
    NoBlockTime string | NoTimeouts string | TdPair pair_error
  | InvalidTimeoutBlockDelta | NotImplemented

definition get_block_time :: "block_times \<Rightarrow> string \<Rightarrow> (td_error, f64) result" where
  "get_block_time bt symbol = ok_or (NoBlockTime symbol) (bt symbol)"

definition calculate_blocks :: "block_times \<Rightarrow> string \<Rightarrow> u64 \<Rightarrow> (td_error, u64) result" where
  "calculate_blocks bt symbol minutes =
     r_bind (get_block_time bt symbol) (\<lambda>minutes_per_block.
       let blocks = f64_to_u64 (f64_ceil (f64_div (f64_of_u64 minutes) minutes_per_block))
       in if blocks < 1 then Err InvalidTimeoutBlockDelta else Ok blocks)"

definition convert_to_blocks ::
  "block_times \<Rightarrow> string \<Rightarrow> pair_timeout_block_delta \<Rightarrow> (td_error, pair_timeout_block_delta) result"
where
  "convert_to_blocks bt symbol deltas =
     r_bind (calculate_blocks bt symbol (td_chain deltas)) (\<lambda>c.
     r_bind (calculate_blocks bt symbol (td_reverse deltas)) (\<lambda>r.
     r_bind (calculate_blocks bt symbol (td_swap_minimal deltas)) (\<lambda>mi.
     r_bind (calculate_blocks bt symbol (td_swap_maximal deltas)) (\<lambda>ma.
     r_bind (calculate_blocks bt symbol (td_swap_taproot deltas)) (\<lambda>t.
       Ok \<lparr>td_chain = c, td_reverse = r, td_swap_minimal = mi, td_swap_maximal = ma,
           td_swap_taproot = t\<rparr>)))))"

definition minutes_to_blocks ::
  "block_times \<Rightarrow> string \<Rightarrow> pair_timeout_block_delta \<Rightarrow> (td_error, pair_timeout_block_deltas) result"
where
  "minutes_to_blocks bt p deltas =
     r_bind (r_map_err TdPair (split_pair p)) (\<lambda>pr.
     r_bind (convert_to_blocks bt (pair_base pr) deltas) (\<lambda>b.
     r_bind (convert_to_blocks bt (pair_quote pr) deltas) (\<lambda>q.
       Ok \<lparr>tds_base = b, tds_quote = q\<rparr>)))"

definition convert_blocks ::
  "block_times \<Rightarrow> string \<Rightarrow> string \<Rightarrow> u64 \<Rightarrow> (td_error, u64) result" where
  "convert_blocks bt from_symbol to_symbol blocks =
     r_bind (get_block_time bt from_symbol) (\<lambda>from_time.
       let minutes = f64_mul (f64_of_u64 blocks) from_time
       in r_bind (get_block_time bt to_symbol) (\<lambda>to_time.
            Ok (f64_to_u64 (f64_ceil (f64_div minutes to_time)))))"

definition lightning_buffer :: "pair \<Rightarrow> u64 \<Rightarrow> u64" where
  "lightning_buffer pr lightning_delta =
     (if pair_base pr = pair_quote pr then LIGHTNING_BUFFER
      else f64_to_u64 (f64_ceil (f64_mul (f64_of_u64 lightning_delta) CROSS_CHAIN_BUFFER_FACTOR)))"

text \<open>The provider is its map from pair ids to deltas. The final addition wraps.\<close>

type_synonym timeout_deltas = "string \<rightharpoonup> pair_timeout_block_deltas"

definition get_timeouts ::
  "block_times \<Rightarrow> timeout_deltas \<Rightarrow> string \<Rightarrow> order_side \<Rightarrow> swap_type \<Rightarrow> (td_error, u64 \<times> u64) result"
where
  "get_timeouts bt tds p side kind =
     r_bind (ok_or (NoTimeouts p) (tds p)) (\<lambda>timeouts.
     r_bind (r_map_err TdPair (split_pair p)) (\<lambda>pr.
     case kind of
       Reverse \<Rightarrow>
         (let onchain_delta = (if side = Buy then td_reverse (tds_base timeouts)
                               else td_reverse (tds_quote timeouts))
          in r_bind (convert_blocks bt
                       (if side = Buy then pair_base pr else pair_quote pr)
                       (if side = Buy then pair_quote pr else pair_base pr) onchain_delta)
               (\<lambda>lightning_delta.
                 Ok (onchain_delta, lightning_delta + lightning_buffer pr lightning_delta)))
     | _ \<Rightarrow> Err NotImplemented))"

subsection \<open>Construction\<close>

text \<open>A currency is its symbol and, when it has an EVM manager, the token symbols of the manager.\<close>

type_synonym td_currency = "string \<times> string list option"

definition add_evm_tokens :: "td_currency \<Rightarrow> block_times \<Rightarrow> (td_error, block_times) result" where
  "add_evm_tokens currency bt =
     (case currency of
        (symbol, Some tokens) \<Rightarrow>
          r_bind (ok_or (NoBlockTime symbol) (bt symbol)) (\<lambda>block_time.
            Ok (fold (\<lambda>token m. m(token \<mapsto> block_time)) tokens bt))
      | (_, None) \<Rightarrow> Ok bt)"

definition add_pair :: "block_times \<Rightarrow> pair_config \<Rightarrow> timeout_deltas \<Rightarrow> (td_error, timeout_deltas) result"
where
  "add_pair bt p tds =
     (let i = concat_pair (pc_base p) (pc_quote p)
      in r_bind (minutes_to_blocks bt i (pc_timeout_delta p)) (\<lambda>deltas. Ok (tds(i \<mapsto> deltas))))"

text \<open>The loop over the currencies stops at the first error but keeps what it has inserted.\<close>

fun add_all_evm_tokens :: "td_currency list \<Rightarrow> block_times \<Rightarrow> block_times \<times> (td_error, unit) result" where
  "add_all_evm_tokens [] bt = (bt, Ok ())"
| "add_all_evm_tokens (c # cs) bt =
     (case add_evm_tokens c bt of
        Ok bt' \<Rightarrow> add_all_evm_tokens cs bt'
      | Err e \<Rightarrow> (bt, Err e)
      | Panic \<Rightarrow> (bt, Panic))"

definition timeout_delta_provider_new ::
  "block_times \<Rightarrow> td_currency list \<Rightarrow> pair_config list
    \<Rightarrow> block_times \<times> (td_error, timeout_deltas) result" where
  "timeout_delta_provider_new bt currencies pairs =
     (case add_all_evm_tokens currencies bt of
        (bt', r) \<Rightarrow> (bt', r_bind r (\<lambda>_. r_fold (add_pair bt') pairs Map.empty)))"

subsection \<open>Rounding\<close>

abbreviation eps :: rat where
  "eps \<equiv> 1 / 2 ^ 53"

lemma min_normal_small: "min_normal \<le> 1 / 2 ^ 30"
  unfolding min_normal_def by (simp only: power_int_minus) (simp add: field_simps)

lemma f64_round_bounds:
  assumes "1 / 2 ^ 30 \<le> x" and "x \<le> 2 ^ 63"
  obtains y where "f64_round x = Finite y" "x * (1 - eps) \<le> y" "y \<le> x * (1 + eps)" "0 \<le> y"
    "y \<le> of_nat u64_max"
proof -
  have x0: "0 \<le> x" using assms(1) by (rule order.trans [rotated]) simp
  have big: "x \<le> 2 ^ 1000" using assms(2) by (rule order.trans) simp
  have normal: "min_normal \<le> x" using min_normal_small assms(1) by (rule order.trans)
  have le: "fl x \<le> x * (1 + eps)" using normal by (rule fl_relative(2))
  also have "\<dots> \<le> 2 ^ 63 * (1 + eps)" using assms(2) by (intro mult_right_mono) auto
  also have "\<dots> \<le> of_nat u64_max" by (simp add: u64_max_def)
  finally show ?thesis
    using that [OF f64_round_Finite [OF x0 big] fl_relative(1) [OF normal] le fl_nonneg [OF x0]] by blast
qed

lemma ceil_bounds:
  assumes "0 \<le> y" and "y \<le> of_nat u64_max"
  shows "y \<le> of_nat (unat (f64_to_u64 (f64_ceil (Finite y))))"
    and "of_nat (unat (f64_to_u64 (f64_ceil (Finite y)))) < y + 1"
proof -
  show "y \<le> of_nat (unat (f64_to_u64 (f64_ceil (Finite y))))" using assms by (rule ceil_to_u64_ge)
  have "of_int \<lceil>y\<rceil> < y + 1" by linarith
  moreover have "(of_nat (nat \<lceil>y\<rceil>) :: rat) = of_int \<lceil>y\<rceil>" using assms(1) by simp
  ultimately show "of_nat (unat (f64_to_u64 (f64_ceil (Finite y)))) < y + 1"
    by (simp only: ceil_to_u64 [OF assms])
qed

text \<open>Block times in the range the arithmetic below is proved for; the built-in ones are.\<close>

definition plausible :: "rat \<Rightarrow> bool" where
  "plausible t \<longleftrightarrow> 1 / 1000 \<le> t \<and> t \<le> 1000"

text \<open>The conversion loses at most two roundings and gains less than one block.\<close>

lemma plausible_div:
  assumes "plausible t" and "0 \<le> m"
  shows "m / 1000 \<le> m / t" and "m / t \<le> 1000 * m" and "0 < t"
proof -
  have t: "1 / 1000 \<le> t" "t \<le> 1000" using assms(1) by (simp_all add: plausible_def)
  then show t0: "0 < t" by (auto intro: order.strict_trans2 [of 0 "1 / 1000"])
  show "m / 1000 \<le> m / t" using t t0 assms(2) by (intro divide_left_mono) auto
  have "1 / t \<le> 1000" using t t0 by (simp add: field_simps)
  then have "m * (1 / t) \<le> m * 1000" using assms(2) by (rule mult_left_mono)
  then show "m / t \<le> 1000 * m" by (simp add: mult.commute)
qed

lemma convert_blocks_value:
  assumes b: "1 \<le> unat b" "unat b < 2 ^ 32" and f: "plausible f" and t: "plausible t"
    and c: "c = f64_to_u64 (f64_ceil (f64_div (f64_mul (f64_of_u64 b) (Finite f)) (Finite t)))"
  shows "of_nat (unat b) * f / t * (1 - eps) ^ 2 \<le> of_nat (unat c)"
    and "unat c < 2 ^ 53"
proof -
  define X where "X = of_nat (unat b) * f"
  have b1: "(1 :: rat) \<le> of_nat (unat b)" using b(1) by simp
  have "(of_nat (unat b) :: rat) < of_nat (2 ^ 32)" using b(2) by (simp only: of_nat_less_iff)
  then have b2: "(of_nat (unat b) :: rat) \<le> 4294967296" by simp
  have f1: "1 / 1000 \<le> f" "f \<le> 1000" using f by (simp_all add: plausible_def)
  have x1: "1 / 1000 \<le> X" using mult_mono [OF b1 f1(1)] b1 by (simp add: X_def)
  have x2: "X \<le> 4294967296 * 1000" unfolding X_def using b2 f1 by (intro mult_mono) auto
  have "1 / 2 ^ 30 \<le> X" "X \<le> 2 ^ 63" using x1 x2 by simp_all
  then obtain m where m: "f64_round X = Finite m" "X * (1 - eps) \<le> m" "m \<le> X * (1 + eps)" "0 \<le> m"
    by (rule f64_round_bounds)
  note Y = plausible_div [OF t m(4)]
  have "1 / 2 ^ 30 \<le> m / t" using Y(1) m(2) x1 by simp
  moreover have "m / t \<le> 2 ^ 63" using Y(2) m(3) x2 by simp
  ultimately obtain z where z: "f64_round (m / t) = Finite z" "m / t * (1 - eps) \<le> z"
    "z \<le> m / t * (1 + eps)" "0 \<le> z" "z \<le> of_nat u64_max"
    by (rule f64_round_bounds)
  have "unat b < 2 ^ 53" using b(2) by simp
  then have cz: "c = f64_to_u64 (f64_ceil (Finite z))"
    using Y(3) by (simp only: c f64_of_u64_exact f64_mul.simps X_def [symmetric] m(1) f64_div.simps z(1)) simp
  note ceil = ceil_bounds [OF z(4,5), folded cz]
  have "X / t * (1 - eps) ^ 2 = X * (1 - eps) / t * (1 - eps)" by (simp add: power2_eq_square)
  also have "\<dots> \<le> m / t * (1 - eps)" using m(2) Y(3) by (intro mult_right_mono divide_right_mono) auto
  also have "\<dots> \<le> of_nat (unat c)" using z(2) ceil(1) by (rule order.trans)
  finally show "of_nat (unat b) * f / t * (1 - eps) ^ 2 \<le> of_nat (unat c)" by (simp only: X_def)
  have "of_nat (unat c) < (of_nat (2 ^ 53) :: rat)" using ceil(2) z(3) Y(2) m(3) x2 by simp
  then show "unat c < 2 ^ 53" by (simp only: of_nat_less_iff)
qed

lemma cross_chain_buffer_value:
  assumes c: "1 \<le> unat c" "unat c < 2 ^ 53"
    and k: "k = f64_to_u64 (f64_ceil (f64_mul (f64_of_u64 c) CROSS_CHAIN_BUFFER_FACTOR))"
  shows "of_nat (unat c) / 4 * (1 - eps) \<le> of_nat (unat k)" and "unat k < 2 ^ 53"
proof -
  let ?c = "of_nat (unat c) :: rat"
  have c1: "1 \<le> ?c" using c(1) by simp
  have "?c < of_nat (2 ^ 53)" using c(2) by (simp only: of_nat_less_iff)
  then have c2: "?c \<le> 2 ^ 53" by simp
  have "1 / 2 ^ 30 \<le> ?c * (1 / 4)" "?c * (1 / 4) \<le> 2 ^ 63" using c1 c2 by simp_all
  then obtain z where z: "f64_round (?c * (1 / 4)) = Finite z" "?c * (1 / 4) * (1 - eps) \<le> z"
    "z \<le> ?c * (1 / 4) * (1 + eps)" "0 \<le> z" "z \<le> of_nat u64_max"
    by (rule f64_round_bounds)
  have kz: "k = f64_to_u64 (f64_ceil (Finite z))"
    by (simp only: k f64_of_u64_exact [OF c(2)] CROSS_CHAIN_BUFFER_FACTOR_def f64_mul.simps z(1))
  note ceil = ceil_bounds [OF z(4,5), folded kz]
  show "?c / 4 * (1 - eps) \<le> of_nat (unat k)" using z(2) ceil(1) by simp
  have "of_nat (unat k) < (of_nat (2 ^ 53) :: rat)" using ceil(2) z(3) c2 by simp
  then show "unat k < 2 ^ 53" by (simp only: of_nat_less_iff)
qed

lemma unat_add_small: "unat a < 2 ^ 53 \<Longrightarrow> unat b < 2 ^ 53 \<Longrightarrow> unat (a + b :: u64) = unat a + unat b"
  by (rule unat_add_u64) (simp add: u64_max_def)

text \<open>The Lightning delta of two different chains: a fifth longer than the on-chain delta.\<close>

lemma lightning_delta_cross:
  assumes b: "1 \<le> unat b" "unat b < 2 ^ 32" and f: "plausible f" and t: "plausible t"
    and c: "c = f64_to_u64 (f64_ceil (f64_div (f64_mul (f64_of_u64 b) (Finite f)) (Finite t)))"
    and k: "k = f64_to_u64 (f64_ceil (f64_mul (f64_of_u64 c) CROSS_CHAIN_BUFFER_FACTOR))"
  shows "6 / 5 * (of_nat (unat b) * f) \<le> of_nat (unat (c + k)) * t"
proof -
  note cv = convert_blocks_value [OF b f t c]
  define X where "X = of_nat (unat b) * f"
  have t0: "0 < t" using t plausible_div(3) by blast
  have f0: "0 < f" using f plausible_div(3) by blast
  have X0: "0 < X" using b(1) f0 by (simp add: X_def)
  have "0 < X / t * (1 - eps) ^ 2" using X0 t0 by simp
  then have "0 < (of_nat (unat c) :: rat)" using cv(1) unfolding X_def by (rule order.strict_trans2)
  then have c1: "1 \<le> unat c" by simp
  note kv = cross_chain_buffer_value [OF c1 cv(2) k]
  have "6 / 5 * X \<le> X * ((1 - eps) ^ 2 * (1 + (1 - eps) / 4))" using X0 by (simp add: power2_eq_square)
  also have "\<dots> = X / t * (1 - eps) ^ 2 * (1 + (1 - eps) / 4) * t" using t0 by simp
  also have "\<dots> \<le> of_nat (unat c) * (1 + (1 - eps) / 4) * t"
    using cv(1) t0 unfolding X_def by (intro mult_right_mono) auto
  also have "\<dots> \<le> of_nat (unat (c + k)) * t"
    using kv(1) t0 unfolding unat_add_small [OF cv(2) kv(2)]
    by (intro mult_right_mono) (simp_all add: algebra_simps)
  finally show ?thesis by (simp only: X_def)
qed

text \<open>On one chain the conversion does not lose a block.\<close>

lemma lightning_delta_same:
  assumes b: "1 \<le> unat b" "unat b < 2 ^ 32" and f: "plausible f"
    and c: "c = f64_to_u64 (f64_ceil (f64_div (f64_mul (f64_of_u64 b) (Finite f)) (Finite f)))"
  shows "unat b + 15 \<le> unat (c + LIGHTNING_BUFFER)"
proof -
  note cv = convert_blocks_value [OF b f f c]
  have f0: "0 < f" using f plausible_div(3) by blast
  have "(of_nat (unat b) :: rat) < of_nat (2 ^ 32)" using b(2) by (simp only: of_nat_less_iff)
  then have b2: "(of_nat (unat b) :: rat) \<le> 4294967296" by simp
  have "of_nat (unat b) - (1 :: rat) < of_nat (unat b) * (1 - eps) ^ 2"
    using b2 by (simp add: power2_eq_square)
  also have "\<dots> \<le> of_nat (unat c)" using cv(1) f0 by simp
  finally have "(of_nat (unat b) :: rat) < of_nat (unat c + 1)" by simp
  then have "unat b \<le> unat c" unfolding of_nat_less_iff by simp
  moreover have "unat (c + LIGHTNING_BUFFER) = unat c + 15"
    using cv(2) by (subst unat_add_small) (simp_all add: LIGHTNING_BUFFER_def)
  ultimately show ?thesis by simp
qed

text \<open>A provider for one pair, for the examples.\<close>

definition example_delta :: pair_timeout_block_delta where
  "example_delta = \<lparr>td_chain = 1440, td_reverse = 1440, td_swap_minimal = 1440,
     td_swap_maximal = 2880, td_swap_taproot = 10080\<rparr>"

definition example_deltas :: timeout_deltas where
  "example_deltas = [''L-BTC/BTC'' \<mapsto> \<lparr>tds_base = example_delta, tds_quote = example_delta\<rparr>]"

lemma f64_of_u64_numerals: "f64_of_u64 1440 = Finite 1440" "f64_of_u64 144 = Finite 144"
  "f64_of_u64 1445 = Finite 1445"
  by (simp_all add: f64_of_u64_def f64_round_numeral)

lemma example_block_times: "BLOCK_TIMES ''L-BTC'' = Some (Finite 1)" "BLOCK_TIMES ''BTC'' = Some (Finite 10)"
  by (simp_all add: BLOCK_TIMES_def)

lemma example_get_timeouts:
  "get_timeouts BLOCK_TIMES example_deltas ''L-BTC/BTC'' Buy Reverse = Ok (1440, 180)"
  by (simp add: get_timeouts_def example_deltas_def example_delta_def example_pair convert_blocks_def
      get_block_time_def example_block_times f64_of_u64_numerals f64_round_numeral lightning_buffer_def
      CROSS_CHAIN_BUFFER_FACTOR_def u64_max_def)

lemma example_plausible: "plausible 1" "plausible 10"
  by (simp_all add: plausible_def)

subsection \<open>What the timeouts guarantee\<close>

text \<open>
  C12: The Lightning timeout of a reverse swap outlives its on-chain timeout. Whenever
  \<open>get_timeouts\<close> succeeds, for block times between a thousandth of a minute and a thousand
  minutes and an on-chain delta of at least one and less than \<open>2^32\<close> blocks, the time covered by
  the Lightning delta is at least six fifths of the time covered by the on-chain delta when the
  symbols differ, and at least 15 blocks longer when they are the same, in spite of the rounding
  of the conversion.
\<close>

theorem lightning_outlives_onchain:
  assumes "get_timeouts bt tds p side Reverse = Ok (onchain, lightning)"
    and "split_pair p = Ok pr"
    and "bt (if side = Buy then pair_base pr else pair_quote pr) = Some (Finite f)" and "plausible f"
    and "bt (if side = Buy then pair_quote pr else pair_base pr) = Some (Finite t)" and "plausible t"
    and "1 \<le> unat onchain" and "unat onchain < 2 ^ 32"
  shows "if pair_base pr = pair_quote pr then unat onchain + 15 \<le> unat lightning
    else 6 / 5 * (of_nat (unat onchain) * f) \<le> of_nat (unat lightning) * t"
proof -
  define c where "c = f64_to_u64 (f64_ceil
    (f64_div (f64_mul (f64_of_u64 onchain) (Finite f)) (Finite t)))"
  from assms(1-3,5) have l: "lightning = c + lightning_buffer pr c"
    by (auto simp: get_timeouts_def convert_blocks_def get_block_time_def Let_def c_def)
  show ?thesis
  proof (cases "pair_base pr = pair_quote pr")
    case True
    then have "t = f" using assms(3,5) by (cases side) simp_all
    with lightning_delta_same [OF assms(7,8,4), of c] True show ?thesis
      by (simp add: l lightning_buffer_def c_def)
  next
    case False
    with lightning_delta_cross [OF assms(7,8,4,6) c_def refl] show ?thesis
      by (simp add: l lightning_buffer_def)
  qed
qed

theorem lightning_outlives_onchain_witness:
  "get_timeouts BLOCK_TIMES example_deltas ''L-BTC/BTC'' Buy Reverse = Ok (1440, 180)
    \<and> 6 / 5 * (of_nat (unat (1440 :: u64)) * 1) \<le> (of_nat (unat (180 :: u64)) * 10 :: rat)"
  using lightning_outlives_onchain [OF example_get_timeouts example_pair, of 1 10]
  by (simp add: example_get_timeouts example_block_times example_plausible)

text \<open>
  Configured minutes become enough blocks, and not too many. For a block time between a
  thousandth of a minute and a thousand minutes and fewer than \<open>2^32\<close> minutes, the blocks that
  \<open>calculate_blocks\<close> returns are at least one, cover the minutes up to one rounding of relative
  size \<open>2^-53\<close>, and one block less would not; no blocks are returned exactly for zero minutes.
\<close>

theorem calculate_blocks_tight:
  assumes "bt symbol = Some (Finite t)" and "plausible t" and "unat minutes < 2 ^ 32"
  shows "case calculate_blocks bt symbol minutes of
      Ok blocks \<Rightarrow> 1 \<le> unat blocks
        \<and> of_nat (unat minutes) * (1 - eps) \<le> of_nat (unat blocks) * t
        \<and> (of_nat (unat blocks) - 1) * t < of_nat (unat minutes) * (1 + eps)
    | Err e \<Rightarrow> e = InvalidTimeoutBlockDelta \<and> minutes = 0
    | Panic \<Rightarrow> False"
proof (cases "minutes = 0")
  case True
  have "f64_of_u64 0 = Finite 0" using f64_of_u64_exact [of 0] by simp
  moreover have "f64_round 0 = Finite 0" using f64_round_of_nat [of 0] by simp
  ultimately show ?thesis
    using True assms(1) plausible_div(3) [OF assms(2), of 0]
    by (simp add: calculate_blocks_def get_block_time_def)
next
  case False
  let ?m = "of_nat (unat minutes) :: rat"
  have "unat minutes \<noteq> 0" using False by (simp add: unat_eq_0)
  then have m1: "1 \<le> ?m" by simp
  have "?m < of_nat (2 ^ 32)" using assms(3) by (simp only: of_nat_less_iff)
  then have m2: "?m \<le> 4294967296" by simp
  note d = plausible_div [OF assms(2), of ?m]
  have "1 / 2 ^ 30 \<le> ?m / t" "?m / t \<le> 2 ^ 63" using d(1,2) m1 m2 by simp_all
  then obtain z where z: "f64_round (?m / t) = Finite z" "?m / t * (1 - eps) \<le> z"
    "z \<le> ?m / t * (1 + eps)" "0 \<le> z" "z \<le> of_nat u64_max"
    by (rule f64_round_bounds)
  define blocks where "blocks = f64_to_u64 (f64_ceil (Finite z))"
  note ceil = ceil_bounds [OF z(4,5), folded blocks_def]
  have t0: "0 < t" using d(3) m1 by simp
  have "0 < ?m / t * (1 - eps)" using m1 t0 by simp
  with z(2) ceil(1) have "0 < (of_nat (unat blocks) :: rat)" by linarith
  then have b1: "1 \<le> unat blocks" by simp
  have "?m * (1 - eps) \<le> of_nat (unat blocks) * t"
    using order.trans [OF z(2) ceil(1)] t0 by (simp add: field_simps)
  moreover have "(of_nat (unat blocks) - 1) * t < ?m * (1 + eps)"
  proof -
    have "of_nat (unat blocks) - 1 < ?m / t * (1 + eps)" using ceil(2) z(3) by linarith
    then have "(of_nat (unat blocks) - 1) * t < ?m / t * (1 + eps) * t"
      using t0 by (rule mult_strict_right_mono)
    then show ?thesis using t0 by simp
  qed
  moreover have "calculate_blocks bt symbol minutes = Ok blocks"
  proof -
    have "unat minutes < 2 ^ 53" using assms(3) by simp
    then have "f64_div (f64_of_u64 minutes) (Finite t) = Finite z"
      using t0 by (simp only: f64_of_u64_exact f64_div.simps z(1)) simp
    moreover have "\<not> blocks < 1" using b1 by (simp add: word_less_nat_alt)
    ultimately show ?thesis
      using assms(1) by (simp only: calculate_blocks_def get_block_time_def ok_or.simps r_bind.simps
        Let_def blocks_def [symmetric]) simp
  qed
  ultimately show ?thesis using b1 by simp
qed

theorem calculate_blocks_tight_witness:
  "case calculate_blocks BLOCK_TIMES ''BTC'' 1445 of
      Ok blocks \<Rightarrow> 1 \<le> unat blocks
        \<and> of_nat (unat (1445 :: u64)) * (1 - eps) \<le> of_nat (unat blocks) * 10
        \<and> (of_nat (unat blocks) - 1) * 10 < of_nat (unat (1445 :: u64)) * (1 + eps)
    | Err e \<Rightarrow> e = InvalidTimeoutBlockDelta \<and> (1445 :: u64) = 0
    | Panic \<Rightarrow> False"
  using calculate_blocks_tight [of BLOCK_TIMES "''BTC''" 10 1445] by (simp add: example_block_times example_plausible)

end
