(* ===== verification/Webhook_Guard.thy ===== *)
theory Webhook_Guard
  imports Boltz_Prelude
begin

text \<open>
  Where webhooks may go: \<open>src/boltzr/src/webhook/resolver.rs\<close> and the functions \<open>validate_url\<close> and
  \<open>check_ip\<close> of \<open>src/boltzr/src/webhook/caller.rs\<close>. The URL parser, the parser of IP addresses and the
  name lookup are fields of the record \<open>net_lib\<close>; a parsed URL is the record \<open>parsed_url\<close>.
\<close>

unbundle bit_operations_syntax

type_synonym u16 = "16 word"

datatype ip_addr = V4 byte byte byte byte | V6 u16 u16 u16 u16 u16 u16 u16 u16

record parsed_url =
  url_scheme :: string
  url_host :: "string option"
  url_port :: nat

record net_lib =
  url_parse :: "string \<Rightarrow> parsed_url option"
  ip_from_str :: "string \<Rightarrow> ip_addr option"
  lookup_host :: "string \<Rightarrow> ip_addr list option"

datatype url_error =
  MoreThanMaxLen | HttpsRequired | InvalidHost | Blocked | UrlParse | LookupFailed | TooManyRedirects

subsection \<open>Blocked addresses\<close>

text \<open>The tests of \<open>Ipv4Addr\<close> and \<open>Ipv6Addr\<close> of the standard library.\<close>

fun is_blocked_v4 :: "byte \<Rightarrow> byte \<Rightarrow> byte \<Rightarrow> byte \<Rightarrow> bool" where
  "is_blocked_v4 a b c d =
     (let is_shared = (a = 100 \<and> (b AND 0xC0) = 0x40);
          is_reserved = ((a AND 0xF0) = 0xF0);
          is_loopback = (a = 127);
          is_link_local = (a = 169 \<and> b = 254);
          is_multicast = (224 \<le> a \<and> a \<le> 239);
          is_broadcast = (a = 255 \<and> b = 255 \<and> c = 255 \<and> d = 255);
          is_private = (a = 10 \<or> (a = 172 \<and> 16 \<le> b \<and> b \<le> 31) \<or> (a = 192 \<and> b = 168));
          is_unspecified = (a = 0 \<and> b = 0 \<and> c = 0 \<and> d = 0)
      in is_loopback \<or> is_link_local \<or> is_multicast \<or> is_broadcast \<or> is_private \<or> is_unspecified
         \<or> is_shared \<or> is_reserved)"

fun to_ipv4_mapped :: "ip_addr \<Rightarrow> (byte \<times> byte \<times> byte \<times> byte) option" where
  "to_ipv4_mapped (V6 s0 s1 s2 s3 s4 s5 s6 s7) =
     (if s0 = 0 \<and> s1 = 0 \<and> s2 = 0 \<and> s3 = 0 \<and> s4 = 0 \<and> s5 = 0xFFFF
      then Some (ucast (drop_bit 8 s6), ucast s6, ucast (drop_bit 8 s7), ucast s7) else None)"
| "to_ipv4_mapped (V4 _ _ _ _) = None"

fun is_blocked_ip :: "ip_addr \<Rightarrow> bool" where
  "is_blocked_ip (V4 a b c d) = is_blocked_v4 a b c d"
| "is_blocked_ip (V6 s0 s1 s2 s3 s4 s5 s6 s7) =
     (case to_ipv4_mapped (V6 s0 s1 s2 s3 s4 s5 s6 s7) of
        Some (a, b, c, d) \<Rightarrow> is_blocked_v4 a b c d
      | None \<Rightarrow>
          (let is_loopback = (s0 = 0 \<and> s1 = 0 \<and> s2 = 0 \<and> s3 = 0 \<and> s4 = 0 \<and> s5 = 0 \<and> s6 = 0 \<and> s7 = 1);
               is_multicast = ((s0 AND 0xFF00) = 0xFF00);
               is_unicast_link_local = ((s0 AND 0xFFC0) = 0xFE80);
               is_unique_local = ((s0 AND 0xFE00) = 0xFC00);
               is_unspecified = (s0 = 0 \<and> s1 = 0 \<and> s2 = 0 \<and> s3 = 0 \<and> s4 = 0 \<and> s5 = 0 \<and> s6 = 0 \<and> s7 = 0)
           in is_loopback \<or> is_multicast \<or> is_unicast_link_local \<or> is_unique_local \<or> is_unspecified))"

subsection \<open>Hosts\<close>

text \<open>\<open>str::contains\<close>, \<open>str::strip_prefix\<close> and \<open>str::strip_suffix\<close>.\<close>

definition str_contains :: "string \<Rightarrow> string \<Rightarrow> bool" where
  "str_contains host blocked =
     list_ex (\<lambda>i. take (length blocked) (drop i host) = blocked) [0..<Suc (length host)]"

definition strip_prefix :: "string \<Rightarrow> string \<Rightarrow> string option" where
  "strip_prefix p s = (if take (length p) s = p then Some (drop (length p) s) else None)"

definition strip_suffix :: "string \<Rightarrow> string \<Rightarrow> string option" where
  "strip_suffix p s = map_option rev (strip_prefix (rev p) (rev s))"

definition unwrap_or :: "'a \<Rightarrow> 'a option \<Rightarrow> 'a" where
  "unwrap_or d x = (case x of Some y \<Rightarrow> y | None \<Rightarrow> d)"

text \<open>
  \<open>sanitize_ipv6\<close> of \<open>check_ip\<close> falls back to the whole host when the closing bracket is missing;
  \<open>host_as_ip\<close> of the redirect policy to the stripped one.
\<close>

definition sanitize_ipv6 :: "string \<Rightarrow> string" where
  "sanitize_ipv6 host = unwrap_or host (strip_suffix '']'' (unwrap_or host (strip_prefix ''['' host)))"

definition host_as_ip :: "net_lib \<Rightarrow> parsed_url \<Rightarrow> ip_addr option" where
  "host_as_ip net url =
     (case url_host url of
        None \<Rightarrow> None
      | Some host \<Rightarrow>
          (let h1 = unwrap_or host (strip_prefix ''['' host);
               h2 = unwrap_or h1 (strip_suffix '']'' h1)
           in ip_from_str net h2))"

definition MAX_URL_LENGTH :: nat where
  "MAX_URL_LENGTH = 250"

definition validate_url :: "net_lib \<Rightarrow> string list \<Rightarrow> string \<Rightarrow> bool \<Rightarrow> (url_error, unit) result" where
  "validate_url net block_list url allow_http =
     (if length url > MAX_URL_LENGTH then Err MoreThanMaxLen
      else r_bind (ok_or UrlParse (url_parse net url)) (\<lambda>u.
        if \<not> allow_http \<and> url_scheme u \<noteq> ''https'' then Err HttpsRequired
        else r_bind (ok_or InvalidHost (url_host u)) (\<lambda>host.
          if list_ex (str_contains host) block_list then Err Blocked else Ok ())))"

text \<open>
  The addresses of the host: the literal, or what the lookup returns within its timeout for the
  host and the port (\<open>lookup_host\<close> of a host stands for the lookup with the port).
\<close>

definition check_ip_addresses :: "net_lib \<Rightarrow> string \<Rightarrow> (url_error, ip_addr list) result" where
  "check_ip_addresses net url =
     r_bind (ok_or UrlParse (url_parse net url)) (\<lambda>u.
     r_bind (ok_or InvalidHost (url_host u)) (\<lambda>host.
       case ip_from_str net (sanitize_ipv6 host) of
         Some ip \<Rightarrow> Ok [ip]
       | None \<Rightarrow> ok_or LookupFailed (lookup_host net host)))"

definition check_ip :: "net_lib \<Rightarrow> string \<Rightarrow> bool \<Rightarrow> (url_error, unit) result" where
  "check_ip net url allow_insecure =
     (if allow_insecure then Ok ()
      else r_bind (check_ip_addresses net url) (\<lambda>ips.
        if list_ex is_blocked_ip ips then Err InvalidHost else Ok ()))"

subsection \<open>The resolver and the redirect policy of the HTTP client\<close>

definition guard_resolve :: "net_lib \<Rightarrow> bool \<Rightarrow> string \<Rightarrow> (url_error, ip_addr list) result" where
  "guard_resolve net allow_insecure host =
     r_bind (ok_or LookupFailed (lookup_host net host)) (\<lambda>addrs.
       if \<not> allow_insecure \<and> list_ex is_blocked_ip addrs then Err InvalidHost else Ok addrs)"

definition is_blocked_redirect :: "net_lib \<Rightarrow> parsed_url \<Rightarrow> bool \<Rightarrow> string list \<Rightarrow> bool" where
  "is_blocked_redirect net url allow_insecure block_list =
     (if (case url_host url of Some host \<Rightarrow> list_ex (str_contains host) block_list | None \<Rightarrow> False) then True
      else if allow_insecure then False
      else if url_scheme url \<noteq> ''https'' then True
      else (case host_as_ip net url of Some ip \<Rightarrow> is_blocked_ip ip | None \<Rightarrow> False))"

definition MAX_REDIRECTS :: nat where
  "MAX_REDIRECTS = 10"

text \<open>The policy on an attempt to follow \<open>url\<close> after \<open>previous\<close> requests.\<close>

definition redirect_policy ::
  "net_lib \<Rightarrow> bool \<Rightarrow> string list \<Rightarrow> parsed_url \<Rightarrow> nat \<Rightarrow> (url_error, unit) result" where
  "redirect_policy net allow_insecure block_list url previous =
     (if is_blocked_redirect net url allow_insecure block_list then Err Blocked
      else if previous > MAX_REDIRECTS then Err TooManyRedirects
      else Ok ())"

subsection \<open>The blocked networks\<close>

text \<open>An address as a number, and membership in a network given by its base and prefix length.\<close>

definition ipv4_nat :: "byte \<Rightarrow> byte \<Rightarrow> byte \<Rightarrow> byte \<Rightarrow> nat" where
  "ipv4_nat a b c d = ((unat a * 256 + unat b) * 256 + unat c) * 256 + unat d"

definition in_cidr :: "nat \<Rightarrow> nat \<times> nat \<Rightarrow> bool" where
  "in_cidr ip = (\<lambda>(base, len). ip div 2 ^ (32 - len) = base div 2 ^ (32 - len))"

definition blocked_networks :: "(nat \<times> nat) list" where
  "blocked_networks = [(ipv4_nat 0 0 0 0, 32), (ipv4_nat 10 0 0 0, 8), (ipv4_nat 100 64 0 0, 10),
     (ipv4_nat 127 0 0 0, 8), (ipv4_nat 169 254 0 0, 16), (ipv4_nat 172 16 0 0, 12),
     (ipv4_nat 192 168 0 0, 16), (ipv4_nat 224 0 0 0, 4), (ipv4_nat 240 0 0 0, 4)]"

text \<open>Comparing the bits above position \<open>n\<close> is comparing what is left after dropping \<open>n\<close> bits.\<close>

lemma and_high_bits:
  fixes s :: "'a::len word"
  assumes "m = push_bit n (mask (LENGTH('a) - n))" and "v = push_bit n (drop_bit n v)"
  shows "(s AND m = v) = (drop_bit n s = drop_bit n v)"
proof
  have s: "s AND m = push_bit n (drop_bit n s)"
    unfolding assms(1) by (rule bit_word_eqI) (auto simp: bit_simps)
  show "drop_bit n s = drop_bit n v" if "s AND m = v"
  proof -
    have "drop_bit n (push_bit n (drop_bit n s)) = drop_bit n s"
      by (rule bit_word_eqI) (auto simp: bit_simps dest: bit_imp_le_length)
    with that s show ?thesis by simp
  qed
  show "s AND m = v" if "drop_bit n s = drop_bit n v"
    unfolding s that using assms(2) by (rule sym)
qed

lemma byte_and_C0: "((b :: byte) AND 0xC0 = 0x40) = (unat b div 64 = 1)"
proof -
  have "(b AND 0xC0 = 0x40) = (drop_bit 6 b = drop_bit 6 0x40)"
    by (rule and_high_bits) (code_simp, code_simp)
  also have "\<dots> = (unat (drop_bit 6 b) = 1)" by (simp add: word_unat_eq_iff)
  finally show ?thesis by (simp add: unsigned_drop_bit_eq drop_bit_eq_div unat_div)
qed

lemma byte_and_F0: "((b :: byte) AND 0xF0 = 0xF0) = (unat b div 16 = 15)"
proof -
  have "(b AND 0xF0 = 0xF0) = (drop_bit 4 b = drop_bit 4 0xF0)"
    by (rule and_high_bits) (code_simp, code_simp)
  also have "\<dots> = (unat (drop_bit 4 b) = 15)" by (simp add: word_unat_eq_iff)
  finally show ?thesis by (simp add: unsigned_drop_bit_eq drop_bit_eq_div unat_div)
qed

text \<open>Numbers written with two digits to a base.\<close>

lemma two_digits_eq:
  assumes "q < B" and "r < B"
  shows "(x * B + q = y * B + r) = (x = y \<and> q = (r :: nat))"
proof
  assume eq: "x * B + q = y * B + r"
  have "x = (x * B + q) div B" "y = (y * B + r) div B" using assms by simp_all
  then have "x = y" using eq by simp
  with eq show "x = y \<and> q = r" by simp
qed simp

lemma div_eq_iff_between:
  assumes "0 < (k :: nat)"
  shows "(n div k = m) = (k * m \<le> n \<and> n < k * Suc m)"
proof
  assume "n div k = m"
  then show "k * m \<le> n \<and> n < k * Suc m"
    using times_div_less_eq_dividend [of k n] dividend_less_times_div [of k n] assms by auto
qed (auto intro: div_nat_eqI)

lemma two_digits_div:
  assumes "q < B * C" and "0 < B"
  shows "(x * (B * C) + q) div B = x * C + q div (B :: nat)"
proof -
  have "x * (B * C) + q = (x * C) * B + q" by simp
  with assms(2) show ?thesis by (simp only: div_mult_self3)
qed

lemma ipv4_nat_div:
  "ipv4_nat a b c d div 2 ^ 28 = unat a div 16"
  "ipv4_nat a b c d div 2 ^ 24 = unat a"
  "ipv4_nat a b c d div 2 ^ 22 = unat a * 4 + unat b div 64"
  "ipv4_nat a b c d div 2 ^ 20 = unat a * 16 + unat b div 16"
  "ipv4_nat a b c d div 2 ^ 16 = unat a * 256 + unat b"
proof -
  have lt: "unat b < 256" "unat c < 256" "unat d < 256"
    using unsigned_less [of b, where 'a = nat] unsigned_less [of c, where 'a = nat]
      unsigned_less [of d, where 'a = nat] by simp_all
  show 16: "ipv4_nat a b c d div 2 ^ 16 = unat a * 256 + unat b"
    using lt by (simp add: ipv4_nat_def)
  have split: "n div 2 ^ (16 + k) = n div 2 ^ 16 div 2 ^ k" for n k :: nat
    by (simp only: power_add div_mult2_eq)
  show 24: "ipv4_nat a b c d div 2 ^ 24 = unat a"
    using split [of "ipv4_nat a b c d" 8] lt(1) unfolding 16 by simp
  show "ipv4_nat a b c d div 2 ^ 28 = unat a div 16"
    using 24 div_mult2_eq [of "ipv4_nat a b c d" "2 ^ 24" "2 ^ 4"] by simp
  show "ipv4_nat a b c d div 2 ^ 22 = unat a * 4 + unat b div 64"
    using split [of "ipv4_nat a b c d" 6] two_digits_div [of "unat b" 64 4 "unat a"] lt(1) unfolding 16 by simp
  show "ipv4_nat a b c d div 2 ^ 20 = unat a * 16 + unat b div 16"
    using split [of "ipv4_nat a b c d" 4] two_digits_div [of "unat b" 16 16 "unat a"] lt(1) unfolding 16 by simp
qed

lemma byte_eq_nat: "((a :: byte) = numeral n) = (unat a = unat (numeral n :: byte))"
  by (rule word_unat_eq_iff)

lemma blocked_networks_value:
  "blocked_networks = [(0, 32), (10 * 2 ^ 24, 8), (401 * 2 ^ 22, 10), (127 * 2 ^ 24, 8),
     (43518 * 2 ^ 16, 16), (2753 * 2 ^ 20, 12), (49320 * 2 ^ 16, 16), (14 * 2 ^ 28, 4), (15 * 2 ^ 28, 4)]"
  by (simp add: blocked_networks_def ipv4_nat_def)

lemma cancel_shifts:
  "(32 :: nat) - 32 = 0" "(32 :: nat) - 8 = 24" "(32 :: nat) - 10 = 22" "(32 :: nat) - 16 = 16"
  "(32 :: nat) - 12 = 20" "(32 :: nat) - 4 = 28"
  by simp_all

lemma is_blocked_v4_cidr:
  "is_blocked_v4 a b c d = list_ex (in_cidr (ipv4_nat a b c d)) blocked_networks"
proof -
  have lt: "unat a < 256" "unat b < 256" "unat c < 256" "unat d < 256"
    using unsigned_less [of a, where 'a = nat] unsigned_less [of b, where 'a = nat]
      unsigned_less [of c, where 'a = nat] unsigned_less [of d, where 'a = nat] by simp_all
  have zero: "ipv4_nat a b c d div 2 ^ 0 = 0 \<longleftrightarrow> a = 0 \<and> b = 0 \<and> c = 0 \<and> d = 0"
    by (simp add: ipv4_nat_def unat_eq_0)
  have digits: "(unat a * 4 + unat b div 64 = 401) = (unat a = 100 \<and> unat b div 64 = 1)"
    "(unat a * 256 + unat b = 43518) = (unat a = 169 \<and> unat b = 254)"
    "(unat a * 256 + unat b = 49320) = (unat a = 192 \<and> unat b = 168)"
    "(unat a * 16 + unat b div 16 = 2753) = (unat a = 172 \<and> 16 \<le> unat b \<and> unat b \<le> 31)"
    "(unat a div 16 = 14) = (224 \<le> unat a \<and> unat a \<le> 239)"
  proof -
    show "(unat a * 4 + unat b div 64 = 401) = (unat a = 100 \<and> unat b div 64 = 1)"
      using two_digits_eq [of "unat b div 64" 4 1 "unat a" 100] lt(2) by simp
    have "(unat b div 16 = 1) = (16 \<le> unat b \<and> unat b \<le> 31)"
      by (subst div_eq_iff_between) auto
    then show "(unat a * 16 + unat b div 16 = 2753) = (unat a = 172 \<and> 16 \<le> unat b \<and> unat b \<le> 31)"
      using two_digits_eq [of "unat b div 16" 16 1 "unat a" 172] lt(2) by simp
    show "(unat a * 256 + unat b = 43518) = (unat a = 169 \<and> unat b = 254)"
      using two_digits_eq [of "unat b" 256 254 "unat a" 169] lt(2) by simp
    show "(unat a * 256 + unat b = 49320) = (unat a = 192 \<and> unat b = 168)"
      using two_digits_eq [of "unat b" 256 168 "unat a" 192] lt(2) by simp
    show "(unat a div 16 = 14) = (224 \<le> unat a \<and> unat a \<le> 239)"
      by (subst div_eq_iff_between) auto
  qed
  have "is_blocked_v4 a b c d \<longleftrightarrow>
      (a = 0 \<and> b = 0 \<and> c = 0 \<and> d = 0) \<or> unat a = 10 \<or> (unat a = 100 \<and> unat b div 64 = 1) \<or> unat a = 127
      \<or> (unat a = 169 \<and> unat b = 254) \<or> (unat a = 172 \<and> 16 \<le> unat b \<and> unat b \<le> 31)
      \<or> (unat a = 192 \<and> unat b = 168) \<or> (224 \<le> unat a \<and> unat a \<le> 239) \<or> unat a div 16 = 15"
  proof -
    have eqs: "(a = 100) = (unat a = 100)" "(a = 127) = (unat a = 127)" "(a = 169) = (unat a = 169)"
      "(b = 254) = (unat b = 254)" "(a = 255) = (unat a = 255)" "(a = 10) = (unat a = 10)"
      "(a = 172) = (unat a = 172)" "(a = 192) = (unat a = 192)" "(b = 168) = (unat b = 168)"
      "(224 \<le> a) = (224 \<le> unat a)" "(a \<le> 239) = (unat a \<le> 239)" "(16 \<le> b) = (16 \<le> unat b)"
      "(b \<le> 31) = (unat b \<le> 31)"
      by (simp_all add: byte_eq_nat word_le_nat_alt)
    have "unat a = 255 \<Longrightarrow> unat a div 16 = 15" by simp
    then show ?thesis unfolding is_blocked_v4.simps Let_def byte_and_C0 byte_and_F0 eqs by blast
  qed
  also have "\<dots> \<longleftrightarrow> (ipv4_nat a b c d div 2 ^ 0 = 0) \<or> unat a = 10 \<or> unat a * 4 + unat b div 64 = 401
      \<or> unat a = 127 \<or> unat a * 256 + unat b = 43518 \<or> unat a * 16 + unat b div 16 = 2753
      \<or> unat a * 256 + unat b = 49320 \<or> unat a div 16 = 14 \<or> unat a div 16 = 15"
    unfolding zero digits by blast
  also have "\<dots> \<longleftrightarrow> list_ex (in_cidr (ipv4_nat a b c d)) blocked_networks"
    unfolding blocked_networks_value list_ex_iff list.set ball_simps bex_simps in_cidr_def prod.case diff_zero cancel_shifts
      ipv4_nat_div by simp
  finally show ?thesis .
qed

text \<open>
  The specification of a private address: an IPv4 address in one of the networks above, an
  IPv4-mapped address of such an address, or the IPv6 addresses \<open>::\<close>, \<open>::1\<close>, \<open>ff00::/8\<close>,
  \<open>fe80::/10\<close> and \<open>fc00::/7\<close>.
\<close>

fun private_address :: "ip_addr \<Rightarrow> bool" where
  "private_address (V4 a b c d) = list_ex (in_cidr (ipv4_nat a b c d)) blocked_networks"
| "private_address (V6 s0 s1 s2 s3 s4 s5 s6 s7) =
     (if [s0, s1, s2, s3, s4] = [0, 0, 0, 0, 0] \<and> s5 = 0xFFFF
      then list_ex (in_cidr (unat s6 * 65536 + unat s7)) blocked_networks
      else [s0, s1, s2, s3, s4, s5, s6] = [0, 0, 0, 0, 0, 0, 0] \<and> s7 \<in> {0, 1}
        \<or> drop_bit 8 s0 = 0xFF \<or> drop_bit 6 s0 = 0x3FA \<or> drop_bit 9 s0 = 0x7E)"

lemma ipv4_nat_mapped:
  "ipv4_nat (ucast (drop_bit 8 s6)) (ucast s6) (ucast (drop_bit 8 s7)) (ucast s7)
    = unat (s6 :: u16) * 65536 + unat (s7 :: u16)"
proof -
  have "unat (ucast (drop_bit 8 s) :: byte) * 256 + unat (ucast s :: byte) = unat s" for s :: u16
  proof -
    have "unat s < 65536" using unsigned_less [of s, where 'a = nat] by simp
    then have "unat s div 256 < 256" by simp
    then show ?thesis
      by (simp add: unsigned_ucast_eq unsigned_drop_bit_eq take_bit_eq_mod drop_bit_eq_div unat_div)
  qed
  note digits = this
  have regroup: "((a * 256 + b) * 256 + c) * 256 + d = (a * 256 + b) * 65536 + (c * 256 + d)"
    for a b c d :: nat
    by simp
  from digits [of s6] digits [of s7] show ?thesis unfolding ipv4_nat_def regroup by simp
qed

lemma is_blocked_ip_private: "is_blocked_ip ip = private_address ip"
proof (cases ip)
  case (V4 a b c d)
  then show ?thesis by (simp only: is_blocked_ip.simps is_blocked_v4_cidr private_address.simps)
next
  case (V6 s0 s1 s2 s3 s4 s5 s6 s7)
  have bits: "(s0 AND 0xFF00 = 0xFF00) = (drop_bit 8 s0 = 0xFF)"
    "(s0 AND 0xFFC0 = 0xFE80) = (drop_bit 6 s0 = 0x3FA)" "(s0 AND 0xFE00 = 0xFC00) = (drop_bit 9 s0 = 0x7E)"
    by (subst and_high_bits [of _ 8] and_high_bits [of _ 6] and_high_bits [of _ 9], code_simp, code_simp,
        rule arg_cong [of _ _ "\<lambda>x. _ = x"], code_simp)+
  show ?thesis
    unfolding V6 is_blocked_ip.simps to_ipv4_mapped.simps private_address.simps Let_def bits
    by (auto simp: is_blocked_v4_cidr ipv4_nat_mapped simp del: is_blocked_v4.simps)
qed

subsection \<open>Properties\<close>

text \<open>
  C15: Webhooks do not reach private addresses. Unless insecure hosts are allowed, a host passes
  \<open>check_ip\<close> only if none of its addresses is private; the resolver of the HTTP client never returns
  a private address, so a later change of the DNS records does not help; and a redirect is followed
  only to an https URL whose host is not on the block list and is not a private address, and after
  at most ten previous requests. Private means the loopback, private, shared, link-local,
  multicast, reserved and unspecified networks of both address families, IPv4-mapped ones included.
\<close>

theorem webhook_targets_public:
  "(check_ip net url False = Ok () \<longrightarrow>
      (\<exists>ips. check_ip_addresses net url = Ok ips \<and> (\<forall>ip \<in> set ips. \<not> private_address ip)))
   \<and> (guard_resolve net False host = Ok addrs \<longrightarrow> (\<forall>ip \<in> set addrs. \<not> private_address ip))
   \<and> (redirect_policy net False block_list u previous = Ok () \<longrightarrow>
        url_scheme u = ''https'' \<and> previous \<le> 10
        \<and> (\<forall>h. url_host u = Some h \<longrightarrow> \<not> list_ex (str_contains h) block_list)
        \<and> (\<forall>ip. host_as_ip net u = Some ip \<longrightarrow> \<not> private_address ip))"
proof (intro conjI impI)
  show "\<exists>ips. check_ip_addresses net url = Ok ips \<and> (\<forall>ip \<in> set ips. \<not> private_address ip)"
    if "check_ip net url False = Ok ()"
    using that by (auto simp: check_ip_def list_ex_iff is_blocked_ip_private split: if_splits)
  show "\<forall>ip \<in> set addrs. \<not> private_address ip" if "guard_resolve net False host = Ok addrs"
    using that by (auto simp: guard_resolve_def list_ex_iff is_blocked_ip_private split: if_splits)
  assume "redirect_policy net False block_list u previous = Ok ()"
  then have nb: "\<not> is_blocked_redirect net u False block_list" and "previous \<le> 10"
    by (simp_all add: redirect_policy_def MAX_REDIRECTS_def split: if_splits)
  then show "previous \<le> 10" by blast
  from nb show "url_scheme u = ''https''"
    by (simp add: is_blocked_redirect_def split: if_splits)
  from nb show "\<forall>h. url_host u = Some h \<longrightarrow> \<not> list_ex (str_contains h) block_list"
    by (simp add: is_blocked_redirect_def split: if_splits option.splits)
  from nb show "\<forall>ip. host_as_ip net u = Some ip \<longrightarrow> \<not> private_address ip"
    by (simp add: is_blocked_redirect_def is_blocked_ip_private split: if_splits option.splits)
qed

definition example_net :: net_lib where
  "example_net = \<lparr>url_parse = (\<lambda>s. Some \<lparr>url_scheme = ''https'', url_host = Some s, url_port = 443\<rparr>),
     ip_from_str = (\<lambda>_. None),
     lookup_host = (\<lambda>h. if h = ''a.com'' then Some [V4 1 2 3 4] else Some [V4 10 0 0 1])\<rparr>"

theorem webhook_targets_public_witness:
  "check_ip example_net ''a.com'' False = Ok () \<and> \<not> private_address (V4 1 2 3 4)"
proof -
  have ips: "check_ip_addresses example_net ''a.com'' = Ok [V4 1 2 3 4]"
    by (simp add: check_ip_addresses_def example_net_def)
  have ok: "check_ip example_net ''a.com'' False = Ok ()"
    unfolding check_ip_def ips by (simp, code_simp)
  with webhook_targets_public [of example_net "''a.com''"] ips show ?thesis by auto
qed

end
