(* ===== verification/Webhook_Caller.thy ===== *)
theory Webhook_Caller
  imports Webhook_Guard Swap_Types "HOL-Library.AList"
begin

text \<open>
  Calling webhooks and retrying failed calls: \<open>src/boltzr/src/webhook/caller.rs\<close>, generic in the hook
  and in the store of the hook states, with the two stores of the program: the database table of
  \<open>src/boltzr/src/db/helpers/web_hook.rs\<close> and the map of \<open>src/boltzr/src/webhook/invoice_caller.rs\<close>. The
  traits \<open>Hook\<close> and \<open>HookState\<close> are the record \<open>hook_ops\<close>; the outcome of the HTTP request is an
  argument. A call returns the new state of the caller beside its result, since it may fail after
  it has changed something. The workers of a retry round take hooks from one queue; calls for
  different hooks touch different entries, so the round is modelled one hook after the other.
\<close>

datatype web_hook_state = StateNone | StateOk | StateFailed | StateAbandoned

fun web_hook_state_str :: "web_hook_state \<Rightarrow> string" where
  "web_hook_state_str StateNone = ''none''"
| "web_hook_state_str StateOk = ''ok''"
| "web_hook_state_str StateFailed = ''failed''"
| "web_hook_state_str StateAbandoned = ''abandoned''"

datatype web_hook_event = EventSwapUpdate | EventInvoiceRequest

fun web_hook_event_serialize :: "web_hook_event \<Rightarrow> string" where
  "web_hook_event_serialize EventSwapUpdate = ''swap.update''"
| "web_hook_event_serialize EventInvoiceRequest = ''invoice.request''"

datatype call_data =
    SwapUpdateData (ud_id: string) (ud_status: string)
  | InvoiceRequestData (ir_offer: string) (ir_request: string)

fun event_of_data :: "call_data \<Rightarrow> web_hook_event" where
  "event_of_data (SwapUpdateData _ _) = EventSwapUpdate"
| "event_of_data (InvoiceRequestData _ _) = EventInvoiceRequest"

datatype call_result = CallSuccess | CallFailed | CallNotIncluded

datatype hook_error = HookDb

text \<open>The status code and the body, whose download may fail; or an error of the request.\<close>

datatype http_outcome = HttpResponse nat "bytes option" | HttpError

record caller_options =
  co_request_timeout :: "u64 option"
  co_max_retries :: "u64 option"
  co_retry_interval :: "u64 option"
  co_block_list :: "string list option"

record caller_config =
  cc_allow_insecure :: bool
  cc_request_timeout :: u64
  cc_max_retries :: u64
  cc_retry_interval :: u64
  cc_block_list :: "string list"

definition DEFAULT_REQUEST_TIMEOUT :: u64 where
  "DEFAULT_REQUEST_TIMEOUT = 15"

definition DEFAULT_MAX_RETRIES :: u64 where
  "DEFAULT_MAX_RETRIES = 5"

definition DEFAULT_RETRY_INTERVAL :: u64 where
  "DEFAULT_RETRY_INTERVAL = 60"

definition caller_config_new :: "caller_options \<Rightarrow> bool \<Rightarrow> caller_config" where
  "caller_config_new config allow_insecure =
     \<lparr>cc_allow_insecure = allow_insecure,
      cc_request_timeout = unwrap_or DEFAULT_REQUEST_TIMEOUT (co_request_timeout config),
      cc_max_retries = unwrap_or DEFAULT_MAX_RETRIES (co_max_retries config),
      cc_retry_interval = unwrap_or DEFAULT_RETRY_INTERVAL (co_retry_interval config),
      cc_block_list = unwrap_or [] (co_block_list config)\<rparr>"

record ('h, 'i, 's) hook_ops =
  ho_id :: "'h \<Rightarrow> 'i"
  ho_url :: "'h \<Rightarrow> string"
  ho_should_be_skipped :: "'s \<Rightarrow> 'h \<Rightarrow> call_data \<Rightarrow> bool"
  ho_get_by_state :: "'s \<Rightarrow> web_hook_state \<Rightarrow> (hook_error, 'h list) result"
  ho_get_retry_data :: "'s \<Rightarrow> 'h \<Rightarrow> (hook_error, call_data option) result"
  ho_set_state :: "'s \<Rightarrow> 'h \<Rightarrow> web_hook_state \<Rightarrow> (hook_error, 's) result"

record ('h, 'i, 's) caller =
  ca_store :: 's
  ca_retry_count :: "'i \<rightharpoonup> u64"
  ca_receivers :: nat
  ca_successful_calls :: "('h \<times> bytes) list"

definition caller_new :: "'s \<Rightarrow> nat \<Rightarrow> ('h, 'i, 's) caller" where
  "caller_new store receivers =
     \<lparr>ca_store = store, ca_retry_count = Map.empty, ca_receivers = receivers, ca_successful_calls = []\<rparr>"

text \<open>What the outside world does in one round: name resolution, and the requests per hook.\<close>

record 'h world =
  wo_net :: net_lib
  wo_post :: "'h \<Rightarrow> string \<Rightarrow> web_hook_event \<times> call_data \<Rightarrow> http_outcome"

fun response_body :: "http_outcome \<Rightarrow> bytes option" where
  "response_body (HttpResponse status body) = (if 200 \<le> status \<and> status < 300 then body else None)"
| "response_body HttpError = None"

definition remove_count :: "'i \<Rightarrow> ('h, 'i, 's) caller \<Rightarrow> ('h, 'i, 's) caller" where
  "remove_count i c = c\<lparr>ca_retry_count := (ca_retry_count c)(i := None)\<rparr>"

definition store_state ::
  "('h, 'i, 's) hook_ops \<Rightarrow> 'h \<Rightarrow> web_hook_state \<Rightarrow> ('h, 'i, 's) caller
    \<Rightarrow> ('h, 'i, 's) caller \<times> (hook_error, unit) result" where
  "store_state ops hook state c =
     (case ho_set_state ops (ca_store c) hook state of
        Ok st \<Rightarrow> (c\<lparr>ca_store := st\<rparr>, Ok ())
      | Err e \<Rightarrow> (c, Err e)
      | Panic \<Rightarrow> (c, Panic))"

definition call_webhook ::
  "('h, 'i, 's) hook_ops \<Rightarrow> caller_config \<Rightarrow> 'h world \<Rightarrow> 'h \<Rightarrow> call_data \<Rightarrow> ('h, 'i, 's) caller
    \<Rightarrow> ('h, 'i, 's) caller \<times> (hook_error, call_result) result" where
  "call_webhook ops cfg world hook data c =
     (if ho_should_be_skipped ops (ca_store c) hook data then (c, Ok CallNotIncluded)
      else if check_ip (wo_net world) (ho_url ops hook) (cc_allow_insecure cfg) \<noteq> Ok ()
      then (c, Ok CallFailed)
      else (case response_body (wo_post world hook (ho_url ops hook) (event_of_data data, data)) of
        Some body \<Rightarrow>
          (case store_state ops hook StateOk (remove_count (ho_id ops hook) c) of
             (c', Ok _) \<Rightarrow>
               (if 0 < ca_receivers c'
                then c'\<lparr>ca_successful_calls := ca_successful_calls c' @ [(hook, body)]\<rparr> else c',
                Ok CallSuccess)
           | (c', Err e) \<Rightarrow> (c', Err e)
           | (c', Panic) \<Rightarrow> (c', Panic))
      | None \<Rightarrow>
          (case store_state ops hook StateFailed c of
             (c', Ok _) \<Rightarrow> (c', Ok CallFailed)
           | (c', Err e) \<Rightarrow> (c', Err e)
           | (c', Panic) \<Rightarrow> (c', Panic))))"

definition abandon_hook ::
  "('h, 'i, 's) hook_ops \<Rightarrow> 'h \<Rightarrow> ('h, 'i, 's) caller \<Rightarrow> ('h, 'i, 's) caller \<times> (hook_error, unit) result"
where
  "abandon_hook ops hook c = store_state ops hook StateAbandoned (remove_count (ho_id ops hook) c)"

definition prev_count :: "('h, 'i, 's) caller \<Rightarrow> 'i \<Rightarrow> u64" where
  "prev_count c i = unwrap_or 0 (ca_retry_count c i)"

definition retry_call ::
  "('h, 'i, 's) hook_ops \<Rightarrow> caller_config \<Rightarrow> 'h world \<Rightarrow> 'h \<Rightarrow> ('h, 'i, 's) caller
    \<Rightarrow> ('h, 'i, 's) caller \<times> (hook_error, unit) result" where
  "retry_call ops cfg world hook c =
     (case ho_get_retry_data ops (ca_store c) hook of
        Err e \<Rightarrow> (c, Err e)
      | Panic \<Rightarrow> (c, Panic)
      | Ok None \<Rightarrow> abandon_hook ops hook c
      | Ok (Some params) \<Rightarrow>
          (case call_webhook ops cfg world hook params c of
             (c, Err e) \<Rightarrow> (c, Err e)
           | (c, Panic) \<Rightarrow> (c, Panic)
           | (c, Ok res) \<Rightarrow>
               if res = CallSuccess then (remove_count (ho_id ops hook) c, Ok ())
               else (let failed_count = prev_count c (ho_id ops hook) + 1
                     in if res = CallNotIncluded \<or> failed_count \<ge> cc_max_retries cfg
                        then abandon_hook ops hook c
                        else (c\<lparr>ca_retry_count := (ca_retry_count c)(ho_id ops hook \<mapsto> failed_count)\<rparr>, Ok ()))))"

definition retry_hooks ::
  "('h, 'i, 's) hook_ops \<Rightarrow> caller_config \<Rightarrow> 'h world \<Rightarrow> 'h list \<Rightarrow> ('h, 'i, 's) caller
    \<Rightarrow> ('h, 'i, 's) caller" where
  "retry_hooks ops cfg world hooks c = fold (\<lambda>hook c. fst (retry_call ops cfg world hook c)) hooks c"

definition retry_calls ::
  "('h, 'i, 's) hook_ops \<Rightarrow> caller_config \<Rightarrow> 'h world \<Rightarrow> ('h, 'i, 's) caller
    \<Rightarrow> ('h, 'i, 's) caller \<times> (hook_error, unit) result" where
  "retry_calls ops cfg world c =
     (case ho_get_by_state ops (ca_store c) StateFailed of
        Err e \<Rightarrow> (c, Err e)
      | Panic \<Rightarrow> (c, Panic)
      | Ok to_retry \<Rightarrow> (retry_hooks ops cfg world to_retry c, Ok ()))"

text \<open>The loop until the cancellation: one round per element, whose errors are only logged.\<close>

definition caller_start ::
  "('h, 'i, 's) hook_ops \<Rightarrow> caller_config \<Rightarrow> 'h world list \<Rightarrow> ('h, 'i, 's) caller \<Rightarrow> ('h, 'i, 's) caller"
where
  "caller_start ops cfg worlds c = fold (\<lambda>world c. fst (retry_calls ops cfg world c)) worlds c"

subsection \<open>Retry counters\<close>

text \<open>Everything a caller can go through: calls for new events and retries, in any order.\<close>

inductive caller_run ::
  "('h, 'i, 's) hook_ops \<Rightarrow> caller_config \<Rightarrow> ('h, 'i, 's) caller \<Rightarrow> bool"
  for ops :: "('h, 'i, 's) hook_ops" and cfg :: caller_config where
  created: "caller_run ops cfg (caller_new store receivers)"
| called: "caller_run ops cfg c \<Longrightarrow> caller_run ops cfg (fst (call_webhook ops cfg world hook data c))"
| retried: "caller_run ops cfg c \<Longrightarrow> caller_run ops cfg (fst (retry_call ops cfg world hook c))"
| store_changed: "caller_run ops cfg c \<Longrightarrow> caller_run ops cfg (c\<lparr>ca_store := store\<rparr>)"

definition counts_bounded :: "caller_config \<Rightarrow> ('h, 'i, 's) caller \<Rightarrow> bool" where
  "counts_bounded cfg c \<longleftrightarrow> (\<forall>i n. ca_retry_count c i = Some n \<longrightarrow> 1 \<le> unat n \<and> n < cc_max_retries cfg)"

lemma prev_count_Some [simp]: "ca_retry_count c i = Some n \<Longrightarrow> prev_count c i = n"
  by (simp add: prev_count_def unwrap_or_def)

lemma prev_count_None [simp]: "ca_retry_count c i = None \<Longrightarrow> prev_count c i = 0"
  by (simp add: prev_count_def unwrap_or_def)

lemma store_state_counts [simp]:
  "ca_retry_count (fst (store_state ops hook state c)) = ca_retry_count c"
  by (simp add: store_state_def split: result.splits)

lemma remove_count_simps [simp]:
  "ca_retry_count (remove_count i c) = (ca_retry_count c)(i := None)"
  "ca_store (remove_count i c) = ca_store c"
  by (simp_all add: remove_count_def)

lemma counts_bounded_cong:
  "ca_retry_count c' = ca_retry_count c \<Longrightarrow> counts_bounded cfg c' = counts_bounded cfg c"
  by (simp add: counts_bounded_def)

lemma counts_bounded_remove: "counts_bounded cfg c \<Longrightarrow> counts_bounded cfg (remove_count i c)"
  by (simp add: counts_bounded_def)

lemma call_webhook_counts:
  "ca_retry_count (fst (call_webhook ops cfg world hook data c)) = ca_retry_count c
   \<or> ca_retry_count (fst (call_webhook ops cfg world hook data c)) = (ca_retry_count c)(ho_id ops hook := None)"
proof -
  have "ca_retry_count c' = ca_retry_count c" if "store_state ops hook state c = (c', r)" for c c' state r
    using that store_state_counts [of ops hook state c] by simp
  then show ?thesis
    by (simp add: call_webhook_def split: option.splits prod.splits result.splits)
qed

lemma call_webhook_bounded:
  "counts_bounded cfg c \<Longrightarrow> counts_bounded cfg (fst (call_webhook ops cfg world hook data c))"
  using call_webhook_counts [of ops cfg world hook data c] by (auto simp: counts_bounded_def split: if_splits)

lemma abandon_hook_bounded: "counts_bounded cfg c \<Longrightarrow> counts_bounded cfg (fst (abandon_hook ops hook c))"
  using counts_bounded_remove [of cfg c "ho_id ops hook"]
  by (simp add: abandon_hook_def counts_bounded_def)

lemma next_count:
  assumes "counts_bounded cfg c" and "\<not> prev_count c i + 1 \<ge> cc_max_retries cfg"
  shows "unat (prev_count c i + 1) = unat (prev_count c i) + 1" and "prev_count c i + 1 < cc_max_retries cfg"
proof -
  have lt: "prev_count c i + 1 < cc_max_retries cfg" using assms(2) by simp
  have "prev_count c i \<noteq> - 1"
  proof (cases "ca_retry_count c i")
    case (Some n)
    with assms(1) have "n < cc_max_retries cfg" by (simp add: counts_bounded_def)
    then have "n \<noteq> - 1" using word_n1_ge [of "cc_max_retries cfg"] by auto
    with Some show ?thesis by simp
  qed simp
  then have "1 + prev_count c i \<noteq> 0" by (simp add: add_eq_0_iff)
  from unatSuc [OF this] show "unat (prev_count c i + 1) = unat (prev_count c i) + 1"
    by (simp add: add.commute)
  show "prev_count c i + 1 < cc_max_retries cfg" by (rule lt)
qed

lemma retry_call_bounded:
  assumes "counts_bounded cfg c"
  shows "counts_bounded cfg (fst (retry_call ops cfg world hook c))"
proof (cases "ho_get_retry_data ops (ca_store c) hook")
  case (Ok params)
  show ?thesis
  proof (cases params)
    case None
    with Ok assms show ?thesis by (simp add: retry_call_def abandon_hook_bounded)
  next
    case (Some data)
    obtain c' r where call: "call_webhook ops cfg world hook data c = (c', r)" by fastforce
    have b: "counts_bounded cfg c'" using call_webhook_bounded [OF assms, of ops world hook data] call by simp
    show ?thesis
    proof (cases r)
      case res: (Ok res)
      let ?i = "ho_id ops hook"
      have "counts_bounded cfg (c'\<lparr>ca_retry_count := (ca_retry_count c')(?i \<mapsto> prev_count c' ?i + 1)\<rparr>)"
        if "\<not> prev_count c' ?i + 1 \<ge> cc_max_retries cfg"
        using next_count [OF b that] b by (simp add: counts_bounded_def)
      then show ?thesis
        using Ok Some call res b
        by (simp add: retry_call_def Let_def abandon_hook_bounded counts_bounded_remove)
    qed (use Ok Some call b in \<open>simp_all add: retry_call_def\<close>)
  qed
qed (use assms in \<open>simp_all add: retry_call_def\<close>)

text \<open>
  The number of recorded failures of a webhook stays below the configured maximum. In every
  state a caller reaches by calls for new events and by retries, in any order, whatever the
  network, the name resolution and the store of the states do, a recorded count is at least one
  and less than \<open>max_retries\<close>; in particular it never wraps.
\<close>

theorem retry_counts_bounded:
  assumes "caller_run ops cfg c" and "ca_retry_count c i = Some n"
  shows "1 \<le> unat n \<and> unat n < unat (cc_max_retries cfg)"
proof -
  from assms(1) have "counts_bounded cfg c"
  proof induction
    case (created store receivers)
    then show ?case by (simp add: counts_bounded_def caller_new_def)
  next
    case (store_changed c store)
    then show ?case by (simp add: counts_bounded_def)
  qed (simp_all add: call_webhook_bounded retry_call_bounded)
  with assms(2) show ?thesis by (simp add: counts_bounded_def word_less_nat_alt)
qed

subsection \<open>The contract of a store\<close>

text \<open>
  The ids of the hooks a store reports as failed, and what the trait \<open>HookState\<close> promises of them
  while the store works: each failed hook is reported once, a hook leaves the failed ones exactly
  when another state is set for it, and setting a failed hook to failed changes nothing.
\<close>

locale hook_store =
  fixes ops :: "('h, 'i, 's) hook_ops" and inv :: "'s \<Rightarrow> bool" and failed_ids :: "'s \<Rightarrow> 'i set"
  assumes by_state: "inv st \<Longrightarrow> \<exists>hs. ho_get_by_state ops st StateFailed = Ok hs
      \<and> distinct (map (ho_id ops) hs) \<and> set (map (ho_id ops) hs) = failed_ids st"
    and retry_data: "inv st \<Longrightarrow> \<exists>d. ho_get_retry_data ops st h = Ok d"
    and set_state: "inv st \<Longrightarrow> \<exists>st'. ho_set_state ops st h state = Ok st' \<and> inv st'
      \<and> (state \<noteq> StateFailed \<longrightarrow> failed_ids st' = failed_ids st - {ho_id ops h})
      \<and> (state = StateFailed \<longrightarrow> ho_id ops h \<in> failed_ids st \<longrightarrow> failed_ids st' = failed_ids st)"
begin

lemma store_state_Ok:
  assumes "inv (ca_store c)"
  obtains st' where "store_state ops h state c = (c\<lparr>ca_store := st'\<rparr>, Ok ())" "inv st'"
    "state \<noteq> StateFailed \<Longrightarrow> failed_ids st' = failed_ids (ca_store c) - {ho_id ops h}"
    "state = StateFailed \<Longrightarrow> ho_id ops h \<in> failed_ids (ca_store c) \<Longrightarrow> failed_ids st' = failed_ids (ca_store c)"
proof -
  from set_state [OF assms, of h state] obtain st' where
    "ho_set_state ops (ca_store c) h state = Ok st'" "inv st'"
    "state \<noteq> StateFailed \<longrightarrow> failed_ids st' = failed_ids (ca_store c) - {ho_id ops h}"
    "state = StateFailed \<longrightarrow> ho_id ops h \<in> failed_ids (ca_store c) \<longrightarrow> failed_ids st' = failed_ids (ca_store c)"
    by blast
  then show ?thesis by (intro that [of st']) (simp_all add: store_state_def)
qed

text \<open>What one step for hook \<open>h\<close> may do: nothing to the others, and to \<open>h\<close> it is progress.\<close>

definition progress :: "'h \<Rightarrow> ('h, 'i, 's) caller \<Rightarrow> ('h, 'i, 's) caller \<Rightarrow> bool" where
  "progress h c c' \<longleftrightarrow> inv (ca_store c')
     \<and> failed_ids (ca_store c') \<in> {failed_ids (ca_store c), failed_ids (ca_store c) - {ho_id ops h}}
     \<and> (\<forall>i. i \<noteq> ho_id ops h \<longrightarrow> ca_retry_count c' i = ca_retry_count c i)
     \<and> (ho_id ops h \<in> failed_ids (ca_store c') \<longrightarrow>
          unat (prev_count c' (ho_id ops h)) = unat (prev_count c (ho_id ops h)) + 1)"

lemma abandon_progress:
  assumes "inv (ca_store c)"
  shows "progress h c (fst (abandon_hook ops h c))"
proof -
  have "inv (ca_store (remove_count (ho_id ops h) c))" using assms by simp
  from store_state_Ok [OF this, of h StateAbandoned] obtain st' where
    "store_state ops h StateAbandoned (remove_count (ho_id ops h) c)
       = (remove_count (ho_id ops h) c\<lparr>ca_store := st'\<rparr>, Ok ())" "inv st'"
    "failed_ids st' = failed_ids (ca_store c) - {ho_id ops h}"
    by auto
  then show ?thesis by (simp add: abandon_hook_def progress_def)
qed

text \<open>A call for a failed hook: it succeeds in changing the store, and keeps the counter or drops it.\<close>

lemma call_webhook_failed_hook:
  assumes "inv (ca_store c)" and "ho_id ops h \<in> failed_ids (ca_store c)"
  obtains c' res where "call_webhook ops cfg world h data c = (c', Ok res)" "inv (ca_store c')"
    "res = CallSuccess \<Longrightarrow> failed_ids (ca_store c') = failed_ids (ca_store c) - {ho_id ops h}
       \<and> ca_retry_count c' = (ca_retry_count c)(ho_id ops h := None)"
    "res \<noteq> CallSuccess \<Longrightarrow> failed_ids (ca_store c') = failed_ids (ca_store c)
       \<and> ca_retry_count c' = ca_retry_count c"
proof -
  let ?i = "ho_id ops h"
  obtain st1 where st1: "store_state ops h StateOk (remove_count ?i c)
      = (remove_count ?i c\<lparr>ca_store := st1\<rparr>, Ok ())" "inv st1"
    "failed_ids st1 = failed_ids (ca_store c) - {?i}"
    using store_state_Ok [of "remove_count ?i c" h StateOk] assms(1) by auto
  obtain st2 where st2: "store_state ops h StateFailed c = (c\<lparr>ca_store := st2\<rparr>, Ok ())" "inv st2"
    "failed_ids st2 = failed_ids (ca_store c)"
    using store_state_Ok [OF assms(1), of h StateFailed] assms(2) by auto
  consider (skip) "ho_should_be_skipped ops (ca_store c) h data"
    | (ip) "\<not> ho_should_be_skipped ops (ca_store c) h data"
        "check_ip (wo_net world) (ho_url ops h) (cc_allow_insecure cfg) \<noteq> Ok ()"
    | (post) "\<not> ho_should_be_skipped ops (ca_store c) h data"
        "check_ip (wo_net world) (ho_url ops h) (cc_allow_insecure cfg) = Ok ()"
    by blast
  then show ?thesis
  proof cases
    case skip
    then show ?thesis using assms by (intro that [of c CallNotIncluded]) (simp_all add: call_webhook_def)
  next
    case ip
    then show ?thesis using assms by (intro that [of c CallFailed]) (simp_all add: call_webhook_def)
  next
    case post
    show ?thesis
    proof (cases "response_body (wo_post world h (ho_url ops h) (event_of_data data, data))")
      case None
      then show ?thesis using post st2
        by (intro that [of "c\<lparr>ca_store := st2\<rparr>" CallFailed]) (simp_all add: call_webhook_def)
    next
      case (Some body)
      then show ?thesis using post st1
        by (intro that [of "fst (call_webhook ops cfg world h data c)" CallSuccess])
          (simp_all add: call_webhook_def)
    qed
  qed
qed

lemma retry_call_progress:
  assumes "inv (ca_store c)" and "ho_id ops h \<in> failed_ids (ca_store c)" and "counts_bounded cfg c"
  shows "progress h c (fst (retry_call ops cfg world h c))"
proof -
  let ?i = "ho_id ops h"
  from retry_data [OF assms(1), of h] obtain params where
    params: "ho_get_retry_data ops (ca_store c) h = Ok params" by blast
  show ?thesis
  proof (cases params)
    case None
    with params abandon_progress [OF assms(1)] show ?thesis by (simp add: retry_call_def)
  next
    case (Some data)
    obtain c' res where call: "call_webhook ops cfg world h data c = (c', Ok res)" "inv (ca_store c')"
      "res = CallSuccess \<Longrightarrow> failed_ids (ca_store c') = failed_ids (ca_store c) - {?i}
         \<and> ca_retry_count c' = (ca_retry_count c)(?i := None)"
      "res \<noteq> CallSuccess \<Longrightarrow> failed_ids (ca_store c') = failed_ids (ca_store c)
         \<and> ca_retry_count c' = ca_retry_count c"
      by (rule call_webhook_failed_hook [OF assms(1,2), of cfg world data]) (rule that)
    show ?thesis
    proof (cases "res = CallSuccess")
      case True
      with call have "retry_call ops cfg world h c = (remove_count ?i c', Ok ())"
        by (simp add: retry_call_def params Some)
      with call(2) call(3) [OF True] show ?thesis by (simp add: progress_def)
    next
      case False
      note same = call(4) [OF False]
      then have b: "counts_bounded cfg c'" and pc: "prev_count c' = prev_count c"
        using assms(3) by (simp_all add: counts_bounded_def prev_count_def fun_eq_iff)
      show ?thesis
      proof (cases "res = CallNotIncluded \<or> prev_count c' ?i + 1 \<ge> cc_max_retries cfg")
        case True
        with False call have "retry_call ops cfg world h c = abandon_hook ops h c'"
          by (simp add: retry_call_def params Some Let_def)
        with abandon_progress [OF call(2), of h] same show ?thesis by (simp add: progress_def pc)
      next
        case counted: False
        with False call have "retry_call ops cfg world h c
            = (c'\<lparr>ca_retry_count := (ca_retry_count c')(?i \<mapsto> prev_count c' ?i + 1)\<rparr>, Ok ())"
          by (simp add: retry_call_def params Some Let_def)
        with same call(2) next_count(1) [OF b, of ?i] counted show ?thesis by (simp add: progress_def pc)
      qed
    qed
  qed
qed

text \<open>One round: every hook that is still failed afterwards has one more recorded failure.\<close>

lemma retry_hooks_progress:
  assumes "inv (ca_store c)" and "distinct (map (ho_id ops) hs)"
    and "set (map (ho_id ops) hs) \<subseteq> failed_ids (ca_store c)" and "counts_bounded cfg c"
    and "c' = retry_hooks ops cfg world hs c"
  shows "inv (ca_store c') \<and> counts_bounded cfg c' \<and> failed_ids (ca_store c') \<subseteq> failed_ids (ca_store c)
    \<and> (\<forall>i \<in> failed_ids (ca_store c'). unat (prev_count c' i)
         = unat (prev_count c i) + (if i \<in> set (map (ho_id ops) hs) then 1 else 0))
    \<and> (\<forall>i. i \<notin> set (map (ho_id ops) hs) \<longrightarrow> ca_retry_count c' i = ca_retry_count c i)"
  using assms
proof (induction hs arbitrary: c)
  case Nil
  then show ?case by (simp add: retry_hooks_def)
next
  case (Cons h hs)
  define d where "d = fst (retry_call ops cfg world h c)"
  have p: "progress h c d" unfolding d_def using Cons.prems by (intro retry_call_progress) auto
  have b: "counts_bounded cfg d" unfolding d_def using Cons.prems(4) by (rule retry_call_bounded)
  have sub: "failed_ids (ca_store d) \<subseteq> failed_ids (ca_store c)"
    "failed_ids (ca_store c) - {ho_id ops h} \<subseteq> failed_ids (ca_store d)"
    using p by (auto simp: progress_def)
  have c': "c' = retry_hooks ops cfg world hs d" using Cons.prems(5) by (simp add: retry_hooks_def d_def)
  have inv_d: "inv (ca_store d)" using p by (simp add: progress_def)
  have dist: "distinct (map (ho_id ops) hs)" "ho_id ops h \<notin> set (map (ho_id ops) hs)"
    using Cons.prems(2) by auto
  have ids: "set (map (ho_id ops) hs) \<subseteq> failed_ids (ca_store d)"
  proof
    fix i assume i: "i \<in> set (map (ho_id ops) hs)"
    then have "i \<in> failed_ids (ca_store c)" using Cons.prems(3) by (auto dest: subsetD)
    moreover have "i \<noteq> ho_id ops h" using i dist(2) by metis
    ultimately show "i \<in> failed_ids (ca_store d)" using sub(2) by blast
  qed
  note IH = Cons.IH [OF inv_d dist(1) ids b c']
  have count: "unat (prev_count d i) = unat (prev_count c i) + (if i = ho_id ops h then 1 else 0)"
    if "i \<in> failed_ids (ca_store d)" for i
    using p that by (auto simp: progress_def prev_count_def)
  show ?case
  proof (intro conjI ballI allI impI)
    show "inv (ca_store c')" "counts_bounded cfg c'" using IH by blast+
    show "failed_ids (ca_store c') \<subseteq> failed_ids (ca_store c)" using IH sub(1) by blast
    fix i
    show "unat (prev_count c' i) = unat (prev_count c i)
        + (if i \<in> set (map (ho_id ops) (h # hs)) then 1 else 0)" if "i \<in> failed_ids (ca_store c')"
    proof -
      from that IH have "i \<in> failed_ids (ca_store d)"
        "unat (prev_count c' i) = unat (prev_count d i) + (if i \<in> set (map (ho_id ops) hs) then 1 else 0)"
        by blast+
      with count [of i] dist(2) show ?thesis by auto
    qed
    show "ca_retry_count c' i = ca_retry_count c i" if "i \<notin> set (map (ho_id ops) (h # hs))"
      using that IH p by (auto simp: progress_def)
  qed
qed

lemma retry_calls_progress:
  assumes "inv (ca_store c)" and "counts_bounded cfg c" and "c' = fst (retry_calls ops cfg world c)"
  shows "inv (ca_store c') \<and> counts_bounded cfg c'
    \<and> (\<forall>i \<in> failed_ids (ca_store c'). unat (prev_count c' i) = unat (prev_count c i) + 1
         \<and> i \<in> failed_ids (ca_store c))"
proof -
  from by_state [OF assms(1)] obtain hs where hs: "ho_get_by_state ops (ca_store c) StateFailed = Ok hs"
    "distinct (map (ho_id ops) hs)" "set (map (ho_id ops) hs) = failed_ids (ca_store c)"
    by blast
  have c': "c' = retry_hooks ops cfg world hs c" using assms(3) hs(1) by (simp add: retry_calls_def)
  have "set (map (ho_id ops) hs) \<subseteq> failed_ids (ca_store c)" using hs(3) by simp
  from retry_hooks_progress [OF assms(1) hs(2) this assms(2) c'] show ?thesis
    unfolding hs(3) by auto
qed

lemma retry_rounds_progress:
  assumes "inv (ca_store c)" and "counts_bounded cfg c" and "c' = caller_start ops cfg worlds c"
  shows "inv (ca_store c') \<and> counts_bounded cfg c'
    \<and> (\<forall>i \<in> failed_ids (ca_store c'). length worlds \<le> unat (prev_count c' i))"
proof -
  have "inv (ca_store c') \<and> counts_bounded cfg c' \<and> failed_ids (ca_store c') \<subseteq> failed_ids (ca_store c)
    \<and> (\<forall>i \<in> failed_ids (ca_store c'). unat (prev_count c' i) = unat (prev_count c i) + length worlds)"
    using assms
  proof (induction worlds arbitrary: c)
    case Nil
    then show ?case by (simp add: caller_start_def)
  next
    case (Cons world worlds)
    define d where "d = fst (retry_calls ops cfg world c)"
    note step = retry_calls_progress [OF Cons.prems(1,2) d_def]
    have c': "c' = caller_start ops cfg worlds d" using Cons.prems(3) by (simp add: caller_start_def d_def)
    have "inv (ca_store d)" "counts_bounded cfg d" using step by blast+
    note IH = Cons.IH [OF this c']
    have "failed_ids (ca_store d) \<subseteq> failed_ids (ca_store c)" using step by blast
    with IH have "failed_ids (ca_store c') \<subseteq> failed_ids (ca_store c)" by blast
    moreover have "unat (prev_count c' i) = unat (prev_count c i) + length (world # worlds)"
      if "i \<in> failed_ids (ca_store c')" for i
    proof -
      from that IH have "i \<in> failed_ids (ca_store d)"
        "unat (prev_count c' i) = unat (prev_count d i) + length worlds" by blast+
      with step show ?thesis by simp
    qed
    ultimately show ?case using IH by blast
  qed
  then show ?thesis by auto
qed

text \<open>After as many rounds as there may be retries no hook is left to retry.\<close>

lemma retries_drain:
  assumes "inv (ca_store c)" and "counts_bounded cfg c"
    and "max 1 (unat (cc_max_retries cfg)) \<le> length worlds"
  shows "failed_ids (ca_store (caller_start ops cfg worlds c)) = {}"
proof (rule equals0I)
  let ?c' = "caller_start ops cfg worlds c"
  note rounds = retry_rounds_progress [OF assms(1,2) refl, of worlds]
  fix i assume "i \<in> failed_ids (ca_store ?c')"
  with rounds assms(3) have ge: "max 1 (unat (cc_max_retries cfg)) \<le> unat (prev_count ?c' i)" by fastforce
  show False
  proof (cases "ca_retry_count ?c' i")
    case None
    with ge show False by simp
  next
    case (Some n)
    with rounds have "unat n < unat (cc_max_retries cfg)"
      by (simp add: counts_bounded_def word_less_nat_alt)
    with Some ge show False by simp
  qed
qed

end

subsection \<open>Webhooks of swaps, in the database\<close>

record web_hook =
  wh_id :: string
  wh_state :: string
  wh_url :: string
  wh_hash_swap_id :: bool
  wh_status :: "string list option"

text \<open>
  \<open>sha256_hex\<close> is the hexadecimal SHA-256 of the library. The tables of the three kinds of swap are
  lists of ids and states.
\<close>

definition format_swap_id :: "(string \<Rightarrow> string) \<Rightarrow> string \<Rightarrow> bool \<Rightarrow> string" where
  "format_swap_id sha256_hex i hash_swap_id = (if \<not> hash_swap_id then i else sha256_hex i)"

record swap_tables =
  st_swaps :: "(string \<times> string) list"
  st_reverse :: "(string \<times> string) list"
  st_chain :: "(string \<times> string) list"

definition get_swap_status :: "swap_tables \<Rightarrow> string \<Rightarrow> string option" where
  "get_swap_status tables i =
     (let results = map (\<lambda>table. take 1 (map snd (filter (\<lambda>row. fst row = i) table)))
            [st_swaps tables, st_reverse tables, st_chain tables]
      in map_option hd (List.find (\<lambda>res. res \<noteq> []) results))"

definition wh_should_be_skipped :: "web_hook \<Rightarrow> call_data \<Rightarrow> bool" where
  "wh_should_be_skipped hook params =
     (case (params, wh_status hook) of
        (SwapUpdateData _ status, Some status_include) \<Rightarrow> status \<notin> set status_include
      | _ \<Rightarrow> False)"

definition wh_get_by_state :: "web_hook list \<Rightarrow> web_hook_state \<Rightarrow> web_hook list" where
  "wh_get_by_state rows state = filter (\<lambda>r. wh_state r = web_hook_state_str state) rows"

definition wh_get_retry_data ::
  "(string \<Rightarrow> string) \<Rightarrow> swap_tables \<Rightarrow> web_hook \<Rightarrow> call_data option" where
  "wh_get_retry_data sha256_hex tables hook =
     map_option (SwapUpdateData (format_swap_id sha256_hex (wh_id hook) (wh_hash_swap_id hook)))
       (get_swap_status tables (wh_id hook))"

definition wh_set_state :: "web_hook list \<Rightarrow> string \<Rightarrow> web_hook_state \<Rightarrow> web_hook list" where
  "wh_set_state rows i state =
     map (\<lambda>r. if wh_id r = i then r\<lparr>wh_state := web_hook_state_str state\<rparr> else r) rows"

text \<open>The instance of the traits; \<open>up\<close> says whether the database answers.\<close>

definition web_hook_ops ::
  "(string \<Rightarrow> string) \<Rightarrow> swap_tables \<Rightarrow> bool \<Rightarrow> (web_hook, string, web_hook list) hook_ops" where
  "web_hook_ops sha256_hex tables up =
     \<lparr>ho_id = wh_id, ho_url = wh_url,
      ho_should_be_skipped = (\<lambda>_. wh_should_be_skipped),
      ho_get_by_state = (\<lambda>rows state. if up then Ok (wh_get_by_state rows state) else Err HookDb),
      ho_get_retry_data = (\<lambda>_ hook. if up then Ok (wh_get_retry_data sha256_hex tables hook) else Err HookDb),
      ho_set_state = (\<lambda>rows hook state. if up then Ok (wh_set_state rows (wh_id hook) state) else Err HookDb)\<rparr>"

definition failed_rows :: "web_hook list \<Rightarrow> string set" where
  "failed_rows rows = {wh_id r | r. r \<in> set rows \<and> wh_state r = ''failed''}"

lemma failed_rows_simps [simp]:
  "failed_rows [] = {}"
  "failed_rows (r # rs) = (if wh_state r = ''failed'' then insert (wh_id r) (failed_rows rs) else failed_rows rs)"
  by (auto simp: failed_rows_def)

lemma failed_rows_set_state:
  "state \<noteq> StateFailed \<Longrightarrow> failed_rows (wh_set_state rows i state) = failed_rows rows - {i}"
  "failed_rows (wh_set_state rows i StateFailed) = failed_rows rows \<union> ({i} \<inter> set (map wh_id rows))"
  by (induction rows) (cases state; auto simp: wh_set_state_def)+

lemma failed_rows_subset: "failed_rows rows \<subseteq> set (map wh_id rows)"
  by (auto simp: failed_rows_def)

lemma wh_set_state_ids: "map wh_id (wh_set_state rows i state) = map wh_id rows"
  by (simp add: wh_set_state_def)

interpretation db_hooks: hook_store "web_hook_ops sha256_hex tables True" "\<lambda>rows. distinct (map wh_id rows)" failed_rows
  for sha256_hex tables
proof
  fix st :: "web_hook list" and h state
  assume inv: "distinct (map wh_id st)"
  have "distinct (map wh_id (filter (\<lambda>r. wh_state r = ''failed'') st))" using inv by (rule distinct_map_filter)
  then show "\<exists>hs. ho_get_by_state (web_hook_ops sha256_hex tables True) st StateFailed = Ok hs
      \<and> distinct (map (ho_id (web_hook_ops sha256_hex tables True)) hs)
      \<and> set (map (ho_id (web_hook_ops sha256_hex tables True)) hs) = failed_rows st"
    by (auto simp: web_hook_ops_def wh_get_by_state_def failed_rows_def)
  show "\<exists>d. ho_get_retry_data (web_hook_ops sha256_hex tables True) st h = Ok d"
    by (simp add: web_hook_ops_def)
  have set: "ho_set_state (web_hook_ops sha256_hex tables True) st h state = Ok (wh_set_state st (wh_id h) state)"
    "ho_id (web_hook_ops sha256_hex tables True) h = wh_id h"
    by (simp_all add: web_hook_ops_def)
  have "distinct (map wh_id (wh_set_state st (wh_id h) state))" using inv by (simp only: wh_set_state_ids)
  moreover have "failed_rows (wh_set_state st (wh_id h) StateFailed) = failed_rows st" if "wh_id h \<in> failed_rows st"
    using that by (auto simp: failed_rows_set_state(2))
  ultimately show "\<exists>st'. ho_set_state (web_hook_ops sha256_hex tables True) st h state = Ok st'
      \<and> distinct (map wh_id st')
      \<and> (state \<noteq> StateFailed \<longrightarrow> failed_rows st' = failed_rows st - {ho_id (web_hook_ops sha256_hex tables True) h})
      \<and> (state = StateFailed \<longrightarrow> ho_id (web_hook_ops sha256_hex tables True) h \<in> failed_rows st
           \<longrightarrow> failed_rows st' = failed_rows st)"
    unfolding set using failed_rows_set_state(1) [of state st "wh_id h"] by blast
qed

subsection \<open>Webhooks of invoice requests, in memory\<close>

text \<open>
  A hook with its URL; \<open>hash\<close> is the hasher of the standard library. The map is an association list
  with distinct keys, whose order stands for the order of iteration.
\<close>

record invoice_hook =
  ih_offer :: string
  ih_invoice_request :: string
  ih_url :: string

definition invoice_hook_new :: "(bytes \<Rightarrow> string) \<Rightarrow> string \<Rightarrow> bytes \<Rightarrow> string \<Rightarrow> invoice_hook" where
  "invoice_hook_new hex_encode offer invoice_request url =
     \<lparr>ih_offer = offer, ih_invoice_request = hex_encode invoice_request, ih_url = url\<rparr>"

definition invoice_hook_id :: "(string \<Rightarrow> u64) \<Rightarrow> invoice_hook \<Rightarrow> u64" where
  "invoice_hook_id hash h = hash (ih_invoice_request h)"

definition invoice_call_data :: "invoice_hook \<Rightarrow> call_data" where
  "invoice_call_data h = InvoiceRequestData (ih_offer h) (ih_invoice_request h)"

type_synonym to_retry = "(u64 \<times> invoice_hook) list"

definition ih_get_by_state :: "to_retry \<Rightarrow> web_hook_state \<Rightarrow> invoice_hook list" where
  "ih_get_by_state m state = (if state \<noteq> StateFailed then [] else map snd m)"

definition ih_set_state :: "(string \<Rightarrow> u64) \<Rightarrow> to_retry \<Rightarrow> invoice_hook \<Rightarrow> web_hook_state \<Rightarrow> to_retry" where
  "ih_set_state hash m h state =
     (if state = StateFailed then AList.update (invoice_hook_id hash h) h m
      else AList.delete (invoice_hook_id hash h) m)"

definition invoice_hook_ops :: "(string \<Rightarrow> u64) \<Rightarrow> (invoice_hook, u64, to_retry) hook_ops" where
  "invoice_hook_ops hash =
     \<lparr>ho_id = invoice_hook_id hash, ho_url = ih_url, ho_should_be_skipped = (\<lambda>_ _ _. False),
      ho_get_by_state = (\<lambda>m state. Ok (ih_get_by_state m state)),
      ho_get_retry_data = (\<lambda>_ h. Ok (Some (invoice_call_data h))),
      ho_set_state = (\<lambda>m h state. Ok (ih_set_state hash m h state))\<rparr>"

definition to_retry_inv :: "(string \<Rightarrow> u64) \<Rightarrow> to_retry \<Rightarrow> bool" where
  "to_retry_inv hash m \<longleftrightarrow> distinct (map fst m) \<and> (\<forall>(k, h) \<in> set m. k = invoice_hook_id hash h)"

lemma to_retry_inv_update:
  "to_retry_inv hash m \<Longrightarrow> to_retry_inv hash (AList.update (invoice_hook_id hash h) h m)"
proof -
  assume inv: "to_retry_inv hash m"
  have "set (AList.update k v m) \<subseteq> insert (k, v) (set m)" for k v
    by (induction m) auto
  with inv show ?thesis by (fastforce simp: to_retry_inv_def distinct_update)
qed

interpretation invoice_hooks: hook_store "invoice_hook_ops hash" "to_retry_inv hash" "\<lambda>m. set (map fst m)"
  for hash
proof
  fix st :: to_retry and h state
  assume inv: "to_retry_inv hash st"
  then have ids: "map (invoice_hook_id hash) (map snd st) = map fst st"
    by (auto simp: to_retry_inv_def)
  have ops: "ho_get_by_state (invoice_hook_ops hash) st StateFailed = Ok (map snd st)"
    "ho_id (invoice_hook_ops hash) = invoice_hook_id hash"
    by (simp_all add: invoice_hook_ops_def ih_get_by_state_def)
  have "distinct (map fst st)" using inv by (simp add: to_retry_inv_def)
  then show "\<exists>hs. ho_get_by_state (invoice_hook_ops hash) st StateFailed = Ok hs
      \<and> distinct (map (ho_id (invoice_hook_ops hash)) hs)
      \<and> set (map (ho_id (invoice_hook_ops hash)) hs) = set (map fst st)"
    unfolding ops by (intro exI [of _ "map snd st"] conjI) (simp_all only: ids)
  show "\<exists>d. ho_get_retry_data (invoice_hook_ops hash) st h = Ok d" by (simp add: invoice_hook_ops_def)
  have set: "ho_set_state (invoice_hook_ops hash) st h state = Ok (ih_set_state hash st h state)"
    "ho_id (invoice_hook_ops hash) h = invoice_hook_id hash h"
    by (simp_all add: invoice_hook_ops_def)
  have "to_retry_inv hash (ih_set_state hash st h state)"
  proof (cases "state = StateFailed")
    case True
    with to_retry_inv_update [OF inv] show ?thesis by (simp add: ih_set_state_def)
  next
    case False
    with inv show ?thesis
      by (auto simp: ih_set_state_def to_retry_inv_def AList.delete_eq distinct_map_filter)
  qed
  moreover have "set (map fst (ih_set_state hash st h state)) = set (map fst st) - {invoice_hook_id hash h}"
    if "state \<noteq> StateFailed"
    using that by (auto simp: ih_set_state_def AList.delete_eq)
  moreover have "set (map fst (ih_set_state hash st h StateFailed)) = set (map fst st)"
    if "invoice_hook_id hash h \<in> set (map fst st)"
    using that by (simp add: ih_set_state_def AList.update_keys)
  ultimately show "\<exists>st'. ho_set_state (invoice_hook_ops hash) st h state = Ok st' \<and> to_retry_inv hash st'
      \<and> (state \<noteq> StateFailed \<longrightarrow> set (map fst st') = set (map fst st) - {ho_id (invoice_hook_ops hash) h})
      \<and> (state = StateFailed \<longrightarrow> ho_id (invoice_hook_ops hash) h \<in> set (map fst st)
           \<longrightarrow> set (map fst st') = set (map fst st))"
    unfolding set by blast
qed

text \<open>
  C16: No webhook is retried for ever. As long as the store answers, after as many rounds of the
  retry loop as \<open>max_retries\<close> allows (at least one), whatever the network did in them, no webhook of
  a swap is left in the failed state, and no webhook of an invoice request is left in the map of
  hooks to retry.
\<close>

theorem webhook_retries_end:
  assumes "counts_bounded cfg c" and "distinct (map wh_id (ca_store c))"
    and "max 1 (unat (cc_max_retries cfg)) \<le> length worlds"
    and "counts_bounded cfg c2" and "to_retry_inv hash (ca_store c2)"
    and "max 1 (unat (cc_max_retries cfg)) \<le> length worlds2"
  shows "(\<forall>r \<in> set (ca_store (caller_start (web_hook_ops sha256_hex tables True) cfg worlds c)).
      wh_state r \<noteq> ''failed'')
    \<and> ca_store (caller_start (invoice_hook_ops hash) cfg worlds2 c2) = []"
  using db_hooks.retries_drain [OF assms(2,1,3), of sha256_hex tables]
    invoice_hooks.retries_drain [OF assms(5,4,6)]
  by (auto simp: failed_rows_def)

subsection \<open>Examples\<close>

definition example_config :: caller_config where
  "example_config = caller_config_new \<lparr>co_request_timeout = None, co_max_retries = Some 2,
     co_retry_interval = None, co_block_list = None\<rparr> True"

definition example_hook :: web_hook where
  "example_hook = \<lparr>wh_id = ''a'', wh_state = ''failed'', wh_url = ''https://a.com'',
     wh_hash_swap_id = False, wh_status = None\<rparr>"

definition example_swap_tables :: swap_tables where
  "example_swap_tables = \<lparr>st_swaps = [(''a'', ''invoice.set'')], st_reverse = [], st_chain = []\<rparr>"

text \<open>A world in which every request fails.\<close>

definition example_world :: "'h world" where
  "example_world = \<lparr>wo_net = example_net, wo_post = (\<lambda>_ _ _. HttpError)\<rparr>"

lemma example_retry:
  "retry_call (web_hook_ops id example_swap_tables True) example_config example_world example_hook
     (caller_new [example_hook] 0)
   = (\<lparr>ca_store = [example_hook], ca_retry_count = [''a'' \<mapsto> 1], ca_receivers = 0,
       ca_successful_calls = []\<rparr>, Ok ())"
  by (simp add: retry_call_def web_hook_ops_def wh_get_retry_data_def get_swap_status_def
      example_swap_tables_def example_hook_def call_webhook_def wh_should_be_skipped_def check_ip_def
      example_config_def caller_config_new_def unwrap_or_def example_world_def store_state_def
      wh_set_state_def caller_new_def prev_count_def word_le_nat_alt)

theorem retry_counts_bounded_witness:
  "\<exists>c :: (web_hook, string, web_hook list) caller.
     caller_run (web_hook_ops id example_swap_tables True) example_config c
     \<and> ca_retry_count c ''a'' = Some 1 \<and> unat (1 :: u64) < unat (cc_max_retries example_config)"
proof -
  let ?c = "fst (retry_call (web_hook_ops id example_swap_tables True) example_config example_world
    example_hook (caller_new [example_hook] 0))"
  have run: "caller_run (web_hook_ops id example_swap_tables True) example_config ?c"
    by (intro caller_run.retried caller_run.created)
  have count: "ca_retry_count ?c ''a'' = Some 1" by (simp add: example_retry)
  from retry_counts_bounded [OF run count] run count show ?thesis by blast
qed

theorem webhook_retries_end_witness:
  "list_all (\<lambda>r. wh_state r \<noteq> ''failed'')
     (ca_store (caller_start (web_hook_ops id example_swap_tables True) example_config
        [example_world, example_world] (caller_new [example_hook] 0)))
   \<and> ca_store (caller_start (invoice_hook_ops (\<lambda>_. 0)) example_config [example_world, example_world]
      (caller_new [(0, \<lparr>ih_offer = [], ih_invoice_request = [], ih_url = []\<rparr>)] 0)) = []"
  unfolding list_all_iff
  by (rule webhook_retries_end)
    (simp_all add: counts_bounded_def caller_new_def example_config_def caller_config_new_def
      unwrap_or_def to_retry_inv_def invoice_hook_id_def)

end
