(* ===== verification/Status_Subscriptions.thy ===== *)
theory Status_Subscriptions
  imports Boltz_Prelude
begin

text \<open>
  Subscriptions of WebSocket connections to the status of swaps,
  \<open>src/boltzr/src/api/ws/status_subscriptions.rs\<close>, with the messages of \<open>src/boltz-utils/src/ws.rs\<close>. The
  two concurrent hash maps are maps; the sending half of the channel that \<open>connection_added\<close> creates
  is an argument of it. A forwarded batch is the pair of the channel and the updates that a spawned
  task then sends; whether that task succeeds is only logged.
\<close>

type_synonym connection_id = u64

record transaction_info =
  ti_id :: string
  ti_hex :: "string option"
  ti_eta :: "u64 option"
  ti_confirmed :: "bool option"

record failure_reason_incorrect_amounts =
  fr_expected :: u64
  fr_actual :: u64

record swap_status_no_id =
  sn_status :: string
  sn_zero_conf_rejected :: "bool option"
  sn_transaction :: "transaction_info option"
  sn_failure_reason :: "string option"
  sn_failure_details :: "failure_reason_incorrect_amounts option"

record swap_status =
  sst_id :: string
  sst_base :: swap_status_no_id

definition status_only :: "string \<Rightarrow> swap_status_no_id" where
  "status_only status = \<lparr>sn_status = status, sn_zero_conf_rejected = None, sn_transaction = None,
     sn_failure_reason = None, sn_failure_details = None\<rparr>"

definition swap_status_new :: "string \<Rightarrow> string \<Rightarrow> swap_status" where
  "swap_status_new i status = \<lparr>sst_id = i, sst_base = status_only status\<rparr>"

record 'c status_subs =
  su_swaps :: "string \<rightharpoonup> connection_id list"
  su_subscriptions :: "connection_id \<rightharpoonup> string list \<times> 'c"

definition status_subs_new :: "'c status_subs" where
  "status_subs_new = \<lparr>su_swaps = Map.empty, su_subscriptions = Map.empty\<rparr>"

definition connection_known :: "connection_id \<Rightarrow> 'c status_subs \<Rightarrow> bool" where
  "connection_known connection st = (su_subscriptions st connection \<noteq> None)"

definition connection_added :: "connection_id \<Rightarrow> 'c \<Rightarrow> 'c status_subs \<Rightarrow> 'c status_subs" where
  "connection_added connection tx st =
     st\<lparr>su_subscriptions := (su_subscriptions st)(connection \<mapsto> ([], tx))\<rparr>"

text \<open>\<open>push\<close> onto a vector that does not contain the value yet.\<close>

definition push_new :: "'a \<Rightarrow> 'a list \<Rightarrow> 'a list" where
  "push_new x xs = (if x \<in> set xs then xs else xs @ [x])"

definition add_swap_id ::
  "connection_id \<Rightarrow> string \<Rightarrow> string list \<times> (string \<rightharpoonup> connection_id list)
    \<Rightarrow> string list \<times> (string \<rightharpoonup> connection_id list)" where
  "add_swap_id connection swap_id = (\<lambda>(sub, swaps).
     (push_new swap_id sub,
      swaps(swap_id \<mapsto> (case swaps swap_id of
                          Some connections \<Rightarrow> push_new connection connections
                        | None \<Rightarrow> [connection]))))"

definition subscription_added :: "connection_id \<Rightarrow> string list \<Rightarrow> 'c status_subs \<Rightarrow> 'c status_subs" where
  "subscription_added connection swap_ids st =
     (case su_subscriptions st connection of
        None \<Rightarrow> st
      | Some (sub, tx) \<Rightarrow>
          (case fold (add_swap_id connection) swap_ids (sub, su_swaps st) of
             (sub', swaps') \<Rightarrow>
               st\<lparr>su_swaps := swaps',
                  su_subscriptions := (su_subscriptions st)(connection \<mapsto> (sub', tx))\<rparr>))"

definition remove_connection ::
  "connection_id \<Rightarrow> string \<Rightarrow> (string \<rightharpoonup> connection_id list) \<Rightarrow> (string \<rightharpoonup> connection_id list)" where
  "remove_connection connection swap_id swaps =
     (case swaps swap_id of
        Some connections \<Rightarrow> swaps(swap_id \<mapsto> filter (\<lambda>i. i \<noteq> connection) connections)
      | None \<Rightarrow> swaps)"

text \<open>\<open>swaps.retain(|_, connections| !connections.is_empty())\<close>.\<close>

definition retain_nonempty :: "(string \<rightharpoonup> connection_id list) \<Rightarrow> (string \<rightharpoonup> connection_id list)" where
  "retain_nonempty swaps k =
     (case swaps k of Some connections \<Rightarrow> if connections = [] then None else Some connections | None \<Rightarrow> None)"

definition subscription_removed ::
  "connection_id \<Rightarrow> string list \<Rightarrow> 'c status_subs \<Rightarrow> 'c status_subs \<times> string list" where
  "subscription_removed connection swap_ids st =
     (case su_subscriptions st connection of
        None \<Rightarrow> (st, [])
      | Some (sub, tx) \<Rightarrow>
          (let sub' = filter (\<lambda>i. i \<notin> set swap_ids) sub
           in (st\<lparr>su_swaps := retain_nonempty (fold (remove_connection connection) swap_ids (su_swaps st)),
                  su_subscriptions := (su_subscriptions st)(connection \<mapsto> (sub', tx))\<rparr>, sub')))"

definition connection_dropped :: "connection_id \<Rightarrow> 'c status_subs \<Rightarrow> 'c status_subs" where
  "connection_dropped connection st =
     st\<lparr>su_subscriptions := (su_subscriptions st)(connection := None),
        su_swaps := retain_nonempty
          (\<lambda>k. map_option (filter (\<lambda>i. i \<noteq> connection)) (su_swaps st k))\<rparr>"

definition filter_swaps :: "string list \<Rightarrow> swap_status list \<Rightarrow> swap_status list" where
  "filter_swaps ids updates = filter (\<lambda>update. sst_id update \<in> set ids) updates"

text \<open>What is sent to one connection, if it is known.\<close>

definition send_to :: "'c status_subs \<Rightarrow> swap_status list \<Rightarrow> connection_id \<Rightarrow> ('c \<times> swap_status list) list" where
  "send_to st updates connection =
     (case su_subscriptions st connection of
        Some (sub, tx) \<Rightarrow> [(tx, filter_swaps sub updates)]
      | None \<Rightarrow> [])"

definition inject_updates ::
  "'c status_subs \<Rightarrow> connection_id \<Rightarrow> swap_status list \<Rightarrow> ('c \<times> swap_status list) list" where
  "inject_updates st connection updates = send_to st updates connection"

definition relevant_ids :: "'c status_subs \<Rightarrow> swap_status list \<Rightarrow> connection_id list" where
  "relevant_ids st updates =
     remdups_adj (sort (concat (map (\<lambda>update. case su_swaps st (sst_id update) of
                                        Some connections \<Rightarrow> connections | None \<Rightarrow> []) updates)))"

text \<open>One iteration of \<open>forward_updates\<close> that received a message.\<close>

definition forward_updates ::
  "'c status_subs \<Rightarrow> connection_id option \<Rightarrow> swap_status list \<Rightarrow> ('c \<times> swap_status list) list" where
  "forward_updates st target updates =
     (case target of
        Some connection \<Rightarrow> send_to st updates connection
      | None \<Rightarrow> concat (map (send_to st updates) (relevant_ids st updates)))"

subsection \<open>The contract of a registry of connections\<close>

text \<open>
  Both kinds of subscriptions are registries: connections are added and dropped, and what is
  subscribed belongs to connections that are known.
\<close>

locale connection_registry =
  fixes inv :: "'s \<Rightarrow> bool"
    and known :: "'s \<Rightarrow> connection_id \<Rightarrow> bool"
    and subscribed :: "'s \<Rightarrow> (connection_id \<times> 'k) set"
    and added :: "connection_id \<Rightarrow> 'c \<Rightarrow> 's \<Rightarrow> 's"
    and dropped :: "connection_id \<Rightarrow> 's \<Rightarrow> 's"
  assumes subscribed_known: "inv s \<Longrightarrow> (c, k) \<in> subscribed s \<Longrightarrow> known s c"
    and added_inv: "inv s \<Longrightarrow> \<not> known s c \<Longrightarrow> inv (added c tx s)"
    and added_known: "known (added c tx s) d \<longleftrightarrow> d = c \<or> known s d"
    and added_subscribed: "inv s \<Longrightarrow> \<not> known s c \<Longrightarrow> subscribed (added c tx s) = subscribed s"
    and dropped_inv: "inv s \<Longrightarrow> inv (dropped c s)"
    and dropped_known: "known (dropped c s) d \<longleftrightarrow> d \<noteq> c \<and> known s d"
    and dropped_subscribed: "inv s \<Longrightarrow> subscribed (dropped c s) = {(d, k) \<in> subscribed s. d \<noteq> c}"
begin

text \<open>A connection leaves no trace: whatever happened while it was open, of which other connections
  saw nothing, is gone when it is dropped.\<close>

lemma no_trace:
  assumes "inv s" and "\<not> known s c" and "inv s'"
    and "\<And>d k. d \<noteq> c \<Longrightarrow> (d, k) \<in> subscribed s' \<longleftrightarrow> (d, k) \<in> subscribed s"
  shows "subscribed (dropped c s') = subscribed s"
proof -
  have "d \<noteq> c" if "(d, k) \<in> subscribed s" for d k
    using subscribed_known [OF assms(1) that] assms(2) by auto
  with assms(4) show ?thesis by (auto simp: dropped_subscribed [OF assms(3)])
qed

lemma dropped_gone: "inv s \<Longrightarrow> (c, k) \<notin> subscribed (dropped c s)"
  by (simp add: dropped_subscribed)

end

subsection \<open>The relation between the two maps\<close>

definition status_subscribed :: "'c status_subs \<Rightarrow> (connection_id \<times> string) set" where
  "status_subscribed st =
     {(c, k). \<exists>ids tx. su_subscriptions st c = Some (ids, tx) \<and> k \<in> set ids}"

definition connections_of :: "(string \<rightharpoonup> connection_id list) \<Rightarrow> string \<Rightarrow> connection_id set" where
  "connections_of swaps k = (case swaps k of Some cs \<Rightarrow> set cs | None \<Rightarrow> {})"

text \<open>The vectors of connections are not empty and hold no value twice.\<close>

definition proper_swaps :: "(string \<rightharpoonup> connection_id list) \<Rightarrow> bool" where
  "proper_swaps swaps \<longleftrightarrow> (\<forall>k cs. swaps k = Some cs \<longrightarrow> cs \<noteq> [] \<and> distinct cs)"

text \<open>The maps are inverse to each other; and no swap is listed twice.\<close>

definition status_inv :: "'c status_subs \<Rightarrow> bool" where
  "status_inv st \<longleftrightarrow>
     (\<forall>c k. c \<in> connections_of (su_swaps st) k \<longleftrightarrow> (c, k) \<in> status_subscribed st)
     \<and> proper_swaps (su_swaps st)
     \<and> (\<forall>c ids tx. su_subscriptions st c = Some (ids, tx) \<longrightarrow> distinct ids)"

lemma set_push_new [simp]: "set (push_new x xs) = insert x (set xs)"
  by (auto simp: push_new_def)

lemma distinct_push_new: "distinct xs \<Longrightarrow> distinct (push_new x xs)"
  by (simp add: push_new_def)

lemma push_new_nonempty [simp]: "push_new x xs \<noteq> []"
  by (auto simp: push_new_def)

lemma add_swap_id_apply:
  "add_swap_id c i (sub, swaps) = (push_new i sub,
     swaps(i \<mapsto> (case swaps i of Some cs \<Rightarrow> push_new c cs | None \<Rightarrow> [c])))"
  by (simp add: add_swap_id_def)

lemma fold_add_swap_id:
  assumes "fold (add_swap_id c) ids (sub, swaps) = (sub', swaps')"
    and "distinct sub" and "proper_swaps swaps"
  shows "set sub' = set sub \<union> set ids \<and> distinct sub'
    \<and> (\<forall>k. connections_of swaps' k = connections_of swaps k \<union> (if k \<in> set ids then {c} else {}))
    \<and> proper_swaps swaps'"
  using assms
proof (induction ids arbitrary: sub swaps)
  case (Cons i ids)
  let ?swaps = "swaps(i \<mapsto> (case swaps i of Some cs \<Rightarrow> push_new c cs | None \<Rightarrow> [c]))"
  have "fold (add_swap_id c) ids (push_new i sub, ?swaps) = (sub', swaps')"
    using Cons.prems(1) by (simp add: add_swap_id_apply)
  moreover have "proper_swaps ?swaps"
    using Cons.prems(3) by (auto simp: proper_swaps_def distinct_push_new split: if_splits option.splits)
  ultimately have "set sub' = set (push_new i sub) \<union> set ids \<and> distinct sub'
    \<and> (\<forall>k. connections_of swaps' k = connections_of ?swaps k \<union> (if k \<in> set ids then {c} else {}))
    \<and> proper_swaps swaps'"
    using distinct_push_new [OF Cons.prems(2), of i] by (intro Cons.IH)
  moreover have "connections_of ?swaps k = connections_of swaps k \<union> (if k = i then {c} else {})" for k
    by (auto simp: connections_of_def split: option.splits)
  ultimately show ?case by auto
qed simp

lemma connections_of_remove:
  "connections_of (remove_connection c i swaps) k = connections_of swaps k - (if k = i then {c} else {})"
  by (auto simp: remove_connection_def connections_of_def split: option.splits)

lemma connections_of_removes:
  "connections_of (fold (remove_connection c) ids swaps) k
   = connections_of swaps k - (if k \<in> set ids then {c} else {})"
  by (induction ids arbitrary: swaps) (auto simp: connections_of_remove)

lemma distinct_removes:
  assumes "\<And>k cs. swaps k = Some cs \<Longrightarrow> distinct cs"
  shows "fold (remove_connection c) ids swaps k = Some cs \<Longrightarrow> distinct cs"
  using assms
proof (induction ids arbitrary: swaps)
  case (Cons i ids)
  have "distinct cs" if "remove_connection c i swaps k = Some cs" for k cs
    using that Cons.prems(2) by (auto simp: remove_connection_def split: option.splits if_splits)
  with Cons show ?case by simp
qed simp

lemma connections_of_retain [simp]: "connections_of (retain_nonempty swaps) k = connections_of swaps k"
  by (simp add: connections_of_def retain_nonempty_def split: option.splits)

lemma retain_nonempty_Some [simp]: "retain_nonempty swaps k = Some cs \<longleftrightarrow> swaps k = Some cs \<and> cs \<noteq> []"
  by (auto simp: retain_nonempty_def split: option.splits)

lemma status_invD:
  assumes "status_inv st"
  shows "c \<in> connections_of (su_swaps st) k \<longleftrightarrow> (c, k) \<in> status_subscribed st"
    and "proper_swaps (su_swaps st)"
    and "su_subscriptions st c = Some (ids, tx) \<Longrightarrow> distinct ids"
  using assms unfolding status_inv_def by blast+

subsection \<open>What the operations do\<close>

lemma status_subs_new_ok: "status_inv status_subs_new" "status_subscribed status_subs_new = {}"
  by (simp_all add: status_inv_def status_subs_new_def status_subscribed_def connections_of_def proper_swaps_def)

lemma status_subscribed_update [simp]:
  "status_subscribed (st\<lparr>su_swaps := w, su_subscriptions := (su_subscriptions st)(c \<mapsto> (ids, tx))\<rparr>)
   = {(d, k) \<in> status_subscribed st. d \<noteq> c} \<union> {c} \<times> set ids"
  by (auto simp: status_subscribed_def split: if_splits)

lemma status_subscribed_sub:
  "su_subscriptions st c = Some (ids, tx) \<Longrightarrow> (c, k) \<in> status_subscribed st \<longleftrightarrow> k \<in> set ids"
  by (simp add: status_subscribed_def)

lemma connection_added_ok:
  assumes "\<not> connection_known c st"
  shows "status_subscribed (connection_added c tx st) = status_subscribed st"
    and "status_inv st \<Longrightarrow> status_inv (connection_added c tx st)"
proof -
  show same: "status_subscribed (connection_added c tx st) = status_subscribed st"
    using assms by (auto simp: status_subscribed_def connection_added_def connection_known_def split: if_splits)
  show "status_inv st \<Longrightarrow> status_inv (connection_added c tx st)"
    unfolding status_inv_def same by (auto simp: connection_added_def)
qed

lemma subscription_added_ok:
  assumes "status_inv st"
  shows "status_subscribed (subscription_added c ids st)
      = status_subscribed st \<union> {(d, k). d = c \<and> connection_known c st \<and> k \<in> set ids}
    \<and> status_inv (subscription_added c ids st)"
proof (cases "su_subscriptions st c")
  case None
  then show ?thesis using assms by (simp add: subscription_added_def connection_known_def)
next
  case (Some p)
  then obtain sub tx where sub: "su_subscriptions st c = Some (sub, tx)" by force
  obtain sub' swaps' where fold: "fold (add_swap_id c) ids (sub, su_swaps st) = (sub', swaps')" by force
  note ok = fold_add_swap_id [OF fold status_invD(3) [OF assms sub] status_invD(2) [OF assms]]
  have st': "subscription_added c ids st = st\<lparr>su_swaps := swaps',
      su_subscriptions := (su_subscriptions st)(c \<mapsto> (sub', tx))\<rparr>"
    by (simp add: subscription_added_def sub fold)
  have rel: "status_subscribed (subscription_added c ids st)
      = status_subscribed st \<union> {(d, k). d = c \<and> connection_known c st \<and> k \<in> set ids}"
    unfolding st' using ok sub status_subscribed_sub [OF sub] by (auto simp: connection_known_def)
  moreover have "status_inv (subscription_added c ids st)"
    unfolding status_inv_def rel unfolding st' using ok sub assms
    by (auto simp: status_invD(1) [OF assms] connection_known_def status_invD(3) [OF assms])
  ultimately show ?thesis ..
qed

lemma subscription_removed_ok:
  assumes "status_inv st"
  shows "status_subscribed (fst (subscription_removed c ids st))
      = {(d, k) \<in> status_subscribed st. \<not> (d = c \<and> k \<in> set ids)}
    \<and> status_inv (fst (subscription_removed c ids st))
    \<and> set (snd (subscription_removed c ids st)) = {k. (c, k) \<in> status_subscribed st \<and> k \<notin> set ids}"
proof (cases "su_subscriptions st c")
  case None
  then have "(c, k) \<notin> status_subscribed st" for k by (simp add: status_subscribed_def)
  with None assms show ?thesis by (auto simp: subscription_removed_def)
next
  case (Some p)
  then obtain sub tx where sub: "su_subscriptions st c = Some (sub, tx)" by force
  let ?swaps = "fold (remove_connection c) ids (su_swaps st)"
  have st': "subscription_removed c ids st
    = (st\<lparr>su_swaps := retain_nonempty ?swaps, su_subscriptions :=
          (su_subscriptions st)(c \<mapsto> (filter (\<lambda>i. i \<notin> set ids) sub, tx))\<rparr>, filter (\<lambda>i. i \<notin> set ids) sub)"
    by (simp add: subscription_removed_def sub Let_def)
  have rel: "status_subscribed (fst (subscription_removed c ids st))
      = {(d, k) \<in> status_subscribed st. \<not> (d = c \<and> k \<in> set ids)}"
    unfolding st' using status_subscribed_sub [OF sub] by auto
  moreover have "proper_swaps (retain_nonempty ?swaps)"
    using distinct_removes [of "su_swaps st" c ids] status_invD(2) [OF assms]
    by (auto simp: proper_swaps_def)
  then have "status_inv (fst (subscription_removed c ids st))"
    unfolding status_inv_def rel unfolding st' using sub
    by (auto simp: connections_of_removes status_invD(1) [OF assms] status_invD(3) [OF assms])
  moreover have "set (snd (subscription_removed c ids st)) = {k. (c, k) \<in> status_subscribed st \<and> k \<notin> set ids}"
    unfolding st' using status_subscribed_sub [OF sub] by auto
  ultimately show ?thesis by blast
qed

lemma connection_dropped_ok:
  assumes "status_inv st"
  shows "status_subscribed (connection_dropped c st) = {(d, k) \<in> status_subscribed st. d \<noteq> c}
    \<and> status_inv (connection_dropped c st)"
proof -
  have rel: "status_subscribed (connection_dropped c st) = {(d, k) \<in> status_subscribed st. d \<noteq> c}"
    by (auto simp: status_subscribed_def connection_dropped_def split: if_splits)
  let ?swaps = "\<lambda>k. map_option (filter (\<lambda>i. i \<noteq> c)) (su_swaps st k)"
  have "connections_of ?swaps k = connections_of (su_swaps st) k - {c}" for k
    by (auto simp: connections_of_def split: option.splits)
  moreover have "proper_swaps (retain_nonempty ?swaps)"
    using status_invD(2) [OF assms] by (auto simp: proper_swaps_def)
  ultimately have "status_inv (connection_dropped c st)"
    unfolding status_inv_def rel
    by (auto simp: connection_dropped_def status_invD(1) [OF assms] status_invD(3) [OF assms] split: if_splits)
  with rel show ?thesis ..
qed

interpretation status_registry: connection_registry status_inv "\<lambda>s c. connection_known c s"
  status_subscribed connection_added connection_dropped
  by unfold_locales
    (auto simp: connection_added_ok connection_dropped_ok,
     auto simp: connection_known_def connection_added_def connection_dropped_def status_subscribed_def
       split: if_splits)

subsection \<open>Histories and their specification\<close>

text \<open>
  The specification knows the channel of each open connection and the relation of connections and
  swaps, nothing else.
\<close>

datatype 'c status_op =
    ConnectionAdded connection_id 'c
  | SubscriptionAdded connection_id "string list"
  | SubscriptionRemoved connection_id "string list"
  | ConnectionDropped connection_id

fun status_step :: "'c status_op \<Rightarrow> 'c status_subs \<Rightarrow> 'c status_subs" where
  "status_step (ConnectionAdded c tx) st = connection_added c tx st"
| "status_step (SubscriptionAdded c ids) st = subscription_added c ids st"
| "status_step (SubscriptionRemoved c ids) st = fst (subscription_removed c ids st)"
| "status_step (ConnectionDropped c) st = connection_dropped c st"

type_synonym 'c status_spec = "(connection_id \<rightharpoonup> 'c) \<times> (connection_id \<times> string) set"

fun spec_step :: "'c status_op \<Rightarrow> 'c status_spec \<Rightarrow> 'c status_spec" where
  "spec_step (ConnectionAdded c tx) (opened, rel) = (opened(c \<mapsto> tx), rel)"
| "spec_step (SubscriptionAdded c ids) (opened, rel) =
     (opened, if c \<in> dom opened then rel \<union> {c} \<times> set ids else rel)"
| "spec_step (SubscriptionRemoved c ids) (opened, rel) = (opened, rel - {c} \<times> set ids)"
| "spec_step (ConnectionDropped c) (opened, rel) = (opened(c := None), {(d, k) \<in> rel. d \<noteq> c})"

text \<open>New connections get ids that are not in use, as \<open>get_connection_id\<close> sees to.\<close>

fun fresh_ids :: "'c status_op list \<Rightarrow> 'c status_spec \<Rightarrow> bool" where
  "fresh_ids [] spec = True"
| "fresh_ids (op # ops) spec =
     ((case op of ConnectionAdded c tx \<Rightarrow> c \<notin> dom (fst spec) | _ \<Rightarrow> True) \<and> fresh_ids ops (spec_step op spec))"

definition status_run :: "'c status_op list \<Rightarrow> 'c status_subs" where
  "status_run ops = fold status_step ops status_subs_new"

definition spec_run :: "'c status_op list \<Rightarrow> 'c status_spec" where
  "spec_run ops = fold spec_step ops (Map.empty, {})"

text \<open>The state implements the specification.\<close>

definition implements :: "'c status_subs \<Rightarrow> 'c status_spec \<Rightarrow> bool" where
  "implements st spec \<longleftrightarrow> status_inv st \<and> status_subscribed st = snd spec
     \<and> (\<forall>c. map_option snd (su_subscriptions st c) = fst spec c)"

lemma implements_known: "implements st spec \<Longrightarrow> connection_known c st \<longleftrightarrow> c \<in> dom (fst spec)"
  unfolding implements_def connection_known_def dom_def by (metis (mono_tags) map_option_is_None mem_Collect_eq)

lemma channels_kept:
  "map_option snd (su_subscriptions (subscription_added c ids st) d) = map_option snd (su_subscriptions st d)"
  "map_option snd (su_subscriptions (fst (subscription_removed c ids st)) d)
   = map_option snd (su_subscriptions st d)"
  by (auto simp: subscription_added_def subscription_removed_def Let_def split: option.splits prod.splits)

lemma implements_step:
  assumes "implements st spec"
    and "case op of ConnectionAdded c tx \<Rightarrow> c \<notin> dom (fst spec) | _ \<Rightarrow> True"
  shows "implements (status_step op st) (spec_step op spec)"
proof -
  note inv = assms(1) [unfolded implements_def, THEN conjunct1]
  obtain opened rel where spec: "spec = (opened, rel)" by force
  show ?thesis
  proof (cases op)
    case (ConnectionAdded c tx)
    then show ?thesis using assms implements_known [OF assms(1), of c] connection_added_ok [of c st tx] inv
      by (auto simp: implements_def spec connection_added_def)
  next
    case (SubscriptionAdded c ids)
    then show ?thesis using assms(1) implements_known [OF assms(1), of c] subscription_added_ok [OF inv, of c ids]
      by (auto simp: implements_def spec channels_kept)
  next
    case (SubscriptionRemoved c ids)
    then show ?thesis using assms(1) subscription_removed_ok [OF inv, of c ids]
      by (auto simp: implements_def spec channels_kept)
  next
    case (ConnectionDropped c)
    then show ?thesis using assms(1) connection_dropped_ok [OF inv, of c]
      by (auto simp: implements_def spec connection_dropped_def)
  qed
qed

lemma implements_run: "fresh_ids ops (Map.empty, {}) \<Longrightarrow> implements (status_run ops) (spec_run ops)"
proof -
  have "implements (fold status_step ops st) (fold spec_step ops spec)"
    if "implements st spec" "fresh_ids ops spec" for st spec
    using that
  proof (induction ops arbitrary: st spec)
    case (Cons op ops)
    then have "implements (status_step op st) (spec_step op spec)" by (intro implements_step) auto
    with Cons show ?case by simp
  qed simp
  moreover have "implements status_subs_new (Map.empty, {})"
    by (simp add: implements_def status_subs_new_ok) (simp add: status_subs_new_def)
  ultimately show "fresh_ids ops (Map.empty, {}) \<Longrightarrow> ?thesis"
    by (simp add: status_run_def spec_run_def)
qed

subsection \<open>What is forwarded\<close>

lemma send_to_implements:
  assumes "implements st spec"
  shows "send_to st updates c = (case fst spec c of
      Some tx \<Rightarrow> [(tx, filter (\<lambda>u. (c, sst_id u) \<in> snd spec) updates)] | None \<Rightarrow> [])"
proof -
  have "map_option snd (su_subscriptions st c) = fst spec c" using assms by (simp add: implements_def)
  moreover have "k \<in> set ids \<longleftrightarrow> (c, k) \<in> snd spec" if "su_subscriptions st c = Some (ids, tx)" for ids tx k
    using assms status_subscribed_sub [OF that] by (simp add: implements_def)
  ultimately show ?thesis
    by (cases "su_subscriptions st c") (auto simp: send_to_def filter_swaps_def dest!: sym [of "Some _"])
qed

lemma distinct_remdups_adj_sorted: "sorted xs \<Longrightarrow> distinct (remdups_adj xs)"
  by (induction xs rule: remdups_adj.induct) (auto simp: order.antisym)

lemma relevant_ids_implements:
  assumes "implements st spec"
  shows "relevant_ids st updates = sorted_list_of_set {c. \<exists>u \<in> set updates. (c, sst_id u) \<in> snd spec}"
proof -
  have conns: "set (case su_swaps st k of Some cs \<Rightarrow> cs | None \<Rightarrow> []) = {c. (c, k) \<in> snd spec}" for k
    using assms status_invD(1) [of st _ k]
    by (cases "su_swaps st k") (auto simp: implements_def connections_of_def)
  let ?all = "concat (map (\<lambda>update. case su_swaps st (sst_id update) of Some cs \<Rightarrow> cs | None \<Rightarrow> []) updates)"
  have all: "set ?all = {c. \<exists>u \<in> set updates. (c, sst_id u) \<in> snd spec}"
    unfolding set_concat set_map image_image conns by auto
  have "sorted_list_of_set (set ?all) = remdups_adj (sort ?all)"
    by (rule sorted_distinct_set_unique) (simp_all add: distinct_remdups_adj_sorted)
  then show ?thesis by (simp only: relevant_ids_def all)
qed

text \<open>
  C18: Status updates reach exactly the connections that are subscribed. Over any sequence of
  connections opened under fresh ids, subscriptions, unsubscriptions and closed connections, the two
  maps implement a plain relation of connections and swaps: a broadcast batch is sent once to every
  connection subscribed to a swap of the batch, in the order of the ids, to the channel the
  connection was opened with, and carries exactly the updates of the swaps it is subscribed to, in
  their order; a batch for one connection is sent to it alone; unsubscribing returns what is left.
\<close>

theorem status_updates_exact:
  assumes "fresh_ids ops (Map.empty, {})" and "spec_run ops = (opened, rel)"
  shows "forward_updates (status_run ops) None updates
      = map (\<lambda>c. (the (opened c), filter (\<lambda>u. (c, sst_id u) \<in> rel) updates))
          (sorted_list_of_set {c. \<exists>u \<in> set updates. (c, sst_id u) \<in> rel})
    \<and> forward_updates (status_run ops) (Some c) updates
      = (case opened c of Some tx \<Rightarrow> [(tx, filter (\<lambda>u. (c, sst_id u) \<in> rel) updates)] | None \<Rightarrow> [])
    \<and> set (snd (subscription_removed c ids (status_run ops))) = {k. (c, k) \<in> rel \<and> k \<notin> set ids}"
proof (intro conjI)
  have impl: "implements (status_run ops) (opened, rel)" using implements_run [OF assms(1)] assms(2) by simp
  note send = send_to_implements [OF impl, unfolded fst_conv snd_conv]
  show "forward_updates (status_run ops) (Some c) updates
      = (case opened c of Some tx \<Rightarrow> [(tx, filter (\<lambda>u. (c, sst_id u) \<in> rel) updates)] | None \<Rightarrow> [])"
    by (simp add: forward_updates_def send)
  show "set (snd (subscription_removed c ids (status_run ops))) = {k. (c, k) \<in> rel \<and> k \<notin> set ids}"
    using impl subscription_removed_ok [of "status_run ops" c ids] by (simp add: implements_def)
  have "opened d = Some (the (opened d))" if "(d, k) \<in> rel" for d k
    using that impl status_registry.subscribed_known [of "status_run ops" d k] implements_known [OF impl, of d]
    by (auto simp: implements_def)
  moreover have "finite {c. \<exists>u \<in> set updates. (c, sst_id u) \<in> rel}"
    by (rule finite_subset [OF subset_UNIV]) simp
  ultimately have "map (send_to (status_run ops) updates)
        (sorted_list_of_set {c. \<exists>u \<in> set updates. (c, sst_id u) \<in> rel})
      = map (\<lambda>c. [(the (opened c), filter (\<lambda>u. (c, sst_id u) \<in> rel) updates)])
        (sorted_list_of_set {c. \<exists>u \<in> set updates. (c, sst_id u) \<in> rel})"
    by (intro map_cong) (auto simp: send split: option.split)
  then show "forward_updates (status_run ops) None updates
      = map (\<lambda>c. (the (opened c), filter (\<lambda>u. (c, sst_id u) \<in> rel) updates))
          (sorted_list_of_set {c. \<exists>u \<in> set updates. (c, sst_id u) \<in> rel})"
    by (simp only: forward_updates_def option.case relevant_ids_implements [OF impl] snd_conv concat_map_singleton)
qed

text \<open>Two connections, of which one has unsubscribed from one of its swaps.\<close>

definition example_history :: "nat status_op list" where
  "example_history = [ConnectionAdded 7 1, ConnectionAdded 5 2, SubscriptionAdded 7 [''a'', ''b''],
     SubscriptionAdded 5 [''b'', ''b''], SubscriptionRemoved 7 [''b'']]"

theorem status_updates_exact_witness:
  "forward_updates (status_run example_history) None
     [swap_status_new ''b'' ''invoice.set'', swap_status_new ''a'' ''swap.created'']
   = [(2, [swap_status_new ''b'' ''invoice.set'']), (1, [swap_status_new ''a'' ''swap.created''])]
   \<and> forward_updates (status_run example_history) (Some 9) [swap_status_new ''b'' ''invoice.set''] = []"
proof -
  let ?us = "[swap_status_new ''b'' ''invoice.set'', swap_status_new ''a'' ''swap.created'']"
  have fresh: "fresh_ids example_history (Map.empty, {})" by (simp add: example_history_def)
  have spec: "spec_run example_history = ([7 \<mapsto> 1, 5 \<mapsto> 2], {(7, ''a''), (5, ''b'')})"
    by (auto simp: spec_run_def example_history_def)
  have conns: "{c. \<exists>u \<in> set ?us. (c, sst_id u) \<in> {(7, ''a''), (5 :: u64, ''b'')}} = {7, 5}"
    by (auto simp: swap_status_new_def)
  have sorted: "sorted_list_of_set {7, 5 :: u64} = [5, 7]"
    using sorted_list_of_set_sort_remdups [of "[7, 5 :: u64]"] by simp
  from status_updates_exact [OF fresh spec, of ?us]
    status_updates_exact [OF fresh spec, of "[swap_status_new ''b'' ''invoice.set'']" 9]
  show ?thesis unfolding conns sorted by (simp add: swap_status_new_def)
qed

end
