(* ===== verification/Message_Limit.thy ===== *)
theory Message_Limit
  imports Boltz_Prelude
begin

text \<open>
  The rate limit of the text messages of a WebSocket connection,
  \<open>src/boltzr/src/api/ws/message_limit.rs\<close>. An \<open>Instant\<close> is the number of nanoseconds since some start;
  \<open>duration_since\<close> saturates at zero, as the subtraction of naturals does.
\<close>

type_synonym instant = nat

definition nanos_per_sec :: nat where
  "nanos_per_sec = 1000000000"

definition MESSAGE_LIMIT_WINDOW :: nat where
  "MESSAGE_LIMIT_WINDOW = 60 * nanos_per_sec"

definition MESSAGE_LIMIT_EXCEEDED_REASON :: string where
  "MESSAGE_LIMIT_EXCEEDED_REASON = ''message rate limit exceeded''"

record message_limit_config =
  ml_messages_per_minute :: u32
  ml_max_swap_update_ids :: "u64 option"

datatype message_limit_exceeded = MessageLimitExceeded

record rate_limiter =
  rl_config :: message_limit_config
  rl_window_started_at :: instant
  rl_message_count :: u32

definition limiter_new :: "message_limit_config \<Rightarrow> instant \<Rightarrow> rate_limiter" where
  "limiter_new config now =
     \<lparr>rl_config = config, rl_window_started_at = now, rl_message_count = 0\<rparr>"

text \<open>The first \<open>if\<close> of \<open>try_acquire\<close>: a new window starts when the old one is over.\<close>

definition roll_window :: "rate_limiter \<Rightarrow> instant \<Rightarrow> rate_limiter" where
  "roll_window l now =
     (if now - rl_window_started_at l \<ge> MESSAGE_LIMIT_WINDOW
      then l\<lparr>rl_window_started_at := now, rl_message_count := 0\<rparr> else l)"

definition try_acquire ::
  "rate_limiter \<Rightarrow> instant \<Rightarrow> rate_limiter \<times> (message_limit_exceeded, unit) result" where
  "try_acquire l now =
     (let l' = roll_window l now in
      if rl_message_count l' \<ge> ml_messages_per_minute (rl_config l') then (l', Err MessageLimitExceeded)
      else (l'\<lparr>rl_message_count := rl_message_count l' + 1\<rparr>, Ok ()))"

text \<open>The instants of a sequence of attempts that are let through.\<close>

fun acquired :: "rate_limiter \<Rightarrow> instant list \<Rightarrow> instant list" where
  "acquired l [] = []"
| "acquired l (t # ts) =
     (case try_acquire l t of
        (l', Ok _) \<Rightarrow> t # acquired l' ts
      | (l', Err _) \<Rightarrow> acquired l' ts
      | (l', Panic) \<Rightarrow> acquired l' ts)"

subsection \<open>Windows\<close>

abbreviation limit_of :: "rate_limiter \<Rightarrow> nat" where
  "limit_of l \<equiv> unat (ml_messages_per_minute (rl_config l))"

abbreviation used :: "rate_limiter \<Rightarrow> nat" where
  "used l \<equiv> unat (rl_message_count l)"

abbreviation in_window :: "instant \<Rightarrow> instant list \<Rightarrow> nat" where
  "in_window t ts \<equiv> length (filter (\<lambda>u. t \<le> u \<and> u < t + MESSAGE_LIMIT_WINDOW) ts)"

lemma window_pos [simp]: "0 < MESSAGE_LIMIT_WINDOW"
  by (simp add: MESSAGE_LIMIT_WINDOW_def nanos_per_sec_def)

lemma roll_window_config [simp]: "rl_config (roll_window l t) = rl_config l"
  by (simp add: roll_window_def)

lemma roll_window_used: "used l \<le> limit_of l \<Longrightarrow> used (roll_window l t) \<le> limit_of l"
  by (simp add: roll_window_def)

lemma unat_inc: "unat (n :: u32) < unat (m :: u32) \<Longrightarrow> unat (n + 1) = Suc (unat n)"
  using unsigned_less [of m, where 'a = nat] by (simp add: unat_word_ariths)

text \<open>One attempt: refused in a full window, and counted otherwise.\<close>

lemma try_acquire_cases:
  assumes "used l \<le> limit_of l"
  obtains (refused) "try_acquire l t = (roll_window l t, Err MessageLimitExceeded)"
      "used (roll_window l t) = limit_of l"
    | (passed) l' where "try_acquire l t = (l', Ok ())" "rl_config l' = rl_config l"
      "rl_window_started_at l' = rl_window_started_at (roll_window l t)"
      "used l' = Suc (used (roll_window l t))" "used l' \<le> limit_of l"
proof (cases "rl_message_count (roll_window l t) \<ge> ml_messages_per_minute (rl_config l)")
  case True
  then show thesis
    using roll_window_used [OF assms, of t]
    by (intro refused) (simp_all add: try_acquire_def Let_def word_le_nat_alt)
next
  case False
  let ?n = "rl_message_count (roll_window l t)"
  have lt: "unat ?n < limit_of l" using False by (simp add: word_le_nat_alt)
  then have "unat (?n + 1) = Suc (unat ?n)" by (rule unat_inc)
  with False lt show thesis
    by (intro passed [of "(roll_window l t)\<lparr>rl_message_count := ?n + 1\<rparr>"])
      (simp_all add: try_acquire_def Let_def)
qed


text \<open>What still fits into the current window, seen from an interval that starts before the window.\<close>

lemma acquired_subset: "u \<in> set (acquired l ts) \<Longrightarrow> u \<in> set ts"
proof (induction ts arbitrary: l)
  case (Cons a ts)
  obtain l' r where "try_acquire l a = (l', r)" by force
  with Cons show ?case by (cases r) auto
qed simp

lemma acquired_same_window:
  assumes "used l \<le> limit_of l" and "sorted (rl_window_started_at l # ts)"
    and "t \<le> rl_window_started_at l"
  shows "in_window t (acquired l ts) \<le> limit_of l - used l"
  using assms
proof (induction ts arbitrary: l)
  case (Cons u us)
  have started: "rl_window_started_at (roll_window l u) \<le> u" "t \<le> rl_window_started_at (roll_window l u)"
    using Cons.prems by (auto simp: roll_window_def)
  have rolled: "u < t + MESSAGE_LIMIT_WINDOW \<Longrightarrow> roll_window l u = l"
    using Cons.prems by (auto simp: roll_window_def)
  have late: "t + MESSAGE_LIMIT_WINDOW \<le> u \<Longrightarrow> in_window t (acquired l' us) = 0" for l'
    using Cons.prems by (auto simp: filter_empty_conv dest!: acquired_subset)
  show ?case
  proof (cases "u < t + MESSAGE_LIMIT_WINDOW")
    case False
    then show ?thesis using late by (auto split: prod.splits result.splits)
  next
    case True
    from Cons.prems(1) show ?thesis
    proof (cases rule: try_acquire_cases [where t = u])
      case refused
      with True rolled Cons.IH [of l] Cons.prems show ?thesis by simp
    next
      case (passed l')
      with True rolled Cons.IH [of l'] Cons.prems show ?thesis by auto
    qed
  qed
qed simp

text \<open>The same from an interval that has already begun: at most one new window opens in it.\<close>

lemma acquired_after:
  assumes "used l \<le> limit_of l" and "sorted (rl_window_started_at l # ts)" and "\<forall>u \<in> set ts. t \<le> u"
  shows "in_window t (acquired l ts) \<le> limit_of l + (limit_of l - used l)"
  using assms
proof (induction ts arbitrary: l)
  case (Cons u us)
  show ?case
  proof (cases "roll_window l u = l")
    case True
    from Cons.prems(1) show ?thesis
    proof (cases rule: try_acquire_cases [where t = u])
      case refused
      with True Cons.IH [of l] Cons.prems show ?thesis by simp
    next
      case (passed l')
      with True Cons.IH [of l'] Cons.prems show ?thesis by auto
    qed
  next
    case False
    let ?r = "roll_window l u"
    have r: "rl_window_started_at ?r = u" "roll_window ?r u = ?r" "used ?r = 0" "rl_config ?r = rl_config l"
      using False by (auto simp: roll_window_def split: if_splits)
    have "acquired l (u # us) = acquired ?r (u # us)"
      using r(2) by (simp add: try_acquire_def)
    moreover have "in_window t (acquired ?r (u # us)) \<le> limit_of ?r - used ?r"
      using Cons.prems r by (intro acquired_same_window) auto
    ultimately show ?thesis using r by simp
  qed
qed simp

lemma acquired_in_window:
  assumes "used l \<le> limit_of l" and "sorted (rl_window_started_at l # ts)"
  shows "in_window t (acquired l ts) \<le> 2 * limit_of l"
  using assms
proof (induction ts arbitrary: l)
  case (Cons u us)
  show ?case
  proof (cases "t \<le> u")
    case True
    then have "\<forall>v \<in> set (u # us). t \<le> v" using Cons.prems(2) by auto
    from acquired_after [OF Cons.prems this] show ?thesis by simp
  next
    case False
    have started: "sorted (rl_window_started_at (roll_window l u) # us)"
      using Cons.prems by (auto simp: roll_window_def)
    from Cons.prems(1) show ?thesis
    proof (cases rule: try_acquire_cases [where t = u])
      case refused
      with False started Cons.IH [of "roll_window l u"] Cons.prems show ?thesis by auto
    next
      case (passed l')
      with False started Cons.IH [of l'] Cons.prems show ?thesis by auto
    qed
  qed
qed simp

text \<open>The messages of the first window.\<close>

lemma acquired_fresh_window:
  assumes "used l \<le> limit_of l" and "\<forall>u \<in> set ts. u < rl_window_started_at l + MESSAGE_LIMIT_WINDOW"
  shows "acquired l ts = take (limit_of l - used l) ts"
  using assms
proof (induction ts arbitrary: l)
  case (Cons u us)
  have "u < rl_window_started_at l + MESSAGE_LIMIT_WINDOW" using Cons.prems(2) by simp
  then have "\<not> MESSAGE_LIMIT_WINDOW \<le> u - rl_window_started_at l" using window_pos by linarith
  then have rolled: "roll_window l u = l" by (simp add: roll_window_def)
  from Cons.prems(1) show ?case
  proof (cases rule: try_acquire_cases [where t = u])
    case refused
    with rolled Cons.IH [of l] Cons.prems show ?thesis by simp
  next
    case (passed l')
    then have "acquired l' us = take (limit_of l - used l') us"
      using rolled Cons.IH [of l'] Cons.prems by simp
    moreover have "limit_of l - used l = Suc (limit_of l - used l')" using passed rolled by simp
    ultimately show ?thesis using passed by simp
  qed
qed simp

text \<open>
  Whatever sequence of messages a connection sends, the limiter lets at most twice the
  configured number through in any 60 seconds, wherever that minute begins; within the minute after
  the limiter was created it lets through as many of the messages as arrive, up to the configured
  number; and a message that arrives a minute or more after the current window began is let through
  unless the configured number is zero.
\<close>

theorem message_limit_bounds:
  assumes "sorted (start # ts)"
  shows "in_window t (acquired (limiter_new config start) ts) \<le> 2 * unat (ml_messages_per_minute config)
    \<and> acquired (limiter_new config start) (takeWhile (\<lambda>u. u < start + MESSAGE_LIMIT_WINDOW) ts)
      = take (unat (ml_messages_per_minute config)) (takeWhile (\<lambda>u. u < start + MESSAGE_LIMIT_WINDOW) ts)
    \<and> (ml_messages_per_minute (rl_config l) \<noteq> 0 \<longrightarrow> rl_window_started_at l + MESSAGE_LIMIT_WINDOW \<le> now
       \<longrightarrow> snd (try_acquire l now) = Ok ())"
proof (intro conjI impI)
  have "used (limiter_new config start) = 0" "rl_config (limiter_new config start) = config"
    "rl_window_started_at (limiter_new config start) = start"
    by (simp_all add: limiter_new_def)
  then show "in_window t (acquired (limiter_new config start) ts) \<le> 2 * unat (ml_messages_per_minute config)"
    and "acquired (limiter_new config start) (takeWhile (\<lambda>u. u < start + MESSAGE_LIMIT_WINDOW) ts)
      = take (unat (ml_messages_per_minute config)) (takeWhile (\<lambda>u. u < start + MESSAGE_LIMIT_WINDOW) ts)"
    using acquired_in_window [of "limiter_new config start" ts t] assms
      acquired_fresh_window [of "limiter_new config start" "takeWhile (\<lambda>u. u < start + MESSAGE_LIMIT_WINDOW) ts"]
    by (auto dest: set_takeWhileD)
next
  assume some: "ml_messages_per_minute (rl_config l) \<noteq> 0"
    and "rl_window_started_at l + MESSAGE_LIMIT_WINDOW \<le> now"
  then have "MESSAGE_LIMIT_WINDOW \<le> now - rl_window_started_at l" by linarith
  with some show "snd (try_acquire l now) = Ok ()"
    by (simp add: try_acquire_def roll_window_def Let_def word_le_nat_alt unat_eq_zero)
qed

text \<open>One message a minute, and three messages of which the second comes too early.\<close>

definition example_limit :: message_limit_config where
  "example_limit = \<lparr>ml_messages_per_minute = 1, ml_max_swap_update_ids = None\<rparr>"

theorem message_limit_bounds_witness:
  "acquired (limiter_new example_limit 0) [1, 2, 60000000000] = [1, 60000000000]
   \<and> in_window 1 (acquired (limiter_new example_limit 0) [1, 2, 60000000000]) \<le> 2
   \<and> snd (try_acquire (limiter_new example_limit 0) 60000000000) = Ok ()"
  using message_limit_bounds [of 0 "[1, 2, 60000000000]" 1 example_limit
      "limiter_new example_limit 0" 60000000000]
  by (simp add: limiter_new_def example_limit_def try_acquire_def roll_window_def
      MESSAGE_LIMIT_WINDOW_def nanos_per_sec_def)

end
