(* ===== verification/Invoice_Decode.thy ===== *)
theory Invoice_Decode
  imports Network
begin

text \<open>
  Decoding of Lightning invoices and offers, \<open>src/boltzr/src/lightning/invoice.rs\<close>. The formats
  themselves are parsed by libraries: \<open>invoice_lib\<close> holds their parsers, and the records below what
  the code reads of their results. Error values of the libraries are their printed form.
\<close>

datatype chain_hash = ChainBitcoin | ChainTestnet3 | ChainSignet | ChainRegtest

record bolt11_invoice =
  b11_chain :: chain_hash
  b11_is_expired :: bool

datatype offer_amount = AmountBitcoin u64 | AmountCurrency

record bolt12_offer =
  of_supports_chain :: "chain_hash \<Rightarrow> bool"
  of_is_expired :: bool
  of_issuer_signing_pubkey :: "bytes option"
  of_amount :: "offer_amount option"

record bolt12_invoice =
  b12_chain :: chain_hash
  b12_is_expired :: bool
  b12_signing_pubkey :: bytes
  b12_payment_hash :: bytes

datatype ln_invoice = Bolt11 bolt11_invoice | Offer bolt12_offer | Bolt12 bolt12_invoice

datatype invoice_error = InvalidNetwork | DecodeError string

record invoice_lib =
  il_bolt11_from_str :: "string \<Rightarrow> (string, bolt11_invoice) result"
  il_offer_from_str :: "string \<Rightarrow> (string, bolt12_offer) result"
  il_hrp_string :: "string \<Rightarrow> (string, string \<times> bytes) result"
  il_bolt12_try_from :: "bytes \<Rightarrow> (string, bolt12_invoice) result"
  il_to_lowercase :: "string \<Rightarrow> string"

definition BECH32_BOLT12_INVOICE_HRP :: string where
  "BECH32_BOLT12_INVOICE_HRP = ''lni''"

fun invoice_is_expired :: "ln_invoice \<Rightarrow> bool" where
  "invoice_is_expired (Bolt11 i) = b11_is_expired i"
| "invoice_is_expired (Offer i) = of_is_expired i"
| "invoice_is_expired (Bolt12 i) = b12_is_expired i"

fun network_to_chain_hash :: "network \<Rightarrow> chain_hash" where
  "network_to_chain_hash Mainnet = ChainBitcoin"
| "network_to_chain_hash Testnet = ChainTestnet3"
| "network_to_chain_hash Signet = ChainSignet"
| "network_to_chain_hash Regtest = ChainRegtest"

fun is_for_network :: "ln_invoice \<Rightarrow> network \<Rightarrow> bool" where
  "is_for_network (Bolt11 i) n = (b11_chain i = network_to_chain_hash n)"
| "is_for_network (Offer i) n = of_supports_chain i (network_to_chain_hash n)"
| "is_for_network (Bolt12 i) n = (b12_chain i = network_to_chain_hash n)"

definition decode_bolt11 :: "invoice_lib \<Rightarrow> string \<Rightarrow> (invoice_error, ln_invoice) result" where
  "decode_bolt11 lib s = r_map Bolt11 (r_map_err DecodeError (il_bolt11_from_str lib s))"

definition decode_bolt12_offer :: "invoice_lib \<Rightarrow> string \<Rightarrow> (invoice_error, ln_invoice) result" where
  "decode_bolt12_offer lib s = r_map Offer (r_map_err DecodeError (il_offer_from_str lib s))"

definition decode_bolt12_invoice :: "invoice_lib \<Rightarrow> string \<Rightarrow> (invoice_error, ln_invoice) result" where
  "decode_bolt12_invoice lib s =
     r_bind (r_map_err DecodeError (il_hrp_string lib s)) (\<lambda>(hrp, payload).
       if il_to_lowercase lib hrp \<noteq> BECH32_BOLT12_INVOICE_HRP then Err (DecodeError ''invalid HRP'')
       else r_map Bolt12 (r_map_err DecodeError (il_bolt12_try_from lib payload)))"

definition DECODE_FUNCS :: "invoice_lib \<Rightarrow> (string \<Rightarrow> (invoice_error, ln_invoice) result) list" where
  "DECODE_FUNCS lib = [decode_bolt11 lib, decode_bolt12_offer lib, decode_bolt12_invoice lib]"

text \<open>The loop of \<open>parse\<close>, with the first error seen so far.\<close>

fun parse_with ::
  "(string \<Rightarrow> (invoice_error, ln_invoice) result) list \<Rightarrow> string \<Rightarrow> invoice_error option
    \<Rightarrow> (invoice_error, ln_invoice) result" where
  "parse_with [] s first_error =
     Err (case first_error of Some e \<Rightarrow> e | None \<Rightarrow> DecodeError ''could not decode'')"
| "parse_with (func # funcs) s first_error =
     (case func s of
        Ok res \<Rightarrow> Ok res
      | Err err \<Rightarrow> parse_with funcs s (case first_error of None \<Rightarrow> Some err | Some e \<Rightarrow> Some e)
      | Panic \<Rightarrow> Panic)"

definition parse_invoice :: "invoice_lib \<Rightarrow> string \<Rightarrow> (invoice_error, ln_invoice) result" where
  "parse_invoice lib s = parse_with (DECODE_FUNCS lib) s None"

definition decode_invoice :: "invoice_lib \<Rightarrow> network \<Rightarrow> string \<Rightarrow> (invoice_error, ln_invoice) result" where
  "decode_invoice lib n s =
     r_bind (parse_invoice lib s) (\<lambda>invoice.
       if \<not> is_for_network invoice n then Err InvalidNetwork else Ok invoice)"

text \<open>What is decoded is one of the three formats, and for the network.\<close>

lemma decode_invoice_network: "decode_invoice lib n s = Ok i \<Longrightarrow> is_for_network i n"
  by (auto simp: decode_invoice_def split: if_splits)

lemma decode_invoice_Offer:
  assumes "decode_invoice lib n s = Ok (Offer offer)"
  shows "il_offer_from_str lib s = Ok offer \<and> of_supports_chain offer (network_to_chain_hash n)"
proof -
  have "decode_bolt11 lib s \<noteq> Ok (Offer offer)" "decode_bolt12_invoice lib s \<noteq> Ok (Offer offer)"
    by (auto simp: decode_bolt11_def decode_bolt12_invoice_def split: if_splits)
  with assms show ?thesis
    by (auto simp: decode_invoice_def parse_invoice_def DECODE_FUNCS_def decode_bolt12_offer_def
        split: result.splits if_splits)
qed

text \<open>When no format fits, the error is the one of the BOLT 11 parser.\<close>

lemma parse_invoice_Err:
  "parse_invoice lib s = Err e \<Longrightarrow> decode_bolt11 lib s = Err e"
  by (auto simp: parse_invoice_def DECODE_FUNCS_def split: result.splits)

text \<open>A library that reads every string as an offer.\<close>

definition example_invoice_lib :: invoice_lib where
  "example_invoice_lib = \<lparr>il_bolt11_from_str = (\<lambda>_. Err []),
     il_offer_from_str = (\<lambda>_. Ok \<lparr>of_supports_chain = (\<lambda>_. True), of_is_expired = False,
                                   of_issuer_signing_pubkey = Some [2], of_amount = None\<rparr>),
     il_hrp_string = (\<lambda>_. Err []), il_bolt12_try_from = (\<lambda>_. Err []), il_to_lowercase = id\<rparr>"

end
