(* ===== verification/Offer_Subscriptions.thy ===== *)
theory Offer_Subscriptions
  imports Status_Subscriptions Message_Limit Invoice_Decode
begin

text \<open>
  Subscriptions to invoice requests for BOLT 12 offers,
  \<open>src/boltzr/src/api/ws/offer_subscriptions.rs\<close>, with the map whose entries expire of
  \<open>src/boltzr/src/utils/timeout_map.rs\<close>. Hashing, hex, the parsing of signatures and their
  verification are the record \<open>offer_lib\<close>; \<open>ol_values\<close> lists the values of a hash map. An operation
  returns what it hands to a channel beside the new state. \<open>ol_verify_schnorr\<close> checks a signature of the
  SHA-256 of a message with the x-only form of a key. The instants at which the code reads the
  clock are arguments.
\<close>

subsection \<open>A map whose entries expire\<close>

record ('k, 'v) timeout_map =
  tm_map :: "'k \<rightharpoonup> 'v \<times> instant"
  tm_ttl :: nat

definition timeout_map_new :: "nat \<Rightarrow> ('k, 'v) timeout_map" where
  "timeout_map_new ttl = \<lparr>tm_map = Map.empty, tm_ttl = ttl\<rparr>"

definition tm_cleanup :: "instant \<Rightarrow> ('k, 'v) timeout_map \<Rightarrow> ('k, 'v) timeout_map" where
  "tm_cleanup now m =
     m\<lparr>tm_map := (\<lambda>k. case tm_map m k of
                       Some (v, expiry) \<Rightarrow> if expiry > now then Some (v, expiry) else None
                     | None \<Rightarrow> None)\<rparr>"

definition tm_insert :: "instant \<Rightarrow> 'k \<Rightarrow> 'v \<Rightarrow> ('k, 'v) timeout_map \<Rightarrow> ('k, 'v) timeout_map" where
  "tm_insert now k v m =
     (let m' = tm_cleanup now m in m'\<lparr>tm_map := (tm_map m')(k \<mapsto> (v, now + tm_ttl m'))\<rparr>)"

definition tm_remove :: "instant \<Rightarrow> 'k \<Rightarrow> ('k, 'v) timeout_map \<Rightarrow> ('k, 'v) timeout_map \<times> 'v option" where
  "tm_remove now k m =
     (let m' = tm_cleanup now m in
      (m'\<lparr>tm_map := (tm_map m')(k := None)\<rparr>, map_option fst (tm_map m' k)))"

lemma tm_remove_insert:
  "snd (tm_remove later k (tm_insert now k v m)) = (if later < now + tm_ttl m then Some v else None)"
  by (simp add: tm_remove_def tm_insert_def tm_cleanup_def Let_def)

lemma tm_remove_gone: "snd (tm_remove later k (fst (tm_remove now k m))) = None"
  by (simp add: tm_remove_def tm_cleanup_def Let_def)

lemma tm_ttl_kept [simp]:
  "tm_ttl (tm_cleanup now m) = tm_ttl m" "tm_ttl (tm_insert now k v m) = tm_ttl m"
  "tm_ttl (fst (tm_remove now k m)) = tm_ttl m"
  by (simp_all add: tm_cleanup_def tm_insert_def tm_remove_def Let_def)

subsection \<open>Offers\<close>

type_synonym offer_id = u64
type_synonym hook_id = u64

record pending_hook =
  ph_offer :: string
  ph_invoice_request :: string

record invoice_request_params =
  ip_offer :: string
  ip_signature :: string

datatype offer_error =
    OfferDecode invoice_error | NoSigningKey | InvalidOffer | SignatureHex | SignatureFormat
  | InvalidSignature | OfferSend

record offer_lib =
  ol_network :: network
  ol_invoice :: invoice_lib
  ol_hash_key :: "bytes \<Rightarrow> offer_id"
  ol_hash_request :: "string \<Rightarrow> hook_id"
  ol_hex_decode :: "string \<Rightarrow> bytes option"
  ol_sig_from_slice :: "bytes \<Rightarrow> bytes option"
  ol_verify_schnorr :: "bytes \<Rightarrow> string \<Rightarrow> bytes \<Rightarrow> bool"
  ol_values :: "(offer_id \<rightharpoonup> string \<times> connection_id) \<Rightarrow> (string \<times> connection_id) list"

definition OFFER_SUBSCRIBE_MESSAGE :: string where
  "OFFER_SUBSCRIBE_MESSAGE = ''SUBSCRIBE''"

definition INVOICE_REQUEST_TIMEOUT :: nat where
  "INVOICE_REQUEST_TIMEOUT = 60 * nanos_per_sec"

type_synonym invoice_response = "pending_hook \<times> (string, string) result"

record 'c offer_subs =
  os_pending :: "(hook_id, pending_hook) timeout_map"
  os_all_offers :: "offer_id \<rightharpoonup> string \<times> connection_id"
  os_subscriptions :: "connection_id \<rightharpoonup> 'c"

definition offer_subs_new :: "'c offer_subs" where
  "offer_subs_new = \<lparr>os_pending = timeout_map_new INVOICE_REQUEST_TIMEOUT,
     os_all_offers = Map.empty, os_subscriptions = Map.empty\<rparr>"

definition offer_connection_added :: "connection_id \<Rightarrow> 'c \<Rightarrow> 'c offer_subs \<Rightarrow> 'c offer_subs" where
  "offer_connection_added c tx st = st\<lparr>os_subscriptions := (os_subscriptions st)(c \<mapsto> tx)\<rparr>"

text \<open>\<open>all_offers.retain(|_, (_, id)| *id != connection_id)\<close>, then the removal of the channel.\<close>

definition offer_connection_dropped :: "connection_id \<Rightarrow> 'c offer_subs \<Rightarrow> 'c offer_subs" where
  "offer_connection_dropped c st =
     st\<lparr>os_all_offers := (\<lambda>i. case os_all_offers st i of
                                Some (offer, owner) \<Rightarrow> if owner \<noteq> c then Some (offer, owner) else None
                              | None \<Rightarrow> None),
        os_subscriptions := (os_subscriptions st)(c := None)\<rparr>"

definition offer_connection_known :: "connection_id \<Rightarrow> 'c offer_subs \<Rightarrow> bool" where
  "offer_connection_known c st = (os_subscriptions st c \<noteq> None)"

definition hash_offer :: "offer_lib \<Rightarrow> string \<Rightarrow> (offer_error, bytes \<times> offer_id) result" where
  "hash_offer ol offer =
     r_bind (r_map_err OfferDecode (decode_invoice (ol_invoice ol) (ol_network ol) offer)) (\<lambda>invoice.
       case invoice of
         Offer offer \<Rightarrow>
           (case of_issuer_signing_pubkey offer of
              Some pubkey \<Rightarrow> Ok (pubkey, ol_hash_key ol pubkey)
            | None \<Rightarrow> Err NoSigningKey)
       | _ \<Rightarrow> Err InvalidOffer)"

text \<open>\<open>DashMap::remove_if\<close> with the test of the owner.\<close>

definition remove_owned ::
  "offer_id \<Rightarrow> connection_id \<Rightarrow> (offer_id \<rightharpoonup> string \<times> connection_id) \<Rightarrow> (offer_id \<rightharpoonup> string \<times> connection_id)" where
  "remove_owned i c offers =
     (case offers i of Some (_, owner) \<Rightarrow> if owner = c then offers(i := None) else offers | None \<Rightarrow> offers)"

text \<open>
  \<open>now\<close> is the instant of the insertion and \<open>later\<close> that of the removal when sending on the channel of
  the connection fails, as \<open>can_send\<close> says it does.
\<close>

definition request_invoice ::
  "offer_lib \<Rightarrow> instant \<Rightarrow> instant \<Rightarrow> ('c \<Rightarrow> bool) \<Rightarrow> pending_hook \<Rightarrow> 'c offer_subs
    \<Rightarrow> 'c offer_subs \<times> ('c \<times> pending_hook) list \<times> (offer_error, bool) result" where
  "request_invoice ol now later can_send hook st =
     (case hash_offer ol (ph_offer hook) of
        Err e \<Rightarrow> (st, [], Err e)
      | Panic \<Rightarrow> (st, [], Panic)
      | Ok (_, offer_id) \<Rightarrow>
          (case os_all_offers st offer_id of
             None \<Rightarrow> (st, [], Ok False)
           | Some (_, c) \<Rightarrow>
               (case os_subscriptions st c of
                  None \<Rightarrow> (st\<lparr>os_all_offers := remove_owned offer_id c (os_all_offers st)\<rparr>, [], Ok False)
                | Some tx \<Rightarrow>
                    (let hook_id = ol_hash_request ol (ph_invoice_request hook);
                         st' = st\<lparr>os_pending := tm_insert now hook_id hook (os_pending st)\<rparr>
                     in if can_send tx then (st', [(tx, hook)], Ok True)
                        else (st'\<lparr>os_pending := fst (tm_remove later hook_id (os_pending st'))\<rparr>, [],
                              Err OfferSend)))))"

definition received_invoice_response ::
  "instant \<Rightarrow> hook_id \<Rightarrow> (string, string) result \<Rightarrow> 'c offer_subs \<Rightarrow> 'c offer_subs \<times> invoice_response list" where
  "received_invoice_response now hook_id res st =
     (case tm_remove now hook_id (os_pending st) of
        (pending, hook) \<Rightarrow>
          (st\<lparr>os_pending := pending\<rparr>, (case hook of Some h \<Rightarrow> [(h, res)] | None \<Rightarrow> [])))"

text \<open>The check of one offer in the first loop of \<open>offers_subscribe\<close>.\<close>

definition check_offer ::
  "offer_lib \<Rightarrow> invoice_request_params \<Rightarrow> (offer_error, string \<times> offer_id) result" where
  "check_offer ol offer =
     r_bind (ok_or SignatureHex (ol_hex_decode ol (ip_signature offer))) (\<lambda>sig_bytes.
     r_bind (hash_offer ol (ip_offer offer)) (\<lambda>(signing_pubkey, offer_id).
     r_bind (ok_or SignatureFormat (ol_sig_from_slice ol sig_bytes)) (\<lambda>signature.
       if \<not> ol_verify_schnorr ol signature OFFER_SUBSCRIBE_MESSAGE signing_pubkey then Err InvalidSignature
       else Ok (ip_offer offer, offer_id))))"

definition insert_offer ::
  "connection_id \<Rightarrow> string \<times> offer_id \<Rightarrow> (offer_id \<rightharpoonup> string \<times> connection_id)
    \<Rightarrow> (offer_id \<rightharpoonup> string \<times> connection_id)" where
  "insert_offer c x m = m(snd x \<mapsto> (fst x, c))"

definition offers_subscribe ::
  "offer_lib \<Rightarrow> connection_id \<Rightarrow> invoice_request_params list \<Rightarrow> 'c offer_subs
    \<Rightarrow> 'c offer_subs \<times> (offer_error, unit) result" where
  "offers_subscribe ol c offers st =
     (case r_mapM (check_offer ol) offers of
        Err e \<Rightarrow> (st, Err e)
      | Panic \<Rightarrow> (st, Panic)
      | Ok to_insert \<Rightarrow>
          if os_subscriptions st c = None then (st, Ok ())
          else (st\<lparr>os_all_offers := fold (insert_offer c) to_insert (os_all_offers st)\<rparr>,
                Ok ()))"

text \<open>The loop of \<open>offers_unsubscribe\<close>; a failure leaves the removals before it.\<close>

fun unsubscribe_loop ::
  "offer_lib \<Rightarrow> connection_id \<Rightarrow> string list \<Rightarrow> (offer_id \<rightharpoonup> string \<times> connection_id)
    \<Rightarrow> (offer_id \<rightharpoonup> string \<times> connection_id) \<times> (offer_error, unit) result" where
  "unsubscribe_loop ol c [] m = (m, Ok ())"
| "unsubscribe_loop ol c (offer # offers) m =
     (case hash_offer ol offer of
        Err e \<Rightarrow> (m, Err e)
      | Panic \<Rightarrow> (m, Panic)
      | Ok (_, i) \<Rightarrow> unsubscribe_loop ol c offers (remove_owned i c m))"

definition offers_unsubscribe ::
  "offer_lib \<Rightarrow> connection_id \<Rightarrow> string list \<Rightarrow> 'c offer_subs
    \<Rightarrow> 'c offer_subs \<times> (offer_error, string list) result" where
  "offers_unsubscribe ol c offers st =
     (case unsubscribe_loop ol c offers (os_all_offers st) of
        (m, r) \<Rightarrow>
          (st\<lparr>os_all_offers := m\<rparr>,
           r_map (\<lambda>_. map fst (filter (\<lambda>(_, owner). owner = c) (ol_values ol m))) r))"

subsection \<open>The registry of offers\<close>

definition offers_subscribed :: "'c offer_subs \<Rightarrow> (connection_id \<times> offer_id) set" where
  "offers_subscribed st = {(c, i). \<exists>offer. os_all_offers st i = Some (offer, c)}"

definition offer_inv :: "'c offer_subs \<Rightarrow> bool" where
  "offer_inv st \<longleftrightarrow> (\<forall>(c, i) \<in> offers_subscribed st. os_subscriptions st c \<noteq> None)"

lemma offers_subscribed_dropped:
  "offers_subscribed (offer_connection_dropped c st) = {(d, i) \<in> offers_subscribed st. d \<noteq> c}"
  by (auto simp: offers_subscribed_def offer_connection_dropped_def split: option.splits if_splits)

lemma offers_subscribed_added [simp]:
  "offers_subscribed (offer_connection_added c tx st) = offers_subscribed st"
  by (simp add: offers_subscribed_def offer_connection_added_def)

lemma offer_inv_added: "offer_inv st \<Longrightarrow> offer_inv (offer_connection_added c tx st)"
  unfolding offer_inv_def offers_subscribed_added by (auto simp: offer_connection_added_def)

lemma offer_inv_dropped: "offer_inv st \<Longrightarrow> offer_inv (offer_connection_dropped c st)"
  unfolding offer_inv_def offers_subscribed_dropped by (auto simp: offer_connection_dropped_def)

lemma offer_known:
  "offer_connection_known d (offer_connection_added c tx st) \<longleftrightarrow> d = c \<or> offer_connection_known d st"
  "offer_connection_known d (offer_connection_dropped c st) \<longleftrightarrow> d \<noteq> c \<and> offer_connection_known d st"
  by (auto simp: offer_connection_known_def offer_connection_added_def offer_connection_dropped_def)

interpretation offer_registry: connection_registry offer_inv "\<lambda>s c. offer_connection_known c s"
  offers_subscribed offer_connection_added offer_connection_dropped
  by unfold_locales
    (auto simp: offer_inv_added offer_inv_dropped offers_subscribed_dropped offer_known,
     auto simp: offer_inv_def offer_connection_known_def)

subsection \<open>What the operations keep\<close>

lemma remove_owned_le: "remove_owned i c m j = Some x \<Longrightarrow> m j = Some x"
  by (auto simp: remove_owned_def split: option.splits if_splits)

lemma remove_owned_other: "m j = Some (offer, d) \<Longrightarrow> d \<noteq> c \<Longrightarrow> remove_owned i c m j = Some (offer, d)"
  by (auto simp: remove_owned_def split: option.splits)

lemma unsubscribe_loop_le: "fst (unsubscribe_loop ol c offers m) j = Some x \<Longrightarrow> m j = Some x"
proof (induction offers arbitrary: m)
  case (Cons offer offers)
  then show ?case using remove_owned_le [of _ c m j x] by (auto split: result.splits)
qed simp

lemma unsubscribe_loop_other:
  "m j = Some (offer, d) \<Longrightarrow> d \<noteq> c \<Longrightarrow> fst (unsubscribe_loop ol c offers m) j = Some (offer, d)"
  by (induction offers arbitrary: m) (auto split: result.splits simp: remove_owned_other)

lemma fold_insert_offers:
  "fold (insert_offer c) xs m j = Some (offer, d)
   \<Longrightarrow> m j = Some (offer, d) \<or> d = c \<and> (offer, j) \<in> set xs"
proof (induction xs arbitrary: m)
  case (Cons x xs)
  then have "fold (insert_offer c) xs (insert_offer c x m) j = Some (offer, d)" by simp
  from Cons.IH [OF this] show ?case by (cases x) (auto simp: insert_offer_def split: if_splits)
qed simp

lemma offers_subscribe_owner:
  assumes "os_all_offers (fst (offers_subscribe ol c ps st)) i = Some (offer, d)"
  shows "os_all_offers st i = Some (offer, d)
    \<or> d = c \<and> os_subscriptions st c \<noteq> None \<and> (\<exists>p \<in> set ps. check_offer ol p = Ok (offer, i))"
proof -
  { fix ins assume "r_mapM (check_offer ol) ps = Ok ins" "(offer, i) \<in> set ins"
    then have "\<exists>p \<in> set ps. check_offer ol p = Ok (offer, i)"
      by (rule r_mapM_mem) }
  with assms show ?thesis
    by (auto simp: offers_subscribe_def split: result.splits if_splits dest!: fold_insert_offers)
qed

lemma offers_subscribe_keeps [simp]:
  "os_subscriptions (fst (offers_subscribe ol c ps st)) = os_subscriptions st"
  "os_pending (fst (offers_subscribe ol c ps st)) = os_pending st"
  by (simp_all add: offers_subscribe_def split: result.splits)

lemma offers_unsubscribe_keeps [simp]:
  "os_subscriptions (fst (offers_unsubscribe ol c offers st)) = os_subscriptions st"
  "os_pending (fst (offers_unsubscribe ol c offers st)) = os_pending st"
  by (simp_all add: offers_unsubscribe_def split: prod.splits)

lemma offers_unsubscribe_offers:
  "os_all_offers (fst (offers_unsubscribe ol c offers st)) = fst (unsubscribe_loop ol c offers (os_all_offers st))"
  by (simp add: offers_unsubscribe_def split: prod.splits)

lemma request_invoice_keeps:
  "os_subscriptions (fst (request_invoice ol now later can_send hook st)) = os_subscriptions st"
  "tm_ttl (os_pending (fst (request_invoice ol now later can_send hook st))) = tm_ttl (os_pending st)"
  "os_all_offers (fst (request_invoice ol now later can_send hook st)) i = Some x \<Longrightarrow> os_all_offers st i = Some x"
  using remove_owned_le [of _ _ "os_all_offers st" i x]
  by (auto simp: request_invoice_def Let_def split: result.splits option.splits if_splits)

lemma received_invoice_response_keeps [simp]:
  "os_subscriptions (fst (received_invoice_response now i res st)) = os_subscriptions st"
  "tm_ttl (os_pending (fst (received_invoice_response now i res st))) = tm_ttl (os_pending st)"
  "os_all_offers (fst (received_invoice_response now i res st)) = os_all_offers st"
  by (simp_all add: received_invoice_response_def tm_remove_def Let_def)

subsection \<open>Histories\<close>

datatype 'c offer_op =
    OfferConnectionAdded connection_id 'c
  | OfferConnectionDropped connection_id
  | OffersSubscribe connection_id "invoice_request_params list"
  | OffersUnsubscribe connection_id "string list"
  | RequestInvoice instant instant "'c \<Rightarrow> bool" pending_hook
  | InvoiceResponse instant hook_id "(string, string) result"

fun offer_step :: "offer_lib \<Rightarrow> 'c offer_op \<Rightarrow> 'c offer_subs \<Rightarrow> 'c offer_subs" where
  "offer_step ol (OfferConnectionAdded c tx) st = offer_connection_added c tx st"
| "offer_step ol (OfferConnectionDropped c) st = offer_connection_dropped c st"
| "offer_step ol (OffersSubscribe c ps) st = fst (offers_subscribe ol c ps st)"
| "offer_step ol (OffersUnsubscribe c offers) st = fst (offers_unsubscribe ol c offers st)"
| "offer_step ol (RequestInvoice now later can_send hook) st = fst (request_invoice ol now later can_send hook st)"
| "offer_step ol (InvoiceResponse now i res) st = fst (received_invoice_response now i res st)"

definition offer_run :: "offer_lib \<Rightarrow> 'c offer_op list \<Rightarrow> 'c offer_subs" where
  "offer_run ol ops = fold (offer_step ol) ops offer_subs_new"

text \<open>Every registered offer was checked for the connection it belongs to.\<close>

definition offers_proven :: "offer_lib \<Rightarrow> 'c offer_op set \<Rightarrow> 'c offer_subs \<Rightarrow> bool" where
  "offers_proven ol ops st \<longleftrightarrow> tm_ttl (os_pending st) = INVOICE_REQUEST_TIMEOUT
     \<and> (\<forall>i offer c. os_all_offers st i = Some (offer, c) \<longrightarrow>
          (\<exists>ps. OffersSubscribe c ps \<in> ops \<and> (\<exists>p \<in> set ps. check_offer ol p = Ok (offer, i))))"

lemma offers_proven_step:
  assumes "offers_proven ol ops st"
  shows "offers_proven ol (insert op ops) (offer_step ol op st)"
proof (cases op)
  case (OffersSubscribe c ps)
  then show ?thesis using assms offers_subscribe_owner [of ol c ps st]
    by (fastforce simp: offers_proven_def)
next
  case (OffersUnsubscribe c offers)
  then show ?thesis using assms
    by (fastforce simp: offers_proven_def offers_unsubscribe_offers dest: unsubscribe_loop_le)
next
  case (RequestInvoice now later can_send hook)
  then show ?thesis using assms
    by (fastforce simp: offers_proven_def request_invoice_keeps(2) dest: request_invoice_keeps(3))
qed (use assms in \<open>fastforce simp: offers_proven_def offer_connection_added_def offer_connection_dropped_def
      split: option.splits if_splits\<close>)+

lemma offers_proven_run: "offers_proven ol (set ops) (offer_run ol ops)"
proof -
  have "offers_proven ol (set ops \<union> prev) (fold (offer_step ol) ops st)" if "offers_proven ol prev st" for prev st
    using that
  proof (induction ops arbitrary: prev st)
    case (Cons op ops)
    from Cons.IH [OF offers_proven_step [OF Cons.prems, of op]] show ?case by simp
  qed simp
  from this [of "{}" offer_subs_new] show ?thesis
    by (simp add: offer_run_def offers_proven_def offer_subs_new_def timeout_map_new_def)
qed

subsection \<open>Requests and their answers\<close>

lemma request_invoice_sent:
  assumes "request_invoice ol now later can_send hook st = (st', sent, r)" and "sent \<noteq> []"
  shows "\<exists>key i offer c tx. hash_offer ol (ph_offer hook) = Ok (key, i)
    \<and> os_all_offers st i = Some (offer, c) \<and> os_subscriptions st c = Some tx \<and> sent = [(tx, hook)]
    \<and> st' = st\<lparr>os_pending := tm_insert now (ol_hash_request ol (ph_invoice_request hook)) hook (os_pending st)\<rparr>"
  using assms by (auto simp: request_invoice_def Let_def split: result.splits option.splits if_splits)

lemma check_offer_OkD:
  "check_offer ol p = Ok (offer, i) \<Longrightarrow> \<exists>key sig_bytes signature.
     hash_offer ol (ip_offer p) = Ok (key, i) \<and> ol_hex_decode ol (ip_signature p) = Some sig_bytes
     \<and> ol_sig_from_slice ol sig_bytes = Some signature
     \<and> ol_verify_schnorr ol signature OFFER_SUBSCRIBE_MESSAGE key"
  by (auto simp: check_offer_def split: if_splits)

text \<open>
  C20: After any sequence of calls, a request for an invoice goes to at most one connection, and
  only to one that has subscribed with a valid signature of the subscribe message by a key that has
  the id of the offer's signing key; the answer that arrives within 60 seconds is passed on with the
  request it belongs to, a later one is not, and no second answer is.
\<close>

theorem invoice_requests_proven:
  assumes "request_invoice ol now later can_send hook (offer_run ol ops) = (st, sent, r)"
    and "sent \<noteq> []" and "i = ol_hash_request ol (ph_invoice_request hook)"
  shows "(\<exists>tx. sent = [(tx, hook)] \<and> (\<exists>c ps. OffersSubscribe c ps \<in> set ops
        \<and> os_subscriptions st c = Some tx \<and> (\<exists>p \<in> set ps. \<exists>key key' k sig_bytes signature.
          hash_offer ol (ph_offer hook) = Ok (key, k) \<and> hash_offer ol (ip_offer p) = Ok (key', k)
          \<and> ol_hex_decode ol (ip_signature p) = Some sig_bytes \<and> ol_sig_from_slice ol sig_bytes = Some signature
          \<and> ol_verify_schnorr ol signature OFFER_SUBSCRIBE_MESSAGE key')))
    \<and> snd (received_invoice_response t i res st)
      = (if t < now + INVOICE_REQUEST_TIMEOUT then [(hook, res)] else [])
    \<and> snd (received_invoice_response t' i res' (fst (received_invoice_response t i res st))) = []"
proof -
  let ?st = "offer_run ol ops"
  have proven: "offers_proven ol (set ops) ?st" by (rule offers_proven_run)
  from request_invoice_sent [OF assms(1,2)] obtain key k offer c tx where
    sent: "hash_offer ol (ph_offer hook) = Ok (key, k)" "os_all_offers ?st k = Some (offer, c)"
    "os_subscriptions ?st c = Some tx" "sent = [(tx, hook)]"
    and st: "st = ?st\<lparr>os_pending := tm_insert now i hook (os_pending ?st)\<rparr>"
    unfolding assms(3) by blast
  from proven sent(2) obtain ps p where "OffersSubscribe c ps \<in> set ops" "p \<in> set ps"
    "check_offer ol p = Ok (offer, k)" unfolding offers_proven_def by blast
  moreover from this(3) obtain key' sig_bytes signature where
    "hash_offer ol (ip_offer p) = Ok (key', k)" "ol_hex_decode ol (ip_signature p) = Some sig_bytes"
    "ol_sig_from_slice ol sig_bytes = Some signature"
    "ol_verify_schnorr ol signature OFFER_SUBSCRIBE_MESSAGE key'"
    using check_offer_OkD by blast
  moreover have "os_subscriptions st c = Some tx" using sent(3) st by simp
  moreover have "tm_ttl (os_pending ?st) = INVOICE_REQUEST_TIMEOUT" using proven by (simp add: offers_proven_def)
  then have "snd (received_invoice_response t i res st)
      = (if t < now + INVOICE_REQUEST_TIMEOUT then [(hook, res)] else [])"
    using tm_remove_insert [of t i now hook "os_pending ?st"]
    by (auto simp: received_invoice_response_def st split: prod.splits)
  moreover have "snd (received_invoice_response t' i res' (fst (received_invoice_response t i res st))) = []"
    using tm_remove_gone [of t' i t "os_pending st"]
    by (auto simp: received_invoice_response_def split: prod.splits)
  ultimately show ?thesis unfolding sent(4) using sent(1) by blast
qed

text \<open>One connection that subscribed, and a request for its offer.\<close>

definition example_offer_lib :: offer_lib where
  "example_offer_lib = \<lparr>ol_network = Regtest,
     ol_invoice = example_invoice_lib,
     ol_hash_key = (\<lambda>_. 3), ol_hash_request = (\<lambda>_. 9), ol_hex_decode = (\<lambda>_. Some [1]),
     ol_sig_from_slice = Some, ol_verify_schnorr = (\<lambda>_ _ key. key = [2]), ol_values = (\<lambda>_. [])\<rparr>"

definition example_offer_ops :: "nat offer_op list" where
  "example_offer_ops = [OfferConnectionAdded 7 1, OffersSubscribe 7 [\<lparr>ip_offer = ''lno1'', ip_signature = ''01''\<rparr>]]"

definition example_hook_request :: pending_hook where
  "example_hook_request = \<lparr>ph_offer = ''lno1'', ph_invoice_request = ''00''\<rparr>"

lemma example_hash_offer: "hash_offer example_offer_lib offer = Ok ([2], 3)"
  by (simp add: hash_offer_def example_offer_lib_def example_invoice_lib_def decode_invoice_def parse_invoice_def DECODE_FUNCS_def
      decode_bolt11_def decode_bolt12_offer_def)

lemma example_offers:
  "offer_run example_offer_lib example_offer_ops
   = \<lparr>os_pending = timeout_map_new INVOICE_REQUEST_TIMEOUT, os_all_offers = [3 \<mapsto> (''lno1'', 7)],
      os_subscriptions = [7 \<mapsto> 1]\<rparr>"
  by (simp add: offer_run_def example_offer_ops_def offers_subscribe_def check_offer_def example_hash_offer
      offer_connection_added_def offer_subs_new_def insert_offer_def)
    (simp add: example_offer_lib_def insert_offer_def)

theorem invoice_requests_proven_witness:
  "\<exists>st. request_invoice example_offer_lib 0 0 (\<lambda>_. True) example_hook_request
       (offer_run example_offer_lib example_offer_ops) = (st, [(1, example_hook_request)], Ok True)
     \<and> snd (received_invoice_response 5 9 (Ok ''lni1'') st) = [(example_hook_request, Ok ''lni1'')]
     \<and> snd (received_invoice_response 60000000000 9 (Ok ''lni1'') st) = []"
proof -
  let ?st = "(offer_run example_offer_lib example_offer_ops)\<lparr>os_pending :=
    tm_insert 0 9 example_hook_request (timeout_map_new INVOICE_REQUEST_TIMEOUT)\<rparr>"
  have request: "request_invoice example_offer_lib 0 0 (\<lambda>_. True) example_hook_request
       (offer_run example_offer_lib example_offer_ops) = (?st, [(1, example_hook_request)], Ok True)"
    unfolding request_invoice_def example_hash_offer example_offers by (simp add: example_offer_lib_def)
  have hook: "9 = ol_hash_request example_offer_lib (ph_invoice_request example_hook_request)"
    by (simp add: example_offer_lib_def)
  have sent: "[(1 :: nat, example_hook_request)] \<noteq> []" by simp
  from invoice_requests_proven [OF request sent hook, of 5 "Ok ''lni1''"]
    invoice_requests_proven [OF request sent hook, of 60000000000 "Ok ''lni1''"] request
  show ?thesis by (intro exI [of _ ?st]) (simp add: INVOICE_REQUEST_TIMEOUT_def nanos_per_sec_def)
qed

end
