(* ===== verification/Ws_Status.thy ===== *)
theory Ws_Status
  imports Offer_Subscriptions
begin

text \<open>
  The WebSocket server, \<open>src/boltzr/src/api/ws/status.rs\<close>, with the source of cached and buffered
  statuses it asks, \<open>src/boltzr/src/grpc/status_fetcher.rs\<close>. Parsing JSON and reading the cache are
  the record \<open>ws_lib\<close>; error texts are values. A handler returns the new state of the server, what it
  hands to other tasks, and its response. A connection is the loop over the events that its
  \<open>select!\<close> yields; the server is a step relation in which the events of connections interleave.
  Time stamps of responses are milliseconds; messages always serialise.
\<close>

subsection \<open>Numbers in messages\<close>

datatype parse_int_error = IntEmpty | IntInvalidDigit | IntPosOverflow

definition digit_of :: "char \<Rightarrow> nat option" where
  "digit_of ch =
     (let n = of_char ch :: nat in if 48 \<le> n \<and> n \<le> 57 then Some (n - 48) else None)"

fun parse_u64_digits :: "nat \<Rightarrow> string \<Rightarrow> (parse_int_error, u64) result" where
  "parse_u64_digits acc [] = Ok (word_of_nat acc)"
| "parse_u64_digits acc (ch # s) =
     (case digit_of ch of
        None \<Rightarrow> Err IntInvalidDigit
      | Some d \<Rightarrow> if acc * 10 + d > u64_max then Err IntPosOverflow else parse_u64_digits (acc * 10 + d) s)"

definition parse_u64 :: "string \<Rightarrow> (parse_int_error, u64) result" where
  "parse_u64 s =
     (if s = [] then Err IntEmpty
      else if s = ''+'' \<or> s = ''-'' then Err IntInvalidDigit
      else parse_u64_digits 0 (if hd s = CHR ''+'' then tl s else s))"

subsection \<open>Statuses of swaps that are asked for\<close>

record 't status_fetcher =
  sf_buffer :: "connection_id \<rightharpoonup> string list"
  sf_sender :: "'t option"

definition status_fetcher_new :: "'t status_fetcher" where
  "status_fetcher_new = \<lparr>sf_buffer = Map.empty, sf_sender = None\<rparr>"

text \<open>The entries of the buffer are sent in the order in which the hash map lists them.\<close>

definition set_sender ::
  "((connection_id \<rightharpoonup> string list) \<Rightarrow> (connection_id \<times> string list) list) \<Rightarrow> 't \<Rightarrow> 't status_fetcher
    \<Rightarrow> 't status_fetcher \<times> ('t \<times> connection_id \<times> string list) list" where
  "set_sender entries sender f =
     (\<lparr>sf_buffer = Map.empty, sf_sender = Some sender\<rparr>, map (Pair sender) (entries (sf_buffer f)))"

definition buffer_id :: "connection_id \<Rightarrow> string \<Rightarrow> (connection_id \<rightharpoonup> string list) \<Rightarrow> (connection_id \<rightharpoonup> string list)" where
  "buffer_id c i m = m(c \<mapsto> (case m c of Some ids \<Rightarrow> ids | None \<Rightarrow> []) @ [i])"

text \<open>\<open>get_multiple\<close> is the lookup in the cache; one entry that is missing leaves all to the backend.\<close>

definition fetch_status_info ::
  "(string list \<Rightarrow> (unit, swap_status_no_id option list) result) \<Rightarrow> connection_id \<Rightarrow> string list \<Rightarrow> 't status_fetcher
    \<Rightarrow> 't status_fetcher \<times> ('t \<times> connection_id \<times> string list) list
       \<times> (unit, swap_status list option) result" where
  "fetch_status_info get_multiple c ids f =
     (case get_multiple ids of
        Err e \<Rightarrow> (f, [], Err e)
      | Panic \<Rightarrow> (f, [], Panic)
      | Ok entries \<Rightarrow>
          (case those entries of
             Some cached \<Rightarrow>
               (f, [], Ok (Some (map (\<lambda>(i, base). \<lparr>sst_id = i, sst_base = base\<rparr>) (zip ids cached))))
           | None \<Rightarrow>
               (case sf_sender f of
                  Some sender \<Rightarrow> (f, [(sender, c, ids)], Ok None)
                | None \<Rightarrow> (f\<lparr>sf_buffer := fold (buffer_id c) ids (sf_buffer f)\<rparr>, [], Ok None))))"

subsection \<open>Requests\<close>

datatype subscription_channel = ChannelSwapUpdate | ChannelInvoiceRequest

datatype ws_request =
    SubscribeSwapUpdate "string list"
  | SubscribeInvoiceRequest "invoice_request_params list"
  | Unsubscribe subscription_channel "string list"
  | InvoiceCreated string string
  | InvoiceFailed string string
  | WsPing

datatype ws_error =
    CouldNotParse | TooManyIds u64 | OffersSubscribeFailed offer_error | OffersUnsubscribeFailed offer_error
  | InvalidInvoiceId parse_int_error

type_synonym timestamp = nat

datatype ws_response =
    RespSubscribe subscription_channel "string list" timestamp
  | RespUnsubscribe subscription_channel "string list" timestamp
  | RespUpdate "swap_status list" timestamp
  | RespInvoiceRequest hook_id string string timestamp
  | RespError ws_error
  | RespPong

record ws_lib =
  wl_offers :: offer_lib
  wl_parse :: "string \<Rightarrow> ws_request option"
  wl_get_multiple :: "string list \<Rightarrow> (unit, swap_status_no_id option list) result"

record ws_config =
  wc_message_limit :: "message_limit_config option"
  wc_max_swap_update_ids :: u64

definition DEFAULT_MAX_SWAP_UPDATE_IDS_PER_MESSAGE :: u64 where
  "DEFAULT_MAX_SWAP_UPDATE_IDS_PER_MESSAGE = 100"

definition ws_config_new :: "message_limit_config option \<Rightarrow> ws_config" where
  "ws_config_new limit =
     \<lparr>wc_message_limit = limit,
      wc_max_swap_update_ids =
        (case Option.bind limit ml_max_swap_update_ids of
           Some m \<Rightarrow> m | None \<Rightarrow> DEFAULT_MAX_SWAP_UPDATE_IDS_PER_MESSAGE)\<rparr>"

record ('c, 'd, 't) ws_server =
  sv_status :: "'c status_subs"
  sv_offers :: "'d offer_subs"
  sv_fetcher :: "'t status_fetcher"

text \<open>What a handler hands to other tasks: batches for channels, answers to invoice requests, and
  requests to the backend.\<close>

record ('c, 't) ws_out =
  out_batches :: "('c \<times> swap_status list) list"
  out_answers :: "invoice_response list"
  out_fetches :: "('t \<times> connection_id \<times> string list) list"

definition no_out :: "('c, 't) ws_out" where
  "no_out = \<lparr>out_batches = [], out_answers = [], out_fetches = []\<rparr>"

definition validate_swap_update_ids :: "ws_config \<Rightarrow> string list \<Rightarrow> (ws_error, string list) result" where
  "validate_swap_update_ids cfg ids =
     (if length ids > unat (wc_max_swap_update_ids cfg) then Err (TooManyIds (wc_max_swap_update_ids cfg))
      else Ok ids)"

definition handle_subscribe_swaps ::
  "ws_lib \<Rightarrow> ws_config \<Rightarrow> timestamp option \<Rightarrow> connection_id \<Rightarrow> string list \<Rightarrow> ('c, 'd, 't) ws_server
    \<Rightarrow> ('c, 'd, 't) ws_server \<times> ('c, 't) ws_out \<times> (ws_error, ws_response option) result" where
  "handle_subscribe_swaps lib cfg ts c ids sv =
     (case validate_swap_update_ids cfg ids of
        Err e \<Rightarrow> (sv, no_out, Ok (Some (RespError e)))
      | Panic \<Rightarrow> (sv, no_out, Panic)
      | Ok args \<Rightarrow>
          (let status = subscription_added c args (sv_status sv) in
           case fetch_status_info (wl_get_multiple lib) c args (sv_fetcher sv) of
             (fetcher, fetches, res) \<Rightarrow>
               (sv\<lparr>sv_status := status, sv_fetcher := fetcher\<rparr>,
                no_out\<lparr>out_fetches := fetches,
                       out_batches := (case res of Ok (Some updates) \<Rightarrow> inject_updates status c updates | _ \<Rightarrow> [])\<rparr>,
                Ok (map_option (RespSubscribe ChannelSwapUpdate args) ts))))"

definition handle_subscribe_offers ::
  "ws_lib \<Rightarrow> timestamp option \<Rightarrow> connection_id \<Rightarrow> invoice_request_params list \<Rightarrow> ('c, 'd, 't) ws_server
    \<Rightarrow> ('c, 'd, 't) ws_server \<times> ('c, 't) ws_out \<times> (ws_error, ws_response option) result" where
  "handle_subscribe_offers lib ts c args sv =
     (case offers_subscribe (wl_offers lib) c args (sv_offers sv) of
        (offers, Err e) \<Rightarrow> (sv\<lparr>sv_offers := offers\<rparr>, no_out, Ok (Some (RespError (OffersSubscribeFailed e))))
      | (offers, Panic) \<Rightarrow> (sv\<lparr>sv_offers := offers\<rparr>, no_out, Panic)
      | (offers, Ok _) \<Rightarrow>
          (sv\<lparr>sv_offers := offers\<rparr>, no_out,
           Ok (map_option (RespSubscribe ChannelInvoiceRequest (map ip_offer args)) ts)))"

definition handle_invoice ::
  "instant \<Rightarrow> string \<Rightarrow> (string, string) result \<Rightarrow> ('c, 'd, 't) ws_server
    \<Rightarrow> ('c, 'd, 't) ws_server \<times> ('c, 't) ws_out \<times> (ws_error, ws_response option) result" where
  "handle_invoice now i res sv =
     (case parse_u64 i of
        Err e \<Rightarrow> (sv, no_out, Ok (Some (RespError (InvalidInvoiceId e))))
      | Panic \<Rightarrow> (sv, no_out, Panic)
      | Ok hook_id \<Rightarrow>
          (case received_invoice_response now hook_id res (sv_offers sv) of
             (offers, answers) \<Rightarrow> (sv\<lparr>sv_offers := offers\<rparr>, no_out\<lparr>out_answers := answers\<rparr>, Ok None)))"

fun handle_unsubscribe ::
  "ws_lib \<Rightarrow> timestamp option \<Rightarrow> connection_id \<Rightarrow> subscription_channel \<Rightarrow> string list \<Rightarrow> ('c, 'd, 't) ws_server
    \<Rightarrow> ('c, 'd, 't) ws_server \<times> ('c, 't) ws_out \<times> (ws_error, ws_response option) result" where
  "handle_unsubscribe lib ts c ChannelSwapUpdate args sv =
     (case subscription_removed c args (sv_status sv) of
        (status, leftover) \<Rightarrow>
          (sv\<lparr>sv_status := status\<rparr>, no_out, Ok (map_option (RespUnsubscribe ChannelSwapUpdate leftover) ts)))"
| "handle_unsubscribe lib ts c ChannelInvoiceRequest args sv =
     (case offers_unsubscribe (wl_offers lib) c args (sv_offers sv) of
        (offers, Err e) \<Rightarrow> (sv\<lparr>sv_offers := offers\<rparr>, no_out, Ok (Some (RespError (OffersUnsubscribeFailed e))))
      | (offers, Panic) \<Rightarrow> (sv\<lparr>sv_offers := offers\<rparr>, no_out, Panic)
      | (offers, Ok leftover) \<Rightarrow>
          (sv\<lparr>sv_offers := offers\<rparr>, no_out, Ok (map_option (RespUnsubscribe ChannelInvoiceRequest leftover) ts)))"

text \<open>\<open>ts\<close> is the result of \<open>get_timestamp\<close>; \<open>now\<close> the instant at which the pending hooks are read.\<close>

definition handle_message ::
  "ws_lib \<Rightarrow> ws_config \<Rightarrow> instant \<Rightarrow> timestamp option \<Rightarrow> connection_id \<Rightarrow> string \<Rightarrow> ('c, 'd, 't) ws_server
    \<Rightarrow> ('c, 'd, 't) ws_server \<times> ('c, 't) ws_out \<times> (ws_error, ws_response option) result" where
  "handle_message lib cfg now ts c msg sv =
     (case wl_parse lib msg of
        None \<Rightarrow> (sv, no_out, Err CouldNotParse)
      | Some (SubscribeSwapUpdate ids) \<Rightarrow> handle_subscribe_swaps lib cfg ts c ids sv
      | Some (SubscribeInvoiceRequest args) \<Rightarrow> handle_subscribe_offers lib ts c args sv
      | Some (InvoiceCreated i invoice) \<Rightarrow> handle_invoice now i (Ok invoice) sv
      | Some (InvoiceFailed i e) \<Rightarrow> handle_invoice now i (Err e) sv
      | Some (Unsubscribe channel args) \<Rightarrow> handle_unsubscribe lib ts c channel args sv
      | Some WsPing \<Rightarrow> (sv, no_out, Ok (Some RespPong)))"

subsection \<open>A connection\<close>

definition PING_INTERVAL_SECS :: u64 where
  "PING_INTERVAL_SECS = 15"

definition ACTIVITY_CHECK_INTERVAL_SECS :: u64 where
  "ACTIVITY_CHECK_INTERVAL_SECS = 60"

definition ACTIVITY_TIMEOUT_SECS :: nat where
  "ACTIVITY_TIMEOUT_SECS = 60 * 10"

text \<open>What \<open>select!\<close> yields; a message on the socket is \<open>EvSocket\<close>.\<close>

datatype ws_message = MsgText string | MsgPing | MsgPong | MsgClose | MsgOther

datatype ws_event =
    EvSocket ws_message
  | EvSocketError
  | EvSocketEnd
  | EvUpdates "swap_status list"
  | EvUpdatesClosed
  | EvInvoiceRequest pending_hook
  | EvInvoiceClosed
  | EvPingTick
  | EvActivityTick
  | EvCancelled

datatype ws_frame = FrameResponse ws_response | FrameError ws_error | FramePong | FramePing | FrameClose string

text \<open>The instant, whether sending on the socket succeeds, and the wall clock, if it can be read.\<close>

record ws_tick =
  wt_now :: instant
  wt_send_ok :: bool
  wt_timestamp :: "timestamp option"

record ws_connection =
  co_last_activity :: instant
  co_limiter :: "rate_limiter option"

definition check_message_limit ::
  "rate_limiter option \<Rightarrow> instant \<Rightarrow> rate_limiter option \<times> (message_limit_exceeded, unit) result" where
  "check_message_limit limiter now =
     (case limiter of
        None \<Rightarrow> (None, Ok ())
      | Some l \<Rightarrow> (case try_acquire l now of (l', r) \<Rightarrow> (Some l', r)))"

fun response_frames :: "(ws_error, ws_response option) result \<Rightarrow> ws_frame list" where
  "response_frames (Ok (Some r)) = [FrameResponse r]"
| "response_frames (Ok None) = []"
| "response_frames (Err e) = [FrameError e]"
| "response_frames Panic = []"

text \<open>
  One event: the new server and connection, what is handed to other tasks, the frames that are sent,
  and whether the loop goes on.
\<close>

fun connection_event ::
  "ws_lib \<Rightarrow> ws_config \<Rightarrow> connection_id \<Rightarrow> ws_tick \<Rightarrow> ws_event \<Rightarrow> ('c, 'd, 't) ws_server \<Rightarrow> ws_connection
    \<Rightarrow> ('c, 'd, 't) ws_server \<times> ws_connection \<times> ('c, 't) ws_out \<times> ws_frame list \<times> bool" where
  "connection_event lib cfg c t (EvSocket (MsgText msg)) sv co =
     (case check_message_limit (co_limiter co) (wt_now t) of
        (limiter, r) \<Rightarrow>
          (let co' = co\<lparr>co_last_activity := wt_now t, co_limiter := limiter\<rparr> in
           if r \<noteq> Ok () then (sv, co', no_out, [FrameClose MESSAGE_LIMIT_EXCEEDED_REASON], False)
           else (case handle_message lib cfg (wt_now t) (wt_timestamp t) c msg sv of
                   (sv', out, res) \<Rightarrow>
                     (let frames = response_frames res
                      in (sv', co', out, frames, res \<noteq> Panic \<and> (frames = [] \<or> wt_send_ok t))))))"
| "connection_event lib cfg c t (EvSocket MsgPing) sv co =
     (sv, co\<lparr>co_last_activity := wt_now t\<rparr>, no_out, [FramePong], wt_send_ok t)"
| "connection_event lib cfg c t (EvSocket MsgPong) sv co =
     (sv, co\<lparr>co_last_activity := wt_now t\<rparr>, no_out, [], True)"
| "connection_event lib cfg c t (EvSocket MsgClose) sv co = (sv, co, no_out, [], False)"
| "connection_event lib cfg c t (EvSocket MsgOther) sv co = (sv, co, no_out, [], True)"
| "connection_event lib cfg c t EvSocketError sv co = (sv, co, no_out, [], False)"
| "connection_event lib cfg c t EvSocketEnd sv co = (sv, co, no_out, [], True)"
| "connection_event lib cfg c t (EvUpdates updates) sv co =
     (let co' = co\<lparr>co_last_activity := wt_now t\<rparr> in
      case wt_timestamp t of
        None \<Rightarrow> (sv, co', no_out, [], False)
      | Some ts \<Rightarrow> (sv, co', no_out, [FrameResponse (RespUpdate updates ts)], wt_send_ok t))"
| "connection_event lib cfg c t EvUpdatesClosed sv co = (sv, co, no_out, [], False)"
| "connection_event lib cfg c t (EvInvoiceRequest hook) sv co =
     (let co' = co\<lparr>co_last_activity := wt_now t\<rparr> in
      case wt_timestamp t of
        None \<Rightarrow> (sv, co', no_out, [], False)
      | Some ts \<Rightarrow>
          (sv, co', no_out,
           [FrameResponse (RespInvoiceRequest (ol_hash_request (wl_offers lib) (ph_invoice_request hook))
              (ph_offer hook) (ph_invoice_request hook) ts)], wt_send_ok t))"
| "connection_event lib cfg c t EvInvoiceClosed sv co = (sv, co, no_out, [], True)"
| "connection_event lib cfg c t EvPingTick sv co = (sv, co, no_out, [FramePing], wt_send_ok t)"
| "connection_event lib cfg c t EvActivityTick sv co =
     (sv, co, no_out, [], \<not> (wt_now t - co_last_activity co) div nanos_per_sec > ACTIVITY_TIMEOUT_SECS)"
| "connection_event lib cfg c t EvCancelled sv co = (sv, co, no_out, [], False)"

text \<open>The start of \<open>accept_connection\<close>, and the drop of its guard when the loop has ended.\<close>

definition connection_start ::
  "ws_config \<Rightarrow> connection_id \<Rightarrow> 'c \<Rightarrow> 'd \<Rightarrow> instant \<Rightarrow> ('c, 'd, 't) ws_server
    \<Rightarrow> ('c, 'd, 't) ws_server \<times> ws_connection" where
  "connection_start cfg c status_tx offer_tx now sv =
     (sv\<lparr>sv_offers := offer_connection_added c offer_tx (sv_offers sv),
         sv_status := connection_added c status_tx (sv_status sv)\<rparr>,
      \<lparr>co_last_activity = now, co_limiter = map_option (\<lambda>config. limiter_new config now) (wc_message_limit cfg)\<rparr>)"

definition guard_drop :: "connection_id \<Rightarrow> ('c, 'd, 't) ws_server \<Rightarrow> ('c, 'd, 't) ws_server" where
  "guard_drop c sv =
     sv\<lparr>sv_status := connection_dropped c (sv_status sv),
        sv_offers := offer_connection_dropped c (sv_offers sv)\<rparr>"

text \<open>The loop of \<open>get_connection_id\<close> over the numbers that the generator yields.\<close>

fun get_connection_id :: "('c, 'd, 't) ws_server \<Rightarrow> u64 list \<Rightarrow> connection_id option" where
  "get_connection_id sv [] = None"
| "get_connection_id sv (i # is) =
     (if \<not> connection_known i (sv_status sv) \<and> \<not> offer_connection_known i (sv_offers sv) then Some i
      else get_connection_id sv is)"

definition ws_server_new :: "('c, 'd, 't) ws_server" where
  "ws_server_new = \<lparr>sv_status = status_subs_new, sv_offers = offer_subs_new, sv_fetcher = status_fetcher_new\<rparr>"

subsection \<open>What a message changes\<close>

lemma known_kept [simp]:
  "connection_known d (subscription_added c ids st) \<longleftrightarrow> connection_known d st"
  "connection_known d (fst (subscription_removed c ids st)) \<longleftrightarrow> connection_known d st"
  using channels_kept [of c ids st d] by (metis connection_known_def map_option_is_None)+

lemma offers_known_kept [simp]:
  "offer_connection_known d (fst (offers_subscribe ol c ps st)) \<longleftrightarrow> offer_connection_known d st"
  "offer_connection_known d (fst (offers_unsubscribe ol c offers st)) \<longleftrightarrow> offer_connection_known d st"
  "offer_connection_known d (fst (received_invoice_response now i res st)) \<longleftrightarrow> offer_connection_known d st"
  "offer_connection_known d (fst (request_invoice ol now later can_send hook st)) \<longleftrightarrow> offer_connection_known d st"
  by (simp_all add: offer_connection_known_def request_invoice_keeps)

lemma offer_inv_iff:
  "offer_inv st \<longleftrightarrow> (\<forall>i offer c. os_all_offers st i = Some (offer, c) \<longrightarrow> os_subscriptions st c \<noteq> None)"
  by (auto simp: offer_inv_def offers_subscribed_def)

lemma offer_inv_kept:
  assumes "offer_inv st"
  shows "offer_inv (fst (offers_subscribe ol c ps st))"
    and "offer_inv (fst (offers_unsubscribe ol c offers st))"
    and "offer_inv (fst (received_invoice_response now i res st))"
    and "offer_inv (fst (request_invoice ol now later can_send hook st))"
  using assms offers_subscribe_owner [of ol c ps st]
    unsubscribe_loop_le [of ol c offers "os_all_offers st"]
    request_invoice_keeps(3) [of ol now later can_send hook st]
  unfolding offer_inv_iff
  by (simp_all add: offers_unsubscribe_offers request_invoice_keeps(1)) blast+

text \<open>The parts of a server that belong to a message: its own subscriptions and nothing else.\<close>

definition server_ok :: "('c, 'd, 't) ws_server \<Rightarrow> bool" where
  "server_ok sv \<longleftrightarrow> status_inv (sv_status sv) \<and> offer_inv (sv_offers sv)"

definition same_connections :: "('c, 'd, 't) ws_server \<Rightarrow> ('c, 'd, 't) ws_server \<Rightarrow> bool" where
  "same_connections sv sv' \<longleftrightarrow>
     (\<forall>d. (connection_known d (sv_status sv') \<longleftrightarrow> connection_known d (sv_status sv))
        \<and> (offer_connection_known d (sv_offers sv') \<longleftrightarrow> offer_connection_known d (sv_offers sv)))"

text \<open>The handlers, by the part of the server they change.\<close>

lemma handle_subscribe_swaps_state:
  "sv_status (fst (handle_subscribe_swaps lib cfg ts c ids sv))
   = (if length ids > unat (wc_max_swap_update_ids cfg) then sv_status sv
      else subscription_added c ids (sv_status sv))"
  "sv_offers (fst (handle_subscribe_swaps lib cfg ts c ids sv)) = sv_offers sv"
  by (simp_all add: handle_subscribe_swaps_def validate_swap_update_ids_def Let_def split: prod.split)

lemma handle_subscribe_offers_state:
  "sv_offers (fst (handle_subscribe_offers lib ts c args sv)) = fst (offers_subscribe (wl_offers lib) c args (sv_offers sv))"
  "sv_status (fst (handle_subscribe_offers lib ts c args sv)) = sv_status sv"
  by (simp_all add: handle_subscribe_offers_def split: prod.split result.split)

lemma handle_invoice_state:
  "sv_offers (fst (handle_invoice now i res sv))
   = (case parse_u64 i of Ok k \<Rightarrow> fst (received_invoice_response now k res (sv_offers sv)) | _ \<Rightarrow> sv_offers sv)"
  "sv_status (fst (handle_invoice now i res sv)) = sv_status sv"
  by (simp_all add: handle_invoice_def split: prod.split result.split)

lemma handle_unsubscribe_state:
  "sv_status (fst (handle_unsubscribe lib ts c channel args sv))
   = (if channel = ChannelSwapUpdate then fst (subscription_removed c args (sv_status sv)) else sv_status sv)"
  "sv_offers (fst (handle_unsubscribe lib ts c channel args sv))
   = (if channel = ChannelSwapUpdate then sv_offers sv
      else fst (offers_unsubscribe (wl_offers lib) c args (sv_offers sv)))"
  by (cases channel; simp split: prod.split result.split)+

lemmas handler_state = handle_subscribe_swaps_state handle_subscribe_offers_state handle_invoice_state
  handle_unsubscribe_state

lemma handle_message_ok:
  assumes "server_ok sv"
  shows "server_ok (fst (handle_message lib cfg now ts c msg sv))
    \<and> same_connections sv (fst (handle_message lib cfg now ts c msg sv))"
  using assms offer_inv_kept [of "sv_offers sv"] subscription_added_ok [of "sv_status sv"]
    subscription_removed_ok [of "sv_status sv"]
  unfolding handle_message_def server_ok_def same_connections_def
  by (cases "wl_parse lib msg")
    (simp_all add: handler_state split: ws_request.split result.split)

text \<open>Offers apart, a message changes the subscriptions of its own connection only.\<close>

lemma handle_message_isolated:
  assumes "server_ok sv" and "d \<noteq> c"
  shows "(d, k) \<in> status_subscribed (sv_status (fst (handle_message lib cfg now ts c msg sv)))
    \<longleftrightarrow> (d, k) \<in> status_subscribed (sv_status sv)"
  using assms subscription_added_ok [of "sv_status sv"] subscription_removed_ok [of "sv_status sv"]
  unfolding handle_message_def server_ok_def
  by (cases "wl_parse lib msg") (simp_all add: handler_state split: ws_request.split)

subsection \<open>Errors\<close>

lemma offers_subscribe_Err: "snd (offers_subscribe ol c ps st) = Err e \<Longrightarrow> fst (offers_subscribe ol c ps st) = st"
  by (auto simp: offers_subscribe_def split: result.splits if_splits)

lemma unsubscribe_loop_cases:
  "fst (unsubscribe_loop ol c offers m) i = m i
   \<or> fst (unsubscribe_loop ol c offers m) i = None \<and> (\<exists>offer. m i = Some (offer, c))"
proof (cases "m i")
  case None
  then show ?thesis using unsubscribe_loop_le [of ol c offers m i] by (cases "fst (unsubscribe_loop ol c offers m) i") auto
next
  case (Some x)
  obtain offer d where x: "x = (offer, d)" by force
  show ?thesis
  proof (cases "fst (unsubscribe_loop ol c offers m) i")
    case None
    then show ?thesis using Some x unsubscribe_loop_other [of m i offer d c ol offers] by auto
  next
    case (Some y)
    then show ?thesis using unsubscribe_loop_le [of ol c offers m i y] by simp
  qed
qed

lemma handle_subscribe_swaps_error:
  "snd (snd (handle_subscribe_swaps lib cfg ts c ids sv)) = Ok (Some (RespError e))
   \<Longrightarrow> handle_subscribe_swaps lib cfg ts c ids sv = (sv, no_out, Ok (Some (RespError e)))"
  by (auto simp: handle_subscribe_swaps_def validate_swap_update_ids_def Let_def split: if_splits prod.splits)

lemma handle_subscribe_offers_error:
  "snd (snd (handle_subscribe_offers lib ts c args sv)) = Ok (Some (RespError e))
   \<Longrightarrow> handle_subscribe_offers lib ts c args sv = (sv, no_out, Ok (Some (RespError e)))"
  using offers_subscribe_Err [of "wl_offers lib" c args "sv_offers sv"]
  by (cases "offers_subscribe (wl_offers lib) c args (sv_offers sv)")
    (auto simp: handle_subscribe_offers_def split: result.splits)

lemma handle_invoice_error:
  "snd (snd (handle_invoice now i res sv)) = Ok (Some (RespError e))
   \<Longrightarrow> handle_invoice now i res sv = (sv, no_out, Ok (Some (RespError e)))"
  by (cases "parse_u64 i") (auto simp: handle_invoice_def split: prod.splits)

lemma handle_unsubscribe_error:
  assumes "snd (snd (handle_unsubscribe lib ts c channel args sv)) = Ok (Some (RespError e))"
  shows "channel = ChannelInvoiceRequest \<and> handle_unsubscribe lib ts c channel args sv
    = (sv\<lparr>sv_offers := fst (offers_unsubscribe (wl_offers lib) c args (sv_offers sv))\<rparr>, no_out, Ok (Some (RespError e)))"
proof (cases channel)
  case ChannelSwapUpdate
  then show ?thesis using assms by (auto split: prod.splits)
next
  case ChannelInvoiceRequest
  then show ?thesis using assms
    by (cases "offers_unsubscribe (wl_offers lib) c args (sv_offers sv)") (auto split: result.splits)
qed

text \<open>
  A request that is answered with an error has changed nothing and sent nothing to other tasks,
  with one exception: a failed request to unsubscribe from offers may have removed offers before the
  one it failed at, but only offers that belong to the connection that asked.
\<close>

theorem ws_errors_change_nothing:
  assumes "handle_message lib cfg now ts c msg sv = (sv', out, res)"
    and "res = Err e \<or> res = Ok (Some (RespError e))"
  shows "out = no_out \<and> (sv' = sv \<or>
    (\<exists>args m. wl_parse lib msg = Some (Unsubscribe ChannelInvoiceRequest args)
       \<and> sv' = sv\<lparr>sv_offers := (sv_offers sv)\<lparr>os_all_offers := m\<rparr>\<rparr>
       \<and> (\<forall>i. m i = os_all_offers (sv_offers sv) i
            \<or> m i = None \<and> (\<exists>offer. os_all_offers (sv_offers sv) i = Some (offer, c)))))"
proof (cases "wl_parse lib msg")
  case None
  then show ?thesis using assms(1) by (simp add: handle_message_def)
next
  case (Some r)
  have err: "res = Ok (Some (RespError e))"
    using assms Some by (auto simp: handle_message_def handle_subscribe_swaps_def handle_subscribe_offers_def
        handle_invoice_def validate_swap_update_ids_def Let_def
        split: ws_request.splits result.splits prod.splits if_splits elim!: handle_unsubscribe.elims)
  then have res: "snd (snd (handle_message lib cfg now ts c msg sv)) = Ok (Some (RespError e))"
    using assms(1) by simp
  show ?thesis
  proof (cases r)
    case (Unsubscribe channel args)
    let ?m = "fst (unsubscribe_loop (wl_offers lib) c args (os_all_offers (sv_offers sv)))"
    have "fst (offers_unsubscribe (wl_offers lib) c args (sv_offers sv)) = (sv_offers sv)\<lparr>os_all_offers := ?m\<rparr>"
      by (simp add: offers_unsubscribe_def split: prod.split)
    moreover have "handle_unsubscribe lib ts c channel args sv = (sv', out, res)"
      using assms(1) Some Unsubscribe by (simp add: handle_message_def)
    ultimately show ?thesis using err Some Unsubscribe handle_unsubscribe_error [of lib ts c channel args sv e]
        unsubscribe_loop_cases [of "wl_offers lib" c args "os_all_offers (sv_offers sv)"] by auto
  next
    case (SubscribeSwapUpdate ids)
    then show ?thesis using assms(1) Some res handle_subscribe_swaps_error [of lib cfg ts c ids sv e]
      by (simp add: handle_message_def)
  next
    case (SubscribeInvoiceRequest args)
    then show ?thesis using assms(1) Some res handle_subscribe_offers_error [of lib ts c args sv e]
      by (simp add: handle_message_def)
  next
    case (InvoiceCreated i invoice)
    then show ?thesis using assms(1) Some res handle_invoice_error [of now i "Ok invoice" sv e]
      by (simp add: handle_message_def)
  next
    case (InvoiceFailed i err)
    then show ?thesis using assms(1) Some res handle_invoice_error [of now i "Err err" sv e]
      by (simp add: handle_message_def)
  next
    case WsPing
    then show ?thesis using assms(1) Some by (simp add: handle_message_def)
  qed
qed

subsection \<open>The server\<close>

text \<open>
  Connections are accepted under the id that \<open>get_connection_id\<close> finds and handle their events in any
  order; the node asks for invoices and the backend connects in between.
\<close>

inductive ws_reach ::
  "ws_lib \<Rightarrow> ws_config \<Rightarrow> ('c, 'd, 't) ws_server \<Rightarrow> (connection_id \<rightharpoonup> ws_connection) \<Rightarrow> bool"
  for lib :: ws_lib and cfg :: ws_config where
  started: "ws_reach lib cfg ws_server_new Map.empty"
| accepted: "ws_reach lib cfg sv opened \<Longrightarrow> get_connection_id sv ids = Some c
    \<Longrightarrow> connection_start cfg c status_tx offer_tx now sv = (sv', co) \<Longrightarrow> ws_reach lib cfg sv' (opened(c \<mapsto> co))"
| handled: "ws_reach lib cfg sv opened \<Longrightarrow> opened c = Some co
    \<Longrightarrow> connection_event lib cfg c t ev sv co = (sv', co', out, frames, True)
    \<Longrightarrow> ws_reach lib cfg sv' (opened(c \<mapsto> co'))"
| closed: "ws_reach lib cfg sv opened \<Longrightarrow> opened c = Some co
    \<Longrightarrow> connection_event lib cfg c t ev sv co = (sv', co', out, frames, False)
    \<Longrightarrow> ws_reach lib cfg (guard_drop c sv') (opened(c := None))"
| requested: "ws_reach lib cfg sv opened
    \<Longrightarrow> request_invoice (wl_offers lib) now later can_send hook (sv_offers sv) = (offers, sent, r)
    \<Longrightarrow> ws_reach lib cfg (sv\<lparr>sv_offers := offers\<rparr>) opened"
| backend: "ws_reach lib cfg sv opened \<Longrightarrow> set_sender entries sender (sv_fetcher sv) = (fetcher, fetches)
    \<Longrightarrow> ws_reach lib cfg (sv\<lparr>sv_fetcher := fetcher\<rparr>) opened"

lemma get_connection_id_fresh:
  "get_connection_id sv is = Some c
   \<Longrightarrow> \<not> connection_known c (sv_status sv) \<and> \<not> offer_connection_known c (sv_offers sv)"
  by (induction "is") (auto split: if_splits)

lemma get_connection_id_total:
  "i \<in> set is \<Longrightarrow> \<not> connection_known i (sv_status sv) \<Longrightarrow> \<not> offer_connection_known i (sv_offers sv)
   \<Longrightarrow> \<exists>c. get_connection_id sv is = Some c"
  by (induction "is") auto

lemma connection_event_server:
  assumes "connection_event lib cfg c t ev sv co = (sv', co', out, frames, b)"
  shows "sv' = sv \<or> (\<exists>now ts msg out' res. handle_message lib cfg now ts c msg sv = (sv', out', res))"
  using assms
  by (cases rule: connection_event.cases [of "(lib, cfg, c, t, ev, sv, co)"])
    (auto simp: Let_def split: prod.splits option.splits if_splits)

lemma connection_event_ok:
  assumes "connection_event lib cfg c t ev sv co = (sv', co', out, frames, b)" and "server_ok sv"
  shows "server_ok sv' \<and> same_connections sv sv'"
  using connection_event_server [OF assms(1)] handle_message_ok [OF assms(2)] assms(2)
  by (metis fst_conv same_connections_def)

lemma connection_start_ok:
  assumes "server_ok sv" and "get_connection_id sv is = Some c"
    and "connection_start cfg c status_tx offer_tx now sv = (sv', co)"
  shows "server_ok sv' \<and> (connection_known d (sv_status sv') \<longleftrightarrow> d = c \<or> connection_known d (sv_status sv))
    \<and> (offer_connection_known d (sv_offers sv') \<longleftrightarrow> d = c \<or> offer_connection_known d (sv_offers sv))"
  using assms(1,3) get_connection_id_fresh [OF assms(2)]
  by (auto simp: connection_start_def server_ok_def status_registry.added_inv offer_registry.added_inv
      status_registry.added_known offer_registry.added_known)

lemma guard_drop_ok:
  assumes "server_ok sv"
  shows "server_ok (guard_drop c sv) \<and> (connection_known d (sv_status (guard_drop c sv)) \<longleftrightarrow> d \<noteq> c \<and> connection_known d (sv_status sv))
    \<and> (offer_connection_known d (sv_offers (guard_drop c sv)) \<longleftrightarrow> d \<noteq> c \<and> offer_connection_known d (sv_offers sv))"
  using assms by (auto simp: guard_drop_def server_ok_def status_registry.dropped_inv offer_registry.dropped_inv
      status_registry.dropped_known offer_registry.dropped_known)

definition ws_inv :: "('c, 'd, 't) ws_server \<Rightarrow> (connection_id \<rightharpoonup> ws_connection) \<Rightarrow> bool" where
  "ws_inv sv opened \<longleftrightarrow> server_ok sv
     \<and> (\<forall>c. (connection_known c (sv_status sv) \<longleftrightarrow> c \<in> dom opened)
          \<and> (offer_connection_known c (sv_offers sv) \<longleftrightarrow> c \<in> dom opened))"

lemma ws_reach_inv: "ws_reach lib cfg sv opened \<Longrightarrow> ws_inv sv opened"
proof (induction rule: ws_reach.induct)
  case started
  show ?case
    by (simp add: ws_inv_def server_ok_def ws_server_new_def status_subs_new_ok offer_inv_iff)
      (simp add: connection_known_def offer_connection_known_def status_subs_new_def offer_subs_new_def)
next
  case (accepted sv opened ids c status_tx offer_tx now sv' co)
  then show ?case using connection_start_ok [of sv ids c cfg status_tx offer_tx now sv' co]
    by (auto simp: ws_inv_def)
next
  case (handled sv opened c co t ev sv' co' out frames)
  then show ?case using connection_event_ok [of lib cfg c t ev sv co sv' co' out frames True]
    by (auto simp: ws_inv_def same_connections_def split: if_splits)
next
  case (closed sv opened c co t ev sv' co' out frames)
  then have "server_ok sv'" "same_connections sv sv'"
    using connection_event_ok [of lib cfg c t ev sv co sv' co' out frames False] by (auto simp: ws_inv_def)
  then show ?case using closed.IH guard_drop_ok [of sv' c]
    by (auto simp: ws_inv_def same_connections_def split: if_splits)
next
  case (requested sv opened now later can_send hook offers sent r)
  then have "offers = fst (request_invoice (wl_offers lib) now later can_send hook (sv_offers sv))" by simp
  with requested show ?case using offer_inv_kept(4) [of "sv_offers sv" "wl_offers lib" now later can_send hook]
    by (auto simp: ws_inv_def server_ok_def)
next
  case (backend sv opened entries sender fetcher fetches)
  then show ?case by (simp add: ws_inv_def server_ok_def)
qed


text \<open>A message that does not parse, and a connection that is cancelled.\<close>

definition example_ws_lib :: ws_lib where
  "example_ws_lib = \<lparr>wl_offers = example_offer_lib,
     wl_parse = (\<lambda>msg. if msg = ''ping'' then Some WsPing else None),
     wl_get_multiple = (\<lambda>ids. Ok (map (\<lambda>_. None) ids))\<rparr>"

definition example_tick :: ws_tick where
  "example_tick = \<lparr>wt_now = 0, wt_send_ok = True, wt_timestamp = Some 1\<rparr>"

theorem ws_errors_change_nothing_witness:
  "handle_message example_ws_lib (ws_config_new None) 0 (Some 1) 7 ''x'' (ws_server_new :: (nat, nat, nat) ws_server)
   = (ws_server_new, no_out, Err CouldNotParse)"
proof -
  obtain sv' out res where msg: "handle_message example_ws_lib (ws_config_new None) 0 (Some 1) 7 ''x''
      (ws_server_new :: (nat, nat, nat) ws_server) = (sv', out, res)"
    by (meson prod_cases3)
  then have res: "res = Err CouldNotParse" by (simp add: handle_message_def example_ws_lib_def)
  with ws_errors_change_nothing [OF msg, of CouldNotParse] msg show ?thesis by (simp add: example_ws_lib_def)
qed


end
