(* ===== verification/Swap_Expiration.thy ===== *)
theory Swap_Expiration
  imports Swap_Types Status_Subscriptions Invoice_Decode
begin

text \<open>
  The two checks that fail Submarine Swaps which took too long:
  \<open>src/boltzr/src/swap/expiration/custom_expiry.rs\<close>, after a time set by the referral
  (\<open>src/boltzr/src/db/models/referral.rs\<close>), and \<open>invoice_expiry.rs\<close>, after the invoice has expired.
  The table of swaps is a list of rows. Others write to it while a check runs: \<open>ee_others\<close> is what has
  happened to the table by the time the row of a swap is updated. A check returns the table, the
  updates it sent and its result, since it may fail after it has changed rows. Times are
  microseconds; the parser of JSON is a parameter.
\<close>

subsection \<open>Referrals\<close>

record referral_pair_config =
  pc_expirations :: "(string \<rightharpoonup> u64) option"

record referral_config =
  rc_base :: referral_pair_config
  rc_pairs :: "(string \<rightharpoonup> referral_pair_config) option"

record referral =
  ref_id :: string
  ref_config :: "string option"

datatype expiration_error =
    ReferralConfig string | ExpirationPair pair_error | CurrencyNotConfigured string
  | ExpirationInvoice invoice_error | ExpirationDb | ExpirationSend

fun swap_type_key :: "swap_type \<Rightarrow> string" where
  "swap_type_key Submarine = ''0''"
| "swap_type_key Reverse = ''1''"
| "swap_type_key Chain = ''2''"

definition get_expiration :: "referral_pair_config \<Rightarrow> swap_type \<Rightarrow> u64 option" where
  "get_expiration cfg kind = Option.bind (pc_expirations cfg) (\<lambda>expirations. expirations (swap_type_key kind))"

definition for_pair :: "referral_config \<Rightarrow> string \<Rightarrow> referral_pair_config" where
  "for_pair cfg pr =
     (case rc_pairs cfg of
        Some pairs \<Rightarrow> (case pairs pr of Some c \<Rightarrow> c | None \<Rightarrow> rc_base cfg)
      | None \<Rightarrow> rc_base cfg)"

definition parse_config ::
  "(string \<Rightarrow> referral_config option) \<Rightarrow> referral \<Rightarrow> (expiration_error, referral_config option) result" where
  "parse_config from_value r =
     (case ref_config r of
        Some cfg \<Rightarrow> r_map Some (ok_or (ReferralConfig (ref_id r)) (from_value cfg))
      | None \<Rightarrow> Ok None)"

definition custom_expiration_secs ::
  "(string \<Rightarrow> referral_config option) \<Rightarrow> referral \<Rightarrow> string \<Rightarrow> swap_type \<Rightarrow> (expiration_error, u64 option) result" where
  "custom_expiration_secs from_value r pr kind =
     r_bind (parse_config from_value r) (\<lambda>config.
       case config of
         Some cfg \<Rightarrow>
           Ok (case get_expiration (for_pair cfg pr) kind of
                 Some expiration \<Rightarrow> Some expiration
               | None \<Rightarrow> get_expiration (rc_base cfg) kind)
       | None \<Rightarrow> Ok None)"

subsection \<open>The table of swaps\<close>

text \<open>\<open>update_status_if_matches\<close> of \<open>src/boltzr/src/db/helpers/swap.rs\<close>: the table and the number of rows.\<close>

definition update_row :: "swap_update \<Rightarrow> string option \<Rightarrow> swap \<Rightarrow> swap" where
  "update_row status reason s =
     (case reason of
        Some r \<Rightarrow> s\<lparr>sw_status := swap_update_display status, sw_failure_reason := Some r\<rparr>
      | None \<Rightarrow> s\<lparr>sw_status := swap_update_display status\<rparr>)"

definition update_status_if_matches ::
  "string \<Rightarrow> swap_update \<Rightarrow> string option \<Rightarrow> (swap \<Rightarrow> bool) \<Rightarrow> swap list \<Rightarrow> swap list \<times> nat" where
  "update_status_if_matches i status reason condition db =
     (map (\<lambda>s. if sw_id s = i \<and> condition s then update_row status reason s else s) db,
      length (filter (\<lambda>s. sw_id s = i \<and> condition s) db))"

record expiration_env =
  ee_receivers :: nat
  ee_query_ok :: bool
  ee_update_ok :: "swap \<Rightarrow> bool"
  ee_others :: "swap \<Rightarrow> swap list \<Rightarrow> swap list"

text \<open>The update that is sent for a swap that was failed.\<close>

definition failed_status :: "string \<Rightarrow> string \<Rightarrow> swap_status" where
  "failed_status reason i =
     \<lparr>sst_id = i, sst_base = (status_only (swap_update_display InvoiceFailedToPay))\<lparr>sn_failure_reason := Some reason\<rparr>\<rparr>"

text \<open>
  The loop of both checks: \<open>decide\<close> says whether the swap of the snapshot has expired, which the
  \<open>continue\<close> statements of the source skip otherwise.
\<close>

fun expire_loop ::
  "expiration_env \<Rightarrow> (swap \<Rightarrow> bool) \<Rightarrow> (swap \<Rightarrow> (expiration_error, bool) result) \<Rightarrow> string \<Rightarrow> swap list \<Rightarrow> swap list
    \<Rightarrow> swap list \<times> swap_status list \<times> (expiration_error, unit) result" where
  "expire_loop env condition decide reason [] db = (db, [], Ok ())"
| "expire_loop env condition decide reason (s # ss) db =
     (case decide s of
        Err e \<Rightarrow> (db, [], Err e)
      | Panic \<Rightarrow> (db, [], Panic)
      | Ok expired \<Rightarrow>
          if \<not> expired then expire_loop env condition decide reason ss db
          else (let db1 = ee_others env s db in
                if \<not> ee_update_ok env s then (db1, [], Err ExpirationDb)
                else (case update_status_if_matches (sw_id s) InvoiceFailedToPay (Some reason) condition db1 of
                        (db2, updated) \<Rightarrow>
                          if updated = 0 then expire_loop env condition decide reason ss db2
                          else if ee_receivers env = 0 then (db2, [], Err ExpirationSend)
                          else (case expire_loop env condition decide reason ss db2 of
                                  (db', sent, r) \<Rightarrow> (db', failed_status reason (sw_id s) # sent, r)))))"

definition expire_check ::
  "expiration_env \<Rightarrow> (swap \<Rightarrow> bool) \<Rightarrow> (swap \<Rightarrow> (expiration_error, bool) result) \<Rightarrow> string \<Rightarrow> swap list
    \<Rightarrow> swap list \<times> swap_status list \<times> (expiration_error, unit) result" where
  "expire_check env condition decide reason db =
     (if \<not> ee_query_ok env then (db, [], Err ExpirationDb)
      else expire_loop env condition decide reason (filter condition db) db)"

subsection \<open>Custom expirations\<close>

definition FAILURE_REASON_CUSTOM_EXPIRATION :: string where
  "FAILURE_REASON_CUSTOM_EXPIRATION = ''swap expired''"

definition custom_expirable_swaps_condition :: "swap \<Rightarrow> bool" where
  "custom_expirable_swaps_condition s \<longleftrightarrow>
     sw_status s \<in> set (serialize_swap_updates [SwapCreated, InvoiceSet]) \<and> sw_referral s \<noteq> None"

text \<open>\<open>TimeDelta::num_seconds\<close> rounds towards zero.\<close>

definition num_seconds :: "int \<Rightarrow> int" where
  "num_seconds micros = (if micros \<ge> 0 then micros div 1000000 else - ((- micros) div 1000000))"

definition get_referrals :: "referral list \<Rightarrow> (string \<rightharpoonup> referral)" where
  "get_referrals rows = map_of (rev (map (\<lambda>r. (ref_id r, r)) (filter (\<lambda>r. ref_config r \<noteq> None) rows)))"

definition custom_expired ::
  "(string \<Rightarrow> referral_config option) \<Rightarrow> (string \<rightharpoonup> referral) \<Rightarrow> int \<Rightarrow> swap \<Rightarrow> (expiration_error, bool) result" where
  "custom_expired from_value referrals now s =
     (case Option.bind (sw_referral s) referrals of
        None \<Rightarrow> Ok False
      | Some r \<Rightarrow>
          r_bind (custom_expiration_secs from_value r (sw_pair s) Submarine) (\<lambda>expiration.
            case expiration of
              None \<Rightarrow> Ok False
            | Some expiration_secs \<Rightarrow> Ok (\<not> num_seconds (now - sw_created_at s) \<le> sint expiration_secs)))"

definition custom_check ::
  "expiration_env \<Rightarrow> (string \<Rightarrow> referral_config option) \<Rightarrow> referral list \<Rightarrow> int \<Rightarrow> swap list
    \<Rightarrow> swap list \<times> swap_status list \<times> (expiration_error, unit) result" where
  "custom_check env from_value rows now db =
     expire_check env custom_expirable_swaps_condition (custom_expired from_value (get_referrals rows) now)
       FAILURE_REASON_CUSTOM_EXPIRATION db"

subsection \<open>Expired invoices\<close>

definition FAILURE_REASON_EXPIRED_INVOICE :: string where
  "FAILURE_REASON_EXPIRED_INVOICE = ''invoice expired''"

definition expirable_invoice_swaps_condition :: "swap \<Rightarrow> bool" where
  "expirable_invoice_swaps_condition s \<longleftrightarrow>
     sw_status s \<notin> set (serialize_swap_updates [SwapExpired, InvoicePending, InvoicePaid, InvoiceFailedToPay,
       TransactionClaimed, TransactionLockupFailed, TransactionClaimPending])
     \<and> sw_invoice s \<noteq> None"

definition invoice_expired ::
  "invoice_lib \<Rightarrow> (string \<rightharpoonup> network) \<Rightarrow> swap \<Rightarrow> (expiration_error, bool) result" where
  "invoice_expired lib currencies s =
     (case sw_invoice s of
        None \<Rightarrow> Ok False
      | Some invoice \<Rightarrow>
          r_bind (r_map_err ExpirationPair (sw_lightning_symbol s)) (\<lambda>symbol.
            case currencies symbol of
              None \<Rightarrow> Err (CurrencyNotConfigured symbol)
            | Some network \<Rightarrow>
                r_bind (r_map_err ExpirationInvoice (decode_invoice lib network invoice)) (\<lambda>i.
                  Ok (invoice_is_expired i))))"

definition invoice_check ::
  "expiration_env \<Rightarrow> invoice_lib \<Rightarrow> (string \<rightharpoonup> network) \<Rightarrow> swap list
    \<Rightarrow> swap list \<times> swap_status list \<times> (expiration_error, unit) result" where
  "invoice_check env lib currencies db =
     expire_check env expirable_invoice_swaps_condition (invoice_expired lib currencies)
       FAILURE_REASON_EXPIRED_INVOICE db"

subsection \<open>The contract of a check\<close>

text \<open>Nobody else writes, the database answers, and somebody listens for updates.\<close>

definition undisturbed :: "expiration_env \<Rightarrow> bool" where
  "undisturbed env \<longleftrightarrow> ee_receivers env \<noteq> 0 \<and> ee_query_ok env \<and> (\<forall>s. ee_update_ok env s \<and> ee_others env s = id)"

text \<open>By the time a row is updated, others have moved it out of the states that may expire.\<close>

definition overtaken :: "expiration_env \<Rightarrow> (swap \<Rightarrow> bool) \<Rightarrow> bool" where
  "overtaken env condition \<longleftrightarrow> (\<forall>s db. \<forall>t \<in> set (ee_others env s db). sw_id t = sw_id s \<longrightarrow> \<not> condition t)"

text \<open>A row that was failed is not looked at again.\<close>

locale expiration_checker =
  fixes condition :: "swap \<Rightarrow> bool"
    and decide :: "swap \<Rightarrow> (expiration_error, bool) result"
    and reason :: string
  assumes failed_done: "\<not> condition (update_row InvoiceFailedToPay (Some reason) s)"
begin

abbreviation fail :: "swap \<Rightarrow> swap" where
  "fail s \<equiv> update_row InvoiceFailedToPay (Some reason) s"

text \<open>Over any writes of others, what is sent is for expired swaps of the snapshot.\<close>

lemma sent_expired:
  assumes "expire_loop env condition decide reason ss db = (db', sent, r)" and "u \<in> set sent"
  shows "\<exists>s \<in> set ss. u = failed_status reason (sw_id s) \<and> decide s = Ok True"
  using assms
proof (induction ss arbitrary: db db' sent r)
  case (Cons s ss)
  then show ?case by (cases "decide s") (fastforce simp: Let_def split: if_splits prod.splits)+
qed simp

text \<open>A write of others that comes first wins.\<close>

lemma race_lost:
  assumes "decide s = Ok True" and "ee_update_ok env s"
    and "\<And>t. t \<in> set (ee_others env s db) \<Longrightarrow> sw_id t = sw_id s \<Longrightarrow> \<not> condition t"
  shows "expire_loop env condition decide reason (s # ss) db
    = expire_loop env condition decide reason ss (ee_others env s db)"
proof -
  have "update_status_if_matches (sw_id s) InvoiceFailedToPay (Some reason) condition (ee_others env s db)
    = (ee_others env s db, 0)"
    using assms(3) by (auto simp: update_status_if_matches_def filter_empty_conv intro!: map_idI)
  with assms(1,2) show ?thesis by (simp add: Let_def)
qed

lemma races_lost:
  assumes "expire_loop env condition decide reason ss db = (db', sent, r)"
    and "\<And>s db t. t \<in> set (ee_others env s db) \<Longrightarrow> sw_id t = sw_id s \<Longrightarrow> \<not> condition t"
  shows "sent = [] \<and> (r = Ok () \<longrightarrow> db' = fold (ee_others env) (filter (\<lambda>s. decide s = Ok True) ss) db)"
  using assms(1)
proof (induction ss arbitrary: db)
  case (Cons s ss)
  show ?case
  proof (cases "decide s = Ok True \<and> ee_update_ok env s")
    case True
    then have "expire_loop env condition decide reason ss (ee_others env s db) = (db', sent, r)"
      using Cons.prems race_lost [of s env db ss] assms(2) by simp
    from Cons.IH [OF this] True show ?thesis by simp
  next
    case False
    then show ?thesis using Cons by (cases "decide s") (auto simp: Let_def)
  qed
qed simp

text \<open>With nobody else writing, exactly the expired rows are failed.\<close>

lemma fail_id [simp]: "sw_id (fail s) = sw_id s"
  by (simp add: update_row_def)

lemma update_one:
  assumes "distinct (map sw_id db)" and "s \<in> set db" and "condition s"
  shows "update_status_if_matches (sw_id s) InvoiceFailedToPay (Some reason) condition db
    = (map (\<lambda>t. if t = s then fail t else t) db, length (filter (\<lambda>t. t = s) db))"
proof -
  have "sw_id t = sw_id s \<and> condition t \<longleftrightarrow> t = s" if "t \<in> set db" for t
    using that assms by (auto dest: inj_onD simp: distinct_map)
  then show ?thesis by (auto simp: update_status_if_matches_def intro!: arg_cong [where f = length] filter_cong)
qed

lemma loop_exact:
  assumes "distinct (map sw_id db)" and "distinct ss" and "set ss \<subseteq> set db"
    and "\<And>s. s \<in> set ss \<Longrightarrow> condition s \<and> decide s = Ok (expired s)"
    and "ee_receivers env \<noteq> 0" and "\<And>s. ee_update_ok env s" and "\<And>s. ee_others env s = id"
  shows "expire_loop env condition decide reason ss db
    = (map (\<lambda>t. if t \<in> set ss \<and> expired t then fail t else t) db,
       map (failed_status reason \<circ> sw_id) (filter expired ss), Ok ())"
  using assms(1-4)
proof (induction ss arbitrary: db)
  case (Cons s ss)
  show ?case
  proof (cases "expired s")
    case False
    then have "(if t \<in> set (s # ss) \<and> expired t then fail t else t) = (if t \<in> set ss \<and> expired t then fail t else t)"
      for t by auto
    with False Cons.IH [of db] Cons.prems show ?thesis by simp
  next
    case True
    let ?db = "map (\<lambda>t. if t = s then fail t else t) db"
    have s: "s \<in> set db" "condition s" "decide s = Ok True" using Cons.prems(3,4) True by auto
    have pos: "length (filter (\<lambda>t. t = s) db) \<noteq> 0" using s(1) by (auto simp: filter_empty_conv)
    have "map sw_id ?db = map sw_id db" by simp
    then have "distinct (map sw_id ?db)" using Cons.prems(1) by (simp only:)
    moreover have "set ss \<subseteq> set ?db" using Cons.prems(2,3) by auto
    ultimately have rest: "expire_loop env condition decide reason ss ?db
      = (map (\<lambda>t. if t \<in> set ss \<and> expired t then fail t else t) ?db,
         map (failed_status reason \<circ> sw_id) (filter expired ss), Ok ())"
      using Cons.prems(2,4) by (intro Cons.IH) auto
    have "fail s \<notin> set ss" using failed_done Cons.prems(4) by auto
    then have rows: "map (\<lambda>t. if t \<in> set ss \<and> expired t then fail t else t) ?db
      = map (\<lambda>t. if t \<in> set (s # ss) \<and> expired t then fail t else t) db"
      using True by auto
    have step: "expire_loop env condition decide reason (s # ss) db
      = (case expire_loop env condition decide reason ss ?db of
           (db', sent, r) \<Rightarrow> (db', failed_status reason (sw_id s) # sent, r))"
      unfolding expire_loop.simps s(3) assms(7) id_apply Let_def update_one [OF Cons.prems(1) s(1,2)]
      using assms(5,6) pos by simp
    show ?thesis unfolding step rest prod.case rows using True by simp
  qed
qed simp

lemma check_exact:
  assumes "distinct (map sw_id db)" and "\<And>s. s \<in> set db \<Longrightarrow> condition s \<Longrightarrow> decide s = Ok (expired s)"
    and "ee_receivers env \<noteq> 0" and "ee_query_ok env" and "\<And>s. ee_update_ok env s" and "\<And>s. ee_others env s = id"
  shows "expire_check env condition decide reason db
    = (map (\<lambda>s. if condition s \<and> expired s then fail s else s) db,
       map (failed_status reason \<circ> sw_id) (filter (\<lambda>s. condition s \<and> expired s) db), Ok ())"
proof -
  have "distinct (filter condition db)" using assms(1) by (simp add: distinct_map)
  then have loop: "expire_loop env condition decide reason (filter condition db) db
    = (map (\<lambda>t. if t \<in> set (filter condition db) \<and> expired t then fail t else t) db,
       map (failed_status reason \<circ> sw_id) (filter expired (filter condition db)), Ok ())"
    by (intro loop_exact) (use assms in auto)
  have rows: "map (\<lambda>t. if t \<in> set (filter condition db) \<and> expired t then fail t else t) db
    = map (\<lambda>s. if condition s \<and> expired s then fail s else s) db"
    by (rule map_cong) auto
  have check: "expire_check env condition decide reason db
    = expire_loop env condition decide reason (filter condition db) db"
    using assms(4) by (simp add: expire_check_def)
  show ?thesis unfolding check loop rows filter_filter by simp
qed

text \<open>A check right after a check finds nothing to do.\<close>

lemma check_again:
  assumes "distinct (map sw_id db)" and "\<And>s. s \<in> set db \<Longrightarrow> condition s \<Longrightarrow> decide s = Ok (expired s)"
    and "ee_receivers env \<noteq> 0" and "ee_query_ok env" and "\<And>s. ee_update_ok env s" and "\<And>s. ee_others env s = id"
    and "db' = map (\<lambda>s. if condition s \<and> expired s then fail s else s) db"
  shows "expire_check env condition decide reason db' = (db', [], Ok ())"
proof -
  have rows: "s \<in> set db \<and> \<not> expired s" if "s \<in> set db'" "condition s" for s
    using that failed_done unfolding assms(7) by (auto split: if_splits)
  have "map sw_id db' = map sw_id db" unfolding assms(7) by simp
  then have "distinct (map sw_id db')" using assms(1) by (simp only:)
  then have check: "expire_check env condition decide reason db'
    = (map (\<lambda>s. if condition s \<and> expired s then fail s else s) db',
       map (failed_status reason \<circ> sw_id) (filter (\<lambda>s. condition s \<and> expired s) db'), Ok ())"
    using assms(2-6) rows by (intro check_exact) auto
  have "map (\<lambda>s. if condition s \<and> expired s then fail s else s) db' = db'"
    using rows by (auto intro!: map_idI)
  moreover have "filter (\<lambda>s. condition s \<and> expired s) db' = []" using rows by (auto simp: filter_empty_conv)
  ultimately show ?thesis using check by simp
qed

lemma undisturbed_check:
  assumes "undisturbed env" and "distinct (map sw_id db)" and "\<And>s. s \<in> set db \<Longrightarrow> is_ok (decide s)"
  shows "expire_check env condition decide reason db
      = (map (\<lambda>s. if condition s \<and> decide s = Ok True then fail s else s) db,
         map (failed_status reason \<circ> sw_id) (filter (\<lambda>s. condition s \<and> decide s = Ok True) db), Ok ())
    \<and> (let db' = fst (expire_check env condition decide reason db)
       in expire_check env condition decide reason db' = (db', [], Ok ()))"
proof -
  have ok: "decide s = Ok (decide s = Ok True)" if "s \<in> set db" "condition s" for s
    using assms(3) [OF that(1)] by (cases "decide s") auto
  have first: "expire_check env condition decide reason db
      = (map (\<lambda>s. if condition s \<and> decide s = Ok True then fail s else s) db,
         map (failed_status reason \<circ> sw_id) (filter (\<lambda>s. condition s \<and> decide s = Ok True) db), Ok ())"
    by (rule check_exact [OF assms(2) ok]) (use assms(1) in \<open>simp_all add: undisturbed_def\<close>)
  have "expire_check env condition decide reason db' = (db', [], Ok ())"
    if "db' = map (\<lambda>s. if condition s \<and> decide s = Ok True then fail s else s) db" for db'
    by (rule check_again [OF assms(2) ok _ _ _ _ that]) (use assms(1) in \<open>simp_all add: undisturbed_def\<close>)
  with first show ?thesis by (simp add: Let_def)
qed

lemma overtaken_check:
  assumes "overtaken env condition" and "expire_check env condition decide reason db = (db', sent, r)"
  shows "sent = [] \<and> (r = Ok () \<longrightarrow> db' = fold (ee_others env) (filter (\<lambda>s. condition s \<and> decide s = Ok True) db) db)"
proof (cases "ee_query_ok env")
  case True
  then have "expire_loop env condition decide reason (filter condition db) db = (db', sent, r)"
    using assms(2) by (simp add: expire_check_def)
  from races_lost [OF this] assms(1) show ?thesis unfolding overtaken_def filter_filter by blast
next
  case False
  then show ?thesis using assms(2) by (auto simp: expire_check_def)
qed

end

interpretation custom_expiry: expiration_checker custom_expirable_swaps_condition
  "custom_expired from_value referrals now" FAILURE_REASON_CUSTOM_EXPIRATION for from_value referrals now
  by unfold_locales (simp add: custom_expirable_swaps_condition_def update_row_def serialize_swap_updates_def)

interpretation invoice_expiry: expiration_checker expirable_invoice_swaps_condition
  "invoice_expired lib currencies" FAILURE_REASON_EXPIRED_INVOICE for lib currencies
  by unfold_locales (simp add: expirable_invoice_swaps_condition_def update_row_def serialize_swap_updates_def)

text \<open>A swap that is in a state that may expire and has expired, and the row it becomes.\<close>

definition custom_due :: "(string \<Rightarrow> referral_config option) \<Rightarrow> referral list \<Rightarrow> int \<Rightarrow> swap \<Rightarrow> bool" where
  "custom_due from_value referrals now s \<longleftrightarrow> custom_expirable_swaps_condition s
     \<and> custom_expired from_value (get_referrals referrals) now s = Ok True"

definition invoice_due :: "invoice_lib \<Rightarrow> (string \<rightharpoonup> network) \<Rightarrow> swap \<Rightarrow> bool" where
  "invoice_due lib currencies s \<longleftrightarrow> expirable_invoice_swaps_condition s \<and> invoice_expired lib currencies s = Ok True"

definition fail_swap :: "string \<Rightarrow> swap \<Rightarrow> swap" where
  "fail_swap reason s = s\<lparr>sw_status := ''invoice.failedToPay'', sw_failure_reason := Some reason\<rparr>"

lemma fail_swap_row: "fail_swap reason s = update_row InvoiceFailedToPay (Some reason) s"
  by (simp add: fail_swap_def update_row_def)

text \<open>
  C21: The two expiration checks fail exactly the swaps that have expired. When nothing disturbs a
  check, the rows that are in a state that may expire and have expired become failed, with the
  reason, and are announced in order; all other rows stay as they are, and the same check right
  afterwards changes and announces nothing. When other writers have moved the rows on before the
  check updates them, it announces nothing and leaves the table as the others left it.
\<close>

theorem expirations_exact:
  assumes "distinct (map sw_id db)" and "undisturbed env"
    and "\<And>s. s \<in> set db \<Longrightarrow> is_ok (custom_expired from_value (get_referrals referrals) now s)"
    and "\<And>s. s \<in> set db \<Longrightarrow> is_ok (invoice_expired lib currencies s)"
    and "overtaken env' custom_expirable_swaps_condition"
    and "custom_check env' from_value referrals now db = (db1, sent1, r1)"
    and "overtaken env' expirable_invoice_swaps_condition"
    and "invoice_check env' lib currencies db = (db2, sent2, r2)"
  shows "custom_check env from_value referrals now db
      = (map (\<lambda>s. if custom_due from_value referrals now s then fail_swap ''swap expired'' s else s) db,
         map (failed_status ''swap expired'' \<circ> sw_id) (filter (custom_due from_value referrals now) db), Ok ())
    \<and> (let db' = fst (custom_check env from_value referrals now db)
       in custom_check env from_value referrals now db' = (db', [], Ok ()))
    \<and> invoice_check env lib currencies db
      = (map (\<lambda>s. if invoice_due lib currencies s then fail_swap ''invoice expired'' s else s) db,
         map (failed_status ''invoice expired'' \<circ> sw_id) (filter (invoice_due lib currencies) db), Ok ())
    \<and> (let db' = fst (invoice_check env lib currencies db)
       in invoice_check env lib currencies db' = (db', [], Ok ()))
    \<and> sent1 = [] \<and> (r1 = Ok () \<longrightarrow> db1 = fold (ee_others env') (filter (custom_due from_value referrals now) db) db)
    \<and> sent2 = [] \<and> (r2 = Ok () \<longrightarrow> db2 = fold (ee_others env') (filter (invoice_due lib currencies) db) db)"
proof -
  note unfolds = custom_check_def invoice_check_def FAILURE_REASON_CUSTOM_EXPIRATION_def
    FAILURE_REASON_EXPIRED_INVOICE_def fail_swap_row custom_due_def [abs_def] invoice_due_def [abs_def]
  note custom = custom_expiry.undisturbed_check [OF assms(2,1,3)]
  note invoice = invoice_expiry.undisturbed_check [OF assms(2,1,4)]
  note lost = custom_expiry.overtaken_check [OF assms(5) assms(6) [unfolded custom_check_def]]
    invoice_expiry.overtaken_check [OF assms(7) assms(8) [unfolded invoice_check_def]]
  show ?thesis
    unfolding unfolds
    using custom [unfolded unfolds] invoice [unfolded unfolds] lost [unfolded unfolds] by blast
qed

text \<open>Two swaps of a referral that lets them expire after ten seconds, one of them a minute old.\<close>

definition example_old :: swap where
  "example_old = example_swap\<lparr>sw_id := ''old'', sw_referral := Some ''r''\<rparr>"

definition example_young :: swap where
  "example_young = example_swap\<lparr>sw_id := ''young'', sw_referral := Some ''r'', sw_created_at := 55000000\<rparr>"

definition example_referral_config :: referral_config where
  "example_referral_config = \<lparr>rc_base = \<lparr>pc_expirations = Some [''0'' \<mapsto> 10]\<rparr>, rc_pairs = None\<rparr>"

definition example_quiet :: expiration_env where
  "example_quiet = \<lparr>ee_receivers = 1, ee_query_ok = True, ee_update_ok = (\<lambda>_. True), ee_others = (\<lambda>_. id)\<rparr>"

definition example_paid :: expiration_env where
  "example_paid = example_quiet\<lparr>ee_others := \<lambda>_. map (\<lambda>t. t\<lparr>sw_status := ''invoice.paid''\<rparr>)\<rparr>"

abbreviation example_referrals :: "referral list" where
  "example_referrals \<equiv> [\<lparr>ref_id = ''r'', ref_config = Some ''json''\<rparr>]"

lemma example_custom_expired:
  "custom_expired (\<lambda>_. Some example_referral_config) (get_referrals example_referrals) 60000000 example_old = Ok True"
  "custom_expired (\<lambda>_. Some example_referral_config) (get_referrals example_referrals) 60000000 example_young = Ok False"
  by (simp_all add: custom_expired_def get_referrals_def example_old_def example_young_def example_swap_def
      custom_expiration_secs_def parse_config_def for_pair_def get_expiration_def example_referral_config_def
      num_seconds_def)

theorem expirations_exact_witness:
  "custom_check example_quiet (\<lambda>_. Some example_referral_config) example_referrals 60000000 [example_old, example_young]
     = ([fail_swap ''swap expired'' example_old, example_young], [failed_status ''swap expired'' ''old''], Ok ())
   \<and> fst (snd (custom_check example_paid (\<lambda>_. Some example_referral_config) example_referrals 60000000
       [example_old, example_young])) = []"
proof -
  let ?db = "[example_old, example_young]"
  let ?from = "\<lambda>_. Some example_referral_config"
  obtain db1 sent1 r1 where c: "custom_check example_paid ?from example_referrals 60000000 ?db = (db1, sent1, r1)"
    by (meson prod_cases3)
  obtain db2 sent2 r2 where i: "invoice_check example_paid example_invoice_lib Map.empty ?db = (db2, sent2, r2)"
    by (meson prod_cases3)
  have "overtaken example_paid custom_expirable_swaps_condition"
    "overtaken example_paid expirable_invoice_swaps_condition"
    by (auto simp: overtaken_def example_paid_def custom_expirable_swaps_condition_def
        expirable_invoice_swaps_condition_def serialize_swap_updates_def)
  moreover have "undisturbed example_quiet" by (simp add: undisturbed_def example_quiet_def)
  moreover have "distinct (map sw_id ?db)" by (simp add: example_old_def example_young_def)
  moreover have "is_ok (custom_expired ?from (get_referrals example_referrals) 60000000 s)" if "s \<in> set ?db" for s
    using that example_custom_expired by auto
  moreover have "is_ok (invoice_expired example_invoice_lib Map.empty s)" if "s \<in> set ?db" for s
    using that by (auto simp: invoice_expired_def example_old_def example_young_def example_swap_def)
  ultimately have facts: "custom_check example_quiet ?from example_referrals 60000000 ?db
      = (map (\<lambda>s. if custom_due ?from example_referrals 60000000 s then fail_swap ''swap expired'' s else s) ?db,
         map (failed_status ''swap expired'' \<circ> sw_id) (filter (custom_due ?from example_referrals 60000000) ?db), Ok ())"
    "sent1 = []"
    using expirations_exact [of ?db example_quiet ?from example_referrals 60000000 example_invoice_lib Map.empty example_paid,
        OF _ _ _ _ _ c _ i] by blast+
  have "custom_due ?from example_referrals 60000000 example_old" "\<not> custom_due ?from example_referrals 60000000 example_young"
    using example_custom_expired
    by (simp_all add: custom_due_def custom_expirable_swaps_condition_def serialize_swap_updates_def
        example_old_def example_young_def example_swap_def)
  with facts c show ?thesis by (simp add: example_old_def)
qed

end
