(* ===== verification/Pubkey_Iterator.thy ===== *)
theory Pubkey_Iterator
  imports Boltz_Prelude
begin

text \<open>
  The sources of public keys that swaps are recovered from,
  \<open>src/boltzr/src/service/pubkey_iterator.rs\<close>, and the requests they are made from,
  \<open>src/boltzr/src/api/rescue.rs\<close>. The trait object is a datatype with its three implementations; keys
  are their hexadecimal strings. Derivation from an extended key is a function of the index that may
  fail, as it does for hardened indices.
\<close>

definition MAX_GAP_LIMIT :: u32 where
  "MAX_GAP_LIMIT = 150"

definition MAX_PAGINATION_LIMIT :: u32 where
  "MAX_PAGINATION_LIMIT = 1000"

definition DEFAULT_GAP_LIMIT :: u32 where
  "DEFAULT_GAP_LIMIT = 50"

definition DEFAULT_DERIVATION_PATH :: string where
  "DEFAULT_DERIVATION_PATH = ''m/44/0/0/0''"

datatype iterator_error =
    PaginationOverflow | EndBeforeStart u32 u32 | DerivationFailed u32 | InvalidDerivationPath string

record pagination =
  pg_start_index :: u32
  pg_limit :: u32

definition pagination_end :: "pagination \<Rightarrow> (iterator_error, u32) result" where
  "pagination_end p =
     (if unat (pg_start_index p) + unat (pg_limit p) < 2 ^ 32 then Ok (pg_start_index p + pg_limit p)
      else Err PaginationOverflow)"

definition saturating_add :: "u32 \<Rightarrow> u32 \<Rightarrow> u32" where
  "saturating_add a b = (if unat a + unat b < 2 ^ 32 then a + b else - 1)"

definition buffered_end :: "u32 \<Rightarrow> u32 \<Rightarrow> (iterator_error, u32) result" where
  "buffered_end start to =
     (if start \<le> to then Ok (saturating_add to (to - start)) else Err (EndBeforeStart to start))"

text \<open>\<open>xk_derive path i\<close> is the key at index \<open>i\<close> below the path.\<close>

record xpub_iterator =
  xk_derive :: "u32 \<Rightarrow> (iterator_error, string) result"
  xk_gap_limit :: u32
  xk_pagination :: "pagination option"

datatype pubkey_iterator =
    XpubIterator xpub_iterator | KeyVecIterator "string list" | SingleKeyIterator string

text \<open>\<open>at_path\<close> gives the derivation below a path, if the path parses.\<close>

definition xpub_iterator_new ::
  "(string \<Rightarrow> (u32 \<Rightarrow> (iterator_error, string) result) option) \<Rightarrow> string option \<Rightarrow> u32 option
    \<Rightarrow> (iterator_error, xpub_iterator) result" where
  "xpub_iterator_new at_path derivation_path gap_limit =
     (let path = (case derivation_path of Some p \<Rightarrow> p | None \<Rightarrow> DEFAULT_DERIVATION_PATH) in
      r_bind (ok_or (InvalidDerivationPath path) (at_path path)) (\<lambda>derive.
        Ok \<lparr>xk_derive = derive,
            xk_gap_limit = (case gap_limit of Some g \<Rightarrow> g | None \<Rightarrow> DEFAULT_GAP_LIMIT),
            xk_pagination = None\<rparr>))"

definition with_pagination :: "pagination option \<Rightarrow> xpub_iterator \<Rightarrow> xpub_iterator" where
  "with_pagination p it = it\<lparr>xk_pagination := p\<rparr>"

fun it_max_keys :: "pubkey_iterator \<Rightarrow> u32" where
  "it_max_keys (XpubIterator _) = - 1"
| "it_max_keys (KeyVecIterator keys) = word_of_nat (length keys)"
| "it_max_keys (SingleKeyIterator _) = 1"

fun it_gap_limit :: "pubkey_iterator \<Rightarrow> u32" where
  "it_gap_limit (XpubIterator x) = xk_gap_limit x"
| "it_gap_limit it = it_max_keys it"

fun it_pagination :: "pubkey_iterator \<Rightarrow> pagination option" where
  "it_pagination (XpubIterator x) = xk_pagination x"
| "it_pagination _ = None"

type_synonym keys_map = "string \<rightharpoonup> u32"

text \<open>The range \<open>start..end\<close> of \<open>u32\<close>.\<close>

definition u32_range :: "u32 \<Rightarrow> u32 \<Rightarrow> u32 list" where
  "u32_range start to = map word_of_nat [unat start..<unat to]"

text \<open>One iteration of the loops: the key is remembered, and returned when it is in the range.\<close>

definition push_key :: "u32 \<Rightarrow> u32 \<Rightarrow> string \<Rightarrow> keys_map \<times> string list \<Rightarrow> keys_map \<times> string list" where
  "push_key to i key = (\<lambda>(m, ks). (m(key \<mapsto> i), if i < to then ks @ [key] else ks))"

definition xpub_derive_keys ::
  "xpub_iterator \<Rightarrow> keys_map \<Rightarrow> u32 \<Rightarrow> u32 \<Rightarrow> (iterator_error, keys_map \<times> string list) result" where
  "xpub_derive_keys x m start to =
     r_bind (buffered_end start to) (\<lambda>bend.
       r_fold (\<lambda>i st. r_map (\<lambda>key. push_key to i key st) (xk_derive x i)) (u32_range start bend) (m, []))"

definition key_vec_derive_keys ::
  "string list \<Rightarrow> keys_map \<Rightarrow> u32 \<Rightarrow> u32 \<Rightarrow> (iterator_error, keys_map \<times> string list) result" where
  "key_vec_derive_keys keys m start to =
     (if start \<ge> word_of_nat (length keys) then Ok (m, [])
      else r_bind (buffered_end start to) (\<lambda>bend.
        let actual_end = min (unat bend) (length keys) in
        if unat start > actual_end then Panic
        else Ok (fold (\<lambda>(i, key). push_key to (start + word_of_nat i) key)
                   (enumerate 0 (drop (unat start) (take actual_end keys))) (m, []))))"

fun derive_keys ::
  "pubkey_iterator \<Rightarrow> keys_map \<Rightarrow> u32 \<Rightarrow> u32 \<Rightarrow> (iterator_error, keys_map \<times> string list) result" where
  "derive_keys (XpubIterator x) m start to = xpub_derive_keys x m start to"
| "derive_keys (KeyVecIterator keys) m start to = key_vec_derive_keys keys m start to"
| "derive_keys (SingleKeyIterator key) m start to = Ok (m(key \<mapsto> 0), [key])"

subsection \<open>Requests\<close>

datatype rescue_params =
    RescueXpub "string option" "u32 option" "pagination option"
  | RescuePublicKey string
  | RescuePublicKeyVec "string list"
  | RescueAddress string u64 string

datatype rescue_request_error =
    GapLimitZero | GapLimitTooBig | LimitZero | LimitTooBig | RequestIterator iterator_error
  | AddressOnlyRestore | TimestampWindow | SignatureInvalid | SignatureMismatch

definition iterator_of_params ::
  "(string \<Rightarrow> (u32 \<Rightarrow> (iterator_error, string) result) option) \<Rightarrow> rescue_params
    \<Rightarrow> (rescue_request_error, pubkey_iterator) result" where
  "iterator_of_params at_path params =
     (case params of
        RescueXpub derivation_path gap_limit pagination \<Rightarrow>
          if gap_limit = Some 0 then Err GapLimitZero
          else if (case gap_limit of Some limit \<Rightarrow> limit > MAX_GAP_LIMIT | None \<Rightarrow> False) then Err GapLimitTooBig
          else if (case pagination of Some p \<Rightarrow> pg_limit p = 0 | None \<Rightarrow> False) then Err LimitZero
          else if (case pagination of Some p \<Rightarrow> pg_limit p > MAX_PAGINATION_LIMIT | None \<Rightarrow> False) then Err LimitTooBig
          else r_bind (r_map_err RequestIterator (xpub_iterator_new at_path derivation_path gap_limit)) (\<lambda>x.
            Ok (XpubIterator (with_pagination pagination x)))
      | RescuePublicKey key \<Rightarrow> Ok (SingleKeyIterator key)
      | RescuePublicKeyVec keys \<Rightarrow> Ok (KeyVecIterator keys)
      | RescueAddress _ _ _ \<Rightarrow> Err AddressOnlyRestore)"

definition RESTORE_SIGNATURE_VALIDITY_SECS :: u64 where
  "RESTORE_SIGNATURE_VALIDITY_SECS = 60"

text \<open>\<open>recover\<close> gives the signer of the proof message of an address and a time stamp.\<close>

definition verify_restore_signature ::
  "(string \<Rightarrow> u64 \<Rightarrow> string \<Rightarrow> string option) \<Rightarrow> int \<Rightarrow> string \<Rightarrow> u64 \<Rightarrow> string \<Rightarrow> (rescue_request_error, unit) result" where
  "verify_restore_signature recover now address timestamp signature =
     (if unat timestamp \<ge> 2 ^ 63 then Err TimestampWindow
      else if \<bar>now - int (unat timestamp)\<bar> > int (unat RESTORE_SIGNATURE_VALIDITY_SECS) then Err TimestampWindow
      else r_bind (ok_or SignatureInvalid (recover address timestamp signature)) (\<lambda>recovered.
        if recovered \<noteq> address then Err SignatureMismatch else Ok ()))"

datatype restore_query = QueryKeys pubkey_iterator | QueryAddress string

definition restore_query_of_params ::
  "(string \<Rightarrow> (u32 \<Rightarrow> (iterator_error, string) result) option) \<Rightarrow> (string \<Rightarrow> u64 \<Rightarrow> string \<Rightarrow> string option) \<Rightarrow> int
    \<Rightarrow> rescue_params \<Rightarrow> (rescue_request_error, restore_query) result" where
  "restore_query_of_params at_path recover now params =
     (case params of
        RescueAddress address timestamp signature \<Rightarrow>
          r_bind (verify_restore_signature recover now address timestamp signature) (\<lambda>_. Ok (QueryAddress address))
      | _ \<Rightarrow> r_map QueryKeys (iterator_of_params at_path params))"

subsection \<open>The contract of a source of keys\<close>

text \<open>
  The keys of a range are those at its indices, in order; they are remembered beside what was
  remembered before, and with every key that is remembered goes an index it is found at.
\<close>

locale key_source =
  fixes derive :: "keys_map \<Rightarrow> u32 \<Rightarrow> u32 \<Rightarrow> (iterator_error, keys_map \<times> string list) result"
    and max_keys :: u32
    and key_at :: "nat \<Rightarrow> string"
  assumes derived: "start < to \<Longrightarrow> to \<le> max_keys \<Longrightarrow> derive m start to = Ok (m', ks)
    \<Longrightarrow> ks = map key_at [unat start..<unat to] \<and> dom m \<union> set ks \<subseteq> dom m'
      \<and> (\<forall>k i. m' k = Some i \<longrightarrow> m k = Some i \<or> k = key_at (unat i))"

definition index_pairs :: "(nat \<Rightarrow> string) \<Rightarrow> nat \<Rightarrow> nat \<Rightarrow> (u32 \<times> string) list" where
  "index_pairs key_at s e = map (\<lambda>n. (word_of_nat n, key_at n)) [s..<e]"

lemma fold_push_key:
  assumes "fold (\<lambda>(i, k). push_key to i k) ps (m, ks) = (m', ks')"
  shows "ks' = ks @ map snd (filter (\<lambda>(i, k). i < to) ps) \<and> dom m' = dom m \<union> snd ` set ps
    \<and> (\<forall>k i. m' k = Some i \<longrightarrow> m k = Some i \<or> (i, k) \<in> set ps)"
  using assms
proof (induction ps arbitrary: m ks)
  case (Cons p ps)
  obtain i k where p: "p = (i, k)" by force
  have "fold (\<lambda>(i, k). push_key to i k) ps (m(k \<mapsto> i), if i < to then ks @ [k] else ks) = (m', ks')"
    using Cons.prems by (simp add: p push_key_def)
  from Cons.IH [OF this] show ?case by (auto simp: p split: if_splits)
qed simp

lemma filter_index_pairs:
  assumes "s \<le> unat (to :: u32)" and "unat to \<le> e" and "e < 2 ^ 32"
  shows "filter (\<lambda>(i, k). i < to) (index_pairs key_at s e) = index_pairs key_at s (unat to)"
proof -
  obtain d where "e = unat to + d" using assms(2) le_Suc_ex by blast
  then have "index_pairs key_at s e = index_pairs key_at s (unat to) @ index_pairs key_at (unat to) e"
    unfolding index_pairs_def by (simp only: upt_add_eq_append [OF assms(1)] map_append)
  moreover have "(word_of_nat n :: u32) < to \<longleftrightarrow> n < unat to" if "n < e" for n
    using that assms(3) by (simp add: word_less_nat_alt unat_of_nat_u32)
  then have "filter (\<lambda>(i, k). i < to) (index_pairs key_at (unat to) e) = []"
    "filter (\<lambda>(i, k). i < to) (index_pairs key_at s (unat to)) = index_pairs key_at s (unat to)"
    using assms(2) by (auto simp: index_pairs_def filter_empty_conv filter_id_conv)
  ultimately show ?thesis by simp
qed

lemma fold_index_pairs:
  assumes "fold (\<lambda>(i, k). push_key to i k) (index_pairs key_at (unat start) e) (m, []) = (m', ks)"
    and "start < to" and "unat to \<le> e" and "e < 2 ^ 32"
  shows "ks = map key_at [unat start..<unat to] \<and> dom m \<union> set ks \<subseteq> dom m'
    \<and> (\<forall>k i. m' k = Some i \<longrightarrow> m k = Some i \<or> k = key_at (unat i))"
proof -
  have "unat start \<le> unat to" using assms(2) by (simp add: word_less_nat_alt)
  from filter_index_pairs [OF this assms(3,4)] fold_push_key [OF assms(1)]
  have ks: "ks = map snd (index_pairs key_at (unat start) (unat to))"
    and m: "dom m' = dom m \<union> snd ` set (index_pairs key_at (unat start) e)"
    "\<forall>k i. m' k = Some i \<longrightarrow> m k = Some i \<or> (i, k) \<in> set (index_pairs key_at (unat start) e)"
    by auto
  have "ks = map key_at [unat start..<unat to]" using ks by (simp add: index_pairs_def)
  moreover have "dom m \<union> set ks \<subseteq> dom m'"
    using m(1) assms(3) \<open>ks = map key_at _\<close> by (auto simp: index_pairs_def image_image)
  moreover have "k = key_at (unat i)" if "(i, k) \<in> set (index_pairs key_at (unat start) e)" for i k
    using that assms(4) by (auto simp: index_pairs_def unat_of_nat_u32)
  ultimately show ?thesis using m(2) by blast
qed

lemma buffered_end_Ok:
  "buffered_end start to = Ok bend \<Longrightarrow> start \<le> to \<and> to \<le> bend"
  using unat_add_u32 [of to "to - start"] word_order.extremum [of to]
  by (auto simp: buffered_end_def saturating_add_def word_le_nat_alt split: if_splits simp del: word_order.extremum)

subsubsection \<open>Extended keys\<close>

definition xpub_key_at :: "xpub_iterator \<Rightarrow> nat \<Rightarrow> string" where
  "xpub_key_at x n = (case xk_derive x (word_of_nat n) of Ok k \<Rightarrow> k | _ \<Rightarrow> [])"

lemma r_fold_push_key:
  assumes "r_fold (\<lambda>i st. r_map (\<lambda>key. push_key to i key st) (d i)) is st = Ok st'"
  shows "st' = fold (\<lambda>(i, k). push_key to i k) (map (\<lambda>i. (i, case d i of Ok k \<Rightarrow> k | _ \<Rightarrow> [])) is) st"
  using assms
proof (induction "is" arbitrary: st)
  case (Cons i "is")
  then obtain k where "d i = Ok k" "r_fold (\<lambda>i st. r_map (\<lambda>key. push_key to i key st) (d i)) is (push_key to i k st) = Ok st'"
    by auto
  with Cons.IH show ?case by simp
qed simp

interpretation xpub_keys: key_source "xpub_derive_keys x" "- 1" "xpub_key_at x" for x
proof
  fix start to m m' ks
  assume lt: "start < to" and "xpub_derive_keys x m start to = Ok (m', ks)"
  then obtain bend where bend: "to \<le> bend" and
    loop: "r_fold (\<lambda>i st. r_map (\<lambda>key. push_key to i key st) (xk_derive x i)) (u32_range start bend) (m, [])
      = Ok (m', ks)"
    by (auto simp: xpub_derive_keys_def dest: buffered_end_Ok)
  have "map (\<lambda>i. (i, case xk_derive x i of Ok k \<Rightarrow> k | _ \<Rightarrow> [])) (u32_range start bend)
    = index_pairs (xpub_key_at x) (unat start) (unat bend)"
    by (simp add: u32_range_def index_pairs_def xpub_key_at_def)
  with r_fold_push_key [OF loop] have
    "fold (\<lambda>(i, k). push_key to i k) (index_pairs (xpub_key_at x) (unat start) (unat bend)) (m, []) = (m', ks)"
    by simp
  moreover have "unat to \<le> unat bend" "unat bend < 2 ^ 32"
    using bend unsigned_less [of bend, where 'a = nat] by (simp_all add: word_le_nat_alt)
  ultimately show "ks = map (xpub_key_at x) [unat start..<unat to] \<and> dom m \<union> set ks \<subseteq> dom m'
    \<and> (\<forall>k i. m' k = Some i \<longrightarrow> m k = Some i \<or> k = xpub_key_at x (unat i))"
    using lt by (intro fold_index_pairs)
qed

subsubsection \<open>Lists of keys\<close>

lemma enumerate_index_pairs:
  assumes "unat start \<le> e" and "e \<le> length keys" and "e < 2 ^ 32"
  shows "map (\<lambda>(i, k). (start + word_of_nat i, k)) (enumerate 0 (drop (unat start) (take e keys)))
    = index_pairs ((!) keys) (unat start) e"
  using assms by (intro nth_equalityI) (auto simp: index_pairs_def nth_enumerate_eq of_nat_unat)

interpretation key_vec: key_source "key_vec_derive_keys keys" "word_of_nat (length keys)" "(!) keys" for keys
proof
  fix start to :: u32 and m m' ks
  assume lt: "start < to" and le: "to \<le> word_of_nat (length keys)"
    and derive: "key_vec_derive_keys keys m start to = Ok (m', ks)"
  have len: "unat (word_of_nat (length keys) :: u32) \<le> length keys" by (simp add: unat_of_nat)
  from lt le have "\<not> start \<ge> word_of_nat (length keys)" by simp
  with derive obtain bend where be: "buffered_end start to = Ok bend"
    and e: "\<not> unat start > min (unat bend) (length keys)" and fold: "fold (\<lambda>(i, key). push_key to (start + word_of_nat i) key)
      (enumerate 0 (drop (unat start) (take (min (unat bend) (length keys)) keys))) (m, []) = (m', ks)"
    by (auto simp: key_vec_derive_keys_def Let_def split: if_splits)
  have bend: "to \<le> bend" using buffered_end_Ok [OF be] ..
  have "unat start \<le> min (unat bend) (length keys)" using e by (simp only: not_less)
  let ?e = "min (unat bend) (length keys)"
  have e: "?e < 2 ^ 32" using unsigned_less [of bend, where 'a = nat] by simp
  have "fold (\<lambda>(i, k). push_key to i k) (index_pairs ((!) keys) (unat start) ?e) (m, []) = (m', ks)"
    using fold \<open>unat start \<le> ?e\<close> e
    by (simp add: fold_map comp_def case_prod_unfold flip: enumerate_index_pairs)
  moreover have "unat to \<le> ?e" using bend le len by (simp add: word_le_nat_alt)
  ultimately show "ks = map ((!) keys) [unat start..<unat to] \<and> dom m \<union> set ks \<subseteq> dom m'
    \<and> (\<forall>k i. m' k = Some i \<longrightarrow> m k = Some i \<or> k = keys ! unat i)"
    using lt e by (intro fold_index_pairs)
qed

interpretation single_key: key_source "derive_keys (SingleKeyIterator key)" 1 "\<lambda>_. key" for key
proof
  fix start to :: u32 and m m' ks
  assume "start < to" "to \<le> 1" "derive_keys (SingleKeyIterator key) m start to = Ok (m', ks)"
  moreover from this have "unat start = 0" "unat to = 1" by (auto simp: word_less_nat_alt word_le_nat_alt)
  ultimately show "ks = map (\<lambda>_. key) [unat start..<unat to] \<and> dom m \<union> set ks \<subseteq> dom m'
    \<and> (\<forall>k i. m' k = Some i \<longrightarrow> m k = Some i \<or> k = key)"
    by auto
qed

subsubsection \<open>All iterators\<close>

fun it_key_at :: "pubkey_iterator \<Rightarrow> nat \<Rightarrow> string" where
  "it_key_at (XpubIterator x) n = xpub_key_at x n"
| "it_key_at (KeyVecIterator keys) n = keys ! n"
| "it_key_at (SingleKeyIterator key) n = key"

interpretation iterator_keys: key_source "derive_keys it" "it_max_keys it" "it_key_at it" for it
proof
  fix start to m m' ks
  assume "start < to" "to \<le> it_max_keys it" "derive_keys it m start to = Ok (m', ks)"
  then show "ks = map (it_key_at it) [unat start..<unat to] \<and> dom m \<union> set ks \<subseteq> dom m'
    \<and> (\<forall>k i. m' k = Some i \<longrightarrow> m k = Some i \<or> k = it_key_at it (unat i))"
    using xpub_keys.derived [of start to _ m m' ks] key_vec.derived [of start to _ m m' ks]
      single_key.derived [of start to _ m m' ks]
    by (cases it) (simp_all add: it_key_at.simps [abs_def])
qed

end
