(* ===== verification/Swap_Rescue.thy ===== *)
theory Swap_Rescue
  imports Swap_Details Pubkey_Iterator "HOL-Library.Char_ord"
begin

text \<open>
  Recovery of swaps from the keys of a user, \<open>src/boltzr/src/service/rescue.rs\<close>. The tables are lists
  of rows; wallets, the JSON of trees and hex are the record \<open>rescue_lib\<close>. Swaps that were found are
  collected in a hash map, whose values come out in the order an argument says. Times of creation
  are microseconds, as in \<open>Swap_Expiration\<close>.
\<close>

record tree_leaf =
  tl_version :: u64
  tl_output :: string

record rescue_tree =
  ot_claim_leaf :: tree_leaf
  ot_refund_leaf :: tree_leaf
  ot_covenant_claim_leaf :: "tree_leaf option"
  ot_refund_without_boltz_leaf :: "tree_leaf option"
  ot_unilateral_claim_leaf :: "tree_leaf option"
  ot_unilateral_refund_leaf :: "tree_leaf option"
  ot_unilateral_refund_without_boltz_leaf :: "tree_leaf option"

record rescue_transaction =
  xt_id :: string
  xt_vout :: u64

datatype rescue_error =
    NoSwapTree string | InvalidSwapTree | RescuePair pair_error | NoCurrency string | NoWallet string
  | NoKeyIndex string | NoPublicKey string | NoKeyMapping string | NoClaimAddress string
  | DerivePubkey | DecodeAddress | BlindingKeyFailed string | RescueIterator iterator_error
  | RescueDb | RescueCache

record rescue_wallet =
  rw_derive_pubkey :: "u64 \<Rightarrow> string option"
  rw_decode_address :: "string \<Rightarrow> bytes option"
  rw_derive_blinding_key :: "bytes \<Rightarrow> string option"

record rescue_lib =
  rl_parse_tree :: "string \<Rightarrow> rescue_tree option"
  rl_currencies :: "string \<rightharpoonup> rescue_wallet option"
  rl_hex_encode :: "bytes \<Rightarrow> string"

record swap_details_base =
  ba_tree :: rescue_tree
  ba_amount :: "i64 option"
  ba_key_index :: u32
  ba_transaction :: "rescue_transaction option"
  ba_lockup_address :: string
  ba_server_public_key :: string
  ba_timeout_block_height :: u64
  ba_blinding_key :: "string option"

text \<open>\<open>vout as u64\<close> extends the sign.\<close>

definition rescue_transaction_of :: "string option \<Rightarrow> i32 option \<Rightarrow> rescue_transaction option" where
  "rescue_transaction_of tx_id tx_vout =
     (case (tx_id, tx_vout) of (Some i, Some v) \<Rightarrow> Some \<lparr>xt_id = i, xt_vout = scast v\<rparr> | _ \<Rightarrow> None)"

definition parse_swap_tree :: "rescue_lib \<Rightarrow> string \<Rightarrow> string option \<Rightarrow> (rescue_error, rescue_tree) result" where
  "parse_swap_tree lib i column =
     r_bind (ok_or (NoSwapTree i) column) (\<lambda>t. ok_or InvalidSwapTree (rl_parse_tree lib t))"

definition sw_details_base ::
  "rescue_lib \<Rightarrow> swap \<Rightarrow> u32 \<Rightarrow> string \<Rightarrow> string option \<Rightarrow> (rescue_error, swap_details_base) result" where
  "sw_details_base lib s index server_public_key blinding_key =
     r_bind (parse_swap_tree lib (sw_id s) (sw_redeem_script s)) (\<lambda>tree.
       Ok \<lparr>ba_tree = tree, ba_amount = sw_onchain_amount s, ba_key_index = index,
           ba_transaction = rescue_transaction_of (sw_lockup_transaction_id s) (sw_lockup_transaction_vout s),
           ba_lockup_address = sw_lockup_address s, ba_server_public_key = server_public_key,
           ba_timeout_block_height = scast (sw_timeout_block_height s), ba_blinding_key = blinding_key\<rparr>)"

definition rs_details_base ::
  "rescue_lib \<Rightarrow> reverse_swap \<Rightarrow> u32 \<Rightarrow> string \<Rightarrow> string option \<Rightarrow> (rescue_error, swap_details_base) result" where
  "rs_details_base lib s index server_public_key blinding_key =
     r_bind (parse_swap_tree lib (rs_id s) (rs_redeem_script s)) (\<lambda>tree.
       Ok \<lparr>ba_tree = tree, ba_amount = Some (rs_onchain_amount s), ba_key_index = index,
           ba_transaction = rescue_transaction_of (rs_transaction_id s) (rs_transaction_vout s),
           ba_lockup_address = rs_lockup_address s, ba_server_public_key = server_public_key,
           ba_timeout_block_height = scast (rs_timeout_block_height s), ba_blinding_key = blinding_key\<rparr>)"

definition cd_details_base ::
  "rescue_lib \<Rightarrow> chain_swap_data \<Rightarrow> u32 \<Rightarrow> string \<Rightarrow> string option \<Rightarrow> (rescue_error, swap_details_base) result" where
  "cd_details_base lib s index server_public_key blinding_key =
     r_bind (parse_swap_tree lib (cd_swap_id s) (cd_swap_tree s)) (\<lambda>tree.
       Ok \<lparr>ba_tree = tree, ba_amount = cd_amount s, ba_key_index = index,
           ba_transaction = rescue_transaction_of (cd_transaction_id s) (cd_transaction_vout s),
           ba_lockup_address = cd_lockup_address s, ba_server_public_key = server_public_key,
           ba_timeout_block_height = scast (cd_timeout_block_height s), ba_blinding_key = blinding_key\<rparr>)"

record swap_base =
  sb_id :: string
  sb_kind :: swap_type
  sb_status :: string
  sb_created_at :: u64

text \<open>\<open>timestamp() as u64\<close>: whole seconds, rounded down.\<close>

definition unix_secs :: "int \<Rightarrow> u64" where
  "unix_secs micros = word_of_int (micros div 1000000)"

definition sw_base :: "swap \<Rightarrow> swap_base" where
  "sw_base s = \<lparr>sb_id = sw_id s, sb_kind = Submarine, sb_status = sw_status s,
     sb_created_at = unix_secs (sw_created_at s)\<rparr>"

definition rs_base :: "reverse_swap \<Rightarrow> swap_base" where
  "rs_base s = \<lparr>sb_id = rs_id s, sb_kind = Reverse, sb_status = rs_status s,
     sb_created_at = unix_secs (rs_created_at s)\<rparr>"

definition ci_base :: "chain_swap_info \<Rightarrow> swap_base" where
  "ci_base c = \<lparr>sb_id = cs_id (ci_swap c), sb_kind = Chain, sb_status = cs_status (ci_swap c),
     sb_created_at = unix_secs (cs_created_at (ci_swap c))\<rparr>"

record rescuable_swap =
  ru_base :: swap_base
  ru_symbol :: string
  ru_details :: swap_details_base
  ru_preimage_hash :: string
  ru_invoice :: "string option"

definition rescuable_of_swap ::
  "rescue_lib \<Rightarrow> swap \<Rightarrow> u32 \<Rightarrow> string \<Rightarrow> string option \<Rightarrow> (rescue_error, rescuable_swap) result" where
  "rescuable_of_swap lib s index server_public_key blinding_key =
     r_bind (r_map_err RescuePair (sw_chain_symbol s)) (\<lambda>symbol.
     r_bind (sw_details_base lib s index server_public_key blinding_key) (\<lambda>details.
       Ok \<lparr>ru_base = sw_base s, ru_symbol = symbol, ru_details = details,
           ru_preimage_hash = sw_preimage_hash s, ru_invoice = sw_invoice s\<rparr>))"

definition rescuable_of_chain ::
  "rescue_lib \<Rightarrow> chain_swap_info \<Rightarrow> u32 \<Rightarrow> string \<Rightarrow> string option \<Rightarrow> (rescue_error, rescuable_swap) result" where
  "rescuable_of_chain lib c index server_public_key blinding_key =
     r_bind (cd_details_base lib (ci_receiving c) index server_public_key blinding_key) (\<lambda>details.
       Ok \<lparr>ru_base = ci_base c, ru_symbol = cd_symbol (ci_receiving c), ru_details = details,
           ru_preimage_hash = cs_preimage_hash (ci_swap c), ru_invoice = None\<rparr>)"

record utxo_claim_details =
  uc_base :: swap_details_base
  uc_preimage_hash :: string

record evm_details =
  ev_contract_address :: string
  ev_claim_address :: "string option"
  ev_transaction :: "string option"
  ev_amount :: "i64 option"
  ev_timeout_block_height :: u64

definition evm_from_chain_data :: "chain_swap_data \<Rightarrow> (rescue_error, evm_details) result" where
  "evm_from_chain_data d =
     r_bind (ok_or (NoClaimAddress (cd_swap_id d)) (cd_claim_address d)) (\<lambda>address.
       Ok \<lparr>ev_contract_address = cd_lockup_address d, ev_claim_address = Some address,
           ev_transaction = cd_transaction_id d, ev_amount = cd_amount d,
           ev_timeout_block_height = scast (cd_timeout_block_height d)\<rparr>)"

definition evm_from_reverse :: "reverse_swap \<Rightarrow> (rescue_error, evm_details) result" where
  "evm_from_reverse s =
     r_bind (ok_or (NoClaimAddress (rs_id s)) (rs_claim_address s)) (\<lambda>address.
       Ok \<lparr>ev_contract_address = rs_lockup_address s, ev_claim_address = Some address,
           ev_transaction = rs_transaction_id s, ev_amount = Some (rs_onchain_amount s),
           ev_timeout_block_height = scast (rs_timeout_block_height s)\<rparr>)"

definition evm_from_swap :: "swap \<Rightarrow> evm_details" where
  "evm_from_swap s =
     \<lparr>ev_contract_address = sw_lockup_address s, ev_claim_address = None,
      ev_transaction = sw_lockup_transaction_id s, ev_amount = sw_onchain_amount s,
      ev_timeout_block_height = scast (sw_timeout_block_height s)\<rparr>"

datatype restore_claim = ClaimUtxo utxo_claim_details | ClaimEvm evm_details

datatype restore_refund = RefundUtxo swap_details_base | RefundEvm evm_details

record restorable_swap =
  re_base :: swap_base
  re_from :: string
  re_to :: string
  re_preimage_hash :: string
  re_invoice :: "string option"
  re_claim_details :: "restore_claim option"
  re_refund_details :: "restore_refund option"
  re_metadata :: "string option"

definition restorable_of_swap ::
  "rescue_lib \<Rightarrow> swap \<Rightarrow> u32 \<Rightarrow> string \<Rightarrow> string option \<Rightarrow> (rescue_error, restorable_swap) result" where
  "restorable_of_swap lib s index server_public_key blinding_key =
     r_bind (r_map_err RescuePair (sw_chain_symbol s)) (\<lambda>from.
     r_bind (r_map_err RescuePair (sw_lightning_symbol s)) (\<lambda>to.
     r_bind (sw_details_base lib s index server_public_key blinding_key) (\<lambda>details.
       Ok \<lparr>re_base = sw_base s, re_from = from, re_to = to, re_preimage_hash = sw_preimage_hash s,
           re_invoice = sw_invoice s, re_claim_details = None, re_refund_details = Some (RefundUtxo details),
           re_metadata = None\<rparr>)))"

definition restorable_of_reverse ::
  "rescue_lib \<Rightarrow> reverse_swap \<Rightarrow> u32 \<Rightarrow> string \<Rightarrow> string option \<Rightarrow> (rescue_error, restorable_swap) result" where
  "restorable_of_reverse lib s index server_public_key blinding_key =
     r_bind (r_map_err RescuePair (rs_lightning_symbol s)) (\<lambda>from.
     r_bind (r_map_err RescuePair (rs_chain_symbol s)) (\<lambda>to.
     r_bind (rs_details_base lib s index server_public_key blinding_key) (\<lambda>details.
       Ok \<lparr>re_base = rs_base s, re_from = from, re_to = to, re_preimage_hash = rs_preimage_hash s,
           re_invoice = Some (rs_invoice s),
           re_claim_details = Some (ClaimUtxo \<lparr>uc_base = details, uc_preimage_hash = rs_preimage_hash s\<rparr>),
           re_refund_details = None, re_metadata = None\<rparr>)))"

subsection \<open>Keys and wallets\<close>

definition ARK_SYMBOL :: string where
  "ARK_SYMBOL = ''ARK''"

definition get_wallet :: "rescue_lib \<Rightarrow> string \<Rightarrow> (rescue_error, rescue_wallet) result" where
  "get_wallet lib symbol =
     r_bind (ok_or (NoCurrency symbol) (rl_currencies lib symbol)) (\<lambda>wallet. ok_or (NoWallet symbol) wallet)"

definition get_key_index :: "string \<Rightarrow> string \<Rightarrow> i32 option \<Rightarrow> (rescue_error, u32) result" where
  "get_key_index symbol i index =
     (case index of
        Some index \<Rightarrow> Ok index
      | None \<Rightarrow> if symbol = ARK_SYMBOL then Ok 0 else Err (NoKeyIndex i))"

definition derive_our_public_key ::
  "string \<Rightarrow> rescue_wallet \<Rightarrow> string \<Rightarrow> i32 option \<Rightarrow> (rescue_error, string) result" where
  "derive_our_public_key symbol wallet i index =
     r_bind (get_key_index symbol i index) (\<lambda>index. ok_or DerivePubkey (rw_derive_pubkey wallet (ucast index)))"

definition derive_blinding_key ::
  "rescue_wallet \<Rightarrow> string \<Rightarrow> string \<Rightarrow> string \<Rightarrow> (rescue_error, string option) result" where
  "derive_blinding_key wallet i symbol address =
     (if symbol \<noteq> ELEMENTS_SYMBOL then Ok None
      else r_bind (ok_or DecodeAddress (rw_decode_address wallet address)) (\<lambda>script.
        r_map Some (ok_or (BlindingKeyFailed i) (rw_derive_blinding_key wallet script))))"

definition lookup_from_keys :: "keys_map \<Rightarrow> string option \<Rightarrow> string \<Rightarrow> (rescue_error, u32) result" where
  "lookup_from_keys ks key i =
     r_bind (ok_or (NoPublicKey i) key) (\<lambda>k. ok_or (NoKeyMapping i) (ks k))"

definition lookup_optional_from_keys :: "keys_map \<Rightarrow> string option \<Rightarrow> u32 option" where
  "lookup_optional_from_keys ks key = Option.bind key ks"

subsection \<open>Single swaps\<close>

definition create_rescuable_swap ::
  "rescue_lib \<Rightarrow> keys_map \<Rightarrow> swap \<Rightarrow> (rescue_error, rescuable_swap) result" where
  "create_rescuable_swap lib ks s =
     r_bind (r_map_err RescuePair (sw_chain_symbol s)) (\<lambda>symbol.
     r_bind (get_wallet lib symbol) (\<lambda>wallet.
     r_bind (lookup_from_keys ks (sw_refund_public_key s) (sw_id s)) (\<lambda>index.
     r_bind (derive_our_public_key symbol wallet (sw_id s) (sw_key_index s)) (\<lambda>our_key.
     r_bind (derive_blinding_key wallet (sw_id s) symbol (sw_lockup_address s)) (\<lambda>blinding_key.
       rescuable_of_swap lib s index our_key blinding_key)))))"

definition create_rescuable_chain_swap ::
  "rescue_lib \<Rightarrow> keys_map \<Rightarrow> chain_swap_info \<Rightarrow> (rescue_error, rescuable_swap) result" where
  "create_rescuable_chain_swap lib ks c =
     (let receiving = ci_receiving c; i = cs_id (ci_swap c) in
      r_bind (get_wallet lib (cd_symbol receiving)) (\<lambda>wallet.
      r_bind (lookup_from_keys ks (cd_their_public_key receiving) i) (\<lambda>index.
      r_bind (derive_our_public_key (cd_symbol receiving) wallet i (cd_key_index receiving)) (\<lambda>our_key.
      r_bind (derive_blinding_key wallet i (cd_symbol receiving) (cd_lockup_address receiving)) (\<lambda>blinding_key.
        rescuable_of_chain lib c index our_key blinding_key)))))"

definition create_restorable_swap ::
  "rescue_lib \<Rightarrow> keys_map \<Rightarrow> swap \<Rightarrow> (rescue_error, restorable_swap) result" where
  "create_restorable_swap lib ks s =
     r_bind (r_map_err RescuePair (sw_chain_symbol s)) (\<lambda>symbol.
     r_bind (get_wallet lib symbol) (\<lambda>wallet.
     r_bind (lookup_from_keys ks (sw_refund_public_key s) (sw_id s)) (\<lambda>index.
     r_bind (derive_our_public_key symbol wallet (sw_id s) (sw_key_index s)) (\<lambda>our_key.
     r_bind (derive_blinding_key wallet (sw_id s) symbol (sw_lockup_address s)) (\<lambda>blinding_key.
       restorable_of_swap lib s index our_key blinding_key)))))"

text \<open>The details of one side of a chain swap, for the key at the index.\<close>

definition side_details ::
  "rescue_lib \<Rightarrow> string \<Rightarrow> chain_swap_data \<Rightarrow> u32 \<Rightarrow> (rescue_error, swap_details_base) result" where
  "side_details lib i side index =
     r_bind (get_wallet lib (cd_symbol side)) (\<lambda>wallet.
     r_bind (derive_our_public_key (cd_symbol side) wallet i (cd_key_index side)) (\<lambda>our_key.
     r_bind (derive_blinding_key wallet i (cd_symbol side) (cd_lockup_address side)) (\<lambda>blinding_key.
       cd_details_base lib side index our_key blinding_key)))"

definition chain_claim_details ::
  "rescue_lib \<Rightarrow> keys_map \<Rightarrow> chain_swap_info \<Rightarrow> (rescue_error, restore_claim option) result" where
  "chain_claim_details lib ks c =
     (let sending = ci_sending c in
      if cd_claim_address sending \<noteq> None then r_map (Some \<circ> ClaimEvm) (evm_from_chain_data sending)
      else (case lookup_optional_from_keys ks (cd_their_public_key sending) of
              Some index \<Rightarrow>
                r_map (\<lambda>details. Some (ClaimUtxo \<lparr>uc_base = details, uc_preimage_hash = cs_preimage_hash (ci_swap c)\<rparr>))
                  (side_details lib (cs_id (ci_swap c)) sending index)
            | None \<Rightarrow> Ok None))"

definition chain_refund_details ::
  "rescue_lib \<Rightarrow> keys_map \<Rightarrow> chain_swap_info \<Rightarrow> (rescue_error, restore_refund option) result" where
  "chain_refund_details lib ks c =
     (case lookup_optional_from_keys ks (cd_their_public_key (ci_receiving c)) of
        Some index \<Rightarrow>
          r_map (Some \<circ> RefundUtxo) (side_details lib (cs_id (ci_swap c)) (ci_receiving c) index)
      | None \<Rightarrow> Ok None)"

definition create_restorable_chain_swap ::
  "rescue_lib \<Rightarrow> keys_map \<Rightarrow> chain_swap_info \<Rightarrow> (rescue_error, restorable_swap) result" where
  "create_restorable_chain_swap lib ks c =
     r_bind (chain_claim_details lib ks c) (\<lambda>claim.
     r_bind (chain_refund_details lib ks c) (\<lambda>refund.
       if claim = None \<and> refund = None then Err (NoKeyMapping (cs_id (ci_swap c)))
       else Ok \<lparr>re_base = ci_base c, re_from = cd_symbol (ci_receiving c), re_to = cd_symbol (ci_sending c),
                re_preimage_hash = cs_preimage_hash (ci_swap c), re_invoice = None,
                re_claim_details = claim, re_refund_details = refund, re_metadata = None\<rparr>))"

definition create_restorable_reverse_swap ::
  "rescue_lib \<Rightarrow> keys_map \<Rightarrow> reverse_swap \<Rightarrow> (rescue_error, restorable_swap) result" where
  "create_restorable_reverse_swap lib ks s =
     r_bind (r_map_err RescuePair (rs_chain_symbol s)) (\<lambda>symbol.
       if rs_claim_address s \<noteq> None then
         r_bind (r_map_err RescuePair (rs_lightning_symbol s)) (\<lambda>from.
         r_bind (evm_from_reverse s) (\<lambda>evm.
           Ok \<lparr>re_base = rs_base s, re_from = from, re_to = symbol, re_preimage_hash = rs_preimage_hash s,
               re_invoice = Some (rs_invoice s), re_claim_details = Some (ClaimEvm evm),
               re_refund_details = None, re_metadata = None\<rparr>))
       else
         r_bind (get_wallet lib symbol) (\<lambda>wallet.
         r_bind (lookup_from_keys ks (rs_claim_public_key s) (rs_id s)) (\<lambda>index.
         r_bind (derive_our_public_key symbol wallet (rs_id s) (rs_key_index s)) (\<lambda>our_key.
         r_bind (derive_blinding_key wallet (rs_id s) symbol (rs_lockup_address s)) (\<lambda>blinding_key.
           restorable_of_reverse lib s index our_key blinding_key)))))"

definition process_rescuable_swaps ::
  "rescue_lib \<Rightarrow> keys_map \<Rightarrow> swap list \<Rightarrow> chain_swap_info list \<Rightarrow> reverse_swap list
    \<Rightarrow> (rescue_error, rescuable_swap list) result" where
  "process_rescuable_swaps lib ks swaps chain_swaps reverse_swaps =
     r_bind (r_mapM (create_rescuable_swap lib ks) swaps) (\<lambda>submarine.
     r_bind (r_mapM (create_rescuable_chain_swap lib ks)
         (filter (\<lambda>c. cd_their_public_key (ci_receiving c) \<noteq> None) chain_swaps)) (\<lambda>chain.
       Ok (submarine @ chain)))"

definition process_restorable_swaps ::
  "rescue_lib \<Rightarrow> keys_map \<Rightarrow> swap list \<Rightarrow> chain_swap_info list \<Rightarrow> reverse_swap list
    \<Rightarrow> (rescue_error, restorable_swap list) result" where
  "process_restorable_swaps lib ks swaps chain_swaps reverse_swaps =
     r_bind (r_mapM (create_restorable_swap lib ks) swaps) (\<lambda>submarine.
     r_bind (r_mapM (create_restorable_chain_swap lib ks) chain_swaps) (\<lambda>chain.
     r_bind (r_mapM (create_restorable_reverse_swap lib ks) reverse_swaps) (\<lambda>reversed.
       Ok (submarine @ chain @ reversed))))"

subsection \<open>The scan\<close>

record rescue_db =
  rd_available :: bool
  rd_swaps :: "swap list"
  rd_chain_swaps :: "chain_swap_info list"
  rd_reverse_swaps :: "reverse_swap list"
  rd_metadata :: "(string \<times> bytes) list"

text \<open>The conditions of the three queries; a column that is null equals nothing.\<close>

definition key_among :: "string option \<Rightarrow> string list \<Rightarrow> bool" where
  "key_among key ks = (case key of Some k \<Rightarrow> k \<in> set ks | None \<Rightarrow> False)"

definition swaps_of_keys :: "rescue_db \<Rightarrow> string list \<Rightarrow> swap list" where
  "swaps_of_keys db ks = filter (\<lambda>s. sint (sw_version s) > 0 \<and> key_among (sw_refund_public_key s) ks) (rd_swaps db)"

definition chain_swaps_of_keys :: "rescue_db \<Rightarrow> string list \<Rightarrow> chain_swap_info list" where
  "chain_swaps_of_keys db ks =
     filter (\<lambda>c. key_among (cd_their_public_key (ci_sending c)) ks
                 \<or> key_among (cd_their_public_key (ci_receiving c)) ks) (rd_chain_swaps db)"

definition reverse_swaps_of_keys :: "rescue_db \<Rightarrow> string list \<Rightarrow> reverse_swap list" where
  "reverse_swaps_of_keys db ks =
     filter (\<lambda>s. sint (rs_version s) > 0 \<and> key_among (rs_claim_public_key s) ks) (rd_reverse_swaps db)"

record ('r) scan_ops =
  so_types :: "swap_type list"
  so_process :: "keys_map \<Rightarrow> swap list \<Rightarrow> chain_swap_info list \<Rightarrow> reverse_swap list \<Rightarrow> (rescue_error, 'r list) result"
  so_id :: "'r \<Rightarrow> string"

definition query_batch ::
  "'r scan_ops \<Rightarrow> rescue_db \<Rightarrow> string list \<Rightarrow> swap list \<times> chain_swap_info list \<times> reverse_swap list" where
  "query_batch ops db ks =
     (if Submarine \<in> set (so_types ops) then swaps_of_keys db ks else [],
      if Chain \<in> set (so_types ops) then chain_swaps_of_keys db ks else [],
      if Reverse \<in> set (so_types ops) then reverse_swaps_of_keys db ks else [])"

definition insert_results :: "('r \<Rightarrow> string) \<Rightarrow> 'r list \<Rightarrow> (string \<rightharpoonup> 'r) \<Rightarrow> (string \<rightharpoonup> 'r)" where
  "insert_results ident rs m = fold (\<lambda>r m. m(ident r \<mapsto> r)) rs m"

fun scan_loop ::
  "'r scan_ops \<Rightarrow> rescue_db \<Rightarrow> pubkey_iterator \<Rightarrow> bool \<Rightarrow> u32 \<Rightarrow> u32 \<Rightarrow> u32 list \<Rightarrow> keys_map \<Rightarrow> (string \<rightharpoonup> 'r)
    \<Rightarrow> (rescue_error, string \<rightharpoonup> 'r) result" where
  "scan_loop ops db it paginated gap_limit scan_end [] keys_map results = Ok results"
| "scan_loop ops db it paginated gap_limit scan_end (from # froms) keys_map results =
     (let to = min (from + gap_limit) scan_end in
      r_bind (r_map_err RescueIterator (derive_keys it keys_map from to)) (\<lambda>(keys_map', ks).
        if \<not> rd_available db \<and> so_types ops \<noteq> [] then Err RescueDb
        else case query_batch ops db ks of (swaps, chain_swaps, reverse_swaps) \<Rightarrow>
          if \<not> paginated \<and> swaps = [] \<and> chain_swaps = [] \<and> reverse_swaps = [] then Ok results
          else r_bind (so_process ops keys_map' swaps chain_swaps reverse_swaps) (\<lambda>rs.
            let results' = insert_results (so_id ops) rs results in
            if to \<ge> it_max_keys it then Ok results'
            else scan_loop ops db it paginated gap_limit scan_end froms keys_map' results')))"

definition scan_swaps_paginated ::
  "'r scan_ops \<Rightarrow> rescue_db \<Rightarrow> pubkey_iterator \<Rightarrow> u32 option \<Rightarrow> pagination option
    \<Rightarrow> (rescue_error, string \<rightharpoonup> 'r) result" where
  "scan_swaps_paginated ops db it start_index page =
     (let gap_limit = min (it_gap_limit it) (it_max_keys it) in
      if gap_limit = 0 then Ok Map.empty
      else r_bind (case page of
                     Some p \<Rightarrow> r_bind (r_map_err RescueIterator (pagination_end p)) (\<lambda>e. Ok (pg_start_index p, e))
                   | None \<Rightarrow> Ok (case start_index of Some i \<Rightarrow> i | None \<Rightarrow> 0, it_max_keys it)) (\<lambda>(scan_start, scan_end).
        scan_loop ops db it (page \<noteq> None) gap_limit scan_end
          (map word_of_nat (step_range (unat scan_start) (unat scan_end) (unat gap_limit))) Map.empty Map.empty))"

definition scan_swaps ::
  "'r scan_ops \<Rightarrow> rescue_db \<Rightarrow> pubkey_iterator \<Rightarrow> u32 option \<Rightarrow> (rescue_error, string \<rightharpoonup> 'r) result" where
  "scan_swaps ops db it start_index = scan_swaps_paginated ops db it start_index None"

subsection \<open>The service\<close>

definition rescue_ops :: "rescue_lib \<Rightarrow> rescuable_swap scan_ops" where
  "rescue_ops lib = \<lparr>so_types = [Submarine, Chain], so_process = process_rescuable_swaps lib,
     so_id = sb_id \<circ> ru_base\<rparr>"

definition restore_ops :: "rescue_lib \<Rightarrow> restorable_swap scan_ops" where
  "restore_ops lib = \<lparr>so_types = [Submarine, Chain, Reverse], so_process = process_restorable_swaps lib,
     so_id = sb_id \<circ> re_base\<rparr>"

definition rescue ::
  "rescue_lib \<Rightarrow> rescue_db \<Rightarrow> ((string \<rightharpoonup> rescuable_swap) \<Rightarrow> rescuable_swap list) \<Rightarrow> pubkey_iterator
    \<Rightarrow> (rescue_error, rescuable_swap list) result" where
  "rescue lib db values_of it =
     r_bind (scan_swaps (rescue_ops lib) db it None) (\<lambda>m.
       Ok (sort_key (\<lambda>r. (ba_key_index (ru_details r), sb_created_at (ru_base r))) (values_of m)))"

definition refund_key_index :: "restorable_swap \<Rightarrow> u32 option" where
  "refund_key_index r = (case re_refund_details r of Some (RefundUtxo d) \<Rightarrow> Some (ba_key_index d) | _ \<Rightarrow> None)"

definition claim_key_index :: "restorable_swap \<Rightarrow> u32 option" where
  "claim_key_index r = (case re_claim_details r of Some (ClaimUtxo d) \<Rightarrow> Some (ba_key_index (uc_base d)) | _ \<Rightarrow> None)"

text \<open>Swaps without a key of the user come last.\<close>

definition restore_sort_index :: "restorable_swap \<Rightarrow> u32" where
  "restore_sort_index r =
     (case refund_key_index r of
        Some i \<Rightarrow> i
      | None \<Rightarrow> (case claim_key_index r of Some i \<Rightarrow> i | None \<Rightarrow> - 1))"

definition evm_restorable :: "swap \<Rightarrow> (rescue_error, restorable_swap) result" where
  "evm_restorable s =
     r_bind (r_map_err RescuePair (sw_chain_symbol s)) (\<lambda>from.
     r_bind (r_map_err RescuePair (sw_lightning_symbol s)) (\<lambda>to.
       Ok \<lparr>re_base = sw_base s, re_from = from, re_to = to, re_preimage_hash = sw_preimage_hash s,
           re_invoice = sw_invoice s, re_claim_details = None,
           re_refund_details = Some (RefundEvm (evm_from_swap s)), re_metadata = None\<rparr>))"

definition scan_swaps_by_address ::
  "rescue_lib \<Rightarrow> rescue_db \<Rightarrow> string \<Rightarrow> (rescue_error, string \<rightharpoonup> restorable_swap) result" where
  "scan_swaps_by_address lib db address =
     (if \<not> rd_available db then Err RescueDb
      else
        let reverse_swaps = filter (\<lambda>s. sint (rs_version s) > 0 \<and> rs_claim_address s = Some address) (rd_reverse_swaps db);
            chain_swaps = filter (\<lambda>c. cd_claim_address (ci_sending c) = Some address
                                      \<or> cd_claim_address (ci_receiving c) = Some address) (rd_chain_swaps db);
            submarine_swaps = filter (\<lambda>s. sw_refund_address s = Some address) (rd_swaps db)
        in r_bind (process_restorable_swaps lib Map.empty [] chain_swaps reverse_swaps) (\<lambda>rs.
           r_bind (r_mapM evm_restorable submarine_swaps) (\<lambda>evm.
             Ok (insert_results (sb_id \<circ> re_base) evm (insert_results (sb_id \<circ> re_base) rs Map.empty)))))"

fun attach_loop :: "(string \<rightharpoonup> string) \<Rightarrow> restorable_swap list \<Rightarrow> restorable_swap list" where
  "attach_loop m [] = []"
| "attach_loop m (r # rs) =
     r\<lparr>re_metadata := m (sb_id (re_base r))\<rparr> # attach_loop (m(sb_id (re_base r) := None)) rs"

definition attach_metadata ::
  "rescue_lib \<Rightarrow> rescue_db \<Rightarrow> restorable_swap list \<Rightarrow> (rescue_error, restorable_swap list) result" where
  "attach_metadata lib db rs =
     (if rs = [] then Ok []
      else if \<not> rd_available db then Err RescueDb
      else
        let rows = filter (\<lambda>(i, _). i \<in> set (map (sb_id \<circ> re_base) rs)) (rd_metadata db)
        in Ok (attach_loop (map_of (rev (map (\<lambda>(i, d). (i, rl_hex_encode lib d)) rows))) rs))"

definition restore ::
  "rescue_lib \<Rightarrow> rescue_db \<Rightarrow> ((string \<rightharpoonup> restorable_swap) \<Rightarrow> restorable_swap list) \<Rightarrow> restore_query
    \<Rightarrow> (rescue_error, restorable_swap list) result" where
  "restore lib db values_of query =
     r_bind (case query of
               QueryKeys it \<Rightarrow> scan_swaps_paginated (restore_ops lib) db it None (it_pagination it)
             | QueryAddress address \<Rightarrow> scan_swaps_by_address lib db address) (\<lambda>m.
     r_bind (attach_metadata lib db (values_of m)) (\<lambda>rs.
       Ok (sort_key (\<lambda>r. (restore_sort_index r, sb_created_at (re_base r))) rs)))"

text \<open>The cache holds the highest index found for an identifier of keys; \<open>-1\<close> is "none".\<close>

definition option_max :: "u32 option \<Rightarrow> u32 option \<Rightarrow> u32 option" where
  "option_max a b =
     (case (a, b) of (Some x, Some y) \<Rightarrow> Some (max x y) | (Some x, None) \<Rightarrow> Some x | (None, y) \<Rightarrow> y)"

definition highest_index :: "restorable_swap list \<Rightarrow> u32 option" where
  "highest_index rs = iter_max (List.map_filter (\<lambda>r. option_max (refund_key_index r) (claim_key_index r)) rs)"

definition rescue_index ::
  "rescue_lib \<Rightarrow> rescue_db \<Rightarrow> ((string \<rightharpoonup> restorable_swap) \<Rightarrow> restorable_swap list) \<Rightarrow> bool \<Rightarrow> bool \<Rightarrow> string
    \<Rightarrow> pubkey_iterator \<Rightarrow> (string \<rightharpoonup> u32) \<Rightarrow> (string \<rightharpoonup> u32) \<times> (rescue_error, int) result" where
  "rescue_index lib db values_of get_ok set_ok identifier it cache =
     (if \<not> get_ok then (cache, Err RescueCache)
      else
        let start_index = cache identifier in
        case scan_swaps (restore_ops lib) db it (map_option (\<lambda>i. i + 1) start_index) of
          Err e \<Rightarrow> (cache, Err e)
        | Panic \<Rightarrow> (cache, Panic)
        | Ok m \<Rightarrow>
            (case highest_index (values_of m) of
               Some i \<Rightarrow> if set_ok then (cache(identifier \<mapsto> i), Ok (int (unat i))) else (cache, Err RescueCache)
             | None \<Rightarrow> (cache, Ok (case start_index of Some i \<Rightarrow> int (unat i) | None \<Rightarrow> - 1))))"

subsection \<open>The endpoints\<close>

datatype rescue_api_error = UnprocessableRequest rescue_request_error | RescueFailed rescue_error

definition swap_rescue ::
  "rescue_lib \<Rightarrow> rescue_db \<Rightarrow> ((string \<rightharpoonup> rescuable_swap) \<Rightarrow> rescuable_swap list)
    \<Rightarrow> (string \<Rightarrow> (u32 \<Rightarrow> (iterator_error, string) result) option) \<Rightarrow> rescue_params
    \<Rightarrow> (rescue_api_error, rescuable_swap list) result" where
  "swap_rescue lib db values_of at_path params =
     r_bind (r_map_err UnprocessableRequest (iterator_of_params at_path params)) (\<lambda>it.
       r_map_err RescueFailed (rescue lib db values_of it))"

definition swap_restore ::
  "rescue_lib \<Rightarrow> rescue_db \<Rightarrow> ((string \<rightharpoonup> restorable_swap) \<Rightarrow> restorable_swap list)
    \<Rightarrow> (string \<Rightarrow> (u32 \<Rightarrow> (iterator_error, string) result) option) \<Rightarrow> (string \<Rightarrow> u64 \<Rightarrow> string \<Rightarrow> string option)
    \<Rightarrow> int \<Rightarrow> rescue_params \<Rightarrow> (rescue_api_error, restorable_swap list) result" where
  "swap_restore lib db values_of at_path recover now params =
     r_bind (r_map_err UnprocessableRequest (restore_query_of_params at_path recover now params)) (\<lambda>query.
       r_map_err RescueFailed (restore lib db values_of query))"

definition swap_restore_index ::
  "rescue_lib \<Rightarrow> rescue_db \<Rightarrow> ((string \<rightharpoonup> restorable_swap) \<Rightarrow> restorable_swap list) \<Rightarrow> bool \<Rightarrow> bool
    \<Rightarrow> (pubkey_iterator \<Rightarrow> string) \<Rightarrow> (string \<Rightarrow> (u32 \<Rightarrow> (iterator_error, string) result) option) \<Rightarrow> rescue_params
    \<Rightarrow> (string \<rightharpoonup> u32) \<Rightarrow> (string \<rightharpoonup> u32) \<times> (rescue_api_error, int) result" where
  "swap_restore_index lib db values_of get_ok set_ok identifier at_path params cache =
     (case iterator_of_params at_path params of
        Err e \<Rightarrow> (cache, Err (UnprocessableRequest e))
      | Panic \<Rightarrow> (cache, Panic)
      | Ok it \<Rightarrow> map_prod id (r_map_err RescueFailed)
          (rescue_index lib db values_of get_ok set_ok (identifier it) it cache))"

subsection \<open>What the scan visits\<close>

lemma min_add_u32:
  assumes "unat a + unat b < 2 ^ 32"
  shows "unat (min (a + b) e :: u32) = min (unat a + unat b) (unat e)"
  using unat_add_u32 [OF assms] by (simp add: min_def word_le_nat_alt)

text \<open>A batch whose keys are derived does not reach past the end of the indices.\<close>

lemma derive_keys_no_wrap:
  assumes "derive_keys it m from (min (from + gap) e) = Ok r" and "from < e" and "e \<le> it_max_keys it"
  shows "unat from + unat gap < 2 ^ 32"
proof (rule ccontr)
  assume wrap: "\<not> unat from + unat gap < 2 ^ 32"
  have "unat (from + gap) < unat from"
  proof -
    have "unat (from + gap) = (unat from + unat gap) mod 2 ^ 32" by (simp add: unat_word_ariths)
    also have "\<dots> = unat from + unat gap - 2 ^ 32"
      using wrap unsigned_less [of "from", where 'a = nat] unsigned_less [of gap, where 'a = nat]
      by (simp add: mod_if)
    finally show ?thesis using unsigned_less [of gap, where 'a = nat] wrap by simp
  qed
  then have "from + gap < from" by (simp add: word_less_nat_alt)
  then have lt: "\<not> from \<le> min (from + gap) e" by (simp add: not_le min.strict_coboundedI1)
  show False
  proof (cases it)
    case (SingleKeyIterator key)
    then have "unat from = 0" using assms(2,3) by (simp add: word_less_nat_alt word_le_nat_alt)
    with wrap unsigned_less [of gap, where 'a = nat] show False by simp
  next
    case (KeyVecIterator ks)
    then have "\<not> from \<ge> word_of_nat (length ks)" using assms(2,3) by simp
    with lt assms(1) KeyVecIterator show False by (auto simp: key_vec_derive_keys_def buffered_end_def)
  next
    case (XpubIterator x)
    with lt assms(1) show False by (auto simp: xpub_derive_keys_def buffered_end_def)
  qed
qed

lemma batch_keys:
  assumes "derive_keys it m from (min (from + gap) e) = Ok (m', ks)" and "from < e" and "e \<le> it_max_keys it"
    and "gap \<noteq> 0"
  shows "ks = map (it_key_at it) [unat from..<min (unat from + unat gap) (unat e)]"
    and "dom m \<union> set ks \<subseteq> dom m'"
    and "(\<forall>k i. m k = Some i \<longrightarrow> k = it_key_at it (unat i)) \<Longrightarrow> m' k = Some i \<Longrightarrow> k = it_key_at it (unat i)"
proof -
  have nowrap: "unat from + unat gap < 2 ^ 32" using assms(1-3) by (rule derive_keys_no_wrap)
  let ?to = "min (from + gap) e"
  have to: "unat ?to = min (unat from + unat gap) (unat e)" using nowrap by (rule min_add_u32)
  have "from < ?to" using to assms(2,4) by (simp add: word_less_nat_alt unat_gt_0)
  moreover have "?to \<le> it_max_keys it" using assms(3) by (rule min.coboundedI2)
  ultimately have batch: "ks = map (it_key_at it) [unat from..<unat ?to] \<and> dom m \<union> set ks \<subseteq> dom m'
    \<and> (\<forall>k i. m' k = Some i \<longrightarrow> m k = Some i \<or> k = it_key_at it (unat i))"
    using assms(1) by (rule iterator_keys.derived)
  show "ks = map (it_key_at it) [unat from..<min (unat from + unat gap) (unat e)]"
    using batch unfolding to by blast
  show "dom m \<union> set ks \<subseteq> dom m'" using batch by blast
  show "(\<forall>k i. m k = Some i \<longrightarrow> k = it_key_at it (unat i)) \<Longrightarrow> m' k = Some i \<Longrightarrow> k = it_key_at it (unat i)"
    using batch by blast
qed

lemma insert_results_dom: "dom (insert_results ident rs m) = dom m \<union> ident ` set rs"
proof (induction rs arbitrary: m)
  case (Cons r rs)
  have "insert_results ident (r # rs) m = insert_results ident rs (m(ident r \<mapsto> r))"
    by (simp add: insert_results_def)
  with Cons show ?case by auto
qed (simp add: insert_results_def)

lemma insert_results_ran: "ran (insert_results ident rs m) \<subseteq> ran m \<union> set rs"
proof (induction rs arbitrary: m)
  case (Cons r rs)
  have "insert_results ident (r # rs) m = insert_results ident rs (m(ident r \<mapsto> r))"
    by (simp add: insert_results_def)
  moreover have "ran (m(ident r \<mapsto> r)) \<subseteq> insert r (ran m)" by (auto simp: ran_def split: if_splits)
  moreover have "ran (insert_results ident rs (m(ident r \<mapsto> r))) \<subseteq> ran (m(ident r \<mapsto> r)) \<union> set rs" by (rule Cons)
  ultimately show ?case by (simp only: list.set) blast
qed (simp add: insert_results_def)

lemma insert_results_ids:
  "(\<And>x r. m x = Some r \<Longrightarrow> ident r = x) \<Longrightarrow> insert_results ident rs m x = Some r \<Longrightarrow> ident r = x"
proof (induction rs arbitrary: m)
  case (Cons a rs)
  have "insert_results ident rs (m(ident a \<mapsto> a)) x = Some r"
    using Cons.prems(2) by (simp add: insert_results_def)
  moreover have "ident r = y" if "(m(ident a \<mapsto> a)) y = Some r" for y r
    using that Cons.prems(1) by (auto split: if_splits)
  ultimately show ?case by (rule Cons.IH [rotated])
qed (simp add: insert_results_def)

text \<open>
  The keys that a scan reaches: those of its page, and without pages those that no batch of keys
  without swaps comes before.
\<close>

definition key_scanned :: "'r scan_ops \<Rightarrow> rescue_db \<Rightarrow> pubkey_iterator \<Rightarrow> pagination option \<Rightarrow> nat \<Rightarrow> bool" where
  "key_scanned ops db it page n =
     (let gap = min (it_gap_limit it) (it_max_keys it); end_of = unat (it_max_keys it) in
      gap \<noteq> 0 \<and>
      (case page of
         Some p \<Rightarrow> (case pagination_end p of Ok e \<Rightarrow> unat (pg_start_index p) \<le> n \<and> n < unat e | _ \<Rightarrow> False)
       | None \<Rightarrow> n < end_of \<and> list_all (\<lambda>f. f \<le> n \<longrightarrow>
           query_batch ops db (map (it_key_at it) [f..<min (f + unat gap) end_of]) \<noteq> ([], [], []))
           (step_range 0 end_of (unat gap))))"

subsection \<open>The contract of a kind of recovery\<close>

text \<open>
  What the scan needs of the processing of a batch: the ids in \<open>covered\<close> are among its results, and
  results built from keys with right indices satisfy \<open>good\<close>.
\<close>

definition keys_right :: "pubkey_iterator \<Rightarrow> keys_map \<Rightarrow> bool" where
  "keys_right it m \<longleftrightarrow> (\<forall>k i. m k = Some i \<longrightarrow> k = it_key_at it (unat i))"

definition batch_of :: "rescue_db \<Rightarrow> swap list \<times> chain_swap_info list \<times> reverse_swap list \<Rightarrow> bool" where
  "batch_of db = (\<lambda>(swaps, chain_swaps, reverse_swaps). set swaps \<subseteq> set (rd_swaps db)
     \<and> set chain_swaps \<subseteq> set (rd_chain_swaps db) \<and> set reverse_swaps \<subseteq> set (rd_reverse_swaps db))"

lemma query_batch_of: "batch_of db (query_batch ops db ks)"
  by (auto simp: batch_of_def query_batch_def swaps_of_keys_def chain_swaps_of_keys_def reverse_swaps_of_keys_def)

locale recovery =
  fixes ops :: "'r scan_ops"
    and covered :: "swap list \<Rightarrow> chain_swap_info list \<Rightarrow> reverse_swap list \<Rightarrow> string set"
    and good :: "rescue_db \<Rightarrow> pubkey_iterator \<Rightarrow> 'r \<Rightarrow> bool"
  assumes process_covers: "so_process ops m sw ch rv = Ok rs \<Longrightarrow> covered sw ch rv \<subseteq> so_id ops ` set rs"
    and process_good: "keys_right it m \<Longrightarrow> batch_of db (sw, ch, rv) \<Longrightarrow> so_process ops m sw ch rv = Ok rs
      \<Longrightarrow> r \<in> set rs \<Longrightarrow> good db it r"
begin

abbreviation covered_by :: "rescue_db \<Rightarrow> string list \<Rightarrow> string set" where
  "covered_by db ks \<equiv> (case query_batch ops db ks of (sw, ch, rv) \<Rightarrow> covered sw ch rv)"

text \<open>One batch that is derived and processed.\<close>

lemma scan_loop_cases:
  assumes "scan_loop ops db it paginated gap e (from # froms) m res = Ok res'"
  obtains (ends) m' ks where "derive_keys it m from (min (from + gap) e) = Ok (m', ks)"
      "\<not> paginated" "query_batch ops db ks = ([], [], [])" "res' = res"
    | (goes_on) m' ks sw ch rv rs where "derive_keys it m from (min (from + gap) e) = Ok (m', ks)"
      "query_batch ops db ks = (sw, ch, rv)" "so_process ops m' sw ch rv = Ok rs"
      "if min (from + gap) e \<ge> it_max_keys it then res' = insert_results (so_id ops) rs res
       else scan_loop ops db it paginated gap e froms m' (insert_results (so_id ops) rs res) = Ok res'"
proof -
  from assms obtain m' ks where derive: "derive_keys it m from (min (from + gap) e) = Ok (m', ks)"
    by (auto simp: Let_def)
  obtain sw ch rv where query: "query_batch ops db ks = (sw, ch, rv)" by (meson prod_cases3)
  show thesis
  proof (cases "\<not> paginated \<and> sw = [] \<and> ch = [] \<and> rv = []")
    case True
    with assms derive query show thesis by (intro ends) (auto simp: Let_def split: if_splits)
  next
    case False
    with assms derive query obtain rs where rs: "so_process ops m' sw ch rv = Ok rs"
      by (auto simp: Let_def split: if_splits)
    with False assms derive query show thesis
      by (intro goes_on [OF derive query rs]) (auto simp: Let_def split: if_splits)
  qed
qed

lemma scan_loop_grows:
  "scan_loop ops db it paginated gap e froms m res = Ok res' \<Longrightarrow> dom res \<subseteq> dom res'"
proof (induction froms arbitrary: m res)
  case (Cons f froms)
  from Cons.prems show ?case
  proof (cases rule: scan_loop_cases)
    case (goes_on m' ks sw ch rv rs)
    then show ?thesis using Cons.IH [of m' "insert_results (so_id ops) rs res"]
      by (auto simp: insert_results_dom split: if_splits)
  qed simp
qed simp

text \<open>Every key in the range is visited, unless a batch before it finds nothing.\<close>

lemma scan_loop_complete:
  assumes "scan_loop ops db it paginated gap e (map word_of_nat (step_range s (unat e) (unat gap))) m res = Ok res'"
    and "e \<le> it_max_keys it" and "gap \<noteq> 0" and "s \<le> n" and "n < unat e"
    and "\<And>ks. it_key_at it n \<in> set ks \<Longrightarrow> x \<in> covered_by db ks"
    and "paginated \<or> (\<forall>f \<in> set (step_range s (unat e) (unat gap)). f \<le> n \<longrightarrow>
      query_batch ops db (map (it_key_at it) [f..<min (f + unat gap) (unat e)]) \<noteq> ([], [], []))"
  shows "x \<in> dom res'"
  using assms
proof (induction "s" "unat e" "unat gap" arbitrary: m res rule: step_range.induct)
  case (1 s)
  have gap: "unat gap \<noteq> 0" using "1.prems"(3) by (simp add: unat_eq_zero)
  have s: "s < unat e" using "1.prems"(4,5) by simp
  then have s32: "s < 2 ^ 32" using unsigned_less [of e, where 'a = nat] by simp
  let ?from = "word_of_nat s :: u32"
  have froms: "step_range s (unat e) (unat gap) = s # step_range (s + unat gap) (unat e) (unat gap)"
    using gap s by (simp add: step_range.simps [of s])
  have unat_from: "unat ?from = s" by (rule unat_of_nat_u32 [OF s32])
  have lt: "?from < e" using s unat_from by (simp add: word_less_nat_alt)
  have "scan_loop ops db it paginated gap e (?from # map word_of_nat (step_range (s + unat gap) (unat e) (unat gap))) m res
      = Ok res'"
    using "1.prems"(1) by (simp only: froms list.map)
  then show ?case
  proof (cases rule: scan_loop_cases)
    case (ends m' ks)
    have "ks = map (it_key_at it) [s..<min (s + unat gap) (unat e)]"
      using batch_keys(1) [OF ends(1) lt "1.prems"(2,3)] by (simp only: unat_from)
    with ends "1.prems"(4,7) froms show ?thesis by simp
  next
    case (goes_on m' ks sw ch rv rs)
    let ?to = "min (?from + gap) e"
    have ks: "ks = map (it_key_at it) [s..<min (s + unat gap) (unat e)]"
      using batch_keys(1) [OF goes_on(1) lt "1.prems"(2,3)] by (simp only: unat_from)
    have to: "unat ?to = min (s + unat gap) (unat e)"
      using min_add_u32 [OF derive_keys_no_wrap [OF goes_on(1) lt "1.prems"(2)], of e] by (simp only: unat_from)
    show ?thesis
    proof (cases "n < s + unat gap")
      case True
      then have "it_key_at it n \<in> set ks" using ks "1.prems"(4,5) by auto
      then have "x \<in> covered sw ch rv" using "1.prems"(6) [of ks] goes_on(2) by simp
      then have "x \<in> dom (insert_results (so_id ops) rs res)"
        using process_covers [OF goes_on(3)] by (auto simp only: insert_results_dom)
      with goes_on(4) show ?thesis
        using scan_loop_grows [of db it paginated gap e _ m' "insert_results (so_id ops) rs res" res']
        by (auto split: if_splits)
    next
      case False
      have "unat ?to < unat (it_max_keys it)"
        using to False "1.prems"(2,5) by (simp add: word_le_nat_alt)
      then have "\<not> ?to \<ge> it_max_keys it" by (simp add: word_le_nat_alt)
      with goes_on(4) have rest: "scan_loop ops db it paginated gap e
          (map word_of_nat (step_range (s + unat gap) (unat e) (unat gap))) m' (insert_results (so_id ops) rs res) = Ok res'"
        by simp
      show ?thesis
        by (rule "1.hyps" [OF _ rest "1.prems"(2,3) _ "1.prems"(5,6)])
          (use gap s False "1.prems"(7) froms in auto)
    qed
  qed
qed

text \<open>Results come from batches whose keys have right indices.\<close>

lemma scan_loop_good:
  assumes "scan_loop ops db it paginated gap e froms m res = Ok res'" and "keys_right it m"
    and "\<And>r. r \<in> ran res \<Longrightarrow> good db it r" and "e \<le> it_max_keys it" and "gap \<noteq> 0" and "\<And>f. f \<in> set froms \<Longrightarrow> f < e"
    and "r \<in> ran res'"
  shows "good db it r"
  using assms(1-3,6,7)
proof (induction froms arbitrary: m res)
  case (Cons f froms)
  from Cons.prems(1) show ?case
  proof (cases rule: scan_loop_cases)
    case (goes_on m' ks sw ch rv rs)
    have lt: "f < e" using Cons.prems(4) by simp
    have right: "keys_right it m'"
      using batch_keys(3) [OF goes_on(1) lt assms(4,5)] Cons.prems(2) unfolding keys_right_def by blast
    have "good db it r" if "r \<in> ran (insert_results (so_id ops) rs res)" for r
      using that insert_results_ran [of "so_id ops" rs res] Cons.prems(3)
        process_good [OF right _ goes_on(3)] query_batch_of [of db ops ks] goes_on(2) by auto
    with goes_on(4) Cons.IH [OF _ right] Cons.prems(4,5) show ?thesis by (auto split: if_splits)
  qed (use Cons.prems in simp)
qed simp

end

context recovery
begin

lemma scan_pages:
  assumes "scan_swaps_paginated ops db it start page = Ok res" and "min (it_gap_limit it) (it_max_keys it) \<noteq> 0"
    and "case page of Some p \<Rightarrow> pagination_end p = Ok e \<and> s = pg_start_index p
         | None \<Rightarrow> e = it_max_keys it \<and> s = (case start of Some i \<Rightarrow> i | None \<Rightarrow> 0)"
  shows "scan_loop ops db it (page \<noteq> None) (min (it_gap_limit it) (it_max_keys it)) e
    (map word_of_nat (step_range (unat s) (unat e) (unat (min (it_gap_limit it) (it_max_keys it))))) Map.empty Map.empty
    = Ok res"
  using assms by (auto simp: scan_swaps_paginated_def Let_def split: option.splits)

lemma scan_good:
  assumes "scan_swaps_paginated ops db it start page = Ok res" and "r \<in> ran res"
    and "\<And>p e. page = Some p \<Longrightarrow> pagination_end p = Ok e \<Longrightarrow> e \<le> it_max_keys it"
  shows "good db it r"
proof -
  let ?gap = "min (it_gap_limit it) (it_max_keys it)"
  have gap: "?gap \<noteq> 0" using assms(1,2) by (auto simp: scan_swaps_paginated_def Let_def ran_def)
  obtain s e where se: "case page of Some p \<Rightarrow> pagination_end p = Ok e \<and> s = pg_start_index p
      | None \<Rightarrow> e = it_max_keys it \<and> s = (case start of Some i \<Rightarrow> i | None \<Rightarrow> 0)"
    using assms(1) gap by (cases page) (auto simp: scan_swaps_paginated_def Let_def)
  then have e: "e \<le> it_max_keys it" using assms(3) by (auto split: option.splits)
  have "word_of_nat f < e" if "f \<in> set (step_range (unat s) (unat e) (unat ?gap))" for f
    using step_range_mem [OF that] unsigned_less [of e, where 'a = nat]
    by (simp add: word_less_nat_alt unat_of_nat_u32)
  then show ?thesis
    by (intro scan_loop_good [OF scan_pages [OF assms(1) gap se] _ _ e gap _ assms(2)])
      (auto simp: keys_right_def ran_def)
qed

lemma page_complete:
  assumes "scan_swaps_paginated ops db it start (Some p) = Ok res" and "min (it_gap_limit it) (it_max_keys it) \<noteq> 0"
    and "pagination_end p = Ok e" and "e \<le> it_max_keys it"
    and "unat (pg_start_index p) \<le> n" and "n < unat e"
    and "\<And>ks. it_key_at it n \<in> set ks \<Longrightarrow> x \<in> covered_by db ks"
  shows "x \<in> dom res"
proof -
  have "scan_loop ops db it (Some p \<noteq> None) (min (it_gap_limit it) (it_max_keys it)) e
      (map word_of_nat (step_range (unat (pg_start_index p)) (unat e) (unat (min (it_gap_limit it) (it_max_keys it)))))
      Map.empty Map.empty = Ok res"
    by (rule scan_pages [OF assms(1,2)]) (simp add: assms(3))
  then show ?thesis
    by (rule scan_loop_complete [OF _ assms(4,2,5,6,7)]) simp_all
qed

lemma gapless_complete:
  assumes "scan_swaps_paginated ops db it None None = Ok res" and "gap = min (it_gap_limit it) (it_max_keys it)"
    and "gap \<noteq> 0" and "n < unat (it_max_keys it)"
    and "\<And>ks. it_key_at it n \<in> set ks \<Longrightarrow> x \<in> covered_by db ks"
    and "\<forall>f \<in> set (step_range 0 (unat (it_max_keys it)) (unat gap)). f \<le> n \<longrightarrow>
      query_batch ops db (map (it_key_at it) [f..<min (f + unat gap) (unat (it_max_keys it))]) \<noteq> ([], [], [])"
  shows "x \<in> dom res"
proof -
  have "scan_loop ops db it (None \<noteq> (None :: pagination option)) gap (it_max_keys it)
      (map word_of_nat (step_range (unat (0 :: u32)) (unat (it_max_keys it)) (unat gap))) Map.empty Map.empty = Ok res"
    unfolding assms(2) by (rule scan_pages [OF assms(1) assms(3) [unfolded assms(2)]]) simp
  then show ?thesis
    by (rule scan_loop_complete [OF _ order_refl assms(3) _ assms(4,5)]) (use assms(6) in auto)
qed

end

context recovery
begin

lemma scan_loop_ids:
  assumes "scan_loop ops db it paginated gap e froms m res = Ok res'"
    and "\<And>x r. res x = Some r \<Longrightarrow> so_id ops r = x" and "finite (dom res)"
  shows "(\<forall>x r. res' x = Some r \<longrightarrow> so_id ops r = x) \<and> finite (dom res')"
  using assms
proof (induction froms arbitrary: m res)
  case (Cons f froms)
  from Cons.prems(1) show ?case
  proof (cases rule: scan_loop_cases)
    case (goes_on m' ks sw ch rv rs)
    let ?res = "insert_results (so_id ops) rs res"
    have "so_id ops r = x" if "?res x = Some r" for x r
      using that by (rule insert_results_ids [where ident = "so_id ops", rotated]) (rule Cons.prems(2))
    moreover have "finite (dom ?res)" using Cons.prems(3) by (simp add: insert_results_dom)
    ultimately show ?thesis using goes_on(4) Cons.IH [of m' ?res] by (auto split: if_splits)
  qed (use Cons.prems in simp)
qed simp

lemma scan_ids:
  assumes "scan_swaps_paginated ops db it start page = Ok res"
  shows "(\<forall>x r. res x = Some r \<longrightarrow> so_id ops r = x) \<and> finite (dom res)"
  using assms
  by (auto simp: scan_swaps_paginated_def Let_def split: if_splits option.splits dest!: scan_loop_ids)

lemma scan_complete:
  assumes "scan_swaps_paginated ops db it None page = Ok res" and "key_scanned ops db it page n"
    and "\<And>p e. page = Some p \<Longrightarrow> pagination_end p = Ok e \<Longrightarrow> e \<le> it_max_keys it"
    and "\<And>ks. it_key_at it n \<in> set ks \<Longrightarrow> x \<in> covered_by db ks"
  shows "x \<in> dom res"
proof (cases page)
  case None
  show ?thesis
    by (rule gapless_complete [OF assms(1) [unfolded None] refl _ _ assms(4)])
      (use assms(2) None in \<open>auto simp: key_scanned_def Let_def list_all_iff\<close>)
next
  case (Some p)
  with assms(2) obtain e where e: "pagination_end p = Ok e" by (auto simp: key_scanned_def Let_def split: result.splits)
  show ?thesis
    by (rule page_complete [OF assms(1) [unfolded Some] _ e assms(3) [OF Some e] _ _ assms(4)])
      (use assms(2) Some e in \<open>simp_all add: key_scanned_def Let_def\<close>)
qed

end

subsection \<open>The two kinds of recovery\<close>

definition rescue_covered :: "swap list \<Rightarrow> chain_swap_info list \<Rightarrow> reverse_swap list \<Rightarrow> string set" where
  "rescue_covered sw ch rv = sw_id ` set sw
     \<union> (cs_id \<circ> ci_swap) ` {c \<in> set ch. cd_their_public_key (ci_receiving c) \<noteq> None}"

definition restore_covered :: "swap list \<Rightarrow> chain_swap_info list \<Rightarrow> reverse_swap list \<Rightarrow> string set" where
  "restore_covered sw ch rv = sw_id ` set sw \<union> (cs_id \<circ> ci_swap) ` set ch \<union> rs_id ` set rv"

text \<open>The index reported for refunding is one of the key that the swap has for refunds, and the one
  for claiming is one of the key that it has for claims.\<close>

definition refund_index_right :: "rescue_db \<Rightarrow> pubkey_iterator \<Rightarrow> string \<Rightarrow> u32 \<Rightarrow> bool" where
  "refund_index_right db it x i \<longleftrightarrow>
     (\<exists>s \<in> set (rd_swaps db). sw_id s = x \<and> sw_refund_public_key s = Some (it_key_at it (unat i)))
     \<or> (\<exists>c \<in> set (rd_chain_swaps db). cs_id (ci_swap c) = x
          \<and> cd_their_public_key (ci_receiving c) = Some (it_key_at it (unat i)))"

definition claim_index_right :: "rescue_db \<Rightarrow> pubkey_iterator \<Rightarrow> string \<Rightarrow> u32 \<Rightarrow> bool" where
  "claim_index_right db it x i \<longleftrightarrow>
     (\<exists>s \<in> set (rd_reverse_swaps db). rs_id s = x \<and> rs_claim_public_key s = Some (it_key_at it (unat i)))
     \<or> (\<exists>c \<in> set (rd_chain_swaps db). cs_id (ci_swap c) = x
          \<and> cd_their_public_key (ci_sending c) = Some (it_key_at it (unat i)))"

definition rescue_good :: "rescue_db \<Rightarrow> pubkey_iterator \<Rightarrow> rescuable_swap \<Rightarrow> bool" where
  "rescue_good db it r \<longleftrightarrow> refund_index_right db it (sb_id (ru_base r)) (ba_key_index (ru_details r))"

definition restore_good :: "rescue_db \<Rightarrow> pubkey_iterator \<Rightarrow> restorable_swap \<Rightarrow> bool" where
  "restore_good db it r \<longleftrightarrow>
     (\<forall>i. refund_key_index r = Some i \<longrightarrow> refund_index_right db it (sb_id (re_base r)) i)
     \<and> (\<forall>i. claim_key_index r = Some i \<longrightarrow> claim_index_right db it (sb_id (re_base r)) i)"

lemma create_rescuable_swap_Ok:
  "create_rescuable_swap lib ks s = Ok r \<Longrightarrow> sb_id (ru_base r) = sw_id s
   \<and> (\<exists>k. sw_refund_public_key s = Some k \<and> ks k = Some (ba_key_index (ru_details r)))"
  by (auto simp: create_rescuable_swap_def lookup_from_keys_def rescuable_of_swap_def sw_details_base_def sw_base_def)

lemma create_rescuable_chain_swap_Ok:
  "create_rescuable_chain_swap lib ks c = Ok r \<Longrightarrow> sb_id (ru_base r) = cs_id (ci_swap c)
   \<and> (\<exists>k. cd_their_public_key (ci_receiving c) = Some k \<and> ks k = Some (ba_key_index (ru_details r)))"
  by (auto simp: create_rescuable_chain_swap_def lookup_from_keys_def rescuable_of_chain_def cd_details_base_def
      ci_base_def Let_def)

lemma create_restorable_swap_Ok:
  "create_restorable_swap lib ks s = Ok r \<Longrightarrow> sb_id (re_base r) = sw_id s \<and> claim_key_index r = None
   \<and> (\<exists>k. sw_refund_public_key s = Some k \<and> ks k = refund_key_index r)"
  by (auto simp: create_restorable_swap_def lookup_from_keys_def restorable_of_swap_def sw_details_base_def sw_base_def
      claim_key_index_def refund_key_index_def)

lemma side_details_Ok: "side_details lib x side i = Ok d \<Longrightarrow> ba_key_index d = i"
  by (auto simp: side_details_def cd_details_base_def)

lemma create_restorable_chain_swap_Ok:
  assumes "create_restorable_chain_swap lib ks c = Ok r"
  shows "sb_id (re_base r) = cs_id (ci_swap c)
    \<and> (\<forall>i. refund_key_index r = Some i \<longrightarrow> (\<exists>k. cd_their_public_key (ci_receiving c) = Some k \<and> ks k = Some i))
    \<and> (\<forall>i. claim_key_index r = Some i \<longrightarrow> (\<exists>k. cd_their_public_key (ci_sending c) = Some k \<and> ks k = Some i))"
  using assms
  by (auto simp: create_restorable_chain_swap_def chain_claim_details_def chain_refund_details_def Let_def ci_base_def
      lookup_optional_from_keys_def refund_key_index_def claim_key_index_def
      split: if_splits option.splits bind_splits dest!: side_details_Ok)

lemma create_restorable_reverse_swap_Ok:
  assumes "create_restorable_reverse_swap lib ks s = Ok r"
  shows "sb_id (re_base r) = rs_id s \<and> refund_key_index r = None
    \<and> (\<forall>i. claim_key_index r = Some i \<longrightarrow> (\<exists>k. rs_claim_public_key s = Some k \<and> ks k = Some i))"
  using assms
  by (auto simp: create_restorable_reverse_swap_def lookup_from_keys_def restorable_of_reverse_def rs_details_base_def
      rs_base_def claim_key_index_def refund_key_index_def split: if_splits)

lemma process_rescuable_Ok:
  assumes "process_rescuable_swaps lib m sw ch rv = Ok rs"
  obtains submarine chain where "rs = submarine @ chain" "r_mapM (create_rescuable_swap lib m) sw = Ok submarine"
    "r_mapM (create_rescuable_chain_swap lib m) (filter (\<lambda>c. cd_their_public_key (ci_receiving c) \<noteq> None) ch) = Ok chain"
  using assms by (auto simp: process_rescuable_swaps_def)

lemma process_restorable_Ok:
  assumes "process_restorable_swaps lib m sw ch rv = Ok rs"
  obtains submarine chain reversed where "rs = submarine @ chain @ reversed"
    "r_mapM (create_restorable_swap lib m) sw = Ok submarine"
    "r_mapM (create_restorable_chain_swap lib m) ch = Ok chain"
    "r_mapM (create_restorable_reverse_swap lib m) rv = Ok reversed"
  using assms by (auto simp: process_restorable_swaps_def)

lemma process_rescuable_ids:
  assumes "process_rescuable_swaps lib m sw ch rv = Ok rs"
  shows "(sb_id \<circ> ru_base) ` set rs = rescue_covered sw ch rv"
  using assms
proof (cases rule: process_rescuable_Ok)
  case (1 submarine chain)
  have "(sb_id \<circ> ru_base) ` set submarine = sw_id ` set sw"
    by (rule r_mapM_image [OF 1(2)]) (simp add: create_rescuable_swap_Ok)
  moreover have "(sb_id \<circ> ru_base) ` set chain
      = (cs_id \<circ> ci_swap) ` set (filter (\<lambda>c. cd_their_public_key (ci_receiving c) \<noteq> None) ch)"
    by (rule r_mapM_image [OF 1(3)]) (simp add: create_rescuable_chain_swap_Ok)
  ultimately show ?thesis unfolding 1(1) rescue_covered_def by (simp only: set_append image_Un set_filter)
qed

lemma process_restorable_ids:
  assumes "process_restorable_swaps lib m sw ch rv = Ok rs"
  shows "(sb_id \<circ> re_base) ` set rs = restore_covered sw ch rv"
  using assms
proof (cases rule: process_restorable_Ok)
  case (1 submarine chain reversed)
  have "(sb_id \<circ> re_base) ` set submarine = sw_id ` set sw"
    by (rule r_mapM_image [OF 1(2)]) (simp add: create_restorable_swap_Ok)
  moreover have "(sb_id \<circ> re_base) ` set chain = (cs_id \<circ> ci_swap) ` set ch"
    by (rule r_mapM_image [OF 1(3)]) (simp add: create_restorable_chain_swap_Ok)
  moreover have "(sb_id \<circ> re_base) ` set reversed = rs_id ` set rv"
    by (rule r_mapM_image [OF 1(4)]) (simp add: create_restorable_reverse_swap_Ok)
  ultimately show ?thesis unfolding 1(1) restore_covered_def by (simp only: set_append image_Un Un_assoc)
qed

lemma refund_index_rightI:
  assumes "keys_right it m" and "m k = Some i"
  shows "s \<in> set (rd_swaps db) \<Longrightarrow> sw_refund_public_key s = Some k \<Longrightarrow> refund_index_right db it (sw_id s) i"
    and "c \<in> set (rd_chain_swaps db) \<Longrightarrow> cd_their_public_key (ci_receiving c) = Some k
      \<Longrightarrow> refund_index_right db it (cs_id (ci_swap c)) i"
proof -
  have "k = it_key_at it (unat i)" using assms by (simp add: keys_right_def)
  then show "s \<in> set (rd_swaps db) \<Longrightarrow> sw_refund_public_key s = Some k \<Longrightarrow> refund_index_right db it (sw_id s) i"
    "c \<in> set (rd_chain_swaps db) \<Longrightarrow> cd_their_public_key (ci_receiving c) = Some k
      \<Longrightarrow> refund_index_right db it (cs_id (ci_swap c)) i"
    unfolding refund_index_right_def by blast+
qed

lemma claim_index_rightI:
  assumes "keys_right it m" and "m k = Some i"
  shows "s \<in> set (rd_reverse_swaps db) \<Longrightarrow> rs_claim_public_key s = Some k \<Longrightarrow> claim_index_right db it (rs_id s) i"
    and "c \<in> set (rd_chain_swaps db) \<Longrightarrow> cd_their_public_key (ci_sending c) = Some k
      \<Longrightarrow> claim_index_right db it (cs_id (ci_swap c)) i"
proof -
  have "k = it_key_at it (unat i)" using assms by (simp add: keys_right_def)
  then show "s \<in> set (rd_reverse_swaps db) \<Longrightarrow> rs_claim_public_key s = Some k \<Longrightarrow> claim_index_right db it (rs_id s) i"
    "c \<in> set (rd_chain_swaps db) \<Longrightarrow> cd_their_public_key (ci_sending c) = Some k
      \<Longrightarrow> claim_index_right db it (cs_id (ci_swap c)) i"
    unfolding claim_index_right_def by blast+
qed

lemma rescuable_good:
  assumes "keys_right it m"
  shows "create_rescuable_swap lib m s = Ok r \<Longrightarrow> s \<in> set (rd_swaps db) \<Longrightarrow> rescue_good db it r"
    and "create_rescuable_chain_swap lib m c = Ok r \<Longrightarrow> c \<in> set (rd_chain_swaps db) \<Longrightarrow> rescue_good db it r"
  using refund_index_rightI [OF assms]
  by (auto simp: rescue_good_def dest!: create_rescuable_swap_Ok create_rescuable_chain_swap_Ok)

lemma restorable_good:
  assumes "keys_right it m"
  shows "create_restorable_swap lib m s = Ok r \<Longrightarrow> s \<in> set (rd_swaps db) \<Longrightarrow> restore_good db it r"
    and "create_restorable_chain_swap lib m c = Ok r \<Longrightarrow> c \<in> set (rd_chain_swaps db) \<Longrightarrow> restore_good db it r"
    and "create_restorable_reverse_swap lib m v = Ok r \<Longrightarrow> v \<in> set (rd_reverse_swaps db) \<Longrightarrow> restore_good db it r"
  using refund_index_rightI [OF assms] claim_index_rightI [OF assms]
  by (auto simp: restore_good_def
      dest!: create_restorable_swap_Ok create_restorable_chain_swap_Ok create_restorable_reverse_swap_Ok)

interpretation rescue_recovery: recovery "rescue_ops lib" rescue_covered rescue_good for lib
proof (standard, goal_cases)
  case (1 m sw ch rv rs)
  then show ?case using process_rescuable_ids [of lib m sw ch rv rs] by (simp add: rescue_ops_def)
next
  case (2 it m db sw ch rv rs r)
  from 2(3) have "process_rescuable_swaps lib m sw ch rv = Ok rs" by (simp add: rescue_ops_def)
  then show ?case
    by (cases rule: process_rescuable_Ok)
      (use 2(1,2,4) rescuable_good [of it m lib] in \<open>auto simp: batch_of_def dest!: r_mapM_mem\<close>)
qed

interpretation restore_recovery: recovery "restore_ops lib" restore_covered restore_good for lib
proof (standard, goal_cases)
  case (1 m sw ch rv rs)
  then show ?case using process_restorable_ids [of lib m sw ch rv rs] by (simp add: restore_ops_def)
next
  case (2 it m db sw ch rv rs r)
  from 2(3) have "process_restorable_swaps lib m sw ch rv = Ok rs" by (simp add: restore_ops_def)
  then show ?case
    by (cases rule: process_restorable_Ok)
      (use 2(1,2,4) restorable_good [of it m lib] in \<open>auto simp: batch_of_def dest!: r_mapM_mem\<close>)
qed

subsection \<open>What a user gets back\<close>

text \<open>\<open>into_values\<close> of a hash map: each value once per key, in some order.\<close>

definition lists_values :: "((string \<rightharpoonup> 'r) \<Rightarrow> 'r list) \<Rightarrow> bool" where
  "lists_values f \<longleftrightarrow> (\<forall>m. finite (dom m) \<longrightarrow> (\<exists>ks. distinct ks \<and> set ks = dom m \<and> f m = map (the \<circ> m) ks))"

text \<open>The swaps of which a key is one of the user's.\<close>

definition key_owns :: "rescue_db \<Rightarrow> string \<Rightarrow> string \<Rightarrow> bool" where
  "key_owns db k x \<longleftrightarrow>
     (\<exists>s \<in> set (rd_swaps db). sw_id s = x \<and> sint (sw_version s) > 0 \<and> sw_refund_public_key s = Some k)
     \<or> (\<exists>c \<in> set (rd_chain_swaps db). cs_id (ci_swap c) = x
          \<and> (cd_their_public_key (ci_sending c) = Some k \<or> cd_their_public_key (ci_receiving c) = Some k))
     \<or> (\<exists>s \<in> set (rd_reverse_swaps db). rs_id s = x \<and> sint (rs_version s) > 0 \<and> rs_claim_public_key s = Some k)"

lemma key_owns_covered:
  "key_owns db k x \<Longrightarrow> k \<in> set ks
   \<Longrightarrow> x \<in> (case query_batch (restore_ops lib) db ks of (sw, ch, rv) \<Rightarrow> restore_covered sw ch rv)"
  by (auto simp: key_owns_def query_batch_def restore_ops_def restore_covered_def swaps_of_keys_def
      chain_swaps_of_keys_def reverse_swaps_of_keys_def key_among_def)

lemma pagination_below_max: "it_pagination it = Some p \<Longrightarrow> e \<le> it_max_keys it"
  by (cases it) simp_all

lemma listed_values:
  assumes "lists_values f" and "finite (dom m)" and "\<And>x r. m x = Some r \<Longrightarrow> ident r = x"
  shows "set (f m) = ran m" and "ident ` set (f m) = dom m" and "distinct (map ident (f m))"
proof -
  from assms(1,2) obtain ks where ks: "distinct ks" "set ks = dom m" and f: "f m = map (the \<circ> m) ks"
    by (auto simp: lists_values_def)
  have ids: "ident (the (m k)) = k" if "k \<in> dom m" for k using assms(3) that by auto
  show "set (f m) = ran m" using ks(2) unfolding f by (force simp: ran_def dom_def)
  have "map ident (f m) = ks" unfolding f using ids ks(2) by (auto intro: map_idI)
  then show "ident ` set (f m) = dom m" "distinct (map ident (f m))" using ks by (metis list.set_map, simp)
qed

lemma attach_loop_distinct:
  "distinct (map (sb_id \<circ> re_base) rs)
   \<Longrightarrow> attach_loop m rs = map (\<lambda>r. r\<lparr>re_metadata := m (sb_id (re_base r))\<rparr>) rs"
proof (induction rs arbitrary: m)
  case (Cons r rs)
  then have "sb_id (re_base r') \<noteq> sb_id (re_base r)" if "r' \<in> set rs" for r' using that by (auto simp: image_iff)
  with Cons show ?case by simp
qed simp

lemma map_of_map_filter:
  "map_of (map (\<lambda>(i, d). (i, f d)) (filter (\<lambda>(i, _). i \<in> A) xs)) x
   = (if x \<in> A then map_option f (map_of xs x) else None)"
  by (induction xs) auto

text \<open>The row of the metadata that is attached is the last one of the swap.\<close>

definition stored_metadata :: "rescue_lib \<Rightarrow> rescue_db \<Rightarrow> string \<Rightarrow> string option" where
  "stored_metadata lib db x = map_option (rl_hex_encode lib) (map_of (rev (rd_metadata db)) x)"

lemma attach_metadata_Ok:
  assumes "attach_metadata lib db rs = Ok rs'" and "distinct (map (sb_id \<circ> re_base) rs)"
  shows "rs' = map (\<lambda>r. r\<lparr>re_metadata := stored_metadata lib db (sb_id (re_base r))\<rparr>) rs"
  using assms attach_loop_distinct [OF assms(2)]
  by (auto simp: attach_metadata_def stored_metadata_def Let_def rev_map rev_filter map_of_map_filter
      split: if_splits)

lemma restore_good_metadata [simp]: "restore_good db it (r\<lparr>re_metadata := x\<rparr>) = restore_good db it r"
  by (simp add: restore_good_def refund_key_index_def claim_key_index_def)

text \<open>
  C22: restoring from keys gives every swap with a key that the scan reaches, each swap once, in
  the order of key indices and then of creation. The index with which a swap is to be refunded or
  claimed is that of the key the swap has for it, and its metadata is what is stored for it.
\<close>

theorem restore_finds_swaps:
  assumes "restore lib db values_of (QueryKeys it) = Ok rs" and "lists_values values_of"
  shows "(\<forall>n x. key_scanned (restore_ops lib) db it (it_pagination it) n \<and> key_owns db (it_key_at it n) x
         \<longrightarrow> x \<in> (sb_id \<circ> re_base) ` set rs)
     \<and> list_all (restore_good db it) rs
     \<and> list_all (\<lambda>r. re_metadata r = stored_metadata lib db (sb_id (re_base r))) rs
     \<and> distinct (map (sb_id \<circ> re_base) rs)
     \<and> sorted (map (\<lambda>r. (restore_sort_index r, sb_created_at (re_base r))) rs)"
proof -
  let ?id = "sb_id \<circ> re_base"
  from assms(1) obtain m ms where scan: "scan_swaps_paginated (restore_ops lib) db it None (it_pagination it) = Ok m"
    and meta: "attach_metadata lib db (values_of m) = Ok ms"
    and rs: "rs = sort_key (\<lambda>r. (restore_sort_index r, sb_created_at (re_base r))) ms"
    by (auto simp: restore_def)
  have "so_id (restore_ops lib) = ?id" by (simp add: restore_ops_def)
  with restore_recovery.scan_ids [OF scan] have fin: "finite (dom m)" and ids: "\<And>y r. m y = Some r \<Longrightarrow> ?id r = y"
    by auto
  note listed = listed_values [where ident = ?id, OF assms(2) fin ids]
  have ms: "ms = map (\<lambda>r. r\<lparr>re_metadata := stored_metadata lib db (sb_id (re_base r))\<rparr>) (values_of m)"
    by (rule attach_metadata_Ok [OF meta listed(3)])
  then have same: "map ?id ms = map ?id (values_of m)" by simp
  have "x \<in> ?id ` set rs"
    if "key_scanned (restore_ops lib) db it (it_pagination it) n" "key_owns db (it_key_at it n) x" for n x
  proof -
    have "x \<in> dom m"
      by (rule restore_recovery.scan_complete [OF scan that(1)])
        (blast intro: pagination_below_max, rule key_owns_covered [OF that(2)])
    moreover have "?id ` set rs = set (map ?id ms)" by (simp add: rs)
    ultimately show ?thesis unfolding same using listed(2) by simp
  qed
  moreover have "restore_good db it r" if "r \<in> set (values_of m)" for r
    using restore_recovery.scan_good [OF scan] that listed(1) pagination_below_max by blast
  then have "list_all (restore_good db it) rs" by (auto simp: rs ms list_all_iff)
  moreover have "list_all (\<lambda>r. re_metadata r = stored_metadata lib db (sb_id (re_base r))) rs"
    by (auto simp: rs ms list_all_iff)
  moreover have "distinct (map ?id ms)" using listed(3) same by simp
  then have "distinct (map ?id rs)" by (simp add: rs distinct_map)
  moreover have "sorted (map (\<lambda>r. (restore_sort_index r, sb_created_at (re_base r))) rs)" by (simp add: rs)
  ultimately show ?thesis by blast
qed

text \<open>The swaps with an address of the user.\<close>

definition address_owns :: "rescue_db \<Rightarrow> string \<Rightarrow> string \<Rightarrow> bool" where
  "address_owns db address x \<longleftrightarrow>
     (\<exists>s \<in> set (rd_swaps db). sw_id s = x \<and> sw_refund_address s = Some address)
     \<or> (\<exists>c \<in> set (rd_chain_swaps db). cs_id (ci_swap c) = x
          \<and> (cd_claim_address (ci_sending c) = Some address \<or> cd_claim_address (ci_receiving c) = Some address))
     \<or> (\<exists>s \<in> set (rd_reverse_swaps db). rs_id s = x \<and> sint (rs_version s) > 0 \<and> rs_claim_address s = Some address)"

lemma evm_restorable_id: "evm_restorable s = Ok r \<Longrightarrow> (sb_id \<circ> re_base) r = sw_id s"
  by (auto simp: evm_restorable_def sw_base_def)

lemma scan_by_address_Ok:
  assumes "scan_swaps_by_address lib db address = Ok m"
  shows "dom m = {x. address_owns db address x}" and "finite (dom m)" and "m x = Some r \<Longrightarrow> (sb_id \<circ> re_base) r = x"
proof -
  let ?id = "sb_id \<circ> re_base"
  from assms obtain rs evm where rs: "process_restorable_swaps lib Map.empty []
      (filter (\<lambda>c. cd_claim_address (ci_sending c) = Some address \<or> cd_claim_address (ci_receiving c) = Some address)
        (rd_chain_swaps db))
      (filter (\<lambda>s. sint (rs_version s) > 0 \<and> rs_claim_address s = Some address) (rd_reverse_swaps db)) = Ok rs"
    and evm: "r_mapM evm_restorable (filter (\<lambda>s. sw_refund_address s = Some address) (rd_swaps db)) = Ok evm"
    and m: "m = insert_results ?id evm (insert_results ?id rs Map.empty)"
    by (auto simp: scan_swaps_by_address_def Let_def split: if_splits)
  have "?id ` set evm = sw_id ` set (filter (\<lambda>s. sw_refund_address s = Some address) (rd_swaps db))"
    by (rule r_mapM_image [OF evm evm_restorable_id])
  then show "dom m = {x. address_owns db address x}"
    unfolding m insert_results_dom process_restorable_ids [OF rs] restore_covered_def address_owns_def by auto
  show "finite (dom m)" by (simp add: m insert_results_dom)
  have "?id r' = y" if "insert_results ?id rs Map.empty y = Some r'" for y r'
    using that by (rule insert_results_ids [where ident = ?id, rotated]) simp
  then show "m x = Some r \<Longrightarrow> ?id r = x"
    unfolding m using insert_results_ids [where ident = ?id and m = "insert_results ?id rs Map.empty"] by blast
qed

lemma xpub_request_Ok:
  assumes "iterator_of_params at_path (RescueXpub path gap page) = Ok it"
    and "restore lib db values_of (QueryKeys it) = Ok rs"
  shows "(\<forall>g. gap = Some g \<longrightarrow> 0 < g \<and> g \<le> MAX_GAP_LIMIT)
    \<and> (\<forall>p. page = Some p \<longrightarrow> 0 < pg_limit p \<and> pg_limit p \<le> MAX_PAGINATION_LIMIT
         \<and> unat (pg_start_index p) + unat (pg_limit p) < 2 ^ 32)"
proof -
  from assms(1) have gap: "gap = Some g \<Longrightarrow> 0 < g \<and> g \<le> MAX_GAP_LIMIT" for g
    by (auto simp: iterator_of_params_def word_gt_0 not_less split: if_splits)
  from assms(1) have page: "page = Some p \<Longrightarrow> 0 < pg_limit p \<and> pg_limit p \<le> MAX_PAGINATION_LIMIT" for p
    by (auto simp: iterator_of_params_def word_gt_0 not_less split: if_splits)
  from assms(1) obtain x where it: "it = XpubIterator x" and "xk_pagination x = page"
    and "xk_gap_limit x = (case gap of Some g \<Rightarrow> g | None \<Rightarrow> DEFAULT_GAP_LIMIT)"
    by (auto simp: iterator_of_params_def xpub_iterator_new_def with_pagination_def Let_def split: if_splits)
  moreover from this gap have "xk_gap_limit x \<noteq> 0"
    by (auto simp: DEFAULT_GAP_LIMIT_def split: option.splits)
  ultimately have "unat (pg_start_index p) + unat (pg_limit p) < 2 ^ 32" if "page = Some p" for p
    using assms(2) that
    by (auto simp: restore_def scan_swaps_paginated_def Let_def pagination_end_def min_def split: if_splits)
  with gap page show ?thesis by blast
qed

text \<open>
  Swaps are restored by an address only for who signs, with its key, a time stamp that is at most
  a minute away, and then exactly those that have the address, each once. Requests for keys of an
  extended key are limited in the gap and the size of a page, which stays within the indices.
\<close>

theorem restore_requests_limited:
  assumes "swap_restore lib db values_of at_path recover now params = Ok rs" and "lists_values values_of"
  shows "case params of
      RescueAddress address timestamp signature \<Rightarrow>
        recover address timestamp signature = Some address
        \<and> \<bar>now - int (unat timestamp)\<bar> \<le> 60
        \<and> (sb_id \<circ> re_base) ` set rs = {x. address_owns db address x} \<and> distinct (map (sb_id \<circ> re_base) rs)
    | RescueXpub path gap page \<Rightarrow>
        (\<forall>g. gap = Some g \<longrightarrow> 0 < g \<and> g \<le> MAX_GAP_LIMIT)
        \<and> (\<forall>p. page = Some p \<longrightarrow> 0 < pg_limit p \<and> pg_limit p \<le> MAX_PAGINATION_LIMIT
             \<and> unat (pg_start_index p) + unat (pg_limit p) < 2 ^ 32)
    | _ \<Rightarrow> True"
proof (cases params)
  case (RescueAddress address timestamp signature)
  let ?id = "sb_id \<circ> re_base"
  from assms(1) RescueAddress have proven: "verify_restore_signature recover now address timestamp signature = Ok ()"
    and restored: "restore lib db values_of (QueryAddress address) = Ok rs"
    by (auto simp: swap_restore_def restore_query_of_params_def)
  from restored obtain m ms where scan: "scan_swaps_by_address lib db address = Ok m"
    and meta: "attach_metadata lib db (values_of m) = Ok ms"
    and rs: "rs = sort_key (\<lambda>r. (restore_sort_index r, sb_created_at (re_base r))) ms"
    by (auto simp: restore_def)
  note listed = listed_values [where ident = ?id, OF assms(2) scan_by_address_Ok(2,3) [OF scan]]
  have "map ?id ms = map ?id (values_of m)"
    using attach_metadata_Ok [OF meta listed(3)] by simp
  then have "?id ` set ms = dom m" "distinct (map ?id ms)"
    using listed(2,3) by (metis list.set_map, simp)
  then have "?id ` set rs = {x. address_owns db address x}" "distinct (map ?id rs)"
    unfolding scan_by_address_Ok(1) [OF scan] by (simp_all add: rs distinct_map)
  moreover have "recover address timestamp signature = Some address" "\<bar>now - int (unat timestamp)\<bar> \<le> 60"
    using proven by (auto simp: verify_restore_signature_def RESTORE_SIGNATURE_VALIDITY_SECS_def split: if_splits)
  ultimately show ?thesis using RescueAddress by simp
next
  case (RescueXpub path gap page)
  with assms(1) obtain it where "iterator_of_params at_path (RescueXpub path gap page) = Ok it"
    "restore lib db values_of (QueryKeys it) = Ok rs"
    by (auto simp: swap_restore_def restore_query_of_params_def)
  from xpub_request_Ok [OF this] RescueXpub show ?thesis by simp
qed simp_all

text \<open>
  A chain swap that is found by the key for claiming makes the rescue fail, unless the key for
  refunds is known too; restoring gives the swap without details for a refund.
\<close>

lemma rescue_fails_for_claim_key:
  assumes "c \<in> set ch" and "cd_their_public_key (ci_receiving c) = Some k" and "m k = None"
  shows "\<not> is_ok (process_rescuable_swaps lib m sw ch rv)"
proof
  assume "is_ok (process_rescuable_swaps lib m sw ch rv)"
  then obtain rs where "process_rescuable_swaps lib m sw ch rv = Ok rs" by (cases "process_rescuable_swaps lib m sw ch rv") auto
  then show False
  proof (cases rule: process_rescuable_Ok)
    case (1 submarine chain)
    have "c \<in> set (filter (\<lambda>c. cd_their_public_key (ci_receiving c) \<noteq> None) ch)" using assms(1,2) by simp
    with 1(3) obtain r where "create_rescuable_chain_swap lib m c = Ok r" by (blast dest: r_mapM_all_mem)
    then show False using assms(2,3) create_rescuable_chain_swap_Ok by fastforce
  qed
qed

subsection \<open>Witnesses\<close>

definition example_values :: "(string \<rightharpoonup> 'r) \<Rightarrow> 'r list" where
  "example_values m = map (the \<circ> m) (sorted_list_of_set (dom m))"

lemma example_values_listed: "lists_values example_values"
  unfolding lists_values_def example_values_def by (metis sorted_list_of_set.set_sorted_key_list_of_set
      sorted_list_of_set.distinct_sorted_key_list_of_set)

definition example_tree :: rescue_tree where
  "example_tree = \<lparr>ot_claim_leaf = \<lparr>tl_version = 192, tl_output = ''c''\<rparr>,
     ot_refund_leaf = \<lparr>tl_version = 192, tl_output = ''r''\<rparr>, ot_covenant_claim_leaf = None,
     ot_refund_without_boltz_leaf = None, ot_unilateral_claim_leaf = None, ot_unilateral_refund_leaf = None,
     ot_unilateral_refund_without_boltz_leaf = None\<rparr>"

definition example_rescue_lib :: rescue_lib where
  "example_rescue_lib = \<lparr>rl_parse_tree = (\<lambda>_. Some example_tree),
     rl_currencies = (\<lambda>_. Some (Some \<lparr>rw_derive_pubkey = (\<lambda>_. Some ''boltz''), rw_decode_address = Some \<circ> map of_char,
       rw_derive_blinding_key = (\<lambda>_. Some ''blind'')\<rparr>)), rl_hex_encode = (\<lambda>_. ''00'')\<rparr>"

definition example_restored :: swap where
  "example_restored = example_swap\<lparr>sw_refund_public_key := Some ''k1'', sw_key_index := Some 4,
     sw_redeem_script := Some ''tree''\<rparr>"

definition example_rescue_db :: rescue_db where
  "example_rescue_db = \<lparr>rd_available = True, rd_swaps = [example_restored], rd_chain_swaps = [], rd_reverse_swaps = [],
     rd_metadata = []\<rparr>"

theorem restore_finds_swaps_witness:
  "\<exists>rs. restore example_rescue_lib example_rescue_db example_values (QueryKeys (KeyVecIterator [''k0'', ''k1''])) = Ok rs
     \<and> ''s'' \<in> (sb_id \<circ> re_base) ` set rs \<and> map refund_key_index rs = [Some 1]"
proof -
  let ?it = "KeyVecIterator [''k0'', ''k1'']"
  have batch: "query_batch (restore_ops lib) example_rescue_db [''k0'', ''k1''] = ([example_restored], [], [])" for lib
    by (simp add: query_batch_def restore_ops_def swaps_of_keys_def chain_swaps_of_keys_def reverse_swaps_of_keys_def
        example_rescue_db_def example_restored_def example_swap_def key_among_def)
  have derive: "derive_keys ?it Map.empty 0 2 = Ok ([''k0'' \<mapsto> 0, ''k1'' \<mapsto> 1], [''k0'', ''k1''])"
    by (simp add: key_vec_derive_keys_def buffered_end_def saturating_add_def push_key_def Let_def)
  obtain r where r: "process_restorable_swaps example_rescue_lib [''k0'' \<mapsto> 0, ''k1'' \<mapsto> 1] [example_restored] [] [] = Ok [r]"
    and id: "sb_id (re_base r) = ''s''" and key: "refund_key_index r = Some 1"
    by (auto simp: process_restorable_swaps_def create_restorable_swap_def example_restored_def example_swap_def
        sw_chain_symbol_def sw_lightning_symbol_def pair_side_def example_pair get_wallet_def lookup_from_keys_def
        derive_our_public_key_def get_key_index_def derive_blinding_key_def restorable_of_swap_def sw_details_base_def
        parse_swap_tree_def example_rescue_lib_def ELEMENTS_SYMBOL_def sw_base_def refund_key_index_def)
  have two: "[0..<2] = [0, 1 :: nat]" by (simp add: upt_rec)
  have steps: "step_range 0 2 2 = [0]" by (simp add: step_range.simps)
  then have "scan_swaps_paginated (restore_ops example_rescue_lib) example_rescue_db ?it None None
      = Ok (insert_results (sb_id \<circ> re_base) [r] Map.empty)"
    using derive batch [of example_rescue_lib] r
    by (simp add: scan_swaps_paginated_def restore_ops_def example_rescue_db_def)
  then have "\<exists>rs. restore example_rescue_lib example_rescue_db example_values (QueryKeys ?it) = Ok rs \<and> map refund_key_index rs = [Some 1]"
    using id key by (simp add: restore_def insert_results_def example_values_def attach_metadata_def example_rescue_db_def
        refund_key_index_def)
  then obtain rs where rs: "restore example_rescue_lib example_rescue_db example_values (QueryKeys ?it) = Ok rs"
    and keys: "map refund_key_index rs = [Some 1]" by (elim exE conjE)
  have "key_scanned (restore_ops example_rescue_lib) example_rescue_db ?it (it_pagination ?it) 1"
    using batch [of example_rescue_lib] steps two by (simp add: key_scanned_def)
  moreover have "key_owns example_rescue_db (it_key_at ?it 1) ''s''"
    by (simp add: key_owns_def example_rescue_db_def example_restored_def example_swap_def)
  ultimately have "''s'' \<in> (sb_id \<circ> re_base) ` set rs"
    using restore_finds_swaps [OF rs example_values_listed] by blast
  with rs keys show ?thesis by (intro exI [of _ rs] conjI)
qed

definition example_evm_db :: rescue_db where
  "example_evm_db = \<lparr>rd_available = True, rd_swaps = [example_swap\<lparr>sw_refund_address := Some ''a''\<rparr>], rd_chain_swaps = [],
     rd_reverse_swaps = [], rd_metadata = []\<rparr>"

theorem restore_requests_limited_witness:
  "\<exists>rs. swap_restore example_rescue_lib example_evm_db example_values (\<lambda>_. None) (\<lambda>a _ _. Some a) 1000
      (RescueAddress ''a'' 990 ''sig'') = Ok rs
     \<and> (sb_id \<circ> re_base) ` set rs = {x. address_owns example_evm_db ''a'' x}"
proof -
  let ?params = "RescueAddress ''a'' 990 ''sig''"
  obtain r where r: "evm_restorable (example_swap\<lparr>sw_refund_address := Some ''a''\<rparr>) = Ok r" and id: "sb_id (re_base r) = ''s''"
    by (auto simp: evm_restorable_def example_swap_def sw_chain_symbol_def sw_lightning_symbol_def pair_side_def
        example_pair sw_base_def)
  then have "scan_swaps_by_address example_rescue_lib example_evm_db ''a'' = Ok [''s'' \<mapsto> r]"
    by (simp add: scan_swaps_by_address_def example_evm_db_def process_restorable_swaps_def insert_results_def)
  then obtain rs where rs: "swap_restore example_rescue_lib example_evm_db example_values (\<lambda>_. None) (\<lambda>a _ _. Some a) 1000
      ?params = Ok rs"
    by (simp add: swap_restore_def restore_query_of_params_def verify_restore_signature_def restore_def
        RESTORE_SIGNATURE_VALIDITY_SECS_def attach_metadata_def example_evm_db_def example_values_def)
  from restore_requests_limited [OF rs example_values_listed]
  have "(sb_id \<circ> re_base) ` set rs = {x. address_owns example_evm_db ''a'' x}"
    by (simp only: rescue_params.case)
  with rs show ?thesis by (intro exI [of _ rs] conjI)
qed

end
