(* ===== verification/Boltz_Cache.thy ===== *)
theory Boltz_Cache
  imports Boltz_Prelude
begin

text \<open>
  The cache, \<open>src/boltz-cache/src\<close>: \<open>memcache.rs\<close> (a map in memory whose entries expire), \<open>redis.rs\<close>
  (the same operations as commands to a Redis server) and the enumeration of both in \<open>lib.rs\<close>.
  JSON is the record \<open>value_codec\<close> of the type that is stored, the commands of the server are the record
  \<open>redis_server\<close>. Times are seconds since the epoch, negative before it; an instant of the source
  has nanoseconds too, which \<open>as_secs\<close> drops before every comparison.
\<close>

datatype cache_error = CacheJson | CacheExpiration | CacheEpoch | CacheRedis

record 'v value_codec =
  vc_to_json :: "'v \<Rightarrow> string option"
  vc_from_json :: "string \<Rightarrow> 'v option"
  vc_to_entry :: "'v \<Rightarrow> u64 option \<Rightarrow> string option"
  vc_from_entry :: "string \<Rightarrow> ('v \<times> u64 option) option"

subsection \<open>In memory\<close>

type_synonym mem_cache = "string \<rightharpoonup> string"

definition mem_cache_new :: mem_cache where
  "mem_cache_new = Map.empty"

definition get_key :: "string \<Rightarrow> string \<Rightarrow> string" where
  "get_key key field = key @ '':'' @ field"

definition is_expired :: "int \<Rightarrow> u64 option \<Rightarrow> bool" where
  "is_expired now expires_at =
     (case expires_at of None \<Rightarrow> False | Some e \<Rightarrow> now < 0 \<or> uint e \<le> now)"

text \<open>\<open>entry_expiry\<close> reads the expiration of an entry with a value of any type.\<close>

definition cleanup_expired :: "(string \<Rightarrow> u64 option option) \<Rightarrow> int \<Rightarrow> mem_cache \<Rightarrow> mem_cache" where
  "cleanup_expired entry_expiry now m =
     (if now < 0 then m
      else (\<lambda>k. Option.bind (m k) (\<lambda>s.
        case entry_expiry s of
          Some (Some e) \<Rightarrow> if now < uint e then Some s else None
        | Some None \<Rightarrow> Some s
        | None \<Rightarrow> None)))"

text \<open>\<open>get\<close> reads the entry, lets go of it and removes it when it was expired.\<close>

datatype 'v entry_read = Missing | Hit 'v | Expired | Unreadable

definition read_entry :: "'v value_codec \<Rightarrow> int \<Rightarrow> string \<Rightarrow> mem_cache \<Rightarrow> 'v entry_read" where
  "read_entry codec now k m =
     (case m k of
        None \<Rightarrow> Missing
      | Some s \<Rightarrow> (case vc_from_entry codec s of
            None \<Rightarrow> Unreadable
          | Some (v, e) \<Rightarrow> if is_expired now e then Expired else Hit v))"

definition mem_get ::
  "'v value_codec \<Rightarrow> int \<Rightarrow> string \<Rightarrow> string \<Rightarrow> mem_cache \<Rightarrow> mem_cache \<times> (cache_error, 'v option) result" where
  "mem_get codec now key field m =
     (let k = get_key key field in
      case read_entry codec now k m of
        Missing \<Rightarrow> (m, Ok None)
      | Hit v \<Rightarrow> (m, Ok (Some v))
      | Expired \<Rightarrow> (m(k := None), Ok None)
      | Unreadable \<Rightarrow> (m, Err CacheJson))"

fun mem_get_multiple ::
  "'v value_codec \<Rightarrow> int \<Rightarrow> string \<Rightarrow> string list \<Rightarrow> mem_cache \<Rightarrow> mem_cache \<times> (cache_error, 'v option list) result"
where
  "mem_get_multiple codec now key [] m = (m, Ok [])"
| "mem_get_multiple codec now key (f # fs) m =
     (case mem_get codec now key f m of
        (m', Ok v) \<Rightarrow> map_prod id (r_map ((#) v)) (mem_get_multiple codec now key fs m')
      | (m', Err e) \<Rightarrow> (m', Err e)
      | (m', Panic) \<Rightarrow> (m', Panic))"

definition expiry_time :: "int \<Rightarrow> u64 option \<Rightarrow> (cache_error, u64 option) result" where
  "expiry_time now ttl =
     (case ttl of
        None \<Rightarrow> Ok None
      | Some d \<Rightarrow>
          if now + uint d \<ge> 2 ^ 63 then Err CacheExpiration
          else if now + uint d < 0 then Err CacheEpoch
          else Ok (Some (word_of_int (now + uint d))))"

definition mem_set ::
  "'v value_codec \<Rightarrow> int \<Rightarrow> string \<Rightarrow> string \<Rightarrow> 'v \<Rightarrow> u64 option \<Rightarrow> mem_cache \<Rightarrow> mem_cache \<times> (cache_error, unit) result"
where
  "mem_set codec now key field v ttl m =
     (case r_bind (expiry_time now ttl) (\<lambda>e. ok_or CacheJson (vc_to_entry codec v e)) of
        Ok s \<Rightarrow> (m(get_key key field \<mapsto> s), Ok ())
      | Err e \<Rightarrow> (m, Err e)
      | Panic \<Rightarrow> (m, Panic))"

definition mem_take ::
  "'v value_codec \<Rightarrow> int \<Rightarrow> string \<Rightarrow> string \<Rightarrow> mem_cache \<Rightarrow> mem_cache \<times> (cache_error, 'v option) result" where
  "mem_take codec now key field m =
     (let k = get_key key field in
      (m(k := None),
       case read_entry codec now k m of
         Missing \<Rightarrow> Ok None | Hit v \<Rightarrow> Ok (Some v) | Expired \<Rightarrow> Ok None | Unreadable \<Rightarrow> Err CacheJson))"

definition mem_delete :: "string \<Rightarrow> string \<Rightarrow> mem_cache \<Rightarrow> mem_cache \<times> (cache_error, unit) result" where
  "mem_delete key field m = (m(get_key key field := None), Ok ())"

subsection \<open>Redis\<close>

record 'r redis_server =
  HGET :: "string \<Rightarrow> string \<Rightarrow> 'r \<Rightarrow> 'r \<times> (cache_error, string option) result"
  HMGET :: "string \<Rightarrow> string list \<Rightarrow> 'r \<Rightarrow> 'r \<times> (cache_error, string option list) result"
  HSET_HEXPIRE :: "string \<Rightarrow> string \<Rightarrow> string \<Rightarrow> u64 option \<Rightarrow> 'r \<Rightarrow> 'r \<times> (cache_error, unit) result"
  HGETDEL :: "string \<Rightarrow> string \<Rightarrow> 'r \<Rightarrow> 'r \<times> (cache_error, string option list) result"
  HDEL :: "string \<Rightarrow> string \<Rightarrow> 'r \<Rightarrow> 'r \<times> (cache_error, unit) result"

definition parse_reply :: "'v value_codec \<Rightarrow> string option \<Rightarrow> (cache_error, 'v option) result" where
  "parse_reply codec reply =
     (case reply of Some s \<Rightarrow> r_map Some (ok_or CacheJson (vc_from_json codec s)) | None \<Rightarrow> Ok None)"

definition redis_get ::
  "'r redis_server \<Rightarrow> 'v value_codec \<Rightarrow> string \<Rightarrow> string \<Rightarrow> 'r \<Rightarrow> 'r \<times> (cache_error, 'v option) result" where
  "redis_get srv codec key field r =
     map_prod id (\<lambda>reply. r_bind reply (parse_reply codec)) (HGET srv key field r)"

definition redis_get_multiple ::
  "'r redis_server \<Rightarrow> 'v value_codec \<Rightarrow> string \<Rightarrow> string list \<Rightarrow> 'r \<Rightarrow> 'r \<times> (cache_error, 'v option list) result" where
  "redis_get_multiple srv codec key names r =
     (if names = [] then (r, Ok [])
      else map_prod id (\<lambda>reply. r_bind reply (r_mapM (parse_reply codec))) (HMGET srv key names r))"

definition redis_set ::
  "'r redis_server \<Rightarrow> 'v value_codec \<Rightarrow> string \<Rightarrow> string \<Rightarrow> 'v \<Rightarrow> u64 option \<Rightarrow> 'r \<Rightarrow> 'r \<times> (cache_error, unit) result"
where
  "redis_set srv codec key field v ttl r =
     (case vc_to_json codec v of
        Some s \<Rightarrow> HSET_HEXPIRE srv key field s ttl r
      | None \<Rightarrow> (r, Err CacheJson))"

definition redis_take ::
  "'r redis_server \<Rightarrow> 'v value_codec \<Rightarrow> string \<Rightarrow> string \<Rightarrow> 'r \<Rightarrow> 'r \<times> (cache_error, 'v option) result" where
  "redis_take srv codec key field r =
     map_prod id (\<lambda>reply. r_bind reply (\<lambda>rs. parse_reply codec (case rs of [] \<Rightarrow> None | x # _ \<Rightarrow> x)))
       (HGETDEL srv key field r)"

definition redis_delete :: "'r redis_server \<Rightarrow> string \<Rightarrow> string \<Rightarrow> 'r \<Rightarrow> 'r \<times> (cache_error, unit) result" where
  "redis_delete srv key field r = HDEL srv key field r"

subsection \<open>Either\<close>

datatype 'r cache = Redis 'r | Memory mem_cache

fun cache_get ::
  "'r redis_server \<Rightarrow> 'v value_codec \<Rightarrow> int \<Rightarrow> string \<Rightarrow> string \<Rightarrow> 'r cache \<Rightarrow> 'r cache \<times> (cache_error, 'v option) result"
where
  "cache_get srv codec now key field (Redis r) = map_prod Redis id (redis_get srv codec key field r)"
| "cache_get srv codec now key field (Memory m) = map_prod Memory id (mem_get codec now key field m)"

fun cache_get_multiple ::
  "'r redis_server \<Rightarrow> 'v value_codec \<Rightarrow> int \<Rightarrow> string \<Rightarrow> string list \<Rightarrow> 'r cache
    \<Rightarrow> 'r cache \<times> (cache_error, 'v option list) result" where
  "cache_get_multiple srv codec now key names (Redis r) = map_prod Redis id (redis_get_multiple srv codec key names r)"
| "cache_get_multiple srv codec now key names (Memory m) = map_prod Memory id (mem_get_multiple codec now key names m)"

fun cache_set ::
  "'r redis_server \<Rightarrow> 'v value_codec \<Rightarrow> int \<Rightarrow> string \<Rightarrow> string \<Rightarrow> 'v \<Rightarrow> u64 option \<Rightarrow> 'r cache
    \<Rightarrow> 'r cache \<times> (cache_error, unit) result" where
  "cache_set srv codec now key field v ttl (Redis r) = map_prod Redis id (redis_set srv codec key field v ttl r)"
| "cache_set srv codec now key field v ttl (Memory m) = map_prod Memory id (mem_set codec now key field v ttl m)"

fun cache_take ::
  "'r redis_server \<Rightarrow> 'v value_codec \<Rightarrow> int \<Rightarrow> string \<Rightarrow> string \<Rightarrow> 'r cache \<Rightarrow> 'r cache \<times> (cache_error, 'v option) result"
where
  "cache_take srv codec now key field (Redis r) = map_prod Redis id (redis_take srv codec key field r)"
| "cache_take srv codec now key field (Memory m) = map_prod Memory id (mem_take codec now key field m)"

fun cache_delete ::
  "'r redis_server \<Rightarrow> string \<Rightarrow> string \<Rightarrow> 'r cache \<Rightarrow> 'r cache \<times> (cache_error, unit) result" where
  "cache_delete srv key field (Redis r) = map_prod Redis id (redis_delete srv key field r)"
| "cache_delete srv key field (Memory m) = map_prod Memory id (mem_delete key field m)"

subsection \<open>Requests and what they see\<close>

datatype 'v cache_op =
    OpGet string string | OpSet string string 'v "u64 option" | OpTake string string
  | OpDelete string string | OpCleanup

datatype 'v cache_reply = RValue "(cache_error, 'v option) result" | RDone "(cache_error, unit) result"

fun mem_op ::
  "'v value_codec \<Rightarrow> (string \<Rightarrow> u64 option option) \<Rightarrow> int \<Rightarrow> 'v cache_op \<Rightarrow> mem_cache \<Rightarrow> mem_cache \<times> 'v cache_reply" where
  "mem_op codec ee now (OpGet k f) m = map_prod id RValue (mem_get codec now k f m)"
| "mem_op codec ee now (OpSet k f v ttl) m = map_prod id RDone (mem_set codec now k f v ttl m)"
| "mem_op codec ee now (OpTake k f) m = map_prod id RValue (mem_take codec now k f m)"
| "mem_op codec ee now (OpDelete k f) m = map_prod id RDone (mem_delete k f m)"
| "mem_op codec ee now OpCleanup m = (cleanup_expired ee now m, RDone (Ok ()))"

fun run_ops :: "(int \<Rightarrow> 'v cache_op \<Rightarrow> 's \<Rightarrow> 's \<times> 'v cache_reply) \<Rightarrow> (int \<times> 'v cache_op) list \<Rightarrow> 's \<Rightarrow> 's \<times> 'v cache_reply list"
where
  "run_ops step [] s = (s, [])"
| "run_ops step ((now, op) # ops) s =
     (case step now op s of (s', r) \<Rightarrow> map_prod id ((#) r) (run_ops step ops s'))"

text \<open>The specification: a map from places to values with the time they are gone at.\<close>

type_synonym 'v timed_map = "string \<times> string \<rightharpoonup> 'v \<times> u64 option"

definition timed_view :: "'v timed_map \<Rightarrow> int \<Rightarrow> string \<times> string \<Rightarrow> 'v option" where
  "timed_view a t p = Option.bind (a p) (\<lambda>(v, e). if is_expired t e then None else Some v)"

fun timed_op :: "int \<Rightarrow> 'v cache_op \<Rightarrow> 'v timed_map \<Rightarrow> 'v timed_map \<times> 'v cache_reply" where
  "timed_op now (OpGet k f) a = (a, RValue (Ok (timed_view a now (k, f))))"
| "timed_op now (OpSet k f v ttl) a =
     (case expiry_time now ttl of
        Ok e \<Rightarrow> (a((k, f) \<mapsto> (v, e)), RDone (Ok ()))
      | Err e \<Rightarrow> (a, RDone (Err e))
      | Panic \<Rightarrow> (a, RDone Panic))"
| "timed_op now (OpTake k f) a = (a((k, f) := None), RValue (Ok (timed_view a now (k, f))))"
| "timed_op now (OpDelete k f) a = (a((k, f) := None), RDone (Ok ()))"
| "timed_op now OpCleanup a = (a, RDone (Ok ()))"

subsection \<open>The contract of a store\<close>

text \<open>
  All that the replies of a store may depend on is what can be seen in it at a time. The prefix of a
  place has no colon, since \<open>get_key\<close> joins it to the field with one.
\<close>

type_synonym 'v view = "int \<Rightarrow> string \<times> string \<Rightarrow> 'v option"

fun op_ok :: "'v cache_op \<Rightarrow> bool" where
  "op_ok (OpGet k f) = (CHR '':'' \<notin> set k)"
| "op_ok (OpSet k f v ttl) = (CHR '':'' \<notin> set k)"
| "op_ok (OpTake k f) = (CHR '':'' \<notin> set k)"
| "op_ok (OpDelete k f) = (CHR '':'' \<notin> set k)"
| "op_ok OpCleanup = True"

fun view_reply :: "int \<Rightarrow> 'v cache_op \<Rightarrow> 'v view \<Rightarrow> 'v cache_reply" where
  "view_reply now (OpGet k f) w = RValue (Ok (w now (k, f)))"
| "view_reply now (OpSet k f v ttl) w = RDone (r_map (\<lambda>_. ()) (expiry_time now ttl))"
| "view_reply now (OpTake k f) w = RValue (Ok (w now (k, f)))"
| "view_reply now (OpDelete k f) w = RDone (Ok ())"
| "view_reply now OpCleanup w = RDone (Ok ())"

fun view_after :: "int \<Rightarrow> 'v cache_op \<Rightarrow> 'v view \<Rightarrow> 'v view" where
  "view_after now (OpGet k f) w = w"
| "view_after now (OpSet k f v ttl) w =
     (\<lambda>t. case expiry_time now ttl of
        Ok e \<Rightarrow> (w t)((k, f) := if is_expired t e then None else Some v)
      | _ \<Rightarrow> w t)"
| "view_after now (OpTake k f) w = (\<lambda>t. (w t)((k, f) := None))"
| "view_after now (OpDelete k f) w = (\<lambda>t. (w t)((k, f) := None))"
| "view_after now OpCleanup w = w"

fun view_run :: "(int \<times> 'v cache_op) list \<Rightarrow> 'v view \<Rightarrow> 'v cache_reply list" where
  "view_run [] w = []"
| "view_run ((now, op) # ops) w = view_reply now op w # view_run ops (view_after now op w)"

definition same_view :: "int \<Rightarrow> 'v view \<Rightarrow> 'v view \<Rightarrow> bool" where
  "same_view now w w' \<longleftrightarrow> (\<forall>t \<ge> now. \<forall>k f. CHR '':'' \<notin> set k \<longrightarrow> w t (k, f) = w' t (k, f))"

lemma same_viewD: "same_view now w w' \<Longrightarrow> now \<le> t \<Longrightarrow> CHR '':'' \<notin> set k \<Longrightarrow> w t (k, f) = w' t (k, f)"
  by (simp add: same_view_def)

lemma view_reply_same: "same_view now w w' \<Longrightarrow> op_ok op \<Longrightarrow> view_reply now op w = view_reply now op w'"
  by (cases op) (simp_all add: same_viewD)

lemma view_after_same: "same_view now w w' \<Longrightarrow> same_view now (view_after now op w) (view_after now op w')"
  by (cases op) (auto simp: same_view_def split: result.splits)

lemma same_view_mono: "same_view now w w' \<Longrightarrow> now \<le> t \<Longrightarrow> same_view t w w'"
  unfolding same_view_def by force

lemma same_view_trans: "same_view now w w' \<Longrightarrow> same_view now w' w'' \<Longrightarrow> same_view now w w''"
  by (simp add: same_view_def)

locale ttl_store =
  fixes step :: "int \<Rightarrow> 'v cache_op \<Rightarrow> 's \<Rightarrow> 's \<times> 'v cache_reply"
    and view :: "'s \<Rightarrow> 'v view"
    and inv :: "'s \<Rightarrow> bool"
  assumes step_inv: "inv s \<Longrightarrow> op_ok op \<Longrightarrow> 0 \<le> now \<Longrightarrow> inv (fst (step now op s))"
    and step_reply: "inv s \<Longrightarrow> op_ok op \<Longrightarrow> 0 \<le> now \<Longrightarrow> snd (step now op s) = view_reply now op (view s)"
    and step_view: "inv s \<Longrightarrow> op_ok op \<Longrightarrow> 0 \<le> now
      \<Longrightarrow> same_view now (view (fst (step now op s))) (view_after now op (view s))"
begin

lemma run_replies:
  assumes "inv s" and "0 \<le> now" and "sorted (now # map fst ops)" and "list_all (op_ok \<circ> snd) ops" and "same_view now (view s) w"
  shows "snd (run_ops step ops s) = view_run ops w"
  using assms
proof (induction ops arbitrary: now s w)
  case (Cons x ops)
  obtain t op where x: "x = (t, op)" by force
  have ok: "op_ok op" and le: "now \<le> t" using Cons.prems(3,4) by (simp_all add: x)
  have same: "same_view t (view s) w" using Cons.prems(5) le by (rule same_view_mono)
  have pos: "0 \<le> t" using Cons.prems(2) le by simp
  let ?s = "fst (step t op s)"
  have "same_view t (view ?s) (view_after t op w)"
    using step_view [OF Cons.prems(1) ok pos] view_after_same [OF same] by (rule same_view_trans)
  moreover have "sorted (t # map fst ops)" using Cons.prems(3) by (simp add: x)
  ultimately have "snd (run_ops step ops ?s) = view_run ops (view_after t op w)"
    using Cons.prems(1,4) ok pos by (intro Cons.IH step_inv) (simp_all add: x)
  then show ?case
    using step_reply [OF Cons.prems(1) ok pos] view_reply_same [OF same ok]
    by (simp add: x case_prod_unfold)
qed simp

end

interpretation timed_store: ttl_store timed_op timed_view "\<lambda>_. True"
proof (standard, goal_cases)
  case (2 s op now)
  then show ?case by (cases op) (auto split: result.split)
next
  case (3 s op now)
  then show ?case by (cases op) (auto simp: same_view_def timed_view_def split: result.split)
qed simp

lemma expiry_time_uint:
  assumes "expiry_time now (Some d) = Ok x"
  obtains e where "x = Some e" and "uint e = now + uint d"
proof -
  from assms have x: "x = Some (word_of_int (now + uint d))" and "0 \<le> now + uint d" "now + uint d < 2 ^ 63"
    by (simp_all add: expiry_time_def del: of_int_add split: if_splits)
  then have "uint (word_of_int (now + uint d) :: u64) = now + uint d"
    by (simp only: uint_word_of_int) (simp add: take_bit_eq_mod)
  with x show thesis by (rule that)
qed

text \<open>JSON gives back what was written, whatever the type of the value is taken for.\<close>

definition codec_ok :: "'v value_codec \<Rightarrow> (string \<Rightarrow> u64 option option) \<Rightarrow> bool" where
  "codec_ok codec ee \<longleftrightarrow>
     (\<forall>v e. \<exists>s. vc_to_entry codec v e = Some s \<and> vc_from_entry codec s = Some (v, e) \<and> ee s = Some e)"

definition mem_inv :: "'v value_codec \<Rightarrow> (string \<Rightarrow> u64 option option) \<Rightarrow> mem_cache \<Rightarrow> bool" where
  "mem_inv codec ee m \<longleftrightarrow> codec_ok codec ee
     \<and> (\<forall>k s. m k = Some s \<longrightarrow> (\<exists>v e. vc_from_entry codec s = Some (v, e) \<and> ee s = Some e))"

definition mem_view :: "'v value_codec \<Rightarrow> mem_cache \<Rightarrow> 'v view" where
  "mem_view codec m t = (\<lambda>(k, f). case read_entry codec t (get_key k f) m of Hit v \<Rightarrow> Some v | _ \<Rightarrow> None)"

lemma get_key_inj:
  assumes "CHR '':'' \<notin> set k" and "CHR '':'' \<notin> set k'"
  shows "get_key k f = get_key k' f' \<longleftrightarrow> k = k' \<and> f = f'"
proof -
  have "takeWhile (\<lambda>c. c \<noteq> CHR '':'') (get_key x y) = x" if "CHR '':'' \<notin> set x" for x y
    unfolding get_key_def using that by (induction x) auto
  from this [OF assms(1), of f] this [OF assms(2), of f'] show ?thesis by (auto simp: get_key_def)
qed

lemma read_entry_readable: "mem_inv codec ee m \<Longrightarrow> read_entry codec t k m \<noteq> Unreadable"
  by (fastforce simp: mem_inv_def read_entry_def split: option.splits if_splits)

lemma is_expired_mono: "0 \<le> now \<Longrightarrow> now \<le> t \<Longrightarrow> is_expired now e \<Longrightarrow> is_expired t e"
  by (auto simp: is_expired_def split: option.splits)

lemma expired_stays:
  assumes "read_entry codec now k m = Expired" and "0 \<le> now" and "now \<le> t"
  shows "read_entry codec t k m = Expired"
  using assms is_expired_mono [OF assms(2,3)]
  by (auto simp: read_entry_def split: option.splits if_splits)

lemma mem_view_remove:
  "CHR '':'' \<notin> set k \<Longrightarrow> CHR '':'' \<notin> set k'
   \<Longrightarrow> mem_view codec (m(get_key k f := None)) t (k', f') = ((mem_view codec m t)((k, f) := None)) (k', f')"
  by (auto simp: mem_view_def read_entry_def get_key_inj)

lemma mem_view_insert:
  "CHR '':'' \<notin> set k \<Longrightarrow> CHR '':'' \<notin> set k' \<Longrightarrow> vc_from_entry codec s = Some (v, e)
   \<Longrightarrow> mem_view codec (m(get_key k f \<mapsto> s)) t (k', f')
     = ((mem_view codec m t)((k, f) := if is_expired t e then None else Some v)) (k', f')"
  by (auto simp: mem_view_def read_entry_def get_key_inj)

lemma mem_get_ok:
  assumes "mem_inv codec ee m" and "0 \<le> now" and "CHR '':'' \<notin> set k"
  shows "snd (mem_get codec now k f m) = Ok (mem_view codec m now (k, f))"
    and "same_view now (mem_view codec (fst (mem_get codec now k f m))) (mem_view codec m)"
proof -
  show "snd (mem_get codec now k f m) = Ok (mem_view codec m now (k, f))"
    using read_entry_readable [OF assms(1), of now "get_key k f"]
    by (auto simp: mem_get_def mem_view_def Let_def split: entry_read.splits)
  show "same_view now (mem_view codec (fst (mem_get codec now k f m))) (mem_view codec m)"
  proof (cases "read_entry codec now (get_key k f) m = Expired")
    case True
    then have "mem_view codec m t (k, f) = None" if "now \<le> t" for t
      using expired_stays [OF True assms(2) that] by (simp add: mem_view_def)
    with True assms(3) show ?thesis by (auto simp: same_view_def mem_get_def mem_view_remove)
  qed (auto simp: same_view_def mem_get_def Let_def split: entry_read.splits)
qed

lemma cleanup_view:
  assumes "mem_inv codec ee m" and "0 \<le> now"
  shows "same_view now (mem_view codec (cleanup_expired ee now m)) (mem_view codec m)"
proof -
  have "(case read_entry codec t k (cleanup_expired ee now m) of Hit v \<Rightarrow> Some v | _ \<Rightarrow> None)
      = (case read_entry codec t k m of Hit v \<Rightarrow> Some v | _ \<Rightarrow> None)" if "now \<le> t" for t k
  proof (cases "m k")
    case (Some s)
    then obtain v e where "vc_from_entry codec s = Some (v, e)" "ee s = Some e"
      using assms(1) unfolding mem_inv_def by blast
    with Some assms(2) that show ?thesis
      by (auto simp: cleanup_expired_def read_entry_def is_expired_def split: option.splits)
  qed (simp add: cleanup_expired_def read_entry_def)
  then show ?thesis by (simp add: same_view_def mem_view_def)
qed

lemma mem_inv_subset: "mem_inv codec ee m \<Longrightarrow> m' \<subseteq>\<^sub>m m \<Longrightarrow> mem_inv codec ee m'"
  unfolding mem_inv_def map_le_def dom_def by (metis (mono_tags, lifting) mem_Collect_eq option.distinct(1))

lemma mem_inv_removed: "mem_inv codec ee m \<Longrightarrow> mem_inv codec ee (m(k := None))"
  by (auto simp: mem_inv_def)

lemma mem_set_ok:
  assumes "mem_inv codec ee m"
  obtains (set) e s where "expiry_time now ttl = Ok e" "vc_from_entry codec s = Some (v, e)" "ee s = Some e"
      "mem_set codec now k f v ttl m = (m(get_key k f \<mapsto> s), Ok ())"
    | (fails) e where "expiry_time now ttl = Err e" "mem_set codec now k f v ttl m = (m, Err e)"
proof (cases "expiry_time now ttl")
  case (Ok e)
  from assms obtain s where "vc_to_entry codec v e = Some s" "vc_from_entry codec s = Some (v, e)" "ee s = Some e"
    unfolding mem_inv_def codec_ok_def by blast
  with Ok show thesis by (intro set) (simp_all add: mem_set_def)
next
  case (Err e)
  then show thesis by (intro fails) (simp_all add: mem_set_def)
next
  case Panic
  then show thesis by (simp add: expiry_time_def split: option.splits if_splits)
qed

interpretation mem_store: ttl_store "mem_op codec ee" "mem_view codec" "mem_inv codec ee" for codec ee
proof (standard, goal_cases)
  case (1 m op now)
  then show ?case
  proof (cases op)
    case (OpGet k f)
    with 1 show ?thesis
      by (auto simp: mem_get_def Let_def mem_inv_removed split: entry_read.splits)
  next
    case (OpSet k f v ttl)
    from 1(1) show ?thesis
      by (cases rule: mem_set_ok [where now = now and ttl = ttl and v = v and k = k and f = f])
        (use 1(1) OpSet in \<open>auto simp: mem_inv_def\<close>)
  next
    case OpCleanup
    have "cleanup_expired ee now m \<subseteq>\<^sub>m m"
      by (auto simp: map_le_def cleanup_expired_def split: bind_splits option.splits if_splits)
    with 1 OpCleanup show ?thesis by (auto intro: mem_inv_subset)
  qed (simp_all add: mem_take_def mem_delete_def Let_def mem_inv_removed)
next
  case (2 m op now)
  then show ?case
  proof (cases op)
    case (OpSet k f v ttl)
    from 2(1) show ?thesis
      by (cases rule: mem_set_ok [where now = now and ttl = ttl and v = v and k = k and f = f]) (use OpSet in auto)
  next
    case (OpTake k f)
    with 2 read_entry_readable [OF 2(1), of now "get_key k f"] show ?thesis
      by (auto simp: mem_take_def mem_view_def Let_def split: entry_read.splits)
  qed (simp_all add: mem_get_ok mem_delete_def)
next
  case (3 m op now)
  then show ?case
  proof (cases op)
    case (OpSet k f v ttl)
    from 3(1) show ?thesis
      by (cases rule: mem_set_ok [where now = now and ttl = ttl and v = v and k = k and f = f])
        (use 3(2) OpSet in \<open>auto simp: same_view_def mem_view_insert\<close>)
  next
    case (OpGet k f)
    with 3 mem_get_ok(2) [OF 3(1,3), of k f] show ?thesis by simp
  next
    case OpCleanup
    with cleanup_view [OF 3(1,3)] show ?thesis by simp
  qed (auto simp: mem_take_def mem_delete_def same_view_def mem_view_remove Let_def)
qed


subsection \<open>Witnesses\<close>

text \<open>Texts that follow each other: every character is marked, and so is the end.\<close>

definition mark_text :: "string \<Rightarrow> string" where
  "mark_text s = concat (map (\<lambda>c. [CHR ''0'', c]) s) @ [CHR ''1'']"

fun unmark_text :: "string \<Rightarrow> (string \<times> string) option" where
  "unmark_text (m # c # r) =
     (if m = CHR ''1'' then Some ([], c # r) else map_option (map_prod ((#) c) id) (unmark_text r))"
| "unmark_text [m] = (if m = CHR ''1'' then Some ([], []) else None)"
| "unmark_text [] = None"

lemma unmark_mark: "unmark_text (mark_text s @ r) = Some (s, r)"
proof (induction s)
  case Nil
  then show ?case by (cases r) (simp_all add: mark_text_def)
qed (simp add: mark_text_def)

definition bits_text :: "'a::len word \<Rightarrow> string" where
  "bits_text w = map (\<lambda>i. if bit w i then CHR ''1'' else CHR ''0'') [0..<LENGTH('a)]"

definition text_bits :: "string \<Rightarrow> 'a::len word" where
  "text_bits s = horner_sum of_bool 2 (map (\<lambda>c. c = CHR ''1'') s)"

lemma text_bits_text: "text_bits (bits_text w) = w"
proof -
  have "horner_sum of_bool 2 (map (bit w) [0..<LENGTH('a)]) = w" for w :: "'a::len word"
    by (simp add: horner_sum_bit_eq_take_bit take_bit_word_eq_self)
  then show ?thesis by (simp add: text_bits_def bits_text_def comp_def if_distrib cong: if_cong)
qed

lemma bits_text_not_Nil: "bits_text w \<noteq> []"
  by (simp add: bits_text_def)

definition expiry_text :: "u64 option \<Rightarrow> string" where
  "expiry_text e = mark_text (case e of None \<Rightarrow> [] | Some w \<Rightarrow> bits_text w)"

definition text_expiry :: "string \<Rightarrow> u64 option option" where
  "text_expiry s = map_option (\<lambda>(t, _). if t = [] then None else Some (text_bits t)) (unmark_text s)"

definition text_codec :: "('v \<Rightarrow> string) \<Rightarrow> (string \<Rightarrow> 'v option) \<Rightarrow> 'v value_codec" where
  "text_codec enc dec = \<lparr>vc_to_json = Some \<circ> enc, vc_from_json = dec,
     vc_to_entry = (\<lambda>v e. Some (expiry_text e @ enc v)),
     vc_from_entry = (\<lambda>s. Option.bind (unmark_text s) (\<lambda>(_, r).
       map_option (\<lambda>v. (v, the (text_expiry s))) (dec r)))\<rparr>"

lemma text_codec_ok:
  assumes "\<And>v. dec (enc v) = Some v"
  shows "codec_ok (text_codec enc dec) text_expiry"
proof -
  have "text_expiry (expiry_text e @ r) = Some e" for e r
    by (cases e) (auto simp: text_expiry_def expiry_text_def unmark_mark text_bits_text bits_text_not_Nil)
  then show ?thesis
    by (simp add: codec_ok_def text_codec_def assms) (simp add: expiry_text_def unmark_mark assms)
qed

definition bool_codec :: "bool value_codec" where
  "bool_codec = text_codec (\<lambda>b. if b then ''t'' else ''f'') (\<lambda>s. Some (s = ''t''))"

lemma bool_codec_ok: "codec_ok bool_codec text_expiry"
  unfolding bool_codec_def by (rule text_codec_ok) simp


end
