(* ===== verification/F64_Order.thy ===== *)
theory F64_Order
  imports F64
begin

text \<open>
  The rest of the double-precision arithmetic: the comparisons, the total order of
  \<open>f64::total_cmp\<close>, \<open>max\<close>, \<open>round\<close> and addition, and that rounding to the format is monotone. The
  sign of a zero or of a not-a-number is not kept, so \<open>total_cmp\<close> sees one zero, and one
  not-a-number above every number.
\<close>

subsection \<open>Operations\<close>

fun f64_add :: "f64 \<Rightarrow> f64 \<Rightarrow> f64" where
  "f64_add (Finite a) (Finite b) = f64_round (a + b)"
| "f64_add (Finite a) (Infinite s) = Infinite s"
| "f64_add (Infinite s) (Finite b) = Infinite s"
| "f64_add (Infinite s) (Infinite t) = (if s = t then Infinite s else NaN)"
| "f64_add NaN _ = NaN"
| "f64_add _ NaN = NaN"

text \<open>The operators \<open>>\<close> and \<open><=\<close>, false when an operand is not a number.\<close>

fun f64_gt :: "f64 \<Rightarrow> f64 \<Rightarrow> bool" where
  "f64_gt (Finite a) (Finite b) = (b < a)"
| "f64_gt (Infinite s) (Finite b) = (\<not> s)"
| "f64_gt (Finite a) (Infinite s) = s"
| "f64_gt (Infinite s) (Infinite t) = (\<not> s \<and> t)"
| "f64_gt _ _ = False"

fun f64_le :: "f64 \<Rightarrow> f64 \<Rightarrow> bool" where
  "f64_le (Finite a) (Finite b) = (a \<le> b)"
| "f64_le (Infinite s) (Finite b) = s"
| "f64_le (Finite a) (Infinite s) = (\<not> s)"
| "f64_le (Infinite s) (Infinite t) = (s \<or> \<not> t)"
| "f64_le _ _ = False"

text \<open>\<open>f64::max\<close> returns the other operand when one is not a number.\<close>

definition f64_max :: "f64 \<Rightarrow> f64 \<Rightarrow> f64" where
  "f64_max x y = (if x = NaN then y else if f64_gt y x then y else x)"

text \<open>\<open>f64::round\<close> takes halves away from zero.\<close>

definition round_away :: "rat \<Rightarrow> int" where
  "round_away x = (if 0 \<le> x then \<lfloor>x + 1 / 2\<rfloor> else \<lceil>x - 1 / 2\<rceil>)"

fun f64_round_away :: "f64 \<Rightarrow> f64" where
  "f64_round_away (Finite a) = Finite (of_int (round_away a))"
| "f64_round_away x = x"

subsection \<open>The total order\<close>

instantiation f64 :: linorder
begin

fun less_eq_f64 :: "f64 \<Rightarrow> f64 \<Rightarrow> bool" where
  "less_eq_f64 x NaN = True"
| "less_eq_f64 NaN y = False"
| "less_eq_f64 x y = f64_le x y"

definition less_f64 :: "f64 \<Rightarrow> f64 \<Rightarrow> bool" where
  "less_f64 x y = (x \<le> y \<and> \<not> y \<le> x)"

instance
proof
  fix x y z :: f64
  show "(x < y) = (x \<le> y \<and> \<not> y \<le> x)" by (rule less_f64_def)
  show "x \<le> x" by (cases x) auto
  show "x \<le> y \<Longrightarrow> y \<le> z \<Longrightarrow> x \<le> z" by (cases x; cases y; cases z) auto
  show "x \<le> y \<Longrightarrow> y \<le> x \<Longrightarrow> x = y" by (cases x; cases y) auto
  show "x \<le> y \<or> y \<le> x" by (cases x; cases y) auto
qed

end

lemma f64_le_number: "x \<noteq> NaN \<Longrightarrow> y \<noteq> NaN \<Longrightarrow> f64_le x y = (x \<le> y)"
  by (cases x; cases y) auto

lemma f64_gt_number: "x \<noteq> NaN \<Longrightarrow> y \<noteq> NaN \<Longrightarrow> f64_gt x y = (y < x)"
  by (cases x; cases y) (auto simp: less_f64_def)

lemma f64_max_Finite [simp]: "f64_max (Finite a) (Finite b) = Finite (max a b)"
  by (simp add: f64_max_def max_def)

lemma between_Finite:
  assumes "Finite lo \<le> x" and "x \<le> Finite hi"
  obtains a where "x = Finite a" and "lo \<le> a" and "a \<le> hi"
  using assms by (cases x) auto

subsection \<open>Rounding is monotone\<close>

lemma round_even_mono:
  assumes "x \<le> y"
  shows "round_even x \<le> round_even y"
proof (cases "\<lfloor>x\<rfloor> = \<lfloor>y\<rfloor>")
  case True
  with assms show ?thesis by (auto simp: round_even_def Let_def)
next
  case False
  with floor_mono [OF assms] have "\<lfloor>x\<rfloor> + 1 \<le> \<lfloor>y\<rfloor>" by linarith
  moreover have "round_even x \<le> \<lfloor>x\<rfloor> + 1" "\<lfloor>y\<rfloor> \<le> round_even y"
    by (auto simp: round_even_def Let_def)
  ultimately show ?thesis by linarith
qed

lemma round_even_minus: "round_even (- x) = - round_even x"
proof (cases "x = of_int \<lfloor>x\<rfloor>")
  case True
  then obtain n where x: "x = of_int n" by blast
  have "round_even (- x) = round_even (of_int (- n))" by (simp only: x of_int_minus)
  then show ?thesis by (simp only: x round_even_of_int)
next
  case False
  have lo: "of_int \<lfloor>x\<rfloor> < x" "x < of_int \<lfloor>x\<rfloor> + 1" using False by linarith+
  then have neg: "\<lfloor>- x\<rfloor> = - \<lfloor>x\<rfloor> - 1" by (simp add: floor_eq_iff)
  have "even (- \<lfloor>x\<rfloor> - 1) \<longleftrightarrow> odd \<lfloor>x\<rfloor>" by simp
  then show ?thesis unfolding round_even_def Let_def neg by (auto simp: field_simps)
qed

lemma ulp_minus [simp]: "ulp (- x) = ulp x"
  by (simp add: ulp_def)

lemma fl_minus: "fl (- x) = - fl x"
  by (simp add: fl_def round_even_minus)

lemma ilog2_mono:
  assumes "0 < x" and "x \<le> y"
  shows "ilog2 x \<le> ilog2 y"
proof -
  have "2 powi ilog2 x \<le> x" using assms(1) by (rule ilog2_bounds)
  also note assms(2)
  also have "y < 2 powi (ilog2 y + 1)" using assms by (intro ilog2_bounds) simp
  finally have "ilog2 x < ilog2 y + 1" by (rule powi_less_exp)
  then show ?thesis by simp
qed

text \<open>A power of two at or above the unit in the last place is a whole number of units.\<close>

lemma powi_units:
  assumes "max (ilog2 \<bar>x\<bar> - 52) (-1074) \<le> k"
  obtains n where "2 powi k = of_int n * ulp x"
proof
  let ?u = "max (ilog2 \<bar>x\<bar> - 52) (-1074)"
  have "(2::rat) powi (k - ?u + ?u) = 2 powi (k - ?u) * 2 powi ?u"
    by (rule power_int_add) simp
  then have "(2::rat) powi k = 2 powi (k - ?u) * 2 powi ?u" by simp
  moreover have "(2::rat) powi (k - ?u) = of_int (2 ^ nat (k - ?u))"
    using assms by (simp add: power_int_def)
  ultimately show "2 powi k = of_int (2 ^ nat (k - ?u)) * ulp x" by (simp only: ulp_def)
qed

lemma fl_le_units: "x \<noteq> 0 \<Longrightarrow> x \<le> of_int n * ulp x \<Longrightarrow> fl x \<le> of_int n * ulp x"
proof -
  assume x: "x \<noteq> 0" and "x \<le> of_int n * ulp x"
  then have "x / ulp x \<le> of_int n" by (simp add: divide_le_eq)
  then have "round_even (x / ulp x) \<le> n" using round_even_mono by fastforce
  then show ?thesis using x by (simp add: fl_def mult_right_mono)
qed

lemma fl_ge_units: "x \<noteq> 0 \<Longrightarrow> of_int n * ulp x \<le> x \<Longrightarrow> of_int n * ulp x \<le> fl x"
proof -
  assume x: "x \<noteq> 0" and "of_int n * ulp x \<le> x"
  then have "of_int n \<le> x / ulp x" by (simp add: le_divide_eq)
  then have "n \<le> round_even (x / ulp x)" using round_even_mono by fastforce
  then show ?thesis using x by (simp add: fl_def mult_right_mono)
qed

lemma fl_mono_pos:
  assumes x: "0 < x" and xy: "x \<le> y"
  shows "fl x \<le> fl y"
proof (cases "ulp x = ulp y")
  case True
  have "round_even (x / ulp y) \<le> round_even (y / ulp y)"
    using xy by (intro round_even_mono divide_right_mono) simp_all
  with True x xy show ?thesis by (simp add: fl_def mult_right_mono)
next
  case False
  let ?k = "ilog2 y"
  have y: "0 < y" using x xy by simp
  have le: "ilog2 x \<le> ?k" using x xy by (rule ilog2_mono)
  moreover have "ilog2 x \<noteq> ?k" using False x y by (auto simp: ulp_def)
  ultimately have lt: "ilog2 x < ?k" by simp
  have lt': "-1074 < ?k - 52"
    using False x y le by (auto simp: ulp_def max_def split: if_splits)
  have "x < 2 powi (ilog2 x + 1)" using x by (rule ilog2_bounds)
  also have "\<dots> \<le> 2 powi ?k" using lt by (intro power_int_increasing) simp_all
  finally have xk: "x \<le> 2 powi ?k" by simp
  have "max (ilog2 \<bar>x\<bar> - 52) (-1074) \<le> ?k" "max (ilog2 \<bar>y\<bar> - 52) (-1074) \<le> ?k"
    using lt lt' x y by simp_all
  then obtain m n where m: "2 powi ?k = of_int m * ulp x" and n: "2 powi ?k = of_int n * ulp y"
    by (meson powi_units)
  have "fl x \<le> 2 powi ?k" using fl_le_units [of x m] xk x by (simp only: m [symmetric])
  also have "\<dots> \<le> fl y"
    using fl_ge_units [of y n] y ilog2_bounds(1) [OF y] by (simp only: n [symmetric])
  finally show ?thesis .
qed

lemma fl_nonpos: "x \<le> 0 \<Longrightarrow> fl x \<le> 0"
  using fl_nonneg [of "- x"] by (simp add: fl_minus)

lemma fl_mono: "x \<le> y \<Longrightarrow> fl x \<le> fl y"
proof -
  assume xy: "x \<le> y"
  consider "0 < x" | "x \<le> 0" "0 \<le> y" | "y < 0" using xy by linarith
  then show "fl x \<le> fl y"
  proof cases
    case 1
    then show ?thesis using xy by (rule fl_mono_pos)
  next
    case 2
    from fl_nonpos [OF this(1)] fl_nonneg [OF this(2)] show ?thesis by (rule order.trans)
  next
    case 3
    with xy have "fl (- y) \<le> fl (- x)" by (intro fl_mono_pos) simp_all
    then show ?thesis by (simp add: fl_minus)
  qed
qed

text \<open>A value of the format rounds to itself; a result between two of them stays between them.\<close>

definition representable :: "rat \<Rightarrow> bool" where
  "representable x = (f64_round x = Finite x)"

lemma representable_of_nat: "n < 2 ^ 53 \<Longrightarrow> representable (of_nat n)"
  unfolding representable_def by (rule f64_round_of_nat)

lemma representable_fl: "representable x \<Longrightarrow> fl x = x"
  by (auto simp: representable_def f64_round_def Let_def split: if_splits)

lemma f64_round_between:
  assumes "representable lo" and "representable hi" and "lo \<le> x" and "x \<le> hi"
  shows "f64_round x = Finite (fl x)" and "lo \<le> fl x" and "fl x \<le> hi"
proof -
  show bounds: "lo \<le> fl x" "fl x \<le> hi"
    using fl_mono [OF assms(3)] fl_mono [OF assms(4)] assms(1,2)
    by (simp_all add: representable_fl)
  have "\<not> 2 ^ 1024 \<le> hi" "\<not> lo \<le> - (2 ^ 1024)"
    using assms(1,2) by (auto simp: representable_def f64_round_def Let_def split: if_splits)
  with bounds have "\<not> 2 ^ 1024 \<le> fl x" "\<not> fl x \<le> - (2 ^ 1024)" by linarith+
  then show "f64_round x = Finite (fl x)" by (simp only: f64_round_def Let_def if_False)
qed

lemma round_away_mono: "x \<le> y \<Longrightarrow> round_away x \<le> round_away y"
proof -
  assume xy: "x \<le> y"
  have "\<lceil>x - 1 / 2\<rceil> \<le> \<lfloor>y + 1 / 2\<rfloor>" if "x < 0" "0 \<le> y"
    by (rule order.trans [of _ 0]) (use that in \<open>simp_all add: ceiling_le_iff\<close>)
  then show ?thesis
    using xy by (auto simp: round_away_def intro: floor_mono ceiling_mono)
qed

lemma round_away_error: "\<bar>of_int (round_away x) - x\<bar> \<le> 1 / 2"
proof (cases "0 \<le> x")
  case True
  have "of_int \<lfloor>x + 1 / 2\<rfloor> - x \<le> 1 / 2" "- (of_int \<lfloor>x + 1 / 2\<rfloor> - x) \<le> 1 / 2" by linarith+
  with True show ?thesis unfolding round_away_def by (simp only: abs_le_iff if_True simp_thms)
next
  case False
  have "of_int \<lceil>x - 1 / 2\<rceil> - x \<le> 1 / 2" "- (of_int \<lceil>x - 1 / 2\<rceil> - x) \<le> 1 / 2" by linarith+
  with False show ?thesis unfolding round_away_def by (simp only: abs_le_iff if_False simp_thms)
qed

lemma round_away_near: "0 \<le> n \<Longrightarrow> \<bar>x - of_int n\<bar> < 1 / 2 \<Longrightarrow> round_away x = n"
proof -
  assume n: "0 \<le> n" and "\<bar>x - of_int n\<bar> < 1 / 2"
  then have d: "of_int n - 1 / 2 < x" "x < of_int n + 1 / 2" by linarith+
  show ?thesis
  proof (cases "0 \<le> x")
    case True
    then show ?thesis using d by (simp add: round_away_def floor_eq_iff)
  next
    case False
    with d have "(of_int n::rat) < 1" by linarith
    with n have "n = 0" by simp
    with False d show ?thesis by (simp add: round_away_def ceiling_eq_iff)
  qed
qed

subsection \<open>Doubling is exact\<close>

lemma ilog2_unique:
  assumes "0 < x" and "2 powi k \<le> x" and "x < 2 powi (k + 1)"
  shows "ilog2 x = k"
proof -
  note b = ilog2_bounds [OF assms(1)]
  have "(2::rat) powi ilog2 x < 2 powi (k + 1)" using b(1) assms(3) by (rule order.strict_trans1)
  moreover have "(2::rat) powi k < 2 powi (ilog2 x + 1)" using assms(2) b(2) by (rule order.strict_trans1)
  ultimately show ?thesis using powi_less_exp by (smt (verit, best))
qed

lemma ilog2_double: "0 < x \<Longrightarrow> ilog2 (2 * x) = ilog2 x + 1"
  using ilog2_bounds [of x] by (intro ilog2_unique) (simp_all add: power_int_add)

lemma ulp_double: "x \<noteq> 0 \<Longrightarrow> ulp (2 * x) = ulp x \<or> ulp (2 * x) = 2 * ulp x"
proof -
  assume "x \<noteq> 0"
  then have e: "ilog2 \<bar>2 * x\<bar> = ilog2 \<bar>x\<bar> + 1" by (simp add: abs_mult ilog2_double)
  let ?m = "max (ilog2 \<bar>x\<bar> - 52) (-1074)"
  have "max (ilog2 \<bar>2 * x\<bar> - 52) (-1074) = ?m \<or> max (ilog2 \<bar>2 * x\<bar> - 52) (-1074) = ?m + 1"
    unfolding e by linarith
  moreover have "(2::rat) powi (?m + 1) = 2 * 2 powi ?m" by (simp add: power_int_add)
  ultimately show ?thesis unfolding ulp_def by metis
qed

lemma fl_double:
  assumes "fl x = x"
  shows "fl (2 * x) = 2 * x"
proof (cases "x = 0")
  case False
  with assms obtain n where n: "x = of_int n * ulp x" by (metis fl_def)
  have "\<exists>m. 2 * x = of_int m * ulp (2 * x)"
    using ulp_double [OF False]
  proof
    assume "ulp (2 * x) = ulp x"
    with n have "2 * x = of_int (2 * n) * ulp (2 * x)" by simp
    then show ?thesis ..
  next
    assume "ulp (2 * x) = 2 * ulp x"
    with n have "2 * x = of_int n * ulp (2 * x)" by simp
    then show ?thesis ..
  qed
  then obtain m where m: "2 * x = of_int m * ulp (2 * x)" ..
  then have "2 * x / ulp (2 * x) = of_int m" by (simp add: divide_eq_eq)
  then have "fl (2 * x) = of_int m * ulp (2 * x)" using False by (simp only: fl_def round_even_of_int) simp
  with m show ?thesis by simp
qed simp

lemma representable_double:
  assumes "representable x" and "\<bar>x\<bar> \<le> 2 ^ 1000"
  shows "representable (2 * x)"
proof -
  have fl: "fl (2 * x) = 2 * x" using representable_fl [OF assms(1)] by (rule fl_double)
  have "2 * 2 ^ 1000 < (2::rat) ^ 1024" by simp
  with assms(2) have "\<not> 2 ^ 1024 \<le> 2 * x" "\<not> 2 * x \<le> - (2 ^ 1024)" by linarith+
  then show ?thesis by (simp only: representable_def f64_round_def Let_def fl if_False)
qed

lemma midpoint_between:
  assumes "representable lo" and "representable hi" and "\<bar>lo\<bar> \<le> 2 ^ 1000" and "\<bar>hi\<bar> \<le> 2 ^ 1000"
    and a: "lo \<le> a" "a \<le> hi" and b: "lo \<le> b" "b \<le> hi"
  shows "\<exists>m. f64_div (f64_add (Finite a) (Finite b)) (Finite 2) = Finite m \<and> lo \<le> m \<and> m \<le> hi"
proof -
  note two = representable_double [OF assms(1,3)] representable_double [OF assms(2,4)]
  have "2 * lo \<le> a + b" "a + b \<le> 2 * hi" using a b by linarith+
  note s = f64_round_between [OF two this]
  then have "lo \<le> fl (a + b) / 2" "fl (a + b) / 2 \<le> hi" by simp_all
  note h = f64_round_between [OF assms(1,2) this]
  show ?thesis using s(1) h by simp
qed

end
