(* ===== verification/Asset_Rescue_Service.thy ===== *)
theory Asset_Rescue_Service
  imports Asset_Rescue_Tx Musig Swap_Types Boltz_Cache F64_Order
begin

text \<open>
  The service that rescues foreign assets from swap outputs with the user,
  \<open>src/boltzr/src/swap/asset_rescue.rs\<close>. It builds the transaction of \<open>Asset_Rescue_Tx\<close>, keeps the
  nonce of the \<open>Musig\<close> session in the cache of \<open>Boltz_Cache\<close>, and signs when the user does. The node,
  the wallet, hex, and the encodings and hashes of transactions are records of functions. The
  accesses to the cache happen at times that are arguments, and \<open>others\<close> is what other requests do
  to the cache while one waits.
\<close>

datatype rescue_service_error =
    RescuePending | RescueNotPending | RsCache cache_error | LegacySwap | RsModel model_error | RsPair pair_error
  | KeyIndexMissing | PublicKeyMissing | TreeMissing | TreeInvalid | RsSwapNotFound | CurrencyMissing
  | ChainMissing | WalletMissing | NotEligible | RsChain | RsHex | RsEncoding | RsAddress | RsWallet | RsNetwork network_error
  | NoUtxos | OutputMissing | RsConstruct asset_rescue_error | RsSighash | RsMusig musig_error | RsKey | RsTweak
  | RsSignature | SigningFailed

definition CACHE_TTL :: u64 where
  "CACHE_TTL = 15"

definition CACHE_KEY :: string where
  "CACHE_KEY = ''asset_rescue''"

record pending_rescue =
  pe_sec_nonce :: string
  pe_pub_nonce :: string
  pe_sighash :: string
  pe_funding_txid :: string
  pe_funding_vout :: u32
  pe_transaction :: string

record asset_rescue_details =
  ad_lockup_address :: string
  ad_key_index :: u64
  ad_their_public_key :: bytes
  ad_swap_tree :: el_tree

record asset_rescue_params =
  ap_our_public_key :: bytes
  ap_pub_nonce :: bytes
  ap_transaction :: string
  ap_message :: bytes

record unspent_output =
  un_txid :: string
  un_vout :: u32
  un_address :: string
  un_amount :: f64
  un_asset :: "string option"

record chain_client =
  ch_raw_transaction :: "string \<Rightarrow> string option"
  ch_list_unspent :: "string option \<Rightarrow> unspent_output list option"
  ch_new_address :: "string option \<Rightarrow> string \<Rightarrow> string option"
  ch_dump_blinding_key :: "string option \<Rightarrow> string \<Rightarrow> string option"
  ch_estimate_fee :: "f64 option"
  ch_sign_raw_transaction :: "string option \<Rightarrow> string \<Rightarrow> (string \<times> bool) option"
  ch_send_raw_transaction :: "string \<Rightarrow> string option"

record swap_wallet =
  wl_decode_address :: "string \<Rightarrow> bytes option"
  wl_derive_blinding_key :: "bytes \<Rightarrow> bytes option"
  wl_derive_keys :: "u64 \<Rightarrow> bytes option"

record rescue_currency =
  cur_network :: network
  cur_chain :: "chain_client option"
  cur_wallet :: "swap_wallet option"

text \<open>\<open>en_print_u32\<close> prints a number; \<open>en_tap_tweak\<close> is the tweak of a tree over an internal key.\<close>

record encodings =
  en_hex_decode :: "string \<Rightarrow> bytes option"
  en_hex_encode :: "bytes \<Rightarrow> string"
  en_print_u32 :: "u32 \<Rightarrow> string"
  en_tx_deserialize :: "bytes \<Rightarrow> el_transaction option"
  en_tx_serialize :: "el_transaction \<Rightarrow> bytes"
  en_txid :: "el_transaction \<Rightarrow> bytes"
  en_address :: "string \<Rightarrow> el_address option"
  en_keypair :: "bytes \<Rightarrow> keypair option"
  en_key_spend_sighash :: "el_transaction \<Rightarrow> nat \<Rightarrow> el_tx_out list \<Rightarrow> string \<Rightarrow> bytes option"
  en_tree :: "string \<Rightarrow> el_tree option"
  en_tap_tweak :: "el_tree \<Rightarrow> bytes \<Rightarrow> bytes option"
  en_public_key :: "bytes \<Rightarrow> bytes option"
  en_partial_signature :: "bytes \<Rightarrow> bytes option"
  en_verify :: "bytes \<Rightarrow> bytes \<Rightarrow> bytes \<Rightarrow> bool"

record ('f, 'c, 's, 'r) rescue_env =
  ev_elements :: "'f elements_lib"
  ev_outputs :: rescue_lib
  ev_rng :: "bool \<Rightarrow> 'f el_rng"
  ev_musig :: "('c, 's) musig_lib"
  ev_secrand :: bytes
  ev_enc :: encodings
  ev_redis :: "'r redis_server"
  ev_pending_codec :: "pending_rescue value_codec"
  ev_bool_codec :: "bool value_codec"
  ev_wallets :: "string \<rightharpoonup> string"
  ev_currencies :: "string \<rightharpoonup> rescue_currency"
  ev_swaps :: "swap list"
  ev_chain_swaps :: "chain_swap_info list"

definition cache_field_swap :: "string \<Rightarrow> string" where
  "cache_field_swap i = ''swap:'' @ i"

definition cache_field_reserved_utxo :: "encodings \<Rightarrow> string \<Rightarrow> string \<Rightarrow> u32 \<Rightarrow> string" where
  "cache_field_reserved_utxo en symbol tx_id n =
     ''reserved_utxo:'' @ symbol @ '':'' @ tx_id @ '':'' @ en_print_u32 en n"

definition change_label :: "string \<Rightarrow> string" where
  "change_label i = ''Asset Rescue for '' @ i"

subsection \<open>Swaps and nodes\<close>

text \<open>Of the swap that is found only its id and its state are used, beside the details.\<close>

definition details_of ::
  "encodings \<Rightarrow> string \<Rightarrow> i32 option \<Rightarrow> string option \<Rightarrow> string option
    \<Rightarrow> (rescue_service_error, asset_rescue_details) result" where
  "details_of en lockup_address index public_key tree =
     r_bind (ok_or KeyIndexMissing index) (\<lambda>i.
     r_bind (ok_or PublicKeyMissing public_key) (\<lambda>pk.
     r_bind (ok_or RsHex (en_hex_decode en pk)) (\<lambda>pk.
     r_bind (ok_or TreeMissing tree) (\<lambda>t.
     r_bind (ok_or TreeInvalid (en_tree en t)) (\<lambda>t.
       Ok \<lparr>ad_lockup_address = lockup_address, ad_key_index = scast i, ad_their_public_key = pk,
           ad_swap_tree = t\<rparr>)))))"

definition get_rescue_swap ::
  "encodings \<Rightarrow> swap list \<Rightarrow> chain_swap_info list \<Rightarrow> string
    \<Rightarrow> (rescue_service_error, (string \<times> swap_update) \<times> string \<times> asset_rescue_details) result" where
  "get_rescue_swap en swaps chain_swaps swap_id =
     (case List.find (\<lambda>s. sw_id s = swap_id) swaps of
        Some s \<Rightarrow>
          r_bind (r_map_err RsModel (swap_version_try_from (sw_version s))) (\<lambda>version.
          if version = VersionLegacy then Err LegacySwap
          else r_bind (r_map_err RsPair (sw_chain_symbol s)) (\<lambda>symbol.
               r_bind (details_of en (sw_lockup_address s) (sw_key_index s) (sw_refund_public_key s) (sw_redeem_script s))
                 (\<lambda>details. Ok ((sw_id s, swap_update_parse (sw_status s)), symbol, details))))
      | None \<Rightarrow>
          (case List.find (\<lambda>c. cs_id (ci_swap c) = swap_id) chain_swaps of
             Some c \<Rightarrow>
               (let receiving = ci_receiving c in
                r_bind (details_of en (cd_lockup_address receiving) (cd_key_index receiving)
                    (cd_their_public_key receiving) (cd_swap_tree receiving))
                  (\<lambda>details. Ok ((cs_id (ci_swap c), swap_update_parse (cs_status (ci_swap c))), cd_symbol receiving, details)))
           | None \<Rightarrow> Err RsSwapNotFound))"

definition get_node ::
  "(string \<rightharpoonup> rescue_currency) \<Rightarrow> string
    \<Rightarrow> (rescue_service_error, rescue_currency \<times> chain_client \<times> swap_wallet) result" where
  "get_node currencies symbol =
     r_bind (ok_or CurrencyMissing (currencies symbol)) (\<lambda>currency.
     r_bind (ok_or ChainMissing (cur_chain currency)) (\<lambda>chain.
     r_bind (ok_or WalletMissing (cur_wallet currency)) (\<lambda>wallet.
       Ok (currency, chain, wallet))))"

definition check_eligibility :: "swap_update \<Rightarrow> (rescue_service_error, unit) result" where
  "check_eligibility status =
     (if status = TransactionLockupFailed \<or> status = SwapExpired then Ok () else Err NotEligible)"

subsection \<open>Funding\<close>

text \<open>\<open>Amount::from_sat(1_000).to_btc()\<close>.\<close>

definition MIN_FUNDING :: f64 where
  "MIN_FUNDING = f64_round (1 / 100000)"

text \<open>The outputs are checked one after the other until one is not reserved; errors count as reserved.\<close>

fun next_unreserved ::
  "('f, 'c, 's, 'r) rescue_env \<Rightarrow> int \<Rightarrow> string \<Rightarrow> unspent_output list \<Rightarrow> 'r cache \<Rightarrow> 'r cache \<times> unspent_output option"
where
  "next_unreserved env now symbol [] cache = (cache, None)"
| "next_unreserved env now symbol (u # us) cache =
     (case cache_get (ev_redis env) (ev_bool_codec env) now CACHE_KEY
         (cache_field_reserved_utxo (ev_enc env) symbol (un_txid u) (un_vout u)) cache of
        (cache', r) \<Rightarrow>
          if (case r of Ok (Some reserved) \<Rightarrow> \<not> reserved | Ok None \<Rightarrow> True | _ \<Rightarrow> False) then (cache', Some u)
          else next_unreserved env now symbol us cache')"

definition funding_candidates :: "string \<Rightarrow> unspent_output list \<Rightarrow> unspent_output list" where
  "funding_candidates asset us = filter (\<lambda>u. un_asset u = Some asset \<and> f64_gt (un_amount u) MIN_FUNDING) us"

definition find_funding_utxo ::
  "('f, 'c, 's, 'r) rescue_env \<Rightarrow> int \<Rightarrow> string \<Rightarrow> network \<Rightarrow> chain_client \<Rightarrow> 'r cache
    \<Rightarrow> 'r cache \<times> (rescue_service_error, unspent_output) result" where
  "find_funding_utxo env now symbol network chain cache =
     (case r_bind (r_map_err RsNetwork (liquid_asset_id network)) (\<lambda>asset.
           r_bind (ok_or RsChain (ch_list_unspent chain (ev_wallets env symbol))) (\<lambda>us.
             Ok (funding_candidates asset us))) of
        Err e \<Rightarrow> (cache, Err e)
      | Panic \<Rightarrow> (cache, Panic)
      | Ok us \<Rightarrow>
          (case next_unreserved env now symbol us cache of
             (cache1, None) \<Rightarrow> (cache1, Err NoUtxos)
           | (cache1, Some u) \<Rightarrow>
               (case cache_set (ev_redis env) (ev_bool_codec env) now CACHE_KEY
                   (cache_field_reserved_utxo (ev_enc env) symbol (un_txid u) (un_vout u)) True (Some CACHE_TTL) cache1 of
                  (cache2, r) \<Rightarrow> (cache2, r_bind (r_map_err RsCache r) (\<lambda>_. Ok u)))))"

definition get_transaction :: "encodings \<Rightarrow> chain_client \<Rightarrow> string \<Rightarrow> (rescue_service_error, el_transaction) result" where
  "get_transaction en chain i =
     r_bind (ok_or RsChain (ch_raw_transaction chain i)) (\<lambda>raw.
     r_bind (ok_or RsHex (en_hex_decode en raw)) (\<lambda>bs.
       ok_or RsEncoding (en_tx_deserialize en bs)))"

definition output_at :: "el_transaction \<Rightarrow> u32 \<Rightarrow> (rescue_service_error, el_tx_out) result" where
  "output_at tx n = ok_or OutputMissing (if unat n < length (el_outputs tx) then Some (el_outputs tx ! unat n) else None)"

definition decoded_keypair :: "encodings \<Rightarrow> string \<Rightarrow> (rescue_service_error, keypair) result" where
  "decoded_keypair en s =
     r_bind (ok_or RsHex (en_hex_decode en s)) (\<lambda>bs. ok_or RsKey (en_keypair en bs))"

subsection \<open>Creating a rescue\<close>

text \<open>The transaction: the asset from the swap output, the fee from the output of the wallet.\<close>

definition rescue_transaction_for ::
  "('f::comm_ring_1, 'c, 's, 'r) rescue_env \<Rightarrow> rescue_currency \<Rightarrow> chain_client \<Rightarrow> swap_wallet \<Rightarrow> string option \<Rightarrow> string
    \<Rightarrow> asset_rescue_details \<Rightarrow> el_transaction \<Rightarrow> u32 \<Rightarrow> el_address \<Rightarrow> unspent_output
    \<Rightarrow> (rescue_service_error, el_transaction \<times> el_tx_out \<times> el_tx_out) result" where
  "rescue_transaction_for env currency chain wallet wallet_name swap_id details tx n destination funding =
     (let en = ev_enc env in
      r_bind (get_transaction en chain (un_txid funding)) (\<lambda>funding_tx.
      r_bind (ok_or RsChain (ch_new_address chain wallet_name (change_label swap_id))) (\<lambda>address.
      r_bind (ok_or RsAddress (en_address en address)) (\<lambda>change_destination.
      r_bind (output_at tx n) (\<lambda>swap_out.
      r_bind (output_at funding_tx (un_vout funding)) (\<lambda>funding_out.
      r_bind (ok_or RsWallet (wl_decode_address wallet (ad_lockup_address details))) (\<lambda>script.
      r_bind (ok_or RsWallet (wl_derive_blinding_key wallet script)) (\<lambda>blinding.
      r_bind (ok_or RsKey (en_keypair en blinding)) (\<lambda>asset_key.
      r_bind (ok_or RsChain (ch_dump_blinding_key chain wallet_name (un_address funding))) (\<lambda>dumped.
      r_bind (decoded_keypair en dumped) (\<lambda>funding_key.
      r_bind (ok_or RsChain (ch_estimate_fee chain)) (\<lambda>rate.
      r_bind (r_map_err RsConstruct (construct_asset_rescue (ev_elements env) (ev_outputs env) (ev_rng env)
          (cur_network currency)
          \<lparr>pair_tx_out = swap_out, pair_outpoint = \<lparr>txid = en_txid en tx, vout = n\<rparr>,
            pair_blinding_key = Some asset_key, pair_destination = destination\<rparr>
          \<lparr>pair_tx_out = funding_out, pair_outpoint = \<lparr>txid = en_txid en funding_tx, vout = un_vout funding\<rparr>,
            pair_blinding_key = Some funding_key, pair_destination = change_destination\<rparr>
          (Relative rate))) (\<lambda>(rescue_tx, _).
        Ok (rescue_tx, swap_out, funding_out))))))))))))))"

definition our_keypair :: "encodings \<Rightarrow> swap_wallet \<Rightarrow> u64 \<Rightarrow> (rescue_service_error, keypair) result" where
  "our_keypair en wallet index =
     r_bind (ok_or RsWallet (wl_derive_keys wallet index)) (\<lambda>sk. ok_or RsKey (en_keypair en sk))"

definition prepare_rescue ::
  "('f::comm_ring_1, 'c, 's, 'r) rescue_env \<Rightarrow> rescue_currency \<Rightarrow> chain_client \<Rightarrow> swap_wallet \<Rightarrow> string option \<Rightarrow> string
    \<Rightarrow> asset_rescue_details \<Rightarrow> el_transaction \<Rightarrow> u32 \<Rightarrow> el_address \<Rightarrow> unspent_output
    \<Rightarrow> (rescue_service_error, pending_rescue \<times> asset_rescue_params) result" where
  "prepare_rescue env currency chain wallet wallet_name swap_id details tx n destination funding =
     (let en = ev_enc env; mu = ev_musig env in
      r_bind (rescue_transaction_for env currency chain wallet wallet_name swap_id details tx n destination funding)
        (\<lambda>(rescue_tx, swap_out, funding_out).
      r_bind (r_map_err RsNetwork (liquid_genesis_hash (cur_network currency))) (\<lambda>genesis.
      r_bind (ok_or RsSighash (en_key_spend_sighash en rescue_tx 0 [swap_out, funding_out] genesis)) (\<lambda>sighash.
      r_bind (our_keypair en wallet (ad_key_index details)) (\<lambda>our_keys.
      r_bind (ok_or (RsMusig MuSecp) (en_public_key en (ad_their_public_key details))) (\<lambda>their_key.
      r_bind (r_map_err RsMusig (musig_setup mu our_keys [mu_public_key mu our_keys, their_key])) (\<lambda>musig.
      r_bind (r_map_err RsMusig (generate_nonce mu (ev_secrand env) (set_message sighash musig))) (\<lambda>musig.
      r_bind (r_map_err RsMusig (pub_nonce musig)) (\<lambda>our_nonce.
      r_bind (r_map_err RsMusig (dangerous_secnonce musig)) (\<lambda>secret.
        let raw = en_hex_encode en (en_tx_serialize en rescue_tx) in
        Ok (\<lparr>pe_sec_nonce = en_hex_encode en secret, pe_pub_nonce = en_hex_encode en our_nonce,
             pe_sighash = en_hex_encode en sighash, pe_funding_txid = un_txid funding, pe_funding_vout = un_vout funding,
             pe_transaction = raw\<rparr>,
            \<lparr>ap_our_public_key = mu_public_key mu our_keys, ap_pub_nonce = our_nonce, ap_transaction = raw,
             ap_message = sighash\<rparr>)))))))))))"

text \<open>The steps of \<open>create\<close> that access the cache: the check, the choice of the output, the entry.\<close>

definition create_check ::
  "('f, 'c, 's, 'r) rescue_env \<Rightarrow> int \<Rightarrow> string \<Rightarrow> 'r cache \<Rightarrow> 'r cache \<times> (rescue_service_error, unit) result" where
  "create_check env now swap_id cache =
     (case cache_get (ev_redis env) (ev_pending_codec env) now CACHE_KEY (cache_field_swap swap_id) cache of
        (cache', r) \<Rightarrow> (cache', r_bind (r_map_err RsCache r) (\<lambda>p. if p \<noteq> None then Err RescuePending else Ok ())))"

definition create_store ::
  "('f, 'c, 's, 'r) rescue_env \<Rightarrow> int \<Rightarrow> string \<Rightarrow> pending_rescue \<Rightarrow> 'r cache
    \<Rightarrow> 'r cache \<times> (rescue_service_error, unit) result" where
  "create_store env now swap_id pending cache =
     map_prod id (r_map_err RsCache)
       (cache_set (ev_redis env) (ev_pending_codec env) now CACHE_KEY (cache_field_swap swap_id) pending
         (Some CACHE_TTL) cache)"

definition create_target ::
  "('f, 'c, 's, 'r) rescue_env \<Rightarrow> string \<Rightarrow> string
    \<Rightarrow> (rescue_service_error, string \<times> asset_rescue_details \<times> rescue_currency \<times> chain_client \<times> swap_wallet
         \<times> el_transaction) result" where
  "create_target env swap_id transaction_id =
     r_bind (get_rescue_swap (ev_enc env) (ev_swaps env) (ev_chain_swaps env) swap_id) (\<lambda>((_, status), symbol, details).
     r_bind (check_eligibility status) (\<lambda>_.
     r_bind (get_node (ev_currencies env) symbol) (\<lambda>(currency, chain, wallet).
     r_bind (get_transaction (ev_enc env) chain transaction_id) (\<lambda>tx.
       Ok (symbol, details, currency, chain, wallet, tx)))))"

definition create ::
  "('f::comm_ring_1, 'c, 's, 'r) rescue_env \<Rightarrow> int \<times> int \<times> int \<Rightarrow> (nat \<Rightarrow> 'r cache \<Rightarrow> 'r cache) \<Rightarrow> string \<Rightarrow> string \<Rightarrow> u32
    \<Rightarrow> el_address \<Rightarrow> 'r cache \<Rightarrow> 'r cache \<times> (rescue_service_error, asset_rescue_params) result" where
  "create env = (\<lambda>(t0, t1, t2) others swap_id transaction_id n destination cache.
     case create_check env t0 swap_id cache of
       (cache, Err e) \<Rightarrow> (cache, Err e)
     | (cache, Panic) \<Rightarrow> (cache, Panic)
     | (cache, Ok _) \<Rightarrow>
       (case create_target env swap_id transaction_id of
          Err e \<Rightarrow> (cache, Err e)
        | Panic \<Rightarrow> (cache, Panic)
        | Ok (symbol, details, currency, chain, wallet, tx) \<Rightarrow>
          (case find_funding_utxo env t1 symbol (cur_network currency) chain (others 0 cache) of
             (cache, Err e) \<Rightarrow> (cache, Err e)
           | (cache, Panic) \<Rightarrow> (cache, Panic)
           | (cache, Ok funding) \<Rightarrow>
             (case prepare_rescue env currency chain wallet (ev_wallets env symbol) swap_id details tx n destination funding of
                Err e \<Rightarrow> (cache, Err e)
              | Panic \<Rightarrow> (cache, Panic)
              | Ok (pending, params) \<Rightarrow>
                  map_prod id (r_map (\<lambda>_. params)) (create_store env t2 swap_id pending (others 1 cache))))))"

subsection \<open>Signing and broadcasting\<close>

text \<open>The signature over the pending hash, for the key of the swap output.\<close>

definition sign_rescue ::
  "('f, 'c, 's, 'r) rescue_env \<Rightarrow> keypair \<Rightarrow> bytes \<Rightarrow> el_tree \<Rightarrow> bytes \<Rightarrow> pending_rescue \<Rightarrow> bytes \<Rightarrow> bytes
    \<Rightarrow> (rescue_service_error, bytes) result" where
  "sign_rescue env our_keys their_key tree message pending their_nonce partial_signature =
     (let en = ev_enc env; mu = ev_musig env in
      r_bind (r_map_err RsMusig (musig_setup mu our_keys [mu_public_key mu our_keys, their_key])) (\<lambda>musig.
      r_bind (ok_or RsTweak (en_tap_tweak en tree (agg_pk mu musig))) (\<lambda>tweak.
      r_bind (r_map_err RsMusig (xonly_tweak_add mu tweak musig)) (\<lambda>musig.
      if length message \<noteq> 32 then Err (RsMusig MuSlice)
      else
        let musig = set_message message musig; aggregate_key = agg_pk mu musig in
        r_bind (ok_or RsHex (en_hex_decode en (pe_sec_nonce pending))) (\<lambda>secret.
        r_bind (ok_or RsHex (en_hex_decode en (pe_pub_nonce pending))) (\<lambda>our_nonce.
        r_bind (r_map_err RsMusig (dangerous_set_nonce mu secret our_nonce musig)) (\<lambda>musig.
        r_bind (r_map_err RsMusig (convert_pub_nonce mu their_nonce)) (\<lambda>nonce.
        r_bind (r_map_err RsMusig (aggregate_nonces mu [(their_key, nonce)] musig)) (\<lambda>musig.
        r_bind (r_map_err RsMusig (initialize_session mu musig)) (\<lambda>musig.
        r_bind (if length partial_signature \<noteq> 32 then Err (RsMusig MuSlice)
                else ok_or (RsMusig MuParse) (en_partial_signature en partial_signature)) (\<lambda>psig.
        r_bind (r_map_err RsMusig (partial_add mu their_key psig musig)) (\<lambda>musig.
        r_bind (r_map_err RsMusig (partial_sign mu musig)) (\<lambda>musig.
        r_bind (r_map_err RsMusig (partial_aggregate mu musig)) (\<lambda>sig.
          if en_verify en sig aggregate_key message then Ok sig else Err RsSignature))))))))))))))"

text \<open>\<open>tx.input[0]\<close> panics on a transaction without inputs.\<close>

definition push_witness :: "bytes \<Rightarrow> el_transaction \<Rightarrow> (rescue_service_error, el_transaction) result" where
  "push_witness sig tx =
     (case el_inputs tx of
        [] \<Rightarrow> Panic
      | i # is \<Rightarrow> Ok (tx\<lparr>el_inputs := i\<lparr>witness := witness i @ [sig]\<rparr> # is\<rparr>))"

text \<open>The transactions that are sent to the node are returned beside the result.\<close>

definition broadcast_inner ::
  "('f, 'c, 's, 'r) rescue_env \<Rightarrow> string \<Rightarrow> asset_rescue_details \<Rightarrow> pending_rescue \<Rightarrow> bytes \<Rightarrow> bytes
    \<Rightarrow> string list \<times> (rescue_service_error, string) result" where
  "broadcast_inner env symbol details pending their_nonce partial_signature =
     (let en = ev_enc env in
      case (r_bind (ok_or (RsMusig MuSecp) (en_public_key en (ad_their_public_key details))) (\<lambda>their_key.
            r_bind (get_node (ev_currencies env) symbol) (\<lambda>(_, chain, wallet).
            r_bind (ok_or RsHex (en_hex_decode en (pe_sighash pending))) (\<lambda>message.
            r_bind (our_keypair en wallet (ad_key_index details)) (\<lambda>our_keys.
            r_bind (sign_rescue env our_keys their_key (ad_swap_tree details) message pending their_nonce partial_signature) (\<lambda>sig.
            r_bind (ok_or RsHex (en_hex_decode en (pe_transaction pending))) (\<lambda>bs.
            r_bind (ok_or RsEncoding (en_tx_deserialize en bs)) (\<lambda>tx.
            r_bind (push_witness sig tx) (\<lambda>tx.
            r_bind (ok_or RsChain (ch_sign_raw_transaction chain (ev_wallets env symbol)
                (en_hex_encode en (en_tx_serialize en tx)))) (\<lambda>(raw, complete).
              if \<not> complete then Err SigningFailed else Ok (chain, raw))))))))))) of
        Ok (chain, raw) \<Rightarrow> ([raw], ok_or RsChain (ch_send_raw_transaction chain raw))
      | Err e \<Rightarrow> ([], Err e)
      | Panic \<Rightarrow> ([], Panic))"

text \<open>A failure to delete the reservation is logged only; a panic leaves it.\<close>

definition broadcast ::
  "('f, 'c, 's, 'r) rescue_env \<Rightarrow> int \<Rightarrow> ('r cache \<Rightarrow> 'r cache) \<Rightarrow> string \<Rightarrow> bytes \<Rightarrow> bytes \<Rightarrow> 'r cache
    \<Rightarrow> 'r cache \<times> string list \<times> (rescue_service_error, string) result" where
  "broadcast env now others swap_id their_nonce partial_signature cache =
     (case cache_take (ev_redis env) (ev_pending_codec env) now CACHE_KEY (cache_field_swap swap_id) cache of
        (cache, Err e) \<Rightarrow> (cache, [], Err (RsCache e))
      | (cache, Panic) \<Rightarrow> (cache, [], Panic)
      | (cache, Ok None) \<Rightarrow> (cache, [], Err RescueNotPending)
      | (cache, Ok (Some pending)) \<Rightarrow>
          (case get_rescue_swap (ev_enc env) (ev_swaps env) (ev_chain_swaps env) swap_id of
             Err e \<Rightarrow> (cache, [], Err e)
           | Panic \<Rightarrow> (cache, [], Panic)
           | Ok (_, symbol, details) \<Rightarrow>
               (case broadcast_inner env symbol details pending their_nonce partial_signature of
                  (sent, Panic) \<Rightarrow> (others cache, sent, Panic)
                | (sent, res) \<Rightarrow>
                    (fst (cache_delete (ev_redis env) CACHE_KEY
                       (cache_field_reserved_utxo (ev_enc env) symbol (pe_funding_txid pending) (pe_funding_vout pending))
                       (others cache)), sent, res))))"

subsection \<open>Requests that run concurrently\<close>

text \<open>
  The accesses to the cache in memory, in any order, with cleanups anywhere; the choice of an output
  is one access since it holds the mutex. Beside the cache the state has the clock, the nonces that
  were stored, the nonces that were taken to sign, and the reservations with their times.
\<close>

record rescue_state =
  st_clock :: int
  st_mem :: mem_cache
  st_stored :: "string list"
  st_signed :: "string list"
  st_reserved :: "(string \<times> int) list"

definition utxo_field :: "('f, 'c, 's, 'r) rescue_env \<Rightarrow> string \<Rightarrow> unspent_output \<Rightarrow> string" where
  "utxo_field env symbol u = cache_field_reserved_utxo (ev_enc env) symbol (un_txid u) (un_vout u)"

inductive rescue_reach ::
  "('f, 'c, 's, 'r) rescue_env \<Rightarrow> (string \<Rightarrow> u64 option option) \<Rightarrow> rescue_state \<Rightarrow> bool"
  for env :: "('f, 'c, 's, 'r) rescue_env" and ee :: "string \<Rightarrow> u64 option option" where
  start: "0 \<le> t \<Longrightarrow> rescue_reach env ee
    \<lparr>st_clock = t, st_mem = mem_cache_new, st_stored = [], st_signed = [], st_reserved = []\<rparr>"
| checked: "rescue_reach env ee s \<Longrightarrow> st_clock s \<le> t
    \<Longrightarrow> create_check env t i (Memory (st_mem s)) = (Memory m', r)
    \<Longrightarrow> rescue_reach env ee (s\<lparr>st_clock := t, st_mem := m'\<rparr>)"
| funded: "rescue_reach env ee s \<Longrightarrow> st_clock s \<le> t
    \<Longrightarrow> find_funding_utxo env t symbol network chain (Memory (st_mem s)) = (Memory m', r)
    \<Longrightarrow> rescue_reach env ee (s\<lparr>st_clock := t, st_mem := m',
      st_reserved := (case r of Ok u \<Rightarrow> (utxo_field env symbol u, t) # st_reserved s | _ \<Rightarrow> st_reserved s)\<rparr>)"
| stored: "rescue_reach env ee s \<Longrightarrow> st_clock s \<le> t
    \<Longrightarrow> create_store env t i pending (Memory (st_mem s)) = (Memory m', r)
    \<Longrightarrow> rescue_reach env ee (s\<lparr>st_clock := t, st_mem := m', st_stored := pe_sec_nonce pending # st_stored s\<rparr>)"
| taken: "rescue_reach env ee s \<Longrightarrow> st_clock s \<le> t
    \<Longrightarrow> cache_take (ev_redis env) (ev_pending_codec env) t CACHE_KEY (cache_field_swap i) (Memory (st_mem s)) = (Memory m', r)
    \<Longrightarrow> rescue_reach env ee (s\<lparr>st_clock := t, st_mem := m',
      st_signed := (case r of Ok (Some pending) \<Rightarrow> pe_sec_nonce pending # st_signed s | _ \<Rightarrow> st_signed s)\<rparr>)"
| released: "rescue_reach env ee s
    \<Longrightarrow> cache_delete (ev_redis env) CACHE_KEY (utxo_field env symbol u) (Memory (st_mem s)) = (Memory m', r)
    \<Longrightarrow> rescue_reach env ee (s\<lparr>st_mem := m', st_reserved := filter (\<lambda>(f, _). f \<noteq> utxo_field env symbol u) (st_reserved s)\<rparr>)"
| cleaned: "rescue_reach env ee s \<Longrightarrow> st_clock s \<le> t
    \<Longrightarrow> rescue_reach env ee (s\<lparr>st_clock := t, st_mem := cleanup_expired ee t (st_mem s)\<rparr>)"

definition swap_place :: "string \<Rightarrow> string" where
  "swap_place i = get_key CACHE_KEY (cache_field_swap i)"

definition utxo_place :: "string \<Rightarrow> string" where
  "utxo_place f = get_key CACHE_KEY f"

lemma places_differ:
  "swap_place i \<noteq> utxo_place (utxo_field env symbol u)" "swap_place i = swap_place j \<longleftrightarrow> i = j"
  "utxo_place f = utxo_place g \<longleftrightarrow> f = g"
  by (auto simp: swap_place_def utxo_place_def get_key_def cache_field_swap_def utxo_field_def cache_field_reserved_utxo_def)

text \<open>Entries that vanish by themselves had expired.\<close>

definition drops :: "(string \<Rightarrow> u64 option option) \<Rightarrow> int \<Rightarrow> mem_cache \<Rightarrow> mem_cache \<Rightarrow> bool" where
  "drops ee now m m' \<longleftrightarrow>
     (\<forall>k. m' k = m k \<or> m' k = None \<and> (\<exists>s e. m k = Some s \<and> ee s = Some e \<and> is_expired now e))"

lemma drops_refl: "drops ee now m m"
  by (simp add: drops_def)

lemma drops_trans: "drops ee now m m' \<Longrightarrow> drops ee now m' m'' \<Longrightarrow> drops ee now m m''"
  unfolding drops_def by metis

lemma drops_keeps:
  "drops ee now m m' \<Longrightarrow> m k = Some s \<Longrightarrow> ee s = Some e \<Longrightarrow> \<not> is_expired now e \<Longrightarrow> m' k = Some s"
  unfolding drops_def by (metis option.inject)

lemma drops_le: "drops ee now m m' \<Longrightarrow> m' k = Some s \<Longrightarrow> m k = Some s"
  unfolding drops_def by (metis option.distinct(1))

lemma cleanup_drops:
  assumes "0 \<le> now" and "\<And>k s. m k = Some s \<Longrightarrow> ee s \<noteq> None"
  shows "drops ee now m (cleanup_expired ee now m)"
  unfolding drops_def
proof
  fix k
  show "cleanup_expired ee now m k = m k
      \<or> cleanup_expired ee now m k = None \<and> (\<exists>s e. m k = Some s \<and> ee s = Some e \<and> is_expired now e)"
    using assms by (cases "m k") (auto simp: cleanup_expired_def is_expired_def split: option.splits)
qed

definition typed_entry :: "'v value_codec \<Rightarrow> (string \<Rightarrow> u64 option option) \<Rightarrow> string \<Rightarrow> bool" where
  "typed_entry codec ee s \<longleftrightarrow> (\<exists>v e. vc_from_entry codec s = Some (v, e) \<and> ee s = Some e)"

lemma mem_get_drops:
  assumes "\<And>s. m (get_key key field) = Some s \<Longrightarrow> typed_entry codec ee s"
  shows "drops ee now m (fst (mem_get codec now key field m))"
    and "snd (mem_get codec now key field m) \<noteq> Panic"
  using assms
  by (fastforce simp: mem_get_def read_entry_def drops_def typed_entry_def Let_def split: option.splits if_splits)+

definition entries_typed :: "('f, 'c, 's, 'r) rescue_env \<Rightarrow> (string \<Rightarrow> u64 option option) \<Rightarrow> mem_cache \<Rightarrow> bool" where
  "entries_typed env ee m \<longleftrightarrow> (\<forall>k v. m k = Some v \<longrightarrow>
     (\<exists>i. k = swap_place i) \<and> typed_entry (ev_pending_codec env) ee v
     \<or> (\<exists>symbol u. k = utxo_place (utxo_field env symbol u)) \<and> typed_entry (ev_bool_codec env) ee v)"

lemma entries_typed_place:
  assumes "entries_typed env ee m"
  shows "m (swap_place i) = Some v \<Longrightarrow> typed_entry (ev_pending_codec env) ee v"
    and "m (utxo_place (utxo_field env symbol u)) = Some v \<Longrightarrow> typed_entry (ev_bool_codec env) ee v"
  using assms unfolding entries_typed_def by (metis places_differ(1))+

lemma entries_typed_expiry: "entries_typed env ee m \<Longrightarrow> m k = Some v \<Longrightarrow> ee v \<noteq> None"
  unfolding entries_typed_def typed_entry_def by fastforce

lemma entries_typed_drops: "entries_typed env ee m \<Longrightarrow> drops ee now m m' \<Longrightarrow> entries_typed env ee m'"
  unfolding entries_typed_def by (metis drops_le)

lemma entries_typed_remove: "entries_typed env ee m \<Longrightarrow> entries_typed env ee (m(k := None))"
  unfolding entries_typed_def by simp

lemma entries_typed_insert:
  assumes "entries_typed env ee m"
  shows "typed_entry (ev_pending_codec env) ee v \<Longrightarrow> entries_typed env ee (m(swap_place i \<mapsto> v))"
    and "typed_entry (ev_bool_codec env) ee v \<Longrightarrow> entries_typed env ee (m(utxo_place (utxo_field env symbol u) \<mapsto> v))"
  using assms unfolding entries_typed_def by auto

text \<open>What the accesses do to the map.\<close>

lemma create_check_drops:
  assumes "entries_typed env ee m" and "create_check env t i (Memory m) = (Memory m', r)"
  shows "drops ee t m m'"
proof -
  have "m' = fst (mem_get (ev_pending_codec env) t CACHE_KEY (cache_field_swap i) m)"
    using assms(2) by (auto simp: create_check_def case_prod_unfold map_prod_def)
  then show ?thesis
    using mem_get_drops(1) [where m = m and codec = "ev_pending_codec env" and ee = ee and key = CACHE_KEY
        and field = "cache_field_swap i"] entries_typed_place(1) [OF assms(1)]
    by (simp add: swap_place_def)
qed

lemma next_unreserved_drops:
  assumes "entries_typed env ee m" and "next_unreserved env t symbol us (Memory m) = (cache', r)"
  shows "\<exists>m'. cache' = Memory m' \<and> drops ee t m m'
    \<and> (\<forall>u. r = Some u \<longrightarrow> u \<in> set us \<and> (\<forall>v e. m (utxo_place (utxo_field env symbol u)) = Some v
        \<longrightarrow> vc_from_entry (ev_bool_codec env) v = Some (True, e) \<longrightarrow> is_expired t e))"
  using assms
proof (induction us arbitrary: m)
  case Nil
  then show ?case by (auto simp: drops_refl)
next
  case (Cons u us)
  let ?get = "mem_get (ev_bool_codec env) t CACHE_KEY (utxo_field env symbol u) m"
  let ?free = "case snd ?get of Ok (Some reserved) \<Rightarrow> \<not> reserved | Ok None \<Rightarrow> True | _ \<Rightarrow> False"
  have d: "drops ee t m (fst ?get)"
    using mem_get_drops(1) [where m = m and codec = "ev_bool_codec env" and ee = ee and key = CACHE_KEY
        and field = "utxo_field env symbol u"] entries_typed_place(2) [OF Cons.prems(1)]
    by (simp add: utxo_place_def)
  have step: "(if ?free then (Memory (fst ?get), Some u) else next_unreserved env t symbol us (Memory (fst ?get))) = (cache', r)"
    using Cons.prems(2) by (simp add: utxo_field_def case_prod_unfold cong: if_cong del: if_split)
  show ?case
  proof (cases ?free)
    case True
    have "is_expired t e" if "m (utxo_place (utxo_field env symbol u)) = Some v"
      "vc_from_entry (ev_bool_codec env) v = Some (True, e)" for v e
      using True that by (auto simp: mem_get_def utxo_place_def read_entry_def split: if_splits)
    with True step d show ?thesis by auto
  next
    case False
    with step have "next_unreserved env t symbol us (Memory (fst ?get)) = (cache', r)" by simp
    from Cons.IH [OF entries_typed_drops [OF Cons.prems(1) d] this] obtain m' where m': "cache' = Memory m'"
      "drops ee t (fst ?get) m'" and free: "\<And>u' v e. r = Some u' \<Longrightarrow> fst ?get (utxo_place (utxo_field env symbol u')) = Some v
        \<Longrightarrow> vc_from_entry (ev_bool_codec env) v = Some (True, e) \<Longrightarrow> is_expired t e"
      and mem: "\<And>u'. r = Some u' \<Longrightarrow> u' \<in> set us" by blast
    have "is_expired t e" if "r = Some u'" "m (utxo_place (utxo_field env symbol u')) = Some v"
      "vc_from_entry (ev_bool_codec env) v = Some (True, e)" for u' v e
    proof (rule ccontr)
      assume live: "\<not> is_expired t e"
      have "ee v = Some e"
        using entries_typed_place(2) [OF Cons.prems(1) that(2)] that(3) by (auto simp: typed_entry_def)
      from free [OF that(1) drops_keeps [OF d that(2) this live] that(3)] live show False by simp
    qed
    with m' mem drops_trans [OF d] show ?thesis by auto
  qed
qed

lemma memory_set_cases:
  assumes "codec_ok codec ee" and "cache_set srv codec t key field v (Some d) (Memory m) = (cache', r)"
  obtains (done_) s e where "cache' = Memory (m(get_key key field \<mapsto> s))" "r = Ok ()"
      "vc_from_entry codec s = Some (v, Some e)" "ee s = Some (Some e)" "uint e = t + uint d"
    | (fails) err where "cache' = Memory m" "r = Err err"
proof (cases "expiry_time t (Some d)")
  case (Ok x)
  then obtain e where x: "x = Some e" and e: "uint e = t + uint d" by (rule expiry_time_uint)
  from assms(1) obtain s where s: "vc_to_entry codec v (Some e) = Some s" "vc_from_entry codec s = Some (v, Some e)"
    "ee s = Some (Some e)"
    unfolding codec_ok_def by blast
  with assms(2) Ok x e show thesis by (intro done_) (auto simp: mem_set_def)
next
  case (Err err)
  with assms(2) show thesis by (intro fails) (auto simp: mem_set_def)
next
  case Panic
  then show thesis by (simp add: expiry_time_def split: if_splits)
qed

lemma find_funding_cases:
  assumes "entries_typed env ee m" and "codec_ok (ev_bool_codec env) ee"
    and "find_funding_utxo env t symbol network chain (Memory m) = (cache', r)"
  obtains (found) u m1 v e where "r = Ok u" "drops ee t m m1" "cache' = Memory (m1(utxo_place (utxo_field env symbol u) \<mapsto> v))"
      "vc_from_entry (ev_bool_codec env) v = Some (True, Some e)" "ee v = Some (Some e)" "uint e = t + 15"
      "\<And>v e. m (utxo_place (utxo_field env symbol u)) = Some v
        \<Longrightarrow> vc_from_entry (ev_bool_codec env) v = Some (True, e) \<Longrightarrow> is_expired t e"
    | (none) m1 where "\<And>u. r \<noteq> Ok u" "drops ee t m m1" "cache' = Memory m1"
proof -
  let ?us = "r_bind (r_map_err RsNetwork (liquid_asset_id network)) (\<lambda>asset.
    r_bind (ok_or RsChain (ch_list_unspent chain (ev_wallets env symbol))) (\<lambda>us. Ok (funding_candidates asset us)))"
  show thesis
  proof (cases ?us)
    case (Ok us)
    obtain c1 r1 where nx: "next_unreserved env t symbol us (Memory m) = (c1, r1)" by force
    from next_unreserved_drops [OF assms(1) this] obtain m1 where m1: "c1 = Memory m1" "drops ee t m m1"
      and free: "\<And>u v e. r1 = Some u \<Longrightarrow> m (utxo_place (utxo_field env symbol u)) = Some v
        \<Longrightarrow> vc_from_entry (ev_bool_codec env) v = Some (True, e) \<Longrightarrow> is_expired t e" by blast
    show thesis
    proof (cases r1)
      case None
      with assms(3) Ok nx m1 show thesis by (intro none [of m1]) (auto simp: find_funding_utxo_def)
    next
      case (Some u)
      obtain c2 r2 where set: "cache_set (ev_redis env) (ev_bool_codec env) t CACHE_KEY (utxo_field env symbol u) True
        (Some CACHE_TTL) (Memory m1) = (c2, r2)" by force
      have out: "cache' = c2" "r = r_bind (r_map_err RsCache r2) (\<lambda>_. Ok u)"
        using assms(3) Ok nx m1 Some set by (auto simp: find_funding_utxo_def utxo_field_def)
      show thesis
        using assms(2) set
      proof (cases rule: memory_set_cases)
        case (done_ s e)
        then show thesis
          using out m1 free [OF Some] by (intro found [of u m1 s e]) (simp_all add: utxo_place_def CACHE_TTL_def)
      next
        case (fails err)
        then show thesis using out m1 by (intro none [of m1]) simp_all
      qed
    qed
  qed (use assms(3) in \<open>auto simp: find_funding_utxo_def intro: none [of m] drops_refl\<close>)
qed

lemma create_store_cases:
  assumes "codec_ok (ev_pending_codec env) ee" and "create_store env t i pending (Memory m) = (cache', r)"
  obtains (done_) v e where "cache' = Memory (m(swap_place i \<mapsto> v))"
      "vc_from_entry (ev_pending_codec env) v = Some (pending, Some e)" "ee v = Some (Some e)"
    | (fails) "cache' = Memory m"
proof -
  obtain r0 where "cache_set (ev_redis env) (ev_pending_codec env) t CACHE_KEY (cache_field_swap i) pending
      (Some CACHE_TTL) (Memory m) = (cache', r0)"
    using assms(2) by (cases "cache_set (ev_redis env) (ev_pending_codec env) t CACHE_KEY (cache_field_swap i) pending
      (Some CACHE_TTL) (Memory m)") (simp add: create_store_def)
  with assms(1) show thesis
    by (cases rule: memory_set_cases) (auto simp: swap_place_def intro: that)
qed

lemma take_cases:
  assumes "cache_take srv codec t CACHE_KEY (cache_field_swap i) (Memory m) = (cache', r)"
  shows "cache' = Memory (m(swap_place i := None))"
    and "r = Ok (Some p) \<Longrightarrow> \<exists>v e. m (swap_place i) = Some v \<and> vc_from_entry codec v = Some (p, e)"
  using assms by (auto simp: mem_take_def Let_def swap_place_def read_entry_def split: option.splits if_splits)

lemma release_cases:
  "cache_delete srv CACHE_KEY f (Memory m) = (Memory m', r) \<Longrightarrow> m' = m(utxo_place f := None)"
  by (simp add: mem_delete_def utxo_place_def)

lemma rescue_reach_typed:
  assumes "rescue_reach env ee s" and "codec_ok (ev_pending_codec env) ee" and "codec_ok (ev_bool_codec env) ee"
  shows "entries_typed env ee (st_mem s) \<and> 0 \<le> st_clock s"
  using assms(1)
proof induction
  case (start t)
  then show ?case by (simp add: entries_typed_def mem_cache_new_def)
next
  case (checked s t i m' r)
  then show ?case by (auto intro: entries_typed_drops create_check_drops)
next
  case (funded s t symbol network chain m' r)
  from funded.IH have "entries_typed env ee (st_mem s)" by simp
  from this assms(3) funded.hyps(3) have "entries_typed env ee m'"
  proof (cases rule: find_funding_cases)
    case (found u m1 v e)
    from found(4,5) have "typed_entry (ev_bool_codec env) ee v" unfolding typed_entry_def by blast
    from entries_typed_insert(2) [OF entries_typed_drops [OF _ found(2)] this] found(3) funded.IH show ?thesis by simp
  next
    case (none m1)
    with funded.IH show ?thesis by (auto intro: entries_typed_drops)
  qed
  with funded show ?case by simp
next
  case (stored s t i pending m' r)
  from assms(2) stored.hyps(3) have "entries_typed env ee m'"
  proof (cases rule: create_store_cases)
    case (done_ v e)
    from done_(2,3) have "typed_entry (ev_pending_codec env) ee v" unfolding typed_entry_def by blast
    from entries_typed_insert(1) [OF _ this] done_(1) stored.IH show ?thesis by simp
  qed (use stored.IH in simp)
  with stored show ?case by simp
next
  case (taken s t i m' r)
  have "m' = (st_mem s)(swap_place i := None)" using take_cases(1) [OF taken.hyps(3)] by (simp only: cache.inject)
  with taken.IH have "entries_typed env ee m'" by (simp only: entries_typed_remove)
  with taken show ?case by simp
next
  case (released s symbol u m' r)
  from released.hyps(2) have "m' = (st_mem s)(utxo_place (utxo_field env symbol u) := None)" by (rule release_cases)
  with released.IH have "entries_typed env ee m'" by (simp only: entries_typed_remove)
  with released show ?case by simp
next
  case (cleaned s t)
  then have "drops ee t (st_mem s) (cleanup_expired ee t (st_mem s))"
    by (intro cleanup_drops) (auto dest: entries_typed_expiry)
  with cleaned show ?case by (auto intro: entries_typed_drops)
qed

subsubsection \<open>Nonces\<close>

text \<open>The nonce of the entry of a swap.\<close>

definition pending_nonce :: "('f, 'c, 's, 'r) rescue_env \<Rightarrow> mem_cache \<Rightarrow> string \<Rightarrow> string option" where
  "pending_nonce env m i = Option.bind (m (swap_place i)) (\<lambda>v.
     map_option (pe_sec_nonce \<circ> fst) (vc_from_entry (ev_pending_codec env) v))"

definition nonces_fresh :: "(string \<Rightarrow> string option) \<Rightarrow> string list \<Rightarrow> string list \<Rightarrow> bool" where
  "nonces_fresh pending stored used \<longleftrightarrow> distinct used \<and> set used \<subseteq> set stored
     \<and> (\<forall>i n. pending i = Some n \<longrightarrow> n \<in> set stored \<and> n \<notin> set used)
     \<and> (\<forall>i j n. pending i = Some n \<longrightarrow> pending j = Some n \<longrightarrow> i = j)"

lemma nonces_fresh_sub:
  "nonces_fresh p stored used \<Longrightarrow> (\<And>i n. p' i = Some n \<Longrightarrow> p i = Some n) \<Longrightarrow> nonces_fresh p' stored used"
  unfolding nonces_fresh_def by blast

lemma nonces_fresh_store:
  "nonces_fresh p stored used \<Longrightarrow> n \<notin> set stored
   \<Longrightarrow> nonces_fresh (p(i \<mapsto> n)) (n # stored) used \<and> nonces_fresh p (n # stored) used"
  unfolding nonces_fresh_def by (auto split: if_splits)

lemma nonces_fresh_take:
  "nonces_fresh p stored used \<Longrightarrow> p i = Some n \<Longrightarrow> nonces_fresh (p(i := None)) stored (n # used)"
  unfolding nonces_fresh_def by (auto split: if_splits)

lemma pending_nonce_upd:
  "pending_nonce env (m(swap_place i := x)) = (pending_nonce env m)(i := pending_nonce env [swap_place i \<mapsto> the x] i)" if "x \<noteq> None"
  using that by (auto simp: pending_nonce_def places_differ fun_eq_iff)

lemma pending_nonce_remove: "pending_nonce env (m(swap_place i := None)) = (pending_nonce env m)(i := None)"
  by (auto simp: pending_nonce_def places_differ fun_eq_iff)

lemma pending_nonce_utxo:
  "pending_nonce env (m(utxo_place (utxo_field env symbol u) := x)) = pending_nonce env m"
  using places_differ(1) [of _ env symbol u] by (auto simp: pending_nonce_def fun_eq_iff)

lemma pending_nonce_drops: "drops ee t m m' \<Longrightarrow> pending_nonce env m' i = Some n \<Longrightarrow> pending_nonce env m i = Some n"
  by (auto simp: pending_nonce_def bind_eq_Some_conv dest: drops_le)

lemma rescue_reach_nonces:
  assumes "rescue_reach env ee s" and "codec_ok (ev_pending_codec env) ee" and "codec_ok (ev_bool_codec env) ee"
    and "distinct (st_stored s)"
  shows "nonces_fresh (pending_nonce env (st_mem s)) (st_stored s) (st_signed s)"
  using assms(1,4)
proof induction
  case (start t)
  then show ?case by (simp add: nonces_fresh_def pending_nonce_def mem_cache_new_def)
next
  case (checked s t i m' r)
  then have "drops ee t (st_mem s) m'"
    using rescue_reach_typed [OF checked.hyps(1) assms(2,3)] create_check_drops by blast
  with checked show ?case by (auto intro: nonces_fresh_sub pending_nonce_drops)
next
  case (funded s t symbol network chain m' r)
  from rescue_reach_typed [OF funded.hyps(1) assms(2,3)] have "entries_typed env ee (st_mem s)" by simp
  from this assms(3) funded.hyps(3) have "pending_nonce env m' i = Some n \<Longrightarrow> pending_nonce env (st_mem s) i = Some n" for i n
    by (cases rule: find_funding_cases) (auto simp: pending_nonce_utxo dest: pending_nonce_drops)
  with funded show ?case by (auto intro: nonces_fresh_sub)
next
  case (stored s t i pending m' r)
  let ?p = "pending_nonce env (st_mem s)"
  from stored have "nonces_fresh ?p (st_stored s) (st_signed s)" "pe_sec_nonce pending \<notin> set (st_stored s)" by simp_all
  note fresh = nonces_fresh_store [OF this, of i]
  from assms(2) stored.hyps(3) have "pending_nonce env m' = ?p(i \<mapsto> pe_sec_nonce pending) \<or> pending_nonce env m' = ?p"
  proof (cases rule: create_store_cases)
    case (done_ v e)
    have "pending_nonce env [swap_place i \<mapsto> v] i = Some (pe_sec_nonce pending)"
      using done_(2) by (simp add: pending_nonce_def)
    moreover have "m' = (st_mem s)(swap_place i \<mapsto> v)" using done_(1) by (simp only: cache.inject)
    ultimately show ?thesis using pending_nonce_upd [of "Some v" env "st_mem s" i] by simp
  qed simp
  then have "nonces_fresh (pending_nonce env m') (pe_sec_nonce pending # st_stored s) (st_signed s)"
    using fresh by (elim disjE) (simp_all only: simp_thms)
  then show ?case by simp
next
  case (taken s t i m' r)
  let ?p = "pending_nonce env (st_mem s)"
  have m': "pending_nonce env m' = ?p(i := None)" using take_cases(1) [OF taken.hyps(3)] by (simp add: pending_nonce_remove)
  have IH: "nonces_fresh ?p (st_stored s) (st_signed s)" using taken by simp
  show ?case
  proof (cases "\<exists>p. r = Ok (Some p)")
    case True
    then obtain p where r: "r = Ok (Some p)" by blast
    from take_cases(2) [OF taken.hyps(3) r] have "?p i = Some (pe_sec_nonce p)" by (auto simp: pending_nonce_def)
    from nonces_fresh_take [OF IH this] have "nonces_fresh (pending_nonce env m') (st_stored s) (pe_sec_nonce p # st_signed s)"
      by (simp only: m')
    with r show ?thesis by simp
  next
    case False
    then have "(case r of Ok (Some pending) \<Rightarrow> pe_sec_nonce pending # st_signed s | _ \<Rightarrow> st_signed s) = st_signed s"
      by (auto split: result.split option.split)
    moreover have "nonces_fresh (pending_nonce env m') (st_stored s) (st_signed s)"
      using IH unfolding m' by (rule nonces_fresh_sub) (simp split: if_splits)
    ultimately show ?thesis by simp
  qed
next
  case (released s symbol u m' r)
  from released.hyps(2) have "m' = (st_mem s)(utxo_place (utxo_field env symbol u) := None)" by (rule release_cases)
  then have "pending_nonce env m' = pending_nonce env (st_mem s)" by (simp only: pending_nonce_utxo)
  with released show ?case by simp
next
  case (cleaned s t)
  from rescue_reach_typed [OF cleaned.hyps(1) assms(2,3)] cleaned.hyps(2)
  have "drops ee t (st_mem s) (cleanup_expired ee t (st_mem s))"
    by (intro cleanup_drops) (auto dest: entries_typed_expiry)
  with cleaned show ?case by (auto intro: nonces_fresh_sub pending_nonce_drops)
qed

subsubsection \<open>Reservations\<close>

definition held_until :: "('f, 'c, 's, 'r) rescue_env \<Rightarrow> (string \<Rightarrow> u64 option option) \<Rightarrow> mem_cache \<Rightarrow> string \<Rightarrow> int \<Rightarrow> bool" where
  "held_until env ee m f t \<longleftrightarrow> (\<exists>v e. m (utxo_place f) = Some v \<and> vc_from_entry (ev_bool_codec env) v = Some (True, Some e)
     \<and> ee v = Some (Some e) \<and> t \<le> uint e)"

definition reservations_held :: "('f, 'c, 's, 'r) rescue_env \<Rightarrow> (string \<Rightarrow> u64 option option) \<Rightarrow> rescue_state \<Rightarrow> bool" where
  "reservations_held env ee s \<longleftrightarrow> (\<forall>f t. (f, t) \<in> set (st_reserved s) \<longrightarrow>
     (\<exists>symbol u. f = utxo_field env symbol u) \<and> t \<le> st_clock s
     \<and> (st_clock s < t + 15 \<longrightarrow> held_until env ee (st_mem s) f (t + 15)))"

lemma held_drops:
  "held_until env ee m f t \<Longrightarrow> drops ee now m m' \<Longrightarrow> 0 \<le> now \<Longrightarrow> now < t \<Longrightarrow> held_until env ee m' f t"
  unfolding held_until_def by (auto simp: is_expired_def dest!: drops_keeps)

lemma reservations_held_drops:
  assumes "reservations_held env ee s" and "drops ee t (st_mem s) m'" and "0 \<le> t" and "st_clock s \<le> t"
  shows "reservations_held env ee (s\<lparr>st_clock := t, st_mem := m'\<rparr>)"
  using assms unfolding reservations_held_def by (force intro: held_drops)

lemma held_other: "utxo_place f \<noteq> k \<Longrightarrow> held_until env ee (m(k := x)) f t = held_until env ee m f t"
  by (simp add: held_until_def)

lemma reservations_held_swap:
  assumes "reservations_held env ee s" and "m' = (st_mem s)(swap_place i := x)" and "st_clock s \<le> t"
  shows "reservations_held env ee (s\<lparr>st_clock := t, st_mem := m'\<rparr>)"
  unfolding reservations_held_def
proof (intro allI impI)
  fix f t0
  assume "(f, t0) \<in> set (st_reserved (s\<lparr>st_clock := t, st_mem := m'\<rparr>))"
  then have "(f, t0) \<in> set (st_reserved s)" by simp
  then obtain symbol u where "f = utxo_field env symbol u" and "t0 \<le> st_clock s"
    and held: "st_clock s < t0 + 15 \<longrightarrow> held_until env ee (st_mem s) f (t0 + 15)"
    using assms(1) unfolding reservations_held_def by blast
  moreover from this have "held_until env ee m' f (t0 + 15) = held_until env ee (st_mem s) f (t0 + 15)"
    unfolding assms(2) using places_differ(1) [of i env symbol u] by (intro held_other) auto
  ultimately show "(\<exists>symbol u. f = utxo_field env symbol u) \<and> t0 \<le> st_clock (s\<lparr>st_clock := t, st_mem := m'\<rparr>)
     \<and> (st_clock (s\<lparr>st_clock := t, st_mem := m'\<rparr>) < t0 + 15
        \<longrightarrow> held_until env ee (st_mem (s\<lparr>st_clock := t, st_mem := m'\<rparr>)) f (t0 + 15))"
    using assms(3) by auto
qed

lemma rescue_reach_reserved:
  assumes "rescue_reach env ee s" and "codec_ok (ev_pending_codec env) ee" and "codec_ok (ev_bool_codec env) ee"
  shows "reservations_held env ee s"
  using assms(1)
proof induction
  case (start t)
  then show ?case by (simp add: reservations_held_def)
next
  case (checked s t i m' r)
  then show ?case
    using rescue_reach_typed [OF checked.hyps(1) assms(2,3)] create_check_drops [of env ee "st_mem s" t i m' r]
    by (intro reservations_held_drops) auto
next
  case (funded s t symbol network chain m' r)
  from rescue_reach_typed [OF funded.hyps(1) assms(2,3)] have typed: "entries_typed env ee (st_mem s)" and pos: "0 \<le> t"
    using funded.hyps(2) by simp_all
  from typed assms(3) funded.hyps(3) show ?case
  proof (cases rule: find_funding_cases)
    case (found u m1 v e)
    let ?f = "utxo_field env symbol u"
    have m': "m' = m1(utxo_place ?f \<mapsto> v)" using found(3) by (simp only: cache.inject)
    have new: "held_until env ee m' ?f (t + 15)" using found(4-6) by (simp add: held_until_def m')
    have old: "reservations_held env ee (s\<lparr>st_clock := t, st_mem := m1\<rparr>)"
      using funded.IH found(2) pos funded.hyps(2) by (rule reservations_held_drops)
    have "held_until env ee m' f (t0 + 15)" if "(f, t0) \<in> set (st_reserved s)" "t < t0 + 15" for f t0
    proof (cases "f = ?f")
      case True
      have "t0 \<le> t" using funded.IH that(1) funded.hyps(2) by (force simp: reservations_held_def)
      with new True show ?thesis by (auto simp: held_until_def)
    next
      case False
      with old that show ?thesis by (simp add: m' held_other places_differ reservations_held_def)
    qed
    with new old found(1) show ?thesis by (auto simp: reservations_held_def)
  next
    case (none m1)
    have "(case r of Ok u \<Rightarrow> (utxo_field env symbol u, t) # st_reserved s | _ \<Rightarrow> st_reserved s) = st_reserved s"
      using none(1) by (cases r) auto
    with reservations_held_drops [OF funded.IH none(2) pos funded.hyps(2)] none(3) show ?thesis
      by (simp add: reservations_held_def)
  qed
next
  case (stored s t i pending m' r)
  from assms(2) stored.hyps(3) have "\<exists>x. m' = (st_mem s)(swap_place i := x)"
  proof (cases rule: create_store_cases)
    case fails
    then have "m' = (st_mem s)(swap_place i := st_mem s (swap_place i))" by simp
    then show ?thesis ..
  qed blast
  then obtain x where "m' = (st_mem s)(swap_place i := x)" ..
  from reservations_held_swap [OF stored.IH this stored.hyps(2)] show ?case by (simp add: reservations_held_def)
next
  case (taken s t i m' r)
  have "m' = (st_mem s)(swap_place i := None)" using take_cases(1) [OF taken.hyps(3)] by (simp only: cache.inject)
  from reservations_held_swap [OF taken.IH this taken.hyps(2)] show ?case by (simp add: reservations_held_def)
next
  case (released s symbol u m' r)
  from released.hyps(2) have m': "m' = (st_mem s)(utxo_place (utxo_field env symbol u) := None)" by (rule release_cases)
  have "held_until env ee m' f t = held_until env ee (st_mem s) f t" if "f \<noteq> utxo_field env symbol u" for f t
    using that unfolding m' by (intro held_other) (simp add: places_differ)
  with released.IH show ?case by (auto simp: reservations_held_def)
next
  case (cleaned s t)
  from rescue_reach_typed [OF cleaned.hyps(1) assms(2,3)] cleaned.hyps(2)
  have "drops ee t (st_mem s) (cleanup_expired ee t (st_mem s))" "0 \<le> t"
    by (auto intro!: cleanup_drops dest: entries_typed_expiry)
  with cleaned show ?case by (intro reservations_held_drops)
qed

text \<open>
  C39: however requests interleave, a nonce that was stored for a rescue is taken to sign at most once,
  so long as the nonces that were drawn differ; and an output that was reserved for a rescue is not
  chosen for another one within fifteen seconds, unless the first was broadcast.
\<close>

theorem rescue_nonces_and_reservations:
  assumes "rescue_reach env ee s" and "codec_ok (ev_pending_codec env) ee" and "codec_ok (ev_bool_codec env) ee"
  shows "(distinct (st_stored s) \<longrightarrow> distinct (st_signed s) \<and> set (st_signed s) \<subseteq> set (st_stored s))
    \<and> (\<forall>t symbol network chain cache' u t0.
        st_clock s \<le> t \<and> find_funding_utxo env t symbol network chain (Memory (st_mem s)) = (cache', Ok u)
        \<and> (utxo_field env symbol u, t0) \<in> set (st_reserved s) \<longrightarrow> t0 + 15 \<le> t)"
proof (intro conjI impI allI, goal_cases)
  case 1
  then show ?case using rescue_reach_nonces [OF assms] by (simp add: nonces_fresh_def)
next
  case 2
  then show ?case using rescue_reach_nonces [OF assms] by (simp add: nonces_fresh_def)
next
  case (3 t symbol network chain cache' u t0)
  from 3 have later: "st_clock s \<le> t" and found: "find_funding_utxo env t symbol network chain (Memory (st_mem s)) = (cache', Ok u)"
    and resv: "(utxo_field env symbol u, t0) \<in> set (st_reserved s)" by auto
  from rescue_reach_typed [OF assms] have typed: "entries_typed env ee (st_mem s)" and "0 \<le> st_clock s" by simp_all
  show "t0 + 15 \<le> t"
  proof (rule ccontr)
    assume "\<not> t0 + 15 \<le> t"
    with rescue_reach_reserved [OF assms] resv later have "held_until env ee (st_mem s) (utxo_field env symbol u) (t0 + 15)"
      by (force simp: reservations_held_def)
    then obtain v e where v: "st_mem s (utxo_place (utxo_field env symbol u)) = Some v"
      "vc_from_entry (ev_bool_codec env) v = Some (True, Some e)" "t0 + 15 \<le> uint e"
      unfolding held_until_def by blast
    from typed assms(3) found have "is_expired t (Some e)"
      by (cases rule: find_funding_cases) (use v in auto)
    with v(3) \<open>\<not> t0 + 15 \<le> t\<close> later \<open>0 \<le> st_clock s\<close> show False by (simp add: is_expired_def)
  qed
qed

subsection \<open>What is broadcast\<close>

text \<open>The key of the swap output: the aggregated key of both parties, tweaked by the tree.\<close>

definition output_key :: "('f, 'c, 's, 'r) rescue_env \<Rightarrow> bytes \<Rightarrow> bytes \<Rightarrow> el_tree \<Rightarrow> bytes option" where
  "output_key env our_key their_key tree =
     (let mu = ev_musig env; agg = mu_key_agg mu [our_key, their_key] in
      Option.bind (en_tap_tweak (ev_enc env) tree (mu_agg_pk mu agg)) (\<lambda>tweak.
        map_option (mu_agg_pk mu) (mu_xonly_tweak_add mu agg tweak)))"

lemma sign_rescue_Ok:
  assumes "sign_rescue env our_keys their_key tree message pending their_nonce psig = Ok sig"
  obtains key where "output_key env (mu_public_key (ev_musig env) our_keys) their_key tree = Some key"
    "en_verify (ev_enc env) sig key message"
  using assms
  by (auto simp: sign_rescue_def Let_def musig_setup_def xonly_tweak_add_def agg_pk_def set_message_def output_key_def
      split: if_splits)

text \<open>A raw transaction that the wallet completed from the pending one with a valid signature.\<close>

definition properly_signed ::
  "('f, 'c, 's, 'r) rescue_env \<Rightarrow> string \<Rightarrow> asset_rescue_details \<Rightarrow> pending_rescue \<Rightarrow> string \<Rightarrow> bool" where
  "properly_signed env symbol details pending raw \<longleftrightarrow>
     (\<exists>currency chain wallet our_keys their_key key message sig tx tx'.
        get_node (ev_currencies env) symbol = Ok (currency, chain, wallet)
      \<and> our_keypair (ev_enc env) wallet (ad_key_index details) = Ok our_keys
      \<and> en_public_key (ev_enc env) (ad_their_public_key details) = Some their_key
      \<and> en_hex_decode (ev_enc env) (pe_sighash pending) = Some message
      \<and> output_key env (mu_public_key (ev_musig env) our_keys) their_key (ad_swap_tree details) = Some key
      \<and> en_verify (ev_enc env) sig key message
      \<and> Option.bind (en_hex_decode (ev_enc env) (pe_transaction pending)) (en_tx_deserialize (ev_enc env)) = Some tx
      \<and> push_witness sig tx = Ok tx'
      \<and> ch_sign_raw_transaction chain (ev_wallets env symbol)
          (en_hex_encode (ev_enc env) (en_tx_serialize (ev_enc env) tx')) = Some (raw, True))"

lemma broadcast_inner_sent:
  assumes "broadcast_inner env symbol details pending their_nonce psig = (sent, r)" and "sent \<noteq> []"
  shows "\<exists>raw. sent = [raw] \<and> properly_signed env symbol details pending raw"
proof -
  let ?en = "ev_enc env"
  from assms obtain their_key c chain wallet message our_keys sig bs tx tx' raw where
    n: "get_node (ev_currencies env) symbol = Ok (c, chain, wallet)" "our_keypair ?en wallet (ad_key_index details) = Ok our_keys" and
    f: "en_public_key ?en (ad_their_public_key details) = Some their_key"
    "en_hex_decode ?en (pe_sighash pending) = Some message"
    "sign_rescue env our_keys their_key (ad_swap_tree details) message pending their_nonce psig = Ok sig"
    "en_hex_decode ?en (pe_transaction pending) = Some bs" "en_tx_deserialize ?en bs = Some tx"
    "push_witness sig tx = Ok tx'"
    "ch_sign_raw_transaction chain (ev_wallets env symbol) (en_hex_encode ?en (en_tx_serialize ?en tx')) = Some (raw, True)"
    and sent: "sent = [raw]"
    by (auto simp: broadcast_inner_def Let_def split: result.splits if_splits)
  from sign_rescue_Ok [OF f(3)] obtain key where
    key: "output_key env (mu_public_key (ev_musig env) our_keys) their_key (ad_swap_tree details) = Some key"
    "en_verify ?en sig key message" .
  have "Option.bind (en_hex_decode ?en (pe_transaction pending)) (en_tx_deserialize ?en) = Some tx" using f(4,5) by simp
  with n f(1,2,6,7) key have "properly_signed env symbol details pending raw" unfolding properly_signed_def by blast
  with sent show ?thesis by simp
qed

text \<open>
  C40: a rescue is only sent to the network with a signature over its pending hash that is valid for
  the key of the swap output, which both parties share; the pending rescue is gone from the cache then
  and also when signing fails.
\<close>

theorem rescue_broadcast_signed:
  assumes "broadcast env now others swap_id their_nonce psig (Memory m) = (cache', sent, r)"
  shows "(sent \<noteq> [] \<longrightarrow> (\<exists>pending status symbol details raw.
      read_entry (ev_pending_codec env) now (get_key CACHE_KEY (cache_field_swap swap_id)) m = Hit pending
      \<and> get_rescue_swap (ev_enc env) (ev_swaps env) (ev_chain_swaps env) swap_id = Ok (status, symbol, details)
      \<and> sent = [raw] \<and> properly_signed env symbol details pending raw))
    \<and> (others = id \<longrightarrow> (\<exists>m'. cache' = Memory m' \<and> m' (get_key CACHE_KEY (cache_field_swap swap_id)) = None))"
proof (intro conjI impI)
  assume "sent \<noteq> []"
  with assms obtain pending status symbol details r' where
    "read_entry (ev_pending_codec env) now (get_key CACHE_KEY (cache_field_swap swap_id)) m = Hit pending"
    "get_rescue_swap (ev_enc env) (ev_swaps env) (ev_chain_swaps env) swap_id = Ok (status, symbol, details)"
    and inner: "broadcast_inner env symbol details pending their_nonce psig = (sent, r')"
    by (auto simp: broadcast_def mem_take_def Let_def split: result.splits option.splits entry_read.splits prod.splits)
  with broadcast_inner_sent [OF inner \<open>sent \<noteq> []\<close>] show "\<exists>pending status symbol details raw.
      read_entry (ev_pending_codec env) now (get_key CACHE_KEY (cache_field_swap swap_id)) m = Hit pending
      \<and> get_rescue_swap (ev_enc env) (ev_swaps env) (ev_chain_swaps env) swap_id = Ok (status, symbol, details)
      \<and> sent = [raw] \<and> properly_signed env symbol details pending raw" by blast
next
  assume "others = id"
  with assms show "\<exists>m'. cache' = Memory m' \<and> m' (get_key CACHE_KEY (cache_field_swap swap_id)) = None"
    by (auto simp: broadcast_def mem_take_def mem_delete_def Let_def
        split: result.splits option.splits entry_read.splits prod.splits)
qed

subsection \<open>Witnesses\<close>

definition pending_text :: "pending_rescue \<Rightarrow> string" where
  "pending_text p = mark_text (pe_sec_nonce p) @ mark_text (pe_pub_nonce p) @ mark_text (pe_sighash p)
     @ mark_text (pe_funding_txid p) @ mark_text (bits_text (pe_funding_vout p)) @ mark_text (pe_transaction p)"

definition text_pending :: "string \<Rightarrow> pending_rescue option" where
  "text_pending s =
     Option.bind (unmark_text s) (\<lambda>(secret, s). Option.bind (unmark_text s) (\<lambda>(nonce, s).
     Option.bind (unmark_text s) (\<lambda>(sighash, s). Option.bind (unmark_text s) (\<lambda>(tx_id, s).
     Option.bind (unmark_text s) (\<lambda>(index, s). map_option (\<lambda>(tx, _).
       \<lparr>pe_sec_nonce = secret, pe_pub_nonce = nonce, pe_sighash = sighash, pe_funding_txid = tx_id,
        pe_funding_vout = text_bits index, pe_transaction = tx\<rparr>) (unmark_text s))))))"

definition pending_codec :: "pending_rescue value_codec" where
  "pending_codec = text_codec pending_text text_pending"

lemma pending_codec_ok: "codec_ok pending_codec text_expiry"
proof -
  have "text_pending (pending_text p) = Some p" for p
    using unmark_mark [of "pe_transaction p" "[]"]
    by (simp add: pending_text_def text_pending_def unmark_mark text_bits_text)
  then show ?thesis unfolding pending_codec_def by (rule text_codec_ok)
qed

definition example_details_swap :: swap where
  "example_details_swap = example_swap\<lparr>sw_status := ''swap.expired'', sw_key_index := Some 0,
     sw_refund_public_key := Some (replicate 32 CHR ''u''), sw_redeem_script := Some ''tree''\<rparr>"

definition example_rescue_tx :: el_transaction where
  "example_rescue_tx = \<lparr>el_version = 2, el_lock_time = 0,
     el_inputs = [\<lparr>previous_output = \<lparr>txid = [1], vout = 0\<rparr>, script_sig = [], sequence = 0, witness = []\<rparr>],
     el_outputs = []\<rparr>"

definition example_el_tree :: el_tree where
  "example_el_tree = \<lparr>el_claim_leaf = el_mk_refund_leaf example_lib [1] 5, el_refund_leaf = el_mk_refund_leaf example_lib [1] 5,
     covenant_claim_leaf = None\<rparr>"

definition example_encodings :: encodings where
  "example_encodings = \<lparr>en_hex_decode = Some \<circ> map of_char, en_hex_encode = map (char_of \<circ> unat),
     en_print_u32 = (\<lambda>n. bits_text n), en_tx_deserialize = (\<lambda>_. Some example_rescue_tx),
     en_tx_serialize = (\<lambda>tx. concat (map (concat \<circ> witness) (el_inputs tx))), en_txid = (\<lambda>_. [1]), en_address = (\<lambda>_. None),
     en_keypair = Some, en_key_spend_sighash = (\<lambda>_ _ _ _. None), en_tree = (\<lambda>_. Some example_el_tree),
     en_tap_tweak = (\<lambda>_ _. Some [5]), en_public_key = Some, en_partial_signature = Some,
     en_verify = (\<lambda>sig key m. m = replicate 32 109)\<rparr>"

definition example_chain :: chain_client where
  "example_chain = \<lparr>ch_raw_transaction = (\<lambda>_. None),
     ch_list_unspent = (\<lambda>_. Some [\<lparr>un_txid = ''tx'', un_vout = 0, un_address = ''a'', un_amount = Finite 1,
       un_asset = Some ''5ac9f65c0efcc4775e0baec4ec03abdde22473cd3cf33c0419ca290e0751b225''\<rparr>]),
     ch_new_address = (\<lambda>_ _. None), ch_dump_blinding_key = (\<lambda>_ _. None), ch_estimate_fee = None,
     ch_sign_raw_transaction = (\<lambda>_ raw. Some (raw, True)), ch_send_raw_transaction = (\<lambda>_. Some ''id'')\<rparr>"

definition example_rescue_env :: "(int, unit, unit, unit) rescue_env" where
  "example_rescue_env = \<lparr>ev_elements = example_el, ev_outputs = example_rescue_lib, ev_rng = example_el_rng,
     ev_musig = example_musig, ev_secrand = [9], ev_enc = example_encodings,
     ev_redis = \<lparr>HGET = (\<lambda>_ _ r. (r, Err CacheRedis)), HMGET = (\<lambda>_ _ r. (r, Err CacheRedis)),
       HSET_HEXPIRE = (\<lambda>_ _ _ _ r. (r, Err CacheRedis)), HGETDEL = (\<lambda>_ _ r. (r, Err CacheRedis)),
       HDEL = (\<lambda>_ _ r. (r, Err CacheRedis))\<rparr>,
     ev_pending_codec = pending_codec, ev_bool_codec = bool_codec, ev_wallets = Map.empty,
     ev_currencies = (\<lambda>_. Some \<lparr>cur_network = Regtest, cur_chain = Some example_chain,
       cur_wallet = Some \<lparr>wl_decode_address = (\<lambda>_. None), wl_derive_blinding_key = (\<lambda>_. None),
         wl_derive_keys = (\<lambda>_. Some [1])\<rparr>\<rparr>),
     ev_swaps = [example_details_swap], ev_chain_swaps = []\<rparr>"

definition example_pending :: pending_rescue where
  "example_pending = \<lparr>pe_sec_nonce = replicate 132 CHR ''s'', pe_pub_nonce = replicate 66 CHR ''p'',
     pe_sighash = replicate 32 CHR ''m'', pe_funding_txid = ''tx'', pe_funding_vout = 0, pe_transaction = ''raw''\<rparr>"

lemma replicate_not_single: "replicate 32 x \<noteq> [y]"
  by (auto dest: arg_cong [of _ _ length])

lemma example_sign:
  "sign_rescue example_rescue_env [1] (replicate 32 117) example_el_tree (replicate 32 109) example_pending
     (replicate 66 110) (replicate 32 117) = Ok ([1] @ replicate 32 117)"
  by (simp add: replicate_not_single replicate_not_single [symmetric] sign_rescue_def example_rescue_env_def example_encodings_def example_musig_def example_pending_def Let_def
      musig_setup_def xonly_tweak_add_def agg_pk_def set_message_def dangerous_set_nonce_def convert_pub_nonce_def
      aggregate_nonces_def num_participants_def ordered_nonce_def aggregate_nonces_ordered_def our_index_expect_def
      our_index_def key_index_def initialize_session_def partial_add_def partial_verify_def set_partial_sig_def
      partial_sign_def partial_aggregate_def)

definition example_cache :: mem_cache where
  "example_cache = [get_key CACHE_KEY (cache_field_swap ''s'') \<mapsto> the (vc_to_entry pending_codec example_pending (Some 30))]"

lemma example_cache_hit:
  "read_entry pending_codec 20 (get_key CACHE_KEY (cache_field_swap ''s'')) example_cache = Hit example_pending"
proof -
  obtain v where "vc_to_entry pending_codec example_pending (Some 30) = Some v"
    "vc_from_entry pending_codec v = Some (example_pending, Some 30)"
    using pending_codec_ok unfolding codec_ok_def by blast
  then show ?thesis by (simp add: example_cache_def read_entry_def is_expired_def)
qed

lemma example_rescue_swap:
  "get_rescue_swap example_encodings [example_details_swap] [] ''s''
     = Ok ((''s'', swap_update_parse ''swap.expired''), ''BTC'',
         \<lparr>ad_lockup_address = [], ad_key_index = 0, ad_their_public_key = replicate 32 117, ad_swap_tree = example_el_tree\<rparr>)"
  by (simp add: get_rescue_swap_def example_details_swap_def example_swap_def swap_version_try_from_def
      sw_chain_symbol_def pair_side_def example_pair details_of_def example_encodings_def)

theorem rescue_broadcast_signed_witness:
  "\<exists>raw symbol details. fst (snd (broadcast example_rescue_env 20 id ''s'' (replicate 66 110) (replicate 32 117)
      (Memory example_cache))) = [raw] \<and> properly_signed example_rescue_env symbol details example_pending raw"
proof -
  obtain cache' sent r where b: "broadcast example_rescue_env 20 id ''s'' (replicate 66 110) (replicate 32 117)
      (Memory example_cache) = (cache', sent, r)" by (rule prod_cases3)
  have "sent \<noteq> []"
    using b example_cache_hit example_rescue_swap example_sign [unfolded example_rescue_env_def]
    by (auto simp: broadcast_def mem_take_def broadcast_inner_def our_keypair_def get_node_def example_rescue_env_def
        example_pending_def example_encodings_def push_witness_def example_rescue_tx_def example_chain_def Let_def)
  with rescue_broadcast_signed [OF b] obtain pending status symbol details raw where
    "read_entry pending_codec 20 (get_key CACHE_KEY (cache_field_swap ''s'')) example_cache = Hit pending"
    "sent = [raw]" "properly_signed example_rescue_env symbol details pending raw"
    by (auto simp: example_rescue_env_def)
  with b example_cache_hit show ?thesis by auto
qed

theorem rescue_nonces_and_reservations_witness:
  "\<exists>s. rescue_reach example_rescue_env text_expiry s \<and> st_signed s = [pe_sec_nonce example_pending]
     \<and> distinct (st_signed s) \<and> set (st_signed s) \<subseteq> set (st_stored s)"
proof -
  let ?env = example_rescue_env
  have codecs: "codec_ok (ev_pending_codec ?env) text_expiry" "codec_ok (ev_bool_codec ?env) text_expiry"
    by (simp_all add: example_rescue_env_def pending_codec_ok bool_codec_ok)
  obtain v where v: "vc_to_entry pending_codec example_pending (Some 35) = Some v"
    "vc_from_entry pending_codec v = Some (example_pending, Some 35)"
    using pending_codec_ok unfolding codec_ok_def by blast
  have stored: "create_store ?env 20 ''s'' example_pending (Memory mem_cache_new) = (Memory [swap_place ''s'' \<mapsto> v], Ok ())"
    using v(1) by (simp add: create_store_def mem_set_def expiry_time_def CACHE_TTL_def mem_cache_new_def swap_place_def
        example_rescue_env_def)
  have taken: "cache_take (ev_redis ?env) (ev_pending_codec ?env) 21 CACHE_KEY (cache_field_swap ''s'') (Memory [swap_place ''s'' \<mapsto> v])
      = (Memory (\<lambda>_. None), Ok (Some example_pending))"
    using v(2) by (auto simp: mem_take_def read_entry_def is_expired_def swap_place_def example_rescue_env_def)
  have "rescue_reach ?env text_expiry \<lparr>st_clock = 20, st_mem = mem_cache_new, st_stored = [], st_signed = [], st_reserved = []\<rparr>"
    by (rule rescue_reach.start) simp
  from rescue_reach.stored [OF this, of 20, simplified, OF stored] have
    "rescue_reach ?env text_expiry \<lparr>st_clock = 20, st_mem = [swap_place ''s'' \<mapsto> v],
       st_stored = [pe_sec_nonce example_pending], st_signed = [], st_reserved = []\<rparr>" by simp
  from rescue_reach.taken [OF this, of 21 "''s''", unfolded rescue_state.simps, OF _ taken] have reached:
    "rescue_reach ?env text_expiry \<lparr>st_clock = 21, st_mem = (\<lambda>_. None),
       st_stored = [pe_sec_nonce example_pending], st_signed = [pe_sec_nonce example_pending], st_reserved = []\<rparr>" by simp
  with rescue_nonces_and_reservations [OF reached codecs] show ?thesis by auto
qed

end
