(* ===== verification/Mempool_Client.thy ===== *)
theory Mempool_Client
  imports F64_Order Swap_Types
begin

text \<open>
  The clients of the fee servers, \<open>src/boltzr/src/chain/mempool_client.rs\<close>: what one WebSocket
  connection leaves in the caches of a client, when waiting tasks are woken, and how the answers of
  several clients become one estimate. Instants are nanoseconds of the monotonic clock. Reading the
  JSON messages is a record of functions. A client is read as one value; the locks around its two
  caches are never poisoned, as nothing panics while it holds one.
\<close>

subsection \<open>One client\<close>

record cached_fees =
  fastest :: f64
  fees_at :: nat

datatype fee_staleness = Stale nat nat | Missing nat nat

record mp_client =
  mp_url :: string
  mp_symbol :: string
  max_age :: "nat option"
  last_block :: "u64 option"
  last_fees :: "cached_fees option"

datatype latest_error = NoFeesFound | FeesStale fee_staleness | NoBlockHeight

record mempool_lib =
  parse_fees :: "bytes \<Rightarrow> f64 option"
  parse_blocks :: "bytes \<Rightarrow> u64 list option"
  parse_block :: "bytes \<Rightarrow> u64 option"

definition mp_client_new :: "string \<Rightarrow> string \<Rightarrow> nat option \<Rightarrow> mp_client" where
  "mp_client_new symbol url age =
     \<lparr> mp_url = url, mp_symbol = symbol, max_age = age, last_block = None, last_fees = None \<rparr>"

definition staleness :: "nat \<Rightarrow> mp_client \<Rightarrow> nat \<Rightarrow> (nat \<times> nat) option" where
  "staleness now c since =
     (case max_age c of None \<Rightarrow> None
      | Some age_limit \<Rightarrow> let age = now - since in if age_limit < age then Some (age, age_limit) else None)"

definition get_latest :: "nat \<Rightarrow> mp_client \<Rightarrow> (latest_error, u64 \<times> f64) result" where
  "get_latest now c =
     (case last_fees c of None \<Rightarrow> Err NoFeesFound
      | Some cached \<Rightarrow>
          (case staleness now c (fees_at cached) of
             Some (age, limit) \<Rightarrow> Err (FeesStale (Stale age limit))
           | None \<Rightarrow>
               (case last_block c of Some b \<Rightarrow> Ok (b, fastest cached) | None \<Rightarrow> Err NoBlockHeight)))"

definition stale_fees :: "nat \<Rightarrow> mp_client \<Rightarrow> (nat \<times> nat) option" where
  "stale_fees now c = Option.bind (last_fees c) (\<lambda>cached. staleness now c (fees_at cached))"

definition stale_or_missing_fees_since :: "nat \<Rightarrow> mp_client \<Rightarrow> nat \<Rightarrow> fee_staleness option" where
  "stale_or_missing_fees_since now c started =
     (case last_fees c of
        Some cached \<Rightarrow> map_option (\<lambda>(age, limit). Stale age limit) (staleness now c (fees_at cached))
      | None \<Rightarrow> map_option (\<lambda>(since, limit). Missing since limit) (staleness now c started))"

definition has_stale_fees :: "nat \<Rightarrow> mp_client \<Rightarrow> bool" where
  "has_stale_fees now c = (stale_fees now c \<noteq> None)"

subsection \<open>Messages\<close>

text \<open>Both handlers also say whether the waiting tasks are woken.\<close>

definition notify_waiters_if_ready :: "mp_client \<Rightarrow> bool" where
  "notify_waiters_if_ready c = (last_fees c \<noteq> None \<and> last_block c \<noteq> None)"

definition handle_fees :: "mempool_lib \<Rightarrow> nat \<Rightarrow> bytes \<Rightarrow> mp_client \<Rightarrow> mp_client \<times> bool" where
  "handle_fees lib now msg c =
     (case parse_fees lib msg of
        Some fee \<Rightarrow>
          let c' = c\<lparr> last_fees := Some \<lparr> fastest = fee, fees_at = now \<rparr> \<rparr>
          in (c', notify_waiters_if_ready c')
      | None \<Rightarrow> (c, False))"

definition best_parsed :: "mempool_lib \<Rightarrow> bytes \<Rightarrow> u64 option" where
  "best_parsed lib msg =
     (case parse_blocks lib msg of
        Some (b # bs) \<Rightarrow> Some (last (b # bs))
      | _ \<Rightarrow> parse_block lib msg)"

definition handle_blocks :: "mempool_lib \<Rightarrow> bytes \<Rightarrow> mp_client \<Rightarrow> mp_client \<times> bool" where
  "handle_blocks lib msg c =
     (case best_parsed lib msg of
        Some height \<Rightarrow>
          if (case last_block c of Some current \<Rightarrow> height \<le> current | None \<Rightarrow> False) then (c, False)
          else let c' = c\<lparr> last_block := Some height \<rparr> in (c', notify_waiters_if_ready c')
      | None \<Rightarrow> (c, False))"

definition mp_handle_message :: "mempool_lib \<Rightarrow> nat \<Rightarrow> bytes \<Rightarrow> mp_client \<Rightarrow> mp_client \<times> bool" where
  "mp_handle_message lib now msg c =
     (case handle_fees lib now msg c of (c1, woken1) \<Rightarrow>
        case handle_blocks lib msg c1 of (c2, woken2) \<Rightarrow> (c2, woken1 \<or> woken2))"

subsection \<open>One connection\<close>

text \<open>
  The branches of the loop of \<open>connect_websocket\<close>: what the stream yields, its read timeout, a tick
  of the ping interval and the cancellation. \<open>MsgPing\<close> says whether the answer could be sent.
\<close>

datatype mp_event =
    MsgText bytes | MsgPing bool | MsgClose | MsgOther | StreamError | StreamEnd | ReadTimeout
  | PingTick | Cancelled

datatype connection_error =
    ConnectFailed | RequestFailed | WsError | WebSocketClosed | NoMessage | FeesTooOld fee_staleness

definition clear_caches :: "mp_client \<Rightarrow> mp_client" where
  "clear_caches c = c\<lparr> last_fees := None, last_block := None \<rparr>"

text \<open>The result of a branch that leaves the loop, \<open>None\<close> for one that goes on.\<close>

definition ws_exit :: "nat \<Rightarrow> nat \<Rightarrow> mp_event \<Rightarrow> mp_client \<Rightarrow> (connection_error, unit) result option" where
  "ws_exit started now ev c =
     (case ev of
        MsgText msg \<Rightarrow> None
      | MsgPing sent \<Rightarrow> if sent then None else Some (Err WsError)
      | MsgClose \<Rightarrow> Some (Err WebSocketClosed)
      | MsgOther \<Rightarrow> None
      | StreamError \<Rightarrow> Some (Err WsError)
      | StreamEnd \<Rightarrow> Some (Err WebSocketClosed)
      | ReadTimeout \<Rightarrow> Some (Err NoMessage)
      | PingTick \<Rightarrow>
          map_option (\<lambda>s. Err (FeesTooOld s)) (stale_or_missing_fees_since now c started)
      | Cancelled \<Rightarrow> Some (Ok ()))"

definition ws_update :: "mempool_lib \<Rightarrow> nat \<Rightarrow> mp_event \<Rightarrow> mp_client \<Rightarrow> mp_client \<times> bool" where
  "ws_update lib now ev c =
     (case ev of MsgText msg \<Rightarrow> mp_handle_message lib now msg c | _ \<Rightarrow> (c, False))"

text \<open>
  The loop, with the deferred clearing of the caches when it is left; \<open>None\<close> is a connection that
  is still open after the events.
\<close>

fun ws_loop ::
  "mempool_lib \<Rightarrow> nat \<Rightarrow> (nat \<times> mp_event) list \<Rightarrow> mp_client \<Rightarrow> mp_client \<times> (connection_error, unit) result option"
where
  "ws_loop lib started [] c = (c, None)"
| "ws_loop lib started ((now, ev) # events) c =
     (case ws_exit started now ev c of
        Some r \<Rightarrow> (clear_caches c, Some r)
      | None \<Rightarrow> ws_loop lib started events (fst (ws_update lib now ev c)))"

datatype handshake = HandshakeFailed | WantFailed | Established nat

fun connect_websocket ::
  "mempool_lib \<Rightarrow> handshake \<Rightarrow> (nat \<times> mp_event) list \<Rightarrow> mp_client
    \<Rightarrow> mp_client \<times> (connection_error, unit) result option"
where
  "connect_websocket lib HandshakeFailed events c = (clear_caches c, Some (Err ConnectFailed))"
| "connect_websocket lib WantFailed events c = (clear_caches c, Some (Err RequestFailed))"
| "connect_websocket lib (Established started) events c = ws_loop lib started events c"

text \<open>
  \<open>listen\<close>: one connection after the other, until one ends with \<open>Ok\<close> or the token is cancelled
  before the next; the list holds what the attempts meet.
\<close>

datatype attempt = TokenCancelled | Attempt handshake "(nat \<times> mp_event) list"

fun mp_listen :: "mempool_lib \<Rightarrow> attempt list \<Rightarrow> mp_client \<Rightarrow> mp_client" where
  "mp_listen lib [] c = c"
| "mp_listen lib (TokenCancelled # rest) c = c"
| "mp_listen lib (Attempt h events # rest) c =
     (case connect_websocket lib h events c of
        (c', Some (Err e)) \<Rightarrow> mp_listen lib rest c'
      | (c', _) \<Rightarrow> c')"

subsection \<open>All clients\<close>

record mempool_space =
  ms_clients :: "mp_client list"

definition mempool_space_new :: "string \<Rightarrow> string list \<Rightarrow> nat option \<Rightarrow> mempool_space" where
  "mempool_space_new symbol urls age = \<lparr> ms_clients = map (\<lambda>url. mp_client_new symbol url age) urls \<rparr>"

text \<open>\<open>str::trim\<close> on ASCII text; the set is listed in an order of its own.\<close>

definition is_space :: "char \<Rightarrow> bool" where
  "is_space ch = (ch \<in> {CHR 0x09, CHR 0x0A, CHR 0x0B, CHR 0x0C, CHR 0x0D, CHR '' ''})"

definition trim :: "string \<Rightarrow> string" where
  "trim s = rev (dropWhile is_space (rev (dropWhile is_space s)))"

definition combine_urls ::
  "(string set \<Rightarrow> string list) \<Rightarrow> string option \<Rightarrow> string list option \<Rightarrow> string list" where
  "combine_urls list_set legacy extra =
     list_set (set (filter (\<lambda>s. s \<noteq> [])
       (map trim ((case legacy of Some src \<Rightarrow> split_on CHR '','' src | None \<Rightarrow> [])
                @ (case extra of Some urls \<Rightarrow> urls | None \<Rightarrow> [])))))"

definition median :: "f64 list \<Rightarrow> f64 option" where
  "median xs =
     (if xs = [] then None
      else let v = sort xs; len = length v; mid = len div 2
        in Some (if len mod 2 = 0 then f64_div (f64_add (v ! (mid - 1)) (v ! mid)) (Finite 2)
                 else v ! mid))"

definition latest_values :: "nat \<Rightarrow> mp_client list \<Rightarrow> (u64 \<times> f64) list" where
  "latest_values now cs =
     List.map_filter (\<lambda>c. case get_latest now c of Ok hf \<Rightarrow> Some hf | _ \<Rightarrow> None) cs"

definition collect_best_fees_and_height :: "nat \<Rightarrow> mempool_space \<Rightarrow> (u64 \<times> f64) option" where
  "collect_best_fees_and_height now ms =
     (let fees = latest_values now (ms_clients ms)
      in case iter_max (map fst fees) of None \<Rightarrow> None
         | Some best_height \<Rightarrow>
             map_option (\<lambda>fee. (best_height, fee))
               (median (map snd (filter (\<lambda>hf. fst hf = best_height) fees))))"

text \<open>
  The wait for the first fees: the messages the clients get before the timeout, with the index of
  the client. The waiting task collects again only when it is woken.
\<close>

definition deliver :: "mempool_lib \<Rightarrow> nat \<Rightarrow> nat \<Rightarrow> bytes \<Rightarrow> mempool_space \<Rightarrow> mempool_space \<times> bool" where
  "deliver lib now i msg ms =
     (if i < length (ms_clients ms)
      then (case mp_handle_message lib now msg (ms_clients ms ! i) of
              (c', woken) \<Rightarrow> (ms\<lparr> ms_clients := (ms_clients ms)[i := c'] \<rparr>, woken))
      else (ms, False))"

fun wait_for_fees ::
  "mempool_lib \<Rightarrow> (nat \<times> nat \<times> bytes) list \<Rightarrow> mempool_space \<Rightarrow> (u64 \<times> f64) option"
where
  "wait_for_fees lib [] ms = None"
| "wait_for_fees lib ((now, i, msg) # rest) ms =
     (case deliver lib now i msg ms of (ms', woken) \<Rightarrow>
        case (if woken then collect_best_fees_and_height now ms' else None) of
          Some r \<Rightarrow> Some r
        | None \<Rightarrow> wait_for_fees lib rest ms')"

definition get_fees_and_height ::
  "mempool_lib \<Rightarrow> nat \<Rightarrow> (nat \<times> nat \<times> bytes) list \<Rightarrow> mempool_space \<Rightarrow> (u64 \<times> f64) option" where
  "get_fees_and_height lib now incoming ms =
     (case collect_best_fees_and_height now ms of
        Some r \<Rightarrow> Some r
      | None \<Rightarrow>
          if list_all (has_stale_fees now) (ms_clients ms) then None
          else wait_for_fees lib incoming ms)"

subsection \<open>A connection keeps the last fees and the greatest height it announced\<close>

definition fee_messages :: "mempool_lib \<Rightarrow> (nat \<times> mp_event) list \<Rightarrow> cached_fees list" where
  "fee_messages lib events = List.map_filter
     (\<lambda>(now, ev). case ev of
        MsgText msg \<Rightarrow> map_option (\<lambda>fee. \<lparr> fastest = fee, fees_at = now \<rparr>) (parse_fees lib msg)
      | _ \<Rightarrow> None) events"

definition block_heights :: "mempool_lib \<Rightarrow> (nat \<times> mp_event) list \<Rightarrow> u64 list" where
  "block_heights lib events = List.map_filter
     (\<lambda>(now, ev). case ev of MsgText msg \<Rightarrow> best_parsed lib msg | _ \<Rightarrow> None) events"

definition last_opt :: "'a list \<Rightarrow> 'a option" where
  "last_opt xs = (if xs = [] then None else Some (last xs))"

definition opt_list :: "'a option \<Rightarrow> 'a list" where
  "opt_list x = (case x of None \<Rightarrow> [] | Some y \<Rightarrow> [y])"

lemma iter_max_step:
  "iter_max (opt_list m @ h # hs) =
     iter_max (opt_list (if (case m of Some c \<Rightarrow> h \<le> c | None \<Rightarrow> False) then m else Some h) @ hs)"
  by (cases m) (auto simp: opt_list_def max_def)

lemma mp_handle_message_caches:
  "fst (mp_handle_message lib now msg c) = c
     \<lparr> last_fees := (case parse_fees lib msg of Some fee \<Rightarrow> Some \<lparr> fastest = fee, fees_at = now \<rparr> | None \<Rightarrow> last_fees c),
       last_block := (case best_parsed lib msg of
          Some h \<Rightarrow> if (case last_block c of Some cur \<Rightarrow> h \<le> cur | None \<Rightarrow> False) then last_block c else Some h
        | None \<Rightarrow> last_block c) \<rparr>"
  by (auto simp: mp_handle_message_def handle_fees_def handle_blocks_def Let_def
      split: option.splits prod.splits)

lemma ws_update_caches:
  shows "last_opt (opt_list (last_fees (fst (ws_update lib now ev c))) @ fs)
       = last_opt (opt_list (last_fees c) @ fee_messages lib [(now, ev)] @ fs)"
    and "iter_max (opt_list (last_block (fst (ws_update lib now ev c))) @ hs)
       = iter_max (opt_list (last_block c) @ block_heights lib [(now, ev)] @ hs)"
    and "max_age (fst (ws_update lib now ev c)) = max_age c"
proof -
  show "last_opt (opt_list (last_fees (fst (ws_update lib now ev c))) @ fs)
       = last_opt (opt_list (last_fees c) @ fee_messages lib [(now, ev)] @ fs)"
    by (cases ev) (auto simp: ws_update_def mp_handle_message_caches fee_messages_def map_filter_simps
        opt_list_def last_opt_def split: option.splits)
  show "iter_max (opt_list (last_block (fst (ws_update lib now ev c))) @ hs)
       = iter_max (opt_list (last_block c) @ block_heights lib [(now, ev)] @ hs)"
    by (cases ev) (simp_all add: ws_update_def mp_handle_message_caches block_heights_def map_filter_simps
        iter_max_step split: option.split)
  show "max_age (fst (ws_update lib now ev c)) = max_age c"
    by (cases ev) (simp_all add: ws_update_def mp_handle_message_caches)
qed

lemma log_Cons:
  "fee_messages lib (e # es) = fee_messages lib [e] @ fee_messages lib es"
  "block_heights lib (e # es) = block_heights lib [e] @ block_heights lib es"
  by (simp_all add: fee_messages_def block_heights_def map_filter_def)

lemma iter_max_opt_list [simp]: "iter_max (opt_list m) = m"
  by (cases m) (simp_all add: opt_list_def)

lemma last_opt_opt_list [simp]: "last_opt (opt_list m) = m"
  by (cases m) (simp_all add: opt_list_def last_opt_def)

lemma ws_loop_log:
  "ws_loop lib started events c = (c', None) \<Longrightarrow>
     last_fees c' = last_opt (opt_list (last_fees c) @ fee_messages lib events) \<and>
     last_block c' = iter_max (opt_list (last_block c) @ block_heights lib events) \<and>
     max_age c' = max_age c"
proof (induction lib started events c rule: ws_loop.induct)
  case (1 lib started c)
  then show ?case by (simp add: fee_messages_def block_heights_def map_filter_simps)
next
  case (2 lib started now ev events c)
  then have go: "ws_exit started now ev c = None"
    and rest: "ws_loop lib started events (fst (ws_update lib now ev c)) = (c', None)"
    by (auto split: option.splits)
  show ?case using "2.IH" [OF go rest] by (simp add: ws_update_caches log_Cons [of lib _ events])
qed

lemma clear_ws_update [simp]: "clear_caches (fst (ws_update lib now ev c)) = clear_caches c"
  by (cases ev) (simp_all add: ws_update_def mp_handle_message_caches clear_caches_def)

lemma ws_loop_left: "ws_loop lib started events c = (c', Some r) \<Longrightarrow> c' = clear_caches c"
  by (induction lib started events c rule: ws_loop.induct) (auto split: option.splits)

lemma connect_left: "connect_websocket lib h events c = (c', Some r) \<Longrightarrow> c' = clear_caches c"
  by (cases h) (auto dest: ws_loop_left)

lemma get_latest_Ok_iff:
  "get_latest now c = Ok (h, f) \<longleftrightarrow>
     (\<exists>cached. last_fees c = Some cached \<and> fastest cached = f \<and> last_block c = Some h \<and>
        (\<forall>limit. max_age c = Some limit \<longrightarrow> now - fees_at cached \<le> limit))"
  by (auto simp: get_latest_def staleness_def Let_def split: option.splits if_splits)

text \<open>
  Whatever connections the listening task made, and however they ended, a client gives out only
  fees and a height of the connection that is open: the fees are those of its last fee message and not
  older than the limit, and the height is the greatest it announced.
\<close>

theorem latest_of_open_connection:
  assumes "get_latest now (mp_listen lib attempts (mp_client_new symbol url age)) = Ok (h, f)"
  shows "\<exists>pre started events post cached.
      attempts = pre @ Attempt (Established started) events # post \<and>
      snd (connect_websocket lib (Established started) events (mp_client_new symbol url age)) = None \<and>
      last_opt (fee_messages lib events) = Some cached \<and> fastest cached = f \<and>
      (\<forall>limit. age = Some limit \<longrightarrow> now - fees_at cached \<le> limit) \<and>
      iter_max (block_heights lib events) = Some h"
  using assms
proof (induction attempts)
  case Nil
  then show ?case by (simp add: mp_client_new_def get_latest_def)
next
  case (Cons a rest)
  let ?new = "mp_client_new symbol url age"
  have new: "clear_caches ?new = ?new" "last_fees ?new = None" "last_block ?new = None" "max_age ?new = age"
    by (simp_all add: clear_caches_def mp_client_new_def)
  show ?case
  proof (cases a)
    case TokenCancelled
    with Cons.prems show ?thesis by (simp add: new get_latest_def)
  next
    case (Attempt hs events)
    obtain c' r where con: "connect_websocket lib hs events ?new = (c', r)" by fastforce
    show ?thesis
    proof (cases r)
      case None
      with con obtain started where hs: "hs = Established started" by (cases hs) auto
      with con None have loop: "ws_loop lib started events ?new = (c', None)" by simp
      from Cons.prems Attempt con None have "get_latest now c' = Ok (h, f)" by simp
      with ws_loop_log [OF loop] show ?thesis
        using con None Attempt hs
        by (intro exI [of _ "[]"] exI [of _ started] exI [of _ events] exI [of _ rest])
          (auto simp: get_latest_Ok_iff new opt_list_def)
    next
      case (Some res)
      with con connect_left new(1) have c': "c' = ?new" by metis
      have "get_latest now (mp_listen lib rest ?new) = Ok (h, f)"
        using Cons.prems Attempt con Some
        by (cases res) (simp_all add: c' new get_latest_def)
      from Cons.IH [OF this] show ?thesis by (metis append_Cons)
    qed
  qed
qed

definition example_mempool_lib :: mempool_lib where
  "example_mempool_lib =
     \<lparr> parse_fees = (\<lambda>msg. case msg of [tag, x] \<Rightarrow> if tag = 0 then Some (Finite (of_nat (unat x))) else None | _ \<Rightarrow> None),
       parse_blocks = (\<lambda>msg. case msg of tag # hs \<Rightarrow> if tag = 1 then Some (map ucast hs) else None | _ \<Rightarrow> None),
       parse_block = (\<lambda>msg. case msg of [tag, h] \<Rightarrow> if tag = 2 then Some (ucast h) else None | _ \<Rightarrow> None) \<rparr>"

definition example_attempts :: "attempt list" where
  "example_attempts =
     [Attempt (Established 1) [(2, MsgText [0, 50]), (3, MsgText [1, 7, 9]), (4, StreamEnd)],
      Attempt HandshakeFailed [],
      Attempt (Established 20) [(21, MsgText [1, 4, 8]), (22, MsgText [2, 7]), (23, MsgPing True), (24, MsgText [0, 12])]]"

lemma example_latest:
  "get_latest 30 (mp_listen example_mempool_lib example_attempts (mp_client_new ''BTC'' ''url'' (Some 10)))
     = Ok (8, Finite 12)"
  by (simp add: example_attempts_def mp_client_new_def ws_exit_def ws_update_def mp_handle_message_def
      handle_fees_def handle_blocks_def best_parsed_def example_mempool_lib_def Let_def
      clear_caches_def get_latest_def staleness_def)

theorem latest_of_open_connection_witness:
  "\<exists>pre started events post cached.
      example_attempts = pre @ Attempt (Established started) events # post \<and>
      last_opt (fee_messages example_mempool_lib events) = Some cached \<and> fastest cached = Finite 12 \<and>
      30 - fees_at cached \<le> 10 \<and> iter_max (block_heights example_mempool_lib events) = Some 8"
  using latest_of_open_connection [OF example_latest] by blast

subsection \<open>No wake-up is missed\<close>

fun poll_for_fees ::
  "mempool_lib \<Rightarrow> (nat \<times> nat \<times> bytes) list \<Rightarrow> mempool_space \<Rightarrow> (u64 \<times> f64) option"
where
  "poll_for_fees lib [] ms = None"
| "poll_for_fees lib ((now, i, msg) # rest) ms =
     (let ms' = fst (deliver lib now i msg ms)
      in case collect_best_fees_and_height now ms' of
           Some r \<Rightarrow> Some r
         | None \<Rightarrow> poll_for_fees lib rest ms')"

lemma median_None_iff [simp]: "median xs = None \<longleftrightarrow> xs = []"
  by (simp add: median_def Let_def)

lemma latest_values_Nil_iff:
  "latest_values now cs = [] \<longleftrightarrow> (\<forall>c \<in> set cs. \<forall>hf. get_latest now c \<noteq> Ok hf)"
  by (induction cs) (auto simp: latest_values_def map_filter_simps split: option.splits result.splits)

lemma collect_None_iff:
  "collect_best_fees_and_height now ms = None \<longleftrightarrow> (\<forall>c \<in> set (ms_clients ms). \<forall>hf. get_latest now c \<noteq> Ok hf)"
proof -
  have "collect_best_fees_and_height now ms = None \<longleftrightarrow> latest_values now (ms_clients ms) = []"
  proof (cases "iter_max (map fst (latest_values now (ms_clients ms)))")
    case None
    then show ?thesis by (simp add: collect_best_fees_and_height_def)
  next
    case (Some best)
    from iter_max_SomeD [OF this] have "best \<in> fst ` set (latest_values now (ms_clients ms))" by auto
    with Some show ?thesis by (auto simp: collect_best_fees_and_height_def filter_empty_conv)
  qed
  then show ?thesis by (simp add: latest_values_Nil_iff)
qed

text \<open>Values only get older: a client that has nothing to give out has nothing later either.\<close>

lemma get_latest_later: "get_latest later c = Ok hf \<Longrightarrow> now \<le> later \<Longrightarrow> get_latest now c = Ok hf"
  by (cases hf) (auto simp: get_latest_Ok_iff intro: order.trans [OF diff_le_mono])

lemma mp_handle_message_quiet:
  "mp_handle_message lib now msg c = (c', False) \<Longrightarrow> get_latest now c' = Ok hf \<Longrightarrow> get_latest now c = Ok hf"
  by (cases hf) (auto simp: mp_handle_message_def handle_fees_def handle_blocks_def Let_def
      notify_waiters_if_ready_def get_latest_Ok_iff split: option.splits prod.splits if_splits)

lemma deliver_quiet:
  assumes none: "collect_best_fees_and_height before ms = None" and time: "before \<le> now"
    and step: "deliver lib now i msg ms = (ms', False)"
  shows "collect_best_fees_and_height now ms' = None"
  unfolding collect_None_iff
proof (intro ballI allI notI)
  fix c' hf assume c': "c' \<in> set (ms_clients ms')" and ok: "get_latest now c' = Ok hf"
  have "\<exists>c \<in> set (ms_clients ms). get_latest now c = Ok hf"
  proof (cases "c' \<in> set (ms_clients ms)")
    case True
    with ok show ?thesis by blast
  next
    case False
    from step c' False have "i < length (ms_clients ms)"
      and h: "mp_handle_message lib now msg (ms_clients ms ! i) = (c', False)"
      by (auto simp: deliver_def split: if_splits prod.splits dest: set_update_subset_insert [THEN subsetD])
    then show ?thesis using mp_handle_message_quiet [OF h ok] by (meson nth_mem)
  qed
  with none time show False by (meson collect_None_iff get_latest_later)
qed

text \<open>
  A task that waits for fees and looks at the clients only when it is woken gets exactly what a
  task would get that looks after every message, so no wake-up is missed.
\<close>

theorem wait_is_polling:
  assumes "collect_best_fees_and_height now ms = None" and "sorted (now # map fst incoming)"
  shows "wait_for_fees lib incoming ms = poll_for_fees lib incoming ms"
  using assms
proof (induction lib incoming ms arbitrary: now rule: wait_for_fees.induct)
  case (2 lib t i msg rest ms)
  obtain ms' woken where d: "deliver lib t i msg ms = (ms', woken)" by fastforce
  have quiet: "\<not> woken \<Longrightarrow> collect_best_fees_and_height t ms' = None"
    using deliver_quiet [OF "2.prems"(1)] "2.prems"(2) d by simp
  show ?case
  proof (cases "collect_best_fees_and_height t ms'")
    case None
    with "2.IH" [OF d [symmetric], of t] "2.prems"(2) d show ?thesis by simp
  next
    case (Some r)
    with quiet d show ?thesis by auto
  qed
qed simp

definition example_space :: mempool_space where
  "example_space = mempool_space_new ''BTC'' [''a'', ''b''] (Some 10)"

theorem wait_is_polling_witness:
  "poll_for_fees example_mempool_lib [(1, 0, [0, 5]), (2, 1, [2, 9]), (3, 1, [0, 7])] example_space
     = Some (9, Finite 7)"
proof -
  have "wait_for_fees example_mempool_lib [(1, 0, [0, 5]), (2, 1, [2, 9]), (3, 1, [0, 7])] example_space
     = poll_for_fees example_mempool_lib [(1, 0, [0, 5]), (2, 1, [2, 9]), (3, 1, [0, 7])] example_space"
    by (rule wait_is_polling [of 0])
      (simp_all add: collect_None_iff example_space_def mempool_space_new_def mp_client_new_def get_latest_def)
  moreover have "wait_for_fees example_mempool_lib [(1, 0, [0, 5]), (2, 1, [2, 9]), (3, 1, [0, 7])] example_space
     = Some (9, Finite 7)"
    by (simp add: example_space_def mempool_space_new_def mp_client_new_def deliver_def mp_handle_message_def
        handle_fees_def handle_blocks_def best_parsed_def notify_waiters_if_ready_def
        example_mempool_lib_def Let_def collect_best_fees_and_height_def latest_values_def
        map_filter_simps get_latest_def staleness_def median_def)
  ultimately show ?thesis by simp
qed

subsection \<open>A minority of servers cannot move the estimate\<close>

text \<open>In a sorted list, an element with few smaller ones in the list sits early.\<close>

lemma sorted_nth_ge:
  fixes lo :: "'a::linorder"
  assumes "sorted v" and "length (filter (\<lambda>x. x < lo) v) \<le> k" and "k < length v"
  shows "lo \<le> v ! k"
proof (rule ccontr)
  assume "\<not> lo \<le> v ! k"
  then have "\<forall>x \<in> set (take (Suc k) v). x < lo"
    using assms(1,3) by (auto simp: in_set_conv_nth) (meson leI le_less_trans less_Suc_eq_le order.trans sorted_nth_mono)
  then have "filter (\<lambda>x. x < lo) (take (Suc k) v) = take (Suc k) v" by (simp add: filter_id_conv)
  then have "Suc k = length (filter (\<lambda>x. x < lo) (take (Suc k) v))" using assms(3) by simp
  also have "\<dots> \<le> length (filter (\<lambda>x. x < lo) (take (Suc k) v @ drop (Suc k) v))"
    unfolding filter_append by simp
  finally show False using assms(2) by simp
qed

lemma sorted_nth_le:
  fixes hi :: "'a::linorder"
  assumes "sorted v" and "length (filter (\<lambda>x. hi < x) v) < length v - k" and "k < length v"
  shows "v ! k \<le> hi"
proof (rule ccontr)
  assume "\<not> v ! k \<le> hi"
  then have "\<forall>x \<in> set (drop k v). hi < x"
    using assms(1,3) by (auto simp: in_set_conv_nth) (metis le_add1 less_diff_conv add.commute not_le order.strict_trans2 sorted_nth_mono)
  then have "filter (\<lambda>x. hi < x) (drop k v) = drop k v" by (simp add: filter_id_conv)
  then have "length v - k = length (filter (\<lambda>x. hi < x) (drop k v))" by simp
  also have "\<dots> \<le> length (filter (\<lambda>x. hi < x) (take k v @ drop k v))"
    unfolding filter_append by simp
  finally show False using assms(2) by simp
qed

lemma length_filter_sort: "length (filter P (sort xs)) = length (filter P xs)"
  by (metis length_sort filter_sort sort_key_simps)

lemma median_between:
  assumes most: "length xs < 2 * length (filter (\<lambda>x. Finite lo \<le> x \<and> x \<le> Finite hi) xs)"
    and "representable lo" "representable hi" "\<bar>lo\<bar> \<le> 2 ^ 1000" "\<bar>hi\<bar> \<le> 2 ^ 1000"
    and m: "median xs = Some f"
  shows "\<exists>a. f = Finite a \<and> lo \<le> a \<and> a \<le> hi"
proof -
  let ?v = "sort xs" and ?n = "length xs"
  let ?in = "\<lambda>x. Finite lo \<le> x \<and> x \<le> Finite hi"
  have n: "?n = length (filter ?in xs) + length (filter (\<lambda>x. \<not> ?in x) xs)"
    by (rule sum_length_filter_compl [symmetric])
  have "length (filter (\<lambda>x. x < Finite lo) xs) \<le> length (filter (\<lambda>x. \<not> ?in x) xs)"
    "length (filter (\<lambda>x. Finite hi < x) xs) \<le> length (filter (\<lambda>x. \<not> ?in x) xs)"
    by (induction xs) auto
  with n most have few: "2 * length (filter (\<lambda>x. x < Finite lo) xs) < ?n"
    "2 * length (filter (\<lambda>x. Finite hi < x) xs) < ?n" by linarith+
  have at_index: "\<exists>a. ?v ! k = Finite a \<and> lo \<le> a \<and> a \<le> hi"
    if "?n \<le> 2 * k + 2" "2 * k \<le> ?n" "k < ?n" "even ?n \<or> ?n \<le> 2 * k + 1" for k
  proof -
    from few that have "Finite lo \<le> ?v ! k"
      by (intro sorted_nth_ge) (auto simp: length_filter_sort elim!: evenE)
    moreover from few that have "?v ! k \<le> Finite hi"
      by (intro sorted_nth_le) (auto simp: length_filter_sort elim!: evenE)
    ultimately show ?thesis by (elim between_Finite) auto
  qed
  show ?thesis
  proof (cases "even ?n")
    case True
    then obtain j where j: "?n = 2 * j" by (rule evenE)
    from few(1) j have "0 < j" by simp
    with j have "\<exists>a. ?v ! (j - 1) = Finite a \<and> lo \<le> a \<and> a \<le> hi" "\<exists>b. ?v ! j = Finite b \<and> lo \<le> b \<and> b \<le> hi"
      by (auto intro!: at_index)
    then obtain a b where ab: "?v ! (j - 1) = Finite a" "lo \<le> a" "a \<le> hi" "?v ! j = Finite b" "lo \<le> b" "b \<le> hi"
      by blast
    have "f = f64_div (f64_add (?v ! (j - 1)) (?v ! j)) (Finite 2)"
      using m j by (auto simp: median_def Let_def split: if_splits)
    then show ?thesis using midpoint_between [OF assms(2-5) ab(2,3,5,6)] ab(1,4) by simp
  next
    case False
    then have "f = ?v ! (?n div 2)" using m by (auto simp: median_def Let_def split: if_splits)
    moreover have "\<exists>a. ?v ! (?n div 2) = Finite a \<and> lo \<le> a \<and> a \<le> hi"
      using False by (intro at_index) (auto elim!: oddE)
    ultimately show ?thesis by simp
  qed
qed

text \<open>The fees of the clients whose height is the greatest.\<close>

definition fees_at_height :: "nat \<Rightarrow> mempool_space \<Rightarrow> u64 \<Rightarrow> f64 list" where
  "fees_at_height now ms h = map snd (filter (\<lambda>hf. fst hf = h) (latest_values now (ms_clients ms)))"

text \<open>
  C23: the height of an estimate is the greatest of the clients whose values are fresh, and when more
  than half of the clients at this height report fees between two bounds, the fee of the estimate is
  between them, whatever the others report.
\<close>

theorem minority_cannot_move_fee:
  assumes "collect_best_fees_and_height now ms = Some (h, f)"
    and "length (fees_at_height now ms h)
         < 2 * length (filter (\<lambda>x. Finite lo \<le> x \<and> x \<le> Finite hi) (fees_at_height now ms h))"
    and "representable lo" and "representable hi" and "\<bar>lo\<bar> \<le> 2 ^ 1000" and "\<bar>hi\<bar> \<le> 2 ^ 1000"
  shows "(\<forall>(h', f') \<in> set (latest_values now (ms_clients ms)). h' \<le> h) \<and>
         (\<exists>a. f = Finite a \<and> lo \<le> a \<and> a \<le> hi)"
proof -
  from assms(1) have best: "iter_max (map fst (latest_values now (ms_clients ms))) = Some h"
    and m: "median (fees_at_height now ms h) = Some f"
    by (auto simp: collect_best_fees_and_height_def fees_at_height_def Let_def split: option.splits)
  from iter_max_SomeD [OF best] have "\<forall>(h', f') \<in> set (latest_values now (ms_clients ms)). h' \<le> h"
    by force
  with median_between [OF assms(2-6) m] show ?thesis by blast
qed

definition client_with :: "u64 \<Rightarrow> f64 \<Rightarrow> mp_client" where
  "client_with h f = (mp_client_new ''BTC'' ''url'' None)
     \<lparr> last_block := Some h, last_fees := Some \<lparr> fastest = f, fees_at = 0 \<rparr> \<rparr>"

theorem minority_cannot_move_fee_witness:
  "\<exists>a. collect_best_fees_and_height 5
      \<lparr> ms_clients = [client_with 8 (Infinite False), client_with 8 (Finite 11), client_with 7 (Finite 500), client_with 8 (Finite 9)] \<rparr>
     = Some (8, Finite a) \<and> 9 \<le> a \<and> a \<le> 11"
proof -
  let ?ms = "\<lparr> ms_clients = [client_with 8 (Infinite False), client_with 8 (Finite 11), client_with 7 (Finite 500), client_with 8 (Finite 9)] \<rparr>"
  have vals: "latest_values 5 (ms_clients ?ms) = [(8, Infinite False), (8, Finite 11), (7, Finite 500), (8, Finite 9)]"
    by (simp add: latest_values_def client_with_def mp_client_new_def map_filter_simps get_latest_def staleness_def)
  have c: "collect_best_fees_and_height 5 ?ms = Some (8, Finite 11)"
    unfolding collect_best_fees_and_height_def vals by (simp add: Let_def max_def median_def)
  have "representable 9" "representable 11"
    using representable_of_nat [of 9] representable_of_nat [of 11] by simp_all
  then show ?thesis
    using minority_cannot_move_fee [OF c, of 9 11] c
    by (simp add: fees_at_height_def vals del: mempool_space.simps)
qed

end
