(* ===== verification/Fee_Estimation.thy ===== *)
theory Fee_Estimation
  imports Mempool_Client Chain_Utils
begin

text \<open>
  The fee estimates of \<open>src/boltzr/src/chain/chain_client.rs\<close>: the thresholds and the floor of the
  configuration, the check of the fee servers against the node (\<open>MempoolSpace::value_trusted\<close>), the
  fallbacks, and the rounding of the result. The answers of the node are arguments.
\<close>

record thresholds =
  max_block_lag :: u64
  max_fee_multiplier :: f64
  max_fee_delta :: f64

record mempool_config =
  cfg_urls :: "string list option"
  cfg_max_fee_multiplier :: "f64 option"
  cfg_max_fee_delta :: "f64 option"
  cfg_max_age_secs :: "u64 option"
  cfg_max_block_lag :: "u64 option"

record chain_config =
  cfg_mempool_space :: "string option"
  cfg_mempool :: "mempool_config option"
  cfg_fee_floor :: "f64 option"

record fee_client =
  fc_fee_floor :: f64
  fc_thresholds :: thresholds
  fc_mempool_space :: "mempool_space option"

definition DEFAULT_FEE_FLOOR_BTC :: f64 where
  "DEFAULT_FEE_FLOOR_BTC = f64_round (2 / 10)"

definition DEFAULT_FEE_FLOOR_ELEMENTS :: f64 where
  "DEFAULT_FEE_FLOOR_ELEMENTS = f64_round (1 / 10)"

definition DEFAULT_MEMPOOL_MAX_FEE_MULTIPLIER :: f64 where
  "DEFAULT_MEMPOOL_MAX_FEE_MULTIPLIER = Finite 10"

definition DEFAULT_MEMPOOL_MAX_FEE_DELTA :: f64 where
  "DEFAULT_MEMPOOL_MAX_FEE_DELTA = Finite 25"

definition DEFAULT_MEMPOOL_MAX_AGE_SECS :: u64 where
  "DEFAULT_MEMPOOL_MAX_AGE_SECS = 300"

definition DEFAULT_MEMPOOL_MAX_BLOCK_LAG :: u64 where
  "DEFAULT_MEMPOOL_MAX_BLOCK_LAG = 2"

definition BTC_KVB_SAT_VBYTE_FACTOR :: u64 where
  "BTC_KVB_SAT_VBYTE_FACTOR = 100000"

definition unwrap_or :: "'a option \<Rightarrow> 'a \<Rightarrow> 'a" where
  "unwrap_or x d = (case x of Some y \<Rightarrow> y | None \<Rightarrow> d)"

definition default_floor :: "chain_type \<Rightarrow> f64" where
  "default_floor t = (case t of TypeBitcoin \<Rightarrow> DEFAULT_FEE_FLOOR_BTC | TypeElements \<Rightarrow> DEFAULT_FEE_FLOOR_ELEMENTS)"

definition mempool_thresholds :: "mempool_config option \<Rightarrow> thresholds" where
  "mempool_thresholds m =
     \<lparr> max_block_lag = unwrap_or (Option.bind m cfg_max_block_lag) DEFAULT_MEMPOOL_MAX_BLOCK_LAG,
       max_fee_multiplier = unwrap_or (Option.bind m cfg_max_fee_multiplier) DEFAULT_MEMPOOL_MAX_FEE_MULTIPLIER,
       max_fee_delta = unwrap_or (Option.bind m cfg_max_fee_delta) DEFAULT_MEMPOOL_MAX_FEE_DELTA \<rparr>"

definition mempool_max_age :: "mempool_config option \<Rightarrow> nat" where
  "mempool_max_age m =
     unat (unwrap_or (Option.bind m cfg_max_age_secs) DEFAULT_MEMPOOL_MAX_AGE_SECS) * 10 ^ 9"

definition fee_client_new ::
  "(string set \<Rightarrow> string list) \<Rightarrow> chain_type \<Rightarrow> string \<Rightarrow> chain_config \<Rightarrow> fee_client" where
  "fee_client_new list_set t symbol cfg =
     (let urls = combine_urls list_set (cfg_mempool_space cfg) (Option.bind (cfg_mempool cfg) cfg_urls)
      in \<lparr> fc_fee_floor = unwrap_or (cfg_fee_floor cfg) (default_floor t),
           fc_thresholds = mempool_thresholds (cfg_mempool cfg),
           fc_mempool_space =
             (if urls = [] then None
              else Some (mempool_space_new symbol urls (Some (mempool_max_age (cfg_mempool cfg))))) \<rparr>)"

definition saturating_sub :: "u64 \<Rightarrow> u64 \<Rightarrow> u64" where
  "saturating_sub a b = (if b \<le> a then a - b else 0)"

definition fee_ceiling :: "thresholds \<Rightarrow> f64 \<Rightarrow> f64" where
  "fee_ceiling th bitcoind_fee =
     f64_max (f64_mul (max_fee_multiplier th) bitcoind_fee) (f64_add bitcoind_fee (max_fee_delta th))"

definition value_trusted :: "thresholds \<Rightarrow> u64 \<Rightarrow> f64 \<Rightarrow> u64 option \<Rightarrow> f64 option \<Rightarrow> bool" where
  "value_trusted th mempool_height mempool_fee local_tip bitcoind_fee =
     (if \<not> f64_is_finite mempool_fee \<or> f64_lt_zero mempool_fee then False
      else if (case local_tip of
                 Some tip \<Rightarrow> max_block_lag th < saturating_sub tip mempool_height | None \<Rightarrow> False) then False
      else (case bitcoind_fee of
              Some b \<Rightarrow> if \<not> f64_is_finite b then True else \<not> f64_gt mempool_fee (fee_ceiling th b)
            | None \<Rightarrow> True))"

text \<open>The node answers \<open>estimatesmartfee\<close> and \<open>getblockchaininfo\<close>, or an error.\<close>

record node_answers =
  smart_fee :: "f64 option"
  node_blocks :: "u64 option"

definition estimate_fee_bitcoind :: "node_answers \<Rightarrow> f64 option" where
  "estimate_fee_bitcoind node =
     map_option (\<lambda>fee. f64_mul fee (f64_of_u64 BTC_KVB_SAT_VBYTE_FACTOR)) (smart_fee node)"

definition estimate_fee_raw ::
  "mempool_lib \<Rightarrow> nat \<Rightarrow> (nat \<times> nat \<times> bytes) list \<Rightarrow> node_answers \<Rightarrow> fee_client \<Rightarrow> f64 \<Rightarrow> f64" where
  "estimate_fee_raw lib now incoming node fc fee_floor =
     (let bitcoind_fee = estimate_fee_bitcoind node;
          local_tip = (if fc_mempool_space fc \<noteq> None then node_blocks node else None);
          trusted = (case fc_mempool_space fc of
            Some ms \<Rightarrow>
              (case get_fees_and_height lib now incoming ms of
                 Some (h, fee) \<Rightarrow>
                   if value_trusted (fc_thresholds fc) h fee local_tip bitcoind_fee then Some fee else None
               | None \<Rightarrow> None)
          | None \<Rightarrow> None)
      in case trusted of Some fee \<Rightarrow> fee | None \<Rightarrow> unwrap_or bitcoind_fee fee_floor)"

definition round_to_1_decimal_place :: "f64 \<Rightarrow> f64" where
  "round_to_1_decimal_place x = f64_div (f64_round_away (f64_mul x (Finite 10))) (Finite 10)"

definition estimate_fee ::
  "mempool_lib \<Rightarrow> nat \<Rightarrow> (nat \<times> nat \<times> bytes) list \<Rightarrow> node_answers \<Rightarrow> fee_client \<Rightarrow> f64" where
  "estimate_fee lib now incoming node fc =
     round_to_1_decimal_place (f64_max (estimate_fee_raw lib now incoming node fc (fc_fee_floor fc)) (fc_fee_floor fc))"

subsection \<open>Rounding to one decimal\<close>

text \<open>A rate below \<open>2 ^ 40\<close> changes by little more than half a decimal.\<close>

lemma ulp_bound:
  assumes "0 < y" and "y \<le> 2 ^ k"
  shows "ulp y \<le> 2 powi (max (int k - 52) (-1074))"
proof -
  have "2 powi ilog2 y \<le> y" using assms(1) by (rule ilog2_bounds)
  also note assms(2)
  also have "(2::rat) ^ k < 2 powi (int k + 1)" by (simp add: power_int_add)
  finally have "ilog2 y < int k + 1" by (rule powi_less_exp)
  then show ?thesis using assms(1) unfolding ulp_def by (intro power_int_increasing) auto
qed

lemma fl_abs_error:
  assumes "0 \<le> y" and "y \<le> 2 ^ 44"
  shows "\<bar>fl y - y\<bar> \<le> 1 / 512"
proof (cases "y = 0")
  case False
  with assms have "ulp y \<le> 2 powi (-8)" using ulp_bound [of y 44] by simp
  also have "(2::rat) powi (-8) = 1 / 256" by (simp add: power_int_minus power_int_numeral)
  finally have "ulp y / 2 \<le> 1 / 512" by simp
  with fl_error [of y] show ?thesis by (rule order.trans)
qed simp

lemma f64_round_small: "0 \<le> y \<Longrightarrow> y \<le> 2 ^ 44 \<Longrightarrow> f64_round y = Finite (fl y)"
  by (rule f64_round_Finite) (auto elim: order.trans)

lemma round1_Finite:
  assumes "0 \<le> x" and "x \<le> 2 ^ 40"
  shows "round_to_1_decimal_place (Finite x) = Finite (fl (of_int (round_away (fl (x * 10))) / 10))"
    and "0 \<le> round_away (fl (x * 10))" and "of_int (round_away (fl (x * 10))) \<le> (2::rat) ^ 44"
proof -
  let ?k = "round_away (fl (x * 10))"
  have ten: "0 \<le> x * 10" "x * 10 \<le> 2 ^ 44" using assms by simp_all
  have x10: "f64_mul (Finite x) (Finite 10) = Finite (fl (x * 10))"
    using ten by (simp add: f64_round_small)
  show k0: "0 \<le> ?k" using fl_nonneg [OF ten(1)] by (simp add: round_away_def)
  have "of_int ?k \<le> fl (x * 10) + 1 / 2" using round_away_error [of "fl (x * 10)"] by linarith
  also have "\<dots> \<le> x * 10 + 1" using fl_abs_error [OF ten] by linarith
  also have "\<dots> \<le> 2 ^ 44" using assms(2) by simp
  finally show k1: "of_int ?k \<le> (2::rat) ^ 44" .
  have "f64_round (of_int ?k / 10) = Finite (fl (of_int ?k / 10))"
    using k0 k1 by (intro f64_round_small) simp_all
  then show "round_to_1_decimal_place (Finite x) = Finite (fl (of_int ?k / 10))"
    unfolding round_to_1_decimal_place_def x10 by simp
qed

lemma round1_error:
  assumes "0 \<le> x" and "x \<le> 2 ^ 40"
  obtains y where "round_to_1_decimal_place (Finite x) = Finite y" and "\<bar>y - x\<bar> \<le> 53 / 1000"
proof
  let ?k = "round_away (fl (x * 10))"
  show "round_to_1_decimal_place (Finite x) = Finite (fl (of_int ?k / 10))"
    using assms by (rule round1_Finite)
  have "\<bar>fl (x * 10) - x * 10\<bar> \<le> 1 / 512" using assms by (intro fl_abs_error) simp_all
  moreover have "\<bar>of_int ?k - fl (x * 10)\<bar> \<le> 1 / 2" by (rule round_away_error)
  moreover have "\<bar>fl (of_int ?k / 10) - of_int ?k / 10\<bar> \<le> 1 / 512"
    using round1_Finite(2,3) [OF assms] by (intro fl_abs_error) simp_all
  ultimately show "\<bar>fl (of_int ?k / 10) - x\<bar> \<le> 53 / 1000" by linarith
qed

text \<open>A floor with one decimal is not undercut.\<close>

lemma round_away_tenths:
  assumes "j < 2 ^ 40"
  shows "round_away (fl (fl (of_nat j / 10) * 10)) = int j"
proof -
  have j: "(of_nat j::rat) \<le> 2 ^ 40"
    using assms by (metis less_imp_le of_nat_le_iff of_nat_numeral of_nat_power)
  let ?t = "of_nat j / (10::rat)"
  have t: "\<bar>fl ?t - ?t\<bar> \<le> 1 / 512" using j by (intro fl_abs_error) simp_all
  have "0 \<le> fl ?t" by (rule fl_nonneg) simp
  moreover have "fl ?t * 10 \<le> 2 ^ 40 + 1" using t j by linarith
  then have "fl ?t * 10 \<le> 2 ^ 44" by (rule order.trans) simp
  ultimately have "\<bar>fl (fl ?t * 10) - fl ?t * 10\<bar> \<le> 1 / 512" by (intro fl_abs_error) simp_all
  with t have "\<bar>fl (fl ?t * 10) - of_nat j\<bar> < 1 / 2" by linarith
  then show ?thesis using round_away_near [of "int j"] by simp
qed

lemma f64_le_round:
  assumes "fl lo \<le> fl y" and "0 \<le> lo" and "lo \<le> 2 ^ 1000"
  shows "f64_le (Finite (fl lo)) (f64_round y)"
  using assms fl_not_huge(2) [OF assms(2,3)] by (auto simp: f64_round_def Let_def)

lemma round1_ge:
  assumes j: "j < 2 ^ 40" and x: "f64_le (Finite (fl (of_nat j / 10))) x"
  shows "f64_le (Finite (fl (of_nat j / 10))) (round_to_1_decimal_place x)"
proof (cases x)
  case (Finite a)
  let ?t = "fl (of_nat j / 10)"
  have a: "?t \<le> a" and a0: "0 \<le> ?t" using x Finite by (simp_all add: fl_nonneg)
  have j': "(of_nat j::rat) / 10 \<le> 2 ^ 1000"
  proof -
    from j have "(of_nat j::rat) \<le> 2 ^ 40"
      by (metis less_imp_le of_nat_le_iff of_nat_numeral of_nat_power)
    also have "\<dots> \<le> 10 * 2 ^ 1000" by simp
    finally show ?thesis by simp
  qed
  show ?thesis
  proof (cases "f64_mul (Finite a) (Finite 10)")
    case (Finite b)
    then have b: "b = fl (a * 10)" by (auto simp: f64_round_def Let_def split: if_splits)
    have "int j \<le> round_away b"
      using round_away_mono [OF fl_mono [of "?t * 10" "a * 10"]] a by (simp add: b round_away_tenths [OF j])
    then have "(of_int (int j)::rat) \<le> of_int (round_away b)" by (simp only: of_int_le_iff)
    then have "fl (of_nat j / 10) \<le> fl (of_int (round_away b) / 10)" by (intro fl_mono) simp
    then show ?thesis
      using j' by (simp add: \<open>x = _\<close> round_to_1_decimal_place_def Finite f64_le_round del: f64_mul.simps)
  next
    case (Infinite s)
    moreover have "0 \<le> fl (a * 10)" using a a0 by (intro fl_nonneg) linarith
    then have "- (2 ^ 1024) < fl (a * 10)" by (rule order.strict_trans2 [rotated]) simp
    ultimately have "\<not> s" by (auto simp: f64_round_def Let_def split: if_splits)
    then show ?thesis by (simp add: \<open>x = _\<close> round_to_1_decimal_place_def Infinite del: f64_mul.simps)
  next
    case NaN
    then show ?thesis by (auto simp: f64_round_def Let_def split: if_splits)
  qed
next
  case (Infinite s)
  with x show ?thesis by (simp add: round_to_1_decimal_place_def)
qed (use x in simp)

subsection \<open>The estimate\<close>

lemma value_trusted_ceiling:
  assumes "value_trusted th h fee tip (Some (Finite b))"
    and "f64_mul (max_fee_multiplier th) (Finite b) = Finite m"
    and "f64_add (Finite b) (max_fee_delta th) = Finite d"
  obtains a where "fee = Finite a" and "0 \<le> a" and "a \<le> max m d"
  using assms by (cases fee) (auto simp: value_trusted_def fee_ceiling_def split: if_splits)

lemma estimate_fee_raw_cases:
  "estimate_fee_raw lib now incoming node fc fee_floor = unwrap_or (estimate_fee_bitcoind node) fee_floor \<or>
   (\<exists>ms h. fc_mempool_space fc = Some ms \<and>
      get_fees_and_height lib now incoming ms = Some (h, estimate_fee_raw lib now incoming node fc fee_floor) \<and>
      value_trusted (fc_thresholds fc) h (estimate_fee_raw lib now incoming node fc fee_floor)
        (node_blocks node) (estimate_fee_bitcoind node))"
  by (auto simp: estimate_fee_raw_def Let_def split: option.split)

text \<open>
  C24: while the node answers with an estimate, the fee servers cannot raise the fee above the
  ceiling: whatever they report, the estimate is, up to its rounding to one decimal, a rate between
  the floor and the greatest of the floor, the estimate of the node and the two ceilings set on it.
\<close>

theorem estimate_within_ceiling:
  assumes "fc_fee_floor fc = Finite low" and "0 \<le> low"
    and "estimate_fee_bitcoind node = Some (Finite b)"
    and "f64_mul (max_fee_multiplier (fc_thresholds fc)) (Finite b) = Finite m"
    and "f64_add (Finite b) (max_fee_delta (fc_thresholds fc)) = Finite d"
    and "max (max low b) (max m d) \<le> 2 ^ 40"
  shows "\<exists>x y. estimate_fee lib now incoming node fc = Finite y \<and> \<bar>y - x\<bar> \<le> 53 / 1000 \<and>
               low \<le> x \<and> x \<le> max (max low b) (max m d)"
proof -
  have "\<exists>a. estimate_fee_raw lib now incoming node fc (Finite low) = Finite a \<and> a \<le> max b (max m d)"
    using estimate_fee_raw_cases [of lib now incoming node fc "Finite low"]
  proof (elim disjE exE conjE)
    assume "estimate_fee_raw lib now incoming node fc (Finite low) = unwrap_or (estimate_fee_bitcoind node) (Finite low)"
    with assms(3) show ?thesis by (simp add: unwrap_or_def)
  next
    fix h
    assume "value_trusted (fc_thresholds fc) h (estimate_fee_raw lib now incoming node fc (Finite low))
        (node_blocks node) (estimate_fee_bitcoind node)"
    with value_trusted_ceiling assms(3-5) show ?thesis by (metis le_max_iff_disj)
  qed
  then obtain a where raw: "estimate_fee_raw lib now incoming node fc (Finite low) = Finite a"
    and a: "a \<le> max b (max m d)" by blast
  have "0 \<le> max a low" "max a low \<le> 2 ^ 40" using assms(2,6) a by auto
  then obtain y where "round_to_1_decimal_place (Finite (max a low)) = Finite y" "\<bar>y - max a low\<bar> \<le> 53 / 1000"
    by (rule round1_error)
  moreover have "low \<le> max a low" "max a low \<le> max (max low b) (max m d)" using a by auto
  ultimately show ?thesis
    unfolding estimate_fee_def assms(1) raw f64_max_Finite by blast
qed

text \<open>
  A floor with one decimal, such as the defaults of both chains, is never undercut, whatever
  the node and the servers answer.
\<close>

theorem estimate_at_least_floor:
  assumes "fc_fee_floor fc = f64_round (of_nat j / 10)" and "j < 2 ^ 40"
  shows "f64_le (fc_fee_floor fc) (estimate_fee lib now incoming node fc)"
proof -
  have "(of_nat j::rat) / 10 \<le> 2 ^ 1000"
  proof -
    from assms(2) have "(of_nat j::rat) \<le> 2 ^ 40"
      by (metis less_imp_le of_nat_le_iff of_nat_numeral of_nat_power)
    also have "\<dots> \<le> 10 * 2 ^ 1000" by simp
    finally show ?thesis by simp
  qed
  then have fee_floor: "fc_fee_floor fc = Finite (fl (of_nat j / 10))"
    unfolding assms(1) by (intro f64_round_Finite) simp_all
  have "f64_le (Finite a) (f64_max x (Finite a))" for a x
    by (cases x) (auto simp: f64_max_def)
  then show ?thesis
    unfolding estimate_fee_def fee_floor by (intro round1_ge [OF assms(2)])
qed

text \<open>A floor with more decimals can be undercut: an eighth of a satoshi is rounded down to a tenth.\<close>

lemma floor_of_an_eighth_undercut:
  "round_to_1_decimal_place (Finite (1 / 8)) = Finite (fl (1 / 10)) \<and> fl (1 / 10) < 1 / 8"
proof -
  have "\<bar>fl (5 / 4) - 5 / 4\<bar> \<le> (1 / 512 :: rat)" by (rule fl_abs_error) simp_all
  then have "\<bar>fl (5 / 4) - of_int 1\<bar> < (1 / 2 :: rat)" by linarith
  then have k: "round_away (fl (5 / 4)) = 1" by (rule round_away_near [rotated]) simp
  have "\<bar>fl (1 / 10) - 1 / 10\<bar> \<le> (1 / 512 :: rat)" by (rule fl_abs_error) simp_all
  then have "fl (1 / 10) < (1 / 8 :: rat)" by linarith
  moreover have "round_to_1_decimal_place (Finite (1 / 8)) = Finite (fl (1 / 10))"
    using round1_Finite(1) [of "1 / 8"] by (simp add: k)
  ultimately show ?thesis by simp
qed

text \<open>
  The default client of Bitcoin, one server that reports a rate of 2000000, and a node that
  estimates one coin per thousand bytes.
\<close>

definition example_fee_client :: fee_client where
  "example_fee_client =
     \<lparr> fc_fee_floor = DEFAULT_FEE_FLOOR_BTC, fc_thresholds = mempool_thresholds None,
       fc_mempool_space = Some \<lparr> ms_clients = [client_with 800 (Finite 2000000)] \<rparr> \<rparr>"

definition example_node :: node_answers where
  "example_node = \<lparr> smart_fee = Some (Finite 1), node_blocks = Some 801 \<rparr>"

lemma example_node_fee: "estimate_fee_bitcoind example_node = Some (Finite 100000)"
  using f64_of_u64_exact [of BTC_KVB_SAT_VBYTE_FACTOR]
  by (simp add: estimate_fee_bitcoind_def example_node_def BTC_KVB_SAT_VBYTE_FACTOR_def f64_round_numeral)

lemma example_floor: "fc_fee_floor example_fee_client = Finite (fl (1 / 5))" "0 \<le> fl (1 / 5)" "fl (1 / 5) \<le> 1"
proof -
  have "\<bar>fl (1 / 5) - 1 / 5\<bar> \<le> (1 / 512 :: rat)" by (rule fl_abs_error) simp_all
  then show "0 \<le> fl (1 / 5)" "fl (1 / 5) \<le> 1" by linarith+
  have "f64_round (1 / 5) = Finite (fl (1 / 5))" by (rule f64_round_small) simp_all
  then show "fc_fee_floor example_fee_client = Finite (fl (1 / 5))"
    by (simp add: example_fee_client_def DEFAULT_FEE_FLOOR_BTC_def)
qed

theorem estimate_within_ceiling_witness:
  "\<exists>x y. estimate_fee example_mempool_lib 1 [] example_node example_fee_client = Finite y \<and>
         \<bar>y - x\<bar> \<le> 53 / 1000 \<and> fl (1 / 5) \<le> x \<and> x \<le> max (max (fl (1 / 5)) 100000) (max 1000000 100025)"
  by (rule estimate_within_ceiling [OF example_floor(1,2) example_node_fee])
    (use example_floor(3) in \<open>simp_all add: example_fee_client_def mempool_thresholds_def unwrap_or_def
        DEFAULT_MEMPOOL_MAX_FEE_MULTIPLIER_def DEFAULT_MEMPOOL_MAX_FEE_DELTA_def f64_round_numeral\<close>)

theorem estimate_at_least_floor_witness:
  "f64_le (Finite (fl (1 / 5))) (estimate_fee example_mempool_lib 1 [] example_node example_fee_client)"
proof -
  have "fc_fee_floor example_fee_client = f64_round (of_nat 2 / 10)"
    by (simp add: example_fee_client_def DEFAULT_FEE_FLOOR_BTC_def)
  from estimate_at_least_floor [OF this, of example_mempool_lib 1 "[]" example_node] show ?thesis
    by (simp add: example_floor)
qed

end
