(* ===== verification/Fee_Bumper.thy ===== *)
theory Fee_Bumper
  imports Fee_Estimation Swap_Details
begin

text \<open>
  Replacement of refunds that pay too little, \<open>src/boltzr/src/chain/bumper/engine.rs\<close> and
  \<open>handlers/refund.rs\<close>, over the pending refunds of \<open>src/boltzr/src/db/helpers/refund_transaction.rs\<close>.
  The node, the wallet, the tables of swaps and the encodings are one record of functions; the
  state is the table of refund transactions and the transactions the node accepted.
\<close>

subsection \<open>The table of refund transactions\<close>

datatype refund_status = RefundPending | RefundConfirmed | RefundFailed

fun refund_status_display :: "refund_status \<Rightarrow> string" where
  "refund_status_display RefundPending = ''pending''"
| "refund_status_display RefundConfirmed = ''confirmed''"
| "refund_status_display RefundFailed = ''failed''"

definition refund_status_try_from :: "string \<Rightarrow> (string, refund_status) result" where
  "refund_status_try_from s =
     (if s = ''pending'' then Ok RefundPending else if s = ''confirmed'' then Ok RefundConfirmed
      else if s = ''failed'' then Ok RefundFailed else Err s)"

record refund_transaction =
  rt_swap_id :: string
  rt_symbol :: string
  rt_id :: string
  rt_vin :: "i32 option"
  rt_status :: string

text \<open>\<open>UPDATE ... SET id, vin WHERE swapId\<close>; other columns are kept.\<close>

definition update_transaction_id :: "string \<Rightarrow> string \<Rightarrow> i32 option \<Rightarrow> refund_transaction list \<Rightarrow> refund_transaction list" where
  "update_transaction_id swap_id tx_id vin rows =
     map (\<lambda>r. if rt_swap_id r = swap_id then r\<lparr> rt_id := tx_id, rt_vin := vin \<rparr> else r) rows"

subsection \<open>The environment\<close>

datatype refundable = RefReverse reverse_swap | RefChain chain_swap_info

record ('b, 'e, 'c, 's) bump_env =
  be_symbol :: string
  be_type :: chain_type
  be_network :: network
  be_estimate_fee :: "f64 option"
  be_raw_transaction :: "string \<Rightarrow> string option"
  be_send :: "string \<Rightarrow> bool"
  be_order :: "tx_in list \<Rightarrow> tx_in list"
  be_reverse :: "string \<Rightarrow> reverse_swap option"
  be_chain :: "string \<Rightarrow> chain_swap_info option"
  be_new_address :: "string \<Rightarrow> string option"
  be_query_ok :: bool
  be_update_ok :: "string \<Rightarrow> bool"
  be_script_pubkey :: "'b \<Rightarrow> bytes"
  be_hex :: "bytes \<Rightarrow> string"
  be_cl :: chain_lib
  be_alib :: "('b, 'e) address_lib"
  be_mu :: "('c, 's) musig_lib"
  be_dl :: details_lib
  be_wallet :: wallet
  be_bl :: bitcoin_lib
  be_wl :: wrapper_lib

datatype bump_error =
    BEstimate | BNode | BChain chain_error | BSwapNotFound string | BPair pair_error
  | BElementsRefund string | BDetails details_error | BWallet | BAddress address_error
  | BInput wrapper_error | BConstruct tx_error | BSend | BQuery | BUpdate string

record pending_transaction =
  pt_swap_id :: string
  pt_transaction_id :: string

record bump_state =
  bs_refunds :: "refund_transaction list"
  bs_sent :: "transaction list"

subsection \<open>The refund handler\<close>

definition get_swap :: "('b, 'e, 'c, 's) bump_env \<Rightarrow> string \<Rightarrow> (bump_error, refundable) result" where
  "get_swap env swap_id =
     (case be_reverse env swap_id of
        Some s \<Rightarrow> Ok (RefReverse s)
      | None \<Rightarrow> (case be_chain env swap_id of Some c \<Rightarrow> Ok (RefChain c) | None \<Rightarrow> Err (BSwapNotFound swap_id)))"

fun refundable_symbol :: "refundable \<Rightarrow> (pair_error, string) result" where
  "refundable_symbol (RefReverse s) = rs_refund_symbol s"
| "refundable_symbol (RefChain c) = ci_refund_symbol c"

fun refundable_kind :: "refundable \<Rightarrow> swap_type" where
  "refundable_kind (RefReverse s) = Reverse"
| "refundable_kind (RefChain c) = Chain"

fun refundable_details ::
  "('b, 'e, 'c, 's) bump_env \<Rightarrow> refundable \<Rightarrow> (details_error, wrapper_input) result" where
  "refundable_details env (RefReverse s) =
     rs_refund_details (be_mu env) (be_dl env) (be_wallet env) (be_raw_transaction env) s"
| "refundable_details env (RefChain c) =
     ci_refund_details (be_mu env) (be_dl env) (be_wallet env) (be_raw_transaction env) c"

definition fetch_pending ::
  "('b, 'e, 'c, 's) bump_env \<Rightarrow> refund_transaction list \<Rightarrow> (bump_error, pending_transaction list) result" where
  "fetch_pending env rows =
     (if be_query_ok env
      then Ok (map (\<lambda>r. \<lparr> pt_swap_id = rt_swap_id r, pt_transaction_id = rt_id r \<rparr>)
        (filter (\<lambda>r. rt_status r = refund_status_display RefundPending \<and> rt_symbol r = be_symbol env) rows))
      else Err BQuery)"

definition bump_destination ::
  "('b, 'e, 'c, 's) bump_env \<Rightarrow> refundable \<Rightarrow> string \<Rightarrow> ('b, 'e) address option
    \<Rightarrow> (bump_error, ('b, 'e) address) result" where
  "bump_destination env swap swap_id sweep_address =
     (case sweep_address of
        Some a \<Rightarrow> Ok a
      | None \<Rightarrow>
          r_bind (ok_or BWallet (be_new_address env
            (''Refund of '' @ swap_type_display (refundable_kind swap) @ '' swap '' @ swap_id))) (\<lambda>s.
          r_map_err BAddress (address_try_from (be_alib env) s)))"

text \<open>Everything up to the broadcast.\<close>

definition build_replacement ::
  "('b, 'e, 'c, 's) bump_env \<Rightarrow> pending_transaction \<Rightarrow> f64 \<Rightarrow> ('b, 'e) address option
    \<Rightarrow> (bump_error, transaction) result" where
  "build_replacement env pending fee_target sweep_address =
     r_bind (get_swap env (pt_swap_id pending)) (\<lambda>swap.
     r_bind (r_map_err BPair (refundable_symbol swap)) (\<lambda>symbol.
     if symbol = ELEMENTS_SYMBOL then Err (BElementsRefund (pt_swap_id pending))
     else
       r_bind (r_map_err BDetails (refundable_details env swap)) (\<lambda>details.
       r_bind (bump_destination env swap (pt_swap_id pending) sweep_address) (\<lambda>destination.
       r_bind (r_map_err BInput (into_bitcoin_input details)) (\<lambda>input.
       r_bind (r_map_err BAddress (into_bitcoin_address destination)) (\<lambda>address.
       r_bind (r_map_err BConstruct
         (construct_tx (be_bl env) [input] (Single (be_script_pubkey env address)) (Relative fee_target)))
         (\<lambda>(tx, _). Ok tx)))))))"

definition bump_fee ::
  "('b, 'e, 'c, 's) bump_env \<Rightarrow> pending_transaction \<Rightarrow> f64 \<Rightarrow> ('b, 'e) address option \<Rightarrow> bump_state
    \<Rightarrow> bump_state \<times> (bump_error, string) result" where
  "bump_fee env pending fee_target sweep_address st =
     (case build_replacement env pending fee_target sweep_address of
        Ok tx \<Rightarrow>
          if be_send env (be_hex env (wrapper_serialize (be_wl env) (BitcoinTx tx))) then
            let tx_id = wrapper_txid (be_wl env) (BitcoinTx tx); st1 = st\<lparr> bs_sent := bs_sent st @ [tx] \<rparr>
            in if be_update_ok env tx_id
               then (st1\<lparr> bs_refunds := update_transaction_id (pt_swap_id pending) tx_id (Some 0) (bs_refunds st) \<rparr>, Ok tx_id)
               else (st1, Err (BUpdate tx_id))
          else (st, Err BSend)
      | Err e \<Rightarrow> (st, Err e)
      | Panic \<Rightarrow> (st, Panic))"

subsection \<open>The engine\<close>

definition RBF_MIN_INCREMENT :: f64 where
  "RBF_MIN_INCREMENT = Finite 1"

definition RBF_MIN_BUMP :: f64 where
  "RBF_MIN_BUMP = Finite 2"

definition can_bump :: "f64 \<Rightarrow> f64 \<Rightarrow> bool" where
  "can_bump actual target = f64_le (f64_add actual RBF_MIN_INCREMENT) target"

definition should_bump :: "f64 \<Rightarrow> f64 \<Rightarrow> bool" where
  "should_bump actual target = (can_bump actual target \<and> f64_le (f64_add actual RBF_MIN_BUMP) target)"

definition get_sweep_address :: "('b, 'e, 'c, 's) bump_env \<Rightarrow> chain_tx \<Rightarrow> ('b, 'e) address option" where
  "get_sweep_address env tx =
     (case output_script_pubkeys tx of
        [script] \<Rightarrow>
          (case be_type env of
             TypeBitcoin \<Rightarrow>
               (case from_bitcoin_script (be_alib env) (be_network env) script of Ok a \<Rightarrow> Some a | _ \<Rightarrow> None)
           | TypeElements \<Rightarrow> None)
      | _ \<Rightarrow> None)"

text \<open>The transaction that is checked, with its fee rate.\<close>

definition current_rate ::
  "('b, 'e, 'c, 's) bump_env \<Rightarrow> pending_transaction \<Rightarrow> (bump_error, chain_tx \<times> f64) result" where
  "current_rate env pending =
     r_bind (ok_or BNode (be_raw_transaction env (pt_transaction_id pending))) (\<lambda>hex.
     r_bind (r_map_err BChain (chain_tx_parse_hex (be_cl env) (be_type env) hex)) (\<lambda>tx.
     r_bind (r_map_err BChain (calculate_fee (be_cl env) (be_raw_transaction env) (be_order env) tx)) (\<lambda>fee.
       Ok (tx, f64_div (f64_of_u64 fee) (f64_of_u64 (chain_tx_vsize (be_cl env) tx))))))"

definition bumper_check_transaction ::
  "('b, 'e, 'c, 's) bump_env \<Rightarrow> pending_transaction \<Rightarrow> f64 \<Rightarrow> bump_state
    \<Rightarrow> bump_state \<times> (bump_error, unit) result" where
  "bumper_check_transaction env pending fee_target st =
     (case current_rate env pending of
        Ok (tx, rate) \<Rightarrow>
          if \<not> should_bump rate fee_target then (st, Ok ())
          else (case bump_fee env pending fee_target (get_sweep_address env tx) st of
                  (st', r) \<Rightarrow> (st', r_map (\<lambda>_. ()) r))
      | Err e \<Rightarrow> (st, Err e)
      | Panic \<Rightarrow> (st, Panic))"

text \<open>The loop logs errors and goes on; a panic ends the task.\<close>

fun check_all ::
  "('b, 'e, 'c, 's) bump_env \<Rightarrow> f64 \<Rightarrow> pending_transaction list \<Rightarrow> bump_state
    \<Rightarrow> bump_state \<times> (bump_error, unit) result" where
  "check_all env fee_target [] st = (st, Ok ())"
| "check_all env fee_target (p # ps) st =
     (case bumper_check_transaction env p fee_target st of
        (st', Panic) \<Rightarrow> (st', Panic)
      | (st', _) \<Rightarrow> check_all env fee_target ps st')"

definition bumper_run ::
  "('b, 'e, 'c, 's) bump_env \<Rightarrow> bump_state \<Rightarrow> bump_state \<times> (bump_error, unit) result" where
  "bumper_run env st =
     (case be_estimate_fee env of
        None \<Rightarrow> (st, Err BEstimate)
      | Some fee_target \<Rightarrow>
          (case fetch_pending env (bs_refunds st) of
             Ok ps \<Rightarrow> check_all env fee_target ps st
           | Err e \<Rightarrow> (st, Err e)
           | Panic \<Rightarrow> (st, Panic)))"

text \<open>\<open>start\<close>: one run at every tick until the cancellation; the environment of a tick is its own.\<close>

datatype ('b, 'e, 'c, 's) bumper_event = BumperTick "('b, 'e, 'c, 's) bump_env" | BumperCancelled

fun bumper_loop :: "('b, 'e, 'c, 's) bumper_event list \<Rightarrow> bump_state \<Rightarrow> bump_state" where
  "bumper_loop [] st = st"
| "bumper_loop (BumperCancelled # events) st = st"
| "bumper_loop (BumperTick env # events) st =
     (case bumper_run env st of (st', Panic) \<Rightarrow> st' | (st', _) \<Rightarrow> bumper_loop events st')"

definition bumper_start :: "chain_type \<Rightarrow> ('b, 'e, 'c, 's) bumper_event list \<Rightarrow> bump_state \<Rightarrow> bump_state" where
  "bumper_start t events st = (case t of TypeElements \<Rightarrow> st | TypeBitcoin \<Rightarrow> bumper_loop events st)"

subsection \<open>What a run sends\<close>

lemma refund_status_roundtrip [simp]: "refund_status_try_from (refund_status_display s) = Ok s"
  by (cases s) (simp_all add: refund_status_try_from_def)

fun refundable_columns :: "refundable \<Rightarrow> lockup_columns" where
  "refundable_columns (RefReverse s) = rs_columns s"
| "refundable_columns (RefChain c) = cd_columns (ci_sending c)"

text \<open>
  A transaction that may replace a pending refund: it was built for the target rate, the refund pays
  at least two satoshis per virtual byte less, its only input is the lockup of the same swap, and its
  only output is to the script of the refund's output where that is known.
\<close>

definition replaces :: "('b, 'e, 'c, 's) bump_env \<Rightarrow> f64 \<Rightarrow> pending_transaction \<Rightarrow> transaction \<Rightarrow> bool" where
  "replaces env target p tx \<longleftrightarrow>
     (\<exists>old rate swap input dest fee.
        current_rate env p = Ok (old, rate) \<and> f64_le (f64_add rate RBF_MIN_BUMP) target \<and>
        get_swap env (pt_swap_id p) = Ok swap \<and>
        spends_lockup (be_dl env) (be_wallet env) (be_raw_transaction env) (refundable_columns swap) (BitcoinInput input) \<and>
        construct_tx (be_bl env) [input] (Single dest) (Relative target) = Ok (tx, fee) \<and>
        map previous_output (tx_inputs tx) = [prev_outpoint input] \<and>
        map out_script (tx_outputs tx) = [dest] \<and>
        (\<forall>a. get_sweep_address env old = Some (BitcoinAddress a) \<longrightarrow> dest = be_script_pubkey env a))"

lemma refundable_details_spend:
  "refundable_details env swap = Ok d \<Longrightarrow>
     spends_lockup (be_dl env) (be_wallet env) (be_raw_transaction env) (refundable_columns swap) d"
  by (cases swap) (auto dest: reverse_refund.spends chain_refund.spends)

lemma construct_single:
  assumes "construct_tx bl [input] (Single dest) ft = Ok (tx, fee)"
  shows "map previous_output (tx_inputs tx) = [prev_outpoint input]" and "map out_script (tx_outputs tx) = [dest]"
proof -
  have raw: "construct_raw bl [input] (Single dest) fee = Ok tx"
    using construct_tx_raw [OF assms] by simp
  from construct_raw_previous_outputs [OF this]
  show "map previous_output (tx_inputs tx) = [prev_outpoint input]" by simp
  from raw obtain s where "construct_outputs bl s (Single dest) fee = Ok (tx_outputs tx)"
    by (rule construct_raw_Ok)
  from construct_outputs_order [OF this] show "map out_script (tx_outputs tx) = [dest]" by simp
qed

lemma build_replacement_replaces:
  assumes "build_replacement env p target (get_sweep_address env old) = Ok tx"
    and "current_rate env p = Ok (old, rate)" and "should_bump rate target"
  shows "replaces env target p tx"
proof -
  from assms(1) obtain swap d input dest address fee where
    s: "get_swap env (pt_swap_id p) = Ok swap" and d: "refundable_details env swap = Ok d"
    and dest: "bump_destination env swap (pt_swap_id p) (get_sweep_address env old) = Ok dest"
    and input: "into_bitcoin_input d = Ok input" and address: "into_bitcoin_address dest = Ok address"
    and tx: "construct_tx (be_bl env) [input] (Single (be_script_pubkey env address)) (Relative target) = Ok (tx, fee)"
    by (auto simp: build_replacement_def split: if_splits)
  from input have "d = BitcoinInput input" by (cases d) auto
  moreover have "a = address" if "get_sweep_address env old = Some (BitcoinAddress a)" for a
    using dest address that by (auto simp: bump_destination_def)
  ultimately show ?thesis
    using s refundable_details_spend [OF d] tx construct_single [OF tx] assms(2,3)
    unfolding replaces_def should_bump_def by metis
qed

text \<open>What a step may do to the state: send replacements, and note the ids of those in the table.\<close>

definition row_follows ::
  "('b, 'e, 'c, 's) bump_env \<Rightarrow> f64 \<Rightarrow> transaction list \<Rightarrow> refund_transaction \<Rightarrow> refund_transaction \<Rightarrow> bool" where
  "row_follows env target txs r r' \<longleftrightarrow> r' = r \<or>
     (\<exists>p tx. tx \<in> set txs \<and> replaces env target p tx \<and> pt_swap_id p = rt_swap_id r \<and>
        r' = r\<lparr> rt_id := btc_txid (be_wl env) tx, rt_vin := Some 0 \<rparr>)"

definition bumped :: "('b, 'e, 'c, 's) bump_env \<Rightarrow> f64 \<Rightarrow> pending_transaction set \<Rightarrow> bump_state \<Rightarrow> bump_state \<Rightarrow> bool" where
  "bumped env target ps st st' \<longleftrightarrow>
     (\<exists>txs. bs_sent st' = bs_sent st @ txs \<and> (\<forall>tx \<in> set txs. \<exists>p \<in> ps. replaces env target p tx) \<and>
        list_all2 (row_follows env target txs) (bs_refunds st) (bs_refunds st'))"

lemma bumped_refl [simp]: "bumped env target ps st st"
  unfolding bumped_def by (rule exI [of _ "[]"]) (simp add: list.rel_refl row_follows_def)

lemma row_follows_trans:
  "row_follows env target txs r r' \<Longrightarrow> row_follows env target txs' r' r'' \<Longrightarrow> row_follows env target (txs @ txs') r r''"
  unfolding row_follows_def by fastforce

lemma bumped_trans:
  assumes "bumped env target ps st st'" and "bumped env target ps st' st''"
  shows "bumped env target ps st st''"
proof -
  from assms obtain txs txs' where
    "bs_sent st' = bs_sent st @ txs" "\<forall>tx \<in> set txs. \<exists>p \<in> ps. replaces env target p tx"
    "list_all2 (row_follows env target txs) (bs_refunds st) (bs_refunds st')"
    "bs_sent st'' = bs_sent st' @ txs'" "\<forall>tx \<in> set txs'. \<exists>p \<in> ps. replaces env target p tx"
    "list_all2 (row_follows env target txs') (bs_refunds st') (bs_refunds st'')"
    unfolding bumped_def by blast
  then show ?thesis
    unfolding bumped_def
    by (intro exI [of _ "txs @ txs'"]) (auto intro: list_all2_trans [OF row_follows_trans])
qed

lemma check_transaction_bumped:
  assumes "bumper_check_transaction env p target st = (st', r)" and "p \<in> ps"
  shows "bumped env target ps st st'"
proof (cases "st' = st")
  case False
  with assms(1) obtain old rate r0 where c: "current_rate env p = Ok (old, rate)" "should_bump rate target"
    and b: "bump_fee env p target (get_sweep_address env old) st = (st', r0)"
    by (auto simp: bumper_check_transaction_def split: result.splits prod.splits if_splits)
  from b False obtain tx where tx: "build_replacement env p target (get_sweep_address env old) = Ok tx"
    and sent: "bs_sent st' = bs_sent st @ [tx]"
    and rows: "bs_refunds st' = bs_refunds st \<or>
      bs_refunds st' = update_transaction_id (pt_swap_id p) (btc_txid (be_wl env) tx) (Some 0) (bs_refunds st)"
    by (auto simp: bump_fee_def Let_def split: result.splits if_splits)
  from tx c have rep: "replaces env target p tx" by (rule build_replacement_replaces)
  have "list_all2 (row_follows env target [tx]) (bs_refunds st) (bs_refunds st')"
    using rows
  proof
    assume "bs_refunds st' = bs_refunds st"
    then show ?thesis by (simp add: list.rel_refl row_follows_def)
  next
    assume "bs_refunds st' = update_transaction_id (pt_swap_id p) (btc_txid (be_wl env) tx) (Some 0) (bs_refunds st)"
    then show ?thesis using rep by (auto simp: update_transaction_id_def list_all2_conv_all_nth row_follows_def)
  qed
  with sent rep assms(2) show ?thesis unfolding bumped_def by (intro exI [of _ "[tx]"]) auto
qed simp

lemma check_all_bumped:
  "check_all env target pending st = (st', r) \<Longrightarrow> set pending \<subseteq> ps \<Longrightarrow> bumped env target ps st st'"
proof (induction env target pending st arbitrary: st' r rule: check_all.induct)
  case (2 env target p pending st)
  obtain st1 r1 where one: "bumper_check_transaction env p target st = (st1, r1)" by fastforce
  have b: "bumped env target ps st st1" using check_transaction_bumped [OF one] "2.prems"(2) by simp
  show ?case
  proof (cases "r1 = Panic")
    case True
    with "2.prems"(1) one b show ?thesis by simp
  next
    case False
    with "2.prems" one have "check_all env target pending st1 = (st', r)" by (cases r1) auto
    with False "2.IH" one "2.prems"(2) have "bumped env target ps st1 st'" by (cases r1) auto
    with b show ?thesis by (rule bumped_trans)
  qed
qed simp


subsection \<open>An example run\<close>

definition example_refund_tx :: transaction where
  "example_refund_tx = \<lparr>tx_version = 2, tx_lock_time = 0,
     tx_inputs = [\<lparr>previous_output = \<lparr>txid = [9], vout = 0\<rparr>, script_sig = [], sequence = 0, witness = []\<rparr>],
     tx_outputs = [\<lparr>amount = 4900, out_script = [3]\<rparr>]\<rparr>"

definition example_bump_env :: "(bytes, unit, unit, unit) bump_env" where
  "example_bump_env =
     \<lparr> be_symbol = ''BTC'', be_type = TypeBitcoin, be_network = Mainnet, be_estimate_fee = Some (Finite 10),
       be_raw_transaction = (\<lambda>_. Some []), be_send = (\<lambda>_. True), be_order = id,
       be_reverse = (\<lambda>s. if s = ''s'' then Some example_refundable else None), be_chain = (\<lambda>_. None),
       be_new_address = (\<lambda>_. None), be_query_ok = True, be_update_ok = (\<lambda>_. True),
       be_script_pubkey = id, be_hex = (\<lambda>_. []),
       be_cl = example_chain_lib\<lparr> cl_btc_deserialize := \<lambda>_. Some example_refund_tx \<rparr>,
       be_alib = \<lparr> parse_bitcoin = (\<lambda>_. None), parse_elements = (\<lambda>_. None), print_bitcoin = (\<lambda>_. []),
         print_elements = (\<lambda>_. []), bitcoin_from_script = (\<lambda>s n. Some s), elements_from_script = (\<lambda>_ _ _. None),
         public_key_from_slice = Some \<rparr>,
       be_mu = example_musig, be_dl = example_dl, be_wallet = example_wallet, be_bl = example_bl,
       be_wl = \<lparr> btc_txid = (\<lambda>_. ''new''), lq_txid = (\<lambda>_. []), btc_serialize = (\<lambda>_. []), lq_serialize = (\<lambda>_. []) \<rparr> \<rparr>"

definition example_refund_row :: refund_transaction where
  "example_refund_row = \<lparr> rt_swap_id = ''s'', rt_symbol = ''BTC'', rt_id = ''old'', rt_vin = Some 0, rt_status = ''pending'' \<rparr>"

lemma example_rate:
  "current_rate example_bump_env \<lparr> pt_swap_id = ''s'', pt_transaction_id = ''old'' \<rparr>
     = Ok (TxBitcoin example_refund_tx, Finite 0)"
proof -
  have "f64_of_u64 0 = Finite 0" "f64_of_u64 100 = Finite 100"
    using f64_of_u64_exact [of 0] f64_of_u64_exact [of 100] by simp_all
  moreover have "f64_round 0 = Finite 0" using f64_round_of_nat [of 0] by simp
  ultimately show ?thesis
    by (simp add: current_rate_def example_bump_env_def chain_tx_parse_hex_def example_chain_lib_def
        input_amount_def example_refund_tx_def checked_sub_def Let_def)
qed

lemma example_bumped_fee: "f64_to_u64 (f64_ceil (f64_mul (f64_of_u64 151) (Finite 10))) = 1510"
proof -
  have "f64_of_u64 151 = Finite 151" using f64_of_u64_exact [of 151] by simp
  then show ?thesis by (simp add: u64_max_def f64_round_numeral)
qed

definition example_refund_detail :: input_detail where
  "example_refund_detail = \<lparr>input_kind = Refund 800000, output_kind = SegwitV0 [],
     prev_outpoint = \<lparr>txid = rev (example_bytes ''ab''), vout = 1\<rparr>,
     prev_out = \<lparr>amount = 5000, out_script = [0, 20]\<rparr>, keys = [7]\<rparr>"

lemma example_replacement_built:
  obtains est tx where "construct_raw example_bl [example_refund_detail] (Single [3]) 1 = Ok est"
    and "construct_tx example_bl [example_refund_detail] (Single [3]) (Relative (Finite 10)) = Ok (tx, 1510)"
proof -
  have raw: "\<exists>tx. construct_raw example_bl [example_refund_detail] (Single [3]) fee = Ok tx \<and> tx_input_len tx = 1"
    if "fee \<le> 5000" for fee
    using that
    by (simp add: construct_raw_def example_refund_detail_def example_bl_def construct_lock_time_def
        map_filter_simps checked_sub_def u64_max_def sign_input_def input_script_sig_def input_witness_def
        segwit_witness_def legacy_signature_def tx_input_len_def)
  from raw [of 1] raw [of 1510] obtain est tx where
    est: "construct_raw example_bl [example_refund_detail] (Single [3]) 1 = Ok est" "tx_input_len est = 1"
    and "construct_raw example_bl [example_refund_detail] (Single [3]) 1510 = Ok tx" by auto
  moreover have "tx_vsize example_bl est = 150" by (simp add: example_bl_def)
  ultimately have "construct_tx example_bl [example_refund_detail] (Single [3]) (Relative (Finite 10)) = Ok (tx, 1510)"
    using example_bumped_fee by (simp add: construct_tx_def del: f64_mul.simps f64_ceil.simps)
  with est show ?thesis by (intro that)
qed

lemma example_replacement:
  "\<exists>tx. build_replacement example_bump_env \<lparr> pt_swap_id = ''s'', pt_transaction_id = ''old'' \<rparr> (Finite 10)
     (get_sweep_address example_bump_env (TxBitcoin example_refund_tx)) = Ok tx"
proof -
  obtain tx where "construct_tx example_bl [example_refund_detail] (Single [3]) (Relative (Finite 10)) = Ok (tx, 1510)"
    by (rule example_replacement_built)
  moreover have "get_sweep_address example_bump_env (TxBitcoin example_refund_tx) = Some (BitcoinAddress [3])"
    by (simp add: get_sweep_address_def example_bump_env_def example_refund_tx_def from_bitcoin_script_def)
  moreover have "rs_refund_symbol example_refundable = Ok ''BTC''"
    by (simp add: rs_refund_symbol_def rs_chain_symbol_def example_refundable_def pair_side_def split_pair_def)
  moreover have "into_bitcoin_input example_refund_input = Ok example_refund_detail"
    by (simp add: example_refund_input_def example_refund_detail_def)
  ultimately show ?thesis
    using example_refund_details [of example_musig "\<lambda>_. Some []"]
    by (auto simp: build_replacement_def get_swap_def example_bump_env_def ELEMENTS_SYMBOL_def
        bump_destination_def)
qed


subsection \<open>A replacement is not replaced again at the same target\<close>

lemma should_bump_Finite:
  assumes "should_bump (Finite a) (Finite t)" and "0 \<le> a" and "t \<le> 2 ^ 40"
  shows "a < t"
proof (rule ccontr)
  assume "\<not> a < t"
  then have ta: "t + 2 \<le> a + 2" by simp
  have fin: "f64_le (f64_round (a + 2)) (Finite t)"
    using assms(1) by (simp add: should_bump_def RBF_MIN_BUMP_def)
  then have le: "fl (a + 2) \<le> t \<or> fl (a + 2) \<le> - (2 ^ 1024)"
    by (auto simp: f64_round_def Let_def split: if_splits)
  show False
  proof (cases "0 \<le> t")
    case True
    then have "\<bar>fl (t + 2) - (t + 2)\<bar> \<le> 1 / 512" using assms(3) by (intro fl_abs_error) simp_all
    then have "t < fl (t + 2)" by linarith
    also have "\<dots> \<le> fl (a + 2)" using ta by (rule fl_mono)
    finally have "t < fl (a + 2)" .
    moreover have "- (2 ^ 1024) < t" using True by (rule order.strict_trans2 [rotated]) simp
    ultimately show False using le by linarith
  next
    case False
    have "\<bar>fl 2 - 2\<bar> \<le> (1 / 512 :: rat)" by (rule fl_abs_error) simp_all
    moreover have "fl 2 \<le> fl (a + 2)" using assms(2) by (intro fl_mono) simp
    ultimately have "0 < fl (a + 2)" by linarith
    moreover have "- (2 ^ 1024) < (0::rat)" by simp
    ultimately show False using le False by linarith
  qed
qed

lemma rate_of_paid_fee:
  assumes v: "0 < unat v" "unat v < 2 ^ 53" and fee: "unat fee < 2 ^ 53"
    and paid: "of_nat (unat v) * r \<le> of_nat (unat fee)" and r: "representable r"
  obtains a where "f64_div (f64_of_u64 fee) (f64_of_u64 v) = Finite a" and "0 \<le> a" and "r \<le> a"
proof
  let ?q = "of_nat (unat fee) / of_nat (unat v) :: rat"
  have q0: "0 \<le> ?q" by simp
  have "?q \<le> of_nat (unat fee)" using v(1) by (simp add: divide_le_eq mult_le_cancel_left1)
  also have "\<dots> \<le> of_nat (2 ^ 53)" using fee by (simp only: of_nat_le_iff)
  also have "\<dots> \<le> 2 ^ 1000" by simp
  finally have q1: "?q \<le> 2 ^ 1000" .
  show "f64_div (f64_of_u64 fee) (f64_of_u64 v) = Finite (fl ?q)"
    using v f64_round_Finite [OF q0 q1]
    by (simp add: f64_of_u64_exact [OF v(2)] f64_of_u64_exact [OF fee] unat_gt_0)
  show "0 \<le> fl ?q" using q0 by (rule fl_nonneg)
  have "r \<le> ?q" using paid v(1) by (simp add: le_divide_eq mult.commute)
  then have "fl r \<le> fl ?q" by (rule fl_mono)
  then show "r \<le> fl ?q" by (simp add: representable_fl [OF r])
qed

text \<open>
  The rate of a replacement is at least the target it was built for, so the bumper leaves it
  alone until the target rises: if the transaction is as large as the one that was built to measure
  its size, a check with the same target finds no bump to be due.
\<close>

theorem replacement_settles:
  assumes "construct_tx bl [input] (Single dest) (Relative (Finite r)) = Ok (tx, fee)"
    and "construct_raw bl [input] (Single dest) 1 = Ok est" and "tx_vsize bl tx = tx_vsize bl est"
    and "0 < unat (tx_vsize bl tx)" and "unat (tx_vsize bl tx) < 2 ^ 32" and "unat fee < 2 ^ 53"
    and "representable r" and "min_normal \<le> r" and "r \<le> 2 ^ 30"
  shows "\<not> should_bump (f64_div (f64_of_u64 fee) (f64_of_u64 (tx_vsize bl tx))) (Finite r)"
proof -
  let ?v = "tx_vsize bl est"
  have one: "tx_input_len est = 1"
    using construct_raw_length [OF assms(2)] by (simp add: tx_input_len_def)
  from assms(1) have fee: "fee = f64_to_u64 (f64_ceil (f64_mul (f64_of_u64 (?v + 1)) (Finite r)))"
    unfolding construct_tx_def Let_def
    by (rule target_fee_relative_estimate) (use assms(2) one in simp)
  have small: "unat ?v + unat (1::u64) \<le> 2 ^ 32" using assms(3,5) by simp
  then have "(of_nat (unat ?v + unat (1::u64)) :: rat) \<le> of_nat (2 ^ 32)" by (simp only: of_nat_le_iff)
  moreover have "0 \<le> r" using assms(8) min_normal_pos by linarith
  ultimately have "of_nat (unat ?v + unat (1::u64)) * r \<le> of_nat (2 ^ 32) * 2 ^ 30"
    using assms(9) by (intro mult_mono) simp_all
  also have "\<dots> \<le> (2 ^ 63 :: rat)" by simp
  finally have "of_nat (unat ?v) * r \<le> of_nat (unat fee)"
    unfolding fee using small assms(8) by (intro relative_fee_ge) simp_all
  then obtain a where a: "f64_div (f64_of_u64 fee) (f64_of_u64 ?v) = Finite a" "0 \<le> a" "r \<le> a"
    using assms(3-7) by (elim rate_of_paid_fee [rotated 3]) simp_all
  have "r \<le> 2 ^ 40" using assms(9) by (rule order.trans) simp
  with a should_bump_Finite [of a r] show ?thesis by (auto simp: assms(3))
qed

theorem replacement_settles_witness:
  "\<exists>tx. construct_tx example_bl [example_refund_detail] (Single [3]) (Relative (Finite 10)) = Ok (tx, 1510) \<and>
     \<not> should_bump (f64_div (f64_of_u64 1510) (f64_of_u64 (tx_vsize example_bl tx))) (Finite 10)"
proof -
  obtain est tx where est: "construct_raw example_bl [example_refund_detail] (Single [3]) 1 = Ok est"
    and tx: "construct_tx example_bl [example_refund_detail] (Single [3]) (Relative (Finite 10)) = Ok (tx, 1510)"
    by (rule example_replacement_built)
  have v: "tx_vsize example_bl t = 150" for t by (simp add: example_bl_def)
  have "representable 10" using representable_of_nat [of 10] by simp
  with replacement_settles [OF tx est] tx min_normal_le_1 show ?thesis by (auto simp: v)
qed

end
