(* ===== verification/Zero_Conf_Tool.thy ===== *)
theory Zero_Conf_Tool
  imports Chain_Utils "HOL-Library.Multiset"
begin

text \<open>
  The two clients of the 0-conf tool of Liquid, \<open>src/boltzr/src/chain/elements/zero_conf_tool\<close>
  (\<open>http.rs\<close>, \<open>ws/mod.rs\<close>, \<open>ws/state.rs\<close>, \<open>ws/connection.rs\<close>, \<open>shared.rs\<close>). A listener is the number of a oneshot
  channel; the answers that were sent are a log. Instants are nanoseconds. The order of iteration
  of the concurrent maps, what the server replies and whether sending fails are part of the events.
\<close>

subsection \<open>Shared\<close>

record bridge_data =
  bridge_seen :: u64
  bridge_total :: u64

type_synonym observations = "bridge_data option"

datatype decision = Accept | Pending

definition evaluate :: "observations option \<Rightarrow> decision" where
  "evaluate obs =
     (case obs of
        Some (Some b) \<Rightarrow> if bridge_seen b > 0 \<and> bridge_seen b = bridge_total b then Accept else Pending
      | _ \<Rightarrow> Pending)"

type_synonym answer_log = "(nat \<times> bool) list"

definition send_all :: "bool \<Rightarrow> nat list \<Rightarrow> answer_log" where
  "send_all safe senders = map (\<lambda>n. (n, safe)) senders"

subsection \<open>Over HTTP\<close>

record http_tx =
  hx_retries :: u64
  hx_senders :: "nat list"

record http_tool =
  ht_max_retries :: u64
  ht_to_check :: "string \<rightharpoonup> http_tx"
  ht_answers :: answer_log

definition HTTP_DEFAULT_MAX_RETRIES :: u64 where
  "HTTP_DEFAULT_MAX_RETRIES = 60"

definition http_tool_new :: "u64 option \<Rightarrow> http_tool" where
  "http_tool_new retries =
     \<lparr> ht_max_retries = (case retries of Some r \<Rightarrow> r | None \<Rightarrow> HTTP_DEFAULT_MAX_RETRIES),
       ht_to_check = Map.empty, ht_answers = [] \<rparr>"

definition http_check_transaction :: "nat \<Rightarrow> string \<Rightarrow> http_tool \<Rightarrow> http_tool" where
  "http_check_transaction n tx_id s =
     (let entry = (case ht_to_check s tx_id of Some e \<Rightarrow> e | None \<Rightarrow> \<lparr> hx_retries = 0, hx_senders = [] \<rparr>)
      in s\<lparr> ht_to_check := (ht_to_check s)(tx_id \<mapsto> entry\<lparr> hx_senders := hx_senders entry @ [n] \<rparr>) \<rparr>)"

definition http_drain :: "bool \<Rightarrow> string \<Rightarrow> http_tx \<Rightarrow> http_tool \<Rightarrow> http_tool" where
  "http_drain safe tx_id entry s =
     s\<lparr> ht_to_check := (ht_to_check s)(tx_id \<mapsto> entry\<lparr> hx_senders := [] \<rparr>),
        ht_answers := ht_answers s @ send_all safe (hx_senders entry) \<rparr>"

text \<open>
  The loop of \<open>check\<close> over the entries; \<open>None\<close> is a request that failed. It returns the keys to
  remove and whether it went through.
\<close>

fun http_check_loop ::
  "(string \<Rightarrow> observations option option) \<Rightarrow> string list \<Rightarrow> http_tool \<Rightarrow> http_tool \<times> string list \<times> bool"
where
  "http_check_loop reply [] s = (s, [], True)"
| "http_check_loop reply (tx_id # rest) s =
     (case ht_to_check s tx_id of
        None \<Rightarrow> http_check_loop reply rest s
      | Some entry \<Rightarrow>
          (case reply tx_id of
             None \<Rightarrow> (s, [], False)
           | Some obs \<Rightarrow>
               if evaluate obs = Accept then
                 (case http_check_loop reply rest (http_drain True tx_id entry s) of
                    (s', removed, ok) \<Rightarrow> (s', tx_id # removed, ok))
               else if hx_retries entry + 1 \<ge> ht_max_retries s then
                 (case http_check_loop reply rest (http_drain False tx_id entry s) of
                    (s', removed, ok) \<Rightarrow> (s', tx_id # removed, ok))
               else http_check_loop reply rest
                 (s\<lparr> ht_to_check := (ht_to_check s)(tx_id \<mapsto> entry\<lparr> hx_retries := hx_retries entry + 1 \<rparr>) \<rparr>)))"

definition http_remove :: "string list \<Rightarrow> http_tool \<Rightarrow> http_tool" where
  "http_remove removed s = s\<lparr> ht_to_check := (ht_to_check s) |` (- set removed) \<rparr>"

text \<open>The error branch of \<open>start\<close>: everybody is told no, and all entries go.\<close>

fun http_drain_all :: "string list \<Rightarrow> http_tool \<Rightarrow> http_tool" where
  "http_drain_all [] s = s"
| "http_drain_all (tx_id # rest) s =
     (case ht_to_check s tx_id of
        None \<Rightarrow> http_drain_all rest s
      | Some entry \<Rightarrow> http_drain_all rest (http_drain False tx_id entry s))"

definition http_reject_all :: "string list \<Rightarrow> http_tool \<Rightarrow> http_tool" where
  "http_reject_all keys_in_order s = (http_drain_all keys_in_order s)\<lparr> ht_to_check := Map.empty \<rparr>"

text \<open>
  One turn of the loop of \<open>start\<close>. Requests that arrive while a check runs are registered before
  the entries it decided are removed.
\<close>

datatype http_event =
    HttpRegister nat string
  | HttpCheck "string list" "string \<Rightarrow> observations option option" "(nat \<times> string) list"

definition http_check ::
  "string list \<Rightarrow> (string \<Rightarrow> observations option option) \<Rightarrow> (nat \<times> string) list \<Rightarrow> http_tool \<Rightarrow> http_tool" where
  "http_check order reply arrivals s =
     (case http_check_loop reply order s of
        (s1, removed, ok) \<Rightarrow>
          let s2 = fold (\<lambda>(n, tx_id). http_check_transaction n tx_id) arrivals s1
          in if ok then http_remove removed s2 else http_reject_all (order @ map snd arrivals) s2)"

fun http_apply :: "http_event \<Rightarrow> http_tool \<Rightarrow> http_tool option" where
  "http_apply (HttpRegister n tx_id) s = Some (http_check_transaction n tx_id s)"
| "http_apply (HttpCheck order reply arrivals) s =
     (if distinct order \<and> set order = dom (ht_to_check s) then Some (http_check order reply arrivals s) else None)"

subsection \<open>Over a WebSocket\<close>

record ws_tx =
  wx_deadline :: nat
  wx_snapshots_seen :: u64
  wx_senders :: "nat list"

text \<open>
  The subscriptions of the open connection, the commands in the channel, and the transactions the
  worker still has to unsubscribe from before it takes the next event.
\<close>

record ws_tool =
  wz_deadline :: nat
  wz_to_check :: "string \<rightharpoonup> ws_tx"
  wz_answers :: answer_log
  wz_commands :: "string list"
  wz_subscribed :: "string set option"
  wz_unsubs :: "string list"

definition DEFAULT_DEADLINE_SECS :: nat where
  "DEFAULT_DEADLINE_SECS = 6"

definition ws_tool_new :: "u64 option \<Rightarrow> ws_tool" where
  "ws_tool_new deadline_secs =
     \<lparr> wz_deadline = (case deadline_secs of Some d \<Rightarrow> unat d | None \<Rightarrow> DEFAULT_DEADLINE_SECS) * 10 ^ 9,
       wz_to_check = Map.empty, wz_answers = [], wz_commands = [], wz_subscribed = None, wz_unsubs = [] \<rparr>"

datatype inbound =
    Subscribed
  | Snapshot string "observations option"
  | Expired string
  | ErrorFrame "string option"

definition ws_remove :: "bool \<Rightarrow> string \<Rightarrow> ws_tool \<Rightarrow> ws_tool" where
  "ws_remove safe tx_id s =
     (case wz_to_check s tx_id of
        None \<Rightarrow> s
      | Some state \<Rightarrow>
          s\<lparr> wz_to_check := (wz_to_check s)(tx_id := None),
             wz_answers := wz_answers s @ send_all safe (wx_senders state) \<rparr>)"

definition reject_and_remove :: "string \<Rightarrow> ws_tool \<Rightarrow> ws_tool" where
  "reject_and_remove tx_id s = ws_remove False tx_id s"

definition handle_snapshot :: "string \<Rightarrow> observations option \<Rightarrow> ws_tool \<Rightarrow> ws_tool \<times> string list" where
  "handle_snapshot tx_id obs s =
     (case evaluate obs of
        Accept \<Rightarrow>
          (case wz_to_check s tx_id of None \<Rightarrow> (s, []) | Some _ \<Rightarrow> (ws_remove True tx_id s, [tx_id]))
      | Pending \<Rightarrow>
          (case wz_to_check s tx_id of
             None \<Rightarrow> (s, [])
           | Some state \<Rightarrow>
               (s\<lparr> wz_to_check := (wz_to_check s)(tx_id \<mapsto> state\<lparr> wx_snapshots_seen := wx_snapshots_seen state + 1 \<rparr>) \<rparr>, [])))"

text \<open>\<open>None\<close> is a message that is no text or that cannot be read.\<close>

fun ws_handle_message :: "inbound option \<Rightarrow> ws_tool \<Rightarrow> ws_tool \<times> string list" where
  "ws_handle_message None s = (s, [])"
| "ws_handle_message (Some Subscribed) s = (s, [])"
| "ws_handle_message (Some (Snapshot tx_id obs)) s = handle_snapshot tx_id obs s"
| "ws_handle_message (Some (Expired tx_id)) s = (reject_and_remove tx_id s, [tx_id])"
| "ws_handle_message (Some (ErrorFrame None)) s = (s, [])"
| "ws_handle_message (Some (ErrorFrame (Some tx_id))) s = (reject_and_remove tx_id s, [tx_id])"

definition expire_deadlines :: "nat \<Rightarrow> string list \<Rightarrow> ws_tool \<Rightarrow> ws_tool \<times> string list" where
  "expire_deadlines now order s =
     (let expired = filter (\<lambda>k. case wz_to_check s k of Some st \<Rightarrow> wx_deadline st \<le> now | None \<Rightarrow> False) order
      in (fold reject_and_remove expired s, expired))"

definition ws_check_transaction :: "nat \<Rightarrow> nat \<Rightarrow> string \<Rightarrow> bool \<Rightarrow> ws_tool \<Rightarrow> ws_tool" where
  "ws_check_transaction now n tx_id worker_alive s =
     (let entry = (case wz_to_check s tx_id of Some e \<Rightarrow> e
            | None \<Rightarrow> \<lparr> wx_deadline = now + wz_deadline s, wx_snapshots_seen = 0, wx_senders = [] \<rparr>);
          s1 = s\<lparr> wz_to_check := (wz_to_check s)(tx_id \<mapsto> entry\<lparr> wx_senders := wx_senders entry @ [n] \<rparr>) \<rparr>
      in if worker_alive then s1\<lparr> wz_commands := wz_commands s1 @ [tx_id] \<rparr> else reject_and_remove tx_id s1)"

definition collect_pending_subscribes :: "string list \<Rightarrow> string set \<Rightarrow> ws_tool \<Rightarrow> string list" where
  "collect_pending_subscribes order subscribed s = filter (\<lambda>k. k \<in> dom (wz_to_check s) \<and> k \<notin> subscribed) order"

text \<open>
  Subscribing to all pending transactions on a fresh connection; \<open>None\<close> when a frame cannot be sent.
\<close>

definition reconcile_subscriptions :: "string list \<Rightarrow> (string \<Rightarrow> bool) \<Rightarrow> ws_tool \<Rightarrow> string set option" where
  "reconcile_subscriptions order sent s =
     (let pending = collect_pending_subscribes order {} s
      in if list_all sent pending then Some (set pending) else None)"

definition subscribe_if_pending :: "bool \<Rightarrow> string \<Rightarrow> string set \<Rightarrow> ws_tool \<Rightarrow> string set option" where
  "subscribe_if_pending sent tx_id subscribed s =
     (if tx_id \<notin> dom (wz_to_check s) \<or> tx_id \<in> subscribed then Some subscribed
      else if sent then Some (insert tx_id subscribed) else None)"

text \<open>
  What happens to a tool: requests at any time, and the events of its worker, which depend on
  whether it is connected. A lost connection drops the transactions to unsubscribe from. A request
  is one event: that the worker runs between its entry and its command is left out.
\<close>

datatype ws_tool_event =
    WsRegister nat nat string bool
  | WsConnect "string list" "string \<Rightarrow> bool"
  | WsIncoming "inbound option"
  | WsUnsubscribe bool
  | WsCommand bool
  | WsTick nat "string list"
  | WsRotate "string list" "string \<Rightarrow> bool"
  | WsLost

fun ws_apply :: "ws_tool_event \<Rightarrow> ws_tool \<Rightarrow> ws_tool option" where
  "ws_apply (WsRegister now n tx_id worker_alive) s = Some (ws_check_transaction now n tx_id worker_alive s)"
| "ws_apply (WsConnect order sent) s =
     (if wz_subscribed s = None \<and> set order = dom (wz_to_check s)
      then Some (s\<lparr> wz_subscribed := reconcile_subscriptions order sent s, wz_unsubs := [] \<rparr>) else None)"
| "ws_apply (WsIncoming msg) s =
     (if wz_subscribed s \<noteq> None \<and> wz_unsubs s = []
      then (case ws_handle_message msg s of (s', unsubs) \<Rightarrow> Some (s'\<lparr> wz_unsubs := unsubs \<rparr>)) else None)"
| "ws_apply (WsUnsubscribe sent) s =
     (case (wz_subscribed s, wz_unsubs s) of
        (Some subscribed, tx_id # rest) \<Rightarrow>
          if tx_id \<notin> subscribed then Some (s\<lparr> wz_unsubs := rest \<rparr>)
          else if sent then Some (s\<lparr> wz_subscribed := Some (subscribed - {tx_id}), wz_unsubs := rest \<rparr>)
          else Some (s\<lparr> wz_subscribed := None, wz_unsubs := [] \<rparr>)
      | _ \<Rightarrow> None)"
| "ws_apply (WsCommand sent) s =
     (case (wz_subscribed s, wz_commands s) of
        (Some subscribed, tx_id # rest) \<Rightarrow>
          if wz_unsubs s = []
          then Some (s\<lparr> wz_commands := rest, wz_subscribed := subscribe_if_pending sent tx_id subscribed s \<rparr>) else None
      | _ \<Rightarrow> None)"
| "ws_apply (WsTick now order) s =
     (if distinct order \<and> set order = dom (wz_to_check s) \<and> (wz_subscribed s \<noteq> None \<longrightarrow> wz_unsubs s = [])
      then (case expire_deadlines now order s of
              (s', unsubs) \<Rightarrow> Some (s'\<lparr> wz_unsubs := (if wz_subscribed s = None then [] else unsubs) \<rparr>)) else None)"
| "ws_apply (WsRotate order sent) s =
     (if wz_subscribed s \<noteq> None \<and> wz_unsubs s = [] \<and> set order = dom (wz_to_check s)
      then Some (case reconcile_subscriptions order sent s of
                   Some subscribed \<Rightarrow> s\<lparr> wz_subscribed := Some subscribed \<rparr> | None \<Rightarrow> s) else None)"
| "ws_apply WsLost s = Some (s\<lparr> wz_subscribed := None, wz_unsubs := [] \<rparr>)"

subsection \<open>The choice of the transport\<close>

text \<open>\<open>zero_conf_tool::new\<close>; the scheme of the endpoint is read by the URL library.\<close>

datatype zero_conf_tool = HttpTool http_tool | WsTool ws_tool

datatype zero_conf_tool_error = InvalidEndpoint string | UnsupportedScheme string string

record zero_conf_config =
  zc_endpoint :: string
  zc_max_retries :: "u64 option"
  zc_deadline_secs :: "u64 option"

definition zero_conf_tool_new :: "(string \<Rightarrow> string option) \<Rightarrow> zero_conf_config \<Rightarrow> (zero_conf_tool_error, zero_conf_tool) result" where
  "zero_conf_tool_new url_scheme cfg =
     r_bind (ok_or (InvalidEndpoint (zc_endpoint cfg)) (url_scheme (zc_endpoint cfg))) (\<lambda>scheme.
       if scheme = ''http'' \<or> scheme = ''https'' then Ok (HttpTool (http_tool_new (zc_max_retries cfg)))
       else if scheme = ''ws'' \<or> scheme = ''wss'' then Ok (WsTool (ws_tool_new (zc_deadline_secs cfg)))
       else Err (UnsupportedScheme scheme (zc_endpoint cfg)))"

subsection \<open>Which transactions are safe without a confirmation\<close>

text \<open>
  \<open>ElementsClient::zero_conf_safe\<close>: at once on regtest, by the tool when there is one, else never
  (\<open>ChainClient::zero_conf_safe\<close>); \<open>Ask\<close> is a request to the tool.
\<close>

datatype zero_conf_request = Known bool | Ask string

definition chain_zero_conf_safe :: "chain_tx \<Rightarrow> zero_conf_request" where
  "chain_zero_conf_safe tx = Known False"

definition elements_zero_conf_safe :: "network \<Rightarrow> bool \<Rightarrow> (chain_tx \<Rightarrow> string) \<Rightarrow> chain_tx \<Rightarrow> zero_conf_request" where
  "elements_zero_conf_safe network has_tool txid_hex tx =
     (if network = Regtest then Known True
      else if has_tool then Ask (txid_hex tx) else chain_zero_conf_safe tx)"

subsection \<open>The contract of a tool\<close>

text \<open>The listeners that wait, each with the transaction it waits for.\<close>

definition listeners :: "('v \<Rightarrow> nat list) \<Rightarrow> string \<Rightarrow> 'v option \<Rightarrow> (nat \<times> string) multiset" where
  "listeners senders k x = (case x of None \<Rightarrow> {#} | Some v \<Rightarrow> mset (map (\<lambda>n. (n, k)) (senders v)))"

definition waiting_in :: "('v \<Rightarrow> nat list) \<Rightarrow> (string \<rightharpoonup> 'v) \<Rightarrow> (nat \<times> string) multiset" where
  "waiting_in senders m = (\<Sum>k \<in> dom m. listeners senders k (m k))"

lemma listeners_simps [simp]:
  "listeners senders k None = {#}"
  "listeners senders k (Some v) = mset (map (\<lambda>n. (n, k)) (senders v))"
  by (simp_all add: listeners_def)

lemma waiting_in_empty [simp]: "waiting_in senders Map.empty = {#}"
  by (simp add: waiting_in_def)

lemma waiting_in_split:
  assumes "finite (dom m)"
  shows "waiting_in senders m = waiting_in senders (m(k := None)) + listeners senders k (m k)"
proof (cases "k \<in> dom m")
  case True
  have "waiting_in senders m = listeners senders k (m k) + (\<Sum>j \<in> dom m - {k}. listeners senders j (m j))"
    unfolding waiting_in_def using assms True by (rule sum.remove)
  also have "(\<Sum>j \<in> dom m - {k}. listeners senders j (m j)) = waiting_in senders (m(k := None))"
    unfolding waiting_in_def by (rule sum.cong) auto
  finally show ?thesis by (simp add: union_commute)
next
  case False
  then have "m(k := None) = m" "m k = None" by auto
  then show ?thesis by simp
qed

lemma waiting_in_upd:
  assumes "finite (dom m)"
  shows "waiting_in senders (m(k := x)) + listeners senders k (m k) = waiting_in senders m + listeners senders k x"
  using waiting_in_split [OF assms, of senders k] waiting_in_split [of "m(k := x)" senders k] assms
  by (simp add: union_ac)

definition told :: "((nat \<times> string) \<times> bool) list \<Rightarrow> answer_log" where
  "told new = map (\<lambda>((n, tx_id), safe). (n, safe)) new"

lemma told_simps [simp]:
  "told [] = []" "told (xs @ ys) = told xs @ told ys"
  "told (map (\<lambda>n. ((n, k), safe)) ns) = send_all safe ns"
  by (simp_all add: told_def send_all_def)

lemma told_mem: "(n, safe) \<in> set (told new) \<Longrightarrow> \<exists>tx_id. ((n, tx_id), safe) \<in> set new"
  by (force simp: told_def)

text \<open>Between two states listeners were told something: they had waited, and yes only where permitted.\<close>

definition tells ::
  "(string \<Rightarrow> bool) \<Rightarrow> (nat \<times> string) multiset \<Rightarrow> answer_log \<Rightarrow> (nat \<times> string) multiset \<Rightarrow> answer_log \<Rightarrow> bool" where
  "tells ok w a w' a' \<longleftrightarrow> (\<exists>new. a' = a @ told new \<and> mset (map fst new) + w' \<subseteq># w
     \<and> (\<forall>n tx_id. ((n, tx_id), True) \<in> set new \<longrightarrow> ok tx_id))"

lemma tells_refl [simp]: "tells ok w a w a"
  unfolding tells_def by (intro exI [of _ "[]"]) simp

lemma tells_forget: "w' \<subseteq># w \<Longrightarrow> tells ok w a w' a"
  unfolding tells_def by (intro exI [of _ "[]"]) simp

lemma tells_trans:
  assumes "tells ok w a w' a'" and "tells ok w' a' w'' a''"
  shows "tells ok w a w'' a''"
proof -
  from assms obtain n1 n2 where n: "a'' = a @ told (n1 @ n2)" "mset (map fst n1) + w' \<subseteq># w"
    "mset (map fst n2) + w'' \<subseteq># w'" "\<And>n tx_id. ((n, tx_id), True) \<in> set (n1 @ n2) \<Longrightarrow> ok tx_id"
    unfolding tells_def by fastforce
  have "mset (map fst (n1 @ n2)) + w'' \<subseteq># mset (map fst n1) + w'"
    using n(3) by (simp add: union_assoc subset_mset.add_left_mono)
  also note n(2)
  finally show ?thesis using n(1,4) unfolding tells_def by blast
qed

lemma tells_more: "tells ok w a w' a' \<Longrightarrow> tells ok (w + v) a (w' + v) a'"
  unfolding tells_def by (metis subset_mset.add_right_mono union_assoc)

text \<open>All listeners of an entry are told the same.\<close>

lemma tells_all:
  assumes "w' + mset (map (\<lambda>n. (n, tx_id)) ns) = w" and "safe \<Longrightarrow> ok tx_id"
  shows "tells ok w a w' (a @ send_all safe ns)"
  unfolding tells_def
  using assms by (intro exI [of _ "map (\<lambda>n. ((n, tx_id), safe)) ns"]) (auto simp: comp_def union_commute)

inductive tool_run :: "('e \<Rightarrow> 's \<Rightarrow> 's option) \<Rightarrow> 's \<Rightarrow> 'e list \<Rightarrow> 's \<Rightarrow> bool" for apply_event s0 where
  start: "tool_run apply_event s0 [] s0"
| step: "tool_run apply_event s0 es s \<Longrightarrow> apply_event e s = Some s' \<Longrightarrow> tool_run apply_event s0 (es @ [e]) s'"

inductive_cases tool_runE: "tool_run apply_event s0 es s"

fun tool_exec :: "('e \<Rightarrow> 's \<Rightarrow> 's option) \<Rightarrow> 'e list \<Rightarrow> 's \<Rightarrow> 's option" where
  "tool_exec apply_event [] s = Some s"
| "tool_exec apply_event (e # es) s =
     (case apply_event e s of None \<Rightarrow> None | Some s' \<Rightarrow> tool_exec apply_event es s')"

lemma tool_run_exec:
  assumes "tool_exec apply_event es s = Some s'" and "tool_run apply_event s0 pre s"
  shows "tool_run apply_event s0 (pre @ es) s'"
  using assms
proof (induction es arbitrary: s pre)
  case (Cons e es)
  then obtain s1 where "apply_event e s = Some s1" "tool_exec apply_event es s1 = Some s'"
    by (auto split: option.splits)
  with Cons.IH [of s1 "pre @ [e]"] tool_run.step [OF Cons.prems(2)] show ?case by simp
qed simp

lemmas tool_runI = tool_run_exec [OF _ tool_run.start, simplified]

locale zero_conf_check =
  fixes apply_event :: "'e \<Rightarrow> 's \<Rightarrow> 's option"
    and waiting :: "'s \<Rightarrow> (nat \<times> string) multiset"
    and answers :: "'s \<Rightarrow> answer_log"
    and registered :: "'e \<Rightarrow> (nat \<times> string) list"
    and accepted :: "'e \<Rightarrow> string \<Rightarrow> bool"
    and sound :: "'s \<Rightarrow> bool"
  assumes step_sound: "sound s \<Longrightarrow> apply_event e s = Some s' \<Longrightarrow> sound s'"
    and step_answers: "sound s \<Longrightarrow> apply_event e s = Some s' \<Longrightarrow>
      tells (accepted e) (waiting s + mset (registered e)) (answers s) (waiting s') (answers s')"
begin

definition evidence :: "'e list \<Rightarrow> nat \<Rightarrow> string \<Rightarrow> bool" where
  "evidence es n tx_id \<longleftrightarrow>
     (\<exists>pre e post. es = pre @ e # post \<and> accepted e tx_id \<and> (n, tx_id) \<in> set (concat (map registered (pre @ [e]))))"

lemma evidence_append: "evidence es n tx_id \<Longrightarrow> evidence (es @ es') n tx_id"
  unfolding evidence_def by (metis append_Cons append_assoc)

lemma run_answers:
  assumes "tool_run apply_event s0 es s" and "sound s0" and "answers s0 = []" and "waiting s0 = {#}"
  shows "sound s \<and> (\<exists>log. answers s = told log
      \<and> mset (map fst log) + waiting s \<subseteq># mset (concat (map registered es))
      \<and> (\<forall>n tx_id. ((n, tx_id), True) \<in> set log \<longrightarrow> evidence es n tx_id))"
  using assms(1)
proof induction
  case start
  show ?case using assms(2-4) by (intro conjI exI [of _ "[]"]) simp_all
next
  case (step es s e s')
  then obtain log where s: "sound s" and log: "answers s = told log"
    "mset (map fst log) + waiting s \<subseteq># mset (concat (map registered es))"
    "\<And>n tx_id. ((n, tx_id), True) \<in> set log \<Longrightarrow> evidence es n tx_id" by blast
  from step_answers [OF s step.hyps(2)] obtain new where new: "answers s' = answers s @ told new"
    "mset (map fst new) + waiting s' \<subseteq># waiting s + mset (registered e)"
    "\<And>n tx_id. ((n, tx_id), True) \<in> set new \<Longrightarrow> accepted e tx_id" unfolding tells_def by blast
  have "mset (map fst (log @ new)) + waiting s' \<subseteq># mset (map fst log) + (waiting s + mset (registered e))"
    using new(2) by (simp add: union_assoc subset_mset.add_left_mono)
  also have "\<dots> \<subseteq># mset (concat (map registered es)) + mset (registered e)"
    using log(2) by (simp add: union_assoc [symmetric] subset_mset.add_right_mono)
  finally have sub: "mset (map fst (log @ new)) + waiting s' \<subseteq># mset (concat (map registered (es @ [e])))" by simp
  have "evidence (es @ [e]) n tx_id" if "((n, tx_id), True) \<in> set (log @ new)" for n tx_id
  proof (cases "((n, tx_id), True) \<in> set log")
    case True
    then show ?thesis using log(3) evidence_append by blast
  next
    case False
    with that have "((n, tx_id), True) \<in> set new" by simp
    moreover from this have "(n, tx_id) \<in># mset (map fst (log @ new)) + waiting s'" by force
    with sub have "(n, tx_id) \<in> set (concat (map registered (es @ [e])))" by (metis mset_subset_eqD set_mset_mset)
    ultimately show ?thesis using new(3) unfolding evidence_def by blast
  qed
  then show ?case
    using step_sound [OF s step.hyps(2)] log(1) new(1) sub by (intro conjI exI [of _ "log @ new"]) auto
qed

text \<open>A listener hears at most one answer, and yes only for a transaction it asked for and the tool has seen accepted.\<close>

lemma answers_once:
  assumes "tool_run apply_event s0 es s" and "sound s0" and "answers s0 = []" and "waiting s0 = {#}"
    and "distinct (map fst (concat (map registered es)))"
  shows "distinct (map fst (answers s))"
proof -
  from run_answers [OF assms(1-4)] obtain log where log: "answers s = told log"
    "mset (map fst log) + waiting s \<subseteq># mset (concat (map registered es))" by blast
  have "mset (map fst log) \<subseteq># mset (concat (map registered es))"
    using log(2) by (metis mset_subset_eq_add_left subset_mset.order_trans)
  then have "image_mset fst (mset (map fst log)) \<subseteq># image_mset fst (mset (concat (map registered es)))"
    by (rule image_mset_subseteq_mono)
  moreover have "image_mset fst (mset (map fst log)) = mset (map fst (answers s))"
    by (simp add: log(1) told_def image_mset.compositionality comp_def case_prod_beta)
  ultimately have "mset (map fst (answers s)) \<subseteq># mset (map fst (concat (map registered es)))" by simp
  then obtain zs where "mset (map fst (concat (map registered es))) = mset (map fst (answers s) @ zs)"
    by (metis ex_mset mset_append mset_subset_eq_exists_conv)
  with assms(5) have "distinct (map fst (answers s) @ zs)" using mset_eq_imp_distinct_iff by blast
  then show ?thesis by simp
qed

lemma accepted_with_evidence:
  assumes "tool_run apply_event s0 es s" and "sound s0" and "answers s0 = []" and "waiting s0 = {#}"
    and "(n, True) \<in> set (answers s)"
  shows "\<exists>tx_id. evidence es n tx_id"
  using run_answers [OF assms(1-4)] assms(5) by (metis told_mem)

end

subsection \<open>The client over HTTP keeps the contract\<close>

definition http_waiting :: "http_tool \<Rightarrow> (nat \<times> string) multiset" where
  "http_waiting s = waiting_in hx_senders (ht_to_check s)"

fun http_registered :: "http_event \<Rightarrow> (nat \<times> string) list" where
  "http_registered (HttpRegister n tx_id) = [(n, tx_id)]"
| "http_registered (HttpCheck order reply arrivals) = arrivals"

fun http_accepted :: "http_event \<Rightarrow> string \<Rightarrow> bool" where
  "http_accepted (HttpRegister n t) tx_id = False"
| "http_accepted (HttpCheck order reply arrivals) tx_id = (\<exists>obs. reply tx_id = Some obs \<and> evaluate obs = Accept)"

definition http_sound :: "http_tool \<Rightarrow> bool" where
  "http_sound s = finite (dom (ht_to_check s))"

definition http_tells :: "(string \<Rightarrow> bool) \<Rightarrow> http_tool \<Rightarrow> http_tool \<Rightarrow> bool" where
  "http_tells ok s s' \<longleftrightarrow> http_sound s' \<and> tells ok (http_waiting s) (ht_answers s) (http_waiting s') (ht_answers s')"

lemma http_tells_refl: "http_sound s \<Longrightarrow> http_tells ok s s"
  by (simp add: http_tells_def)

lemma http_tells_trans: "http_tells ok s s' \<Longrightarrow> http_tells ok s' s'' \<Longrightarrow> http_tells ok s s''"
  unfolding http_tells_def by (blast intro: tells_trans)

lemma http_drain_tells:
  assumes "http_sound s" and "ht_to_check s tx_id = Some entry" and "safe \<Longrightarrow> ok tx_id"
  shows "http_tells ok s (http_drain safe tx_id entry s)"
proof -
  have "http_waiting (http_drain safe tx_id entry s) + mset (map (\<lambda>n. (n, tx_id)) (hx_senders entry)) = http_waiting s"
    using waiting_in_upd [of "ht_to_check s" hx_senders tx_id "Some (entry\<lparr> hx_senders := [] \<rparr>)"] assms(1,2)
    by (simp add: http_waiting_def http_drain_def http_sound_def)
  from tells_all [where ok = ok, OF this assms(3)] assms(1) show ?thesis
    by (simp add: http_tells_def http_sound_def http_drain_def)
qed

lemma http_retry_tells:
  assumes "http_sound s" and "ht_to_check s tx_id = Some entry"
  shows "http_tells ok s (s\<lparr> ht_to_check := (ht_to_check s)(tx_id \<mapsto> entry\<lparr> hx_retries := r \<rparr>) \<rparr>)"
proof -
  have "waiting_in hx_senders ((ht_to_check s)(tx_id \<mapsto> entry\<lparr> hx_retries := r \<rparr>)) = http_waiting s"
    using waiting_in_upd [of "ht_to_check s" hx_senders tx_id "Some (entry\<lparr> hx_retries := r \<rparr>)"] assms
    by (simp add: http_waiting_def http_sound_def)
  then show ?thesis using assms(1) by (simp add: http_tells_def http_waiting_def http_sound_def)
qed

text \<open>What the check does with the first entry.\<close>

definition http_retry :: "string \<Rightarrow> http_tx \<Rightarrow> http_tool \<Rightarrow> http_tool" where
  "http_retry k e s = s\<lparr> ht_to_check := (ht_to_check s)(k \<mapsto> e\<lparr> hx_retries := hx_retries e + 1 \<rparr>) \<rparr>"

lemma http_check_loop_ConsE:
  assumes "http_check_loop reply (k # rest) s = (s', removed, went)"
  obtains (absent) "ht_to_check s k = None" and "http_check_loop reply rest s = (s', removed, went)"
  | (failed) e where "ht_to_check s k = Some e" and "s' = s" and "removed = []" and "\<not> went"
  | (decided) e safe removed' where "ht_to_check s k = Some e" and "removed = k # removed'"
      and "http_check_loop reply rest (http_drain safe k e s) = (s', removed', went)"
      and "safe \<Longrightarrow> \<exists>obs. reply k = Some obs \<and> evaluate obs = Accept"
  | (retry) e where "ht_to_check s k = Some e" and "hx_retries e + 1 < ht_max_retries s"
      and "http_check_loop reply rest (http_retry k e s) = (s', removed, went)"
proof (cases "ht_to_check s k")
  case None
  with assms show thesis by (intro absent) simp_all
next
  case (Some e)
  show thesis
  proof (cases "reply k")
    case None
    with assms Some show thesis by (intro failed [OF Some]) simp_all
  next
    case obs: (Some obs)
    consider "evaluate obs = Accept" | "evaluate obs \<noteq> Accept" "hx_retries e + 1 \<ge> ht_max_retries s"
      | "evaluate obs \<noteq> Accept" "\<not> hx_retries e + 1 \<ge> ht_max_retries s" by blast
    then show thesis
    proof cases
      case 1
      with assms Some obs show thesis by (auto intro: decided [OF Some, of _ True] split: prod.splits)
    next
      case 2
      with assms Some obs show thesis by (auto intro: decided [OF Some, of _ False] split: prod.splits)
    next
      case 3
      with assms Some obs show thesis by (intro retry [OF Some]) (simp_all add: http_retry_def)
    qed
  qed
qed

lemma http_check_loop_tells:
  assumes "http_check_loop reply order s = (s', removed, went)" and "http_sound s"
  shows "http_tells (\<lambda>tx_id. \<exists>obs. reply tx_id = Some obs \<and> evaluate obs = Accept) s s'" (is "http_tells ?ok s s'")
  using assms
proof (induction order arbitrary: s removed)
  case Nil
  then show ?case by (simp add: http_tells_refl)
next
  case (Cons k rest)
  have go: "http_tells ?ok s s'" if one: "http_tells ?ok s s1" and "http_check_loop reply rest s1 = (s', rs, went)" for s1 rs
    using one Cons.IH [OF that(2)] by (auto simp: http_tells_def intro: tells_trans)
  from Cons.prems(1) show ?case
  proof (cases rule: http_check_loop_ConsE)
    case absent
    with Cons show ?thesis by blast
  next
    case (failed e)
    with Cons.prems(2) show ?thesis by (simp add: http_tells_refl)
  next
    case (decided e safe removed')
    from http_drain_tells [where ok = ?ok, OF Cons.prems(2) decided(1,4)] decided(3) show ?thesis by (rule go)
  next
    case (retry e)
    from http_retry_tells [OF Cons.prems(2) retry(1)] retry(3) show ?thesis unfolding http_retry_def by (rule go)
  qed
qed

lemma http_check_transaction_waiting:
  assumes "http_sound s"
  shows "http_sound (http_check_transaction n tx_id s)"
    and "http_waiting (http_check_transaction n tx_id s) = http_waiting s + {#(n, tx_id)#}"
    and "ht_answers (http_check_transaction n tx_id s) = ht_answers s"
proof -
  let ?e = "case ht_to_check s tx_id of Some e \<Rightarrow> e | None \<Rightarrow> \<lparr> hx_retries = 0, hx_senders = [] \<rparr>"
  show "http_sound (http_check_transaction n tx_id s)" "ht_answers (http_check_transaction n tx_id s) = ht_answers s"
    using assms by (simp_all add: http_sound_def http_check_transaction_def Let_def)
  have "listeners hx_senders tx_id (Some (?e\<lparr> hx_senders := hx_senders ?e @ [n] \<rparr>))
      = listeners hx_senders tx_id (ht_to_check s tx_id) + {#(n, tx_id)#}"
    by (cases "ht_to_check s tx_id") simp_all
  then show "http_waiting (http_check_transaction n tx_id s) = http_waiting s + {#(n, tx_id)#}"
    using waiting_in_upd [of "ht_to_check s" hx_senders tx_id "Some (?e\<lparr> hx_senders := hx_senders ?e @ [n] \<rparr>)"] assms
    by (simp add: http_waiting_def http_sound_def http_check_transaction_def Let_def)
qed

lemma http_arrivals_waiting:
  assumes "http_sound s"
  shows "http_sound (fold (\<lambda>(n, tx_id). http_check_transaction n tx_id) arrivals s) \<and>
    http_waiting (fold (\<lambda>(n, tx_id). http_check_transaction n tx_id) arrivals s) = http_waiting s + mset arrivals \<and>
    ht_answers (fold (\<lambda>(n, tx_id). http_check_transaction n tx_id) arrivals s) = ht_answers s"
  using assms
proof (induction arrivals arbitrary: s)
  case (Cons a arrivals)
  obtain n tx_id where a: "a = (n, tx_id)" by fastforce
  from Cons.IH [OF http_check_transaction_waiting(1) [OF Cons.prems, of n tx_id]] show ?case
    by (simp add: a http_check_transaction_waiting(2,3) [OF Cons.prems])
qed simp

lemma waiting_in_restrict: "finite (dom m) \<Longrightarrow> waiting_in senders (m |` A) \<subseteq># waiting_in senders m"
proof -
  assume fin: "finite (dom m)"
  have "waiting_in senders (m |` A) = (\<Sum>k \<in> dom m \<inter> A. listeners senders k (m k))"
    unfolding waiting_in_def by (rule sum.cong) (auto simp: restrict_map_def split: if_splits)
  moreover have "waiting_in senders m = (\<Sum>k \<in> dom m \<inter> A. listeners senders k (m k)) + (\<Sum>k \<in> dom m - A. listeners senders k (m k))"
    unfolding waiting_in_def using fin by (subst sum.union_disjoint [symmetric]) (auto intro: sum.cong)
  ultimately show ?thesis by simp
qed

lemma http_remove_tells: "http_sound s \<Longrightarrow> http_tells ok s (http_remove removed s)"
  by (simp add: http_tells_def http_remove_def http_sound_def http_waiting_def waiting_in_restrict tells_forget)

lemma http_reject_all_tells:
  assumes "http_sound s"
  shows "http_tells ok s (http_reject_all order s)"
proof -
  have drain: "http_tells ok s (http_drain_all order s)" if "http_sound s" for s
    using that
  proof (induction order s rule: http_drain_all.induct)
    case (2 tx_id rest s)
    show ?case
    proof (cases "ht_to_check s tx_id")
      case (Some entry)
      then have d: "http_tells ok s (http_drain False tx_id entry s)"
        using "2.prems" by (intro http_drain_tells) auto
      then have "http_sound (http_drain False tx_id entry s)" by (simp add: http_tells_def)
      from http_tells_trans [OF d "2.IH"(2) [OF Some this]] Some show ?thesis by simp
    qed (use 2 in simp)
  qed (simp add: http_tells_refl)
  have "http_tells ok t (t\<lparr> ht_to_check := Map.empty \<rparr>)" for t
    by (simp add: http_tells_def http_sound_def http_waiting_def tells_forget)
  with drain [OF assms] show ?thesis unfolding http_reject_all_def by (rule http_tells_trans)
qed

lemma http_check_tells:
  assumes "http_sound s"
  shows "http_sound (http_check order reply arrivals s)"
    and "tells (http_accepted (HttpCheck order reply arrivals)) (http_waiting s + mset arrivals) (ht_answers s)
      (http_waiting (http_check order reply arrivals s)) (ht_answers (http_check order reply arrivals s))"
proof -
  let ?ok = "http_accepted (HttpCheck order reply arrivals)"
  obtain s1 removed went where loop: "http_check_loop reply order s = (s1, removed, went)" using prod_cases3 by blast
  have "?ok = (\<lambda>tx_id. \<exists>obs. reply tx_id = Some obs \<and> evaluate obs = Accept)" by (rule ext) simp
  with http_check_loop_tells [OF loop assms] have s1: "http_tells ?ok s s1" by simp
  define s2 where "s2 = fold (\<lambda>(n, tx_id). http_check_transaction n tx_id) arrivals s1"
  have s2: "http_sound s2" "http_waiting s2 = http_waiting s1 + mset arrivals" "ht_answers s2 = ht_answers s1"
    using http_arrivals_waiting [of s1 arrivals] s1 by (simp_all add: s2_def http_tells_def)
  have rest: "http_tells ?ok s2 (http_check order reply arrivals s)"
    using http_remove_tells [OF s2(1)] http_reject_all_tells [OF s2(1)]
    by (simp add: http_check_def loop s2_def Let_def)
  then show "http_sound (http_check order reply arrivals s)" by (simp add: http_tells_def)
  have "tells ?ok (http_waiting s + mset arrivals) (ht_answers s) (http_waiting s2) (ht_answers s2)"
    using tells_more s1 by (simp add: http_tells_def s2)
  with rest show "tells ?ok (http_waiting s + mset arrivals) (ht_answers s)
      (http_waiting (http_check order reply arrivals s)) (ht_answers (http_check order reply arrivals s))"
    unfolding http_tells_def by (blast intro: tells_trans)
qed

interpretation http: zero_conf_check http_apply http_waiting ht_answers http_registered http_accepted http_sound
proof
  fix s e s'
  assume s: "http_sound s" and step: "http_apply e s = Some s'"
  show "http_sound s'"
    using step http_check_transaction_waiting(1) [OF s] http_check_tells(1) [OF s]
    by (cases e) (auto split: if_splits)
  show "tells (http_accepted e) (http_waiting s + mset (http_registered e)) (ht_answers s) (http_waiting s') (ht_answers s')"
    using step http_check_transaction_waiting(2,3) [OF s] http_check_tells(2) [OF s]
    by (cases e) (auto split: if_splits)
qed

subsection \<open>The client over a WebSocket keeps the contract\<close>

definition ws_waiting :: "ws_tool \<Rightarrow> (nat \<times> string) multiset" where
  "ws_waiting s = waiting_in wx_senders (wz_to_check s)"

fun ws_registered :: "ws_tool_event \<Rightarrow> (nat \<times> string) list" where
  "ws_registered (WsRegister now n tx_id worker_alive) = [(n, tx_id)]"
| "ws_registered _ = []"

fun ws_accepted :: "ws_tool_event \<Rightarrow> string \<Rightarrow> bool" where
  "ws_accepted (WsIncoming (Some (Snapshot t obs))) tx_id = (t = tx_id \<and> evaluate obs = Accept)"
| "ws_accepted _ tx_id = False"

definition ws_sound :: "ws_tool \<Rightarrow> bool" where
  "ws_sound s = finite (dom (wz_to_check s))"

definition ws_tells :: "(string \<Rightarrow> bool) \<Rightarrow> ws_tool \<Rightarrow> ws_tool \<Rightarrow> bool" where
  "ws_tells ok s s' \<longleftrightarrow> ws_sound s' \<and> tells ok (ws_waiting s) (wz_answers s) (ws_waiting s') (wz_answers s')"

lemma ws_tells_same:
  "ws_sound s \<Longrightarrow> wz_to_check s' = wz_to_check s \<Longrightarrow> wz_answers s' = wz_answers s \<Longrightarrow> ws_tells ok s s'"
  by (simp add: ws_tells_def ws_sound_def ws_waiting_def)

lemma ws_tells_trans: "ws_tells ok s s' \<Longrightarrow> ws_tells ok s' s'' \<Longrightarrow> ws_tells ok s s''"
  unfolding ws_tells_def by (blast intro: tells_trans)

lemma ws_tells_unsubs: "ws_tells ok s s' \<Longrightarrow> ws_tells ok s (s'\<lparr> wz_unsubs := us \<rparr>)"
  by (simp add: ws_tells_def ws_sound_def ws_waiting_def)

lemma ws_remove_tells:
  assumes "ws_sound s" and "safe \<Longrightarrow> ok tx_id"
  shows "ws_tells ok s (ws_remove safe tx_id s)"
proof (cases "wz_to_check s tx_id")
  case None
  with assms(1) show ?thesis by (simp add: ws_remove_def ws_tells_same)
next
  case (Some state)
  have "ws_waiting (ws_remove safe tx_id s) + mset (map (\<lambda>n. (n, tx_id)) (wx_senders state)) = ws_waiting s"
    using waiting_in_upd [of "wz_to_check s" wx_senders tx_id None] assms(1) Some
    by (simp add: ws_waiting_def ws_remove_def ws_sound_def)
  from tells_all [where ok = ok, OF this assms(2)] assms(1) Some show ?thesis
    by (simp add: ws_tells_def ws_sound_def ws_remove_def)
qed

lemma ws_expire_tells: "ws_sound s \<Longrightarrow> ws_tells ok s (fold reject_and_remove expired s)"
proof (induction expired arbitrary: s)
  case (Cons k expired)
  have d: "ws_tells ok s (reject_and_remove k s)"
    using Cons.prems unfolding reject_and_remove_def by (intro ws_remove_tells) simp_all
  moreover from d have "ws_sound (reject_and_remove k s)" by (simp add: ws_tells_def)
  ultimately show ?case using Cons.IH by (auto intro: ws_tells_trans)
qed (simp add: ws_tells_same)

lemma ws_handle_message_tells:
  assumes "ws_sound s" and "ws_handle_message msg s = (s', unsubs)"
  shows "ws_tells (ws_accepted (WsIncoming msg)) s s'"
  using assms(2)
proof (cases "(msg, s)" rule: ws_handle_message.cases)
  case (3 tx_id obs s)
  have "ws_tells ok s (s\<lparr> wz_to_check := (wz_to_check s)(tx_id \<mapsto> state\<lparr> wx_snapshots_seen := x \<rparr>) \<rparr>)"
    if "wz_to_check s tx_id = Some state" for ok state x
  proof -
    have "waiting_in wx_senders ((wz_to_check s)(tx_id \<mapsto> state\<lparr> wx_snapshots_seen := x \<rparr>)) = ws_waiting s"
      using waiting_in_upd [of "wz_to_check s" wx_senders tx_id "Some (state\<lparr> wx_snapshots_seen := x \<rparr>)"] that assms(1) 3
      by (simp add: ws_waiting_def ws_sound_def)
    then show ?thesis using assms(1) 3 by (simp add: ws_tells_def ws_waiting_def ws_sound_def)
  qed
  with 3 assms show ?thesis
    by (auto simp: handle_snapshot_def ws_tells_same intro!: ws_remove_tells split: decision.splits option.splits)
qed (use assms in \<open>auto simp: reject_and_remove_def ws_tells_same intro: ws_remove_tells\<close>)

lemma ws_check_transaction_waiting:
  assumes "ws_sound s"
  shows "ws_sound (ws_check_transaction now n tx_id alive s) \<and>
    tells (\<lambda>_. False) (ws_waiting s + {#(n, tx_id)#}) (wz_answers s)
      (ws_waiting (ws_check_transaction now n tx_id alive s)) (wz_answers (ws_check_transaction now n tx_id alive s))"
proof -
  let ?e = "case wz_to_check s tx_id of Some e \<Rightarrow> e
    | None \<Rightarrow> \<lparr> wx_deadline = now + wz_deadline s, wx_snapshots_seen = 0, wx_senders = [] \<rparr>"
  define s1 where "s1 = s\<lparr> wz_to_check := (wz_to_check s)(tx_id \<mapsto> ?e\<lparr> wx_senders := wx_senders ?e @ [n] \<rparr>) \<rparr>"
  have sound: "ws_sound s1" and ans: "wz_answers s1 = wz_answers s" using assms by (simp_all add: s1_def ws_sound_def)
  have "listeners wx_senders tx_id (Some (?e\<lparr> wx_senders := wx_senders ?e @ [n] \<rparr>))
      = listeners wx_senders tx_id (wz_to_check s tx_id) + {#(n, tx_id)#}"
    by (cases "wz_to_check s tx_id") simp_all
  then have w: "ws_waiting s1 = ws_waiting s + {#(n, tx_id)#}"
    using waiting_in_upd [of "wz_to_check s" wx_senders tx_id "Some (?e\<lparr> wx_senders := wx_senders ?e @ [n] \<rparr>)"] assms
    by (simp add: ws_waiting_def ws_sound_def s1_def)
  have "ws_tells (\<lambda>_. False) s1 (ws_check_transaction now n tx_id alive s)"
  proof (cases alive)
    case True
    with sound show ?thesis by (simp add: ws_check_transaction_def s1_def [symmetric] Let_def ws_tells_same)
  next
    case False
    have "ws_tells (\<lambda>_. False) s1 (reject_and_remove tx_id s1)"
      unfolding reject_and_remove_def using sound by (intro ws_remove_tells) simp_all
    with False show ?thesis by (simp add: ws_check_transaction_def s1_def [symmetric] Let_def)
  qed
  then show ?thesis by (simp add: ws_tells_def ans w)
qed

lemma ws_apply_tells:
  assumes "ws_sound s" and "ws_apply e s = Some s'" and "\<And>now n tx_id alive. e \<noteq> WsRegister now n tx_id alive"
  shows "ws_tells (ws_accepted e) s s'"
proof (cases e)
  case (WsIncoming msg)
  obtain s1 unsubs where h: "ws_handle_message msg s = (s1, unsubs)" by fastforce
  with assms(2) WsIncoming have "s' = s1\<lparr> wz_unsubs := unsubs \<rparr>" by (auto split: if_splits)
  with ws_handle_message_tells [OF assms(1) h] WsIncoming show ?thesis by (simp add: ws_tells_unsubs)
next
  case (WsTick now order)
  with assms(2) obtain us where "s' = (fold reject_and_remove us s)\<lparr> wz_unsubs := if wz_subscribed s = None then [] else us \<rparr>"
    by (auto simp: expire_deadlines_def Let_def split: if_splits)
  with ws_expire_tells [OF assms(1), of "ws_accepted e" us] show ?thesis by (simp add: ws_tells_unsubs)
qed (use assms in \<open>auto intro!: ws_tells_same split: if_splits option.splits list.splits\<close>)

interpretation ws: zero_conf_check ws_apply ws_waiting wz_answers ws_registered ws_accepted ws_sound
proof
  fix s e s'
  assume s: "ws_sound s" and step: "ws_apply e s = Some s'"
  have both: "ws_sound s' \<and>
      tells (ws_accepted e) (ws_waiting s + mset (ws_registered e)) (wz_answers s) (ws_waiting s') (wz_answers s')"
  proof (cases "\<exists>now n tx_id alive. e = WsRegister now n tx_id alive")
    case True
    then obtain now n tx_id alive where e: "e = WsRegister now n tx_id alive" by blast
    moreover have "ws_accepted e = (\<lambda>_. False)" by (rule ext) (simp add: e)
    ultimately show ?thesis using step ws_check_transaction_waiting [OF s, of now n tx_id alive] by simp
  next
    case False
    then have "ws_registered e = []" by (cases e) auto
    with False ws_apply_tells [OF s step] show ?thesis by (simp add: ws_tells_def)
  qed
  show "ws_sound s'" using both ..
  show "tells (ws_accepted e) (ws_waiting s + mset (ws_registered e)) (wz_answers s) (ws_waiting s') (wz_answers s')"
    using both ..
qed

subsection \<open>Answers\<close>

lemma tools_fresh:
  "http_sound (http_tool_new r)" "ht_answers (http_tool_new r) = []" "http_waiting (http_tool_new r) = {#}"
  "ws_sound (ws_tool_new d)" "wz_answers (ws_tool_new d) = []" "ws_waiting (ws_tool_new d) = {#}"
  by (simp_all add: http_tool_new_def http_sound_def http_waiting_def ws_tool_new_def ws_sound_def ws_waiting_def)

lemma http_evidence:
  "http.evidence es n tx_id \<Longrightarrow> \<exists>pre order reply arrivals post obs.
     es = pre @ HttpCheck order reply arrivals # post \<and> reply tx_id = Some obs \<and> evaluate obs = Accept \<and>
     (n, tx_id) \<in> set (concat (map http_registered (pre @ [HttpCheck order reply arrivals])))"
proof -
  assume "http.evidence es n tx_id"
  then obtain pre e post where e: "es = pre @ e # post" "http_accepted e tx_id"
    "(n, tx_id) \<in> set (concat (map http_registered (pre @ [e])))" unfolding http.evidence_def by blast
  from e(2) obtain order reply arrivals obs where "e = HttpCheck order reply arrivals"
    "reply tx_id = Some obs" "evaluate obs = Accept" by (cases e) auto
  with e(1,3) show ?thesis by blast
qed

lemma ws_evidence:
  "ws.evidence es n tx_id \<Longrightarrow> \<exists>pre obs post.
     es = pre @ WsIncoming (Some (Snapshot tx_id obs)) # post \<and> evaluate obs = Accept \<and>
     (n, tx_id) \<in> set (concat (map ws_registered pre))"
proof -
  assume "ws.evidence es n tx_id"
  then obtain pre e post where e: "es = pre @ e # post" "ws_accepted e tx_id"
    "(n, tx_id) \<in> set (concat (map ws_registered (pre @ [e])))" unfolding ws.evidence_def by blast
  from e(2) obtain obs where obs: "e = WsIncoming (Some (Snapshot tx_id obs))" "evaluate obs = Accept"
    by (cases "(e, tx_id)" rule: ws_accepted.cases) auto
  with e(3) have "(n, tx_id) \<in> set (concat (map ws_registered pre))" by simp
  with e(1) obs show ?thesis by blast
qed

text \<open>
  C26: with either client of the 0-conf tool, whatever the server sends and however requests,
  checks, lost connections and deadlines interleave, a listener is answered at most once, and it
  hears that a transaction is safe only if it had asked for this transaction and the server has
  reported after that that all bridge nodes have seen it.
\<close>

theorem zero_conf_answers:
  "(tool_run http_apply (http_tool_new r) hes hs \<and> distinct (map fst (concat (map http_registered hes))) \<longrightarrow>
      distinct (map fst (ht_answers hs)) \<and>
      (\<forall>n. (n, True) \<in> set (ht_answers hs) \<longrightarrow> (\<exists>tx_id pre order reply arrivals post obs.
         hes = pre @ HttpCheck order reply arrivals # post \<and> reply tx_id = Some obs \<and> evaluate obs = Accept \<and>
         (n, tx_id) \<in> set (concat (map http_registered (pre @ [HttpCheck order reply arrivals])))))) \<and>
   (tool_run ws_apply (ws_tool_new d) wes wst \<and> distinct (map fst (concat (map ws_registered wes))) \<longrightarrow>
      distinct (map fst (wz_answers wst)) \<and>
      (\<forall>n. (n, True) \<in> set (wz_answers wst) \<longrightarrow> (\<exists>tx_id pre obs post.
         wes = pre @ WsIncoming (Some (Snapshot tx_id obs)) # post \<and> evaluate obs = Accept \<and>
         (n, tx_id) \<in> set (concat (map ws_registered pre)))))"
proof (intro conjI impI allI; elim conjE)
  assume run: "tool_run http_apply (http_tool_new r) hes hs" and d: "distinct (map fst (concat (map http_registered hes)))"
  show "distinct (map fst (ht_answers hs))" using run tools_fresh(1-3) d by (rule http.answers_once)
  fix n assume "(n, True) \<in> set (ht_answers hs)"
  with run tools_fresh(1-3) obtain tx_id where "http.evidence hes n tx_id" using http.accepted_with_evidence by blast
  from http_evidence [OF this] show "\<exists>tx_id pre order reply arrivals post obs.
         hes = pre @ HttpCheck order reply arrivals # post \<and> reply tx_id = Some obs \<and> evaluate obs = Accept \<and>
         (n, tx_id) \<in> set (concat (map http_registered (pre @ [HttpCheck order reply arrivals])))" by blast
next
  assume run: "tool_run ws_apply (ws_tool_new d) wes wst" and d: "distinct (map fst (concat (map ws_registered wes)))"
  show "distinct (map fst (wz_answers wst))" using run tools_fresh(4-6) d by (rule ws.answers_once)
  fix n assume "(n, True) \<in> set (wz_answers wst)"
  with run tools_fresh(4-6) obtain tx_id where "ws.evidence wes n tx_id" using ws.accepted_with_evidence by blast
  from ws_evidence [OF this] show "\<exists>tx_id pre obs post.
         wes = pre @ WsIncoming (Some (Snapshot tx_id obs)) # post \<and> evaluate obs = Accept \<and>
         (n, tx_id) \<in> set (concat (map ws_registered pre))" by blast
qed

text \<open>
  Somebody asks for \<open>t\<close>, the worker connects, and all three bridge nodes have seen the transaction.
\<close>

definition accepted_run :: "ws_tool_event list" where
  "accepted_run = [WsRegister 0 7 ''t'' True, WsConnect [''t''] (\<lambda>_. True),
     WsIncoming (Some (Snapshot ''t'' (Some (Some \<lparr> bridge_seen = 3, bridge_total = 3 \<rparr>))))]"

definition rejected_run :: "http_event list" where
  "rejected_run = [HttpRegister 7 ''t'', HttpCheck [''t''] (\<lambda>_. Some None) []]"

lemmas tool_evals =
  accepted_run_def rejected_run_def ws_tool_new_def http_tool_new_def DEFAULT_DEADLINE_SECS_def
  ws_check_transaction_def reconcile_subscriptions_def collect_pending_subscribes_def handle_snapshot_def evaluate_def
  ws_remove_def send_all_def http_check_transaction_def http_check_def http_drain_def http_remove_def expire_deadlines_def
  reject_and_remove_def

lemma accepted_run_exec:
  "\<exists>s. tool_exec ws_apply accepted_run (ws_tool_new None) = Some s \<and> wz_answers s = [(7, True)]"
  by (simp add: tool_evals)

lemma rejected_run_exec:
  "\<exists>s. tool_exec http_apply rejected_run (http_tool_new (Some 1)) = Some s \<and> ht_answers s = [(7, False)]"
  by (simp add: tool_evals)

theorem zero_conf_answers_witness:
  "(\<exists>s. tool_run http_apply (http_tool_new (Some 1)) rejected_run s \<and> ht_answers s = [(7, False)] \<and>
      distinct (map fst (ht_answers s))) \<and>
   (\<exists>s. tool_run ws_apply (ws_tool_new None) accepted_run s \<and> wz_answers s = [(7, True)] \<and>
      (\<exists>tx_id pre obs post. accepted_run = pre @ WsIncoming (Some (Snapshot tx_id obs)) # post \<and>
         evaluate obs = Accept \<and> (7, tx_id) \<in> set (concat (map ws_registered pre))))"
proof -
  from rejected_run_exec obtain hs where h: "tool_exec http_apply rejected_run (http_tool_new (Some 1)) = Some hs"
    "ht_answers hs = [(7, False)]" by blast
  from accepted_run_exec obtain s where w: "tool_exec ws_apply accepted_run (ws_tool_new None) = Some s"
    "wz_answers s = [(7, True)]" by blast
  have "distinct (map fst (concat (map http_registered rejected_run)))" by (simp add: rejected_run_def)
  moreover have "distinct (map fst (concat (map ws_registered accepted_run)))" by (simp add: accepted_run_def)
  ultimately have "distinct (map fst (ht_answers hs)) \<and>
    (\<exists>tx_id pre obs post. accepted_run = pre @ WsIncoming (Some (Snapshot tx_id obs)) # post \<and>
         evaluate obs = Accept \<and> (7, tx_id) \<in> set (concat (map ws_registered pre)))"
    using zero_conf_answers [of "Some 1" rejected_run hs None accepted_run s] tool_runI [OF h(1)] tool_runI [OF w(1)] w(2)
    by simp
  with h w tool_runI [OF h(1)] tool_runI [OF w(1)] show ?thesis by blast
qed

subsection \<open>Subscriptions\<close>

definition ws_covered :: "ws_tool \<Rightarrow> bool" where
  "ws_covered s = (case wz_subscribed s of None \<Rightarrow> True
     | Some subscribed \<Rightarrow> dom (wz_to_check s) \<subseteq> (subscribed - set (wz_unsubs s)) \<union> set (wz_commands s))"

lemma ws_remove_fields [simp]:
  "wz_subscribed (ws_remove safe k s) = wz_subscribed s" "wz_commands (ws_remove safe k s) = wz_commands s"
  "wz_unsubs (ws_remove safe k s) = wz_unsubs s" "dom (wz_to_check (ws_remove safe k s)) = dom (wz_to_check s) - {k}"
  by (auto simp: ws_remove_def split: option.splits if_splits)

lemma reject_all_fields [simp]:
  "wz_subscribed (fold reject_and_remove ks s) = wz_subscribed s" "wz_commands (fold reject_and_remove ks s) = wz_commands s"
  "dom (wz_to_check (fold reject_and_remove ks s)) = dom (wz_to_check s) - set ks"
  by (induction ks arbitrary: s) (auto simp: reject_and_remove_def)

definition same_connection :: "ws_tool \<Rightarrow> ws_tool \<times> string list \<Rightarrow> bool" where
  "same_connection s r \<longleftrightarrow> wz_subscribed (fst r) = wz_subscribed s \<and> wz_commands (fst r) = wz_commands s \<and>
     dom (wz_to_check (fst r)) = dom (wz_to_check s) - set (snd r)"

lemma handle_snapshot_connection: "same_connection s (handle_snapshot tx_id obs s)"
proof (cases "wz_to_check s tx_id")
  case (Some state)
  then have "insert tx_id (dom (wz_to_check s)) = dom (wz_to_check s)" by auto
  with Some show ?thesis by (simp add: same_connection_def handle_snapshot_def split: decision.split)
qed (simp add: same_connection_def handle_snapshot_def split: decision.split)

lemma ws_handle_message_connection: "same_connection s (ws_handle_message msg s)"
  by (cases "(msg, s)" rule: ws_handle_message.cases)
    (simp_all add: handle_snapshot_connection, simp_all add: same_connection_def reject_and_remove_def)

lemma ws_check_transaction_fields:
  "wz_subscribed (ws_check_transaction now n tx_id alive s) = wz_subscribed s"
  "wz_unsubs (ws_check_transaction now n tx_id alive s) = wz_unsubs s"
  "wz_commands (ws_check_transaction now n tx_id alive s) = (if alive then wz_commands s @ [tx_id] else wz_commands s)"
  "dom (wz_to_check (ws_check_transaction now n tx_id alive s))
     = (if alive then insert tx_id (dom (wz_to_check s)) else dom (wz_to_check s) - {tx_id})"
  by (simp_all add: ws_check_transaction_def Let_def reject_and_remove_def)

lemma ws_apply_covered:
  assumes "ws_covered s" and "ws_apply e s = Some s'"
  shows "ws_covered s'"
proof (cases "wz_subscribed s")
  case None
  then have "wz_subscribed s' = None \<or> (\<exists>order sent. e = WsConnect order sent)"
    using assms(2) by (cases e) (auto simp: ws_check_transaction_fields expire_deadlines_def Let_def split: if_splits)
  then show ?thesis
    using assms(2)
    by (auto simp: ws_covered_def reconcile_subscriptions_def collect_pending_subscribes_def Let_def split: if_splits)
next
  case (Some subscribed)
  then have c: "dom (wz_to_check s) \<subseteq> (subscribed - set (wz_unsubs s)) \<union> set (wz_commands s)"
    using assms(1) by (simp add: ws_covered_def)
  show ?thesis
  proof (cases e)
    case (WsIncoming msg)
    obtain s1 unsubs where h: "ws_handle_message msg s = (s1, unsubs)" by fastforce
    with assms(2) WsIncoming have "s' = s1\<lparr> wz_unsubs := unsubs \<rparr>" "wz_unsubs s = []" by (auto split: if_splits)
    with c Some ws_handle_message_connection [of s msg] h show ?thesis
      by (simp add: ws_covered_def same_connection_def) blast
  next
    case (WsTick now order)
    with assms(2) Some obtain us where "s' = (fold reject_and_remove us s)\<lparr> wz_unsubs := us \<rparr>" "wz_unsubs s = []"
      by (auto simp: expire_deadlines_def Let_def split: if_splits)
    with c Some show ?thesis by (simp add: ws_covered_def) blast
  next
    case (WsRegister now n tx_id alive)
    then have s': "s' = ws_check_transaction now n tx_id alive s" using assms(2) by simp
    from c Some show ?thesis
      by (simp add: ws_covered_def s' ws_check_transaction_fields) blast
  next
    case (WsUnsubscribe sent)
    with assms(2) Some obtain k rest where k: "wz_unsubs s = k # rest" by (auto split: list.splits)
    with c have "dom (wz_to_check s) \<subseteq> (subscribed - {k} - set rest) \<union> set (wz_commands s)" by auto
    with assms(2) Some WsUnsubscribe k show ?thesis by (auto simp: ws_covered_def split: if_splits)
  next
    case (WsCommand sent)
    with assms(2) Some obtain k rest where k: "wz_commands s = k # rest" "wz_unsubs s = []"
      and s': "s' = s\<lparr> wz_commands := rest, wz_subscribed := subscribe_if_pending sent k subscribed s \<rparr>"
      by (auto split: list.splits if_splits)
    have "k \<in> subscribed \<or> k \<in> new" if "subscribe_if_pending sent k subscribed s = Some new" "k \<in> dom (wz_to_check s)" for new
      using that by (auto simp: subscribe_if_pending_def split: if_splits)
    moreover have "subscribed \<subseteq> new" if "subscribe_if_pending sent k subscribed s = Some new" for new
      using that by (auto simp: subscribe_if_pending_def split: if_splits)
    ultimately show ?thesis using c k by (simp add: ws_covered_def s' split: option.split) blast
  qed (use assms Some in \<open>auto simp: ws_covered_def reconcile_subscriptions_def collect_pending_subscribes_def Let_def
      split: if_splits\<close>)
qed

text \<open>
  No pending check is left without a subscription: whenever the WebSocket is connected, every
  transaction that somebody waits for is subscribed to on this connection and not about to be
  unsubscribed, or the command to subscribe to it is still in the channel.
\<close>

theorem ws_pending_subscribed:
  assumes "tool_run ws_apply (ws_tool_new d) es s" and "wz_subscribed s = Some subscribed"
    and "k \<in> dom (wz_to_check s)"
  shows "k \<in> subscribed \<and> k \<notin> set (wz_unsubs s) \<or> k \<in> set (wz_commands s)"
proof -
  from assms(1) have "ws_covered s"
  proof induction
    case start
    show ?case by (simp add: ws_covered_def ws_tool_new_def)
  qed (auto intro: ws_apply_covered)
  with assms(2,3) show ?thesis by (auto simp: ws_covered_def)
qed

theorem ws_pending_subscribed_witness:
  "\<exists>s. tool_run ws_apply (ws_tool_new None) (take 2 accepted_run) s \<and> ''t'' \<in> dom (wz_to_check s) \<and>
     (''t'' \<notin> set (wz_unsubs s) \<or> ''t'' \<in> set (wz_commands s))"
proof -
  have "\<exists>s. tool_exec ws_apply (take 2 accepted_run) (ws_tool_new None) = Some s \<and> wz_subscribed s = Some {''t''} \<and>
      ''t'' \<in> dom (wz_to_check s)"
    by (simp add: tool_evals)
  then obtain s where s: "tool_exec ws_apply (take 2 accepted_run) (ws_tool_new None) = Some s"
    "wz_subscribed s = Some {''t''}" "''t'' \<in> dom (wz_to_check s)" by blast
  have "tool_run ws_apply (ws_tool_new None) (take 2 accepted_run) s" using s(1) by (rule tool_runI)
  with ws_pending_subscribed [OF this s(2,3)] s(3) show ?thesis by blast
qed

subsection \<open>Every request is settled\<close>

definition waits :: "nat \<Rightarrow> string \<Rightarrow> u64 \<Rightarrow> http_tool \<Rightarrow> bool" where
  "waits n k r s \<longleftrightarrow> (\<exists>e. ht_to_check s k = Some e \<and> n \<in> set (hx_senders e) \<and> hx_retries e = r)"

definition answered :: "nat \<Rightarrow> http_tool \<Rightarrow> bool" where
  "answered n s \<longleftrightarrow> n \<in> fst ` set (ht_answers s)"

lemma http_drain_fields [simp]:
  "ht_max_retries (http_drain safe k e s) = ht_max_retries s"
  "ht_to_check (http_drain safe k e s) = (ht_to_check s)(k \<mapsto> e\<lparr> hx_senders := [] \<rparr>)"
  "answered n (http_drain safe k e s) \<longleftrightarrow> answered n s \<or> n \<in> set (hx_senders e)"
  by (auto simp: http_drain_def answered_def send_all_def image_Un image_image)

lemma http_retry_fields [simp]:
  "ht_max_retries (http_retry k e s) = ht_max_retries s"
  "ht_to_check (http_retry k e s) = (ht_to_check s)(k \<mapsto> e\<lparr> hx_retries := hx_retries e + 1 \<rparr>)"
  "answered n (http_retry k e s) \<longleftrightarrow> answered n s"
  by (simp_all add: http_retry_def answered_def)

lemma http_check_loop_frame:
  assumes "http_check_loop reply order s = (s', removed, went)"
  shows "ht_max_retries s' = ht_max_retries s \<and> set removed \<subseteq> set order \<and>
     (answered n s \<longrightarrow> answered n s') \<and> (k \<notin> set order \<longrightarrow> ht_to_check s' k = ht_to_check s k)"
  using assms
proof (induction order arbitrary: s removed)
  case (Cons j rest)
  from Cons.prems show ?case
  proof (cases rule: http_check_loop_ConsE)
    case absent
    with Cons.IH [OF absent(2)] show ?thesis by auto
  next
    case (decided e safe removed')
    with Cons.IH [OF decided(3)] show ?thesis by auto
  next
    case (retry e)
    with Cons.IH [OF retry(3)] show ?thesis by auto
  qed simp
qed simp

text \<open>An entry that is checked is decided, or kept with one more retry, or kept as it was if the check breaks off.\<close>

lemma http_check_loop_entry:
  assumes "http_check_loop reply order s = (s', removed, went)" and "distinct order" and "k \<in> set order"
    and "ht_to_check s k = Some e" and "n \<in> set (hx_senders e)"
  shows "k \<in> set removed \<and> answered n s'
    \<or> k \<notin> set removed \<and> ht_to_check s' k = Some (e\<lparr> hx_retries := hx_retries e + 1 \<rparr>) \<and> hx_retries e + 1 < ht_max_retries s
    \<or> k \<notin> set removed \<and> \<not> went \<and> ht_to_check s' k = Some e"
  using assms
proof (induction order arbitrary: s removed)
  case (Cons j rest)
  from Cons.prems(1) show ?case
  proof (cases rule: http_check_loop_ConsE)
    case absent
    with Cons show ?thesis by auto
  next
    case (failed e')
    with Cons.prems show ?thesis by simp
  next
    case (decided e' safe removed')
    show ?thesis
    proof (cases "j = k")
      case True
      with decided(1) Cons.prems(4,5) have "answered n (http_drain safe j e' s)" by simp
      with decided True http_check_loop_frame [OF decided(3), of n k] show ?thesis by auto
    next
      case False
      with Cons.IH [OF decided(3)] decided(2) Cons.prems show ?thesis by simp
    qed
  next
    case (retry e')
    show ?thesis
    proof (cases "j = k")
      case True
      with Cons.prems(2,4) retry have "k \<notin> set rest" "e' = e" by auto
      with True retry http_check_loop_frame [OF retry(3), of n k] show ?thesis by auto
    next
      case False
      with Cons.IH [OF retry(3)] Cons.prems show ?thesis by simp
    qed
  qed
qed simp

lemma http_check_transaction_fields [simp]:
  "ht_max_retries (http_check_transaction n k s) = ht_max_retries s"
  "answered m (http_check_transaction n k s) \<longleftrightarrow> answered m s"
  by (simp_all add: http_check_transaction_def Let_def answered_def)

lemma waits_registered [simp]:
  "m \<noteq> n \<Longrightarrow> waits m j r (http_check_transaction n k s) \<longleftrightarrow> waits m j r s"
  by (auto simp: waits_def http_check_transaction_def Let_def split: option.splits)

lemma http_arrivals_frame:
  assumes "m \<notin> fst ` set arrivals"
  shows "(waits m j r (fold (\<lambda>(n, k). http_check_transaction n k) arrivals s) \<longleftrightarrow> waits m j r s) \<and>
    (answered m (fold (\<lambda>(n, k). http_check_transaction n k) arrivals s) \<longleftrightarrow> answered m s) \<and>
    ht_max_retries (fold (\<lambda>(n, k). http_check_transaction n k) arrivals s) = ht_max_retries s"
  using assms by (induction arrivals arbitrary: s) (auto split: prod.splits)

lemma http_drain_all_frame: "ht_max_retries (http_drain_all ks s) = ht_max_retries s \<and> (answered n s \<longrightarrow> answered n (http_drain_all ks s))"
  by (induction ks s rule: http_drain_all.induct) (auto split: option.splits)

lemma http_drain_all_answers:
  "k \<in> set ks \<Longrightarrow> waits n k r s \<Longrightarrow> answered n (http_drain_all ks s)"
proof (induction ks s rule: http_drain_all.induct)
  case (2 j rest s)
  then obtain e where e: "ht_to_check s k = Some e" "n \<in> set (hx_senders e)" by (auto simp: waits_def)
  show ?case
  proof (cases "ht_to_check s j")
    case None
    with 2 e show ?thesis by auto
  next
    case (Some e')
    show ?thesis
    proof (cases "j = k")
      case True
      with Some e have "answered n (http_drain False j e' s)" by simp
      with http_drain_all_frame Some show ?thesis by simp
    next
      case False
      with "2.prems"(2) have "waits n k r (http_drain False j e' s)" by (auto simp: waits_def)
      with "2.IH"(2) [OF Some] "2.prems"(1) False Some show ?thesis by simp
    qed
  qed
qed simp

text \<open>A check answers a listener or counts a retry for it, and retries stay below the limit.\<close>

lemma http_check_settles:
  assumes "waits n k r s" and "distinct order" and "set order = dom (ht_to_check s)" and "n \<notin> fst ` set arrivals"
  shows "answered n (http_check order reply arrivals s)
    \<or> waits n k (r + 1) (http_check order reply arrivals s) \<and> r + 1 < ht_max_retries s"
proof -
  from assms(1) obtain e where e: "ht_to_check s k = Some e" "n \<in> set (hx_senders e)" "hx_retries e = r"
    by (auto simp: waits_def)
  with assms(3) have k: "k \<in> set order" by auto
  obtain s1 removed went where loop: "http_check_loop reply order s = (s1, removed, went)" using prod_cases3 by blast
  define s2 where "s2 = fold (\<lambda>(n, tx_id). http_check_transaction n tx_id) arrivals s1"
  note frame = http_arrivals_frame [OF assms(4), of k _ s1, folded s2_def]
  have check: "http_check order reply arrivals s =
      (if went then http_remove removed s2 else http_reject_all (order @ map snd arrivals) s2)"
    by (simp add: http_check_def loop s2_def Let_def)
  have kept: "answered n t \<Longrightarrow> answered n (http_remove removed t)" "answered n t \<Longrightarrow> answered n (http_reject_all ks t)" for t ks
    using http_drain_all_frame [of ks t n] by (simp_all add: http_remove_def http_reject_all_def answered_def)
  have rejected: "answered n (http_reject_all (order @ map snd arrivals) s2)" if "waits n k r' s2" for r'
    using http_drain_all_answers [OF _ that, of "order @ map snd arrivals"] k by (simp add: http_reject_all_def answered_def)
  from http_check_loop_entry [OF loop assms(2) k e(1,2)]
  consider "answered n s1" | "k \<notin> set removed" "waits n k (r + 1) s1" "r + 1 < ht_max_retries s"
    | "\<not> went" "waits n k r s1" using e by (auto simp: waits_def)
  then show ?thesis
  proof cases
    case 1
    with frame kept check show ?thesis by simp
  next
    case 2
    with frame have w: "waits n k (r + 1) s2" by simp
    with 2(1) have "waits n k (r + 1) (http_remove removed s2)" by (simp add: waits_def http_remove_def)
    with 2(3) w rejected check show ?thesis by simp
  next
    case 3
    with frame rejected check show ?thesis by simp
  qed
qed

lemma http_check_frame:
  "ht_max_retries (http_check order reply arrivals s) = ht_max_retries s"
  "answered n s \<Longrightarrow> answered n (http_check order reply arrivals s)"
proof -
  obtain s1 removed went where loop: "http_check_loop reply order s = (s1, removed, went)" using prod_cases3 by blast
  have m: "ht_max_retries (fold (\<lambda>(n, k). http_check_transaction n k) arrivals t) = ht_max_retries t \<and>
    (answered n (fold (\<lambda>(n, k). http_check_transaction n k) arrivals t) \<longleftrightarrow> answered n t)" for t
    by (induction arrivals arbitrary: t) (auto split: prod.splits)
  show "ht_max_retries (http_check order reply arrivals s) = ht_max_retries s"
    using http_check_loop_frame [OF loop, of n] m [of s1] http_drain_all_frame
    by (simp add: http_check_def loop Let_def http_remove_def http_reject_all_def)
  show "answered n s \<Longrightarrow> answered n (http_check order reply arrivals s)"
    using http_check_loop_frame [OF loop, of n] m [of s1] http_drain_all_frame
    by (simp add: http_check_def loop Let_def http_remove_def http_reject_all_def answered_def)
qed

fun count_checks :: "http_event list \<Rightarrow> nat" where
  "count_checks [] = 0"
| "count_checks (HttpRegister n k # es) = count_checks es"
| "count_checks (HttpCheck order reply arrivals # es) = Suc (count_checks es)"

lemma count_checks_snoc:
  "count_checks (es @ [HttpRegister n k]) = count_checks es"
  "count_checks (es @ [HttpCheck order reply arrivals]) = Suc (count_checks es)"
  by (induction es rule: count_checks.induct) simp_all

lemma http_run_progress:
  assumes "tool_run http_apply s0 es s" and "waits n k r s0" and "n \<notin> fst ` set (concat (map http_registered es))"
    and "unat r < u64_max"
  shows "ht_max_retries s = ht_max_retries s0 \<and> (answered n s \<or>
    (\<exists>r'. waits n k r' s \<and> unat r' = unat r + count_checks es \<and> (count_checks es \<noteq> 0 \<longrightarrow> r' < ht_max_retries s0)))"
  using assms
proof induction
  case (step es s e s')
  then have ih: "ht_max_retries s = ht_max_retries s0" "answered n s \<or>
      (\<exists>r'. waits n k r' s \<and> unat r' = unat r + count_checks es \<and> (count_checks es \<noteq> 0 \<longrightarrow> r' < ht_max_retries s0))"
    and new: "n \<notin> fst ` set (http_registered e)" by auto
  show ?case
  proof (cases e)
    case (HttpRegister m j)
    with step.hyps(2) ih new show ?thesis by (auto simp: count_checks_snoc)
  next
    case (HttpCheck order reply arrivals)
    with step.hyps(2) have s': "s' = http_check order reply arrivals s" and o: "distinct order" "set order = dom (ht_to_check s)"
      by (auto split: if_splits)
    show ?thesis
    proof (cases "answered n s")
      case True
      then show ?thesis using ih(1) by (simp add: s' http_check_frame)
    next
      case False
      with ih(2) obtain r' where r': "waits n k r' s" "unat r' = unat r + count_checks es"
        "count_checks es \<noteq> 0 \<longrightarrow> r' < ht_max_retries s0" by blast
      from http_check_settles [OF r'(1) o, of arrivals reply] new HttpCheck
      consider "answered n s'" | "waits n k (r' + 1) s'" "r' + 1 < ht_max_retries s" by (auto simp: s')
      then show ?thesis
      proof cases
        case 2
        have "unat r' < u64_max"
        proof (cases "count_checks es = 0")
          case True
          with r'(2) step.prems(3) show ?thesis by simp
        next
          case False
          with r'(3) have "unat r' < unat (ht_max_retries s0)" by (simp add: word_less_nat_alt)
          with unat_u64_bound [of "ht_max_retries s0"] show ?thesis by linarith
        qed
        then have "unat (r' + 1) = unat r' + 1" using unat_add_u64 [of r' 1] by simp
        with 2 r' ih(1) show ?thesis by (auto simp: s' http_check_frame HttpCheck count_checks_snoc)
      qed (simp add: s' http_check_frame ih(1))
    qed
  qed
qed auto

lemma reject_and_remove_answers_grow: "set (wz_answers s) \<subseteq> set (wz_answers (reject_and_remove k s))"
  by (auto simp: reject_and_remove_def ws_remove_def split: option.splits)

lemma reject_all_answers_grow: "set (wz_answers s) \<subseteq> set (wz_answers (fold reject_and_remove ks s))"
proof (induction ks arbitrary: s)
  case (Cons k ks)
  have "set (wz_answers s) \<subseteq> set (wz_answers (reject_and_remove k s))" by (rule reject_and_remove_answers_grow)
  also have "\<dots> \<subseteq> set (wz_answers (fold reject_and_remove (k # ks) s))" using Cons.IH by simp
  finally show ?case .
qed simp

lemma ws_reject_all_settles:
  assumes "k \<in> set ks" and "wz_to_check s k = Some e" and "n \<in> set (wx_senders e)"
  shows "(n, False) \<in> set (wz_answers (fold reject_and_remove ks s))"
  using assms
proof (induction ks arbitrary: s)
  case (Cons j ks)
  show ?case
  proof (cases "j = k")
    case True
    with Cons.prems have "(n, False) \<in> set (wz_answers (reject_and_remove j s))"
      by (simp add: reject_and_remove_def ws_remove_def send_all_def)
    then show ?thesis using reject_all_answers_grow [of "reject_and_remove j s" ks] by auto
  next
    case False
    with Cons show ?thesis by (auto simp: reject_and_remove_def ws_remove_def split: option.splits)
  qed
qed simp



end
