(* ===== verification/Chain_Scan.thy ===== *)
theory Chain_Scan
  imports Utxo_Nursery Boltz_Cache
begin

text \<open>
  How the chain client reads the chain, \<open>src/boltzr/src/chain/chain_client.rs\<close> over
  \<open>src/boltzr/src/chain/rpc_client.rs\<close>: the results of batched requests, the rescan of blocks and of the mempool for
  relevant transactions, the forwarding of new transactions and blocks, and the cache of raw
  transactions. The node is a record of its answers; a request that fails is \<open>None\<close>. Heights are
  below \<open>2 ^ 64 - 64\<close>, so no height of a batch wraps.
\<close>

subsection \<open>Requests\<close>

record 'a rpc_response =
  rpc_error :: "string option"
  rpc_result :: "'a option"

datatype rpc_failure = RpcMessage string | RpcNoResult | RpcTransport

definition response_result :: "'a rpc_response \<Rightarrow> (rpc_failure, 'a) result" where
  "response_result res =
     (case rpc_error res of
        Some err \<Rightarrow> Err (RpcMessage err)
      | None \<Rightarrow> (case rpc_result res of Some x \<Rightarrow> Ok x | None \<Rightarrow> Err RpcNoResult))"

definition request_internal :: "'a rpc_response option \<Rightarrow> (rpc_failure, 'a) result" where
  "request_internal reply = r_bind (ok_or RpcTransport reply) response_result"

definition request_batch :: "'a rpc_response list option \<Rightarrow> (rpc_failure, (rpc_failure, 'a) result list) result" where
  "request_batch reply = r_map (map response_result) (ok_or RpcTransport reply)"

record scan_node =
  node_tip :: "u64 rpc_response option"
  node_block_hashes :: "u64 list \<Rightarrow> string rpc_response list option"
  node_get_blocks :: "string list \<Rightarrow> string rpc_response list option"
  node_mempool :: "string list rpc_response option"
  node_raw_txs :: "string list \<Rightarrow> string rpc_response list option"

datatype transactions = SingleTx chain_tx | MultipleTx "chain_tx list"

fun transactions_iter :: "transactions \<Rightarrow> chain_tx list" where
  "transactions_iter (SingleTx tx) = [tx]"
| "transactions_iter (MultipleTx txs) = txs"

text \<open>What was forwarded to the receivers of the client, and the heights of the database.\<close>

record scan_state =
  sc_sent :: "(transactions \<times> bool) list"
  sc_tips :: "string \<rightharpoonup> i32"

definition BATCH_REQUEST_SIZE :: nat where
  "BATCH_REQUEST_SIZE = 64"

definition MAX_WORKERS :: nat where
  "MAX_WORKERS = 16"

definition is_relevant_tx :: "swap_outpoint set \<Rightarrow> bytes set \<Rightarrow> chain_tx \<Rightarrow> bool" where
  "is_relevant_tx relevant_inputs relevant_outputs tx \<longleftrightarrow>
     (\<exists>i \<in> set (input_outpoints tx). i \<in> relevant_inputs)
     \<or> (\<exists>s \<in> set (output_script_pubkeys tx). s \<in> relevant_outputs)"

subsection \<open>Rescan\<close>

text \<open>The heights of each request of the first task.\<close>

definition height_batches :: "u64 \<Rightarrow> u64 \<Rightarrow> u64 list list" where
  "height_batches start_height end_height =
     map (\<lambda>height. map word_of_nat [height ..< Suc (min (height + BATCH_REQUEST_SIZE - 1) (unat end_height))])
       (step_range (unat start_height) (Suc (unat end_height)) BATCH_REQUEST_SIZE)"

fun results_Ok :: "('k \<times> (rpc_failure, 'a) result) list \<Rightarrow> ('k \<times> 'a) list" where
  "results_Ok [] = []"
| "results_Ok ((k, r) # rest) = (case r of Ok x \<Rightarrow> (k, x) # results_Ok rest | _ \<Rightarrow> results_Ok rest)"

text \<open>The tasks hand each other what they fetched; a request that fails as a whole ends its task.\<close>

fun fetch_block_hashes :: "scan_node \<Rightarrow> u64 list list \<Rightarrow> (u64 \<times> string) list list" where
  "fetch_block_hashes node [] = []"
| "fetch_block_hashes node (heights # rest) =
     (case request_batch (node_block_hashes node heights) of
        Ok hashes \<Rightarrow> results_Ok (zip heights hashes) # fetch_block_hashes node rest
      | _ \<Rightarrow> [])"

fun fetch_blocks :: "scan_node \<Rightarrow> (u64 \<times> string) list list \<Rightarrow> (u64 \<times> string) list" where
  "fetch_blocks node [] = []"
| "fetch_blocks node (hashes # rest) =
     (case request_batch (node_get_blocks node (map snd hashes)) of
        Ok blocks \<Rightarrow> results_Ok (zip (map fst hashes) blocks) @ fetch_blocks node rest
      | _ \<Rightarrow> [])"

text \<open>Sending fails when nobody listens; the block is left then.\<close>

definition send_relevant ::
  "bool \<Rightarrow> swap_outpoint set \<Rightarrow> bytes set \<Rightarrow> bool \<Rightarrow> chain_tx list \<Rightarrow> scan_state \<Rightarrow> scan_state" where
  "send_relevant receivers ins scripts confirmed txs st =
     (if receivers
      then st\<lparr> sc_sent := sc_sent st @ map (\<lambda>tx. (SingleTx tx, confirmed)) (filter (is_relevant_tx ins scripts) txs) \<rparr>
      else st)"

fun scan_blocks ::
  "chain_lib \<Rightarrow> chain_type \<Rightarrow> bool \<Rightarrow> swap_outpoint set \<Rightarrow> bytes set \<Rightarrow> (u64 \<times> string) list \<Rightarrow> scan_state
    \<Rightarrow> (rpc_failure, scan_state) result" where
  "scan_blocks cl t receivers ins scripts [] st = Ok st"
| "scan_blocks cl t receivers ins scripts ((height, hex) # rest) st =
     (case block_parse_hex cl t hex of
        Ok b \<Rightarrow> scan_blocks cl t receivers ins scripts rest (send_relevant receivers ins scripts True (bk_transactions b) st)
      | Err e \<Rightarrow> scan_blocks cl t receivers ins scripts rest st
      | Panic \<Rightarrow> Panic)"

datatype scan_error =
    ScanNoTip rpc_failure | StartAfterEnd | ScanDatabase | ScanRpc rpc_failure | ScanParse chain_error

definition rescan ::
  "scan_node \<Rightarrow> chain_lib \<Rightarrow> chain_type \<Rightarrow> string \<Rightarrow> bool \<Rightarrow> bool \<Rightarrow> u64 \<Rightarrow> swap_outpoint set \<Rightarrow> bytes set
    \<Rightarrow> scan_state \<Rightarrow> scan_state \<times> (scan_error, u64) result" where
  "rescan node cl t symbol receivers db_ok start_height ins scripts st =
     (case request_internal (node_tip node) of
        Err err \<Rightarrow> (st, Err (ScanNoTip err))
      | Panic \<Rightarrow> (st, Panic)
      | Ok end_height \<Rightarrow>
          if start_height > end_height then (st, Err StartAfterEnd)
          else (case scan_blocks cl t receivers ins scripts
                  (fetch_blocks node (fetch_block_hashes node (height_batches start_height end_height))) st of
                  Ok st' \<Rightarrow>
                    if db_ok then (st'\<lparr> sc_tips := (sc_tips st')(symbol \<mapsto> ucast end_height) \<rparr>, Ok end_height)
                    else (st', Err ScanDatabase)
                | _ \<Rightarrow> (st, Panic)))"

subsection \<open>Mempool\<close>

fun fetch_chunk :: "scan_node \<Rightarrow> string list list \<Rightarrow> string list" where
  "fetch_chunk node [] = []"
| "fetch_chunk node (tx_ids # rest) =
     (case request_batch (node_raw_txs node tx_ids) of
        Ok txs \<Rightarrow> map snd (results_Ok (map (Pair ()) txs)) @ fetch_chunk node rest
      | _ \<Rightarrow> [])"

text \<open>
  The workers, one for each chunk, send into one channel; \<open>merge\<close> is the order in which their
  transactions come out of it.
\<close>

definition worker_chunks :: "nat \<Rightarrow> string list \<Rightarrow> string list list" where
  "worker_chunks parallelism mempool =
     (let fetcher_threads = max (min (parallelism div 2) MAX_WORKERS) 1
      in chunks (max (length mempool div fetcher_threads) 1) mempool)"

fun scan_received ::
  "chain_lib \<Rightarrow> chain_type \<Rightarrow> bool \<Rightarrow> swap_outpoint set \<Rightarrow> bytes set \<Rightarrow> string list \<Rightarrow> scan_state
    \<Rightarrow> scan_state \<times> (scan_error, unit) result" where
  "scan_received cl t receivers ins scripts [] st = (st, Ok ())"
| "scan_received cl t receivers ins scripts (hex # rest) st =
     (case chain_tx_parse_hex cl t hex of
        Err e \<Rightarrow> (st, Err (ScanParse e))
      | Panic \<Rightarrow> (st, Panic)
      | Ok tx \<Rightarrow>
          if is_relevant_tx ins scripts tx \<and> \<not> receivers then (st, Ok ())
          else scan_received cl t receivers ins scripts rest (send_relevant receivers ins scripts False [tx] st))"

definition scan_mempool ::
  "scan_node \<Rightarrow> chain_lib \<Rightarrow> chain_type \<Rightarrow> nat \<Rightarrow> (string list list \<Rightarrow> string list) \<Rightarrow> bool
    \<Rightarrow> swap_outpoint set \<Rightarrow> bytes set \<Rightarrow> scan_state \<Rightarrow> scan_state \<times> (scan_error, unit) result" where
  "scan_mempool node cl t parallelism merge receivers ins scripts st =
     (case request_internal (node_mempool node) of
        Err err \<Rightarrow> (st, Err (ScanRpc err))
      | Panic \<Rightarrow> (st, Panic)
      | Ok mempool \<Rightarrow>
          if mempool = [] then (st, Ok ())
          else scan_received cl t receivers ins scripts
            (merge (map (\<lambda>chunk. fetch_chunk node (chunks BATCH_REQUEST_SIZE chunk)) (worker_chunks parallelism mempool))) st)"

subsection \<open>New transactions and blocks\<close>

text \<open>
  The two tasks of the constructor: \<open>verbose\<close> is the answer of the node for the transaction with its
  confirmations, \<open>height\<close> that for the block.
\<close>

definition forward_tx :: "bool \<Rightarrow> u64 option option \<Rightarrow> chain_tx \<Rightarrow> (transactions \<times> bool) list" where
  "forward_tx receivers verbose tx =
     (if \<not> receivers then []
      else (case verbose of
              None \<Rightarrow> []
            | Some confirmations \<Rightarrow> if is_confirmed confirmations then [] else [(SingleTx tx, False)]))"

definition forward_block_txs :: "bool \<Rightarrow> block \<Rightarrow> (transactions \<times> bool) list" where
  "forward_block_txs receivers b = (if receivers then [(MultipleTx (bk_transactions b), True)] else [])"

definition forward_block :: "bool \<Rightarrow> u64 option \<Rightarrow> block \<Rightarrow> (u64 \<times> block) list" where
  "forward_block receivers height b =
     (if \<not> receivers then [] else (case height of None \<Rightarrow> [] | Some h \<Rightarrow> [(h, b)]))"

subsection \<open>Raw transactions\<close>

definition CACHE_KEY_RAW_TX :: string where
  "CACHE_KEY_RAW_TX = ''raw_tx''"

definition CACHE_TTL_SECS :: u64 where
  "CACHE_TTL_SECS = 60 * 60 * 24"

definition cache_key_raw_tx :: "string \<Rightarrow> string \<Rightarrow> string \<times> string" where
  "cache_key_raw_tx symbol tx_id = (CACHE_KEY_RAW_TX @ '':'' @ symbol, tx_id)"

datatype raw_tx_error = RawCache cache_error | RawRpc rpc_failure

definition raw_transaction ::
  "'r redis_server \<Rightarrow> string value_codec \<Rightarrow> int \<Rightarrow> string \<Rightarrow> string rpc_response option \<Rightarrow> string \<Rightarrow> 'r cache
    \<Rightarrow> 'r cache \<times> (raw_tx_error, string) result" where
  "raw_transaction srv codec now symbol reply tx_id cache =
     (case cache_key_raw_tx symbol tx_id of (key, field) \<Rightarrow>
        (case cache_get srv codec now key field cache of
           (cache1, Err e) \<Rightarrow> (cache1, Err (RawCache e))
         | (cache1, Panic) \<Rightarrow> (cache1, Panic)
         | (cache1, Ok (Some tx)) \<Rightarrow> (cache1, Ok tx)
         | (cache1, Ok None) \<Rightarrow>
             (case request_internal reply of
                Ok tx \<Rightarrow>
                  (case cache_set srv codec now key field tx (Some CACHE_TTL_SECS) cache1 of
                     (cache2, r) \<Rightarrow> (cache2, r_map (\<lambda>_. tx) (r_map_err RawCache r)))
              | Err e \<Rightarrow> (cache1, Err (RawRpc e))
              | Panic \<Rightarrow> (cache1, Panic))))"

subsection \<open>The batches cover every height once\<close>

lemma step_range_batches:
  "0 < n \<Longrightarrow> concat (map (\<lambda>h. [h ..< Suc (min (h + n - 1) e)]) (step_range s (Suc e) n)) = [s ..< Suc e]"
proof (induction s "Suc e" n rule: step_range.induct)
  case (1 s n)
  show ?case
  proof (cases "s \<le> e")
    case False
    then show ?thesis by (subst step_range.simps) simp
  next
    case True
    let ?m = "Suc (min (s + n - 1) e)"
    have rest: "concat (map (\<lambda>h. [h ..< Suc (min (h + n - 1) e)]) (step_range (s + n) (Suc e) n)) = [s + n ..< Suc e]"
      using 1 True by simp
    have "[s ..< ?m] @ [s + n ..< Suc e] = [s ..< Suc e]"
    proof (cases "s + n \<le> e")
      case True
      with \<open>0 < n\<close> have "?m = s + n" by simp
      moreover obtain k where "Suc e = s + n + k" using True by (metis le_Suc_ex le_SucI)
      ultimately show ?thesis using upt_add_eq_append [of s "s + n" k] by simp
    next
      case False
      with \<open>0 < n\<close> have "?m = Suc e" by simp
      with False show ?thesis by simp
    qed
    moreover have "step_range s (Suc e) n = s # step_range (s + n) (Suc e) n"
      using 1(2) True by (subst step_range.simps) simp
    ultimately show ?thesis using rest by simp
  qed
qed

lemma concat_height_batches:
  "concat (height_batches s e) = map word_of_nat [unat s ..< Suc (unat e)]"
proof -
  have "concat (height_batches s e) = map word_of_nat
    (concat (map (\<lambda>h. [h ..< Suc (min (h + BATCH_REQUEST_SIZE - 1) (unat e))]) (step_range (unat s) (Suc (unat e)) BATCH_REQUEST_SIZE)))"
    by (simp add: height_batches_def map_concat comp_def)
  moreover have "0 < BATCH_REQUEST_SIZE" by (simp add: BATCH_REQUEST_SIZE_def)
  ultimately show ?thesis by (simp only: step_range_batches)
qed

subsection \<open>A rescan finds every relevant transaction\<close>

definition rpc_ok :: "'a \<Rightarrow> 'a rpc_response" where
  "rpc_ok x = \<lparr> rpc_error = None, rpc_result = Some x \<rparr>"

lemma response_result_ok [simp]: "response_result (rpc_ok x) = Ok x"
  by (simp add: response_result_def rpc_ok_def)

lemma results_Ok_ok: "results_Ok (zip ks (map Ok xs)) = zip ks xs"
  by (induction ks xs rule: list_induct2') auto

lemma results_Ok_mem: "(k, x) \<in> set (results_Ok ps) \<longleftrightarrow> (k, Ok x) \<in> set ps"
  by (induction ps rule: results_Ok.induct) (auto split: result.splits)

text \<open>A node that answers every request about the blocks of a chain.\<close>

definition node_serves :: "scan_node \<Rightarrow> (u64 \<Rightarrow> string) \<Rightarrow> (string \<Rightarrow> string) \<Rightarrow> bool" where
  "node_serves node hash_of raw_of \<longleftrightarrow>
     (\<forall>hs. node_block_hashes node hs = Some (map (\<lambda>h. rpc_ok (hash_of h)) hs)) \<and>
     (\<forall>ids. node_get_blocks node ids = Some (map (\<lambda>i. rpc_ok (raw_of i)) ids))"

lemma fetch_block_hashes_all:
  assumes "node_serves node hash_of raw_of"
  shows "fetch_block_hashes node batches = map (map (\<lambda>h. (h, hash_of h))) batches"
proof (induction batches)
  case (Cons hs rest)
  have "results_Ok (zip hs (map (\<lambda>h. Ok (hash_of h)) hs)) = map (\<lambda>h. (h, hash_of h)) hs"
    using results_Ok_ok [of hs "map hash_of hs"] by (simp add: comp_def zip_map2 zip_same_conv_map)
  then show ?case using assms Cons by (simp add: node_serves_def request_batch_def comp_def)
qed simp

lemma fetch_blocks_all:
  assumes "node_serves node hash_of raw_of"
  shows "fetch_blocks node (map (map (\<lambda>h. (h, hash_of h))) batches)
       = map (\<lambda>h. (h, raw_of (hash_of h))) (concat batches)"
proof (induction batches)
  case (Cons hs rest)
  have "results_Ok (zip hs (map (\<lambda>h. Ok (raw_of (hash_of h))) hs)) = map (\<lambda>h. (h, raw_of (hash_of h))) hs"
    using results_Ok_ok [of hs "map (raw_of \<circ> hash_of) hs"] by (simp add: comp_def zip_map2 zip_same_conv_map)
  then show ?case using assms Cons by (simp add: node_serves_def request_batch_def comp_def)
qed simp

lemma scan_blocks_all:
  assumes "\<And>h. h \<in> set hs \<Longrightarrow> block_parse_hex cl t (raw h) = Ok (blk h)"
  shows "scan_blocks cl t True ins scripts (map (\<lambda>h. (h, raw h)) hs) st
    = Ok (st\<lparr> sc_sent := sc_sent st @ map (\<lambda>tx. (SingleTx tx, True))
        (filter (is_relevant_tx ins scripts) (concat (map (bk_transactions \<circ> blk) hs))) \<rparr>)"
  using assms by (induction hs arbitrary: st) (simp_all add: send_relevant_def)

text \<open>
  A rescan on a node that answers is a scan of every block from the start to the tip: although
  it asks for hashes and blocks in batches and hands them between tasks, it forwards exactly the
  relevant transactions, each as confirmed and in the order of the chain, and stores the tip.
\<close>

theorem rescan_scans_all:
  assumes "node_tip node = Some (rpc_ok e)" and "s \<le> e" and "node_serves node hash_of raw_of"
    and "\<And>h. s \<le> h \<Longrightarrow> h \<le> e \<Longrightarrow> block_parse_hex cl t (raw_of (hash_of h)) = Ok (blk h)"
  shows "rescan node cl t symbol True True s ins scripts st =
    (st\<lparr> sc_sent := sc_sent st @ map (\<lambda>tx. (SingleTx tx, True)) (filter (is_relevant_tx ins scripts)
            (concat (map (\<lambda>h. bk_transactions (blk (word_of_nat h))) [unat s ..< Suc (unat e)]))),
         sc_tips := (sc_tips st)(symbol \<mapsto> ucast e) \<rparr>, Ok e)"
proof -
  let ?hs = "map word_of_nat [unat s ..< Suc (unat e)] :: u64 list"
  have range: "s \<le> h \<and> h \<le> e" if "h \<in> set ?hs" for h
  proof -
    from that obtain n where h: "h = word_of_nat n" and n: "unat s \<le> n" "n \<le> unat e" by auto
    have "n < 2 ^ 64" using n(2) unat_u64_bound [of e] by (simp add: u64_max_def)
    then have "unat h = n" by (simp add: h unat_of_nat)
    with n show ?thesis by (simp add: word_le_nat_alt)
  qed
  have fetched: "fetch_blocks node (fetch_block_hashes node (height_batches s e))
      = map (\<lambda>h. (h, raw_of (hash_of h))) ?hs"
    by (simp only: fetch_block_hashes_all [OF assms(3)] fetch_blocks_all [OF assms(3)] concat_height_batches)
  have scanned: "scan_blocks cl t True ins scripts (map (\<lambda>h. (h, raw_of (hash_of h))) ?hs) st
    = Ok (st\<lparr> sc_sent := sc_sent st @ map (\<lambda>tx. (SingleTx tx, True))
        (filter (is_relevant_tx ins scripts) (concat (map (bk_transactions \<circ> blk) ?hs))) \<rparr>)"
    using assms(4) range by (intro scan_blocks_all) blast
  show ?thesis
    using assms(1,2) by (simp only: rescan_def request_internal_def ok_or.simps r_bind.simps response_result_ok
        result.case fetched scanned) (simp add: comp_def)
qed

definition example_scan_node :: scan_node where
  "example_scan_node =
     \<lparr> node_tip = Some (rpc_ok 101), node_block_hashes = (\<lambda>hs. Some (map (\<lambda>h. rpc_ok ''h'') hs)),
       node_get_blocks = (\<lambda>ids. Some (map (\<lambda>i. rpc_ok ''b'') ids)),
       node_mempool = Some (rpc_ok [''x'', ''y'']),
       node_raw_txs = (\<lambda>ids. Some (map rpc_ok ids)) \<rparr>"

definition example_scan_lib :: chain_lib where
  "example_scan_lib = example_chain_lib
     \<lparr> cl_btc_block := \<lambda>_. Some ([], [example_prev_tx, example_spending_tx]),
       cl_btc_deserialize := \<lambda>_. Some example_spending_tx \<rparr>"

theorem rescan_scans_all_witness:
  "rescan example_scan_node example_scan_lib TypeBitcoin ''BTC'' True True 100 {} {[3]} \<lparr> sc_sent = [], sc_tips = Map.empty \<rparr> =
    (\<lparr> sc_sent = [(SingleTx (TxBitcoin example_spending_tx), True), (SingleTx (TxBitcoin example_spending_tx), True)],
       sc_tips = [''BTC'' \<mapsto> 101] \<rparr>, Ok 101)"
proof -
  define blk where "blk = (\<lambda>h :: u64. \<lparr> bk_header = HeaderBitcoin [], bk_transactions = [TxBitcoin example_prev_tx, TxBitcoin example_spending_tx] \<rparr>)"
  have "block_parse_hex example_scan_lib TypeBitcoin ''b'' = Ok (blk h)" for h
    by (simp add: block_parse_hex_def example_scan_lib_def example_chain_lib_def blk_def)
  moreover have "node_serves example_scan_node (\<lambda>_. ''h'') (\<lambda>_. ''b'')"
    by (simp add: node_serves_def example_scan_node_def)
  moreover have "node_tip example_scan_node = Some (rpc_ok 101)" by (simp add: example_scan_node_def)
  moreover have "[unat (100::u64) ..< Suc (unat (101::u64))] = [100, 101]" by (simp add: upt_rec)
  ultimately show ?thesis
    using rescan_scans_all [of example_scan_node 101 100 "\<lambda>_. ''h''" "\<lambda>_. ''b''" example_scan_lib TypeBitcoin blk
        "''BTC''" "{}" "{[3]}" "\<lparr> sc_sent = [], sc_tips = Map.empty \<rparr>"]
    by (simp add: blk_def is_relevant_tx_def example_prev_tx_def example_spending_tx_def)
qed

text \<open>
  A rescan does not notice what it could not read: when the node answers none of the requests for
  hashes, nothing is scanned, and still the tip is stored and reported as scanned.
\<close>

lemma rescan_stores_tip_unscanned:
  assumes "node_tip node = Some (rpc_ok e)" and "s \<le> e" and "\<And>hs. node_block_hashes node hs = None"
  shows "rescan node cl t symbol receivers True s ins scripts st
    = (st\<lparr> sc_tips := (sc_tips st)(symbol \<mapsto> ucast e) \<rparr>, Ok e)"
proof -
  have "fetch_block_hashes node bs = []" for bs
    by (cases bs) (simp_all add: request_batch_def assms(3))
  with assms(1,2) show ?thesis by (simp add: rescan_def request_internal_def)
qed

subsection \<open>A scan of the mempool finds every relevant transaction\<close>

lemma fetch_chunk_all:
  assumes "\<And>ids. node_raw_txs node ids = Some (map (\<lambda>i. rpc_ok (raw i)) ids)"
  shows "fetch_chunk node batches = map raw (concat batches)"
proof (induction batches)
  case (Cons ids rest)
  have "map snd (results_Ok (map (\<lambda>i. ((), Ok (raw i))) ids)) = map raw ids" by (induction ids) simp_all
  then show ?case using Cons by (simp add: request_batch_def assms comp_def)
qed simp

lemma scan_received_all:
  assumes "\<And>x. x \<in> set hexes \<Longrightarrow> chain_tx_parse_hex cl t x = Ok (tx_of x)"
  shows "scan_received cl t True ins scripts hexes st
    = (st\<lparr> sc_sent := sc_sent st @ map (\<lambda>tx. (SingleTx tx, False)) (filter (is_relevant_tx ins scripts) (map tx_of hexes)) \<rparr>, Ok ())"
  using assms by (induction hexes arbitrary: st) (simp_all add: send_relevant_def)

text \<open>
  A scan of the mempool on a node that answers forwards exactly the relevant transactions of the
  mempool, each once and as unconfirmed, however many workers fetch them and in whatever order they
  finish.
\<close>

theorem scan_mempool_scans_all:
  assumes "node_mempool node = Some (rpc_ok ids)"
    and "\<And>ids'. node_raw_txs node ids' = Some (map (\<lambda>i. rpc_ok (raw i)) ids')"
    and "\<And>xss. mset (merge xss) = mset (concat xss)"
    and "\<And>i. i \<in> set ids \<Longrightarrow> chain_tx_parse_hex cl t (raw i) = Ok (tx_of (raw i))"
  shows "\<exists>sent. scan_mempool node cl t parallelism merge True ins scripts st = (st\<lparr> sc_sent := sc_sent st @ sent \<rparr>, Ok ()) \<and>
    mset sent = mset (map (\<lambda>i. (SingleTx (tx_of (raw i)), False)) (filter (\<lambda>i. is_relevant_tx ins scripts (tx_of (raw i))) ids))"
proof (cases "ids = []")
  case True
  then show ?thesis
    using assms(1) by (intro exI [of _ "[]"]) (simp add: scan_mempool_def request_internal_def)
next
  case False
  let ?streams = "map (\<lambda>chunk. fetch_chunk node (chunks BATCH_REQUEST_SIZE chunk)) (worker_chunks parallelism ids)"
  let ?rx = "merge ?streams"
  have "concat ?streams = map raw (concat (worker_chunks parallelism ids))"
    by (simp add: fetch_chunk_all [OF assms(2)] concat_chunks BATCH_REQUEST_SIZE_def map_concat)
  also have "concat (worker_chunks parallelism ids) = ids"
    by (simp add: worker_chunks_def Let_def concat_chunks)
  finally have rx: "mset ?rx = mset (map raw ids)" by (simp add: assms(3))
  then have "set ?rx = raw ` set ids" by (metis set_map set_mset_mset)
  with assms(4) have "scan_received cl t True ins scripts ?rx st
    = (st\<lparr> sc_sent := sc_sent st @ map (\<lambda>tx. (SingleTx tx, False)) (filter (is_relevant_tx ins scripts) (map tx_of ?rx)) \<rparr>, Ok ())"
    by (intro scan_received_all) auto
  moreover have "mset (map (\<lambda>tx. (SingleTx tx, False)) (filter (is_relevant_tx ins scripts) (map tx_of ?rx)))
    = mset (map (\<lambda>tx. (SingleTx tx, False)) (filter (is_relevant_tx ins scripts) (map tx_of (map raw ids))))"
    by (simp only: mset_map mset_filter rx)
  then have "mset (map (\<lambda>tx. (SingleTx tx, False)) (filter (is_relevant_tx ins scripts) (map tx_of ?rx)))
    = mset (map (\<lambda>i. (SingleTx (tx_of (raw i)), False)) (filter (\<lambda>i. is_relevant_tx ins scripts (tx_of (raw i))) ids))"
    by (simp add: filter_map comp_def)
  moreover have "scan_mempool node cl t parallelism merge True ins scripts st = scan_received cl t True ins scripts ?rx st"
    using False assms(1) by (simp add: scan_mempool_def request_internal_def)
  ultimately show ?thesis by auto
qed

theorem scan_mempool_scans_all_witness:
  "\<exists>sent. scan_mempool example_scan_node example_scan_lib TypeBitcoin 8 (concat \<circ> rev) True {} {[3]} \<lparr> sc_sent = [], sc_tips = Map.empty \<rparr>
      = (\<lparr> sc_sent = sent, sc_tips = Map.empty \<rparr>, Ok ()) \<and> length sent = 2"
proof -
  let ?st = "\<lparr> sc_sent = [], sc_tips = Map.empty \<rparr>"
  have merge: "mset ((concat \<circ> rev) xss) = mset (concat xss)" for xss :: "string list list"
    by (induction xss) simp_all
  have parse: "chain_tx_parse_hex example_scan_lib TypeBitcoin x = Ok (TxBitcoin example_spending_tx)" for x
    by (simp add: chain_tx_parse_hex_def example_scan_lib_def example_chain_lib_def)
  have node: "node_mempool example_scan_node = Some (rpc_ok [''x'', ''y''])"
    "node_raw_txs example_scan_node ids = Some (map (\<lambda>i. rpc_ok (id i)) ids)" for ids
    by (simp_all add: example_scan_node_def)
  have rel: "is_relevant_tx {} {[3]} (TxBitcoin example_spending_tx)"
    by (simp add: is_relevant_tx_def example_spending_tx_def)
  from scan_mempool_scans_all [where merge = "concat \<circ> rev" and ins = "{}" and scripts = "{[3]}" and st = ?st
      and tx_of = "\<lambda>_. TxBitcoin example_spending_tx" and parallelism = 8, OF node merge parse]
  obtain sent where "scan_mempool example_scan_node example_scan_lib TypeBitcoin 8 (concat \<circ> rev) True {} {[3]} ?st
      = (?st\<lparr> sc_sent := sc_sent ?st @ sent \<rparr>, Ok ())"
    and "mset sent = mset (map (\<lambda>i. (SingleTx (TxBitcoin example_spending_tx), False)) [''x'', ''y''])"
    using rel by auto
  moreover from this(2) have "length sent = 2" by (simp flip: size_mset)
  ultimately show ?thesis by auto
qed

end
