(* ===== verification/Swap_Manager.thy ===== *)
theory Swap_Manager
  imports Chain_Scan Timeout_Delta
begin

text \<open>
  The swap manager, \<open>src/boltzr/src/swap/manager.rs\<close>, which puts the other parts together: the
  timeouts of new swaps, the claim of several swaps with one transaction, and the rescan of all
  chains with the filters of the pending swaps. Chain clients and wallets are records of what they
  answer; the tables of swaps are repositories, as for the filters.
\<close>

subsection \<open>State\<close>

record mgr_client =
  mc_symbol :: string
  mc_type :: chain_type
  mc_network :: network
  mc_raw_transaction :: "string \<Rightarrow> string option"
  mc_estimate_fee :: "f64 option"
  mc_node :: scan_node
  mc_receivers :: bool
  mc_parallelism :: nat
  mc_merge :: "string list list \<Rightarrow> string list"

record mgr_wallet =
  mw_keys :: wallet
  mw_new_address :: "string \<Rightarrow> string option"

record mgr_currency =
  my_chain :: "mgr_client option"
  my_wallet :: "mgr_wallet option"

text \<open>\<open>mg_symbols\<close> is the order in which the map of currencies is iterated.\<close>

record ('b, 'e, 'f, 'c, 's) manager =
  mg_currencies :: "string \<rightharpoonup> mgr_currency"
  mg_symbols :: "string list"
  mg_swaps :: "swap repo"
  mg_reverse_swaps :: "reverse_swap repo"
  mg_chain_swaps :: "chain_swap_info repo"
  mg_tips_ok :: bool
  mg_block_times :: block_times
  mg_timeouts :: timeout_deltas
  mg_cl :: chain_lib
  mg_alib :: "('b, 'e) address_lib"
  mg_script_pubkey :: "'b \<Rightarrow> bytes"
  mg_el_address :: "'e \<Rightarrow> el_address"
  mg_hash_bytes :: "string \<Rightarrow> bytes"
  mg_mu :: "('c, 's) musig_lib"
  mg_dl :: details_lib
  mg_bl :: bitcoin_lib
  mg_el :: "'f elements_lib"
  mg_rng :: "bool \<Rightarrow> 'f el_rng"

datatype manager_error =
    MDb filter_error | SwapsNotFound "string list" | NoSwapsProvided | MPair pair_error
  | ClaimSymbolsDiffer | MCurrencyNotFound string | MNoChainClient string | MNoWallet
  | MDetails details_error | MFee | MWallet | MAddress address_error | MWrapper wrapper_error
  | MNetwork network_error | MTimeouts td_error | MNotImplemented | MTips
  | RescanFailed string scan_error | MempoolFailed string scan_error

subsection \<open>Timeouts\<close>

definition manager_get_timeouts ::
  "('b, 'e, 'f, 'c, 's) manager \<Rightarrow> string \<Rightarrow> string \<Rightarrow> swap_type \<Rightarrow> (manager_error, u64 \<times> u64) result" where
  "manager_get_timeouts m receiving sending kind =
     (case kind of
        Reverse \<Rightarrow>
          r_map_err MTimeouts
            (get_timeouts (mg_block_times m) (mg_timeouts m) (concat_pair receiving sending) Buy kind)
      | _ \<Rightarrow> Err MNotImplemented)"

subsection \<open>Claims of several swaps\<close>

datatype claimable = ClaimSubmarine swap | ClaimChain chain_swap_info

fun claimable_id :: "claimable \<Rightarrow> string" where
  "claimable_id (ClaimSubmarine s) = sw_id s"
| "claimable_id (ClaimChain c) = cs_id (ci_swap c)"

fun claimable_symbol :: "claimable \<Rightarrow> (pair_error, string) result" where
  "claimable_symbol (ClaimSubmarine s) = sw_claim_symbol s"
| "claimable_symbol (ClaimChain c) = ci_claim_symbol c"

fun claimable_details ::
  "('b, 'e, 'f, 'c, 's) manager \<Rightarrow> mgr_wallet \<Rightarrow> mgr_client \<Rightarrow> claimable \<Rightarrow> (details_error, wrapper_input) result" where
  "claimable_details m w client (ClaimSubmarine s) =
     sw_claim_details (mg_mu m) (mg_dl m) (mw_keys w) (mc_raw_transaction client) s"
| "claimable_details m w client (ClaimChain c) =
     ci_claim_details (mg_mu m) (mg_dl m) (mw_keys w) (mc_raw_transaction client) c"

fun join_with :: "string \<Rightarrow> string list \<Rightarrow> string" where
  "join_with sep [] = ''''"
| "join_with sep [x] = x"
| "join_with sep (x # y # rest) = x @ sep @ join_with sep (y # rest)"

definition label_batch_claim :: "string list \<Rightarrow> string" where
  "label_batch_claim ids = ''Batch claim of Swaps '' @ join_with '', '' ids"

definition find_claimables :: "('b, 'e, 'f, 'c, 's) manager \<Rightarrow> string list \<Rightarrow> (manager_error, claimable list) result" where
  "find_claimables m swap_ids =
     r_bind (r_map_err MDb (mg_swaps m (\<lambda>s. sw_id s \<in> set swap_ids))) (\<lambda>submarines.
     r_bind (r_map_err MDb (mg_chain_swaps m (\<lambda>c. cs_id (ci_swap c) \<in> set swap_ids))) (\<lambda>chain_swaps.
       let swaps = map ClaimSubmarine submarines @ map ClaimChain chain_swaps;
           missing = filter (\<lambda>i. i \<notin> claimable_id ` set swaps) swap_ids
       in if missing \<noteq> [] then Err (SwapsNotFound missing) else Ok swaps))"

definition batch_symbol :: "claimable list \<Rightarrow> (manager_error, string) result" where
  "batch_symbol swaps =
     (case swaps of
        [] \<Rightarrow> Err NoSwapsProvided
      | first # _ \<Rightarrow>
          r_bind (r_map_err MPair (claimable_symbol first)) (\<lambda>claim_symbol.
            if list_ex (\<lambda>s. case claimable_symbol s of Ok symbol \<Rightarrow> symbol \<noteq> claim_symbol | _ \<Rightarrow> True) swaps
            then Err ClaimSymbolsDiffer else Ok claim_symbol))"

definition construct_batch ::
  "('b, 'e, 'f::comm_ring_1, 'c, 's) manager \<Rightarrow> mgr_client \<Rightarrow> wrapper_input list \<Rightarrow> f64 \<Rightarrow> ('b, 'e) address
    \<Rightarrow> (manager_error, wrapper_tx \<times> u64) result" where
  "construct_batch m client inputs fee address =
     (case mc_type client of
        TypeBitcoin \<Rightarrow>
          r_bind (r_map_err MWrapper (r_mapM into_bitcoin_input inputs)) (\<lambda>inputs.
          r_bind (r_map_err MAddress (into_bitcoin_address address)) (\<lambda>a.
            r_map_err MWrapper (wrapper_construct_tx (mg_bl m) (mg_el m) (mg_rng m)
              (BitcoinParams \<lparr> bp_inputs = inputs, bp_destination = Single (mg_script_pubkey m a), bp_fee = Relative fee \<rparr>))))
      | TypeElements \<Rightarrow>
          r_bind (r_map_err MWrapper (r_mapM into_elements_input inputs)) (\<lambda>inputs.
          r_bind (r_map_err MNetwork (liquid_genesis_hash (mc_network client))) (\<lambda>genesis_hash.
          r_bind (r_map_err MAddress (into_elements_address address)) (\<lambda>a.
            r_map_err MWrapper (wrapper_construct_tx (mg_bl m) (mg_el m) (mg_rng m)
              (ElementsParams \<lparr> ep_genesis_hash = mg_hash_bytes m genesis_hash, ep_inputs = inputs,
                ep_destination = Single (mg_el_address m a), ep_fee = Relative fee \<rparr>))))))"

text \<open>
  The details of up to sixteen swaps are prepared at a time, but taken in order, and the first error
  in that order is returned.
\<close>

definition claim_batch ::
  "('b, 'e, 'f::comm_ring_1, 'c, 's) manager \<Rightarrow> string list \<Rightarrow> (manager_error, wrapper_tx \<times> u64) result" where
  "claim_batch m swap_ids =
     r_bind (find_claimables m swap_ids) (\<lambda>swaps.
     r_bind (batch_symbol swaps) (\<lambda>claim_symbol.
     r_bind (ok_or (MCurrencyNotFound claim_symbol) (mg_currencies m claim_symbol)) (\<lambda>currency.
     r_bind (ok_or (MNoChainClient claim_symbol) (my_chain currency)) (\<lambda>client.
     r_bind (ok_or MNoWallet (my_wallet currency)) (\<lambda>w.
     r_bind (r_map_err MDetails (r_mapM (claimable_details m w client) swaps)) (\<lambda>inputs.
     r_bind (ok_or MFee (mc_estimate_fee client)) (\<lambda>fee.
     r_bind (ok_or MWallet (mw_new_address w (label_batch_claim swap_ids))) (\<lambda>text.
     r_bind (r_map_err MAddress (address_try_from (mg_alib m) text)) (\<lambda>address.
       construct_batch m client inputs fee address)))))))))"

subsection \<open>Rescans\<close>

record rescan_options =
  ro_symbol :: string
  ro_start_height :: u64
  ro_include_mempool :: bool

record rescan_result =
  rr_symbol :: string
  rr_start_height :: u64
  rr_end_height :: u64

text \<open>The channels of the chain clients, by symbol, and the table of chain tips.\<close>

record manager_state =
  mst_sent :: "string \<Rightarrow> (transactions \<times> bool) list"
  mst_tips :: "string \<rightharpoonup> i32"

definition requested_clients ::
  "('b, 'e, 'f, 'c, 's) manager \<Rightarrow> rescan_options list \<Rightarrow> (manager_error, (rescan_options \<times> mgr_client) list) result" where
  "requested_clients m options =
     r_mapM (\<lambda>opt.
       r_bind (ok_or (MCurrencyNotFound (ro_symbol opt)) (mg_currencies m (ro_symbol opt))) (\<lambda>cur.
       r_bind (ok_or (MNoChainClient (ro_symbol opt)) (my_chain cur)) (\<lambda>client. Ok (opt, client)))) options"

text \<open>The stored height is widened with its sign.\<close>

definition tip_start :: "(string \<rightharpoonup> i32) \<Rightarrow> string \<Rightarrow> mgr_client \<Rightarrow> u64" where
  "tip_start tips symbol client =
     (case tips symbol of
        Some height \<Rightarrow> scast height
      | None \<Rightarrow> (case request_internal (node_tip (mc_node client)) of Ok blocks \<Rightarrow> blocks | _ \<Rightarrow> 0))"

definition all_clients ::
  "('b, 'e, 'f, 'c, 's) manager \<Rightarrow> (string \<rightharpoonup> i32) \<Rightarrow> (rescan_options \<times> mgr_client) list" where
  "all_clients m tips =
     List.map_filter (\<lambda>symbol.
       Option.bind (mg_currencies m symbol) (\<lambda>cur.
         map_option (\<lambda>client. (\<lparr> ro_symbol = symbol, ro_start_height = tip_start tips symbol client,
             ro_include_mempool = True \<rparr>, client)) (my_chain cur))) (mg_symbols m)"

definition filter_currencies :: "('b, 'e, 'f, 'c, 's) manager \<Rightarrow> currencies" where
  "filter_currencies m symbol =
     map_option (\<lambda>cur. \<lparr> cur_chain = (my_chain cur \<noteq> None), cur_wallet = map_option mw_keys (my_wallet cur) \<rparr>)
       (mg_currencies m symbol)"

definition manager_filters :: "('b, 'e, 'f, 'c, 's) manager \<Rightarrow> (filter_error, filters) result" where
  "manager_filters m = get_input_output_filters (dl_hex_decode (mg_dl m)) (filter_currencies m)
     (mg_swaps m) (mg_reverse_swaps m) (mg_chain_swaps m)"

text \<open>The scan of one chain: its blocks, and its mempool when that is asked for.\<close>

definition scan_chain ::
  "chain_lib \<Rightarrow> bool \<Rightarrow> swap_outpoint set \<times> bytes set \<Rightarrow> rescan_options \<Rightarrow> mgr_client \<Rightarrow> scan_state
    \<Rightarrow> scan_state \<times> (manager_error, rescan_result) result" where
  "scan_chain cl tips_ok entry opt client st =
     (case rescan (mc_node client) cl (mc_type client) (mc_symbol client) (mc_receivers client) tips_ok
        (ro_start_height opt) (fst entry) (snd entry) st of
        (st1, Ok end_height) \<Rightarrow>
          (let res = \<lparr> rr_symbol = mc_symbol client, rr_start_height = ro_start_height opt, rr_end_height = end_height \<rparr>
           in if ro_include_mempool opt
              then (case scan_mempool (mc_node client) cl (mc_type client) (mc_parallelism client) (mc_merge client)
                      (mc_receivers client) (fst entry) (snd entry) st1 of
                      (st2, Ok u) \<Rightarrow> (st2, Ok res)
                    | (st2, Err e) \<Rightarrow> (st2, Err (MempoolFailed (mc_symbol client) e))
                    | (st2, Panic) \<Rightarrow> (st2, Panic))
              else (st1, Ok res))
      | (st1, Err e) \<Rightarrow> (st1, Err (RescanFailed (mc_symbol client) e))
      | (st1, Panic) \<Rightarrow> (st1, Panic))"

definition rescan_client ::
  "('b, 'e, 'f, 'c, 's) manager \<Rightarrow> filters \<Rightarrow> rescan_options \<times> mgr_client \<Rightarrow> manager_state
    \<Rightarrow> manager_state \<times> (manager_error, rescan_result) result" where
  "rescan_client m fs oc st =
     (case oc of (opt, client) \<Rightarrow>
        case scan_chain (mg_cl m) (mg_tips_ok m) (filter_entry fs (mc_symbol client)) opt client
          \<lparr> sc_sent = mst_sent st (mc_symbol client), sc_tips = mst_tips st \<rparr> of
          (s, r) \<Rightarrow> (\<lparr> mst_sent = (mst_sent st)(mc_symbol client := sc_sent s), mst_tips = sc_tips s \<rparr>, r))"

text \<open>
  The scans of all chains run to their end, whatever the others return. They run at the same time,
  but each writes to the channel of its own client and to the tip of its own symbol only; they are
  run here one after the other.
\<close>

fun rescan_clients ::
  "('b, 'e, 'f, 'c, 's) manager \<Rightarrow> filters \<Rightarrow> (rescan_options \<times> mgr_client) list \<Rightarrow> manager_state
    \<Rightarrow> manager_state \<times> (manager_error, rescan_result) result list" where
  "rescan_clients m fs [] st = (st, [])"
| "rescan_clients m fs (oc # rest) st =
     (case rescan_client m fs oc st of
        (st', r) \<Rightarrow> (case rescan_clients m fs rest st' of (st'', rs) \<Rightarrow> (st'', r # rs)))"

definition rescan_chains ::
  "('b, 'e, 'f, 'c, 's) manager \<Rightarrow> rescan_options list option \<Rightarrow> manager_state
    \<Rightarrow> manager_state \<times> (manager_error, rescan_result list) result" where
  "rescan_chains m options st =
     (case r_bind (case options of
              Some options \<Rightarrow> requested_clients m options
            | None \<Rightarrow> if mg_tips_ok m then Ok (all_clients m (mst_tips st)) else Err MTips) (\<lambda>clients.
            r_map (Pair clients) (r_map_err MDb (manager_filters m))) of
        Ok (clients, fs) \<Rightarrow>
          (case rescan_clients m fs clients st of (st', results) \<Rightarrow> (st', r_mapM id results))
      | Err e \<Rightarrow> (st, Err e)
      | Panic \<Rightarrow> (st, Panic))"

subsection \<open>What a batch claim spends\<close>

lemma construct_tx_outpoints:
  assumes "construct_tx bl inputs d ft = Ok (tx, fee)"
  shows "mset (map previous_output (tx_inputs tx)) = mset (map prev_outpoint inputs)"
  using construct_raw_previous_outputs [OF construct_tx_raw [OF assms]] by simp

lemma construct_tx_single_output:
  assumes "construct_tx bl inputs (Single dest) ft = Ok (tx, fee)"
  shows "map out_script (tx_outputs tx) = [dest]"
proof -
  from construct_tx_raw [OF assms] obtain s where "construct_outputs bl s (Single dest) fee = Ok (tx_outputs tx)"
    by (rule construct_raw_Ok)
  from construct_outputs_order [OF this] show ?thesis by simp
qed

lemma el_construct_raw_outpoints:
  assumes "el_construct_raw lib rng gh inputs unblinded asset_id d fee est = Ok tx"
  shows "map previous_output (el_inputs tx) = map el_outpoint inputs"
proof -
  from assms obtain lock_time out signed where
    signed: "r_mapM (el_sign_input lib gh \<lparr>el_version = 2, el_lock_time = lock_time,
        el_inputs = map el_unsigned_input inputs, el_outputs = out\<rparr> (map el_prev_out inputs))
      (zip (enumerate 0 inputs) (map el_unsigned_input inputs)) = Ok signed"
    and tx: "el_inputs tx = signed"
    by (auto simp: el_construct_raw_def Let_def)
  from signed have "list_all2 (\<lambda>x y. el_sign_input lib gh \<lparr>el_version = 2, el_lock_time = lock_time,
        el_inputs = map el_unsigned_input inputs, el_outputs = out\<rparr> (map el_prev_out inputs) x = Ok y)
      (zip (enumerate 0 inputs) (map el_unsigned_input inputs)) signed"
    by (simp add: r_mapM_Ok_iff)
  then have "list_all2 (\<lambda>x y. previous_output y = previous_output (snd x))
      (zip (enumerate 0 inputs) (map el_unsigned_input inputs)) signed"
    by (rule list_all2_mono) (auto simp: el_sign_input_def)
  then have "map previous_output signed
      = map (previous_output \<circ> snd) (zip (enumerate 0 inputs) (map el_unsigned_input inputs))"
    by (induction rule: list_all2_induct) auto
  also have "\<dots> = map previous_output (map el_unsigned_input inputs)"
    by (simp flip: map_map add: map_snd_zip)
  finally show ?thesis by (simp add: tx el_unsigned_input_def comp_def)
qed

lemma el_construct_tx_outpoints:
  assumes "el_construct_tx lib rng gh inputs d ft = Ok (tx, fee)"
  shows "mset (map previous_output (el_inputs tx)) = mset (map el_outpoint inputs)"
proof -
  from assms obtain unblinded asset_id where
    "el_construct_raw lib (rng False) gh (el_sort_inputs inputs) unblinded asset_id d fee False = Ok tx"
    by (rule el_construct_tx_Ok)
  from el_construct_raw_outpoints [OF this] show ?thesis by (simp add: el_sort_inputs_def)
qed

lemma el_construct_tx_single_outputs:
  assumes "el_construct_tx lib rng gh inputs (Single a) ft = Ok (tx, fee)"
  shows "\<exists>outs asset_id. el_outputs tx = outs @ [new_fee lib fee asset_id] \<and>
     script_pubkey a \<in> el_out_script ` set outs \<and>
     el_out_script ` set outs \<subseteq> {script_pubkey a, script_bytes (el_slib lib) [Op OP_RETURN]}"
proof -
  from assms obtain unblinded asset_id built where
    b: "built_outputs lib (rng False) unblinded asset_id (Single a) fee False = Ok built"
    and out: "el_outputs tx = map built_output built"
    by (rule el_construct_tx_Ok)
  from b obtain intents new where i: "output_intents lib (rng False) unblinded (Single a) fee = Ok intents"
    and built: "built = new @ [(fee, 0, 0, new_fee lib fee asset_id)]"
    and all: "list_all2 (realises lib asset_id False) intents new"
    by (rule built_outputs_Ok)
  from all have scripts: "map (el_out_script \<circ> built_output) new = map (fst \<circ> snd) intents"
    by (induction rule: list_all2_induct) (auto simp: realises_def built_output_def)
  from output_intents_Ok [OF i refl] obtain v where
    "intents = sort_key intent_key (dummy_intents lib (rng False) (needs_dummy_output unblinded (Single a)) @ [address_intent v a])"
    by auto
  then have "script_pubkey a \<in> (fst \<circ> snd) ` set intents"
    "(fst \<circ> snd) ` set intents \<subseteq> {script_pubkey a, script_bytes (el_slib lib) [Op OP_RETURN]}"
    by (auto simp: dummy_intents_def address_intent_def)
  then show ?thesis
    using arg_cong [OF scripts, of set] out built
    by (intro exI [of _ "map built_output new"] exI [of _ asset_id]) (simp add: built_output_def image_comp)
qed

fun claimable_columns :: "claimable \<Rightarrow> lockup_columns" where
  "claimable_columns (ClaimSubmarine s) = sw_columns s"
| "claimable_columns (ClaimChain c) = cd_columns (ci_receiving c)"

fun claimable_preimage :: "claimable \<Rightarrow> string option" where
  "claimable_preimage (ClaimSubmarine s) = sw_preimage s"
| "claimable_preimage (ClaimChain c) = cs_preimage (ci_swap c)"

fun spent_outpoints :: "wrapper_tx \<Rightarrow> outpoint list" where
  "spent_outpoints (BitcoinTx tx) = map previous_output (tx_inputs tx)"
| "spent_outpoints (ElementsTx tx) = map previous_output (el_inputs tx)"

text \<open>
  All value but the fee goes to the address: on Liquid next to an output without value that can be
  needed for the blinding.
\<close>

fun pays_only :: "('b, 'e, 'f, 'c, 's) manager \<Rightarrow> ('b, 'e) address \<Rightarrow> wrapper_tx \<Rightarrow> bool" where
  "pays_only m (BitcoinAddress a) (BitcoinTx tx) \<longleftrightarrow> map out_script (tx_outputs tx) = [mg_script_pubkey m a]"
| "pays_only m (ElementsAddress a) (ElementsTx tx) \<longleftrightarrow>
     (\<exists>outs fee asset_id. el_outputs tx = outs @ [new_fee (mg_el m) fee asset_id] \<and>
        script_pubkey (mg_el_address m a) \<in> el_out_script ` set outs \<and>
        el_out_script ` set outs \<subseteq> {script_pubkey (mg_el_address m a), script_bytes (el_slib (mg_el m)) [Op OP_RETURN]})"
| "pays_only m _ _ \<longleftrightarrow> False"

definition claims_swap :: "('b, 'e, 'f, 'c, 's) manager \<Rightarrow> mgr_wallet \<Rightarrow> mgr_client \<Rightarrow> claimable \<Rightarrow> wrapper_input \<Rightarrow> bool" where
  "claims_swap m w client s d \<longleftrightarrow>
     spends_lockup (mg_dl m) (mw_keys w) (mc_raw_transaction client) (claimable_columns s) d \<and>
     claims_with (mg_dl m) (claimable_preimage s) (wrapper_input_kind d)"

lemma claimable_details_claims: "claimable_details m w client s = Ok d \<Longrightarrow> claims_swap m w client s d"
  unfolding claims_swap_def
  by (cases s)
    (auto dest: submarine_claim.spends submarine_claim.kind_of chain_claim.spends chain_claim.kind_of)

lemma into_bitcoin_inputs:
  assumes "r_mapM into_bitcoin_input ds = Ok bs"
  shows "map wrapper_outpoint ds = map prev_outpoint bs"
proof -
  have "into_bitcoin_input d = Ok b \<Longrightarrow> wrapper_outpoint d = prev_outpoint b" for d b by (cases d) simp_all
  with assms [unfolded r_mapM_Ok_iff] show ?thesis by (induction rule: list_all2_induct) simp_all
qed

lemma into_elements_inputs:
  assumes "r_mapM into_elements_input ds = Ok es"
  shows "map wrapper_outpoint ds = map el_outpoint es"
proof -
  have "into_elements_input d = Ok e \<Longrightarrow> wrapper_outpoint d = el_outpoint e" for d e by (cases d) simp_all
  with assms [unfolded r_mapM_Ok_iff] show ?thesis by (induction rule: list_all2_induct) simp_all
qed

lemma construct_batch_spends:
  assumes "construct_batch m client inputs rate address = Ok (tx, fee)"
  shows "mset (spent_outpoints tx) = mset (map wrapper_outpoint inputs) \<and> pays_only m address tx"
proof (cases "mc_type client")
  case TypeBitcoin
  with assms obtain bs a btx where bs: "r_mapM into_bitcoin_input inputs = Ok bs"
    and a: "into_bitcoin_address address = Ok a"
    and tx: "construct_tx (mg_bl m) bs (Single (mg_script_pubkey m a)) (Relative rate) = Ok (btx, fee)" "tx = BitcoinTx btx"
    by (auto simp: construct_batch_def)
  from a have "address = BitcoinAddress a" by (cases address) auto
  with construct_tx_outpoints [OF tx(1)] construct_tx_single_output [OF tx(1)] into_bitcoin_inputs [OF bs] tx(2)
  show ?thesis by simp
next
  case TypeElements
  with assms obtain es a gh etx where es: "r_mapM into_elements_input inputs = Ok es"
    and a: "into_elements_address address = Ok a"
    and tx: "el_construct_tx (mg_el m) (mg_rng m) gh es (Single (mg_el_address m a)) (Relative rate) = Ok (etx, fee)"
      "tx = ElementsTx etx"
    by (auto simp: construct_batch_def)
  from a have "address = ElementsAddress a" by (cases address) auto
  with el_construct_tx_outpoints [OF tx(1)] el_construct_tx_single_outputs [OF tx(1)] into_elements_inputs [OF es] tx(2)
  show ?thesis by auto
qed

lemma find_claimables_table:
  assumes "find_claimables m ids = Ok swaps" and "mg_swaps m = table_repo sws" and "mg_chain_swaps m = table_repo css"
  shows "swaps = map ClaimSubmarine (filter (\<lambda>s. sw_id s \<in> set ids) sws)
      @ map ClaimChain (filter (\<lambda>c. cs_id (ci_swap c) \<in> set ids) css)"
    and "claimable_id ` set swaps = set ids"
  using assms by (auto simp: find_claimables_def table_repo_def Let_def filter_empty_conv split: if_splits)

lemma batch_symbol_Ok:
  assumes "batch_symbol swaps = Ok symbol"
  shows "swaps \<noteq> []" and "s \<in> set swaps \<Longrightarrow> claimable_symbol s = Ok symbol"
proof -
  from assms show "swaps \<noteq> []" by (auto simp: batch_symbol_def)
  from assms have "\<not> list_ex (\<lambda>s. case claimable_symbol s of Ok s' \<Rightarrow> s' \<noteq> symbol | _ \<Rightarrow> True) swaps"
    by (auto simp: batch_symbol_def split: list.splits if_splits)
  then show "s \<in> set swaps \<Longrightarrow> claimable_symbol s = Ok symbol"
    by (cases "claimable_symbol s") (auto simp: list_ex_iff)
qed


subsection \<open>A rescan finds what the pending swaps wait for\<close>

fun concerns :: "string \<Rightarrow> chain_tx \<Rightarrow> watched \<Rightarrow> bool" where
  "concerns symbol tx (WatchInput s out) \<longleftrightarrow> s = symbol \<and> out \<in> set (input_outpoints tx)"
| "concerns symbol tx (WatchOutput s script) \<longleftrightarrow> s = symbol \<and> script \<in> set (output_script_pubkeys tx)"

definition pending_watches ::
  "('b, 'e, 'f, 'c, 's) manager \<Rightarrow> swap list \<Rightarrow> reverse_swap list \<Rightarrow> chain_swap_info list \<Rightarrow> watched set" where
  "pending_watches m sws rss css =
     (\<Union>s \<in> {s \<in> set sws. sw_status s \<notin> set (serialize_swap_updates swap_filter_excluded)}.
        swap_watch (filter_currencies m) s)
   \<union> (\<Union>s \<in> {s \<in> set rss. rs_status s \<in> set (serialize_swap_updates reverse_filter_included)
               \<and> rs_transaction_id s \<noteq> None}. reverse_watch (dl_hex_decode (mg_dl m)) s)
   \<union> (\<Union>c \<in> {c \<in> set css. cs_status (ci_swap c) \<in> set (serialize_swap_updates chain_filter_included)}.
        chain_watch (dl_hex_decode (mg_dl m)) (filter_currencies m) c)"

lemma is_relevant_tx_watches:
  "is_relevant_tx (fst (filter_entry fs symbol)) (snd (filter_entry fs symbol)) tx
     \<longleftrightarrow> (\<exists>x \<in> watches fs. concerns symbol tx x)"
proof
  assume "is_relevant_tx (fst (filter_entry fs symbol)) (snd (filter_entry fs symbol)) tx"
  then consider out where "out \<in> set (input_outpoints tx)" "in_filters fs (WatchInput symbol out)"
    | script where "script \<in> set (output_script_pubkeys tx)" "in_filters fs (WatchOutput symbol script)"
    unfolding is_relevant_tx_def by auto
  then show "\<exists>x \<in> watches fs. concerns symbol tx x"
  proof cases
    case 1
    then show ?thesis unfolding watches_def by (intro bexI [of _ "WatchInput symbol out"]) auto
  next
    case 2
    then show ?thesis unfolding watches_def by (intro bexI [of _ "WatchOutput symbol script"]) auto
  qed
next
  assume "\<exists>x \<in> watches fs. concerns symbol tx x"
  then obtain x where "in_filters fs x" "concerns symbol tx x" by (auto simp: watches_def)
  then show "is_relevant_tx (fst (filter_entry fs symbol)) (snd (filter_entry fs symbol)) tx"
    by (cases x) (auto simp: is_relevant_tx_def)
qed

text \<open>Each scan leaves the other channels and tips alone.\<close>

lemma scan_blocks_tips: "scan_blocks cl t rcv ins scripts bs st = Ok st' \<Longrightarrow> sc_tips st' = sc_tips st"
  by (induction cl t rcv ins scripts bs st rule: scan_blocks.induct)
    (auto simp: send_relevant_def split: result.splits if_splits)

lemma scan_received_tips: "scan_received cl t rcv ins scripts hexes st = (st', r) \<Longrightarrow> sc_tips st' = sc_tips st"
  by (induction cl t rcv ins scripts hexes st rule: scan_received.induct)
    (auto simp: send_relevant_def split: result.splits if_splits)

lemma rescan_tips:
  "rescan node cl t symbol rcv ok start ins scripts st = (st', r) \<Longrightarrow> k \<noteq> symbol \<Longrightarrow> sc_tips st' k = sc_tips st k"
  by (auto simp: rescan_def scan_blocks_tips split: result.splits if_splits)

lemma scan_mempool_tips:
  "scan_mempool node cl t par mrg rcv ins scripts st = (st', r) \<Longrightarrow> sc_tips st' = sc_tips st"
  by (auto simp: scan_mempool_def scan_received_tips split: result.splits if_splits)

lemma scan_chain_tips:
  assumes "scan_chain cl ok entry opt client st = (st', r)" and "k \<noteq> mc_symbol client"
  shows "sc_tips st' k = sc_tips st k"
  using assms rescan_tips [OF _ assms(2)]
  by (auto simp: scan_chain_def Let_def dest: scan_mempool_tips split: prod.splits result.splits if_splits)

lemma rescan_client_frame:
  assumes "rescan_client m fs (opt, client) st = (st', r)" and "k \<noteq> mc_symbol client"
  shows "mst_sent st' k = mst_sent st k" and "mst_tips st' k = mst_tips st k"
  using assms by (auto simp: rescan_client_def dest: scan_chain_tips split: prod.splits)

lemma rescan_clients_frame:
  assumes "rescan_clients m fs ocs st = (st', rs)" and "k \<notin> (mc_symbol \<circ> snd) ` set ocs"
  shows "mst_sent st' k = mst_sent st k \<and> mst_tips st' k = mst_tips st k"
  using assms
proof (induction ocs arbitrary: st rs)
  case (Cons oc ocs)
  obtain opt client where oc: "oc = (opt, client)" by fastforce
  from Cons.prems(1) obtain st1 r rs' where one: "rescan_client m fs (opt, client) st = (st1, r)"
    and rest: "rescan_clients m fs ocs st1 = (st', rs')"
    by (auto simp: oc split: prod.splits)
  from Cons.prems(2) have k: "k \<noteq> mc_symbol client" "k \<notin> (mc_symbol \<circ> snd) ` set ocs" by (auto simp: oc)
  with Cons.IH [OF rest k(2)] rescan_client_frame [OF one k(1)] show ?case by simp
qed simp

lemma rescan_clients_append:
  "rescan_clients m fs (xs @ ys) st =
     (case rescan_clients m fs xs st of (st1, rs) \<Rightarrow>
        case rescan_clients m fs ys st1 of (st2, rs') \<Rightarrow> (st2, rs @ rs'))"
  by (induction xs arbitrary: st) (auto split: prod.splits)

text \<open>
  What a client sees of its node: the tip, the blocks, and the transactions of the mempool, which
  the workers fetch in some order.
\<close>

definition client_sees :: "chain_lib \<Rightarrow> mgr_client \<Rightarrow> u64 \<Rightarrow> (u64 \<Rightarrow> block) \<Rightarrow> chain_tx list \<Rightarrow> bool" where
  "client_sees cl client tip blk mempool \<longleftrightarrow>
     mc_receivers client \<and> node_tip (mc_node client) = Some (rpc_ok tip) \<and>
     (\<exists>hash_of raw_of. node_serves (mc_node client) hash_of raw_of \<and>
        (\<forall>h. block_parse_hex cl (mc_type client) (raw_of (hash_of h)) = Ok (blk h))) \<and>
     (\<forall>xss. mset (mc_merge client xss) = mset (concat xss)) \<and>
     (\<exists>ids raw tx_of. node_mempool (mc_node client) = Some (rpc_ok ids) \<and> mempool = map (tx_of \<circ> raw) ids \<and>
        (\<forall>ids'. node_raw_txs (mc_node client) ids' = Some (map (\<lambda>i. rpc_ok (raw i)) ids')) \<and>
        (\<forall>i \<in> set ids. chain_tx_parse_hex cl (mc_type client) (raw i) = Ok (tx_of (raw i))))"

definition block_txs :: "(u64 \<Rightarrow> block) \<Rightarrow> u64 \<Rightarrow> u64 \<Rightarrow> chain_tx list" where
  "block_txs blk start tip = concat (map (\<lambda>h. bk_transactions (blk (word_of_nat h))) [unat start ..< Suc (unat tip)])"

lemma scan_chain_all:
  assumes sees: "client_sees cl client tip blk mempool" and start: "ro_start_height opt \<le> tip"
    and pool: "ro_include_mempool opt"
  shows "\<exists>unconfirmed. scan_chain cl True entry opt client st =
      (st\<lparr> sc_sent := sc_sent st @ map (\<lambda>tx. (SingleTx tx, True))
             (filter (is_relevant_tx (fst entry) (snd entry)) (block_txs blk (ro_start_height opt) tip)) @ unconfirmed,
           sc_tips := (sc_tips st)(mc_symbol client \<mapsto> ucast tip) \<rparr>,
       Ok \<lparr> rr_symbol = mc_symbol client, rr_start_height = ro_start_height opt, rr_end_height = tip \<rparr>) \<and>
      mset unconfirmed = mset (map (\<lambda>tx. (SingleTx tx, False)) (filter (is_relevant_tx (fst entry) (snd entry)) mempool))"
proof -
  from sees obtain hash_of raw_of ids raw tx_of where
    tip: "node_tip (mc_node client) = Some (rpc_ok tip)" and serves: "node_serves (mc_node client) hash_of raw_of"
    and blocks: "\<And>h. block_parse_hex cl (mc_type client) (raw_of (hash_of h)) = Ok (blk h)"
    and merge: "\<And>xss. mset (mc_merge client xss) = mset (concat xss)"
    and ids: "node_mempool (mc_node client) = Some (rpc_ok ids)" and txs: "mempool = map (tx_of \<circ> raw) ids"
    and raws: "\<And>ids'. node_raw_txs (mc_node client) ids' = Some (map (\<lambda>i. rpc_ok (raw i)) ids')"
    and parses: "\<And>i. i \<in> set ids \<Longrightarrow> chain_tx_parse_hex cl (mc_type client) (raw i) = Ok (tx_of (raw i))"
    and receivers: "mc_receivers client"
    unfolding client_sees_def by blast
  note blocks_scanned = rescan_scans_all [OF tip start serves blocks, folded block_txs_def]
  obtain sent where pool_scanned: "scan_mempool (mc_node client) cl (mc_type client) (mc_parallelism client) (mc_merge client)
      True (fst entry) (snd entry) st1 = (st1\<lparr> sc_sent := sc_sent st1 @ sent st1 \<rparr>, Ok ())"
    and sent: "mset (sent st1) = mset (map (\<lambda>i. (SingleTx (tx_of (raw i)), False))
      (filter (\<lambda>i. is_relevant_tx (fst entry) (snd entry) (tx_of (raw i))) ids))" for st1
    using scan_mempool_scans_all [OF ids raws merge parses] by metis
  have "mset (sent st1) = mset (map (\<lambda>tx. (SingleTx tx, False)) (filter (is_relevant_tx (fst entry) (snd entry)) mempool))" for st1
    by (simp add: sent txs filter_map comp_def)
  with receivers pool show ?thesis
    by (intro exI [of _ "sent (st\<lparr> sc_sent := sc_sent st @ map (\<lambda>tx. (SingleTx tx, True))
          (filter (is_relevant_tx (fst entry) (snd entry)) (block_txs blk (ro_start_height opt) tip)),
        sc_tips := (sc_tips st)(mc_symbol client \<mapsto> ucast tip) \<rparr>)"])
      (simp add: scan_chain_def blocks_scanned pool_scanned Let_def)
qed

text \<open>Every chain client is registered under its own symbol.\<close>

definition own_symbols :: "('b, 'e, 'f, 'c, 's) manager \<Rightarrow> bool" where
  "own_symbols m \<longleftrightarrow> (\<forall>symbol cur client.
     mg_currencies m symbol = Some cur \<and> my_chain cur = Some client \<longrightarrow> mc_symbol client = symbol)"

lemma all_clients_split:
  assumes "symbol \<in> set (mg_symbols m)" and "distinct (mg_symbols m)"
    and "mg_currencies m symbol = Some cur" and "my_chain cur = Some client"
    and own: "own_symbols m"
  obtains pre post where "all_clients m tips = pre @ (\<lparr> ro_symbol = symbol, ro_start_height = tip_start tips symbol client,
      ro_include_mempool = True \<rparr>, client) # post"
    and "symbol \<notin> (mc_symbol \<circ> snd) ` set pre" and "symbol \<notin> (mc_symbol \<circ> snd) ` set post"
proof -
  let ?f = "\<lambda>symbol. Option.bind (mg_currencies m symbol) (\<lambda>cur.
         map_option (\<lambda>client. (\<lparr> ro_symbol = symbol, ro_start_height = tip_start tips symbol client,
             ro_include_mempool = True \<rparr>, client)) (my_chain cur))"
  from assms(1,2) obtain xs ys where split: "mg_symbols m = xs @ symbol # ys" "symbol \<notin> set xs" "symbol \<notin> set ys"
    by (metis distinct.simps(2) distinct_append in_set_conv_decomp not_distinct_conv_prefix split_list_first)
  have frame: "symbol \<notin> (mc_symbol \<circ> snd) ` set (List.map_filter ?f zs)" if "symbol \<notin> set zs" for zs
    using that own by (fastforce simp: own_symbols_def map_filter_def bind_eq_Some_conv)
  have "all_clients m tips = List.map_filter ?f xs @ (\<lparr> ro_symbol = symbol, ro_start_height = tip_start tips symbol client,
      ro_include_mempool = True \<rparr>, client) # List.map_filter ?f ys"
    using assms(3,4) by (simp add: all_clients_def split(1) map_filter_def)
  with frame [OF split(2)] frame [OF split(3)] show thesis by (intro that)
qed


subsection \<open>An example manager\<close>

definition example_claimable :: swap where
  "example_claimable = example_swap\<lparr> sw_version := 0, sw_pair := ''BTC/BTC'', sw_status := ''transaction.mempool'',
     sw_key_index := Some 3, sw_preimage := Some (replicate 32 CHR ''p''), sw_redeem_script := Some [],
     sw_lockup_transaction_id := Some ''ab'', sw_lockup_transaction_vout := Some 1, sw_onchain_amount := Some 5000 \<rparr>"

definition example_mgr_client :: mgr_client where
  "example_mgr_client =
     \<lparr> mc_symbol = ''BTC'', mc_type = TypeBitcoin, mc_network = Regtest, mc_raw_transaction = (\<lambda>_. None),
       mc_estimate_fee = Some (Finite 10), mc_node = example_scan_node, mc_receivers = True, mc_parallelism = 8,
       mc_merge = concat \<circ> rev \<rparr>"

definition example_mgr_wallet :: mgr_wallet where
  "example_mgr_wallet =
     \<lparr> mw_keys = example_wallet\<lparr> w_decode_address := \<lambda>_. Some [3] \<rparr>, mw_new_address = (\<lambda>_. Some ''new'') \<rparr>"

definition example_manager :: "(bytes, unit, int, unit, unit) manager" where
  "example_manager =
     \<lparr> mg_currencies = [''BTC'' \<mapsto> \<lparr> my_chain = Some example_mgr_client, my_wallet = Some example_mgr_wallet \<rparr>],
       mg_symbols = [''BTC''], mg_swaps = table_repo [example_claimable], mg_reverse_swaps = table_repo [],
       mg_chain_swaps = table_repo [], mg_tips_ok = True, mg_block_times = BLOCK_TIMES, mg_timeouts = Map.empty,
       mg_cl = example_scan_lib,
       mg_alib = \<lparr> parse_bitcoin = (\<lambda>_. Some [8]), parse_elements = (\<lambda>_. None), print_bitcoin = (\<lambda>_. []),
         print_elements = (\<lambda>_. []), bitcoin_from_script = (\<lambda>s n. Some s), elements_from_script = (\<lambda>_ _ _. None),
         public_key_from_slice = Some \<rparr>,
       mg_script_pubkey = id, mg_el_address = (\<lambda>_. \<lparr> script_pubkey = [], blinding_pubkey = None \<rparr>),
       mg_hash_bytes = (\<lambda>_. []), mg_mu = example_musig, mg_dl = example_dl, mg_bl = example_bl, mg_el = example_el,
       mg_rng = example_el_rng \<rparr>"

definition example_claim_detail :: input_detail where
  "example_claim_detail = \<lparr> input_kind = Claim (example_bytes (replicate 32 CHR ''p'')), output_kind = Compatibility [],
     prev_outpoint = \<lparr> txid = rev (example_bytes ''ab''), vout = 1 \<rparr>,
     prev_out = \<lparr> amount = 5000, out_script = [3] \<rparr>, keys = [7] \<rparr>"

lemma example_claim_details:
  "claimable_details example_manager example_mgr_wallet example_mgr_client (ClaimSubmarine example_claimable)
     = Ok (BitcoinInput example_claim_detail)"
  by (simp add: sw_claim_details_def derive_swap_keys_def context_of_def claim_input_type_def example_claimable_def
      example_swap_def example_manager_def example_mgr_wallet_def example_wallet_def sw_chain_symbol_def pair_side_def
      split_pair_def ELEMENTS_SYMBOL_def bitcoin_output_kind_def swap_version_try_from_def bitcoin_detail_def example_dl_def
      example_bytes_def example_claim_detail_def)

lemma example_claimables:
  "find_claimables example_manager [''s''] = Ok [ClaimSubmarine example_claimable]"
  "batch_symbol [ClaimSubmarine example_claimable] = Ok ''BTC''"
  by (simp_all add: find_claimables_def example_manager_def table_repo_def example_claimable_def example_swap_def Let_def
      batch_symbol_def sw_claim_symbol_def sw_chain_symbol_def pair_side_def split_pair_def)

lemma example_batch_fee: "f64_to_u64 (f64_ceil (f64_mul (f64_of_u64 151) (Finite 10))) = 1510"
proof -
  have "f64_of_u64 151 = Finite 151" using f64_of_u64_exact [of 151] by simp
  then show ?thesis by (simp add: u64_max_def f64_round_numeral)
qed

lemma example_batch_built:
  "\<exists>tx. construct_tx example_bl [example_claim_detail] (Single [8]) (Relative (Finite 10)) = Ok (tx, 1510)"
proof -
  have raw: "\<exists>tx. construct_raw example_bl [example_claim_detail] (Single [8]) fee = Ok tx \<and> tx_input_len tx = 1"
    if "fee \<le> 5000" for fee
    using that
    by (simp add: construct_raw_def example_claim_detail_def example_bl_def construct_lock_time_def
        map_filter_simps checked_sub_def u64_max_def sign_input_def input_script_sig_def input_witness_def
        segwit_witness_def legacy_signature_def tx_input_len_def)
  from raw [of 1] raw [of 1510] obtain est tx where
    est: "construct_raw example_bl [example_claim_detail] (Single [8]) 1 = Ok est" "tx_input_len est = 1"
    and "construct_raw example_bl [example_claim_detail] (Single [8]) 1510 = Ok tx" by auto
  moreover have "tx_vsize example_bl est = 150" by (simp add: example_bl_def)
  ultimately show ?thesis
    using example_batch_fee by (auto simp: construct_tx_def simp del: f64_mul.simps f64_ceil.simps)
qed

lemma example_claim_batch: "\<exists>tx. claim_batch example_manager [''s''] = Ok (BitcoinTx tx, 1510)"
proof -
  from example_batch_built obtain tx where
    tx: "construct_tx example_bl [example_claim_detail] (Single [8]) (Relative (Finite 10)) = Ok (tx, 1510)" ..
  have "mg_currencies example_manager ''BTC''
      = Some \<lparr> my_chain = Some example_mgr_client, my_wallet = Some example_mgr_wallet \<rparr>"
    "address_try_from (mg_alib example_manager) ''new'' = Ok (BitcoinAddress [8])"
    "mg_bl example_manager = example_bl" "mg_script_pubkey example_manager = id"
    by (simp_all add: example_manager_def address_try_from_def)
  moreover have "mc_estimate_fee example_mgr_client = Some (Finite 10)" "mc_type example_mgr_client = TypeBitcoin"
    "mw_new_address example_mgr_wallet l = Some ''new''" for l
    by (simp_all add: example_mgr_client_def example_mgr_wallet_def)
  ultimately show ?thesis
    using tx by (simp add: claim_batch_def example_claimables construct_batch_def example_claim_details
        del: claimable_details.simps)
qed


definition example_block :: "u64 \<Rightarrow> block" where
  "example_block h = \<lparr> bk_header = HeaderBitcoin [], bk_transactions = [TxBitcoin example_prev_tx, TxBitcoin example_spending_tx] \<rparr>"

lemma example_client_sees:
  "client_sees example_scan_lib example_mgr_client 101 example_block
     [TxBitcoin example_spending_tx, TxBitcoin example_spending_tx]"
proof -
  have "node_serves example_scan_node (\<lambda>_. ''h'') (\<lambda>_. ''b'')"
    by (simp add: node_serves_def example_scan_node_def)
  moreover have "block_parse_hex example_scan_lib TypeBitcoin ''b'' = Ok (example_block h)" for h
    by (simp add: block_parse_hex_def example_scan_lib_def example_chain_lib_def example_block_def)
  ultimately have "\<exists>hash_of raw_of. node_serves example_scan_node hash_of raw_of \<and>
      (\<forall>h. block_parse_hex example_scan_lib TypeBitcoin (raw_of (hash_of h)) = Ok (example_block h))" by fast
  moreover have "mset ((concat \<circ> rev) xss) = mset (concat xss)" for xss :: "string list list"
    by (induction xss) simp_all
  moreover have "chain_tx_parse_hex example_scan_lib TypeBitcoin x = Ok (TxBitcoin example_spending_tx)" for x
    by (simp add: chain_tx_parse_hex_def example_scan_lib_def example_chain_lib_def)
  then have "\<exists>ids raw tx_of. node_mempool example_scan_node = Some (rpc_ok ids) \<and>
      [TxBitcoin example_spending_tx, TxBitcoin example_spending_tx] = map (tx_of \<circ> raw) ids \<and>
      (\<forall>ids'. node_raw_txs example_scan_node ids' = Some (map (\<lambda>i. rpc_ok (raw i)) ids')) \<and>
      (\<forall>i \<in> set ids. chain_tx_parse_hex example_scan_lib TypeBitcoin (raw i) = Ok (tx_of (raw i)))"
    by (intro exI [of _ "[''x'', ''y'']"] exI [of _ id] exI [of _ "\<lambda>_. TxBitcoin example_spending_tx"])
      (simp add: example_scan_node_def)
  ultimately show ?thesis
    by (simp add: client_sees_def example_mgr_client_def) (simp add: example_scan_node_def)
qed

lemma example_watched:
  "\<exists>fs. manager_filters example_manager = Ok fs"
  "WatchOutput ''BTC'' [3] \<in> pending_watches example_manager [example_claimable] [] []"
proof -
  have script: "sw_chain_symbol example_claimable = Ok ''BTC''"
    "lockup_script (filter_currencies example_manager) ''BTC'' a = Some [3]" for a
    by (simp_all add: example_claimable_def example_swap_def sw_chain_symbol_def pair_side_def split_pair_def
        lockup_script_def get_currency_def filter_currencies_def example_manager_def decode_script_def example_mgr_wallet_def)
  have status: "sw_status example_claimable \<notin> set (serialize_swap_updates swap_filter_excluded)"
    by (simp add: example_claimable_def serialize_swap_updates_def swap_filter_excluded_def)
  show "WatchOutput ''BTC'' [3] \<in> pending_watches example_manager [example_claimable] [] []"
    using script status by (auto simp: pending_watches_def swap_watch_def)
  show "\<exists>fs. manager_filters example_manager = Ok fs"
    using status script
    by (simp add: manager_filters_def get_input_output_filters_def get_swap_filters_def get_reverse_filters_def
        get_chain_filters_def example_manager_def table_repo_def swap_filter_step_def)
qed


end
