(* ===== verification/Evm_Quoter.thy ===== *)
theory Evm_Quoter
  imports Boltz_Cache
begin

text \<open>
  Quotes for swaps between tokens of EVM chains, \<open>src/boltz-evm/src/quoter/mod.rs\<close> and
  \<open>src/boltz-evm/src/quoter/uniswap_v3\<close> (\<open>mod.rs\<close>, \<open>router.rs\<close>): which pools are looked up, the routes
  through them, the choice of the best one, and the calls that execute it. Addresses and amounts are
  words; the encodings of the contract interfaces and the answers of the contracts are parameters.
\<close>

unbundle bit_operations_syntax

type_synonym evm_address = "160 word"
type_synonym u256 = "256 word"

subsection \<open>Paths\<close>

record hop =
  hop_fee :: u64
  hop_token :: evm_address

record route =
  token_in :: evm_address
  hops :: "hop list"

datatype quoter_error =
    NoResults | NoHops | FeeNot24Bit | QuoterCache cache_error | ProviderError | NoQuoter

text \<open>\<open>Address::as_slice\<close>, twenty bytes, the most significant first.\<close>

definition address_bytes :: "evm_address \<Rightarrow> bytes" where
  "address_bytes a = map (\<lambda>i. ucast (drop_bit (8 * i) a)) (rev [0 ..< 20])"

definition add_token :: "evm_address \<Rightarrow> bytes \<Rightarrow> bytes" where
  "add_token t path = path @ address_bytes t"

definition add_fee :: "u64 \<Rightarrow> bytes \<Rightarrow> (quoter_error, bytes) result" where
  "add_fee fee path =
     (if fee > 0xFFFFFF then Err FeeNot24Bit
      else Ok (path @ [ucast (drop_bit 16 fee), ucast (drop_bit 8 fee), ucast fee]))"

definition add_hop :: "hop \<Rightarrow> bytes \<Rightarrow> (quoter_error, bytes) result" where
  "add_hop h path = r_map (add_token (hop_token h)) (add_fee (hop_fee h) path)"

definition add_hops :: "hop list \<Rightarrow> bytes \<Rightarrow> (quoter_error, bytes) result" where
  "add_hops hs path = r_fold add_hop hs path"

definition encode_path :: "route \<Rightarrow> (quoter_error, bytes) result" where
  "encode_path r = add_hops (hops r) (add_token (token_in r) [])"

definition reverse_route :: "route \<Rightarrow> route" where
  "reverse_route r =
     (if hops r = [] then r
      else let tokens = rev (token_in r # map hop_token (hops r)); fees = rev (map hop_fee (hops r))
        in \<lparr> token_in = hd tokens, hops = map (\<lambda>(fee, t). \<lparr> hop_fee = fee, hop_token = t \<rparr>) (zip fees (tl tokens)) \<rparr>)"

definition normalize_route :: "evm_address \<Rightarrow> evm_address \<Rightarrow> route \<Rightarrow> route" where
  "normalize_route t_in t_out r =
     \<lparr> token_in = t_in,
       hops = (if hops r = [] then [] else butlast (hops r) @ [(last (hops r))\<lparr> hop_token := t_out \<rparr>]) \<rparr>"

subsection \<open>Pools\<close>

text \<open>
  Two pairs are equal when their normal forms are; maps over pairs are maps over normal forms.
\<close>

type_synonym token_pair = "evm_address \<times> evm_address"

definition normalized :: "token_pair \<Rightarrow> token_pair" where
  "normalized p = (if fst p < snd p then p else (snd p, fst p))"

type_synonym relevant_pools = "token_pair \<rightharpoonup> u64 list"

definition FEE_OPTIONS :: "u64 list" where
  "FEE_OPTIONS = [100, 500, 3000, 10000]"

definition CACHE_KEY_POOLS :: string where
  "CACHE_KEY_POOLS = ''uniswap_v3_pools''"

definition POOLS_TTL_SECS :: u64 where
  "POOLS_TTL_SECS = 60 * 60"

definition pool_lookups :: "evm_address list \<Rightarrow> evm_address \<Rightarrow> evm_address \<Rightarrow> token_pair list" where
  "pool_lookups liquid_tokens t_in t_out =
     (t_in, t_out) #
     concat (map (\<lambda>t. if t = t_in \<or> t = t_out then [] else [(t_in, t), (t, t_out)]) liquid_tokens)"

text \<open>The first loop: what the cache knows, and the pairs it does not know.\<close>

fun read_pools ::
  "(token_pair \<Rightarrow> 's \<Rightarrow> 's \<times> (cache_error, u64 list option) result) \<Rightarrow> token_pair set \<Rightarrow> token_pair list
    \<Rightarrow> relevant_pools \<Rightarrow> 's \<Rightarrow> 's \<times> (quoter_error, relevant_pools \<times> token_pair list) result"
where
  "read_pools get seen [] pools s = (s, Ok (pools, []))"
| "read_pools get seen (p # ps) pools s =
     (if normalized p \<in> seen then read_pools get seen ps pools s
      else (case get p s of
              (s1, Ok (Some fees)) \<Rightarrow>
                read_pools get (insert (normalized p) seen) ps
                  (if fees = [] then pools else pools(normalized p \<mapsto> fees)) s1
            | (s1, Ok None) \<Rightarrow>
                map_prod id (r_map (map_prod id ((#) p))) (read_pools get (insert (normalized p) seen) ps pools s1)
            | (s1, Err e) \<Rightarrow> (s1, Err (QuoterCache e))
            | (s1, Panic) \<Rightarrow> (s1, Panic)))"

text \<open>
  The factory is asked for all fees of all unknown pairs at once; a call that failed is \<open>None\<close>. The
  results are cached, also those without a pool. No unknown pair occurs twice, so removing its fees
  from the map is reading them.
\<close>

definition pool_calls :: "token_pair list \<Rightarrow> (token_pair \<times> u64) list" where
  "pool_calls uncached = concat (map (\<lambda>p. map (Pair p) FEE_OPTIONS) uncached)"

definition discovered_fees :: "((token_pair \<times> u64) \<times> evm_address option) list \<Rightarrow> token_pair \<Rightarrow> u64 list" where
  "discovered_fees results p =
     map (snd \<circ> fst) (filter (\<lambda>((q, fee), r). normalized q = normalized p \<and> (case r of Some pool \<Rightarrow> pool \<noteq> 0 | None \<Rightarrow> False)) results)"

fun store_pools ::
  "(token_pair \<Rightarrow> u64 list \<Rightarrow> 's \<Rightarrow> 's \<times> (cache_error, unit) result) \<Rightarrow> (token_pair \<Rightarrow> u64 list) \<Rightarrow> token_pair list
    \<Rightarrow> relevant_pools \<Rightarrow> 's \<Rightarrow> 's \<times> (quoter_error, relevant_pools) result"
where
  "store_pools put fees_of [] pools s = (s, Ok pools)"
| "store_pools put fees_of (p # ps) pools s =
     (case put p (fees_of p) s of
        (s1, Ok _) \<Rightarrow> store_pools put fees_of ps (if fees_of p = [] then pools else pools(normalized p \<mapsto> fees_of p)) s1
      | (s1, Err e) \<Rightarrow> (s1, Err (QuoterCache e))
      | (s1, Panic) \<Rightarrow> (s1, Panic))"

record 's uniswap_env =
  ue_get :: "token_pair \<Rightarrow> 's \<Rightarrow> 's \<times> (cache_error, u64 list option) result"
  ue_put :: "token_pair \<Rightarrow> u64 list \<Rightarrow> 's \<Rightarrow> 's \<times> (cache_error, unit) result"
  ue_get_pools :: "(token_pair \<times> u64) list \<Rightarrow> evm_address option list option"
  ue_quote_input :: "bytes list \<Rightarrow> u256 \<Rightarrow> u256 option list option"
  ue_quote_output :: "bytes list \<Rightarrow> u256 \<Rightarrow> u256 option list option"
  ue_liquid_tokens :: "evm_address list"
  ue_weth :: evm_address
  ue_router :: evm_address

definition lookup_relevant_pools ::
  "'s uniswap_env \<Rightarrow> evm_address \<Rightarrow> evm_address \<Rightarrow> 's \<Rightarrow> 's \<times> (quoter_error, relevant_pools) result" where
  "lookup_relevant_pools env t_in t_out s =
     (case read_pools (ue_get env) {} (pool_lookups (ue_liquid_tokens env) t_in t_out) Map.empty s of
        (s1, Ok (pools, uncached)) \<Rightarrow>
          if uncached = [] then (s1, Ok pools)
          else (case ue_get_pools env (pool_calls uncached) of
                  None \<Rightarrow> (s1, Err ProviderError)
                | Some results \<Rightarrow>
                    store_pools (ue_put env) (discovered_fees (zip (pool_calls uncached) results)) uncached pools s1)
      | (s1, Err e) \<Rightarrow> (s1, Err e)
      | (s1, Panic) \<Rightarrow> (s1, Panic))"

text \<open>The cache as the quoter uses it; \<open>print_address\<close> is the display of an address.\<close>

definition pools_field :: "(evm_address \<Rightarrow> string) \<Rightarrow> token_pair \<Rightarrow> string" where
  "pools_field print_address p = (case normalized p of (a, b) \<Rightarrow> print_address a @ ''-'' @ print_address b)"

definition cache_key_pools :: "(evm_address \<Rightarrow> string) \<Rightarrow> string \<Rightarrow> token_pair \<Rightarrow> string \<times> string" where
  "cache_key_pools print_address symbol p = (CACHE_KEY_POOLS @ '':'' @ symbol, pools_field print_address p)"

definition pools_get ::
  "'r redis_server \<Rightarrow> u64 list value_codec \<Rightarrow> (evm_address \<Rightarrow> string) \<Rightarrow> string \<Rightarrow> int
    \<Rightarrow> token_pair \<Rightarrow> 'r cache \<Rightarrow> 'r cache \<times> (cache_error, u64 list option) result" where
  "pools_get srv codec print_address symbol now p =
     (case cache_key_pools print_address symbol p of (key, field) \<Rightarrow> cache_get srv codec now key field)"

definition pools_put ::
  "'r redis_server \<Rightarrow> u64 list value_codec \<Rightarrow> (evm_address \<Rightarrow> string) \<Rightarrow> string \<Rightarrow> int
    \<Rightarrow> token_pair \<Rightarrow> u64 list \<Rightarrow> 'r cache \<Rightarrow> 'r cache \<times> (cache_error, unit) result" where
  "pools_put srv codec print_address symbol now p fees =
     (case cache_key_pools print_address symbol p of
        (key, field) \<Rightarrow> cache_set srv codec now key field fees (Some POOLS_TTL_SECS))"

subsection \<open>Routes\<close>

definition pool_fees :: "relevant_pools \<Rightarrow> evm_address \<Rightarrow> evm_address \<Rightarrow> u64 list" where
  "pool_fees pools a b = (case pools (normalized (a, b)) of Some fees \<Rightarrow> fees | None \<Rightarrow> [])"

definition generate_routes :: "evm_address list \<Rightarrow> evm_address \<Rightarrow> evm_address \<Rightarrow> relevant_pools \<Rightarrow> route list" where
  "generate_routes liquid_tokens t_in t_out pools =
     map (\<lambda>fee. \<lparr> token_in = t_in, hops = [\<lparr> hop_fee = fee, hop_token = t_out \<rparr>] \<rparr>) (pool_fees pools t_in t_out)
     @ concat (map (\<lambda>t.
         if t = t_in \<or> t = t_out then []
         else concat (map (\<lambda>fee1. map (\<lambda>fee2.
           \<lparr> token_in = t_in, hops = [\<lparr> hop_fee = fee1, hop_token = t \<rparr>, \<lparr> hop_fee = fee2, hop_token = t_out \<rparr>] \<rparr>)
           (pool_fees pools t t_out)) (pool_fees pools t_in t))) liquid_tokens)"

definition lookup_and_route ::
  "'s uniswap_env \<Rightarrow> evm_address \<Rightarrow> evm_address \<Rightarrow> 's \<Rightarrow> 's \<times> (quoter_error, route list) result" where
  "lookup_and_route env t_in t_out s =
     map_prod id (r_map (generate_routes (ue_liquid_tokens env) t_in t_out)) (lookup_relevant_pools env t_in t_out s)"

subsection \<open>Quotes\<close>

text \<open>\<open>max_by_key\<close> takes the last of the greatest elements, \<open>min_by_key\<close> the first of the least.\<close>

fun max_by_key :: "('a \<Rightarrow> 'k::linorder) \<Rightarrow> 'a list \<Rightarrow> 'a option" where
  "max_by_key key [] = None"
| "max_by_key key (x # xs) = Some (foldl (\<lambda>best y. if key best \<le> key y then y else best) x xs)"

fun min_by_key :: "('a \<Rightarrow> 'k::linorder) \<Rightarrow> 'a list \<Rightarrow> 'a option" where
  "min_by_key key [] = None"
| "min_by_key key (x # xs) = Some (foldl (\<lambda>best y. if key y < key best then y else best) x xs)"

definition successful_quotes :: "route list \<Rightarrow> u256 option list \<Rightarrow> (route \<times> u256) list" where
  "successful_quotes routes results = List.map_filter (\<lambda>(r, q). map_option (Pair r) q) (zip routes results)"

definition handle_eth :: "'s uniswap_env \<Rightarrow> evm_address \<Rightarrow> evm_address" where
  "handle_eth env t = (if t = 0 then ue_weth env else t)"

definition best_quote ::
  "(bytes list \<Rightarrow> u256 option list option) \<Rightarrow> (route \<Rightarrow> route) \<Rightarrow> ((route \<times> u256) list \<Rightarrow> (route \<times> u256) option)
    \<Rightarrow> route list \<Rightarrow> (quoter_error, route \<times> u256) result" where
  "best_quote ask direction pick routes =
     (if routes = [] then Err NoResults
      else r_bind (r_mapM (encode_path \<circ> direction) routes) (\<lambda>paths.
           r_bind (ok_or ProviderError (ask paths)) (\<lambda>results.
             ok_or NoResults (pick (successful_quotes routes results)))))"

definition quote_input ::
  "'s uniswap_env \<Rightarrow> evm_address \<Rightarrow> evm_address \<Rightarrow> u256 \<Rightarrow> 's \<Rightarrow> 's \<times> (quoter_error, u256 \<times> route) result" where
  "quote_input env t_in t_out amount_in s =
     map_prod id (\<lambda>routes. r_map (\<lambda>(r, amount_out). (amount_out, normalize_route t_in t_out r))
       (r_bind routes (best_quote (\<lambda>paths. ue_quote_input env paths amount_in) id (max_by_key snd))))
       (lookup_and_route env (handle_eth env t_in) (handle_eth env t_out) s)"

definition quote_output ::
  "'s uniswap_env \<Rightarrow> evm_address \<Rightarrow> evm_address \<Rightarrow> u256 \<Rightarrow> 's \<Rightarrow> 's \<times> (quoter_error, u256 \<times> route) result" where
  "quote_output env t_in t_out amount_out s =
     map_prod id (\<lambda>routes. r_map (\<lambda>(r, amount_in). (amount_in, normalize_route t_in t_out r))
       (r_bind routes (best_quote (\<lambda>paths. ue_quote_output env paths amount_out) reverse_route (min_by_key snd))))
       (lookup_and_route env (handle_eth env t_in) (handle_eth env t_out) s)"

subsection \<open>Calls\<close>

record evm_call =
  call_to :: evm_address
  call_value :: u256
  call_data :: bytes

datatype command =
    V3SwapExactIn | V3SwapExactOut | Permit2TransferFrom | Permit2PermitBatch | Sweep | Transfer | PayPortion
  | V2SwapExactIn | V2SwapExactOut | Permit2Permit | WrapEth | UnwrapWeth | Permit2TransferFromBatch

fun command_byte :: "command \<Rightarrow> byte" where
  "command_byte V3SwapExactIn = 0" | "command_byte V3SwapExactOut = 1" | "command_byte Permit2TransferFrom = 2"
| "command_byte Permit2PermitBatch = 3" | "command_byte Sweep = 4" | "command_byte Transfer = 5"
| "command_byte PayPortion = 6" | "command_byte V2SwapExactIn = 8" | "command_byte V2SwapExactOut = 9"
| "command_byte Permit2Permit = 10" | "command_byte WrapEth = 11" | "command_byte UnwrapWeth = 12"
| "command_byte Permit2TransferFromBatch = 13"

definition encode_command :: "command \<Rightarrow> bool \<Rightarrow> byte" where
  "encode_command c allow_revert = (command_byte c AND 0x3F) OR push_bit 7 (if allow_revert then 1 else 0)"

text \<open>
  The encodings of the library. The one of the arguments of a swap starts with an offset of 32 bytes,
  which is cut off.
\<close>

record evm_abi =
  abi_transfer :: "evm_address \<Rightarrow> u256 \<Rightarrow> bytes"
  abi_address_amount :: "evm_address \<Rightarrow> u256 \<Rightarrow> bytes"
  abi_swap :: "evm_address \<Rightarrow> u256 \<Rightarrow> u256 \<Rightarrow> bytes \<Rightarrow> bool \<Rightarrow> bytes"
  abi_execute :: "bytes \<Rightarrow> bytes list \<Rightarrow> bytes"

type_synonym commands = "bytes \<times> bytes list"

definition add_command :: "command \<Rightarrow> bytes \<Rightarrow> commands \<Rightarrow> commands" where
  "add_command c input cs = (fst cs @ [encode_command c False], snd cs @ [input])"

definition wrap_ether :: "evm_abi \<Rightarrow> evm_address \<Rightarrow> u256 \<Rightarrow> commands \<Rightarrow> commands" where
  "wrap_ether abi recipient v = add_command WrapEth (abi_address_amount abi recipient v)"

definition unwrap_ether :: "evm_abi \<Rightarrow> evm_address \<Rightarrow> u256 \<Rightarrow> commands \<Rightarrow> commands" where
  "unwrap_ether abi recipient v = add_command UnwrapWeth (abi_address_amount abi recipient v)"

definition v3_swap_exact_in ::
  "evm_abi \<Rightarrow> evm_address \<Rightarrow> u256 \<Rightarrow> u256 \<Rightarrow> bytes \<Rightarrow> bool \<Rightarrow> commands \<Rightarrow> (quoter_error, commands) result" where
  "v3_swap_exact_in abi recipient amount_in amount_out_min path payer_is_user cs =
     (let data = abi_swap abi recipient amount_in amount_out_min path payer_is_user
      in if length data < 32 then Panic else Ok (add_command V3SwapExactIn (drop 32 data) cs))"

definition router_encode ::
  "evm_abi \<Rightarrow> 's uniswap_env \<Rightarrow> route \<Rightarrow> evm_address \<Rightarrow> u256 \<Rightarrow> u256 \<Rightarrow> (quoter_error, evm_call list) result" where
  "router_encode abi env data recipient amount_in amount_out_min =
     (if hops data = [] then Err NoHops
      else
        let is_ether_in = (token_in data = 0);
            is_ether_out = (hop_token (last (hops data)) = 0);
            router = ue_router env;
            commands = (if is_ether_in then wrap_ether abi router amount_in ([], []) else ([], []));
            transfer = (if is_ether_in then []
              else [\<lparr> call_to = token_in data, call_value = 0, call_data = abi_transfer abi router amount_in \<rparr>])
        in r_bind (add_hops (map (\<lambda>h. h\<lparr> hop_token := handle_eth env (hop_token h) \<rparr>) (hops data))
             (add_token (handle_eth env (token_in data)) [])) (\<lambda>path.
           r_bind (v3_swap_exact_in abi (if is_ether_out then router else recipient) amount_in amount_out_min path False commands)
             (\<lambda>commands.
               let commands = (if is_ether_out then unwrap_ether abi recipient amount_out_min commands else commands)
               in Ok (transfer @ [\<lparr> call_to = router, call_value = (if is_ether_in then amount_in else 0),
                    call_data = abi_execute abi (fst commands) (snd commands) \<rparr>]))))"

subsection \<open>The aggregator\<close>

text \<open>There is one kind of quoter; a chain has it when it is configured.\<close>

definition filter_quotes :: "(quoter_error, u256 \<times> route) result list \<Rightarrow> (u256 \<times> route) list" where
  "filter_quotes results = List.map_filter (\<lambda>r. case r of Ok q \<Rightarrow> Some q | _ \<Rightarrow> None) results"

definition aggregator_quote_input ::
  "'s uniswap_env option \<Rightarrow> evm_address \<Rightarrow> evm_address \<Rightarrow> u256 \<Rightarrow> 's \<Rightarrow> 's \<times> (u256 \<times> route) list" where
  "aggregator_quote_input quoter t_in t_out amount_in s =
     (if amount_in = 0 then (s, [])
      else (case quoter of
              None \<Rightarrow> (s, [])
            | Some env \<Rightarrow> map_prod id (\<lambda>r. filter_quotes [r]) (quote_input env t_in t_out amount_in s)))"

definition aggregator_quote_output ::
  "'s uniswap_env option \<Rightarrow> evm_address \<Rightarrow> evm_address \<Rightarrow> u256 \<Rightarrow> 's \<Rightarrow> 's \<times> (u256 \<times> route) list" where
  "aggregator_quote_output quoter t_in t_out amount_out s =
     (if amount_out = 0 then (s, [])
      else (case quoter of
              None \<Rightarrow> (s, [])
            | Some env \<Rightarrow> map_prod id (\<lambda>r. filter_quotes [r]) (quote_output env t_in t_out amount_out s)))"

definition aggregator_encode ::
  "evm_abi \<Rightarrow> 's uniswap_env option \<Rightarrow> route \<Rightarrow> evm_address \<Rightarrow> u256 \<Rightarrow> u256 \<Rightarrow> (quoter_error, evm_call list) result" where
  "aggregator_encode abi quoter data recipient amount_in amount_out_min =
     (case quoter of
        Some env \<Rightarrow> router_encode abi env data recipient amount_in amount_out_min
      | None \<Rightarrow> Err NoQuoter)"

subsection \<open>Paths determine routes\<close>

text \<open>The inverse of the encoder: numbers of the given count of bytes, the most significant first.\<close>

definition be_value :: "bytes \<Rightarrow> int" where
  "be_value bs = foldl (\<lambda>acc b. acc * 256 + uint b) 0 bs"

definition be_bytes :: "nat \<Rightarrow> int \<Rightarrow> bytes" where
  "be_bytes k n = map (\<lambda>i. word_of_int (drop_bit (8 * i) n)) (rev [0 ..< k])"

fun decode_hops :: "nat \<Rightarrow> bytes \<Rightarrow> hop list option" where
  "decode_hops n [] = Some []"
| "decode_hops 0 (b # bs) = None"
| "decode_hops (Suc n) (b # bs) =
     (if length (b # bs) < 23 then None
      else map_option ((#) \<lparr> hop_fee = word_of_int (be_value (take 3 (b # bs))),
          hop_token = word_of_int (be_value (take 20 (drop 3 (b # bs)))) \<rparr>)
        (decode_hops n (drop 23 (b # bs))))"

definition decode_path :: "bytes \<Rightarrow> route option" where
  "decode_path bs =
     (if length bs < 20 then None
      else map_option (\<lambda>hs. \<lparr> token_in = word_of_int (be_value (take 20 bs)), hops = hs \<rparr>)
        (decode_hops (length bs) (drop 20 bs)))"

lemma be_bytes_Suc: "be_bytes (Suc k) n = word_of_int (drop_bit (8 * k) n) # be_bytes k n"
  by (simp add: be_bytes_def)

lemma be_value_Cons_bytes: "be_value (b # bs) = uint b * 256 ^ length bs + be_value bs"
proof -
  have "foldl (\<lambda>acc b. acc * 256 + uint b) c bs = c * 256 ^ length bs + be_value bs" for c
    unfolding be_value_def
  proof (induction bs arbitrary: c)
    case (Cons x xs)
    show ?case using Cons [of "c * 256 + uint x"] Cons [of "uint x"] by (simp add: algebra_simps)
  qed simp
  from this [of "uint b"] show ?thesis by (simp add: be_value_def)
qed

lemma length_be_bytes [simp]: "length (be_bytes k n) = k"
  by (simp add: be_bytes_def)

lemma be_value_bytes: "be_value (be_bytes k n) = take_bit (8 * k) n"
proof (induction k)
  case 0
  show ?case by (simp add: be_bytes_def be_value_def)
next
  case (Suc k)
  have "take_bit (8 * Suc k) n = push_bit (8 * k) (take_bit 8 (drop_bit (8 * k) n)) + take_bit (8 * k) n"
    using bits_ident [of "8 * k" "take_bit (8 * Suc k) n"] by (simp add: drop_bit_take_bit min_def)
  moreover have "uint (word_of_int m :: byte) = take_bit 8 m" for m by (simp add: uint_word_of_int_eq)
  ultimately show ?case
    using Suc by (simp add: be_bytes_Suc be_value_Cons_bytes push_bit_eq_mult power_mult)
qed

definition hop_bytes :: "hop \<Rightarrow> bytes" where
  "hop_bytes h = be_bytes 3 (uint (hop_fee h)) @ be_bytes 20 (uint (hop_token h))"

lemma ucast_drop_bit: "ucast (drop_bit n w) = (word_of_int (drop_bit n (uint w)) :: byte)"
proof -
  have "uint (drop_bit n w) = drop_bit n (uint w)"
    by (simp add: unsigned_drop_bit_eq take_bit_int_eq_self uint_bounded)
  then show ?thesis by (simp add: ucast_eq)
qed

lemma address_bytes_be: "address_bytes a = be_bytes 20 (uint a)"
  by (simp add: address_bytes_def be_bytes_def ucast_drop_bit)

lemma add_hop_Ok_iff: "add_hop h path = Ok path' \<longleftrightarrow> hop_fee h \<le> 0xFFFFFF \<and> path' = path @ hop_bytes h"
proof -
  have "[ucast (drop_bit 16 f), ucast (drop_bit 8 f), ucast f] = be_bytes 3 (uint f)" for f :: u64
  proof -
    have "be_bytes 3 (uint f) = be_bytes (Suc (Suc (Suc 0))) (uint f)" by (simp only: numeral_3_eq_3)
    also have "\<dots> = [word_of_int (drop_bit 16 (uint f)), word_of_int (drop_bit 8 (uint f)), word_of_int (uint f)]"
      unfolding be_bytes_Suc by (simp add: be_bytes_def)
    finally show ?thesis by (simp add: ucast_drop_bit)
  qed
  then show ?thesis
    by (simp add: add_hop_def add_fee_def add_token_def hop_bytes_def address_bytes_be not_less) auto
qed

lemma add_hops_Ok:
  "add_hops hs path = Ok path' \<longleftrightarrow> (\<forall>h \<in> set hs. hop_fee h \<le> 0xFFFFFF) \<and> path' = path @ concat (map hop_bytes hs)"
  unfolding add_hops_def
proof (induction hs arbitrary: path)
  case (Cons h hs)
  then show ?case by (auto simp: add_hop_Ok_iff simp del: word_not_simps)
qed auto

lemma is_ok_add_hops: "is_ok (add_hops hs path) = (\<forall>h \<in> set hs. hop_fee h \<le> 0xFFFFFF)"
  using add_hops_Ok [of hs path] by (cases "add_hops hs path") auto

lemma be_value_word:
  fixes w :: "'a::len word"
  assumes "uint w < 2 ^ (8 * k)"
  shows "word_of_int (be_value (be_bytes k (uint w))) = w"
  using assms by (simp add: be_value_bytes take_bit_int_eq_self)

lemma decode_hops_bytes:
  assumes "\<forall>h \<in> set hs. hop_fee h \<le> 0xFFFFFF" and "length hs \<le> n"
  shows "decode_hops n (concat (map hop_bytes hs)) = Some hs"
  using assms
proof (induction hs arbitrary: n)
  case (Cons h hs)
  then obtain m where n: "n = Suc m" by (cases n) auto
  have fee: "uint (hop_fee h) < 2 ^ (8 * 3)" using Cons.prems(1) by (simp add: word_le_def)
  have token: "uint (hop_token h) < 2 ^ (8 * 20)" using uint_bounded [of "hop_token h"] by simp
  obtain b bs where bs: "hop_bytes h @ concat (map hop_bytes hs) = b # bs"
    by (cases "hop_bytes h @ concat (map hop_bytes hs)") (auto simp: hop_bytes_def be_bytes_def)
  have "\<not> length (b # bs) < 23" and "take 3 (b # bs) = be_bytes 3 (uint (hop_fee h))"
    and "take 20 (drop 3 (b # bs)) = be_bytes 20 (uint (hop_token h))"
    and "drop 23 (b # bs) = concat (map hop_bytes hs)"
    by (simp_all flip: bs add: hop_bytes_def)
  moreover have "decode_hops m (concat (map hop_bytes hs)) = Some hs"
    using Cons by (simp add: n)
  ultimately have "decode_hops n (b # bs) = Some (h # hs)"
    using be_value_word [OF fee] be_value_word [OF token] by (simp add: n del: length_Cons)
  then show ?case using bs by simp
qed simp

definition route_tokens :: "route \<Rightarrow> evm_address list" where
  "route_tokens r = token_in r # map hop_token (hops r)"

definition route_fees :: "route \<Rightarrow> u64 list" where
  "route_fees r = map hop_fee (hops r)"

lemma route_eqI:
  assumes "route_tokens r = route_tokens q" and "route_fees r = route_fees q"
  shows "r = q"
proof -
  have "hops r = hops q"
  proof (rule nth_equalityI)
    show len: "length (hops r) = length (hops q)" using assms(2) by (auto simp: route_fees_def dest: map_eq_imp_length_eq)
    show "hops r ! i = hops q ! i" if "i < length (hops r)" for i
      using assms that len by (intro hop.equality) (auto simp: route_tokens_def route_fees_def dest: map_eq_imp_nth)
  qed
  with assms(1) show ?thesis by (intro route.equality) (simp_all add: route_tokens_def)
qed

lemma reverse_route_parts:
  "route_tokens (reverse_route r) = rev (route_tokens r)" "route_fees (reverse_route r) = rev (route_fees r)"
proof -
  let ?T = "rev (route_tokens r)" and ?F = "rev (route_fees r)"
  have len: "length (tl ?T) = length ?F" by (simp add: route_tokens_def route_fees_def)
  have split: "hd ?T # tl ?T = ?T" by (simp add: route_tokens_def)
  have "hops r \<noteq> [] \<Longrightarrow> reverse_route r
      = \<lparr> token_in = hd ?T, hops = map (\<lambda>(fee, t). \<lparr> hop_fee = fee, hop_token = t \<rparr>) (zip ?F (tl ?T)) \<rparr>"
    by (simp add: reverse_route_def route_tokens_def route_fees_def Let_def rev_map)
  moreover have "map hop_token (map (\<lambda>(fee, t). \<lparr> hop_fee = fee, hop_token = t \<rparr>) (zip ?F (tl ?T))) = tl ?T"
    using len by (simp add: comp_def case_prod_unfold map_snd_zip flip: map_map [of snd, simplified])
  moreover have "map hop_fee (map (\<lambda>(fee, t). \<lparr> hop_fee = fee, hop_token = t \<rparr>) (zip ?F (tl ?T))) = ?F"
    using len by (simp add: comp_def case_prod_unfold map_fst_zip flip: map_map [of fst, simplified])
  ultimately show "route_tokens (reverse_route r) = ?T" "route_fees (reverse_route r) = ?F"
    using split by (cases "hops r = []"; simp add: reverse_route_def [of r] route_tokens_def [of "reverse_route r"]
      route_fees_def [of "reverse_route r"] route_tokens_def route_fees_def)+
qed

lemma reverse_reverse_route: "reverse_route (reverse_route r) = r"
  by (rule route_eqI) (simp_all add: reverse_route_parts)

text \<open>
  C32: a path that is sent to the contracts determines the route: a route is encoded exactly when all its
  fees fit into 24 bits, decoding the path gives the route back, and the path of the reversed route,
  with which a fixed output is quoted, decodes to the same pools in the other direction; reversing
  twice gives the route.
\<close>

theorem path_roundtrip:
  "is_ok (encode_path r) = (\<forall>h \<in> set (hops r). hop_fee h \<le> 0xFFFFFF) \<and>
   (encode_path r = Ok path \<longrightarrow> decode_path path = Some r) \<and>
   (encode_path (reverse_route r) = Ok path \<longrightarrow> map_option reverse_route (decode_path path) = Some r) \<and>
   reverse_route (reverse_route r) = r"
proof -
  have dec: "decode_path path = Some q" if "encode_path q = Ok path" for q
  proof -
    from that have fees: "\<forall>h \<in> set (hops q). hop_fee h \<le> 0xFFFFFF"
      and path: "path = be_bytes 20 (uint (token_in q)) @ concat (map hop_bytes (hops q))"
      by (auto simp: encode_path_def add_hops_Ok add_token_def address_bytes_be)
    have "length (hops q) \<le> length path"
      by (simp add: path length_concat comp_def hop_bytes_def sum_list_triv)
    from decode_hops_bytes [OF fees this]
    have "decode_hops (length path) (drop 20 path) = Some (hops q)" by (simp add: path)
    moreover have "word_of_int (be_value (take 20 path)) = token_in q"
      using be_value_word [of "token_in q" 20] uint_bounded [of "token_in q"] by (simp add: path)
    ultimately show ?thesis by (simp add: decode_path_def path)
  qed
  have "is_ok (encode_path r) = (\<forall>h \<in> set (hops r). hop_fee h \<le> 0xFFFFFF)"
    by (simp add: encode_path_def is_ok_add_hops)
  with dec reverse_reverse_route show ?thesis by auto
qed

theorem path_roundtrip_witness:
  "decode_path (address_bytes 7 @ [0, 1, 244] @ address_bytes 9)
     = Some \<lparr> token_in = 7, hops = [\<lparr> hop_fee = 500, hop_token = 9 \<rparr>] \<rparr>"
proof -
  let ?r = "\<lparr> token_in = 7, hops = [\<lparr> hop_fee = 500, hop_token = 9 \<rparr>] \<rparr> :: route"
  have "encode_path ?r = Ok (address_bytes 7 @ [0, 1, 244] @ address_bytes 9)"
    by (simp add: encode_path_def add_hops_def add_hop_def add_fee_def add_token_def drop_bit_eq_div)
  then show ?thesis using path_roundtrip [of ?r] by blast
qed

subsection \<open>The best route\<close>

text \<open>
  The factory tells the pool of two tokens and a fee, in either order of the tokens; an answer of zero
  is no pool. The fees for which there is one are a function of the unordered pair.
\<close>

type_synonym factory = "token_pair \<times> u64 \<Rightarrow> evm_address option"

definition has_pool :: "evm_address option \<Rightarrow> bool" where
  "has_pool r = (case r of Some pool \<Rightarrow> pool \<noteq> 0 | None \<Rightarrow> False)"

definition factory_fees :: "factory \<Rightarrow> token_pair \<Rightarrow> u64 list" where
  "factory_fees factory p = filter (\<lambda>fee. has_pool (factory (p, fee))) FEE_OPTIONS"

definition uniswap_answers ::
  "'s uniswap_env \<Rightarrow> factory \<Rightarrow> (bytes \<Rightarrow> u256 \<Rightarrow> u256 option) \<Rightarrow> (bytes \<Rightarrow> u256 \<Rightarrow> u256 option) \<Rightarrow> bool" where
  "uniswap_answers env factory q_in q_out \<longleftrightarrow>
     (\<forall>a b fee. factory ((a, b), fee) = factory ((b, a), fee)) \<and>
     (\<forall>calls. ue_get_pools env calls = Some (map factory calls)) \<and>
     (\<forall>paths x. ue_quote_input env paths x = Some (map (\<lambda>p. q_in p x) paths)) \<and>
     (\<forall>paths x. ue_quote_output env paths x = Some (map (\<lambda>p. q_out p x) paths))"

text \<open>The routes there are: one pool, or two with a liquid token between them.\<close>

definition possible_routes :: "(token_pair \<Rightarrow> u64 list) \<Rightarrow> evm_address list \<Rightarrow> evm_address \<Rightarrow> evm_address \<Rightarrow> route set" where
  "possible_routes fees liquid_tokens t_in t_out =
     {r. token_in r = t_in \<and>
       ((\<exists>fee \<in> set (fees (normalized (t_in, t_out))). hops r = [\<lparr> hop_fee = fee, hop_token = t_out \<rparr>]) \<or>
        (\<exists>t \<in> set liquid_tokens - {t_in, t_out}.
         \<exists>fee1 \<in> set (fees (normalized (t_in, t))). \<exists>fee2 \<in> set (fees (normalized (t, t_out))).
           hops r = [\<lparr> hop_fee = fee1, hop_token = t \<rparr>, \<lparr> hop_fee = fee2, hop_token = t_out \<rparr>]))}"

definition path_of :: "route \<Rightarrow> bytes" where
  "path_of r = address_bytes (token_in r) @ concat (map hop_bytes (hops r))"

text \<open>Their quotes, and what the answer to a request has to be.\<close>

definition route_quotes :: "(route \<Rightarrow> u256 option) \<Rightarrow> route set \<Rightarrow> (route \<times> u256) set" where
  "route_quotes q routes = {(r, a). r \<in> routes \<and> q r = Some a}"

definition quote_correct ::
  "(u256 \<Rightarrow> u256 \<Rightarrow> bool) \<Rightarrow> (route \<times> u256) set \<Rightarrow> evm_address \<Rightarrow> evm_address \<Rightarrow> (quoter_error, u256 \<times> route) result \<Rightarrow> bool"
where
  "quote_correct worse quotes t_in t_out res =
     (case res of
        Ok (amount, data) \<Rightarrow> (\<exists>r. (r, amount) \<in> quotes \<and> data = normalize_route t_in t_out r)
          \<and> (\<forall>(r, a) \<in> quotes. worse a amount)
      | Err e \<Rightarrow> e = NoResults \<and> quotes = {}
      | Panic \<Rightarrow> False)"

lemma max_by_key_Some: "max_by_key key xs = Some x \<Longrightarrow> x \<in> set xs \<and> (\<forall>y \<in> set xs. key y \<le> key x)"
proof (cases xs)
  case (Cons y ys)
  assume "max_by_key key xs = Some x"
  moreover have "foldl (\<lambda>best y. if key best \<le> key y then y else best) y ys \<in> set (y # ys)
      \<and> (\<forall>z \<in> set (y # ys). key z \<le> key (foldl (\<lambda>best y. if key best \<le> key y then y else best) y ys))" for y ys
  proof (induction ys arbitrary: y)
    case (Cons z zs)
    from Cons [of z] Cons [of y] show ?case by (cases "key y \<le> key z") (auto intro: order_trans)
  qed simp
  ultimately show ?thesis unfolding Cons max_by_key.simps option.inject by blast
qed simp

lemma min_by_key_Some: "min_by_key key xs = Some x \<Longrightarrow> x \<in> set xs \<and> (\<forall>y \<in> set xs. key x \<le> key y)"
proof (cases xs)
  case (Cons y ys)
  assume "min_by_key key xs = Some x"
  moreover have "foldl (\<lambda>best y. if key y < key best then y else best) y ys \<in> set (y # ys)
      \<and> (\<forall>z \<in> set (y # ys). key (foldl (\<lambda>best y. if key y < key best then y else best) y ys) \<le> key z)" for y ys
  proof (induction ys arbitrary: y)
    case (Cons z zs)
    from Cons [of z] Cons [of y] show ?case by (cases "key z < key y") (auto simp: not_less intro: order_trans less_imp_le)
  qed simp
  ultimately show ?thesis unfolding Cons min_by_key.simps option.inject by blast
qed simp

lemma by_key_None [simp]: "max_by_key key xs = None \<longleftrightarrow> xs = []" "min_by_key key xs = None \<longleftrightarrow> xs = []"
  by (cases xs; simp)+

lemma set_successful_quotes:
  "set (successful_quotes routes (map q routes)) = route_quotes q (set routes)"
  by (induction routes) (auto simp: successful_quotes_def route_quotes_def map_filter_simps split: option.splits)

text \<open>Asked for the paths of routes with small fees, the best of the successful quotes is correct.\<close>

lemma best_quote_correct:
  assumes fees: "\<And>r h. r \<in> set routes \<Longrightarrow> h \<in> set (hops (direction r)) \<Longrightarrow> hop_fee h \<le> 0xFFFFFF"
    and ask: "\<And>paths. ask paths = Some (map q paths)"
    and pick: "\<And>xs x. pick xs = Some x \<Longrightarrow> x \<in> set xs \<and> (\<forall>y \<in> set xs. worse (snd y) (snd x))"
    and none: "\<And>xs. pick xs = None \<longleftrightarrow> xs = []"
  shows "quote_correct worse (route_quotes (q \<circ> path_of \<circ> direction) (set routes)) t_in t_out
    (r_map (\<lambda>(r, amount). (amount, normalize_route t_in t_out r)) (best_quote ask direction pick routes))"
proof (cases "routes = []")
  case True
  then show ?thesis by (simp add: best_quote_def quote_correct_def route_quotes_def)
next
  case False
  have "r_mapM (encode_path \<circ> direction) routes = Ok (map (path_of \<circ> direction) routes)"
    using fees by (intro r_mapM_all_Ok)
      (simp add: encode_path_def add_hops_Ok add_token_def path_of_def)
  then have best: "best_quote ask direction pick routes
      = ok_or NoResults (pick (successful_quotes routes (map (q \<circ> path_of \<circ> direction) routes)))"
    using False by (simp add: best_quote_def ask comp_assoc)
  show ?thesis
  proof (cases "pick (successful_quotes routes (map (q \<circ> path_of \<circ> direction) routes))")
    case None
    then have "route_quotes (q \<circ> path_of \<circ> direction) (set routes) = {}"
      using set_successful_quotes [of routes "q \<circ> path_of \<circ> direction"] by (simp add: none)
    then show ?thesis by (simp add: best None quote_correct_def)
  next
    case (Some x)
    from pick [OF this] have "x \<in> route_quotes (q \<circ> path_of \<circ> direction) (set routes)"
      and "\<forall>y \<in> route_quotes (q \<circ> path_of \<circ> direction) (set routes). worse (snd y) (snd x)"
      unfolding set_successful_quotes by blast+
    then show ?thesis by (cases x) (auto simp: best Some quote_correct_def)
  qed
qed

lemma normalized_swap: "normalized p = p \<or> normalized p = (snd p, fst p)"
  by (simp add: normalized_def)

lemma factory_normalized:
  assumes "\<forall>a b fee. factory ((a, b), fee) = factory ((b, a), fee)"
  shows "factory (normalized p, fee) = factory (p, fee)"
  using normalized_swap [of p] assms by (cases p) auto

text \<open>The fees that are found for a pair are those of its own four calls.\<close>

lemma discovered_fees_factory:
  assumes sym: "\<forall>a b fee. factory ((a, b), fee) = factory ((b, a), fee)"
    and "distinct (map normalized uncached)" and "p \<in> set uncached"
  shows "discovered_fees (zip (pool_calls uncached) (map factory (pool_calls uncached))) p
    = factory_fees factory (normalized p)"
proof -
  let ?own = "\<lambda>q. map snd (filter (\<lambda>(q', fee). normalized q' = normalized p \<and> has_pool (factory (q', fee))) (map (Pair q) FEE_OPTIONS))"
  have own: "?own q = (if normalized q = normalized p then factory_fees factory (normalized p) else [])" for q
    using factory_normalized [OF sym, of q] by (auto simp: filter_map comp_def factory_fees_def)
  have "discovered_fees (zip (pool_calls uncached) (map factory (pool_calls uncached))) p
      = map snd (filter (\<lambda>(q, fee). normalized q = normalized p \<and> has_pool (factory (q, fee))) (pool_calls uncached))"
    by (simp add: discovered_fees_def zip_map2 zip_same_conv_map filter_map comp_def case_prod_unfold has_pool_def)
  also have "\<dots> = concat (map ?own uncached)"
    by (simp add: pool_calls_def filter_concat map_concat comp_def)
  also have "\<dots> = factory_fees factory (normalized p)"
    using assms(2,3)
  proof (induction uncached)
    case (Cons q qs)
    show ?case
    proof (cases "p = q")
      case True
      with Cons.prems(1) have "concat (map ?own qs) = []" unfolding own by (auto intro: rev_image_eqI)
      with True show ?thesis using own [of q] by simp
    next
      case False
      with Cons.prems have "normalized q \<noteq> normalized p" and "concat (map ?own qs) = factory_fees factory (normalized p)"
        using Cons.IH by (auto intro: rev_image_eqI)
      then show ?thesis using own [of q] by simp
    qed
  qed simp
  finally show ?thesis .
qed

subsection \<open>What a store of pools promises\<close>

text \<open>
  A store answers with the fees of the pair or not at all, and takes them in; every operation keeps it
  so. With such a store the lookup finds exactly the pools that exist.
\<close>

locale pool_store =
  fixes get :: "token_pair \<Rightarrow> 's \<Rightarrow> 's \<times> (cache_error, u64 list option) result"
    and put :: "token_pair \<Rightarrow> u64 list \<Rightarrow> 's \<Rightarrow> 's \<times> (cache_error, unit) result"
    and stores :: "(token_pair \<Rightarrow> u64 list) \<Rightarrow> 's \<Rightarrow> bool"
  assumes get_law: "stores fees s \<Longrightarrow> \<exists>s'. stores fees s' \<and>
      (get p s = (s', Ok None) \<or> get p s = (s', Ok (Some (fees (normalized p)))))"
    and put_law: "stores fees s \<Longrightarrow> \<exists>s'. stores fees s' \<and> put p (fees (normalized p)) s = (s', Ok ())"
begin

lemma read_pools_stored:
  assumes "stores fees s"
  shows "\<exists>s' pools' uncached. read_pools get seen ps pools s = (s', Ok (pools', uncached)) \<and> stores fees s' \<and>
    distinct (map normalized uncached) \<and> normalized ` set uncached \<subseteq> normalized ` set ps - seen \<and>
    (\<forall>k. pools' k = (if k \<in> normalized ` set ps - seen - normalized ` set uncached \<and> fees k \<noteq> [] then Some (fees k) else pools k))"
  using assms
proof (induction ps arbitrary: seen pools s)
  case (Cons p ps)
  show ?case
  proof (cases "normalized p \<in> seen")
    case True
    with Cons.IH [OF Cons.prems, of seen pools] show ?thesis by (auto simp: insert_Diff_if)
  next
    case False
    from get_law [OF Cons.prems] obtain s1 where s1: "stores fees s1"
      and g: "get p s = (s1, Ok None) \<or> get p s = (s1, Ok (Some (fees (normalized p))))" by blast
    note IH = Cons.IH [OF s1, of "insert (normalized p) seen"]
    from g show ?thesis
    proof
      assume "get p s = (s1, Ok None)"
      moreover from IH [of pools] obtain s' pools' uncached where
        "read_pools get (insert (normalized p) seen) ps pools s1 = (s', Ok (pools', uncached))" "stores fees s'"
        "distinct (map normalized uncached)" "normalized ` set uncached \<subseteq> normalized ` set ps - insert (normalized p) seen"
        "\<forall>k. pools' k = (if k \<in> normalized ` set ps - insert (normalized p) seen - normalized ` set uncached \<and> fees k \<noteq> []
          then Some (fees k) else pools k)" by blast
      ultimately show ?thesis using False
        by (intro exI [of _ s'] exI [of _ pools'] exI [of _ "p # uncached"]) auto
    next
      assume "get p s = (s1, Ok (Some (fees (normalized p))))"
      moreover from IH [of "if fees (normalized p) = [] then pools else pools(normalized p \<mapsto> fees (normalized p))"]
      obtain s' pools' uncached where
        "read_pools get (insert (normalized p) seen) ps
          (if fees (normalized p) = [] then pools else pools(normalized p \<mapsto> fees (normalized p))) s1 = (s', Ok (pools', uncached))"
        "stores fees s'"
        "distinct (map normalized uncached)" "normalized ` set uncached \<subseteq> normalized ` set ps - insert (normalized p) seen"
        "\<forall>k. pools' k = (if k \<in> normalized ` set ps - insert (normalized p) seen - normalized ` set uncached \<and> fees k \<noteq> []
          then Some (fees k)
          else (if fees (normalized p) = [] then pools else pools(normalized p \<mapsto> fees (normalized p))) k)" by blast
      ultimately show ?thesis using False
        by (intro exI [of _ s'] exI [of _ pools'] exI [of _ uncached]) auto
    qed
  qed
qed auto

lemma store_pools_stored:
  assumes "stores fees s" and "\<forall>p \<in> set ps. fees_of p = fees (normalized p)"
  shows "\<exists>s'. stores fees s' \<and> store_pools put fees_of ps pools s =
    (s', Ok (\<lambda>k. if k \<in> normalized ` set ps \<and> fees k \<noteq> [] then Some (fees k) else pools k))"
  using assms
proof (induction ps arbitrary: pools s)
  case (Cons p ps)
  from put_law [OF Cons.prems(1), of p] obtain s1 where "stores fees s1" and "put p (fees (normalized p)) s = (s1, Ok ())"
    by blast
  with Cons.IH [of s1 "if fees (normalized p) = [] then pools else pools(normalized p \<mapsto> fees (normalized p))"] Cons.prems(2)
  show ?case by (auto simp: fun_eq_iff)
qed auto

end

lemma factory_fees_bound: "fee \<in> set (factory_fees factory k) \<Longrightarrow> fee \<le> 0xFFFFFF"
proof -
  assume "fee \<in> set (factory_fees factory k)"
  then have "fee \<in> set FEE_OPTIONS" by (simp add: factory_fees_def)
  moreover have "\<forall>f \<in> set FEE_OPTIONS. f \<le> 0xFFFFFF" by (simp add: FEE_OPTIONS_def)
  ultimately show ?thesis by blast
qed

lemma pool_lookups_pairs:
  "(t_in, t_out) \<in> set (pool_lookups liquid_tokens t_in t_out)"
  "t \<in> set liquid_tokens \<Longrightarrow> t \<notin> {t_in, t_out}
    \<Longrightarrow> (t_in, t) \<in> set (pool_lookups liquid_tokens t_in t_out) \<and> (t, t_out) \<in> set (pool_lookups liquid_tokens t_in t_out)"
  by (auto simp: pool_lookups_def)

definition known_pools :: "(token_pair \<Rightarrow> u64 list) \<Rightarrow> token_pair list \<Rightarrow> relevant_pools" where
  "known_pools fees ps = (\<lambda>k. if k \<in> normalized ` set ps \<and> fees k \<noteq> [] then Some (fees k) else None)"

lemma pool_fees_known: "(a, b) \<in> set ps \<Longrightarrow> pool_fees (known_pools fees ps) a b = fees (normalized (a, b))"
  by (simp add: pool_fees_def known_pools_def)

lemma set_generate_routes:
  "set (generate_routes liquid_tokens t_in t_out (known_pools fees (pool_lookups liquid_tokens t_in t_out)))
    = possible_routes fees liquid_tokens t_in t_out" (is "set (generate_routes _ _ _ ?pools) = _")
proof -
  have direct: "pool_fees ?pools t_in t_out = fees (normalized (t_in, t_out))"
    by (intro pool_fees_known pool_lookups_pairs)
  have legs: "pool_fees ?pools t_in t = fees (normalized (t_in, t))" "pool_fees ?pools t t_out = fees (normalized (t, t_out))"
    if "t \<in> set liquid_tokens" "t \<noteq> t_in" "t \<noteq> t_out" for t
    using that pool_lookups_pairs(2) [of t] by (simp_all add: pool_fees_known)
  have eq: "r = \<lparr> token_in = t_in, hops = hs \<rparr> \<longleftrightarrow> token_in r = t_in \<and> hops r = hs" for r :: route and hs
    by (cases r) auto
  show ?thesis
    by (rule set_eqI) (auto simp: generate_routes_def possible_routes_def direct legs image_iff eq split: if_splits)
qed

lemma possible_route_fees:
  assumes "r \<in> possible_routes (factory_fees factory) liquid_tokens t_in t_out"
  shows "\<forall>h \<in> set (hops r). hop_fee h \<le> 0xFFFFFF"
  using assms unfolding possible_routes_def by (auto dest!: factory_fees_bound)

lemma reversed_fees: "hop_fee ` set (hops (reverse_route r)) = hop_fee ` set (hops r)"
  using arg_cong [OF reverse_route_parts(2) [of r], of set] by (simp add: route_fees_def)

context pool_store
begin

lemma lookup_stored:
  assumes env: "ue_get env = get" "ue_put env = put" and ans: "uniswap_answers env factory q_in q_out"
    and s: "stores (factory_fees factory) s"
  shows "\<exists>s'. stores (factory_fees factory) s' \<and> lookup_relevant_pools env t_in t_out s =
    (s', Ok (known_pools (factory_fees factory) (pool_lookups (ue_liquid_tokens env) t_in t_out)))"
proof -
  let ?F = "factory_fees factory" and ?ps = "pool_lookups (ue_liquid_tokens env) t_in t_out"
  from read_pools_stored [OF s, of "{}" ?ps Map.empty] obtain s1 pools uncached where
    read: "read_pools get {} ?ps Map.empty s = (s1, Ok (pools, uncached))" and s1: "stores ?F s1"
    and dist: "distinct (map normalized uncached)" and sub: "normalized ` set uncached \<subseteq> normalized ` set ?ps"
    and pools: "\<And>k. pools k = (if k \<in> normalized ` set ?ps - normalized ` set uncached \<and> ?F k \<noteq> [] then Some (?F k) else None)"
    by auto
  show ?thesis
  proof (cases "uncached = []")
    case True
    then have "pools = known_pools ?F ?ps" by (auto simp: pools known_pools_def)
    with True read s1 env show ?thesis by (simp add: lookup_relevant_pools_def)
  next
    case False
    let ?results = "zip (pool_calls uncached) (map factory (pool_calls uncached))"
    have sym: "\<forall>a b fee. factory ((a, b), fee) = factory ((b, a), fee)" using ans unfolding uniswap_answers_def by blast
    have "\<forall>p \<in> set uncached. discovered_fees ?results p = ?F (normalized p)"
      using discovered_fees_factory [OF sym dist] by blast
    from store_pools_stored [OF s1 this, of pools] obtain s2 where "stores ?F s2"
      and store: "store_pools put (discovered_fees ?results) uncached pools s1 =
        (s2, Ok (\<lambda>k. if k \<in> normalized ` set uncached \<and> ?F k \<noteq> [] then Some (?F k) else pools k))" by blast
    moreover have "(\<lambda>k. if k \<in> normalized ` set uncached \<and> ?F k \<noteq> [] then Some (?F k) else pools k) = known_pools ?F ?ps"
      using subsetD [OF sub] by (intro ext) (simp add: pools known_pools_def)
    ultimately show ?thesis using False read ans env by (simp add: lookup_relevant_pools_def uniswap_answers_def)
  qed
qed

lemma quotes_correct:
  assumes env: "ue_get env = get" "ue_put env = put" and ans: "uniswap_answers env factory q_in q_out"
    and s: "stores (factory_fees factory) s"
  shows "\<exists>s' res. quote_input env t_in t_out amount s = (s', res) \<and> stores (factory_fees factory) s' \<and>
      quote_correct (\<le>) (route_quotes (\<lambda>r. q_in (path_of r) amount)
        (possible_routes (factory_fees factory) (ue_liquid_tokens env) (handle_eth env t_in) (handle_eth env t_out))) t_in t_out res"
    and "\<exists>s' res. quote_output env t_in t_out amount s = (s', res) \<and> stores (factory_fees factory) s' \<and>
      quote_correct (\<ge>) (route_quotes (\<lambda>r. q_out (path_of (reverse_route r)) amount)
        (possible_routes (factory_fees factory) (ue_liquid_tokens env) (handle_eth env t_in) (handle_eth env t_out))) t_in t_out res"
proof -
  let ?i = "handle_eth env t_in" and ?o = "handle_eth env t_out"
  let ?routes = "generate_routes (ue_liquid_tokens env) ?i ?o
    (known_pools (factory_fees factory) (pool_lookups (ue_liquid_tokens env) ?i ?o))"
  obtain s' where s': "stores (factory_fees factory) s'" and routes: "lookup_and_route env ?i ?o s = (s', Ok ?routes)"
    using lookup_stored [OF env ans s, of ?i ?o] by (auto simp: lookup_and_route_def)
  have fees: "\<And>r h. r \<in> set ?routes \<Longrightarrow> h \<in> set (hops r) \<Longrightarrow> hop_fee h \<le> 0xFFFFFF"
    unfolding set_generate_routes using possible_route_fees by blast
  have reversed: "\<And>r h. r \<in> set ?routes \<Longrightarrow> h \<in> set (hops (reverse_route r)) \<Longrightarrow> hop_fee h \<le> 0xFFFFFF"
  proof -
    fix r h assume r: "r \<in> set ?routes" and "h \<in> set (hops (reverse_route r))"
    then have "hop_fee h \<in> hop_fee ` set (hops r)" unfolding reversed_fees [of r, symmetric] by blast
    with fees [OF r] show "hop_fee h \<le> 0xFFFFFF" by auto
  qed
  note asked = ans [unfolded uniswap_answers_def]
  from best_quote_correct [of ?routes id "\<lambda>paths. ue_quote_input env paths amount" "\<lambda>p. q_in p amount" "max_by_key snd" "(\<le>)" t_in t_out]
  show "\<exists>s' res. quote_input env t_in t_out amount s = (s', res) \<and> stores (factory_fees factory) s' \<and>
      quote_correct (\<le>) (route_quotes (\<lambda>r. q_in (path_of r) amount)
        (possible_routes (factory_fees factory) (ue_liquid_tokens env) ?i ?o)) t_in t_out res"
    using fees asked s' by (simp add: quote_input_def routes set_generate_routes comp_def max_by_key_Some)
  from best_quote_correct [of ?routes reverse_route "\<lambda>paths. ue_quote_output env paths amount" "\<lambda>p. q_out p amount"
      "min_by_key snd" "(\<ge>)" t_in t_out]
  show "\<exists>s' res. quote_output env t_in t_out amount s = (s', res) \<and> stores (factory_fees factory) s' \<and>
      quote_correct (\<ge>) (route_quotes (\<lambda>r. q_out (path_of (reverse_route r)) amount)
        (possible_routes (factory_fees factory) (ue_liquid_tokens env) ?i ?o)) t_in t_out res"
    using reversed asked s' by (simp add: quote_output_def routes set_generate_routes comp_def min_by_key_Some)
qed

end

subsection \<open>The cache in memory is such a store\<close>

text \<open>
  Texts of addresses are told apart and have no dash; the entries of pairs are those of their pools;
  the time to live can be added to the clock.
\<close>

definition stores_pools ::
  "u64 list value_codec \<Rightarrow> (evm_address \<Rightarrow> string) \<Rightarrow> string \<Rightarrow> int \<Rightarrow> (token_pair \<Rightarrow> u64 list) \<Rightarrow> 'r cache \<Rightarrow> bool" where
  "stores_pools codec print_address symbol now fees s \<longleftrightarrow>
     0 \<le> now \<and> now + uint POOLS_TTL_SECS < 2 ^ 63 \<and>
     inj print_address \<and> (\<forall>a. CHR ''-'' \<notin> set (print_address a)) \<and>
     (\<forall>v e. \<exists>t. vc_to_entry codec v e = Some t \<and> vc_from_entry codec t = Some (v, e)) \<and>
     (\<exists>m. s = Memory m \<and> (\<forall>p t. m (case_prod get_key (cache_key_pools print_address symbol p)) = Some t
        \<longrightarrow> (\<exists>e. vc_from_entry codec t = Some (fees (normalized p), e))))"

lemma pools_field_inj:
  assumes "inj print_address" and "\<forall>a. CHR ''-'' \<notin> set (print_address a)"
    and "pools_field print_address p = pools_field print_address q"
  shows "normalized p = normalized q"
proof -
  obtain a b c d where pq: "normalized p = (a, b)" "normalized q = (c, d)" by force
  have before: "takeWhile (\<lambda>x. x \<noteq> CHR ''-'') (print_address x @ CHR ''-'' # y) = print_address x" for x y
    using assms(2) by (subst takeWhile_append2) auto
  have eq: "print_address a @ CHR ''-'' # print_address b = print_address c @ CHR ''-'' # print_address d"
    using assms(3) by (simp add: pools_field_def pq)
  from arg_cong [OF this, of "takeWhile (\<lambda>x. x \<noteq> CHR ''-'')"] have "print_address a = print_address c"
    unfolding before .
  with eq show ?thesis using assms(1) by (simp add: pq inj_eq)
qed

interpretation mem_pools: pool_store "pools_get srv codec print_address symbol now"
    "pools_put srv codec print_address symbol now" "stores_pools codec print_address symbol now"
  for srv :: "'r redis_server" and codec print_address symbol now
proof (standard, goal_cases)
  case (1 fees s p)
  let ?k = "\<lambda>p. case_prod get_key (cache_key_pools print_address symbol p)"
  from 1 obtain m where s: "s = Memory m"
    and m: "\<And>p t. m (?k p) = Some t \<Longrightarrow> \<exists>e. vc_from_entry codec t = Some (fees (normalized p), e)"
    unfolding stores_pools_def by blast
  have get: "pools_get srv codec print_address symbol now p s =
      map_prod Memory id (case read_entry codec now (?k p) m of
          Missing \<Rightarrow> (m, Ok None) | Hit v \<Rightarrow> (m, Ok (Some v))
        | Expired \<Rightarrow> (m(?k p := None), Ok None) | Unreadable \<Rightarrow> (m, Err CacheJson))"
    by (cases "cache_key_pools print_address symbol p") (simp add: pools_get_def s mem_get_def Let_def split: entry_read.split)
  consider "read_entry codec now (?k p) m = Missing" | "read_entry codec now (?k p) m = Hit (fees (normalized p))"
    | "read_entry codec now (?k p) m = Expired"
  proof (cases "m (?k p)")
    case (Some t)
    from m [OF this] obtain e where "vc_from_entry codec t = Some (fees (normalized p), e)" ..
    with Some that show thesis by (cases "is_expired now e") (simp_all add: read_entry_def)
  qed (use that in \<open>simp add: read_entry_def\<close>)
  then show ?case
  proof cases
    case 3
    have "stores_pools codec print_address symbol now fees (Memory (m(?k p := None)))"
      using 1 unfolding stores_pools_def s by auto
    with 3 show ?thesis unfolding get by auto
  qed (use 1 s get in auto)
next
  case (2 fees s p)
  let ?k = "\<lambda>p. case_prod get_key (cache_key_pools print_address symbol p)"
  from 2 obtain m where s: "s = Memory m" unfolding stores_pools_def by blast
  from 2 have now: "0 \<le> now" "now + uint POOLS_TTL_SECS < 2 ^ 63"
    and inj: "inj print_address" "\<forall>a. CHR ''-'' \<notin> set (print_address a)" unfolding stores_pools_def by blast+
  define e where "e = Some (word_of_int (now + uint POOLS_TTL_SECS) :: u64)"
  have "expiry_time now (Some POOLS_TTL_SECS) = Ok e"
    using now by (simp add: expiry_time_def e_def not_less)
  moreover from 2 obtain t where t: "vc_to_entry codec (fees (normalized p)) e = Some t"
    "vc_from_entry codec t = Some (fees (normalized p), e)" unfolding stores_pools_def by blast
  ultimately have put: "pools_put srv codec print_address symbol now p (fees (normalized p)) s = (Memory (m(?k p \<mapsto> t)), Ok ())"
    by (simp add: pools_put_def s mem_set_def cache_key_pools_def)
  have same: "normalized q = normalized p" if "?k q = ?k p" for q
    using that pools_field_inj [OF inj, of q p] by (simp add: cache_key_pools_def get_key_def)
  have "\<exists>e. vc_from_entry codec u = Some (fees (normalized q), e)" if "(m(?k p \<mapsto> t)) (?k q) = Some u" for q u
  proof (cases "?k q = ?k p")
    case True
    with that t(2) show ?thesis by (simp add: same [OF True])
  next
    case False
    with that have "m (?k q) = Some u" by simp
    with 2 show ?thesis unfolding stores_pools_def s by blast
  qed
  then have "stores_pools codec print_address symbol now fees (Memory (m(?k p \<mapsto> t)))"
    using 2 unfolding stores_pools_def by blast
  with put show ?case by blast
qed

text \<open>
  C30: the best quote. With a cache in memory whose entries agree with the factory, a request for a fixed
  input is answered with the greatest amount that any route over existing pools is quoted with (one
  pool, or two around a liquid token), one for a fixed output with the least amount, and the route that
  goes with it, which starts and ends at the tokens that were asked for; there are no results only
  when no route is quoted, there is no other error, and the cache still agrees with the factory.
\<close>

theorem quote_optimal:
  fixes t_in t_out :: evm_address
  assumes "ue_get env = pools_get srv codec print_address symbol now"
    and "ue_put env = pools_put srv codec print_address symbol now"
    and "uniswap_answers env factory q_in q_out"
    and "stores_pools codec print_address symbol now (factory_fees factory) s"
  defines "routes \<equiv> possible_routes (factory_fees factory) (ue_liquid_tokens env) (handle_eth env t_in) (handle_eth env t_out)"
  shows "(\<exists>s' res. quote_input env t_in t_out amount s = (s', res)
      \<and> stores_pools codec print_address symbol now (factory_fees factory) s'
      \<and> quote_correct (\<le>) (route_quotes (\<lambda>r. q_in (path_of r) amount) routes) t_in t_out res)
    \<and> (\<exists>s' res. quote_output env t_in t_out amount s = (s', res)
      \<and> stores_pools codec print_address symbol now (factory_fees factory) s'
      \<and> quote_correct (\<ge>) (route_quotes (\<lambda>r. q_out (path_of (reverse_route r)) amount) routes) t_in t_out res)"
  unfolding routes_def using mem_pools.quotes_correct [OF assms(1-4)] by blast

text \<open>A chain with one pool, between the wrapped coin and token 7, and a quoter that takes one unit.\<close>

definition fees_codec :: "u64 list value_codec" where
  "fees_codec = text_codec (\<lambda>ws. concat (map bits_text ws)) (\<lambda>t. Some (map text_bits (chunks 64 t)))"

lemma fees_codec_ok: "codec_ok fees_codec text_expiry"
  unfolding fees_codec_def
proof (rule text_codec_ok)
  fix ws :: "u64 list"
  have len: "length (bits_text w) = 64" for w :: u64 by (simp add: bits_text_def)
  have "chunks 64 (concat (map bits_text ws)) = map bits_text ws"
  proof (induction ws)
    case (Cons w ws)
    have "chunks 64 (bits_text w @ r) = bits_text w # chunks 64 r" for r
      by (subst chunks.simps) (simp add: len bits_text_not_Nil)
    with Cons show ?case by simp
  qed (simp add: chunks.simps)
  then show "Some (map text_bits (chunks 64 (concat (map bits_text ws)))) = Some ws"
    by (simp add: comp_def text_bits_text)
qed

definition example_factory :: factory where
  "example_factory = (\<lambda>(p, fee). if normalized p = (5, 7) \<and> fee = 3000 then Some 1 else Some 0)"

definition no_redis :: "unit redis_server" where
  "no_redis = \<lparr> HGET = (\<lambda>_ _ r. (r, Err CacheRedis)), HMGET = (\<lambda>_ _ r. (r, Err CacheRedis)),
     HSET_HEXPIRE = (\<lambda>_ _ _ _ r. (r, Err CacheRedis)), HGETDEL = (\<lambda>_ _ r. (r, Err CacheRedis)),
     HDEL = (\<lambda>_ _ r. (r, Err CacheRedis)) \<rparr>"

definition example_uniswap :: "unit cache uniswap_env" where
  "example_uniswap = \<lparr> ue_get = pools_get no_redis fees_codec bits_text ''RBTC'' 100,
     ue_put = pools_put no_redis fees_codec bits_text ''RBTC'' 100,
     ue_get_pools = (\<lambda>calls. Some (map example_factory calls)),
     ue_quote_input = (\<lambda>paths x. Some (map (\<lambda>_. Some (x - 1)) paths)),
     ue_quote_output = (\<lambda>paths x. Some (map (\<lambda>_. Some (x + 1)) paths)),
     ue_liquid_tokens = [9], ue_weth = 5, ue_router = 11 \<rparr>"

lemma example_uniswap_answers:
  "uniswap_answers example_uniswap example_factory (\<lambda>_ x. Some (x - 1)) (\<lambda>_ x. Some (x + 1))"
proof -
  have "normalized (a, b) = normalized (b, a)" for a b by (auto simp: normalized_def)
  then show ?thesis by (simp add: uniswap_answers_def example_uniswap_def example_factory_def)
qed

lemma example_pools_stored: "stores_pools fees_codec bits_text ''RBTC'' 100 (factory_fees example_factory) (Memory mem_cache_new)"
proof -
  have "inj (bits_text :: evm_address \<Rightarrow> string)" by (metis injI text_bits_text)
  moreover have "CHR ''-'' \<notin> set (bits_text a)" for a :: evm_address by (auto simp: bits_text_def)
  moreover have "\<exists>t. vc_to_entry fees_codec v e = Some t \<and> vc_from_entry fees_codec t = Some (v, e)" for v e
    using fees_codec_ok unfolding codec_ok_def by blast
  ultimately show ?thesis by (simp add: stores_pools_def POOLS_TTL_SECS_def mem_cache_new_def)
qed

theorem quote_optimal_witness:
  "\<exists>s' r. quote_input example_uniswap 0 7 100 (Memory mem_cache_new) = (s', Ok (99, r))"
proof -
  let ?routes = "possible_routes (factory_fees example_factory) [9] 5 7"
  let ?r = "\<lparr> token_in = 5, hops = [\<lparr> hop_fee = 3000, hop_token = 7 \<rparr>] \<rparr> :: route"
  have "(3000 :: u64) \<in> set (factory_fees example_factory (normalized (5, 7)))"
    by (simp add: factory_fees_def FEE_OPTIONS_def example_factory_def has_pool_def normalized_def)
  then have "?r \<in> ?routes" by (simp add: possible_routes_def)
  then have some: "route_quotes (\<lambda>_. Some 99) ?routes \<noteq> {}" by (auto simp: route_quotes_def)
  have env: "ue_get example_uniswap = pools_get no_redis fees_codec bits_text ''RBTC'' 100"
    "ue_put example_uniswap = pools_put no_redis fees_codec bits_text ''RBTC'' 100"
    and eth: "handle_eth example_uniswap 0 = 5" "handle_eth example_uniswap 7 = 7"
      "ue_liquid_tokens example_uniswap = [9]"
    by (simp_all add: example_uniswap_def handle_eth_def)
  obtain s' res where "quote_input example_uniswap 0 7 100 (Memory mem_cache_new) = (s', res)"
    and "quote_correct (\<le>) (route_quotes (\<lambda>_. Some 99) ?routes) 0 7 res"
    using quote_optimal [OF env example_uniswap_answers example_pools_stored, of 0 7 100] by (auto simp: eth)
  with some show ?thesis
    by (cases res) (auto simp: quote_correct_def route_quotes_def)
qed

subsection \<open>The swap that is executed\<close>

text \<open>
  Putting the wrapped coin back for the zero address undoes the normalisation of a route that ends where
  it was asked to end.
\<close>

lemma unnormalized_route:
  assumes r: "r \<in> possible_routes fees liquid_tokens (handle_eth env t_in) (handle_eth env t_out)"
    and liquid: "0 \<notin> set liquid_tokens"
  shows "hops (normalize_route t_in t_out r) \<noteq> []"
    and "hop_token (last (hops (normalize_route t_in t_out r))) = t_out"
    and "map (\<lambda>h. h\<lparr> hop_token := handle_eth env (hop_token h) \<rparr>) (hops (normalize_route t_in t_out r)) = hops r"
    and "token_in (normalize_route t_in t_out r) = t_in" and "token_in r = handle_eth env t_in"
  using r liquid by (auto simp: possible_routes_def normalize_route_def handle_eth_def)

definition swap_commands :: "evm_address \<Rightarrow> evm_address \<Rightarrow> command list" where
  "swap_commands t_in t_out =
     (if t_in = 0 then [WrapEth] else []) @ [V3SwapExactIn] @ (if t_out = 0 then [UnwrapWeth] else [])"

text \<open>
  C31: what is executed is what was quoted: for a route over existing pools, put into the terms of the
  request, the calls hand the whole input to the router, once, as a transfer of the token or as the
  value of the call, and the router swaps over exactly the path the quote was asked for, with the least
  output as its bound; it pays the recipient itself or, for the coin of the chain, by unwrapping.
\<close>

theorem executes_quoted_path:
  assumes "r \<in> possible_routes (factory_fees factory) liquid_tokens (handle_eth env t_in) (handle_eth env t_out)"
    and "0 \<notin> set liquid_tokens" and "\<And>to i m p u. 32 \<le> length (abi_swap abi to i m p u)"
  shows "router_encode abi env (normalize_route t_in t_out r) recipient amount_in amount_out_min = Ok (
    (if t_in = 0 then [] else [\<lparr> call_to = t_in, call_value = 0, call_data = abi_transfer abi (ue_router env) amount_in \<rparr>]) @
    [\<lparr> call_to = ue_router env, call_value = (if t_in = 0 then amount_in else 0),
       call_data = abi_execute abi (map (\<lambda>c. encode_command c False) (swap_commands t_in t_out))
         ((if t_in = 0 then [abi_address_amount abi (ue_router env) amount_in] else []) @
          [drop 32 (abi_swap abi (if t_out = 0 then ue_router env else recipient) amount_in amount_out_min (path_of r) False)] @
          (if t_out = 0 then [abi_address_amount abi recipient amount_out_min] else [])) \<rparr>])"
proof -
  note un = unnormalized_route [OF assms(1,2)]
  have path: "add_hops (hops r) (add_token (token_in r) []) = Ok (path_of r)"
    using possible_route_fees [OF assms(1)] by (simp add: add_hops_Ok add_token_def path_of_def)
  then show ?thesis
    using un(1) assms(3) unfolding router_encode_def un(2,3,4) un(5) [symmetric]
    by (simp add: Let_def v3_swap_exact_in_def add_command_def wrap_ether_def unwrap_ether_def swap_commands_def not_less)
qed

definition example_abi :: evm_abi where
  "example_abi = \<lparr> abi_transfer = (\<lambda>_ _. [1]), abi_address_amount = (\<lambda>_ _. [2]),
     abi_swap = (\<lambda>_ _ _ path _. replicate 32 0 @ path), abi_execute = (\<lambda>cs inputs. cs @ concat inputs) \<rparr>"

theorem executes_quoted_path_witness:
  "router_encode example_abi example_uniswap
     (normalize_route 0 7 \<lparr> token_in = 5, hops = [\<lparr> hop_fee = 3000, hop_token = 7 \<rparr>] \<rparr>) 8 100 90
   = Ok [\<lparr> call_to = 11, call_value = 100,
       call_data = [11, 0] @ [2] @ path_of \<lparr> token_in = 5, hops = [\<lparr> hop_fee = 3000, hop_token = 7 \<rparr>] \<rparr> \<rparr>]"
proof -
  let ?r = "\<lparr> token_in = 5, hops = [\<lparr> hop_fee = 3000, hop_token = 7 \<rparr>] \<rparr> :: route"
  have r: "?r \<in> possible_routes (factory_fees example_factory) [9] (handle_eth example_uniswap 0) (handle_eth example_uniswap 7)"
    by (simp add: possible_routes_def handle_eth_def example_uniswap_def factory_fees_def FEE_OPTIONS_def
        example_factory_def has_pool_def normalized_def)
  have nz: "0 \<notin> set [9 :: evm_address]" by simp
  have len: "32 \<le> length (abi_swap example_abi to i m p u)" for to i m p u by (simp add: example_abi_def)
  show ?thesis
    unfolding executes_quoted_path [OF r nz len]
    by (simp add: swap_commands_def encode_command_def example_abi_def) (simp add: example_uniswap_def)
qed

end
