(* ===== verification/Bolt12_Offers.thy ===== *)
theory Bolt12_Offers
  imports Offer_Subscriptions Webhook_Caller Chain_Utils
begin

text \<open>
  The registered BOLT 12 offers: the table of \<open>src/boltzr/src/db/helpers/offer.rs\<close>, the operations of
  \<open>src/boltzr/src/lightning/cln/hold.rs\<close> that change it and the requests of \<open>src/boltzr/src/api/bolt12.rs\<close>
  that call them. The table is the list of its rows, whose primary key is the signer; a query fails when
  \<open>up\<close> says so. Decoding, hex and signatures are those of \<open>offer_lib\<close>.
\<close>

record offer_row =
  or_signer :: bytes
  or_offer :: string
  or_url :: "string option"

datatype offer_query = QInsert | QUpdate | QDelete | QGetBySigner | QGetOffer

datatype hold_error =
    HoldDb | HoldUrl url_error | HoldDecode invoice_error | NotAnOffer | NoIssuerKey
  | AlreadyRegistered | NoOfferRegistered | HoldInvalidSignature | HoldSignatureFormat | HoldPubkey
  | HoldRequest | HoldSubscription offer_error | HoldCall hook_error | ResponseError string | ResponseJson
  | ReceiveFailed | FetchTimeout | WrongSigner | Unreachable | NotAnInvoice | RequestDecode
  | ScidPath | NoPathKey | NoBlindedNodeId | OnionFailed | InjectFailed | NodeError string
  | HintError chain_error

record hold_lib =
  hl_offer :: offer_lib
  hl_net :: net_lib
  hl_caller :: caller_config
  hl_pubkey_ok :: "bytes \<Rightarrow> bool"

subsection \<open>The table\<close>

definition get_by_signer :: "(offer_query \<Rightarrow> bool) \<Rightarrow> bytes \<Rightarrow> offer_row list \<Rightarrow> (hold_error, offer_row option) result" where
  "get_by_signer up signer t = (if up QGetBySigner then Ok (find (\<lambda>r. or_signer r = signer) t) else Err HoldDb)"

definition get_offer ::
  "(string \<Rightarrow> string) \<Rightarrow> (offer_query \<Rightarrow> bool) \<Rightarrow> string \<Rightarrow> offer_row list \<Rightarrow> (hold_error, offer_row option) result" where
  "get_offer lower up offer t =
     (if up QGetOffer then Ok (find (\<lambda>r. or_offer r = lower offer) t) else Err HoldDb)"

definition offer_insert :: "(offer_query \<Rightarrow> bool) \<Rightarrow> offer_row \<Rightarrow> offer_row list \<Rightarrow> (hold_error, offer_row list) result" where
  "offer_insert up row t =
     (if \<not> up QInsert \<or> or_signer row \<in> or_signer ` set t then Err HoldDb else Ok (t @ [row]))"

definition offer_update ::
  "(offer_query \<Rightarrow> bool) \<Rightarrow> bytes \<Rightarrow> string option \<Rightarrow> offer_row list \<Rightarrow> (hold_error, offer_row list) result" where
  "offer_update up signer url t =
     (if up QUpdate then Ok (map (\<lambda>r. if or_signer r = signer then r\<lparr>or_url := url\<rparr> else r) t) else Err HoldDb)"

definition offer_delete :: "(offer_query \<Rightarrow> bool) \<Rightarrow> bytes \<Rightarrow> offer_row list \<Rightarrow> (hold_error, offer_row list) result" where
  "offer_delete up signer t = (if up QDelete then Ok (filter (\<lambda>r. or_signer r \<noteq> signer) t) else Err HoldDb)"

subsection \<open>Operations\<close>

definition OFFER_DELETE_MESSAGE :: string where
  "OFFER_DELETE_MESSAGE = ''DELETE''"

definition OFFER_UPDATE_NO_URL_MESSAGE :: string where
  "OFFER_UPDATE_NO_URL_MESSAGE = ''UPDATE''"

definition prepare_offer :: "hold_lib \<Rightarrow> string \<Rightarrow> string option \<Rightarrow> (hold_error, bytes) result" where
  "prepare_offer lib offer url =
     r_bind (case url of
         Some u \<Rightarrow> r_map_err HoldUrl (validate_url (hl_net lib) (cc_block_list (hl_caller lib)) u (ol_network (hl_offer lib) = Regtest))
       | None \<Rightarrow> Ok ()) (\<lambda>_.
     r_bind (r_map_err HoldDecode (decode_invoice (ol_invoice (hl_offer lib)) (ol_network (hl_offer lib)) offer)) (\<lambda>decoded.
       case decoded of
         Offer parsed \<Rightarrow> ok_or NoIssuerKey (of_issuer_signing_pubkey parsed)
       | _ \<Rightarrow> Err NotAnOffer))"

definition schnorr_signature_valid :: "hold_lib \<Rightarrow> bytes \<Rightarrow> bytes \<Rightarrow> string \<Rightarrow> (hold_error, bool) result" where
  "schnorr_signature_valid lib signer signature message =
     r_bind (ok_or HoldSignatureFormat (ol_sig_from_slice (hl_offer lib) signature)) (\<lambda>s.
       if hl_pubkey_ok lib signer then Ok (ol_verify_schnorr (hl_offer lib) s message signer) else Err HoldPubkey)"

definition add_offer ::
  "hold_lib \<Rightarrow> (offer_query \<Rightarrow> bool) \<Rightarrow> string \<Rightarrow> string option \<Rightarrow> offer_row list \<Rightarrow> (hold_error, offer_row list) result" where
  "add_offer lib up offer url t =
     r_bind (prepare_offer lib offer url) (\<lambda>signer.
     r_bind (get_by_signer up signer t) (\<lambda>known.
       if known \<noteq> None then Err AlreadyRegistered
       else offer_insert up \<lparr>or_signer = signer, or_offer = il_to_lowercase (ol_invoice (hl_offer lib)) offer, or_url = url\<rparr> t))"

definition update_offer ::
  "hold_lib \<Rightarrow> (offer_query \<Rightarrow> bool) \<Rightarrow> string \<Rightarrow> string option \<Rightarrow> bytes \<Rightarrow> offer_row list \<Rightarrow> (hold_error, offer_row list) result" where
  "update_offer lib up offer url signature t =
     r_bind (prepare_offer lib offer url) (\<lambda>signer.
     r_bind (get_by_signer up signer t) (\<lambda>known.
       if known = None then Err NoOfferRegistered
       else r_bind (schnorr_signature_valid lib signer signature (unwrap_or OFFER_UPDATE_NO_URL_MESSAGE url)) (\<lambda>valid.
         if \<not> valid then Err HoldInvalidSignature else offer_update up signer url t)))"

definition delete_offer ::
  "hold_lib \<Rightarrow> (offer_query \<Rightarrow> bool) \<Rightarrow> string \<Rightarrow> bytes \<Rightarrow> offer_row list \<Rightarrow> (hold_error, offer_row list) result" where
  "delete_offer lib up offer signature t =
     r_bind (prepare_offer lib offer None) (\<lambda>signer.
     r_bind (get_by_signer up signer t) (\<lambda>known.
       if known = None then Err NoOfferRegistered
       else r_bind (schnorr_signature_valid lib signer signature OFFER_DELETE_MESSAGE) (\<lambda>valid.
         if \<not> valid then Err HoldInvalidSignature else offer_delete up signer t)))"

subsection \<open>Requests\<close>

text \<open>A request for a currency that has a node (\<open>has_cln\<close>) or not; the reply is its status code.\<close>

datatype offer_request =
    CreateRequest string "string option"
  | UpdateRequest string "string option" string
  | DeleteRequest string string

type_synonym offer_reply = "nat \<times> offer_row list"

fun offer_error_response :: "hold_error \<Rightarrow> nat" where
  "offer_error_response NoOfferRegistered = 404"
| "offer_error_response HoldInvalidSignature = 401"
| "offer_error_response _ = 500"

definition bolt12_create ::
  "hold_lib \<Rightarrow> (offer_query \<Rightarrow> bool) \<Rightarrow> bool \<Rightarrow> string \<Rightarrow> string option \<Rightarrow> offer_row list \<Rightarrow> (hold_error, offer_reply) result" where
  "bolt12_create lib up has_cln offer url t =
     (if \<not> has_cln then Ok (404, t)
      else (case add_offer lib up offer url t of
              Ok t' \<Rightarrow> Ok (201, t') | Err e \<Rightarrow> Ok (500, t) | Panic \<Rightarrow> Panic))"

definition signed_request ::
  "hold_lib \<Rightarrow> bool \<Rightarrow> string \<Rightarrow> offer_row list \<Rightarrow> (bytes \<Rightarrow> (hold_error, offer_row list) result) \<Rightarrow> (hold_error, offer_reply) result" where
  "signed_request lib has_cln signature t act =
     (case ol_hex_decode (hl_offer lib) signature of
        None \<Rightarrow> Ok (422, t)
      | Some s \<Rightarrow>
          if \<not> has_cln then Ok (404, t)
          else (case act s of Ok t' \<Rightarrow> Ok (200, t') | Err e \<Rightarrow> Ok (offer_error_response e, t) | Panic \<Rightarrow> Panic))"

definition bolt12_update ::
  "hold_lib \<Rightarrow> (offer_query \<Rightarrow> bool) \<Rightarrow> bool \<Rightarrow> string \<Rightarrow> string option \<Rightarrow> string \<Rightarrow> offer_row list \<Rightarrow> (hold_error, offer_reply) result" where
  "bolt12_update lib up has_cln offer url signature t =
     signed_request lib has_cln signature t (\<lambda>s. update_offer lib up offer url s t)"

definition bolt12_delete ::
  "hold_lib \<Rightarrow> (offer_query \<Rightarrow> bool) \<Rightarrow> bool \<Rightarrow> string \<Rightarrow> string \<Rightarrow> offer_row list \<Rightarrow> (hold_error, offer_reply) result" where
  "bolt12_delete lib up has_cln offer signature t =
     signed_request lib has_cln signature t (\<lambda>s. delete_offer lib up offer s t)"

fun offer_request_step ::
  "hold_lib \<Rightarrow> (offer_query \<Rightarrow> bool) \<times> bool \<times> offer_request \<Rightarrow> offer_row list \<Rightarrow> (hold_error, offer_reply) result" where
  "offer_request_step lib (up, has_cln, CreateRequest offer url) t = bolt12_create lib up has_cln offer url t"
| "offer_request_step lib (up, has_cln, UpdateRequest offer url sig) t = bolt12_update lib up has_cln offer url sig t"
| "offer_request_step lib (up, has_cln, DeleteRequest offer sig) t = bolt12_delete lib up has_cln offer sig t"

fun offer_requests ::
  "hold_lib \<Rightarrow> ((offer_query \<Rightarrow> bool) \<times> bool \<times> offer_request) list \<Rightarrow> offer_row list \<Rightarrow> (hold_error, nat list \<times> offer_row list) result" where
  "offer_requests lib [] t = Ok ([], t)"
| "offer_requests lib (req # reqs) t =
     r_bind (offer_request_step lib req t) (\<lambda>(code, t'). r_map (map_prod ((#) code) id) (offer_requests lib reqs t'))"

subsection \<open>Who may change a row\<close>

definition signature_by :: "hold_lib \<Rightarrow> string \<Rightarrow> string \<Rightarrow> bytes \<Rightarrow> bool" where
  "signature_by lib signature message signer \<longleftrightarrow> (\<exists>raw s. ol_hex_decode (hl_offer lib) signature = Some raw
     \<and> ol_sig_from_slice (hl_offer lib) raw = Some s \<and> ol_verify_schnorr (hl_offer lib) s message signer)"

fun signed_by :: "hold_lib \<Rightarrow> offer_request \<Rightarrow> bytes \<Rightarrow> bool" where
  "signed_by lib (CreateRequest offer url) signer = False"
| "signed_by lib (UpdateRequest offer url sig) signer =
     (prepare_offer lib offer url = Ok signer \<and> signature_by lib sig (unwrap_or OFFER_UPDATE_NO_URL_MESSAGE url) signer)"
| "signed_by lib (DeleteRequest offer sig) signer =
     (prepare_offer lib offer None = Ok signer \<and> signature_by lib sig OFFER_DELETE_MESSAGE signer)"

fun registers :: "hold_lib \<Rightarrow> offer_request \<Rightarrow> bytes \<Rightarrow> string \<Rightarrow> bool" where
  "registers lib (CreateRequest offer url) signer text' =
     (prepare_offer lib offer url = Ok signer \<and> text' = il_to_lowercase (ol_invoice (hl_offer lib)) offer)"
| "registers lib _ signer text' = False"

text \<open>What one request can do to the table: nothing, or one of three changes it is entitled to.\<close>

inductive offer_change :: "hold_lib \<Rightarrow> offer_request \<Rightarrow> offer_row list \<Rightarrow> offer_row list \<Rightarrow> bool" for lib where
  registered: "registers lib req (or_signer row) (or_offer row) \<Longrightarrow> or_signer row \<notin> or_signer ` set t
    \<Longrightarrow> offer_change lib req t (t @ [row])"
| updated: "signed_by lib req signer
    \<Longrightarrow> offer_change lib req t (map (\<lambda>r. if or_signer r = signer then r\<lparr>or_url := url\<rparr> else r) t)"
| deleted: "signed_by lib req signer \<Longrightarrow> offer_change lib req t (filter (\<lambda>r. or_signer r \<noteq> signer) t)"

lemma add_offer_change:
  assumes "add_offer lib up offer url t = Ok t'"
  shows "offer_change lib (CreateRequest offer url) t t'"
proof -
  from assms obtain signer where signer: "prepare_offer lib offer url = Ok signer"
    and ins: "offer_insert up \<lparr>or_signer = signer, or_offer = il_to_lowercase (ol_invoice (hl_offer lib)) offer, or_url = url\<rparr> t = Ok t'"
    by (auto simp: add_offer_def split: if_splits)
  from ins have t': "t' = t @ [\<lparr>or_signer = signer, or_offer = il_to_lowercase (ol_invoice (hl_offer lib)) offer, or_url = url\<rparr>]"
    and new: "signer \<notin> or_signer ` set t"
    by (simp_all add: offer_insert_def split: if_splits)
  show ?thesis unfolding t' by (rule registered) (use signer new in simp_all)
qed

lemma update_offer_change:
  assumes "update_offer lib up offer url raw t = Ok t'" and "ol_hex_decode (hl_offer lib) sig = Some raw"
  shows "offer_change lib (UpdateRequest offer url sig) t t'"
proof -
  from assms(1) obtain signer where signer: "prepare_offer lib offer url = Ok signer"
    and valid: "schnorr_signature_valid lib signer raw (unwrap_or OFFER_UPDATE_NO_URL_MESSAGE url) = Ok True"
    and t': "t' = map (\<lambda>r. if or_signer r = signer then r\<lparr>or_url := url\<rparr> else r) t"
    by (auto simp: update_offer_def offer_update_def split: if_splits)
  show ?thesis unfolding t' by (rule updated)
    (use signer valid assms(2) in \<open>auto simp: signature_by_def schnorr_signature_valid_def split: if_splits\<close>)
qed

lemma delete_offer_change:
  assumes "delete_offer lib up offer raw t = Ok t'" and "ol_hex_decode (hl_offer lib) sig = Some raw"
  shows "offer_change lib (DeleteRequest offer sig) t t'"
proof -
  from assms(1) obtain signer where signer: "prepare_offer lib offer None = Ok signer"
    and valid: "schnorr_signature_valid lib signer raw OFFER_DELETE_MESSAGE = Ok True"
    and t': "t' = filter (\<lambda>r. or_signer r \<noteq> signer) t"
    by (auto simp: delete_offer_def offer_delete_def split: if_splits)
  show ?thesis unfolding t' by (rule deleted)
    (use signer valid assms(2) in \<open>auto simp: signature_by_def schnorr_signature_valid_def split: if_splits\<close>)
qed

lemma offer_error_response_not_2xx: "300 \<le> offer_error_response e"
  by (cases e) simp_all

lemma offer_request_step_change:
  assumes "offer_request_step lib (up, has_cln, req) t = Ok (code, t')"
  shows "(code < 300 \<and> offer_change lib req t t') \<or> (300 \<le> code \<and> t' = t)"
proof (cases req)
  case (CreateRequest offer url)
  with assms show ?thesis
    by (auto simp: bolt12_create_def split: if_splits result.splits dest: add_offer_change)
next
  case (UpdateRequest offer url sig)
  with assms show ?thesis
    by (auto simp: bolt12_update_def signed_request_def offer_error_response_not_2xx
        split: if_splits option.splits result.splits dest: update_offer_change)
next
  case (DeleteRequest offer sig)
  with assms show ?thesis
    by (auto simp: bolt12_delete_def signed_request_def offer_error_response_not_2xx
        split: if_splits option.splits result.splits dest: delete_offer_change)
qed

text \<open>What a history of requests keeps.\<close>

definition table_accounts :: "hold_lib \<Rightarrow> offer_request set \<Rightarrow> offer_row list \<Rightarrow> offer_row list \<Rightarrow> bool" where
  "table_accounts lib reqs t t' \<longleftrightarrow> distinct (map or_signer t') \<and>
     (\<forall>r \<in> set t. r \<in> set t' \<or> (\<exists>req \<in> reqs. signed_by lib req (or_signer r))) \<and>
     (\<forall>r \<in> set t'. (\<exists>r0 \<in> set t. or_signer r0 = or_signer r \<and> or_offer r0 = or_offer r)
        \<or> (\<exists>req \<in> reqs. registers lib req (or_signer r) (or_offer r)))"

lemma offer_change_accounts:
  assumes "offer_change lib req t t'" and "distinct (map or_signer t)"
  shows "table_accounts lib {req} t t'"
  using assms
proof induction
  case (updated req signer t url)
  have "distinct (map or_signer (map (\<lambda>r. if or_signer r = signer then r\<lparr>or_url := url\<rparr> else r) t))"
    using updated(2) by (simp add: comp_def if_distrib cong: if_cong)
  then show ?case
    unfolding table_accounts_def using updated(1) by (intro conjI) (assumption, auto simp: image_iff)
next
  case (deleted req signer t)
  then show ?case by (auto simp: table_accounts_def distinct_map_filter)
qed (auto simp: table_accounts_def)

lemma table_accounts_trans:
  assumes "table_accounts lib A t t'" and "table_accounts lib B t' t''"
  shows "table_accounts lib (A \<union> B) t t''"
  unfolding table_accounts_def
proof (intro conjI ballI)
  show "distinct (map or_signer t'')" using assms(2) by (simp add: table_accounts_def)
  show "r \<in> set t'' \<or> (\<exists>req \<in> A \<union> B. signed_by lib req (or_signer r))" if "r \<in> set t" for r
    using that assms unfolding table_accounts_def by blast
  fix r assume "r \<in> set t''"
  with assms(2) consider r0 where "r0 \<in> set t'" "or_signer r0 = or_signer r" "or_offer r0 = or_offer r"
    | req where "req \<in> B" "registers lib req (or_signer r) (or_offer r)" unfolding table_accounts_def by blast
  then show "(\<exists>r0 \<in> set t. or_signer r0 = or_signer r \<and> or_offer r0 = or_offer r)
      \<or> (\<exists>req \<in> A \<union> B. registers lib req (or_signer r) (or_offer r))"
  proof cases
    case 1
    with assms(1) show ?thesis unfolding table_accounts_def by fastforce
  qed blast
qed

lemma table_accounts_refl: "distinct (map or_signer t) \<Longrightarrow> table_accounts lib {} t t"
  by (auto simp: table_accounts_def)

lemma table_accounts_distinct: "table_accounts lib A t t' \<Longrightarrow> distinct (map or_signer t')"
  by (simp add: table_accounts_def)

text \<open>
  C33: nobody but the holder of its key changes a registered offer. Over any sequence of requests,
  whatever queries fail, the signers of the table stay distinct; a row that is changed or gone was so
  by a request with a valid signature of its signer, over the new URL or the message for no URL, or
  over the message for deletion; every row stands for an offer that was there before or was registered by
  a request with an offer of that issuer; and a request that is not answered with success changes
  nothing.
\<close>

theorem offers_authenticated:
  assumes "offer_requests lib reqs t = Ok (codes, t')" and "distinct (map or_signer t)"
  shows "distinct (map or_signer t') \<and>
    (\<forall>r \<in> set t. r \<in> set t' \<or> (\<exists>req \<in> (snd \<circ> snd) ` set reqs. signed_by lib req (or_signer r))) \<and>
    (\<forall>r \<in> set t'. (\<exists>r0 \<in> set t. or_signer r0 = or_signer r \<and> or_offer r0 = or_offer r)
       \<or> (\<exists>req \<in> (snd \<circ> snd) ` set reqs. registers lib req (or_signer r) (or_offer r))) \<and>
    length codes = length reqs \<and> (list_all (\<lambda>c. 300 \<le> c) codes \<longrightarrow> t' = t)"
proof -
  from assms have "table_accounts lib ((snd \<circ> snd) ` set reqs) t t' \<and> length codes = length reqs
      \<and> (list_all (\<lambda>c. 300 \<le> c) codes \<longrightarrow> t' = t)"
  proof (induction reqs arbitrary: t codes)
    case Nil
    then show ?case by (auto simp: table_accounts_refl)
  next
    case (Cons req reqs)
    obtain up has_cln r where req: "req = (up, has_cln, r)" by (cases req)
    from Cons.prems(1) obtain code t1 codes' where step: "offer_request_step lib (up, has_cln, r) t = Ok (code, t1)"
      and rest: "offer_requests lib reqs t1 = Ok (codes', t')" and codes: "codes = code # codes'"
      by (auto simp: req)
    have acc: "table_accounts lib {r} t t1 \<and> (300 \<le> code \<longrightarrow> t1 = t)"
      using offer_request_step_change [OF step]
    proof
      assume "code < 300 \<and> offer_change lib r t t1"
      with offer_change_accounts [OF _ Cons.prems(2), of lib r t1] show ?thesis by simp
    next
      assume "300 \<le> code \<and> t1 = t"
      with Cons.prems(2) show ?thesis by (auto simp: table_accounts_def)
    qed
    note IH = Cons.IH [OF rest table_accounts_distinct]
    from acc IH table_accounts_trans [of lib "{r}" t t1 "(snd \<circ> snd) ` set reqs" t'] show ?case
      by (auto simp: req codes)
  qed
  then show ?thesis by (simp add: table_accounts_def)
qed

definition example_hold_lib :: hold_lib where
  "example_hold_lib = \<lparr>hl_offer = example_offer_lib, hl_net = example_net,
     hl_caller = caller_config_new \<lparr>co_request_timeout = Some 60, co_max_retries = Some 2, co_retry_interval = Some 10,
       co_block_list = None\<rparr> True, hl_pubkey_ok = (\<lambda>_. True)\<rparr>"

lemma example_hold_lib_simps [simp]:
  "hl_offer example_hold_lib = example_offer_lib" "hl_pubkey_ok example_hold_lib key"
  "ol_hex_decode example_offer_lib text' = Some [1]" "ol_sig_from_slice example_offer_lib = Some"
  "ol_verify_schnorr example_offer_lib s message key \<longleftrightarrow> key = [2]"
  by (simp_all add: example_hold_lib_def example_offer_lib_def)

lemma example_prepare_offer: "prepare_offer example_hold_lib offer None = Ok [2]"
  by (simp add: prepare_offer_def example_offer_lib_def example_invoice_lib_def decode_invoice_def
      parse_invoice_def DECODE_FUNCS_def decode_bolt11_def decode_bolt12_offer_def)

theorem offers_authenticated_witness:
  "\<exists>t'. offer_requests example_hold_lib
      [(\<lambda>_. True, True, CreateRequest ''lno1'' None), (\<lambda>_. True, True, DeleteRequest ''lno1'' ''00'')] [] = Ok ([201, 200], t')
    \<and> distinct (map or_signer t')"
proof -
  let ?reqs = "[(\<lambda>_. True, True, CreateRequest ''lno1'' None), (\<lambda>_. True, True, DeleteRequest ''lno1'' ''00'')]"
  have "offer_requests example_hold_lib ?reqs [] = Ok ([201, 200], [])"
    by (simp add: bolt12_create_def add_offer_def example_prepare_offer get_by_signer_def offer_insert_def
        bolt12_delete_def signed_request_def delete_offer_def schnorr_signature_valid_def offer_delete_def)
  then show ?thesis using offers_authenticated [of example_hold_lib ?reqs "[]" "[201, 200]" "[]"] by auto
qed

end
