(* ===== verification/Bolt12_Fetch.thy ===== *)
theory Bolt12_Fetch
  imports Bolt12_Offers Swap_Manager "HOL-Library.Sublist"
begin

text \<open>
  How invoices for BOLT 12 offers are fetched: \<open>src/boltzr/src/lightning/cln/invoice_fetcher.rs\<close> (from the
  client over its WebSocket or its webhook), the other operations of \<open>src/boltzr/src/lightning/cln/hold.rs\<close>
  (requests of our own and those that arrive as onion messages), \<open>fetch_invoice\<close> and \<open>parse_error\<close> of
  \<open>src/boltzr/src/lightning/cln/mod.rs\<close>, \<open>src/boltzr/src/utils/bip21.rs\<close> and the requests of
  \<open>src/boltzr/src/api/bolt12.rs\<close> that do not change offers. What the broadcast channels deliver while a task
  waits is an argument: messages of all tasks with the seconds since the wait began, \<open>None\<close> for an error
  of the channel. The formats of invoice requests, onions and JSON belong to libraries.
\<close>

subsection \<open>Waiting for an answer\<close>

definition INVOICE_FETCH_TIMEOUT_WEBSOCKET_SECONDS :: nat where
  "INVOICE_FETCH_TIMEOUT_WEBSOCKET_SECONDS = 8"

definition INVOICE_FETCH_TIMEOUT_WEBHOOK_SECONDS :: nat where
  "INVOICE_FETCH_TIMEOUT_WEBHOOK_SECONDS = 30"

type_synonym ('h, 'r) deliveries = "(nat \<times> ('h \<times> 'r) option) list"
type_synonym fetched = "string \<times> bolt12_invoice"

fun wait_for_response ::
  "('h \<Rightarrow> hook_id) \<Rightarrow> hook_id \<Rightarrow> nat \<Rightarrow> ('r \<Rightarrow> (hold_error, fetched) result) \<Rightarrow> ('h, 'r) deliveries
    \<Rightarrow> (hold_error, fetched) result \<times> bool" where
  "wait_for_response hook_id i timeout parse [] = (Err FetchTimeout, True)"
| "wait_for_response hook_id i timeout parse ((t, d) # rest) =
     (if timeout \<le> t then (Err FetchTimeout, True)
      else (case d of
              None \<Rightarrow> (Err ReceiveFailed, False)
            | Some (hook, res) \<Rightarrow>
                if hook_id hook = i then (parse res, False) else wait_for_response hook_id i timeout parse rest))"

record fetch_lib =
  fl_hold :: hold_lib
  fl_hex_encode :: "bytes \<Rightarrow> string"
  fl_response_json :: "bytes \<Rightarrow> string option"
  fl_error_json :: "bytes \<Rightarrow> string option"
  fl_build_request :: "bolt12_offer \<Rightarrow> network \<Rightarrow> u64 \<Rightarrow> string option \<Rightarrow> bytes option"
  fl_request_issuer :: "bytes \<Rightarrow> bytes option option"

abbreviation fl_network :: "fetch_lib \<Rightarrow> network" where
  "fl_network lib \<equiv> ol_network (hl_offer (fl_hold lib))"

abbreviation fl_invoice :: "fetch_lib \<Rightarrow> invoice_lib" where
  "fl_invoice lib \<equiv> ol_invoice (hl_offer (fl_hold lib))"

definition fetched_bolt12 :: "fetch_lib \<Rightarrow> string \<Rightarrow> (hold_error, bolt12_invoice) result" where
  "fetched_bolt12 lib invoice =
     r_bind (r_map_err HoldDecode (decode_invoice (fl_invoice lib) (fl_network lib) invoice)) (\<lambda>decoded.
       case decoded of Bolt12 i \<Rightarrow> Ok i | _ \<Rightarrow> Err NotAnInvoice)"

definition validate_invoice_signer :: "bytes \<Rightarrow> bolt12_invoice \<Rightarrow> (hold_error, unit) result" where
  "validate_invoice_signer expected i = (if b12_signing_pubkey i \<noteq> expected then Err WrongSigner else Ok ())"

definition parse_ws_response :: "fetch_lib \<Rightarrow> (string, string) result \<Rightarrow> (hold_error, fetched) result" where
  "parse_ws_response lib res =
     (case res of
        Ok invoice \<Rightarrow> r_map (Pair invoice) (fetched_bolt12 lib invoice)
      | Err e \<Rightarrow> Err (ResponseError e)
      | Panic \<Rightarrow> Panic)"

definition parse_hook_response :: "fetch_lib \<Rightarrow> bytes \<Rightarrow> (hold_error, fetched) result" where
  "parse_hook_response lib data =
     (case fl_response_json lib data of
        Some invoice \<Rightarrow> r_map (Pair invoice) (fetched_bolt12 lib invoice)
      | None \<Rightarrow> (case fl_error_json lib data of Some e \<Rightarrow> Err (ResponseError e) | None \<Rightarrow> Err ResponseJson))"

subsection \<open>Fetching from the client\<close>

record 'c fetcher =
  fe_subs :: "'c offer_subs"
  fe_caller :: "(invoice_hook, u64, to_retry) caller"

text \<open>What happens around one fetch: clocks, the channel of the connection, the network, the deliveries.\<close>

record 'c fetch_env =
  fv_now :: instant
  fv_later :: instant
  fv_can_send :: "'c \<Rightarrow> bool"
  fv_ws :: "(pending_hook, (string, string) result) deliveries"
  fv_world :: "invoice_hook world"
  fv_hook :: "(invoice_hook, bytes) deliveries"

definition pending_hook_id :: "fetch_lib \<Rightarrow> pending_hook \<Rightarrow> hook_id" where
  "pending_hook_id lib h = ol_hash_request (hl_offer (fl_hold lib)) (ph_invoice_request h)"

definition hook_with_url :: "pending_hook \<Rightarrow> string \<Rightarrow> invoice_hook" where
  "hook_with_url h url = \<lparr>ih_offer = ph_offer h, ih_invoice_request = ph_invoice_request h, ih_url = url\<rparr>"

definition signed_response :: "bytes \<Rightarrow> (hold_error, fetched) result \<Rightarrow> (hold_error, fetched) result" where
  "signed_response signer res = r_bind res (\<lambda>x. r_bind (validate_invoice_signer signer (snd x)) (\<lambda>_. Ok x))"

definition fetch_invoice_webhook ::
  "fetch_lib \<Rightarrow> 'c fetch_env \<Rightarrow> offer_row \<Rightarrow> pending_hook \<Rightarrow> 'c fetcher \<Rightarrow> 'c fetcher \<times> (hold_error, fetched) result" where
  "fetch_invoice_webhook lib env row hook f =
     (case or_url row of
        None \<Rightarrow> (f, Err Unreachable)
      | Some url \<Rightarrow>
          (let ops = invoice_hook_ops (ol_hash_request (hl_offer (fl_hold lib)));
               h = hook_with_url hook url;
               c = (fe_caller f)\<lparr>ca_receivers := ca_receivers (fe_caller f) + 1\<rparr>
           in case call_webhook ops (hl_caller (fl_hold lib)) (fv_world env) h (invoice_call_data h) c of
                (c', r) \<Rightarrow>
                  (f\<lparr>fe_caller := c'\<lparr>ca_receivers := ca_receivers (fe_caller f)\<rparr>\<rparr>,
                   r_bind (r_map_err HoldCall r) (\<lambda>_.
                     signed_response (or_signer row)
                       (fst (wait_for_response (invoice_hook_id (ol_hash_request (hl_offer (fl_hold lib)))) (pending_hook_id lib hook)
                         INVOICE_FETCH_TIMEOUT_WEBHOOK_SECONDS (parse_hook_response lib) (fv_hook env)))))))"

definition fetcher_fetch_invoice ::
  "fetch_lib \<Rightarrow> 'c fetch_env \<Rightarrow> offer_row \<Rightarrow> pending_hook \<Rightarrow> 'c fetcher
    \<Rightarrow> 'c fetcher \<times> ('c \<times> pending_hook) list \<times> (hold_error, fetched) result" where
  "fetcher_fetch_invoice lib env row hook f =
     (case request_invoice (hl_offer (fl_hold lib)) (fv_now env) (fv_later env) (fv_can_send env) hook (fe_subs f) of
        (subs, sent, Err e) \<Rightarrow> (f\<lparr>fe_subs := subs\<rparr>, sent, Err (HoldSubscription e))
      | (subs, sent, Panic) \<Rightarrow> (f\<lparr>fe_subs := subs\<rparr>, sent, Panic)
      | (subs, sent, Ok True) \<Rightarrow>
          (case wait_for_response (pending_hook_id lib) (pending_hook_id lib hook)
              (if or_url row \<noteq> None then INVOICE_FETCH_TIMEOUT_WEBSOCKET_SECONDS else INVOICE_FETCH_TIMEOUT_WEBHOOK_SECONDS)
              (parse_ws_response lib) (fv_ws env) of
             (res, False) \<Rightarrow> (f\<lparr>fe_subs := subs\<rparr>, sent, signed_response (or_signer row) res)
           | (res, True) \<Rightarrow> map_prod id (Pair sent) (fetch_invoice_webhook lib env row hook (f\<lparr>fe_subs := subs\<rparr>)))
      | (subs, sent, Ok False) \<Rightarrow> map_prod id (Pair sent) (fetch_invoice_webhook lib env row hook (f\<lparr>fe_subs := subs\<rparr>)))"

definition hold_fetch_invoice ::
  "fetch_lib \<Rightarrow> 'c fetch_env \<Rightarrow> offer_row \<Rightarrow> u64 \<Rightarrow> string option \<Rightarrow> 'c fetcher
    \<Rightarrow> 'c fetcher \<times> ('c \<times> pending_hook) list \<times> (hold_error, fetched) result" where
  "hold_fetch_invoice lib env row amount_msat note f =
     (case r_bind (r_map_err HoldDecode (decode_invoice (fl_invoice lib) (fl_network lib) (or_offer row))) (\<lambda>decoded.
         case decoded of
           Offer parsed \<Rightarrow> ok_or HoldRequest (fl_build_request lib parsed (fl_network lib) amount_msat note)
         | _ \<Rightarrow> Err NotAnOffer) of
        Ok request \<Rightarrow>
          fetcher_fetch_invoice lib env row \<lparr>ph_offer = or_offer row, ph_invoice_request = fl_hex_encode lib request\<rparr> f
      | Err e \<Rightarrow> (f, [], Err e)
      | Panic \<Rightarrow> (f, [], Panic))"

subsection \<open>Requests that arrive as onion messages\<close>

record blinded_hop =
  bh_node_id :: "bytes option"
  bh_data :: "bytes option"

record reply_path =
  rp_first_node_id :: "bytes option"
  rp_first_scid :: "u64 option"
  rp_first_scid_dir :: "u32 option"
  rp_first_path_key :: "bytes option"
  rp_hops :: "blinded_hop list"

record onion_message =
  om_id :: u64
  om_invoice_request :: "bytes option"
  om_reply_path :: "reply_path option"

datatype hook_action = ActionContinue | ActionResolve

definition get_offer_for_invoice_request ::
  "fetch_lib \<Rightarrow> (offer_query \<Rightarrow> bool) \<Rightarrow> bytes \<Rightarrow> offer_row list \<Rightarrow> (hold_error, offer_row option) result" where
  "get_offer_for_invoice_request lib up request t =
     r_bind (ok_or RequestDecode (fl_request_issuer lib request)) (\<lambda>issuer.
     r_bind (ok_or NoIssuerKey issuer) (\<lambda>pubkey. get_by_signer up pubkey t))"

text \<open>The answer to one message, and the fetch that is started for it.\<close>

definition handle_onion_message ::
  "fetch_lib \<Rightarrow> (offer_query \<Rightarrow> bool) \<Rightarrow> offer_row list \<Rightarrow> onion_message
    \<Rightarrow> (u64 \<times> hook_action) \<times> (offer_row \<times> pending_hook \<times> reply_path) option" where
  "handle_onion_message lib up t msg =
     (case (om_invoice_request msg, om_reply_path msg) of
        (Some request, Some path) \<Rightarrow>
          (case get_offer_for_invoice_request lib up request t of
             Ok (Some row) \<Rightarrow>
               ((om_id msg, ActionResolve),
                Some (row, \<lparr>ph_offer = or_offer row, ph_invoice_request = fl_hex_encode lib request\<rparr>, path))
           | _ \<Rightarrow> ((om_id msg, ActionContinue), None))
      | _ \<Rightarrow> ((om_id msg, ActionContinue), None))"

text \<open>
  The stream: a message, an empty item, or the error that ends it; each with the table at that time
  and whether queries work.
\<close>

datatype onion_event = OnionItem "offer_query \<Rightarrow> bool" "offer_row list" "onion_message option" | OnionError

fun stream_onion_messages ::
  "fetch_lib \<Rightarrow> onion_event list \<Rightarrow> (u64 \<times> hook_action) list \<times> (offer_row \<times> pending_hook \<times> reply_path) list" where
  "stream_onion_messages lib [] = ([], [])"
| "stream_onion_messages lib (OnionError # rest) = ([], [])"
| "stream_onion_messages lib (OnionItem up t None # rest) = stream_onion_messages lib rest"
| "stream_onion_messages lib (OnionItem up t (Some msg) # rest) =
     (case (handle_onion_message lib up t msg, stream_onion_messages lib rest) of
        ((answer, task), (answers, tasks)) \<Rightarrow> (answer # answers, (case task of Some x \<Rightarrow> [x] | None \<Rightarrow> []) @ tasks))"

datatype invoice_reply = ReplyInvoice bolt12_invoice | ReplyError hold_error

fun invoice_reply_of :: "(hold_error, fetched) result \<Rightarrow> (hold_error, invoice_reply) result" where
  "invoice_reply_of (Ok x) = Ok (ReplyInvoice (snd x))"
| "invoice_reply_of (Err e) = Ok (ReplyError e)"
| "invoice_reply_of Panic = Panic"

text \<open>
  \<open>create_onion\<close> is the call of the library with our key, the first node, the path key, the hops and the
  message; it returns the blinding point and the packet.
\<close>

type_synonym create_onion = "bytes \<Rightarrow> bytes \<Rightarrow> bytes \<Rightarrow> (bytes \<times> bytes) list \<Rightarrow> invoice_reply \<Rightarrow> (bytes \<times> bytes) option"

definition parse_pubkey :: "fetch_lib \<Rightarrow> bytes \<Rightarrow> (hold_error, bytes) result" where
  "parse_pubkey lib key = (if hl_pubkey_ok (fl_hold lib) key then Ok key else Err HoldPubkey)"

definition blind_onion ::
  "fetch_lib \<Rightarrow> create_onion \<Rightarrow> invoice_reply \<Rightarrow> reply_path \<Rightarrow> bytes \<Rightarrow> (hold_error, bytes \<times> bytes) result" where
  "blind_onion lib create reply path our_pubkey =
     (case (rp_first_node_id path, rp_first_scid path, rp_first_scid_dir path) of
        (Some node, None, None) \<Rightarrow>
          r_bind (parse_pubkey lib node) (\<lambda>node.
          r_bind (r_bind (ok_or NoPathKey (rp_first_path_key path)) (parse_pubkey lib)) (\<lambda>path_key.
          r_bind (r_mapM (\<lambda>hop.
              r_bind (r_bind (ok_or NoBlindedNodeId (bh_node_id hop)) (parse_pubkey lib)) (\<lambda>node_id.
              r_bind (ok_or NoBlindedNodeId (bh_data hop)) (\<lambda>data. Ok (node_id, data)))) (rp_hops path)) (\<lambda>hops.
            ok_or OnionFailed (create our_pubkey node path_key hops reply))))
      | _ \<Rightarrow> Err ScidPath)"

text \<open>The request to the node to send the onion, which may fail; hooks of onion messages have a path.\<close>

definition handle_response ::
  "fetch_lib \<Rightarrow> create_onion \<Rightarrow> (bytes \<times> bytes \<Rightarrow> bool) \<Rightarrow> bytes \<Rightarrow> reply_path option \<Rightarrow> invoice_reply
    \<Rightarrow> (bytes \<times> bytes) list \<times> (hold_error, unit) result" where
  "handle_response lib create inject our_pubkey path reply =
     (case path of
        None \<Rightarrow> ([], Ok ())
      | Some path \<Rightarrow>
          (case blind_onion lib create reply path our_pubkey of
             Ok onion \<Rightarrow> if inject onion then ([onion], Ok ()) else ([], Err InjectFailed)
           | Err e \<Rightarrow> ([], Err e)
           | Panic \<Rightarrow> ([], Panic)))"

definition answer_onion ::
  "fetch_lib \<Rightarrow> create_onion \<Rightarrow> (bytes \<times> bytes \<Rightarrow> bool) \<Rightarrow> bytes \<Rightarrow> 'c fetch_env \<Rightarrow> offer_row \<times> pending_hook \<times> reply_path
    \<Rightarrow> 'c fetcher \<Rightarrow> 'c fetcher \<times> ('c \<times> pending_hook) list \<times> (bytes \<times> bytes) list" where
  "answer_onion lib create inject our_pubkey env task f =
     (case task of (row, hook, path) \<Rightarrow>
        case fetcher_fetch_invoice lib env row hook f of
          (f', sent, res) \<Rightarrow>
            (f', sent,
             (case invoice_reply_of res of
                Ok reply \<Rightarrow> fst (handle_response lib create inject our_pubkey (Some path) reply)
              | _ \<Rightarrow> [])))"

subsection \<open>Errors of the node\<close>

definition MESSAGE_PREFIXES :: "string list" where
  "MESSAGE_PREFIXES = [''message: '' @ [CHR 0x22], ''message'' @ [CHR 0x22] @ '':'' @ [CHR 0x22],
     ''message'' @ [CHR 0x5C, CHR 0x22] @ '':'' @ [CHR 0x5C, CHR 0x22]]"

definition MESSAGE_SUFFIXES :: "string list" where
  "MESSAGE_SUFFIXES = [[CHR 0x22] @ '', data:'', [CHR 0x5C, CHR 0x22] @ ''}'', [CHR 0x22] @ ''}'']"

text \<open>\<open>str::find\<close> and \<open>str::rfind\<close>.\<close>

fun str_find :: "string \<Rightarrow> string \<Rightarrow> nat option" where
  "str_find pat [] = (if pat = [] then Some 0 else None)"
| "str_find pat (c # cs) = (if prefix pat (c # cs) then Some 0 else map_option Suc (str_find pat cs))"

fun str_rfind :: "string \<Rightarrow> string \<Rightarrow> nat option" where
  "str_rfind pat [] = (if pat = [] then Some 0 else None)"
| "str_rfind pat (c # cs) =
     (case str_rfind pat cs of Some i \<Rightarrow> Some (Suc i) | None \<Rightarrow> if prefix pat (c # cs) then Some 0 else None)"

text \<open>The ranges the loops over prefixes and suffixes meet, in their order; the first is taken.\<close>

definition message_ranges :: "string \<Rightarrow> (nat \<times> nat) list" where
  "message_ranges msg =
     concat (map (\<lambda>p. case str_find p msg of
         None \<Rightarrow> []
       | Some start \<Rightarrow> List.map_filter (\<lambda>s. map_option (Pair (start + length p)) (str_rfind s msg)) MESSAGE_SUFFIXES)
       MESSAGE_PREFIXES)"

lemma str_find_bound: "str_find pat s = Some i \<Longrightarrow> i + length pat \<le> length s"
proof (induction s arbitrary: i)
  case (Cons c cs)
  then show ?case by (auto split: if_splits dest: prefix_length_le)
qed (simp split: if_splits)

lemma message_ranges_start: "(a, b) \<in> set (message_ranges msg) \<Longrightarrow> 0 < a \<and> a \<le> length msg"
proof -
  assume "(a, b) \<in> set (message_ranges msg)"
  then obtain p start where p: "p \<in> set MESSAGE_PREFIXES" "str_find p msg = Some start" "a = start + length p"
    by (force simp: message_ranges_def map_filter_def split: option.splits)
  from p(1) have "p \<noteq> []" by (auto simp: MESSAGE_PREFIXES_def)
  with p(2,3) show ?thesis using str_find_bound [OF p(2)] by simp
qed

function parse_message :: "string \<Rightarrow> (hold_error, string) result" where
  "parse_message msg =
     (case message_ranges msg of
        [] \<Rightarrow> Ok msg
      | (a, b) # _ \<Rightarrow> if b < a then Panic else parse_message (take (b - a) (drop a msg)))"
  by auto
termination
proof (relation "measure length")
  fix msg r rs a b
  assume "message_ranges msg = r # rs" and "(a, b) = r" and "\<not> b < a"
  then have "0 < a \<and> a \<le> length msg" by (intro message_ranges_start [of a b]) simp
  then show "(take (b - a) (drop a msg), msg) \<in> measure length" by (simp add: min_less_iff_disj, linarith)
qed simp

declare parse_message.simps [simp del]

definition parse_error :: "string \<Rightarrow> string \<Rightarrow> (hold_error, hold_error) result" where
  "parse_error code msg = r_map (\<lambda>m. NodeError (if m = [] then code else m)) (parse_message msg)"

subsection \<open>Fetching through the node\<close>

record routing_hint =
  mr_symbol :: string
  mr_script_pubkey :: bytes
  mr_blinding_pubkey :: "bytes option"
  mr_params :: "string option"
  mr_signature :: bytes

record magic_routing_hint =
  mh_bip21 :: string
  mh_signature :: string

fun get_prefix :: "network \<Rightarrow> chain_type \<Rightarrow> string" where
  "get_prefix Testnet TypeElements = ''liquidtestnet''"
| "get_prefix _ TypeElements = ''liquidnetwork''"
| "get_prefix _ _ = ''bitcoin''"

definition bip21_encode :: "network \<Rightarrow> chain_type \<Rightarrow> string \<Rightarrow> string option \<Rightarrow> string" where
  "bip21_encode n t address params =
     get_prefix n t @ '':'' @ address @ (case params of Some p \<Rightarrow> ''?'' @ p | None \<Rightarrow> [])"

text \<open>
  The node: its answer to a request for an invoice is the invoice, or a status with a code and a
  message. \<open>nd_hint\<close> is the query for the hint of a payment hash.
\<close>

record cln_node =
  nd_chain :: chain_lib
  nd_fetch :: "string \<Rightarrow> u64 \<Rightarrow> string option \<Rightarrow> (string \<times> string, string) result"
  nd_hint :: "string \<Rightarrow> (hold_error, routing_hint option) result"

definition magic_hint :: "fetch_lib \<Rightarrow> cln_node \<Rightarrow> bytes \<Rightarrow> (hold_error, magic_routing_hint option) result" where
  "magic_hint lib nd payment_hash =
     r_bind (nd_hint nd (fl_hex_encode lib payment_hash)) (\<lambda>hint.
       case hint of
         None \<Rightarrow> Ok None
       | Some mrh \<Rightarrow>
           r_bind (r_map_err HintError (chain_type_from_str (mr_symbol mrh))) (\<lambda>address_type.
           r_bind (r_map_err HintError (encode_address (nd_chain nd) address_type (mr_script_pubkey mrh)
               (mr_blinding_pubkey mrh) (fl_network lib))) (\<lambda>address.
             Ok (Some \<lparr>mh_bip21 = bip21_encode (fl_network lib) address_type address (mr_params mrh),
               mh_signature = fl_hex_encode lib (mr_signature mrh)\<rparr>))))"

definition node_fetch_invoice ::
  "fetch_lib \<Rightarrow> cln_node \<Rightarrow> string \<Rightarrow> u64 \<Rightarrow> string option \<Rightarrow> (hold_error, fetched) result" where
  "node_fetch_invoice lib nd offer amount_msat note =
     (case nd_fetch nd offer amount_msat note of
        Ok invoice \<Rightarrow> r_map (Pair invoice) (fetched_bolt12 lib invoice)
      | Err (code, msg) \<Rightarrow> r_bind (parse_error code msg) Err
      | Panic \<Rightarrow> Panic)"

definition cln_fetch_invoice ::
  "fetch_lib \<Rightarrow> cln_node \<Rightarrow> (offer_query \<Rightarrow> bool) \<Rightarrow> offer_row list \<Rightarrow> 'c fetch_env \<Rightarrow> string \<Rightarrow> u64 \<Rightarrow> string option \<Rightarrow> 'c fetcher
    \<Rightarrow> 'c fetcher \<times> ('c \<times> pending_hook) list \<times> (hold_error, string \<times> magic_routing_hint option) result" where
  "cln_fetch_invoice lib nd up t env offer amount_msat note f =
     (case (case get_offer (il_to_lowercase (fl_invoice lib)) up offer t of
              Ok (Some row) \<Rightarrow> hold_fetch_invoice lib env row amount_msat note f
            | Ok None \<Rightarrow> (f, [], node_fetch_invoice lib nd offer amount_msat note)
            | Err e \<Rightarrow> (f, [], Err e)
            | Panic \<Rightarrow> (f, [], Panic)) of
        (f', sent, res) \<Rightarrow>
          (f', sent, r_bind res (\<lambda>(invoice, decoded).
             r_map (Pair invoice) (magic_hint lib nd (b12_payment_hash decoded)))))"

subsection \<open>Requests\<close>

text \<open>An amount of zero is refused when the request is parsed.\<close>

definition assert_not_zero :: "u64 option \<Rightarrow> u64 option option" where
  "assert_not_zero amt = (if amt = Some 0 then None else Some amt)"

datatype 'a api_reply = ApiOk nat 'a | ApiError nat

definition bolt12_params ::
  "('b, 'e, 'f, 'x, 's) manager \<Rightarrow> string \<Rightarrow> string \<Rightarrow> (manager_error, u64 api_reply) result" where
  "bolt12_params m currency receiving =
     (case manager_get_timeouts m receiving currency Reverse of
        Ok (_, lightning_delta) \<Rightarrow> Ok (ApiOk 200 lightning_delta)
      | Err _ \<Rightarrow> Ok (ApiError 404)
      | Panic \<Rightarrow> Panic)"

definition offer_amount_msat :: "fetch_lib \<Rightarrow> string \<Rightarrow> (nat, u64) result" where
  "offer_amount_msat lib offer =
     (case decode_invoice (fl_invoice lib) (fl_network lib) offer of
        Ok (Offer parsed) \<Rightarrow>
          (case of_amount parsed of Some (AmountBitcoin amount_msats) \<Rightarrow> Ok amount_msats | _ \<Rightarrow> Err 422)
      | Panic \<Rightarrow> Panic
      | _ \<Rightarrow> Err 422)"

definition checked_mul :: "u64 \<Rightarrow> u64 \<Rightarrow> u64 option" where
  "checked_mul a b = (if unat a * unat b \<le> u64_max then Some (a * b) else None)"

definition fetch_amount :: "fetch_lib \<Rightarrow> bool \<Rightarrow> string \<Rightarrow> u64 option \<Rightarrow> (nat, u64) result" where
  "fetch_amount lib has_cln offer amt =
     r_bind (case amt of None \<Rightarrow> Ok None | Some a \<Rightarrow> r_map Some (ok_or 422 (checked_mul a 1000))) (\<lambda>amount_msat.
       if \<not> has_cln then Err 404
       else (case amount_msat of Some a \<Rightarrow> Ok a | None \<Rightarrow> offer_amount_msat lib offer))"

definition bolt12_fetch ::
  "fetch_lib \<Rightarrow> cln_node \<Rightarrow> (offer_query \<Rightarrow> bool) \<Rightarrow> offer_row list \<Rightarrow> 'c fetch_env \<Rightarrow> bool \<Rightarrow> string \<Rightarrow> u64 option \<Rightarrow> string option
    \<Rightarrow> 'c fetcher \<Rightarrow> 'c fetcher \<times> ('c \<times> pending_hook) list \<times> (hold_error, (string \<times> magic_routing_hint option) api_reply) result" where
  "bolt12_fetch lib nd up t env has_cln offer amt note f =
     (case fetch_amount lib has_cln offer amt of
        Err code \<Rightarrow> (f, [], Ok (ApiError code))
      | Panic \<Rightarrow> (f, [], Panic)
      | Ok amount_msat \<Rightarrow>
          (case cln_fetch_invoice lib nd up t env offer amount_msat note f of
             (f', sent, Ok x) \<Rightarrow> (f', sent, Ok (ApiOk 201 x))
           | (f', sent, Err _) \<Rightarrow> (f', sent, Ok (ApiError 500))
           | (f', sent, Panic) \<Rightarrow> (f', sent, Panic)))"

subsection \<open>Which answer counts\<close>

text \<open>The first delivery before the timeout that is for the request, or the first error.\<close>

definition counting_delivery :: "('h \<Rightarrow> hook_id) \<Rightarrow> hook_id \<Rightarrow> nat \<Rightarrow> ('h, 'r) deliveries \<Rightarrow> (nat \<times> ('h \<times> 'r) option) option" where
  "counting_delivery hook_id i timeout ds =
     find (\<lambda>(t, d). case d of None \<Rightarrow> True | Some (h, r) \<Rightarrow> hook_id h = i) (takeWhile (\<lambda>(t, d). t < timeout) ds)"

lemma wait_for_response_first:
  "wait_for_response hook_id i timeout parse ds =
     (case counting_delivery hook_id i timeout ds of
        None \<Rightarrow> (Err FetchTimeout, True)
      | Some (t, None) \<Rightarrow> (Err ReceiveFailed, False)
      | Some (t, Some (h, r)) \<Rightarrow> (parse r, False))"
  by (induction hook_id i timeout parse ds rule: wait_for_response.induct)
    (auto simp: counting_delivery_def split: option.splits)

lemma wait_for_response_Ok:
  assumes "fst (wait_for_response hook_id i timeout parse ds) = Ok x"
  shows "\<exists>t h r. (t, Some (h, r)) \<in> set ds \<and> t < timeout \<and> hook_id h = i \<and> parse r = Ok x"
proof -
  from assms obtain t h r where c: "counting_delivery hook_id i timeout ds = Some (t, Some (h, r))" and "parse r = Ok x"
    by (auto simp: wait_for_response_first split: option.splits)
  from c have "(t, Some (h, r)) \<in> set (takeWhile (\<lambda>(t, d). t < timeout) ds)" and "hook_id h = i"
    using nth_mem by (fastforce simp: counting_delivery_def find_Some_iff)+
  with \<open>parse r = Ok x\<close> show ?thesis by (auto dest: set_takeWhileD)
qed

lemma fetched_bolt12_Ok: "fetched_bolt12 lib s = Ok i \<Longrightarrow> decode_invoice (fl_invoice lib) (fl_network lib) s = Ok (Bolt12 i)"
  by (cases "decode_invoice (fl_invoice lib) (fl_network lib) s") (auto simp: fetched_bolt12_def split: ln_invoice.split_asm)

lemma signed_response_Ok: "signed_response signer res = Ok x \<longleftrightarrow> res = Ok x \<and> b12_signing_pubkey (snd x) = signer"
  by (cases res; cases x) (auto simp: signed_response_def validate_invoice_signer_def split: if_splits)

text \<open>Where an invoice of a client came from.\<close>

definition delivered_invoice :: "fetch_lib \<Rightarrow> 'c fetch_env \<Rightarrow> hook_id \<Rightarrow> string \<Rightarrow> bool" where
  "delivered_invoice lib env i invoice \<longleftrightarrow>
     (\<exists>t h. (t, Some (h, Ok invoice)) \<in> set (fv_ws env) \<and> t < INVOICE_FETCH_TIMEOUT_WEBHOOK_SECONDS \<and> pending_hook_id lib h = i) \<or>
     (\<exists>t h body. (t, Some (h, body)) \<in> set (fv_hook env) \<and> t < INVOICE_FETCH_TIMEOUT_WEBHOOK_SECONDS
        \<and> invoice_hook_id (ol_hash_request (hl_offer (fl_hold lib))) h = i \<and> fl_response_json lib body = Some invoice)"

lemma parse_hook_response_Ok:
  "parse_hook_response lib body = Ok x \<Longrightarrow> fl_response_json lib body = Some (fst x) \<and> fetched_bolt12 lib (fst x) = Ok (snd x)"
  by (auto simp: parse_hook_response_def split: option.splits)

lemma parse_ws_response_Ok:
  "parse_ws_response lib res = Ok x \<Longrightarrow> res = Ok (fst x) \<and> fetched_bolt12 lib (fst x) = Ok (snd x)"
  by (auto simp: parse_ws_response_def split: result.splits)

lemma fetch_invoice_webhook_Ok:
  assumes "snd (fetch_invoice_webhook lib env row hook f) = Ok x"
  shows "delivered_invoice lib env (pending_hook_id lib hook) (fst x) \<and> fetched_bolt12 lib (fst x) = Ok (snd x)
    \<and> b12_signing_pubkey (snd x) = or_signer row"
proof -
  from assms have wait: "fst (wait_for_response (invoice_hook_id (ol_hash_request (hl_offer (fl_hold lib)))) (pending_hook_id lib hook)
      INVOICE_FETCH_TIMEOUT_WEBHOOK_SECONDS (parse_hook_response lib) (fv_hook env)) = Ok x"
    and signer: "b12_signing_pubkey (snd x) = or_signer row"
    by (auto simp: fetch_invoice_webhook_def Let_def signed_response_Ok split: option.splits prod.splits)
  from wait_for_response_Ok [OF wait] signer show ?thesis
    unfolding delivered_invoice_def by (auto dest!: parse_hook_response_Ok)
qed

lemma fetcher_fetch_invoice_Ok:
  assumes "snd (snd (fetcher_fetch_invoice lib env row hook f)) = Ok x"
  shows "delivered_invoice lib env (pending_hook_id lib hook) (fst x) \<and> fetched_bolt12 lib (fst x) = Ok (snd x)
    \<and> b12_signing_pubkey (snd x) = or_signer row"
proof -
  let ?limit = "if or_url row \<noteq> None then INVOICE_FETCH_TIMEOUT_WEBSOCKET_SECONDS else INVOICE_FETCH_TIMEOUT_WEBHOOK_SECONDS"
  let ?wait = "wait_for_response (pending_hook_id lib) (pending_hook_id lib hook) ?limit (parse_ws_response lib) (fv_ws env)"
  have limit: "?limit \<le> INVOICE_FETCH_TIMEOUT_WEBHOOK_SECONDS"
    by (simp add: INVOICE_FETCH_TIMEOUT_WEBSOCKET_SECONDS_def INVOICE_FETCH_TIMEOUT_WEBHOOK_SECONDS_def)
  from assms consider (ws) "signed_response (or_signer row) (fst ?wait) = Ok x"
    | (hook) g where "snd (fetch_invoice_webhook lib env row hook g) = Ok x"
    unfolding fetcher_fetch_invoice_def by (auto split: prod.splits result.splits bool.splits simp: Let_def)
  then show ?thesis
  proof cases
    case ws
    then have wait: "fst ?wait = Ok x" and signer: "b12_signing_pubkey (snd x) = or_signer row"
      by (simp_all add: signed_response_Ok)
    from wait_for_response_Ok [OF wait] obtain t h r where "(t, Some (h, r)) \<in> set (fv_ws env)" and lt: "t < ?limit"
      and "pending_hook_id lib h = pending_hook_id lib hook" and r: "parse_ws_response lib r = Ok x" by blast
    moreover from lt limit have "t < INVOICE_FETCH_TIMEOUT_WEBHOOK_SECONDS" by linarith
    ultimately show ?thesis using parse_ws_response_Ok [OF r] signer unfolding delivered_invoice_def by blast
  next
    case hook
    from fetch_invoice_webhook_Ok [OF this] show ?thesis .
  qed
qed

text \<open>
  C34: an invoice that is handed out for an offer is authentic. It is a BOLT 12 invoice for the network.
  For a registered offer it is signed by the key the offer was registered with, whoever answered, and
  it was delivered within thirty seconds in answer to the request that was made for this offer, amount
  and note; for another offer it is what the node fetched. The hint that goes with it is the one stored
  for its payment hash.
\<close>

theorem fetched_invoice_authentic:
  assumes "cln_fetch_invoice lib nd up t env offer amount_msat note f = (f', sent, Ok (invoice, hint))"
  shows "\<exists>decoded. decode_invoice (fl_invoice lib) (fl_network lib) invoice = Ok (Bolt12 decoded) \<and>
    b12_chain decoded = network_to_chain_hash (fl_network lib) \<and>
    magic_hint lib nd (b12_payment_hash decoded) = Ok hint \<and>
    (case get_offer (il_to_lowercase (fl_invoice lib)) up offer t of
       Ok (Some row) \<Rightarrow> b12_signing_pubkey decoded = or_signer row \<and>
         (\<exists>parsed request. decode_invoice (fl_invoice lib) (fl_network lib) (or_offer row) = Ok (Offer parsed) \<and>
            fl_build_request lib parsed (fl_network lib) amount_msat note = Some request \<and>
            delivered_invoice lib env (ol_hash_request (hl_offer (fl_hold lib)) (fl_hex_encode lib request)) invoice)
     | _ \<Rightarrow> nd_fetch nd offer amount_msat note = Ok invoice)"
proof -
  obtain known where known: "get_offer (il_to_lowercase (fl_invoice lib)) up offer t = Ok known"
    using assms by (cases "get_offer (il_to_lowercase (fl_invoice lib)) up offer t") (auto simp: cln_fetch_invoice_def)
  have "\<exists>decoded. fetched_bolt12 lib invoice = Ok decoded \<and> magic_hint lib nd (b12_payment_hash decoded) = Ok hint \<and>
    (case known of
       Some row \<Rightarrow> b12_signing_pubkey decoded = or_signer row \<and>
         (\<exists>parsed request. decode_invoice (fl_invoice lib) (fl_network lib) (or_offer row) = Ok (Offer parsed) \<and>
            fl_build_request lib parsed (fl_network lib) amount_msat note = Some request \<and>
            delivered_invoice lib env (ol_hash_request (hl_offer (fl_hold lib)) (fl_hex_encode lib request)) invoice)
     | None \<Rightarrow> nd_fetch nd offer amount_msat note = Ok invoice)"
  proof (cases known)
    case None
    with assms known show ?thesis
      by (auto simp: cln_fetch_invoice_def node_fetch_invoice_def split: result.splits prod.splits)
  next
    case (Some row)
    with assms known obtain decoded where hint: "magic_hint lib nd (b12_payment_hash decoded) = Ok hint"
      and held: "snd (snd (hold_fetch_invoice lib env row amount_msat note f)) = Ok (invoice, decoded)"
      by (auto simp: cln_fetch_invoice_def split: prod.splits)
    from held obtain parsed request where dec: "decode_invoice (fl_invoice lib) (fl_network lib) (or_offer row) = Ok (Offer parsed)"
      and req: "fl_build_request lib parsed (fl_network lib) amount_msat note = Some request"
      and got: "snd (snd (fetcher_fetch_invoice lib env row
        \<lparr>ph_offer = or_offer row, ph_invoice_request = fl_hex_encode lib request\<rparr> f)) = Ok (invoice, decoded)"
      by (cases "decode_invoice (fl_invoice lib) (fl_network lib) (or_offer row)")
        (auto simp: hold_fetch_invoice_def split: result.split_asm ln_invoice.split_asm)
    from fetcher_fetch_invoice_Ok [OF got] hint dec req Some show ?thesis by (auto simp: pending_hook_id_def)
  qed
  then obtain decoded where got: "fetched_bolt12 lib invoice = Ok decoded" "magic_hint lib nd (b12_payment_hash decoded) = Ok hint"
    and source: "case known of
       Some row \<Rightarrow> b12_signing_pubkey decoded = or_signer row \<and>
         (\<exists>parsed request. decode_invoice (fl_invoice lib) (fl_network lib) (or_offer row) = Ok (Offer parsed) \<and>
            fl_build_request lib parsed (fl_network lib) amount_msat note = Some request \<and>
            delivered_invoice lib env (ol_hash_request (hl_offer (fl_hold lib)) (fl_hex_encode lib request)) invoice)
     | None \<Rightarrow> nd_fetch nd offer amount_msat note = Ok invoice" by blast
  note dec = fetched_bolt12_Ok [OF got(1)]
  have "b12_chain decoded = network_to_chain_hash (fl_network lib)" using decode_invoice_network [OF dec] by simp
  with dec got(2) source show ?thesis
    unfolding known by (intro exI [of _ decoded]) (cases known; simp)
qed

definition example_bolt12_lib :: invoice_lib where
  "example_bolt12_lib = example_invoice_lib\<lparr>
     il_offer_from_str := (\<lambda>s. if s = ''lno1'' then il_offer_from_str example_invoice_lib s else Err []),
     il_hrp_string := (\<lambda>_. Ok (''lni'', [])),
     il_bolt12_try_from := (\<lambda>_. Ok \<lparr>b12_chain = ChainRegtest, b12_is_expired = False, b12_signing_pubkey = [2],
       b12_payment_hash = [7]\<rparr>)\<rparr>"

definition example_fetch_lib :: fetch_lib where
  "example_fetch_lib = \<lparr>fl_hold = example_hold_lib\<lparr>hl_offer := example_offer_lib\<lparr>ol_invoice := example_bolt12_lib\<rparr>\<rparr>,
     fl_hex_encode = (\<lambda>_. ''00''), fl_response_json = (\<lambda>_. None), fl_error_json = (\<lambda>_. None),
     fl_build_request = (\<lambda>_ _ _ _. Some [0]), fl_request_issuer = (\<lambda>_. None)\<rparr>"

definition example_cln_node :: cln_node where
  "example_cln_node = \<lparr>nd_chain = example_chain_lib, nd_fetch = (\<lambda>_ _ _. Err ([], [])), nd_hint = (\<lambda>_. Ok None)\<rparr>"

definition example_fetch_env :: "nat fetch_env" where
  "example_fetch_env = \<lparr>fv_now = 0, fv_later = 0, fv_can_send = (\<lambda>_. True),
     fv_ws = [(1, Some (\<lparr>ph_offer = ''lno1'', ph_invoice_request = ''00''\<rparr>, Ok ''lni1''))],
     fv_world = \<lparr>wo_net = example_net, wo_post = (\<lambda>_ _ _. HttpError)\<rparr>, fv_hook = []\<rparr>"

definition example_fetcher :: "nat fetcher" where
  "example_fetcher = \<lparr>fe_subs = offer_subs_new\<lparr>os_all_offers := [3 \<mapsto> (''lno1'', 7)], os_subscriptions := [7 \<mapsto> 1]\<rparr>,
     fe_caller = caller_new [] 0\<rparr>"

lemma example_decodes:
  "decode_invoice example_bolt12_lib Regtest ''lno1'' = Ok (Offer \<lparr>of_supports_chain = (\<lambda>_. True), of_is_expired = False,
     of_issuer_signing_pubkey = Some [2], of_amount = None\<rparr>)"
  "decode_invoice example_bolt12_lib Regtest ''lni1'' = Ok (Bolt12 \<lparr>b12_chain = ChainRegtest, b12_is_expired = False,
     b12_signing_pubkey = [2], b12_payment_hash = [7]\<rparr>)"
  by (simp_all add: decode_invoice_def parse_invoice_def DECODE_FUNCS_def decode_bolt11_def decode_bolt12_offer_def
      decode_bolt12_invoice_def example_bolt12_lib_def example_invoice_lib_def BECH32_BOLT12_INVOICE_HRP_def)

theorem fetched_invoice_authentic_witness:
  "\<exists>f' sent. cln_fetch_invoice example_fetch_lib example_cln_node (\<lambda>_. True)
      [\<lparr>or_signer = [2], or_offer = ''lno1'', or_url = None\<rparr>] example_fetch_env ''lno1'' 1000 None example_fetcher
      = (f', sent, Ok (''lni1'', None)) \<and> delivered_invoice example_fetch_lib example_fetch_env 9 ''lni1''"
proof -
  let ?t = "[\<lparr>or_signer = [2], or_offer = ''lno1'', or_url = None\<rparr>]"
  have lib: "hl_offer (fl_hold example_fetch_lib) = example_offer_lib\<lparr>ol_invoice := example_bolt12_lib\<rparr>"
    "ol_network example_offer_lib = Regtest" "ol_hash_request example_offer_lib = (\<lambda>_. 9)" "ol_hash_key example_offer_lib = (\<lambda>_. 3)"
    "il_to_lowercase example_bolt12_lib = id" "fl_build_request example_fetch_lib = (\<lambda>_ _ _ _. Some [0])"
    "fl_hex_encode example_fetch_lib = (\<lambda>_. ''00'')"
    by (simp_all add: example_fetch_lib_def example_hold_lib_def example_offer_lib_def example_bolt12_lib_def example_invoice_lib_def)
  have env: "fv_ws example_fetch_env = [(1, Some (\<lparr>ph_offer = ''lno1'', ph_invoice_request = ''00''\<rparr>, Ok ''lni1''))]"
    "fv_can_send example_fetch_env = (\<lambda>_. True)"
    "os_all_offers (fe_subs example_fetcher) = [3 \<mapsto> (''lno1'', 7)]" "os_subscriptions (fe_subs example_fetcher) = [7 \<mapsto> 1]"
    "nd_hint example_cln_node = (\<lambda>_. Ok None)"
    by (simp_all add: example_fetch_env_def example_fetcher_def example_cln_node_def)
  have "\<exists>f' sent. cln_fetch_invoice example_fetch_lib example_cln_node (\<lambda>_. True) ?t example_fetch_env ''lno1'' 1000 None
      example_fetcher = (f', sent, Ok (''lni1'', None))"
    by (simp add: cln_fetch_invoice_def get_offer_def hold_fetch_invoice_def lib example_decodes fetcher_fetch_invoice_def
        request_invoice_def hash_offer_def env Let_def INVOICE_FETCH_TIMEOUT_WEBHOOK_SECONDS_def pending_hook_id_def
        parse_ws_response_def fetched_bolt12_def signed_response_def validate_invoice_signer_def magic_hint_def)
  then obtain f' sent where run: "cln_fetch_invoice example_fetch_lib example_cln_node (\<lambda>_. True) ?t example_fetch_env
      ''lno1'' 1000 None example_fetcher = (f', sent, Ok (''lni1'', None))" by blast
  from fetched_invoice_authentic [OF run] run show ?thesis by (auto simp: get_offer_def lib)
qed



subsection \<open>Answers to onion messages\<close>

fun onion_messages :: "onion_event list \<Rightarrow> ((offer_query \<Rightarrow> bool) \<times> offer_row list \<times> onion_message) list" where
  "onion_messages [] = []"
| "onion_messages (OnionError # rest) = []"
| "onion_messages (OnionItem up t None # rest) = onion_messages rest"
| "onion_messages (OnionItem up t (Some msg) # rest) = (up, t, msg) # onion_messages rest"

text \<open>A message is for us when it has a reply path and a request whose issuer has a registered offer.\<close>

definition for_us :: "fetch_lib \<Rightarrow> (offer_query \<Rightarrow> bool) \<Rightarrow> offer_row list \<Rightarrow> onion_message \<Rightarrow> bool" where
  "for_us lib up t msg \<longleftrightarrow> up QGetBySigner \<and> om_reply_path msg \<noteq> None \<and>
     (\<exists>request. om_invoice_request msg = Some request \<and> (\<exists>row \<in> set t. fl_request_issuer lib request = Some (Some (or_signer row))))"

lemma handle_onion_message_for_us:
  "fst (handle_onion_message lib up t msg) = (om_id msg, if for_us lib up t msg then ActionResolve else ActionContinue)"
  "snd (handle_onion_message lib up t msg) \<noteq> None \<longleftrightarrow> for_us lib up t msg"
proof -
  let ?asks = "\<lambda>request path k. om_invoice_request msg = Some request \<and> om_reply_path msg = Some path
    \<and> fl_request_issuer lib request = Some (Some k) \<and> up QGetBySigner"
  have "fst (handle_onion_message lib up t msg) = (om_id msg, if for_us lib up t msg then ActionResolve else ActionContinue)
      \<and> (snd (handle_onion_message lib up t msg) \<noteq> None \<longleftrightarrow> for_us lib up t msg)"
  proof (cases "\<exists>request path k. ?asks request path k")
    case True
    then obtain request path k where 1: "?asks request path k" by blast
    have us: "for_us lib up t msg \<longleftrightarrow> find (\<lambda>r. or_signer r = k) t \<noteq> None"
      using 1 by (auto simp: for_us_def find_None_iff)
    show ?thesis unfolding us using 1
      by (cases "find (\<lambda>r. or_signer r = k) t")
        (simp_all add: handle_onion_message_def get_offer_for_invoice_request_def get_by_signer_def)
  next
    case False
    then have "\<not> for_us lib up t msg" unfolding for_us_def by blast
    moreover have "handle_onion_message lib up t msg = ((om_id msg, ActionContinue), None)"
    proof (cases "om_invoice_request msg")
      case (Some request)
      with False have "om_reply_path msg \<noteq> None \<Longrightarrow> \<exists>e. get_offer_for_invoice_request lib up request t = Err e"
        by (cases "fl_request_issuer lib request"; cases "the (fl_request_issuer lib request)")
          (auto simp: get_offer_for_invoice_request_def get_by_signer_def)
      with Some show ?thesis by (cases "om_reply_path msg") (auto simp: handle_onion_message_def)
    qed (simp add: handle_onion_message_def)
    ultimately show ?thesis by simp
  qed
  then show "fst (handle_onion_message lib up t msg) = (om_id msg, if for_us lib up t msg then ActionResolve else ActionContinue)"
    "snd (handle_onion_message lib up t msg) \<noteq> None \<longleftrightarrow> for_us lib up t msg" by blast+
qed

lemma handle_onion_message_task:
  assumes "snd (handle_onion_message lib up t msg) = Some (row, hook, path)"
  shows "row \<in> set t \<and> om_reply_path msg = Some path \<and> ph_offer hook = or_offer row \<and>
    (\<exists>request. om_invoice_request msg = Some request \<and> fl_request_issuer lib request = Some (Some (or_signer row))
       \<and> ph_invoice_request hook = fl_hex_encode lib request)"
  using assms by (auto simp: handle_onion_message_def get_offer_for_invoice_request_def get_by_signer_def find_Some_iff
      split: option.splits result.splits if_splits)

lemma stream_onion_messages_split:
  "stream_onion_messages lib events =
     (map (\<lambda>(up, t, msg). fst (handle_onion_message lib up t msg)) (onion_messages events),
      List.map_filter (\<lambda>(up, t, msg). snd (handle_onion_message lib up t msg)) (onion_messages events))"
  by (induction lib events rule: stream_onion_messages.induct)
    (auto simp: map_filter_simps split: prod.splits option.splits)

lemma blind_onion_Ok:
  "blind_onion lib create reply path our = Ok onion \<Longrightarrow> \<exists>node key hops. create our node key hops reply = Some onion"
  by (auto simp: blind_onion_def split: option.splits)

lemma handle_response_onions:
  "fst (handle_response lib create inject our (Some path) reply) = []
   \<or> (\<exists>onion node key hops. fst (handle_response lib create inject our (Some path) reply) = [onion]
      \<and> create our node key hops reply = Some onion)"
proof (cases "blind_onion lib create reply path our")
  case (Ok onion)
  from blind_onion_Ok [OF this] Ok show ?thesis by (cases onion) (simp add: handle_response_def)
qed (simp_all add: handle_response_def)

text \<open>
  C35: every onion message is answered exactly once, in order: it is resolved when it asks for an invoice of
  a registered offer and can be replied to, and passed on otherwise. Each resolved message starts one
  fetch, for the offer of the issuer in the request, and its reply path gets at most one onion, with
  an error or an invoice that is signed by that issuer and was delivered for this request.
\<close>

theorem onion_requests_answered:
  assumes "stream_onion_messages lib events = (answers, tasks)"
  shows "answers = map (\<lambda>(up, t, msg). (om_id msg, if for_us lib up t msg then ActionResolve else ActionContinue)) (onion_messages events)
    \<and> length tasks = length (filter (\<lambda>(up, t, msg). for_us lib up t msg) (onion_messages events))
    \<and> (\<forall>(row, hook, path) \<in> set tasks.
        (\<exists>(up, t, msg) \<in> set (onion_messages events). \<exists>request. row \<in> set t \<and> om_reply_path msg = Some path
          \<and> om_invoice_request msg = Some request \<and> fl_request_issuer lib request = Some (Some (or_signer row))
          \<and> ph_invoice_request hook = fl_hex_encode lib request)
        \<and> (\<forall>env f. case answer_onion lib create inject our env (row, hook, path) f of (f', sent, onions) \<Rightarrow>
            onions = [] \<or> (\<exists>onion reply node key hops. onions = [onion] \<and> create our node key hops reply = Some onion
              \<and> (case reply of ReplyError e \<Rightarrow> True
                 | ReplyInvoice i \<Rightarrow> b12_signing_pubkey i = or_signer row
                     \<and> (\<exists>invoice. fetched_bolt12 lib invoice = Ok i \<and> delivered_invoice lib env (pending_hook_id lib hook) invoice)))))"
    (is "_ \<and> _ \<and> (\<forall>x \<in> set tasks. ?task x)")
proof -
  let ?ms = "onion_messages events"
  from assms have answers: "answers = map (\<lambda>(up, t, msg). fst (handle_onion_message lib up t msg)) ?ms"
    and tasks: "tasks = List.map_filter (\<lambda>(up, t, msg). snd (handle_onion_message lib up t msg)) ?ms"
    by (simp_all add: stream_onion_messages_split)
  have len: "length tasks = length (filter (\<lambda>(up, t, msg). for_us lib up t msg) ?ms)"
    by (simp add: tasks map_filter_def comp_def case_prod_unfold handle_onion_message_for_us(2) del: not_None_eq)
  have "?task (row, hook, path)" if task: "(row, hook, path) \<in> set tasks" for row hook path
  proof -
    from task obtain up t msg where m: "(up, t, msg) \<in> set ?ms"
      and h: "snd (handle_onion_message lib up t msg) = Some (row, hook, path)"
      by (force simp: tasks map_filter_def)
    have reply: "case answer_onion lib create inject our env (row, hook, path) f of (f', sent, onions) \<Rightarrow>
        onions = [] \<or> (\<exists>onion reply node key hops. onions = [onion] \<and> create our node key hops reply = Some onion
          \<and> (case reply of ReplyError e \<Rightarrow> True
             | ReplyInvoice i \<Rightarrow> b12_signing_pubkey i = or_signer row
                 \<and> (\<exists>invoice. fetched_bolt12 lib invoice = Ok i \<and> delivered_invoice lib env (pending_hook_id lib hook) invoice)))"
      for env :: "'d fetch_env" and f
    proof (cases "snd (snd (fetcher_fetch_invoice lib env row hook f))")
      case (Ok x)
      from fetcher_fetch_invoice_Ok [OF Ok] have "case ReplyInvoice (snd x) of ReplyError e \<Rightarrow> True
        | ReplyInvoice i \<Rightarrow> b12_signing_pubkey i = or_signer row
          \<and> (\<exists>invoice. fetched_bolt12 lib invoice = Ok i \<and> delivered_invoice lib env (pending_hook_id lib hook) invoice)" by auto
      with Ok handle_response_onions [of lib create inject our path "ReplyInvoice (snd x)"] show ?thesis
        by (auto simp: answer_onion_def split: prod.split simp del: invoice_reply.case) blast
    next
      case (Err e)
      then show ?thesis using handle_response_onions [of lib create inject our path "ReplyError e"]
        by (auto simp: answer_onion_def split: prod.split) force
    qed (auto simp: answer_onion_def split: prod.splits)
    from handle_onion_message_task [OF h] m reply show ?thesis by blast
  qed
  then have "?task x" if "x \<in> set tasks" for x using that by (cases x) (simp only:)
  then have "\<forall>x \<in> set tasks. ?task x" by (rule ballI)
  moreover have "answers = map (\<lambda>(up, t, msg). (om_id msg, if for_us lib up t msg then ActionResolve else ActionContinue)) ?ms"
    by (simp add: answers handle_onion_message_for_us(1))
  ultimately show ?thesis using len by blast
qed

definition example_onion :: onion_message where
  "example_onion = \<lparr>om_id = 5, om_invoice_request = Some [1],
     om_reply_path = Some \<lparr>rp_first_node_id = Some [2], rp_first_scid = None, rp_first_scid_dir = None,
       rp_first_path_key = Some [3], rp_hops = []\<rparr>\<rparr>"

theorem onion_requests_answered_witness:
  "fst (stream_onion_messages (example_fetch_lib\<lparr>fl_request_issuer := \<lambda>_. Some (Some [2])\<rparr>)
     [OnionItem (\<lambda>_. True) [] (Some example_onion),
      OnionItem (\<lambda>_. True) [\<lparr>or_signer = [2], or_offer = ''lno1'', or_url = None\<rparr>] (Some example_onion), OnionError])
   = [(5, ActionContinue), (5, ActionResolve)]"
proof -
  let ?lib = "example_fetch_lib\<lparr>fl_request_issuer := \<lambda>_. Some (Some [2])\<rparr>"
  let ?events = "[OnionItem (\<lambda>_. True) [] (Some example_onion),
      OnionItem (\<lambda>_. True) [\<lparr>or_signer = [2], or_offer = ''lno1'', or_url = None\<rparr>] (Some example_onion), OnionError]"
  obtain answers tasks where run: "stream_onion_messages ?lib ?events = (answers, tasks)" by force
  from onion_requests_answered [OF run] have "answers
    = map (\<lambda>(up, t, msg). (om_id msg, if for_us ?lib up t msg then ActionResolve else ActionContinue)) (onion_messages ?events)" by blast
  with run show ?thesis by (simp add: for_us_def example_onion_def)
qed

end
