(* ===== verification/Lightning_Info.thy ===== *)
theory Lightning_Info
  imports Boltz_Cache Ws_Status F64_Order Webhook_Guard "HOL-Library.Countable"
begin

text \<open>
  Information about the Lightning network, \<open>src/boltzr/src/service/lightning_info\<close>: the gossip of the
  nodes (\<open>cln.rs\<close>, \<open>lnd.rs\<close>), how it is merged and stored in the cache, and the queries (\<open>mod.rs\<close>). The
  answers of the nodes are arguments; hash maps are maps, and the orders in which they are iterated are
  arguments. \<open>lower\<close> is \<open>str::to_lowercase\<close> and \<open>hex\<close> the encoder of the hex library.
\<close>

subsection \<open>Data\<close>

record ln_node =
  ln_id :: string
  ln_alias :: "string option"
  ln_color :: "string option"

record channel_policy =
  cp_active :: bool
  cp_base_fee_millisatoshi :: u32
  cp_fee_ppm :: u32
  cp_delay :: u32
  cp_htlc_minimum_millisatoshi :: "u64 option"
  cp_htlc_maximum_millisatoshi :: "u64 option"

record ln_channel =
  lc_source :: ln_node
  lc_destination :: string
  lc_short_channel_id :: string
  lc_capacity_sat :: "u64 option"
  lc_active :: bool
  lc_info :: channel_policy

record channel_info_side =
  ls_node :: ln_node
  ls_policy :: channel_policy

record channel_info =
  li_short_channel_id :: string
  li_capacity_sat :: "u64 option"
  li_policies :: "channel_info_side list"

record source_gossip =
  sg_nodes :: "ln_node list"
  sg_channels :: "ln_channel list"

datatype info_error =
    GossipFetch | AllSourcesFailed | InvalidLnd string | InfoCache cache_error | NoNodes string
  | NoChannels | ChannelNotFound | NodeNotFound | ScidParse parse_int_error

subsection \<open>Core Lightning\<close>

record cln_raw_node =
  rn_nodeid :: bytes
  rn_alias :: "string option"
  rn_color :: "bytes option"

record cln_raw_channel =
  rc_source :: bytes
  rc_destination :: bytes
  rc_short_channel_id :: string
  rc_public :: bool
  rc_amount_msat :: "u64 option"
  rc_active :: bool
  rc_base_fee_millisatoshi :: u32
  rc_fee_per_millionth :: u32
  rc_delay :: u32
  rc_htlc_minimum_msat :: "u64 option"
  rc_htlc_maximum_msat :: "u64 option"

definition cln_channel :: "(bytes \<Rightarrow> string) \<Rightarrow> cln_raw_channel \<Rightarrow> ln_node \<Rightarrow> ln_channel" where
  "cln_channel hex ch source =
     \<lparr>lc_source = source\<lparr>ln_id := hex (rc_source ch)\<rparr>, lc_destination = hex (rc_destination ch),
      lc_short_channel_id = rc_short_channel_id ch,
      lc_capacity_sat = map_option (\<lambda>a. a div 1000) (rc_amount_msat ch), lc_active = rc_active ch,
      lc_info = \<lparr>cp_active = rc_active ch, cp_base_fee_millisatoshi = rc_base_fee_millisatoshi ch,
        cp_fee_ppm = rc_fee_per_millionth ch, cp_delay = rc_delay ch,
        cp_htlc_minimum_millisatoshi = rc_htlc_minimum_msat ch, cp_htlc_maximum_millisatoshi = rc_htlc_maximum_msat ch\<rparr>\<rparr>"

definition cln_source_fetch ::
  "(bytes \<Rightarrow> string) \<Rightarrow> cln_raw_node list option \<Rightarrow> cln_raw_channel list option \<Rightarrow> (info_error, source_gossip) result" where
  "cln_source_fetch hex raw_nodes raw_channels =
     r_bind (ok_or GossipFetch raw_nodes) (\<lambda>nodes.
     r_bind (ok_or GossipFetch raw_channels) (\<lambda>channels.
       Ok \<lparr>sg_nodes = map (\<lambda>n. \<lparr>ln_id = hex (rn_nodeid n), ln_alias = rn_alias n, ln_color = map_option hex (rn_color n)\<rparr>) nodes,
           sg_channels = map (\<lambda>ch. cln_channel hex ch \<lparr>ln_id = hex (rc_source ch), ln_alias = None, ln_color = None\<rparr>)
             (filter rc_public channels)\<rparr>))"

subsection \<open>LND\<close>

type_synonym i64 = "64 word"

record lnd_node =
  dn_pub_key :: string
  dn_alias :: string
  dn_color :: string

record lnd_policy =
  dp_disabled :: bool
  dp_fee_base_msat :: i64
  dp_fee_rate_milli_msat :: i64
  dp_time_lock_delta :: u32
  dp_min_htlc :: i64
  dp_max_htlc_msat :: u64

record lnd_edge =
  de_channel_id :: u64
  de_node1_pub :: string
  de_node2_pub :: string
  de_capacity :: i64
  de_node1_policy :: "lnd_policy option"
  de_node2_policy :: "lnd_policy option"

text \<open>Decimal printing of integers, as their \<open>Display\<close> does it.\<close>

function print_nat :: "nat \<Rightarrow> string" where
  "print_nat n = (if n < 10 then [char_of (48 + n)] else print_nat (n div 10) @ [char_of (48 + n mod 10)])"
  by auto
termination by (relation "measure id") auto

declare print_nat.simps [simp del]

definition scid_lnd_to_cln_u64 :: "u64 \<Rightarrow> string" where
  "scid_lnd_to_cln_u64 channel_id =
     print_nat (unat (drop_bit 40 channel_id)) @ ''x'' @
     print_nat (unat (and (drop_bit 16 channel_id) 0x00FFFFFF)) @ ''x'' @
     print_nat (unat (and channel_id 0xFFFF))"

definition scid_lnd_to_cln :: "string \<Rightarrow> (info_error, string) result" where
  "scid_lnd_to_cln s = r_map scid_lnd_to_cln_u64 (r_map_err ScidParse (parse_u64 s))"

definition lnd_node_to_node :: "(string \<Rightarrow> string) \<Rightarrow> lnd_node \<Rightarrow> ln_node" where
  "lnd_node_to_node lower n =
     \<lparr>ln_id = lower (dn_pub_key n), ln_alias = (if dn_alias n = [] then None else Some (dn_alias n)),
      ln_color = (if dn_color n = [] then None else Some (lower (dropWhile (\<lambda>c. c = CHR ''#'') (dn_color n))))\<rparr>"

definition u32_try_from :: "string \<Rightarrow> i64 \<Rightarrow> (info_error, u32) result" where
  "u32_try_from what v = (if 0 \<le> sint v \<and> sint v < 2 ^ 32 then Ok (ucast v) else Err (InvalidLnd what))"

definition u64_try_from :: "string \<Rightarrow> i64 \<Rightarrow> (info_error, u64) result" where
  "u64_try_from what v = (if 0 \<le> sint v then Ok (ucast v) else Err (InvalidLnd what))"

definition lnd_edge_side_to_channel ::
  "ln_node \<Rightarrow> string \<Rightarrow> string \<Rightarrow> i64 \<Rightarrow> lnd_policy \<Rightarrow> (info_error, ln_channel) result" where
  "lnd_edge_side_to_channel source destination scid capacity policy =
     r_bind (if 0 < sint capacity then r_map Some (u64_try_from ''capacity'' capacity) else Ok None) (\<lambda>capacity_sat.
     r_bind (u32_try_from ''base fee'' (dp_fee_base_msat policy)) (\<lambda>base_fee.
     r_bind (u32_try_from ''proportional fee'' (dp_fee_rate_milli_msat policy)) (\<lambda>fee_ppm.
     r_bind (u64_try_from ''minimum HTLC'' (dp_min_htlc policy)) (\<lambda>min_htlc.
       Ok \<lparr>lc_source = source, lc_destination = destination, lc_short_channel_id = scid, lc_capacity_sat = capacity_sat,
           lc_active = (\<not> dp_disabled policy),
           lc_info = \<lparr>cp_active = (\<not> dp_disabled policy), cp_base_fee_millisatoshi = base_fee, cp_fee_ppm = fee_ppm,
             cp_delay = dp_time_lock_delta policy, cp_htlc_minimum_millisatoshi = Some min_htlc,
             cp_htlc_maximum_millisatoshi = (if 0 < dp_max_htlc_msat policy then Some (dp_max_htlc_msat policy) else None)\<rparr>\<rparr>))))"

definition lnd_edge_channels :: "(string \<Rightarrow> string) \<Rightarrow> lnd_edge \<Rightarrow> (info_error, ln_channel list) result" where
  "lnd_edge_channels lower e =
     r_map concat (r_mapM (\<lambda>(source_pub, dest_pub, policy).
         case policy of
           None \<Rightarrow> Ok []
         | Some policy \<Rightarrow>
             r_map (\<lambda>c. [c]) (lnd_edge_side_to_channel \<lparr>ln_id = lower source_pub, ln_alias = None, ln_color = None\<rparr>
               (lower dest_pub) (scid_lnd_to_cln_u64 (de_channel_id e)) (de_capacity e) policy))
       [(de_node1_pub e, de_node2_pub e, de_node1_policy e), (de_node2_pub e, de_node1_pub e, de_node2_policy e)])"

definition lnd_source_fetch ::
  "(string \<Rightarrow> string) \<Rightarrow> (lnd_node list \<times> lnd_edge list) option \<Rightarrow> (info_error, source_gossip) result" where
  "lnd_source_fetch lower graph =
     r_bind (ok_or GossipFetch graph) (\<lambda>(nodes, edges).
       r_map (\<lambda>channels. \<lparr>sg_nodes = map (lnd_node_to_node lower) nodes, sg_channels = concat channels\<rparr>)
         (r_mapM (lnd_edge_channels lower) edges))"

subsection \<open>Merging\<close>

definition is_empty_text :: "string option \<Rightarrow> bool" where
  "is_empty_text t = (case t of Some s \<Rightarrow> s = [] | None \<Rightarrow> True)"

definition merge_text :: "string option \<Rightarrow> string option \<Rightarrow> string option" where
  "merge_text existing incoming = (if is_empty_text existing \<and> \<not> is_empty_text incoming then incoming else existing)"

definition merge_node :: "ln_node \<Rightarrow> (string \<rightharpoonup> ln_node) \<Rightarrow> (string \<rightharpoonup> ln_node)" where
  "merge_node incoming dest =
     (case dest (ln_id incoming) of
        Some existing \<Rightarrow> dest(ln_id incoming \<mapsto> existing\<lparr>ln_alias := merge_text (ln_alias existing) (ln_alias incoming),
            ln_color := merge_text (ln_color existing) (ln_color incoming)\<rparr>)
      | None \<Rightarrow> dest(ln_id incoming \<mapsto> incoming))"

definition successful_gossip :: "(info_error, source_gossip) result list \<Rightarrow> source_gossip list" where
  "successful_gossip results = List.map_filter (\<lambda>r. case r of Ok g \<Rightarrow> Some g | _ \<Rightarrow> None) results"

definition merge_gossip_results ::
  "(info_error, source_gossip) result list \<Rightarrow> (info_error, (string \<rightharpoonup> ln_node) \<times> ln_channel list) result" where
  "merge_gossip_results results =
     (let gossip = successful_gossip results in
      if gossip = [] then Err AllSourcesFailed
      else Ok (fold (\<lambda>g dest. fold merge_node (sg_nodes g) dest) gossip Map.empty, concat (map sg_channels gossip)))"

text \<open>The sources of a currency: its CLN, then its LNDs by the order of their names.\<close>

definition build_sources :: "'s option \<Rightarrow> (string \<times> 's) list \<Rightarrow> 's list" where
  "build_sources cln lnds = (case cln of Some c \<Rightarrow> [c] | None \<Rightarrow> []) @ map snd (sort_key (map (of_char :: char \<Rightarrow> nat) \<circ> fst) lnds)"

subsection \<open>Storing\<close>

definition GOSSIP_TTL_SECS :: u64 where
  "GOSSIP_TTL_SECS = 3600"

definition cache_key_node :: "string \<Rightarrow> string" where
  "cache_key_node symbol = ''gossip:'' @ symbol @ '':node''"

definition cache_key_channel :: "string \<Rightarrow> string" where
  "cache_key_channel symbol = ''gossip:'' @ symbol @ '':channel''"

definition cache_key_channels :: "string \<Rightarrow> string" where
  "cache_key_channels symbol = ''gossip:'' @ symbol @ '':channels''"

text \<open>The first loop of \<open>store_channels\<close>: what was seen, and the two maps.\<close>

type_synonym channel_maps = "(string \<times> string) set \<times> (string \<rightharpoonup> ln_channel list) \<times> (string \<rightharpoonup> channel_info)"

definition enrich_source :: "(string \<rightharpoonup> ln_node) \<Rightarrow> ln_channel \<Rightarrow> ln_channel" where
  "enrich_source nodes ch = (case nodes (ln_id (lc_source ch)) of Some n \<Rightarrow> ch\<lparr>lc_source := n\<rparr> | None \<Rightarrow> ch)"

definition collect_channel :: "(string \<rightharpoonup> ln_node) \<Rightarrow> ln_channel \<Rightarrow> channel_maps \<Rightarrow> channel_maps" where
  "collect_channel nodes ch = (\<lambda>(seen, by_dest, infos).
     if (lc_short_channel_id ch, ln_id (lc_source ch)) \<in> seen then (seen, by_dest, infos)
     else let c = enrich_source nodes ch;
              info = (case infos (lc_short_channel_id c) of
                Some i \<Rightarrow> i
              | None \<Rightarrow> \<lparr>li_short_channel_id = lc_short_channel_id c, li_capacity_sat = lc_capacity_sat c, li_policies = []\<rparr>)
          in (insert (lc_short_channel_id ch, ln_id (lc_source ch)) seen,
              by_dest(lc_destination c \<mapsto> (case by_dest (lc_destination c) of Some cs \<Rightarrow> cs | None \<Rightarrow> []) @ [c]),
              infos(lc_short_channel_id c \<mapsto> info\<lparr>li_policies := li_policies info @ [\<lparr>ls_node = lc_source c, ls_policy = lc_info c\<rparr>]\<rparr>)))"

definition collect_channels :: "(string \<rightharpoonup> ln_node) \<Rightarrow> ln_channel list \<Rightarrow> channel_maps" where
  "collect_channels nodes channels = fold (collect_channel nodes) channels ({}, Map.empty, Map.empty)"

text \<open>Values are set one after the other; the first failure ends it.\<close>

fun set_all :: "'r redis_server \<Rightarrow> 'v value_codec \<Rightarrow> int \<Rightarrow> string \<Rightarrow> (string \<times> 'v) list \<Rightarrow> 'r cache
    \<Rightarrow> 'r cache \<times> (info_error, unit) result" where
  "set_all srv codec now key [] c = (c, Ok ())"
| "set_all srv codec now key ((field, v) # rest) c =
     (case cache_set srv codec now key field v (Some GOSSIP_TTL_SECS) c of
        (c', Ok _) \<Rightarrow> set_all srv codec now key rest c'
      | (c', Err e) \<Rightarrow> (c', Err (InfoCache e))
      | (c', Panic) \<Rightarrow> (c', Panic))"

text \<open>The encodings of the three kinds of values, and the orders in which the maps are iterated.\<close>

record gossip_lib =
  gl_node :: "ln_node value_codec"
  gl_channels :: "ln_channel list value_codec"
  gl_channel :: "channel_info value_codec"
  gl_nodes_order :: "(string \<rightharpoonup> ln_node) \<Rightarrow> ln_node list"
  gl_dests_order :: "(string \<rightharpoonup> ln_channel list) \<Rightarrow> (string \<times> ln_channel list) list"
  gl_infos_order :: "(string \<rightharpoonup> channel_info) \<Rightarrow> (string \<times> channel_info) list"

definition store_channels ::
  "gossip_lib \<Rightarrow> 'r redis_server \<Rightarrow> int \<Rightarrow> string \<Rightarrow> ln_channel list \<Rightarrow> (string \<rightharpoonup> ln_node) \<Rightarrow> 'r cache
    \<Rightarrow> 'r cache \<times> (info_error, unit) result" where
  "store_channels lib srv now symbol channels nodes c =
     (case collect_channels nodes channels of (seen, by_dest, infos) \<Rightarrow>
        case set_all srv (gl_channels lib) now (cache_key_channels symbol) (gl_dests_order lib by_dest) c of
          (c1, Ok _) \<Rightarrow> set_all srv (gl_channel lib) now (cache_key_channel symbol) (gl_infos_order lib infos) c1
        | (c1, Err e) \<Rightarrow> (c1, Err e)
        | (c1, Panic) \<Rightarrow> (c1, Panic))"

record 'r graph_info =
  gi_cache :: "'r cache"
  gi_nodes :: "string \<rightharpoonup> (string \<rightharpoonup> ln_node)"

definition update_cache ::
  "gossip_lib \<Rightarrow> 'r redis_server \<Rightarrow> int \<Rightarrow> string \<Rightarrow> (info_error, source_gossip) result list \<Rightarrow> 'r graph_info
    \<Rightarrow> 'r graph_info \<times> (info_error, bool) result" where
  "update_cache lib srv now symbol results g =
     (if results = [] then (g, Ok False)
      else (case merge_gossip_results results of
              Err e \<Rightarrow> (g, Err e)
            | Panic \<Rightarrow> (g, Panic)
            | Ok (nodes, channels) \<Rightarrow>
                (case set_all srv (gl_node lib) now (cache_key_node symbol) (map (\<lambda>n. (ln_id n, n)) (gl_nodes_order lib nodes)) (gi_cache g) of
                   (c, Ok _) \<Rightarrow>
                     (case store_channels lib srv now symbol channels nodes c of
                        (c', Ok _) \<Rightarrow> (\<lparr>gi_cache = c', gi_nodes = (gi_nodes g)(symbol \<mapsto> nodes)\<rparr>, Ok True)
                      | (c', Err e) \<Rightarrow> (g\<lparr>gi_cache := c'\<rparr>, Err e)
                      | (c', Panic) \<Rightarrow> (g\<lparr>gi_cache := c'\<rparr>, Panic))
                 | (c, Err e) \<Rightarrow> (g\<lparr>gi_cache := c\<rparr>, Err e)
                 | (c, Panic) \<Rightarrow> (g\<lparr>gi_cache := c\<rparr>, Panic))))"

subsection \<open>Queries\<close>

definition cached ::
  "'r redis_server \<Rightarrow> 'v value_codec \<Rightarrow> int \<Rightarrow> string \<Rightarrow> string \<Rightarrow> info_error \<Rightarrow> 'r graph_info
    \<Rightarrow> 'r graph_info \<times> (info_error, 'v) result" where
  "cached srv codec now key field missing g =
     (case cache_get srv codec now key field (gi_cache g) of
        (c, r) \<Rightarrow> (g\<lparr>gi_cache := c\<rparr>, r_bind (r_map_err InfoCache r) (ok_or missing)))"

definition get_channels where
  "get_channels lib srv now hex symbol destination g =
     cached srv (gl_channels lib) now (cache_key_channels symbol) (hex destination) NoChannels g"

definition get_node_info where
  "get_node_info lib srv now hex symbol node g =
     cached srv (gl_node lib) now (cache_key_node symbol) (hex node) NodeNotFound g"

definition channel_field :: "(string \<Rightarrow> string) \<Rightarrow> string \<Rightarrow> (info_error, string) result" where
  "channel_field lower scid =
     (let s = lower scid in if CHR ''x'' \<in> set s then Ok s else scid_lnd_to_cln s)"

definition get_channel ::
  "gossip_lib \<Rightarrow> 'r redis_server \<Rightarrow> int \<Rightarrow> (string \<Rightarrow> string) \<Rightarrow> string \<Rightarrow> string \<Rightarrow> 'r graph_info
    \<Rightarrow> 'r graph_info \<times> (info_error, channel_info) result" where
  "get_channel lib srv now lower symbol scid g =
     (case channel_field lower scid of
        Ok field \<Rightarrow> cached srv (gl_channel lib) now (cache_key_channel symbol) field ChannelNotFound g
      | Err e \<Rightarrow> (g, Err e)
      | Panic \<Rightarrow> (g, Panic))"

text \<open>
  The search: \<open>distance\<close> is that of the library, \<open>values\<close> lists the values of a map. Comparing with a
  distance that is not a number aborts, and sorting two or more elements compares each of them.
\<close>

definition MAX_DISTANCE :: f64 where
  "MAX_DISTANCE = f64_round (1 / 10)"

definition alias_matches :: "(string \<Rightarrow> string) \<Rightarrow> (string \<Rightarrow> string \<Rightarrow> f64) \<Rightarrow> string \<Rightarrow> ln_node \<Rightarrow> (f64 \<times> ln_node) option" where
  "alias_matches lower distance alias node =
     Option.bind (ln_alias node) (\<lambda>a.
       let cmp = lower a; d = distance alias cmp
       in if f64_le d MAX_DISTANCE \<or> str_contains cmp alias then Some (d, node) else None)"

definition find_node_by_alias ::
  "(string \<Rightarrow> string) \<Rightarrow> (string \<Rightarrow> string \<Rightarrow> f64) \<Rightarrow> ((string \<rightharpoonup> ln_node) \<Rightarrow> ln_node list) \<Rightarrow> string \<Rightarrow> string \<Rightarrow> 'r graph_info
    \<Rightarrow> (info_error, ln_node list) result" where
  "find_node_by_alias lower distance values symbol alias g =
     (case gi_nodes g symbol of
        None \<Rightarrow> Err (NoNodes symbol)
      | Some nodes \<Rightarrow>
          (let found = List.map_filter (alias_matches lower distance (lower alias)) (values nodes)
           in if 1 < length found \<and> NaN \<in> fst ` set found then Panic
              else Ok (map snd (sort_key fst found))))"

subsection \<open>Channel ids\<close>

lemma print_nat_digits: "parse_u64_digits acc (print_nat n @ s) =
    (if acc * 10 ^ length (print_nat n) + n \<le> u64_max then parse_u64_digits (acc * 10 ^ length (print_nat n) + n) s
     else Err IntPosOverflow)"
proof (induction n arbitrary: acc s rule: print_nat.induct)
  case (1 n)
  have digit: "digit_of (char_of (48 + d)) = Some d" if "d < 10" for d :: nat
    using that by (simp add: digit_of_def)
  show ?case
  proof (cases "n < 10")
    case True
    then show ?thesis by (simp add: print_nat.simps [of n] digit)
  next
    case False
    let ?L = "length (print_nat (n div 10))"
    have eq: "(acc * 10 ^ ?L + n div 10) * 10 + n mod 10 = acc * 10 ^ Suc ?L + n"
      by (simp add: algebra_simps)
    have mono: "acc * 10 ^ ?L + n div 10 \<le> u64_max" if "acc * 10 ^ Suc ?L + n \<le> u64_max"
    proof -
      have "acc * 10 ^ ?L + n div 10 \<le> (acc * 10 ^ ?L + n div 10) * 10 + n mod 10" by simp
      with that show ?thesis unfolding eq by simp
    qed
    show ?thesis using False digit [of "n mod 10"] mono
      by (simp add: print_nat.simps [of n] 1 [OF False] eq [symmetric] not_less del: power_Suc)
  qed
qed

lemma print_nat_not_Nil: "print_nat n \<noteq> []"
  by (subst print_nat.simps) simp

lemma print_nat_digit_chars: "c \<in> set (print_nat n) \<Longrightarrow> \<exists>d :: nat. d < 10 \<and> c = char_of (48 + d)"
proof (induction n rule: print_nat.induct)
  case (1 n)
  then show ?case by (cases "n < 10") (auto simp: print_nat.simps [of n] intro: exI [of _ "n mod 10"])
qed

lemma print_nat_no_sep: "CHR ''x'' \<notin> set (print_nat n)" "CHR ''+'' \<notin> set (print_nat n)" "CHR ''-'' \<notin> set (print_nat n)"
proof -
  have "of_char (CHR ''x'') \<noteq> (48 + d :: nat)" "of_char (CHR ''+'') \<noteq> (48 + d :: nat)" "of_char (CHR ''-'') \<noteq> (48 + d :: nat)"
    if "d < 10" for d using that by simp_all
  moreover have "of_char (char_of (48 + d :: nat)) = 48 + d" if "d < 10" for d :: nat using that by simp
  ultimately show "CHR ''x'' \<notin> set (print_nat n)" "CHR ''+'' \<notin> set (print_nat n)" "CHR ''-'' \<notin> set (print_nat n)"
    by (metis print_nat_digit_chars)+
qed

lemma parse_print_u64: "parse_u64 (print_nat (unat w)) = Ok w"
proof -
  have le: "unat w \<le> u64_max" by (rule unat_u64_bound)
  have "hd (print_nat (unat w)) \<noteq> CHR ''+''"
    using print_nat_not_Nil [of "unat w"] print_nat_no_sep(2) [of "unat w"] by (metis list.set_sel(1))
  moreover have "print_nat (unat w) \<noteq> ''+''" "print_nat (unat w) \<noteq> ''-''"
    using print_nat_no_sep(2,3) [of "unat w"] by auto
  ultimately show ?thesis
    using print_nat_digits [of 0 "unat w" "[]"] le print_nat_not_Nil [of "unat w"]
    by (simp add: parse_u64_def word_unat_eq_iff unat_of_nat u64_max_def)
qed

text \<open>The parts of an id give it back, so ids of different channels stay different.\<close>

lemma scid_parts:
  fixes w :: u64
  shows "w = push_bit 40 (drop_bit 40 w) + (push_bit 16 (and (drop_bit 16 w) 0x00FFFFFF) + and w 0xFFFF)"
proof -
  have masks: "(0x00FFFFFF :: u64) = mask 24" "(0xFFFF :: u64) = mask 16" by (simp_all add: mask_eq_exp_minus_1)
  have "take_bit 40 w = push_bit 16 (take_bit 24 (drop_bit 16 w)) + take_bit 16 w"
    using bits_ident [of 16 "take_bit 40 w"] by (simp add: drop_bit_take_bit)
  then show ?thesis
    using bits_ident [of 40 w] by (simp add: masks take_bit_eq_mask)
qed

lemma split_at_sep:
  assumes "a @ c # b = a' @ c # b'" and "c \<notin> set a" and "c \<notin> set a'"
  shows "a = a' \<and> b = b'"
proof -
  have "takeWhile (\<lambda>x. x \<noteq> c) (x @ c # y) = x" if "c \<notin> set x" for x y using that by (subst takeWhile_append2) auto
  from this [OF assms(2), of b] this [OF assms(3), of b'] have "a = a'" unfolding assms(1) by (rule trans [OF sym])
  with assms(1) show ?thesis by simp
qed

lemma print_nat_inj: "print_nat (unat (v :: u64)) = print_nat (unat w) \<Longrightarrow> v = w"
  using parse_print_u64 [of v] parse_print_u64 [of w] by (metis result.inject(1))

lemma scid_lnd_to_cln_inj: "scid_lnd_to_cln_u64 v = scid_lnd_to_cln_u64 w \<Longrightarrow> v = w"
proof -
  assume eq: "scid_lnd_to_cln_u64 v = scid_lnd_to_cln_u64 w"
  note sep = split_at_sep [OF _ print_nat_no_sep(1) print_nat_no_sep(1)]
  from eq have "print_nat (unat (drop_bit 40 v)) @ CHR ''x'' # print_nat (unat (and (drop_bit 16 v) 0x00FFFFFF)) @
      CHR ''x'' # print_nat (unat (and v 0xFFFF))
    = print_nat (unat (drop_bit 40 w)) @ CHR ''x'' # print_nat (unat (and (drop_bit 16 w) 0x00FFFFFF)) @
      CHR ''x'' # print_nat (unat (and w 0xFFFF))"
    unfolding scid_lnd_to_cln_u64_def append_Cons append_Nil .
  note one = sep [OF this]
  note two = sep [OF one [THEN conjunct2]]
  note a = one [THEN conjunct1] and b = two [THEN conjunct1] and c = two [THEN conjunct2]
  from print_nat_inj [OF a] print_nat_inj [OF b] print_nat_inj [OF c] show ?thesis
    using scid_parts [of v] scid_parts [of w] by metis
qed

subsection \<open>What merging yields\<close>

text \<open>The first text that is not empty, or else the first.\<close>

definition first_text :: "string option list \<Rightarrow> string option" where
  "first_text ts = (case find (\<lambda>t. \<not> is_empty_text t) ts of Some t \<Rightarrow> t | None \<Rightarrow> hd ts)"

definition merged_node :: "string \<Rightarrow> ln_node list \<Rightarrow> ln_node option" where
  "merged_node i ns =
     (let own = filter (\<lambda>n. ln_id n = i) ns
      in if own = [] then None
         else Some \<lparr>ln_id = i, ln_alias = first_text (map ln_alias own), ln_color = first_text (map ln_color own)\<rparr>)"

lemma first_text_snoc: "ts \<noteq> [] \<Longrightarrow> first_text (ts @ [t]) = merge_text (first_text ts) t"
proof -
  assume "ts \<noteq> []"
  then have hd: "hd (ts @ [t]) = hd ts" by simp
  have "is_empty_text (hd ts)" if "find (\<lambda>t. \<not> is_empty_text t) ts = None"
    using that \<open>ts \<noteq> []\<close> by (auto simp: find_None_iff)
  moreover have "\<not> is_empty_text x" if "find (\<lambda>t. \<not> is_empty_text t) ts = Some x" for x
    using that by (auto simp: find_Some_iff)
  moreover have "find P (xs @ [y]) = (case find P xs of Some x \<Rightarrow> Some x | None \<Rightarrow> if P y then Some y else None)" for P xs and y :: "string option"
    by (induction xs) auto
  ultimately show ?thesis using hd
    by (cases "find (\<lambda>t. \<not> is_empty_text t) ts") (auto simp: first_text_def merge_text_def)
qed

lemma merge_nodes: "fold merge_node ns Map.empty = (\<lambda>i. merged_node i ns)"
proof (induction ns rule: rev_induct)
  case (snoc n ns)
  have single: "first_text [t] = t" for t by (auto simp: first_text_def)
  have own: "merged_node (ln_id n) (ns @ [n]) = Some (case merged_node (ln_id n) ns of
      Some e \<Rightarrow> e\<lparr>ln_alias := merge_text (ln_alias e) (ln_alias n), ln_color := merge_text (ln_color e) (ln_color n)\<rparr> | None \<Rightarrow> n)"
    by (simp add: merged_node_def Let_def first_text_snoc single)
  have other: "merged_node i (ns @ [n]) = merged_node i ns" if "i \<noteq> ln_id n" for i
    using that by (simp add: merged_node_def)
  show ?case
  proof
    fix i
    show "fold merge_node (ns @ [n]) Map.empty i = merged_node i (ns @ [n])"
      using own other [of i] by (cases "i = ln_id n") (simp_all add: snoc merge_node_def split: option.splits)
  qed
qed (simp add: merged_node_def)

lemma fold_merge_gossip:
  "fold (\<lambda>g dest. fold merge_node (sg_nodes g) dest) gs dest = fold merge_node (concat (map sg_nodes gs)) dest"
  by (induction gs arbitrary: dest) simp_all

subsection \<open>What is collected\<close>

fun first_by :: "('a \<Rightarrow> 'k) \<Rightarrow> 'a list \<Rightarrow> 'a list" where
  "first_by k [] = []"
| "first_by k (x # xs) = x # filter (\<lambda>y. k y \<noteq> k x) (first_by k xs)"

lemma first_by_snoc: "first_by k (xs @ [x]) = first_by k xs @ (if k x \<in> k ` set xs then [] else [x])"
  by (induction xs) auto

definition side_key :: "ln_channel \<Rightarrow> string \<times> string" where
  "side_key ch = (lc_short_channel_id ch, ln_id (lc_source ch))"

text \<open>The sides of channels that count: the first of each channel id and source, with its source filled in.\<close>

definition known_sides :: "(string \<rightharpoonup> ln_node) \<Rightarrow> ln_channel list \<Rightarrow> ln_channel list" where
  "known_sides nodes channels = map (enrich_source nodes) (first_by side_key channels)"

definition sides_to :: "string \<Rightarrow> ln_channel list \<Rightarrow> ln_channel list option" where
  "sides_to d cs = (let own = filter (\<lambda>c. lc_destination c = d) cs in if own = [] then None else Some own)"

definition info_of :: "string \<Rightarrow> ln_channel list \<Rightarrow> channel_info option" where
  "info_of scid cs =
     (let own = filter (\<lambda>c. lc_short_channel_id c = scid) cs
      in if own = [] then None
         else Some \<lparr>li_short_channel_id = scid, li_capacity_sat = lc_capacity_sat (hd own),
           li_policies = map (\<lambda>c. \<lparr>ls_node = lc_source c, ls_policy = lc_info c\<rparr>) own\<rparr>)"

lemma collect_channels_sides:
  "collect_channels nodes channels =
     (side_key ` set channels, \<lambda>d. sides_to d (known_sides nodes channels), \<lambda>s. info_of s (known_sides nodes channels))"
  unfolding collect_channels_def
proof (induction channels rule: rev_induct)
  case Nil
  show ?case by (simp add: known_sides_def sides_to_def info_of_def fun_eq_iff)
next
  case (snoc ch chs)
  let ?c = "enrich_source nodes ch"
  show ?case
  proof (cases "side_key ch \<in> side_key ` set chs")
    case True
    then have "known_sides nodes (chs @ [ch]) = known_sides nodes chs" by (simp add: known_sides_def first_by_snoc)
    with True snoc show ?thesis by (auto simp: collect_channel_def side_key_def)
  next
    case False
    then have sides: "known_sides nodes (chs @ [ch]) = known_sides nodes chs @ [?c]"
      by (simp add: known_sides_def first_by_snoc)
    have dest: "(\<lambda>d. sides_to d (cs @ [c])) = (\<lambda>d. sides_to d cs)(lc_destination c \<mapsto>
        (case sides_to (lc_destination c) cs of Some xs \<Rightarrow> xs | None \<Rightarrow> []) @ [c])" for c cs
      by (auto simp: sides_to_def fun_eq_iff Let_def)
    have info: "(\<lambda>s. info_of s (cs @ [c])) = (\<lambda>s. info_of s cs)(lc_short_channel_id c \<mapsto>
        (let i = (case info_of (lc_short_channel_id c) cs of Some i \<Rightarrow> i
            | None \<Rightarrow> \<lparr>li_short_channel_id = lc_short_channel_id c, li_capacity_sat = lc_capacity_sat c, li_policies = []\<rparr>)
         in i\<lparr>li_policies := li_policies i @ [\<lparr>ls_node = lc_source c, ls_policy = lc_info c\<rparr>]\<rparr>))" for c cs
      by (auto simp: info_of_def fun_eq_iff Let_def)
    from False snoc show ?thesis
      by (simp add: collect_channel_def side_key_def sides dest info Let_def)
  qed
qed

subsection \<open>What is stored\<close>

definition codec_total :: "'v value_codec \<Rightarrow> bool" where
  "codec_total codec \<longleftrightarrow> (\<forall>v e. \<exists>s. vc_to_entry codec v e = Some s \<and> vc_from_entry codec s = Some (v, e))"

text \<open>What a cache in memory answers for a key, and that it is not touched by others.\<close>

definition holds_value :: "'v value_codec \<Rightarrow> int \<Rightarrow> string \<Rightarrow> string \<Rightarrow> 'v \<Rightarrow> mem_cache \<Rightarrow> bool" where
  "holds_value codec now key field v m \<longleftrightarrow>
     (\<exists>s. m (get_key key field) = Some s \<and> vc_from_entry codec s = Some (v, Some (word_of_int (now + uint GOSSIP_TTL_SECS))))"

lemma holds_value_get:
  assumes "holds_value codec now key field v m" and "0 \<le> now" and "now + uint GOSSIP_TTL_SECS < 2 ^ 63"
    and "now \<le> t" and "t < now + uint GOSSIP_TTL_SECS"
  shows "cache_get srv codec t key field (Memory m) = (Memory m, Ok (Some v))"
proof -
  have "uint (word_of_int (now + uint GOSSIP_TTL_SECS) :: u64) = now + uint GOSSIP_TTL_SECS"
    using assms(2,3) by (simp only: uint_word_of_int) (simp add: GOSSIP_TTL_SECS_def)
  with assms show ?thesis
    by (auto simp: holds_value_def mem_get_def read_entry_def is_expired_def Let_def)
qed

lemma set_all_memory:
  assumes "codec_total codec" and "0 \<le> now" and "now + uint GOSSIP_TTL_SECS < 2 ^ 63" and "distinct (map fst es)"
  shows "\<exists>m'. set_all srv codec now key es (Memory m) = (Memory m', Ok ())
    \<and> (\<forall>k. k \<notin> get_key key ` fst ` set es \<longrightarrow> m' k = m k) \<and> (\<forall>(f, v) \<in> set es. holds_value codec now key f v m')"
  using assms(4)
proof (induction es arbitrary: m)
  case (Cons x es)
  obtain f v where x: "x = (f, v)" by force
  let ?e = "Some (word_of_int (now + uint GOSSIP_TTL_SECS)) :: u64 option"
  have "expiry_time now (Some GOSSIP_TTL_SECS) = Ok ?e" using assms(2,3) by (simp add: expiry_time_def not_less)
  moreover from assms(1) obtain s where s: "vc_to_entry codec v ?e = Some s" "vc_from_entry codec s = Some (v, ?e)"
    unfolding codec_total_def by blast
  ultimately have set: "cache_set srv codec now key f v (Some GOSSIP_TTL_SECS) (Memory m) = (Memory (m(get_key key f \<mapsto> s)), Ok ())"
    by (simp add: mem_set_def)
  from Cons.prems have "distinct (map fst es)" by simp
  from Cons.IH [OF this, of "m(get_key key f \<mapsto> s)"] obtain m' where
    rest: "set_all srv codec now key es (Memory (m(get_key key f \<mapsto> s))) = (Memory m', Ok ())"
    and frame: "\<forall>k. k \<notin> get_key key ` fst ` set es \<longrightarrow> m' k = (m(get_key key f \<mapsto> s)) k"
    and held: "\<forall>(f, v) \<in> set es. holds_value codec now key f v m'" by blast
  have "get_key key f \<notin> get_key key ` fst ` set es" using Cons.prems by (auto simp: x get_key_def)
  with frame s(2) have "holds_value codec now key f v m'" by (auto simp: holds_value_def)
  with set rest frame held show ?case by (intro exI [of _ m']) (auto simp: x)
qed simp

lemma gossip_keys_differ:
  "get_key (cache_key_node s) f \<noteq> get_key (cache_key_channels s) g"
  "get_key (cache_key_node s) f \<noteq> get_key (cache_key_channel s) g"
  "get_key (cache_key_channels s) f \<noteq> get_key (cache_key_channel s) g"
  by (simp_all add: get_key_def cache_key_node_def cache_key_channels_def cache_key_channel_def)

text \<open>Encodings are faithful, and iteration over a map lists its entries.\<close>

definition gossip_lib_ok :: "gossip_lib \<Rightarrow> bool" where
  "gossip_lib_ok lib \<longleftrightarrow> codec_total (gl_node lib) \<and> codec_total (gl_channels lib) \<and> codec_total (gl_channel lib) \<and>
     (\<forall>m. (\<forall>i n. m i = Some n \<longrightarrow> ln_id n = i) \<longrightarrow> finite (dom m) \<longrightarrow>
        set (gl_nodes_order lib m) = ran m \<and> distinct (map ln_id (gl_nodes_order lib m))) \<and>
     (\<forall>m. finite (dom m) \<longrightarrow> set (gl_dests_order lib m) = {(k, v). m k = Some v} \<and> distinct (map fst (gl_dests_order lib m))) \<and>
     (\<forall>m. finite (dom m) \<longrightarrow> set (gl_infos_order lib m) = {(k, v). m k = Some v} \<and> distinct (map fst (gl_infos_order lib m)))"

lemma nodes_order_lists:
  assumes "gossip_lib_ok lib" and "\<forall>i n. m i = Some n \<longrightarrow> ln_id n = i" and "finite (dom m)"
  shows "set (gl_nodes_order lib m) = ran m \<and> distinct (map ln_id (gl_nodes_order lib m))"
  using assms unfolding gossip_lib_ok_def by simp

lemma dests_order_lists:
  assumes "gossip_lib_ok lib" and "finite (dom m)"
  shows "set (gl_dests_order lib m) = {(k, v). m k = Some v} \<and> distinct (map fst (gl_dests_order lib m))"
  using assms unfolding gossip_lib_ok_def by simp

lemma infos_order_lists:
  assumes "gossip_lib_ok lib" and "finite (dom m)"
  shows "set (gl_infos_order lib m) = {(k, v). m k = Some v} \<and> distinct (map fst (gl_infos_order lib m))"
  using assms unfolding gossip_lib_ok_def by simp

lemma finite_dom_merged: "finite (dom (\<lambda>i. merged_node i ns))"
  by (rule finite_subset [of _ "ln_id ` set ns"])
    (auto simp: merged_node_def Let_def filter_empty_conv split: if_splits)

lemma finite_dom_sides: "finite (dom (\<lambda>d. sides_to d cs))" "finite (dom (\<lambda>s. info_of s cs))"
  by (rule finite_subset [of _ "lc_destination ` set cs"] finite_subset [of _ "lc_short_channel_id ` set cs"];
      auto simp: sides_to_def info_of_def Let_def filter_empty_conv split: if_splits)+


text \<open>A library for which this holds: values are counted, and maps are listed by the count of their keys.\<close>

type_synonym node_tuple = "string \<times> string option \<times> string option"
type_synonym policy_tuple = "bool \<times> nat \<times> nat \<times> nat \<times> nat option \<times> nat option"

definition node_tuple :: "ln_node \<Rightarrow> node_tuple" where
  "node_tuple n = (ln_id n, ln_alias n, ln_color n)"

definition tuple_node :: "node_tuple \<Rightarrow> ln_node" where
  "tuple_node = (\<lambda>(i, a, c). \<lparr>ln_id = i, ln_alias = a, ln_color = c\<rparr>)"

definition policy_tuple :: "channel_policy \<Rightarrow> policy_tuple" where
  "policy_tuple p = (cp_active p, unat (cp_base_fee_millisatoshi p), unat (cp_fee_ppm p), unat (cp_delay p),
     map_option unat (cp_htlc_minimum_millisatoshi p), map_option unat (cp_htlc_maximum_millisatoshi p))"

definition tuple_policy :: "policy_tuple \<Rightarrow> channel_policy" where
  "tuple_policy = (\<lambda>(a, b, f, d, l, h). \<lparr>cp_active = a, cp_base_fee_millisatoshi = of_nat b, cp_fee_ppm = of_nat f,
     cp_delay = of_nat d, cp_htlc_minimum_millisatoshi = map_option of_nat l, cp_htlc_maximum_millisatoshi = map_option of_nat h\<rparr>)"

definition channel_tuple :: "ln_channel \<Rightarrow> node_tuple \<times> string \<times> string \<times> nat option \<times> bool \<times> policy_tuple" where
  "channel_tuple c = (node_tuple (lc_source c), lc_destination c, lc_short_channel_id c, map_option unat (lc_capacity_sat c),
     lc_active c, policy_tuple (lc_info c))"

definition tuple_channel :: "node_tuple \<times> string \<times> string \<times> nat option \<times> bool \<times> policy_tuple \<Rightarrow> ln_channel" where
  "tuple_channel = (\<lambda>(n, d, s, c, a, p). \<lparr>lc_source = tuple_node n, lc_destination = d, lc_short_channel_id = s,
     lc_capacity_sat = map_option of_nat c, lc_active = a, lc_info = tuple_policy p\<rparr>)"

definition info_tuple :: "channel_info \<Rightarrow> string \<times> nat option \<times> (node_tuple \<times> policy_tuple) list" where
  "info_tuple i = (li_short_channel_id i, map_option unat (li_capacity_sat i),
     map (\<lambda>s. (node_tuple (ls_node s), policy_tuple (ls_policy s))) (li_policies i))"

definition tuple_info :: "string \<times> nat option \<times> (node_tuple \<times> policy_tuple) list \<Rightarrow> channel_info" where
  "tuple_info = (\<lambda>(s, c, ps). \<lparr>li_short_channel_id = s, li_capacity_sat = map_option of_nat c,
     li_policies = map (\<lambda>(n, p). \<lparr>ls_node = tuple_node n, ls_policy = tuple_policy p\<rparr>) ps\<rparr>)"

definition count_codec :: "('v \<Rightarrow> 't :: countable) \<Rightarrow> ('t \<Rightarrow> 'v) \<Rightarrow> 'v value_codec" where
  "count_codec to from =
     \<lparr>vc_to_json = \<lambda>v. None, vc_from_json = \<lambda>s. None,
      vc_to_entry = \<lambda>v e. Some (replicate (to_nat (to v, map_option unat e)) CHR ''1''),
      vc_from_entry = \<lambda>s. case from_nat (length s) of (t, e) \<Rightarrow> Some (from t, map_option of_nat e)\<rparr>"

lemma of_nat_unat_word: "word_of_nat (unat w) = w" for w :: "'a :: len word"
  by transfer simp

lemma count_codec_total: "(\<And>v. from (to v) = v) \<Longrightarrow> codec_total (count_codec to from)"
  by (simp add: codec_total_def count_codec_def option.map_comp comp_def option.map_ident of_nat_unat_word)

definition entries_by_count :: "(string \<rightharpoonup> 'v) \<Rightarrow> (string \<times> 'v) list" where
  "entries_by_count m = map (\<lambda>i. (from_nat i, the (m (from_nat i)))) (sorted_list_of_set (to_nat ` dom m))"

lemma entries_by_count:
  assumes "finite (dom m)"
  shows "set (entries_by_count m) = {(k, v). m k = Some v}" and "distinct (map fst (entries_by_count m))"
proof -
  show "set (entries_by_count m) = {(k, v). m k = Some v}"
    using assms by (force simp: entries_by_count_def image_image)
  have "inj_on (from_nat :: nat \<Rightarrow> string) (to_nat ` dom m)" by (auto simp: inj_on_def)
  then show "distinct (map fst (entries_by_count m))"
    using assms by (simp add: entries_by_count_def comp_def distinct_map)
qed

definition count_lib :: gossip_lib where
  "count_lib = \<lparr>gl_node = count_codec node_tuple tuple_node,
     gl_channels = count_codec (map channel_tuple) (map tuple_channel), gl_channel = count_codec info_tuple tuple_info,
     gl_nodes_order = map snd \<circ> entries_by_count, gl_dests_order = entries_by_count, gl_infos_order = entries_by_count\<rparr>"

lemma count_lib_ok: "gossip_lib_ok count_lib"
proof -
  have n: "tuple_node (node_tuple n) = n" for n by (simp add: tuple_node_def node_tuple_def)
  have p: "tuple_policy (policy_tuple p) = p" for p
    by (simp add: tuple_policy_def policy_tuple_def option.map_comp comp_def option.map_ident of_nat_unat_word)
  have c: "tuple_channel (channel_tuple c) = c" for c
    by (simp add: tuple_channel_def channel_tuple_def n p option.map_comp comp_def option.map_ident of_nat_unat_word)
  have side: "\<lparr>ls_node = ls_node x, ls_policy = ls_policy x\<rparr> = x" for x :: channel_info_side by simp
  have i: "tuple_info (info_tuple i) = i" for i
    by (simp add: tuple_info_def info_tuple_def n p side option.map_comp comp_def option.map_ident of_nat_unat_word)
  have cs: "map tuple_channel (map channel_tuple xs) = xs" for xs by (simp add: c comp_def)
  have ran: "snd ` {(k, v). m k = Some v} = ran m" for m :: "string \<rightharpoonup> ln_node" by (force simp: ran_def)
  have nodes: "distinct (map ln_id (map snd (entries_by_count m)))"
    if "\<forall>i n. m i = Some n \<longrightarrow> ln_id n = i" "finite (dom m)" for m
  proof -
    note e = entries_by_count [OF that(2)]
    have "map ln_id (map snd (entries_by_count m)) = map fst (entries_by_count m)"
      using e(1) that(1) by auto
    with e(2) show ?thesis by (simp del: map_map map_eq_conv)
  qed
  show ?thesis
    unfolding gossip_lib_ok_def
    by (intro conjI allI impI;
        simp add: count_lib_def count_codec_total n i cs [simplified] entries_by_count ran nodes [simplified])
qed

definition example_gossip :: source_gossip where
  "example_gossip = \<lparr>sg_nodes = [\<lparr>ln_id = ''02'', ln_alias = Some ''a'', ln_color = None\<rparr>], sg_channels = []\<rparr>"

definition richer_gossip :: source_gossip where
  "richer_gossip = \<lparr>sg_nodes = [\<lparr>ln_id = ''02'', ln_alias = Some ''b'', ln_color = Some ''ff''\<rparr>], sg_channels = []\<rparr>"


end
