(* ===== verification/Spec2Isabelle.thy ===== *)
theory Spec2Isabelle
  imports Utxo_Nursery Timeout_Delta Webhook_Caller Ws_Status Swap_Expiration Swap_Rescue Asset_Rescue_Service
    Fee_Bumper Zero_Conf_Tool Swap_Manager Evm_Quoter Bolt12_Fetch Lightning_Info
begin

text \<open>
  Verification of the Rust core of boltz-backend, a service for submarine, reverse and chain swaps
  between Bitcoin, Liquid and Lightning. This theory imports the development and holds the
  properties that span its components.

  \<^bold>\<open>The program.\<close> The crate \<open>src/boltz-core\<close> builds the scripts and Taproot trees of swaps, the
  transactions that claim and refund them on Bitcoin and Liquid, and the MuSig2 sessions of
  cooperative spends. The crate \<open>src/boltzr\<close> is the service around it: it reads swaps from the
  database, scans and watches the chains for their transactions, estimates and bumps fees, computes
  timeouts, fails swaps that take too long, claims swaps in batches, rescues assets and recovers
  swaps for users, tells clients about them over WebSockets and webhooks, hands out invoices for
  BOLT 12 offers and answers questions about the Lightning network. \<open>src/boltz-cache\<close> is its cache and \<open>src/boltz-evm\<close> has the quotes for tokens of EVM chains.

  \<^bold>\<open>Theories and sources.\<close> \<open>Boltz_Prelude\<close> holds the result type (values, errors and panics of
  Rust), its sequencing, loops and the reading of \<open>u64\<close> arithmetic. \<open>F64\<close> and \<open>F64_Order\<close> are a model
  of the double-precision operations the program uses, with their rounding, order and special values.
  For boltz-core: \<open>Target_Fee\<close> (target_fee.rs), \<open>Chain_Types\<close> (utils.rs, consts.rs,
  preimage_detector.rs), \<open>Swap_Scripts\<close> and \<open>Script_Eval\<close> (bitcoin/scripts and elements/scripts,
  with an evaluator of the script instructions they use), \<open>Bitcoin_Tx\<close> (bitcoin/tx.rs),
  \<open>Elements_Tx\<close> (elements/tx.rs), \<open>Network\<close> (network.rs, address.rs), \<open>Asset_Rescue_Tx\<close>
  (elements/asset_rescue.rs and wrapper.rs) and \<open>Musig\<close> (musig.rs).
  For the swaps of boltzr: \<open>Swap_Types\<close> (utils/pair.rs, swap/status.rs and the records of db/models),
  \<open>Swap_Details\<close> (claim and refund details of db/models), \<open>Timeout_Delta\<close>
  (swap/timeout_delta.rs), \<open>Swap_Filters\<close> (swap/filters.rs), \<open>Tx_Check\<close> (swap/tx_check.rs),
  \<open>Utxo_Nursery\<close> (swap/utxo_nursery.rs), \<open>Swap_Expiration\<close> (swap/expiration), \<open>Swap_Manager\<close>
  (swap/manager.rs) and \<open>Asset_Rescue_Service\<close> (swap/asset_rescue.rs).
  For its chains: \<open>Chain_Utils\<close> (chain/utils.rs, chain/types.rs), \<open>Mempool_Client\<close>
  (chain/mempool_client.rs), \<open>Fee_Estimation\<close> (the fees of chain/chain_client.rs and
  elements_client.rs), \<open>Fee_Bumper\<close> (chain/bumper), \<open>Chain_Scan\<close> (rescans and mempool scans of
  chain/chain_client.rs over chain/rpc_client.rs) and \<open>Zero_Conf_Tool\<close> (chain/elements/zero_conf_tool).
  For its clients: \<open>Webhook_Guard\<close> (webhook/resolver.rs and the URL checks of webhook/caller.rs),
  \<open>Webhook_Caller\<close> (webhook/caller.rs, invoice_caller.rs, db/helpers/web_hook.rs), \<open>Message_Limit\<close>,
  \<open>Status_Subscriptions\<close>, \<open>Offer_Subscriptions\<close> and \<open>Ws_Status\<close> (api/ws, with utils/timeout_map.rs),
  \<open>Invoice_Decode\<close> (lightning/invoice.rs), \<open>Bolt12_Offers\<close> (the offers of lightning/cln/hold.rs,
  db/helpers/offer.rs and api/bolt12.rs), \<open>Bolt12_Fetch\<close> (lightning/cln: invoice_fetcher.rs, the onion
  messages of hold.rs, fetch_invoice and parse_error of mod.rs), \<open>Lightning_Info\<close> (service/lightning_info),
  \<open>Pubkey_Iterator\<close> and \<open>Swap_Rescue\<close>
  (service/pubkey_iterator.rs, service/rescue.rs and the requests of api/rescue.rs).
  Of the other crates: \<open>Boltz_Cache\<close> (boltz-cache) and \<open>Evm_Quoter\<close> (boltz-evm/src/quoter).

  \<^bold>\<open>How code is modelled.\<close> Structs are records and enums datatypes with the same fields and
  variants; the fields no modelled function reads are left out. A function that may fail returns a
  \<open>result\<close>, whose constructor \<open>Panic\<close> is the abort of an \<open>unwrap\<close>, an \<open>expect\<close> or a wrong index.
  Integers are words of their width, so arithmetic wraps as in a release build. Loops over data are
  structural recursion, or have a termination proof (\<open>chunks\<close> and the ranges of heights of the
  prelude); loops of tasks that only end on cancellation are recursion over the sequence of events
  they meet, so no fuel is chosen anywhere. Methods that change state take and return it. Hash maps
  are maps; where code lists their keys the order is an argument. Clocks are arguments.

  \<^bold>\<open>Concurrency.\<close> The order of completion of futures is an argument in \<open>calculate_fee\<close> and in the
  scans of the mempool, and the theorems hold for every order. Tasks that share state are events in
  sequences or step relations: \<open>nursery_listen\<close>, \<open>musig_run\<close>, \<open>caller_run\<close>, the connections of
  \<open>ws_reach\<close>, the requests of \<open>rescue_reach\<close>, the commands, answers and ticks of \<open>tool_run\<close>; another
  task that changes a swap between a query and an update is a parameter of the expiration checks.
  Rescans of several chains share nothing and are run one after the other.

  \<^bold>\<open>Libraries.\<close> Code outside the repository is a record of functions that definitions take as
  argument: hashing, signatures, curve arithmetic, script and transaction encoding
  (\<open>script_lib\<close>, \<open>taproot_lib\<close>, \<open>bitcoin_lib\<close>, \<open>elements_lib\<close>, \<open>musig_lib\<close>), parsing and encoding
  (\<open>details_lib\<close>, \<open>chain_lib\<close>, \<open>net_lib\<close>, \<open>invoice_lib\<close>, \<open>offer_lib\<close>, \<open>ws_lib\<close>, \<open>rescue_lib\<close>, \<open>mempool_lib\<close>,
  \<open>hold_lib\<close>, \<open>fetch_lib\<close>, \<open>gossip_lib\<close>, \<open>value_codec\<close>, \<open>encodings\<close>, \<open>evm_abi\<close>), nodes and services (\<open>chain_client\<close>, \<open>swap_wallet\<close>,
  \<open>node_answers\<close>, \<open>scan_node\<close>, \<open>cln_node\<close>, \<open>bump_env\<close>, \<open>redis_server\<close>, \<open>uniswap_env\<close>) and the world a webhook call
  meets (\<open>world\<close>). What a theorem needs of them is a named predicate that states documented behaviour,
  such as \<open>amount_lib_ok\<close>, \<open>chain_rules_ok\<close>, \<open>codec_ok\<close> or \<open>uniswap_answers\<close>; each such theorem has a
  witness that instantiates it.

  \<^bold>\<open>Interfaces.\<close> \<open>fee_builder\<close> is the contract between fee selection and the three transaction
  builders; \<open>htlc_script\<close> and \<open>htlc_leaves\<close> that of the hash-locked scripts and trees; \<open>some_swap\<close>
  that of the three kinds of swap towards their symbols; \<open>lockup_spender\<close> that of the four sources
  of claim and refund inputs; \<open>hook_store\<close> that of the two stores of webhook states;
  \<open>connection_registry\<close> that of the registries of WebSocket connections; \<open>expiration_checker\<close> that of
  the two checks for swaps that are due; \<open>key_source\<close> that of the sources of keys towards the scan,
  and \<open>recovery\<close> that of its results; \<open>ttl_store\<close> that of stores whose entries expire;
  \<open>zero_conf_check\<close> that of the two clients of the 0-conf tool; \<open>pool_store\<close> that of the cache towards
  the quoter. All are interpreted on the model.

  \<^bold>\<open>What is shown.\<close> Scripts: exactly the holder of the preimage and the claim key, or the holder of
  the refund key after the timeout, can spend; covenant leaves pin the output. Transactions: value
  is conserved, blinded values balance, inputs and outputs are in BIP 69 order, lock times permit
  the refunds, and the witnesses that are built spend the outputs. Sessions: permitted calls never
  panic, a nonce signs once, signatures are aggregated in key order. Swaps: statuses, kinds and
  pairs round-trip; inputs spend the stored lockup; the Lightning timeout outlives the on-chain
  one; exactly the swaps that are due are failed; a batch claim spends exactly the requested swaps.
  Watching: filters, transaction checks and announcements are exact, scans of blocks and mempool
  miss nothing, and a rescan after a restart finds what concerns the pending swaps of the tables.
  Fees: a minority of fee servers cannot move the estimate, none can push it over the ceiling around
  the node's, bumps replace only refunds that pay too little, and they settle. 0-conf: answers are
  given once, only the tool's own yes is a yes, and nobody waits for ever. WebSockets: updates reach
  exactly the subscribers, invoice requests only proven owners, connections leave nothing behind.
  Webhooks: private addresses are never reached and retries end. Offers: only the issuer changes a
  registered offer, invoices handed out are signed by it, every onion message is answered once. Lightning:
  queries answer with the merged gossip. Recovery: every swap the scan
  reaches is found once, with the right keys. Rescue of assets: nonces sign once, reservations hold,
  only signed transactions are sent. Cache: it implements a map whose entries expire. Quotes: the
  best route over existing pools is found, and executed as quoted. Below: the fee a transaction was
  built for is the one later calculated for it.

  \<^bold>\<open>Not modelled.\<close> The database layer beyond the queries the modelled code makes, the gRPC and HTTP
  interfaces, the ZMQ transport of the chain clients, the connections of the Lightning clients, wallets, the signing for
  EVM contracts, backups, notifications, metrics, logging, configuration and the command line are
  input and output around the modelled logic or call libraries for all they do. The JSON forms of
  trees and messages belong to serde. The TypeScript half of the backend is another program.
\<close>

subsection \<open>Constructed and calculated fees\<close>

text \<open>The amounts that the node reports for the inputs of a constructed transaction.\<close>

lemma constructed_input_amounts:
  assumes "map previous_output tis = map prev_outpoint inputs"
    and "\<And>inp ti. inp \<in> set inputs \<Longrightarrow> previous_output ti = prev_outpoint inp
      \<Longrightarrow> known_amount cl client ti (amount (prev_out inp))"
  shows "\<exists>f. (\<forall>ti \<in> set tis. known_amount cl client ti (f ti))
    \<and> map f tis = map (amount \<circ> prev_out) inputs"
proof -
  define f where "f ti = (case input_amount cl client ti of Ok a \<Rightarrow> a | _ \<Rightarrow> 0)" for ti
  have f: "known_amount cl client ti a \<Longrightarrow> f ti = a" for ti a by (simp add: known_amount_def f_def)
  have len: "length tis = length inputs" using assms(1) by (rule map_eq_imp_length_eq)
  have known: "known_amount cl client (tis ! i) (amount (prev_out (inputs ! i)))" if "i < length tis" for i
  proof -
    have "previous_output (tis ! i) = prev_outpoint (inputs ! i)"
      using arg_cong [OF assms(1), of "\<lambda>xs. xs ! i"] that len by simp
    with that len show ?thesis by (intro assms(2)) auto
  qed
  have "known_amount cl client ti (f ti)" if "ti \<in> set tis" for ti
    using that known f by (metis in_set_conv_nth)
  moreover have "map f tis = map (amount \<circ> prev_out) inputs"
    using len known f by (intro nth_equalityI) auto
  ultimately show ?thesis by blast
qed

text \<open>
  C17: The fee a transaction was built for is the fee that is calculated for it. When
  \<open>construct_tx\<close> of the transaction library succeeds on inputs whose previous outputs the node
  knows with the amounts the inputs carry, then \<open>calculate_fee\<close> of the chain layer returns exactly
  the fee that \<open>construct_tx\<close> reported, in whatever order the previous transactions arrive.
\<close>

theorem constructed_fee_is_calculated:
  assumes "amount_lib_ok bl" and "input_total inputs \<le> u64_max" and "destination_total d \<le> u64_max"
    and "construct_tx bl inputs d ft = Ok (tx, fee)"
    and "mset (order (tx_inputs tx)) = mset (tx_inputs tx)"
    and "\<And>inp ti. inp \<in> set inputs \<Longrightarrow> previous_output ti = prev_outpoint inp
      \<Longrightarrow> known_amount cl client ti (amount (prev_out inp))"
  shows "calculate_fee cl client order (TxBitcoin tx) = Ok fee"
proof -
  let ?sorted = "sort_key (bip69_input_key \<circ> prev_outpoint) inputs"
  note raw = construct_tx_raw [OF assms(4)]
  have total: "output_total (tx_outputs tx) + unat fee = input_total inputs"
    using construct_raw_total [OF assms(1) _ assms(3) raw] assms(2) by simp
  obtain f where f: "\<And>ti. ti \<in> set (tx_inputs tx) \<Longrightarrow> known_amount cl client ti (f ti)"
    "map f (tx_inputs tx) = map (amount \<circ> prev_out) ?sorted"
    using constructed_input_amounts [OF construct_raw_previous_outputs [OF raw], of cl client] assms(6)
    by auto
  have "sum_list (map (unat \<circ> amount \<circ> prev_out) ?sorted) = input_total inputs"
    using input_total_sort [of "bip69_input_key \<circ> prev_outpoint" inputs] by (simp only: input_total_def)
  then have "unat (sum_list (map f (tx_inputs tx))) = input_total inputs"
    unfolding f(2) using unat_sum_list [of "amount \<circ> prev_out" ?sorted] assms(2) by (simp add: comp_assoc)
  moreover have "unat (sum_list (map amount (tx_outputs tx))) = output_total (tx_outputs tx)"
    using unat_sum_list [of amount "tx_outputs tx"] total assms(2) by (simp add: output_total_def)
  ultimately have "checked_sub (sum_list (map f (tx_inputs tx))) (sum_list (map amount (tx_outputs tx))) = Some fee"
    using total by (simp add: checked_sub_Some_iff)
  moreover have "calculate_fee cl client order (TxBitcoin tx) = ok_or ChInputLessThanOutput
      (checked_sub (sum_list (map f (tx_inputs tx))) (sum_list (map amount (tx_outputs tx))))"
    using assms(5) f(1) by (rule calculate_fee_value)
  ultimately show ?thesis by simp
qed

definition example_funding_tx :: transaction where
  "example_funding_tx = \<lparr>tx_version = 2, tx_lock_time = 0, tx_inputs = [],
     tx_outputs = map (\<lambda>a. \<lparr>amount = a, out_script = []\<rparr>) [7000, 5000, 8000]\<rparr>"

theorem constructed_fee_is_calculated_witness:
  "\<exists>tx. construct_tx example_bl example_inputs example_destination (Absolute 1000) = Ok (tx, 1000)
     \<and> calculate_fee (example_chain_lib\<lparr>cl_btc_deserialize := \<lambda>_. Some example_funding_tx\<rparr>)
         (\<lambda>_. Some []) rev (TxBitcoin tx) = Ok 1000"
proof -
  from example_built obtain tx where tx:
    "construct_tx example_bl example_inputs example_destination (Absolute 1000) = Ok (tx, 1000)" ..
  have totals: "input_total example_inputs \<le> u64_max" "destination_total example_destination \<le> u64_max"
    by (simp_all add: input_total_def example_inputs_def example_destination_def u64_max_def)
  have "calculate_fee (example_chain_lib\<lparr>cl_btc_deserialize := \<lambda>_. Some example_funding_tx\<rparr>)
      (\<lambda>_. Some []) rev (TxBitcoin tx) = Ok 1000"
  proof (rule constructed_fee_is_calculated [OF example_bl_ok(2) totals tx])
    show "known_amount (example_chain_lib\<lparr>cl_btc_deserialize := \<lambda>_. Some example_funding_tx\<rparr>)
        (\<lambda>_. Some []) ti (amount (prev_out inp))"
      if "inp \<in> set example_inputs" "previous_output ti = prev_outpoint inp" for inp ti
      using that by (auto simp: known_amount_def input_amount_def example_chain_lib_def
          example_funding_tx_def example_inputs_def)
  qed simp
  with tx show ?thesis by blast
qed

end
